(* ===== verification/Relay_Prelude.thy ===== *)
theory Relay_Prelude
  imports Complex_Main "HOL-Library.AList"
begin

text \<open>
  Shared vocabulary of the development: the simplification collections of the components,
  the Python exceptions the sources raise, insertion-ordered dictionaries (\<open>dict\<close> and
  \<open>collections.OrderedDict\<close>) as association lists, and the few string methods the sources
  call. Strings are lists of 8-bit characters and stand for ASCII text.
  \<open>datetime\<close> values are integers counting microseconds; the floats the sources compute with
  (token buckets, timeouts, costs) are exact rationals.
\<close>

named_theorems od_simps \<open>laws of insertion-ordered dictionaries\<close>
named_theorems py_simps \<open>evaluation of the Python built-ins\<close>
named_theorems bus_simps \<open>definitions of the event bus\<close>
named_theorems store_simps \<open>definitions of the SQL store\<close>
named_theorems hitl_simps \<open>definitions of the HITL coordinator\<close>
named_theorems mgr_simps \<open>definitions of the session manager\<close>
named_theorems rate_simps \<open>definitions of the rate limiters\<close>

section \<open>Exceptions\<close>

text \<open>
  The built-in exception classes that the modelled functions can raise, and SQLAlchemy's
  \<open>IntegrityError\<close> for a violated key.
\<close>

datatype py_exn =
    TypeError
  | ValueError
  | OverflowError
  | KeyError
  | IndexError
  | LookupError
  | RuntimeError
  | ZeroDivisionError
  | IntegrityError
  | AttributeError

section \<open>Result values\<close>

text \<open>
  A call that may raise and that changes state returns the outcome (\<open>Inl\<close> an exception) and
  the state it left behind, since Python keeps the mutations made before the raise.
\<close>

definition bind_res :: "('e + 'a) \<times> 's \<Rightarrow> ('a \<Rightarrow> 's \<Rightarrow> ('e + 'b) \<times> 's) \<Rightarrow> ('e + 'b) \<times> 's" where
  "bind_res m f = (case m of (Inl e, s) \<Rightarrow> (Inl e, s) | (Inr a, s) \<Rightarrow> f a s)"

lemma bind_res_simps [simp]:
  "bind_res (Inl e, s) f = (Inl e, s)"
  "bind_res (Inr a, s) f = f a s"
  by (simp_all add: bind_res_def)

lemma bind_res_Inr_iff:
  "bind_res m f = (Inr b, t) \<longleftrightarrow> (\<exists>a s. m = (Inr a, s) \<and> f a s = (Inr b, t))"
  by (auto simp: bind_res_def split: prod.splits sum.splits)

section \<open>Insertion-ordered dictionaries\<close>

text \<open>
  \<open>AList.update\<close> is Python's \<open>d[k] = v\<close> (in place for a present key, at the end for a new
  one), \<open>AList.delete\<close> is \<open>d.pop(k, None)\<close>, \<open>map_of\<close> is \<open>d.get(k)\<close>.
\<close>

type_synonym ('k, 'v) od = "('k \<times> 'v) list"

abbreviation od_keys :: "('k, 'v) od \<Rightarrow> 'k list" where
  "od_keys d \<equiv> map fst d"

definition od_wf :: "('k, 'v) od \<Rightarrow> bool" where
  "od_wf d \<longleftrightarrow> distinct (od_keys d)"

definition od_move_to_end :: "'k \<Rightarrow> ('k, 'v) od \<Rightarrow> ('k, 'v) od" where
  "od_move_to_end k d =
     (case map_of d k of None \<Rightarrow> d | Some v \<Rightarrow> AList.delete k d @ [(k, v)])"

definition od_setdefault :: "'k \<Rightarrow> 'v \<Rightarrow> ('k, 'v) od \<Rightarrow> ('k, 'v) od" where
  "od_setdefault k v d = (case map_of d k of None \<Rightarrow> d @ [(k, v)] | Some _ \<Rightarrow> d)"

lemma od_keys_update [od_simps]:
  "od_keys (AList.update k v d) = (if k \<in> set (od_keys d) then od_keys d else od_keys d @ [k])"
  by (induction d) auto

lemma od_keys_delete [od_simps]: "od_keys (AList.delete k d) = filter (\<lambda>x. x \<noteq> k) (od_keys d)"
  by (induction d) (auto simp: AList.delete_eq)

lemma od_wf_Nil [simp]: "od_wf []"
  by (simp add: od_wf_def)

lemma od_wf_update [simp]: "od_wf d \<Longrightarrow> od_wf (AList.update k v d)"
  by (simp add: od_wf_def od_simps)

lemma od_wf_delete [simp]: "od_wf d \<Longrightarrow> od_wf (AList.delete k d)"
  by (simp add: od_wf_def od_simps)

lemma od_keys_move_to_end [od_simps]:
  "od_keys (od_move_to_end k d) =
     (if k \<in> set (od_keys d) then filter (\<lambda>x. x \<noteq> k) (od_keys d) @ [k] else od_keys d)"
proof (cases "map_of d k")
  case None
  then have "k \<notin> set (od_keys d)" by (simp add: map_of_eq_None_iff)
  with None show ?thesis by (simp add: od_move_to_end_def)
next
  case (Some v)
  then have "k \<in> set (od_keys d)" by (force dest: map_of_SomeD)
  with Some show ?thesis by (simp add: od_move_to_end_def od_keys_delete)
qed

lemma od_wf_move_to_end [simp]: "od_wf d \<Longrightarrow> od_wf (od_move_to_end k d)"
  by (simp add: od_wf_def od_simps)

lemma od_get_update [od_simps]: "map_of (AList.update k v d) = (map_of d)(k \<mapsto> v)"
  by (rule update_conv')

lemma od_get_delete [od_simps]: "map_of (AList.delete k d) = (map_of d)(k := None)"
  by (rule delete_conv')

lemma od_get_move_to_end [od_simps]: "map_of (od_move_to_end k d) = map_of d"
  by (rule ext) (auto simp: od_move_to_end_def map_add_def od_simps split: option.splits)

lemma od_get_None [od_simps]: "map_of d k = None \<longleftrightarrow> k \<notin> set (od_keys d)"
  by (simp add: map_of_eq_None_iff)

lemma od_get_mem: "map_of d k = Some v \<Longrightarrow> k \<in> set (od_keys d)"
  by (force dest: map_of_SomeD)

lemma od_wf_get: "od_wf d \<Longrightarrow> (k, v) \<in> set d \<Longrightarrow> map_of d k = Some v"
  by (simp add: od_wf_def)

lemma od_delete_absent: "k \<notin> set (od_keys d) \<Longrightarrow> AList.delete k d = d"
  by (induction d) (auto simp: AList.delete_eq)

lemma od_update_new: "k \<notin> set (od_keys d) \<Longrightarrow> AList.update k v d = d @ [(k, v)]"
  by (induction d) auto

lemma length_filter_neq:
  "distinct xs \<Longrightarrow> length (filter (\<lambda>x. x \<noteq> k) xs) = (if k \<in> set xs then length xs - 1 else length xs)"
  by (induction xs) (auto simp: Suc_diff_1 dest: length_pos_if_in_set)

section \<open>Strings\<close>

definition char_lower :: "char \<Rightarrow> char" where
  "char_lower c = (let n = of_char c :: nat in if 65 \<le> n \<and> n \<le> 90 then char_of (n + 32) else c)"

definition str_lower :: "string \<Rightarrow> string" where
  "str_lower s = map char_lower s"

definition is_space :: "char \<Rightarrow> bool" where
  "is_space c = (let n = of_char c :: nat in (9 \<le> n \<and> n \<le> 13) \<or> (28 \<le> n \<and> n \<le> 32))"

definition is_digit :: "char \<Rightarrow> bool" where
  "is_digit c = (let n = of_char c :: nat in 48 \<le> n \<and> n \<le> 57)"

definition str_strip :: "string \<Rightarrow> string" where
  "str_strip s = rev (dropWhile is_space (rev (dropWhile is_space s)))"

definition starts_with :: "string \<Rightarrow> string \<Rightarrow> bool" where
  "starts_with p s \<longleftrightarrow> take (length p) s = p"

lemma char_lower_idem [simp]: "char_lower (char_lower c) = char_lower c"
proof (cases "65 \<le> (of_char c :: nat) \<and> (of_char c :: nat) \<le> 90")
  case True
  then have "(of_char (char_of ((of_char c :: nat) + 32) :: char) :: nat) = of_char c + 32"
    by simp
  with True show ?thesis by (simp add: char_lower_def Let_def)
next
  case False
  then have "char_lower c = c" by (auto simp: char_lower_def Let_def)
  then show ?thesis by simp
qed

lemma str_lower_idem [simp]: "str_lower (str_lower s) = str_lower s"
  by (simp add: str_lower_def)

lemma starts_with_append [simp]: "starts_with p (p @ s)"
  by (simp add: starts_with_def)

lemma starts_with_iff: "starts_with p s \<longleftrightarrow> (\<exists>r. s = p @ r)"
  by (metis append_eq_conv_conj append_take_drop_id starts_with_def)

section \<open>Numbers as text\<close>

text \<open>\<open>str(n)\<close> for the counters that the sources interpolate into request ids.\<close>

fun str_nat :: "nat \<Rightarrow> string" where
  "str_nat n = (if n < 10 then [char_of (48 + n)] else str_nat (n div 10) @ [char_of (48 + n mod 10)])"

declare str_nat.simps [simp del]

definition digit_val :: "char \<Rightarrow> nat" where
  "digit_val c = of_char c - 48"

definition digits_value :: "string \<Rightarrow> nat" where
  "digits_value s = foldl (\<lambda>a c. 10 * a + digit_val c) 0 s"

lemma digits_value_snoc [simp]: "digits_value (s @ [c]) = 10 * digits_value s + digit_val c"
  by (simp add: digits_value_def)

lemma digits_value_Nil [simp]: "digits_value [] = 0"
  by (simp add: digits_value_def)

lemma digit_val_char [simp]: "d < 10 \<Longrightarrow> digit_val (char_of (48 + d)) = d"
  by (simp add: digit_val_def)

lemma str_nat_value: "digits_value (str_nat n) = n"
proof (induction n rule: str_nat.induct)
  case (1 n)
  show ?case
  proof (cases "n < 10")
    case True
    then show ?thesis
      using digits_value_snoc [of "[]" "char_of (48 + n)"] by (simp add: str_nat.simps [of n])
  next
    case False
    with "1.IH" have "digits_value (str_nat (n div 10)) = n div 10" by simp
    with False show ?thesis by (simp add: str_nat.simps [of n])
  qed
qed

lemma str_nat_inj: "str_nat m = str_nat n \<longleftrightarrow> m = n"
  by (metis str_nat_value)

lemma str_nat_digits: "\<forall>c \<in> set (str_nat n). is_digit c"
proof (induction n rule: str_nat.induct)
  case (1 n)
  have d: "is_digit (char_of (48 + k))" if "k < 10" for k :: nat
    using that by (simp add: is_digit_def)
  show ?case
  proof (cases "n < 10")
    case True
    then show ?thesis by (simp add: str_nat.simps [of n] d)
  next
    case False
    with "1.IH" have "\<forall>c \<in> set (str_nat (n div 10)). is_digit c" by simp
    with False show ?thesis by (auto simp: str_nat.simps [of n] intro: d)
  qed
qed

lemma str_nat_nonempty [simp]: "str_nat n \<noteq> []"
  by (simp add: str_nat.simps [of n])

end
