(* ===== verification/Py_Values.thy ===== *)
theory Py_Values
  imports Relay_Prelude
begin

text \<open>
  The dynamically typed values that travel in frame payloads, spec dictionaries and row
  columns (\<open>dict[str, Any]\<close> in the sources), with the Python built-ins that the sources apply
  to them: truth value, \<open>int\<close>, \<open>float\<close>, \<open>str\<close> tests, \<open>dict\<close>, iteration. Every
  built-in that can raise returns a sum. Dictionary keys are values too, since a payload may
  hold \<open>dict([[1, 2]])\<close>; numeric keys are equal across \<open>bool\<close>, \<open>int\<close> and \<open>float\<close> as in Python.
\<close>

section \<open>Values\<close>

datatype pyfloat = Fin rat | PosInf | NegInf | NaN

datatype pyval =
    PNone
  | PBool bool
  | PInt int
  | PFloat pyfloat
  | PStr string
  | PList "pyval list"
  | PTuple "pyval list"
  | PDict "(pyval \<times> pyval) list"

type_synonym pydict = "(pyval \<times> pyval) list"

definition dget :: "pydict \<Rightarrow> string \<Rightarrow> pyval" where
  "dget d k = (case map_of d (PStr k) of None \<Rightarrow> PNone | Some v \<Rightarrow> v)"

definition dget_default :: "pydict \<Rightarrow> string \<Rightarrow> pyval \<Rightarrow> pyval" where
  "dget_default d k v0 = (case map_of d (PStr k) of None \<Rightarrow> v0 | Some v \<Rightarrow> v)"

fun py_truthy :: "pyval \<Rightarrow> bool" where
  "py_truthy PNone = False"
| "py_truthy (PBool b) = b"
| "py_truthy (PInt i) = (i \<noteq> 0)"
| "py_truthy (PFloat f) = (f \<noteq> Fin 0)"
| "py_truthy (PStr s) = (s \<noteq> [])"
| "py_truthy (PList xs) = (xs \<noteq> [])"
| "py_truthy (PTuple xs) = (xs \<noteq> [])"
| "py_truthy (PDict d) = (d \<noteq> [])"

definition py_or :: "pyval \<Rightarrow> pyval \<Rightarrow> pyval" where
  "py_or a b = (if py_truthy a then a else b)"

fun as_str :: "pyval \<Rightarrow> string option" where
  "as_str (PStr s) = Some s"
| "as_str _ = None"

fun as_dict :: "pyval \<Rightarrow> pydict option" where
  "as_dict (PDict d) = Some d"
| "as_dict _ = None"

section \<open>Integers\<close>

text \<open>
  \<open>int(text)\<close>: surrounding white space, one sign, decimal digits with single underscores
  between them, at most 4300 digits.
\<close>

fun strip_underscores :: "string \<Rightarrow> string option" where
  "strip_underscores [] = None"
| "strip_underscores [c] = (if is_digit c then Some [c] else None)"
| "strip_underscores (c # d # s) =
     (if \<not> is_digit c then None
      else if d = CHR ''_'' then map_option ((#) c) (strip_underscores s)
      else map_option ((#) c) (strip_underscores (d # s)))"

definition int_of_digits :: "string \<Rightarrow> py_exn + int" where
  "int_of_digits s = (case strip_underscores s of
     None \<Rightarrow> Inl ValueError
   | Some ds \<Rightarrow> if length ds > 4300 then Inl ValueError else Inr (int (digits_value ds)))"

definition int_of_str :: "string \<Rightarrow> py_exn + int" where
  "int_of_str s = (case str_strip s of
     [] \<Rightarrow> Inl ValueError
   | c # cs \<Rightarrow>
       if c = CHR ''-'' then map_sum id uminus (int_of_digits cs)
       else if c = CHR ''+'' then int_of_digits cs
       else int_of_digits (c # cs))"

definition trunc_rat :: "rat \<Rightarrow> int" where
  "trunc_rat r = (if r < 0 then - \<lfloor>- r\<rfloor> else \<lfloor>r\<rfloor>)"

fun py_int :: "pyval \<Rightarrow> py_exn + int" where
  "py_int (PBool b) = Inr (if b then 1 else 0)"
| "py_int (PInt i) = Inr i"
| "py_int (PFloat (Fin r)) = Inr (trunc_rat r)"
| "py_int (PFloat NaN) = Inl ValueError"
| "py_int (PFloat _) = Inl OverflowError"
| "py_int (PStr s) = int_of_str s"
| "py_int _ = Inl TypeError"

section \<open>Floats\<close>

text \<open>Values beyond the largest finite double: text rounds to infinity, \<open>float(int)\<close> raises.\<close>

definition float_bound :: rat where
  "float_bound = 2 ^ 1024 - 2 ^ 970"

definition round_float :: "rat \<Rightarrow> pyfloat" where
  "round_float r = (if r \<ge> float_bound then PosInf else if r \<le> - float_bound then NegInf else Fin r)"

text \<open>The fraction and exponent of a decimal literal, after its integer digits.\<close>

fun span_digits :: "string \<Rightarrow> string \<times> string" where
  "span_digits [] = ([], [])"
| "span_digits (c # s) =
     (if is_digit c \<or> c = CHR ''_'' then (let (ds, r) = span_digits s in (c # ds, r)) else ([], c # s))"

definition opt_digits :: "string \<Rightarrow> nat option" where
  "opt_digits s = (if s = [] then Some 0 else map_option digits_value (strip_underscores s))"

definition parse_exponent :: "string \<Rightarrow> int option" where
  "parse_exponent s = (case s of
     [] \<Rightarrow> Some 0
   | c # cs \<Rightarrow> if c \<noteq> CHR ''e'' then None else
      (case cs of
         [] \<Rightarrow> None
       | d # ds \<Rightarrow>
          if d = CHR ''-'' then map_option (\<lambda>n. - int (digits_value n)) (strip_underscores ds)
          else if d = CHR ''+'' then map_option (\<lambda>n. int (digits_value n)) (strip_underscores ds)
          else map_option (\<lambda>n. int (digits_value n)) (strip_underscores (d # ds))))"

definition pow10 :: "int \<Rightarrow> rat" where
  "pow10 e = (if e \<ge> 0 then 10 ^ nat e else 1 / 10 ^ nat (- e))"

definition parse_unsigned_float :: "string \<Rightarrow> pyfloat option" where
  "parse_unsigned_float s =
     (if s = ''inf'' \<or> s = ''infinity'' then Some PosInf
      else if s = ''nan'' then Some NaN
      else
        (let (ip, r) = span_digits s;
             (fp, r') = (case r of c # cs \<Rightarrow> if c = CHR ''.'' then span_digits cs else ([], r) | [] \<Rightarrow> ([], []))
         in if ip = [] \<and> fp = [] then None
            else (case (opt_digits ip, opt_digits fp, parse_exponent r') of
                    (Some i, Some f, Some e) \<Rightarrow>
                      Some (round_float ((of_nat i + of_nat f / 10 ^ length (filter is_digit fp)) * pow10 e))
                  | _ \<Rightarrow> None)))"

definition neg_float :: "pyfloat \<Rightarrow> pyfloat" where
  "neg_float f = (case f of Fin r \<Rightarrow> Fin (- r) | PosInf \<Rightarrow> NegInf | NegInf \<Rightarrow> PosInf | NaN \<Rightarrow> NaN)"

definition float_of_str :: "string \<Rightarrow> py_exn + pyfloat" where
  "float_of_str s =
     (let t = str_lower (str_strip s);
          r = (case t of
                 [] \<Rightarrow> None
               | c # cs \<Rightarrow> if c = CHR ''-'' then map_option neg_float (parse_unsigned_float cs)
                          else if c = CHR ''+'' then parse_unsigned_float cs
                          else parse_unsigned_float (c # cs))
      in case r of None \<Rightarrow> Inl ValueError | Some f \<Rightarrow> Inr f)"

fun py_float :: "pyval \<Rightarrow> py_exn + pyfloat" where
  "py_float (PBool b) = Inr (Fin (if b then 1 else 0))"
| "py_float (PInt i) =
     (if \<bar>of_int i\<bar> \<ge> float_bound then Inl OverflowError else Inr (Fin (of_int i)))"
| "py_float (PFloat f) = Inr f"
| "py_float (PStr s) = float_of_str s"
| "py_float _ = Inl TypeError"

section \<open>Containers\<close>

fun num_value :: "pyval \<Rightarrow> rat option" where
  "num_value (PBool b) = Some (if b then 1 else 0)"
| "num_value (PInt i) = Some (of_int i)"
| "num_value (PFloat (Fin r)) = Some r"
| "num_value _ = None"

fun hashable :: "pyval \<Rightarrow> bool" where
  "hashable (PList _) = False"
| "hashable (PDict _) = False"
| "hashable (PTuple xs) = list_all hashable xs"
| "hashable _ = True"

fun key_eq :: "pyval \<Rightarrow> pyval \<Rightarrow> bool" and keys_eq :: "pyval list \<Rightarrow> pyval list \<Rightarrow> bool" where
  "key_eq (PTuple xs) b = (case b of PTuple ys \<Rightarrow> keys_eq xs ys | _ \<Rightarrow> False)"
| "key_eq (PFloat NaN) b = False"
| "key_eq a b = (case num_value a of Some r \<Rightarrow> num_value b = Some r | None \<Rightarrow> a = b)"
| "keys_eq [] [] = True"
| "keys_eq (x # xs) (y # ys) = (key_eq x y \<and> keys_eq xs ys)"
| "keys_eq _ _ = False"

fun dict_put :: "pyval \<Rightarrow> pyval \<Rightarrow> pydict \<Rightarrow> pydict" where
  "dict_put k v [] = [(k, v)]"
| "dict_put k v ((k', v') # d) = (if key_eq k' k then (k', v) # d else (k', v') # dict_put k v d)"

text \<open>\<open>iter(v)\<close>: what a \<open>for\<close> loop over the value visits.\<close>

fun py_iter :: "pyval \<Rightarrow> py_exn + pyval list" where
  "py_iter (PStr s) = Inr (map (\<lambda>c. PStr [c]) s)"
| "py_iter (PList xs) = Inr xs"
| "py_iter (PTuple xs) = Inr xs"
| "py_iter (PDict d) = Inr (map fst d)"
| "py_iter _ = Inl TypeError"

fun dict_of_pairs :: "pydict \<Rightarrow> pyval list \<Rightarrow> py_exn + pydict" where
  "dict_of_pairs acc [] = Inr acc"
| "dict_of_pairs acc (p # ps) = (case py_iter p of
     Inl e \<Rightarrow> Inl e
   | Inr [k, v] \<Rightarrow> if hashable k then dict_of_pairs (dict_put k v acc) ps else Inl TypeError
   | Inr _ \<Rightarrow> Inl ValueError)"

fun py_dict :: "pyval \<Rightarrow> py_exn + pydict" where
  "py_dict (PDict d) = Inr d"
| "py_dict v = (case py_iter v of Inl e \<Rightarrow> Inl e | Inr xs \<Rightarrow> dict_of_pairs [] xs)"

lemma py_dict_or_empty [simp]:
  "py_dict (py_or PNone (PDict [])) = Inr []"
  "py_dict (py_or (PDict d) (PDict [])) = Inr d"
  by (auto simp: py_or_def)

section \<open>Facts the components share\<close>

lemma dget_Nil [simp]: "dget [] k = PNone"
  by (simp add: dget_def)

lemma dget_Cons [simp]:
  "dget ((k', v) # d) k = (if k' = PStr k then v else dget d k)"
  by (auto simp: dget_def)

lemma dget_append_absent: "PStr k \<notin> set (map fst d) \<Longrightarrow> dget (d @ e) k = dget e k"
  by (auto simp: dget_def map_add_def map_of_eq_None_iff [symmetric] split: option.splits)

lemma strip_underscores_digits:
  "s \<noteq> [] \<Longrightarrow> \<forall>c \<in> set s. is_digit c \<Longrightarrow> strip_underscores s = Some s"
proof (induction s rule: strip_underscores.induct)
  case (3 c d s)
  then have "is_digit d" by simp
  then have "d \<noteq> CHR ''_''" by (auto simp: is_digit_def)
  with 3 show ?case by simp
qed auto

lemma digit_not_space: "is_digit c \<Longrightarrow> \<not> is_space c"
  by (auto simp: is_digit_def is_space_def Let_def)

lemma str_strip_digits: "\<forall>c \<in> set s. is_digit c \<Longrightarrow> str_strip s = s"
proof -
  assume d: "\<forall>c \<in> set s. is_digit c"
  have "dropWhile is_space s = s" using d by (cases s) (auto dest: digit_not_space)
  moreover have "dropWhile is_space (rev s) = rev s"
    using d by (cases "rev s") (auto dest: digit_not_space simp: rev_eq_Cons_iff)
  ultimately show ?thesis by (simp add: str_strip_def)
qed

text \<open>Round trip of decimal text: \<open>int(str(n)) = n\<close> within Python's digit limit.\<close>

lemma int_of_str_str_nat: "length (str_nat n) \<le> 4300 \<Longrightarrow> int_of_str (str_nat n) = Inr (int n)"
proof -
  assume len: "length (str_nat n) \<le> 4300"
  obtain c cs where s: "str_nat n = c # cs" by (cases "str_nat n") auto
  have "is_digit c" using str_nat_digits [of n] s by simp
  then have "c \<noteq> CHR ''-''" "c \<noteq> CHR ''+''" by (auto simp: is_digit_def)
  moreover have "strip_underscores (c # cs) = Some (c # cs)"
    using str_nat_digits [of n] s by (intro strip_underscores_digits) auto
  ultimately show ?thesis
    using s len str_strip_digits [OF str_nat_digits, of n] str_nat_value [of n]
    by (simp add: int_of_str_def int_of_digits_def)
qed

end
