(* ===== verification/Session_Domain.thy ===== *)
theory Session_Domain
  imports Py_Values "HOL-Library.Sublist"
begin

text \<open>
  The domain layer of the relay: the session life cycle of \<open>core/domain.py\<close> (the state
  enumeration, its terminal states, the table of legal transitions) and the classification of
  runtime failures of \<open>core/exceptions.py\<close>.
\<close>

section \<open>Session states (core/domain.py)\<close>

datatype session_state =
    QUEUED | RUNNING | PAUSED | COMPLETED | FAILED | CANCELLED | INTERRUPTED

text \<open>The string values of the enumeration, as stored in the \<open>sessions.status\<close> column.\<close>

fun state_value :: "session_state \<Rightarrow> string" where
  "state_value QUEUED = ''queued''"
| "state_value RUNNING = ''running''"
| "state_value PAUSED = ''paused''"
| "state_value COMPLETED = ''completed''"
| "state_value FAILED = ''failed''"
| "state_value CANCELLED = ''cancelled''"
| "state_value INTERRUPTED = ''interrupted''"

definition all_states :: "session_state list" where
  "all_states = [QUEUED, RUNNING, PAUSED, COMPLETED, FAILED, CANCELLED, INTERRUPTED]"

text \<open>\<open>SessionState(value)\<close>: the constructor raises \<open>ValueError\<close> on an unknown string.\<close>

definition parse_state :: "string \<Rightarrow> py_exn + session_state" where
  "parse_state v = (case filter (\<lambda>s. state_value s = v) all_states of
     [] \<Rightarrow> Inl ValueError | s # _ \<Rightarrow> Inr s)"

definition TERMINAL_STATES :: "session_state list" where
  "TERMINAL_STATES = [COMPLETED, FAILED, CANCELLED, INTERRUPTED]"

fun LEGAL_TRANSITIONS :: "session_state \<Rightarrow> session_state list" where
  "LEGAL_TRANSITIONS QUEUED = [RUNNING, CANCELLED, INTERRUPTED]"
| "LEGAL_TRANSITIONS RUNNING = [PAUSED, COMPLETED, FAILED, CANCELLED, INTERRUPTED]"
| "LEGAL_TRANSITIONS PAUSED = [RUNNING, CANCELLED, INTERRUPTED]"
| "LEGAL_TRANSITIONS COMPLETED = []"
| "LEGAL_TRANSITIONS FAILED = []"
| "LEGAL_TRANSITIONS CANCELLED = []"
| "LEGAL_TRANSITIONS INTERRUPTED = []"

definition is_legal_transition :: "session_state \<Rightarrow> session_state \<Rightarrow> bool" where
  "is_legal_transition from_state to_state \<longleftrightarrow> to_state \<in> set (LEGAL_TRANSITIONS from_state)"

abbreviation is_terminal :: "session_state \<Rightarrow> bool" where
  "is_terminal s \<equiv> s \<in> set TERMINAL_STATES"

section \<open>Error taxonomy (core/exceptions.py)\<close>

datatype sdk_category = Connect | Query | Permission | Transport | Timeout | Unknown

fun category_name :: "sdk_category \<Rightarrow> string" where
  "category_name Connect = ''connect''"
| "category_name Query = ''query''"
| "category_name Permission = ''permission''"
| "category_name Transport = ''transport''"
| "category_name Timeout = ''timeout''"
| "category_name Unknown = ''unknown''"

fun http_status :: "sdk_category \<Rightarrow> nat" where
  "http_status Connect = 503"
| "http_status Query = 400"
| "http_status Permission = 403"
| "http_status Transport = 502"
| "http_status Timeout = 504"
| "http_status Unknown = 500"

text \<open>
  A raised exception as the classifier sees it: an \<open>SDKError\<close> of some category, or any other
  exception with its class name; both with the text of \<open>str(exc)\<close>.
\<close>

datatype raised =
    SDKError sdk_category string
  | OtherError string string

fun raised_message :: "raised \<Rightarrow> string" where
  "raised_message (SDKError _ msg) = msg"
| "raised_message (OtherError _ msg) = msg"

definition contains :: "string \<Rightarrow> string \<Rightarrow> bool" where
  "contains needle s \<longleftrightarrow> sublist needle s"

fun classify_sdk_error :: "raised \<Rightarrow> raised" where
  "classify_sdk_error (SDKError c msg) = SDKError c msg"
| "classify_sdk_error (OtherError cls msg) =
     (let name = str_lower cls; m = str_lower msg in
      if contains ''timeout'' name \<or> contains ''timeout'' m \<or> contains ''timed out'' m
      then SDKError Timeout msg
      else if contains ''permission'' name \<or> contains ''forbidden'' m \<or> contains ''unauthorized'' m
              \<or> contains ''401'' m \<or> contains ''403'' m
      then SDKError Permission msg
      else if contains ''connect'' name \<or> contains ''connection'' m \<or> contains ''refused'' m
              \<or> contains ''unreachable'' m
      then SDKError Connect msg
      else if contains ''transport'' name \<or> contains ''protocol'' m \<or> contains ''handshake'' m
      then SDKError Transport msg
      else if contains ''query'' name \<or> contains ''invalid'' m \<or> contains ''malformed'' m
              \<or> contains ''bad request'' m
      then SDKError Query msg
      else SDKError Unknown msg)"

definition error_category :: "raised \<Rightarrow> sdk_category" where
  "error_category e = (case classify_sdk_error e of SDKError c _ \<Rightarrow> c | OtherError _ _ \<Rightarrow> Unknown)"

section \<open>Lemmas\<close>

lemma state_value_inj: "state_value a = state_value b \<longleftrightarrow> a = b"
  by (cases a; cases b) auto

lemma parse_state_value: "parse_state (state_value s) = Inr s"
  by (cases s) (simp_all add: parse_state_def all_states_def)

lemma parse_state_Inr: "parse_state v = Inr s \<Longrightarrow> v = state_value s"
  by (auto simp: parse_state_def all_states_def split: list.splits if_splits)

lemma terminal_no_transition: "is_terminal s \<longleftrightarrow> LEGAL_TRANSITIONS s = []"
  by (cases s) (simp_all add: TERMINAL_STATES_def)

lemma classify_is_sdk: "\<exists>c. classify_sdk_error e = SDKError c (raised_message e)"
  by (cases e) (auto simp: Let_def)

text \<open>Paths of the life cycle: every consecutive pair is a legal transition.\<close>

fun legal_path :: "session_state list \<Rightarrow> bool" where
  "legal_path (a # b # ss) \<longleftrightarrow> is_legal_transition a b \<and> legal_path (b # ss)"
| "legal_path _ \<longleftrightarrow> True"

lemma legal_path_terminal_last:
  "legal_path ss \<Longrightarrow> i < length ss \<Longrightarrow> is_terminal (ss ! i) \<Longrightarrow> i = length ss - 1"
proof (induction ss arbitrary: i rule: legal_path.induct)
  case (1 a b ss)
  show ?case
  proof (cases i)
    case 0
    with "1.prems" show ?thesis by (simp add: is_legal_transition_def terminal_no_transition)
  next
    case (Suc j)
    with "1.prems" "1.IH" [of j] show ?thesis by simp
  qed
qed auto

text \<open>
  along any path of legal transitions a terminal state (completed, failed, cancelled,
  interrupted) can only be the last one, and from every state some terminal state is reachable
  by legal transitions.
\<close>

lemma terminal_states_absorbing:
  "(\<forall>ss i. legal_path ss \<longrightarrow> i < length ss \<longrightarrow> is_terminal (ss ! i) \<longrightarrow> i = length ss - 1)
   \<and> (\<exists>ss. legal_path (s # ss) \<and> is_terminal (last (s # ss)))"
proof
  show "\<forall>ss i. legal_path ss \<longrightarrow> i < length ss \<longrightarrow> is_terminal (ss ! i) \<longrightarrow> i = length ss - 1"
    using legal_path_terminal_last by blast
  have "legal_path (s # (if is_terminal s then [] else [CANCELLED]))
        \<and> is_terminal (last (s # (if is_terminal s then [] else [CANCELLED])))"
    by (cases s) (simp_all add: TERMINAL_STATES_def is_legal_transition_def)
  then show "\<exists>ss. legal_path (s # ss) \<and> is_terminal (last (s # ss))" by blast
qed

lemma terminal_states_absorbing_witness:
  "legal_path [QUEUED, RUNNING, PAUSED, RUNNING, COMPLETED]
   \<and> is_terminal ([QUEUED, RUNNING, PAUSED, RUNNING, COMPLETED] ! 4)
   \<and> 4 = length [QUEUED, RUNNING, PAUSED, RUNNING, COMPLETED] - 1"
proof -
  have p: "legal_path [QUEUED, RUNNING, PAUSED, RUNNING, COMPLETED]"
    by (simp add: is_legal_transition_def)
  have t: "is_terminal ([QUEUED, RUNNING, PAUSED, RUNNING, COMPLETED] ! 4)"
    by (simp add: TERMINAL_STATES_def)
  have "4 < length [QUEUED, RUNNING, PAUSED, RUNNING, COMPLETED]" by simp
  from terminal_states_absorbing [of QUEUED, THEN conjunct1, rule_format, OF p this t] p t show ?thesis by blast
qed

end
