(* ===== verification/Relay_Events.thy ===== *)
theory Relay_Events
  imports Session_Domain
begin

text \<open>
  The typed event hierarchy of \<open>core/events.py\<close> and the table that lifts a wire frame into an
  event. Every concrete subclass of \<open>RelayEvent\<close> is a constructor of \<open>event_body\<close> with the
  fields of the dataclass in their order; the fields of the root class are the record
  \<open>relay_event\<close>. The default factories of \<open>event_id\<close> and \<open>occurred_at\<close> (a fresh UUID, the
  clock) are arguments.
\<close>

section \<open>Events\<close>

datatype tier = Lossy | Durable

datatype event_body =
    SessionCreated string string "string list"
  | SessionStateChanged string string string "string option"
  | SessionOutputChunk string int string pydict
  | SessionCompleted string string "(string \<times> int) list" pyfloat
  | HITLRequested string string string pydict
  | HITLResolved string string string "string option" "string option"
  | ToolRequested string int string string pydict
  | ToolResolved string int string bool pydict "string option"
  | ToolInvocationStarted string int string "string option" "string option" "string option" "string option" pydict
  | ToolInvocationFinished string int string "string option" "string option" "string option" "string option" pydict
  | SubagentCompleted string int string "string option" "string option" "string option" "string option" pydict
  | InstallDone string "string option" "string list" int
  | InstallError string int string string "string option"
  | Heartbeat string string
  | KeyInvalidated string "string list"

fun class_name :: "event_body \<Rightarrow> string" where
  "class_name (SessionCreated _ _ _) = ''SessionCreated''"
| "class_name (SessionStateChanged _ _ _ _) = ''SessionStateChanged''"
| "class_name (SessionOutputChunk _ _ _ _) = ''SessionOutputChunk''"
| "class_name (SessionCompleted _ _ _ _) = ''SessionCompleted''"
| "class_name (HITLRequested _ _ _ _) = ''HITLRequested''"
| "class_name (HITLResolved _ _ _ _ _) = ''HITLResolved''"
| "class_name (ToolRequested _ _ _ _ _) = ''ToolRequested''"
| "class_name (ToolResolved _ _ _ _ _ _) = ''ToolResolved''"
| "class_name (ToolInvocationStarted _ _ _ _ _ _ _ _) = ''ToolInvocationStarted''"
| "class_name (ToolInvocationFinished _ _ _ _ _ _ _ _) = ''ToolInvocationFinished''"
| "class_name (SubagentCompleted _ _ _ _ _ _ _ _) = ''SubagentCompleted''"
| "class_name (InstallDone _ _ _ _) = ''InstallDone''"
| "class_name (InstallError _ _ _ _ _) = ''InstallError''"
| "class_name (Heartbeat _ _) = ''Heartbeat''"
| "class_name (KeyInvalidated _ _) = ''KeyInvalidated''"

fun event_session :: "event_body \<Rightarrow> string" where
  "event_session (SessionCreated s _ _) = s"
| "event_session (SessionStateChanged s _ _ _) = s"
| "event_session (SessionOutputChunk s _ _ _) = s"
| "event_session (SessionCompleted s _ _ _) = s"
| "event_session (HITLRequested s _ _ _) = s"
| "event_session (HITLResolved s _ _ _ _) = s"
| "event_session (ToolRequested s _ _ _ _) = s"
| "event_session (ToolResolved s _ _ _ _ _) = s"
| "event_session (ToolInvocationStarted s _ _ _ _ _ _ _) = s"
| "event_session (ToolInvocationFinished s _ _ _ _ _ _ _) = s"
| "event_session (SubagentCompleted s _ _ _ _ _ _ _) = s"
| "event_session (InstallDone s _ _ _) = s"
| "event_session (InstallError s _ _ _ _) = s"
| "event_session (Heartbeat s _) = s"
| "event_session (KeyInvalidated s _) = s"

text \<open>The class-level default of \<open>delivery_tier\<close>: the root says lossy, subclasses override it.\<close>

fun default_tier :: "event_body \<Rightarrow> tier" where
  "default_tier (SessionOutputChunk _ _ _ _) = Lossy"
| "default_tier (InstallDone _ _ _ _) = Lossy"
| "default_tier (Heartbeat _ _) = Lossy"
| "default_tier _ = Durable"

record relay_event =
  event_id :: string
  occurred_at :: int
  delivery_tier :: tier
  body :: event_body

definition new_event :: "string \<Rightarrow> int \<Rightarrow> event_body \<Rightarrow> relay_event" where
  "new_event eid now b =
     \<lparr>event_id = eid, occurred_at = now, delivery_tier = default_tier b, body = b\<rparr>"

section \<open>Frame to event factories\<close>

text \<open>
  \<open>_safe_int\<close> catches \<open>TypeError\<close> and \<open>ValueError\<close> only, so the \<open>OverflowError\<close> of
  \<open>int(float('inf'))\<close> goes through.
\<close>

definition safe_int :: "pyval \<Rightarrow> py_exn + int" where
  "safe_int v = (case py_int v of
     Inr i \<Rightarrow> Inr i
   | Inl TypeError \<Rightarrow> Inr 0
   | Inl ValueError \<Rightarrow> Inr 0
   | Inl e \<Rightarrow> Inl e)"

definition safe_str :: "pyval \<Rightarrow> string \<Rightarrow> string" where
  "safe_str v d = (case as_str v of Some s \<Rightarrow> s | None \<Rightarrow> d)"

definition from_msg_chunk :: "string \<Rightarrow> pydict \<Rightarrow> py_exn + event_body" where
  "from_msg_chunk sid p = (case safe_int (dget p ''seq'') of
     Inl e \<Rightarrow> Inl e
   | Inr n \<Rightarrow> Inr (SessionOutputChunk sid n ''msg.chunk'' p))"

definition from_tool_request :: "string \<Rightarrow> pydict \<Rightarrow> py_exn + event_body" where
  "from_tool_request sid p = (case safe_int (dget p ''seq'') of
     Inl e \<Rightarrow> Inl e
   | Inr n \<Rightarrow> (case py_dict (py_or (dget p ''args'') (PDict [])) of
        Inl e \<Rightarrow> Inl e
      | Inr args \<Rightarrow> Inr (ToolRequested sid n (safe_str (dget p ''req_id'') []) (safe_str (dget p ''tool'') []) args)))"

definition from_tool_result :: "string \<Rightarrow> pydict \<Rightarrow> py_exn + event_body" where
  "from_tool_result sid p = (case safe_int (dget p ''seq'') of
     Inl e \<Rightarrow> Inl e
   | Inr n \<Rightarrow> (case py_dict (py_or (dget p ''result'') (PDict [])) of
        Inl e \<Rightarrow> Inl e
      | Inr res \<Rightarrow> Inr (ToolResolved sid n (safe_str (dget p ''req_id'') [])
           (py_truthy (dget_default p ''ok'' (PBool True))) res (as_str (dget p ''error'')))))"

record trace_fields =
  tf_seq :: int
  tf_event_type :: string
  tf_tool_name :: "string option"
  tf_tool_use_id :: "string option"
  tf_parent_tool_use_id :: "string option"
  tf_input_hash :: "string option"
  tf_input_redacted :: pydict

definition trace_fields_of :: "pydict \<Rightarrow> py_exn + trace_fields" where
  "trace_fields_of p = (case safe_int (dget p ''seq'') of
     Inl e \<Rightarrow> Inl e
   | Inr n \<Rightarrow> Inr \<lparr>tf_seq = n,
       tf_event_type = safe_str (dget p ''event_type'') (safe_str (dget p ''type'') []),
       tf_tool_name = as_str (dget p ''tool_name''),
       tf_tool_use_id = as_str (dget p ''tool_use_id''),
       tf_parent_tool_use_id = as_str (dget p ''parent_tool_use_id''),
       tf_input_hash = as_str (dget p ''input_hash''),
       tf_input_redacted = (case as_dict (dget p ''input_redacted'') of Some d \<Rightarrow> d | None \<Rightarrow> [])\<rparr>)"

definition from_hook ::
  "(string \<Rightarrow> int \<Rightarrow> string \<Rightarrow> string option \<Rightarrow> string option \<Rightarrow> string option \<Rightarrow> string option \<Rightarrow> pydict \<Rightarrow> event_body)
   \<Rightarrow> string \<Rightarrow> pydict \<Rightarrow> py_exn + event_body" where
  "from_hook cls sid p = (case trace_fields_of p of
     Inl e \<Rightarrow> Inl e
   | Inr t \<Rightarrow> Inr (cls sid (tf_seq t) (tf_event_type t) (tf_tool_name t) (tf_tool_use_id t)
                     (tf_parent_tool_use_id t) (tf_input_hash t) (tf_input_redacted t)))"

definition from_hook_pre_tool_use :: "string \<Rightarrow> pydict \<Rightarrow> py_exn + event_body" where
  "from_hook_pre_tool_use = from_hook ToolInvocationStarted"

definition from_hook_post_tool_use :: "string \<Rightarrow> pydict \<Rightarrow> py_exn + event_body" where
  "from_hook_post_tool_use = from_hook ToolInvocationFinished"

definition from_hook_subagent_stop :: "string \<Rightarrow> pydict \<Rightarrow> py_exn + event_body" where
  "from_hook_subagent_stop = from_hook SubagentCompleted"

definition from_install_done :: "string \<Rightarrow> pydict \<Rightarrow> py_exn + event_body" where
  "from_install_done sid p = (case py_iter (py_or (dget p ''modules'') (PTuple [])) of
     Inl e \<Rightarrow> Inl e
   | Inr ms \<Rightarrow> (case safe_int (dget p ''duration_ms'') of
        Inl e \<Rightarrow> Inl e
      | Inr d \<Rightarrow> Inr (InstallDone sid (as_str (dget p ''profile_id'')) (List.map_filter as_str ms) d)))"

definition from_install_error :: "string \<Rightarrow> pydict \<Rightarrow> py_exn + event_body" where
  "from_install_error sid p = (case safe_int (dget p ''seq'') of
     Inl e \<Rightarrow> Inl e
   | Inr n \<Rightarrow> Inr (InstallError sid n (safe_str (dget p ''code'') ''install_failed'')
                     (safe_str (dget p ''message'') []) None))"

definition from_error_frame :: "string \<Rightarrow> pydict \<Rightarrow> py_exn + event_body" where
  "from_error_frame sid p = (case safe_int (dget p ''seq'') of
     Inl e \<Rightarrow> Inl e
   | Inr n \<Rightarrow> Inr (InstallError sid n (safe_str (dget p ''code'') ''runtime_error'')
                     (safe_str (dget p ''message'') []) (as_str (dget p ''traceback''))))"

fun tokens_of :: "pydict \<Rightarrow> (string \<times> int) list \<Rightarrow> py_exn + (string \<times> int) list" where
  "tokens_of [] acc = Inr acc"
| "tokens_of ((k, v) # d) acc = (case as_str k of
     None \<Rightarrow> tokens_of d acc
   | Some s \<Rightarrow> (case safe_int v of
        Inl e \<Rightarrow> Inl e
      | Inr n \<Rightarrow> tokens_of d (AList.update s n acc)))"

definition end_status_of :: "pyval \<Rightarrow> string" where
  "end_status_of v = (let raw = safe_str v ''completed'' in
     if raw = ''cancelled'' then ''cancelled''
     else if raw = ''failed'' \<or> raw = ''crashed'' then ''failed''
     else ''completed'')"

definition from_session_end :: "string \<Rightarrow> pydict \<Rightarrow> py_exn + event_body" where
  "from_session_end sid p =
     (case (case as_dict (py_or (dget p ''tokens'') (PDict [])) of
              Some d \<Rightarrow> tokens_of d [] | None \<Rightarrow> Inr []) of
        Inl e \<Rightarrow> Inl e
      | Inr toks \<Rightarrow> (case py_float (py_or (dget p ''cost_usd'') (PFloat (Fin 0))) of
           Inl e \<Rightarrow> Inl e
         | Inr c \<Rightarrow> Inr (SessionCompleted sid (end_status_of (dget p ''status'')) toks c)))"

definition from_pong :: "string \<Rightarrow> pydict \<Rightarrow> py_exn + event_body" where
  "from_pong sid p = Inr (Heartbeat sid (safe_str (dget p ''runtime_id'') []))"

definition FRAME_TO_EVENT :: "(string \<times> (string \<Rightarrow> pydict \<Rightarrow> py_exn + event_body)) list" where
  "FRAME_TO_EVENT =
     [(''msg.chunk'', from_msg_chunk),
      (''tool.request'', from_tool_request),
      (''tool.result'', from_tool_result),
      (''hook.pre_tool_use'', from_hook_pre_tool_use),
      (''hook.post_tool_use'', from_hook_post_tool_use),
      (''hook.subagent_stop'', from_hook_subagent_stop),
      (''install.done'', from_install_done),
      (''install.error'', from_install_error),
      (''error'', from_error_frame),
      (''session.end'', from_session_end),
      (''pong'', from_pong)]"

definition frame_to_event :: "string \<Rightarrow> pydict \<Rightarrow> py_exn + event_body option" where
  "frame_to_event sid frame = (case dget frame ''type'' of
     PStr ftype \<Rightarrow> (case map_of FRAME_TO_EVENT ftype of
        None \<Rightarrow> Inr None
      | Some factory \<Rightarrow> map_sum id Some (factory sid frame))
   | _ \<Rightarrow> Inr None)"

lemmas factory_defs =
  from_msg_chunk_def from_tool_request_def from_tool_result_def from_hook_def
  from_hook_pre_tool_use_def from_hook_post_tool_use_def from_hook_subagent_stop_def
  from_install_done_def from_install_error_def from_error_frame_def from_session_end_def
  from_pong_def trace_fields_of_def

section \<open>Correctness of the lifting\<close>

lemma int_of_str_error: "int_of_str s = Inl x \<Longrightarrow> x = ValueError"
proof -
  have d: "x = ValueError" if "int_of_digits t = Inl x" for t
    using that by (auto simp: int_of_digits_def split: option.splits if_splits)
  show "int_of_str s = Inl x \<Longrightarrow> x = ValueError"
    by (cases "str_strip s")
       (auto simp: int_of_str_def map_sum_def dest: d split: if_splits sum.splits)
qed

lemma py_int_error: "py_int v = Inl x \<Longrightarrow> x \<in> {TypeError, ValueError, OverflowError}"
  by (cases v rule: py_int.cases) (auto dest: int_of_str_error)

lemma py_int_overflow: "py_int v = Inl OverflowError \<Longrightarrow> v \<in> {PFloat PosInf, PFloat NegInf}"
  by (cases v rule: py_int.cases) (auto dest: int_of_str_error)

lemma safe_int_errors: "safe_int v = Inl e \<Longrightarrow> e = OverflowError \<and> py_int v = Inl OverflowError"
  using py_int_error [of v e] by (auto simp: safe_int_def split: sum.splits py_exn.splits)

text \<open>What a frame field must look like for the factories never to raise.\<close>

definition finite_num :: "pyval \<Rightarrow> bool" where
  "finite_num v \<longleftrightarrow> v \<notin> {PFloat PosInf, PFloat NegInf}"

lemma safe_int_total: "finite_num v \<Longrightarrow> \<exists>n. safe_int v = Inr n"
  by (cases "safe_int v") (auto simp: finite_num_def dest: safe_int_errors py_int_overflow)

fun tokens_finite :: "pydict \<Rightarrow> bool" where
  "tokens_finite [] = True"
| "tokens_finite ((k, v) # d) = (finite_num v \<and> tokens_finite d)"

lemma tokens_of_total: "tokens_finite d \<Longrightarrow> \<exists>t. tokens_of d acc = Inr t"
proof (induction d arbitrary: acc)
  case (Cons kv d)
  obtain k v where kv: "kv = (k, v)" by (cases kv)
  obtain n where "safe_int v = Inr n" using Cons.prems kv safe_int_total by auto
  then show ?case using Cons kv by (cases "as_str k") auto
qed simp

text \<open>
  A well-typed frame: the TypedDicts of \<open>session/transport/protocol.py\<close> for the fields that the
  factories convert (integers finite, argument and result objects absent or objects, the module
  list absent or a list, the cost absent or a finite number).
\<close>

definition wf_frame :: "pydict \<Rightarrow> bool" where
  "wf_frame p \<longleftrightarrow> finite_num (dget p ''seq'') \<and> finite_num (dget p ''duration_ms'')
     \<and> (dget p ''args'' = PNone \<or> as_dict (dget p ''args'') \<noteq> None)
     \<and> (dget p ''result'' = PNone \<or> as_dict (dget p ''result'') \<noteq> None)
     \<and> (dget p ''modules'' = PNone \<or> (\<exists>xs. dget p ''modules'' = PList xs))
     \<and> (\<forall>d. dget p ''tokens'' = PDict d \<longrightarrow> tokens_finite d)
     \<and> (dget p ''cost_usd'' = PNone \<or> (\<exists>f. dget p ''cost_usd'' = PFloat f))"

lemma py_dict_or_total:
  "v = PNone \<or> as_dict v \<noteq> None \<Longrightarrow> \<exists>d. py_dict (py_or v (PDict [])) = Inr d"
  by (cases v) auto

lemma py_iter_or_total:
  "v = PNone \<or> (\<exists>xs. v = PList xs) \<Longrightarrow> \<exists>ms. py_iter (py_or v (PTuple [])) = Inr ms"
  by (auto simp: py_or_def)

lemma py_float_or_total:
  "v = PNone \<or> (\<exists>f. v = PFloat f) \<Longrightarrow> \<exists>c. py_float (py_or v (PFloat (Fin 0))) = Inr c"
  by (auto simp: py_or_def)

lemma tokens_or_total:
  assumes "\<forall>d. v = PDict d \<longrightarrow> tokens_finite d"
  shows "\<exists>t. (case as_dict (py_or v (PDict [])) of Some d \<Rightarrow> tokens_of d [] | None \<Rightarrow> Inr []) = Inr t"
proof (cases "as_dict (py_or v (PDict []))")
  case (Some d)
  then have "tokens_finite d"
    using assms by (cases v) (auto simp: py_or_def split: if_splits)
  with Some tokens_of_total show ?thesis by simp
qed simp

lemma wf_frame_factories:
  assumes "wf_frame p" and "map_of FRAME_TO_EVENT ftype = Some factory"
  shows "\<exists>b. factory sid p = Inr b \<and> event_session b = sid"
proof -
  obtain n where n: "safe_int (dget p ''seq'') = Inr n"
    using assms(1) safe_int_total by (auto simp: wf_frame_def)
  obtain m where m: "safe_int (dget p ''duration_ms'') = Inr m"
    using assms(1) safe_int_total by (auto simp: wf_frame_def)
  obtain a where a: "py_dict (py_or (dget p ''args'') (PDict [])) = Inr a"
    using assms(1) py_dict_or_total by (fastforce simp: wf_frame_def)
  obtain r where r: "py_dict (py_or (dget p ''result'') (PDict [])) = Inr r"
    using assms(1) py_dict_or_total by (fastforce simp: wf_frame_def)
  obtain ms where ms: "py_iter (py_or (dget p ''modules'') (PTuple [])) = Inr ms"
    using assms(1) py_iter_or_total by (fastforce simp: wf_frame_def)
  obtain c where c: "py_float (py_or (dget p ''cost_usd'') (PFloat (Fin 0))) = Inr c"
    using assms(1) py_float_or_total by (fastforce simp: wf_frame_def)
  obtain t where t: "(case as_dict (py_or (dget p ''tokens'') (PDict [])) of
              Some d \<Rightarrow> tokens_of d [] | None \<Rightarrow> Inr []) = Inr t"
    using assms(1) tokens_or_total by (fastforce simp: wf_frame_def)
  show ?thesis
    using assms(2) n m a r ms c t
    by (auto simp: FRAME_TO_EVENT_def factory_defs split: if_splits)
qed

text \<open>
  C27: every well-typed wire frame is lifted without raising: a frame whose type is in the
  dispatch table becomes an event of the given session, any other frame gives no event.
\<close>

theorem frame_to_event_total:
  assumes "wf_frame p"
  shows "\<exists>r. frame_to_event sid p = Inr r
           \<and> (case r of
                Some b \<Rightarrow> event_session b = sid
                          \<and> (\<exists>t \<in> fst ` set FRAME_TO_EVENT. dget p ''type'' = PStr t)
              | None \<Rightarrow> \<not> (\<exists>t \<in> fst ` set FRAME_TO_EVENT. dget p ''type'' = PStr t))"
proof (cases "dget p ''type''")
  case (PStr t)
  show ?thesis
  proof (cases "map_of FRAME_TO_EVENT t")
    case None
    then have "t \<notin> fst ` set FRAME_TO_EVENT" by (simp add: map_of_eq_None_iff)
    with PStr None show ?thesis by (auto simp: frame_to_event_def)
  next
    case (Some factory)
    obtain b where "factory sid p = Inr b" "event_session b = sid"
      using wf_frame_factories [OF assms Some] by blast
    moreover have "t \<in> fst ` set FRAME_TO_EVENT"
      using Some by (force dest: map_of_SomeD)
    ultimately show ?thesis using PStr Some by (simp add: frame_to_event_def)
  qed
qed (auto simp: frame_to_event_def)

lemma frame_to_event_total_witness:
  "wf_frame [(PStr ''type'', PStr ''tool.request''), (PStr ''seq'', PInt 3), (PStr ''args'', PDict [])]
   \<and> frame_to_event ''s1'' [(PStr ''type'', PStr ''tool.request''), (PStr ''seq'', PInt 3), (PStr ''args'', PDict [])]
      = Inr (Some (ToolRequested ''s1'' 3 [] [] []))"
proof -
  let ?p = "[(PStr ''type'', PStr ''tool.request''), (PStr ''seq'', PInt 3), (PStr ''args'', PDict [])]"
  have w: "wf_frame ?p" by (simp add: wf_frame_def finite_num_def)
  have "frame_to_event ''s1'' ?p = Inr (Some (ToolRequested ''s1'' 3 [] [] []))"
    using frame_to_event_total [OF w, of "''s1''"]
    by (simp add: frame_to_event_def FRAME_TO_EVENT_def from_tool_request_def safe_int_def safe_str_def py_or_def)
  with w show ?thesis by blast
qed

text \<open>
  the lifting is not total on ill-typed payloads, in spite of its \<open>_safe_int\<close> and
  \<open>_safe_str\<close> guards: an infinite sequence number, a textual cost and a numeric argument object
  raise three different exceptions, all of which the frame pipeline of the manager lets through.
\<close>

lemma frame_to_event_can_raise:
  "frame_to_event sid [(PStr ''type'', PStr ''msg.chunk''), (PStr ''seq'', PFloat PosInf)] = Inl OverflowError
   \<and> frame_to_event sid [(PStr ''type'', PStr ''session.end''), (PStr ''cost_usd'', PStr ''n/a'')] = Inl ValueError
   \<and> frame_to_event sid [(PStr ''type'', PStr ''tool.request''), (PStr ''args'', PInt 7)] = Inl TypeError"
proof (intro conjI)
  show "frame_to_event sid [(PStr ''type'', PStr ''msg.chunk''), (PStr ''seq'', PFloat PosInf)] = Inl OverflowError"
    by (simp add: frame_to_event_def FRAME_TO_EVENT_def from_msg_chunk_def safe_int_def)
  show "frame_to_event sid [(PStr ''type'', PStr ''tool.request''), (PStr ''args'', PInt 7)] = Inl TypeError"
    by (simp add: frame_to_event_def FRAME_TO_EVENT_def from_tool_request_def safe_int_def py_or_def)
  have "float_of_str ''n/a'' = Inl ValueError" by code_simp
  then show "frame_to_event sid [(PStr ''type'', PStr ''session.end''), (PStr ''cost_usd'', PStr ''n/a'')] = Inl ValueError"
    by (simp add: frame_to_event_def FRAME_TO_EVENT_def from_session_end_def py_or_def)
qed

end
