(* ===== verification/Event_Bus.thy ===== *)
theory Event_Bus
  imports Relay_Events "HOL-Library.Multiset"
begin

text \<open>
  The in-process publish/subscribe bus of \<open>core/event_bus.py\<close>. Subscriber objects live in a heap
  indexed by object identity and each topic maps to the Python list of the objects registered
  for it, because \<open>_dispatch\<close> iterates over that very list while other tasks may change it.
  The \<open>asyncio.Event\<close> fields only wake tasks and carry no data. An \<open>await\<close> inside \<open>_dispatch\<close>
  is modelled by a script: one entry per wait, saying whether the wait timed out and what the
  other tasks did to the bus meanwhile; an exhausted script is a wait that times out with no
  other activity. The durable store is the \<open>DurableEventStore\<close> protocol of
  \<open>core/protocol.py\<close>: a state and its \<open>persist\<close> operation, passed to \<open>publish\<close>.
\<close>

section \<open>State\<close>

datatype bus_item = Typed relay_event | Legacy pyval

record sub =
  maxsize :: nat
  items :: "bus_item list"
  closed_flag :: bool
  dropped :: nat
  durable_dropped :: nat

definition new_sub :: "nat \<Rightarrow> sub" where
  "new_sub n = \<lparr>maxsize = n, items = [], closed_flag = False, dropped = 0, durable_dropped = 0\<rparr>"

record 's bus =
  subs :: "(string, nat list) od"
  heap :: "nat \<Rightarrow> sub"
  next_id :: nat
  closed :: bool
  durable_block_timeout_s :: rat
  drop_calls :: "string list"
  durable_drop_calls :: "string list"
  durable_store :: "'s option"
  strict_durable :: bool

definition init_bus :: "rat \<Rightarrow> 's option \<Rightarrow> bool \<Rightarrow> 's bus" where
  "init_bus timeout st strict =
     \<lparr>subs = [], heap = (\<lambda>_. new_sub 0), next_id = 0, closed = False,
      durable_block_timeout_s = timeout, drop_calls = [], durable_drop_calls = [],
      durable_store = st, strict_durable = strict\<rparr>"

definition WILDCARD :: string where
  "WILDCARD = ''*''"

definition topic_ids :: "'s bus \<Rightarrow> string \<Rightarrow> nat list" where
  "topic_ids b t = (case map_of (subs b) t of None \<Rightarrow> [] | Some l \<Rightarrow> l)"

definition set_sub :: "nat \<Rightarrow> sub \<Rightarrow> 's bus \<Rightarrow> 's bus" where
  "set_sub i s b = b\<lparr>heap := (heap b)(i := s)\<rparr>"

definition dropped_per_topic :: "'s bus \<Rightarrow> (string, nat) od" where
  "dropped_per_topic b = map (\<lambda>(t, l). (t, sum_list (map (\<lambda>i. dropped (heap b i)) l))) (subs b)"

definition durable_dropped_per_topic :: "'s bus \<Rightarrow> (string, nat) od" where
  "durable_dropped_per_topic b =
     map (\<lambda>(t, l). (t, sum_list (map (\<lambda>i. durable_dropped (heap b i)) l))) (subs b)"

section \<open>Subscribing\<close>

definition subscribe :: "string \<Rightarrow> nat \<Rightarrow> 's bus \<Rightarrow> nat \<times> 's bus" where
  "subscribe topic msize b =
     (let i = next_id b;
          s = (new_sub msize)\<lparr>closed_flag := closed b\<rparr>
      in (i, b\<lparr>heap := (heap b)(i := s), next_id := Suc i,
               subs := AList.update topic (topic_ids b topic @ [i]) (subs b)\<rparr>))"

text \<open>The \<open>finally\<close> block of the iterator: the object leaves its topic list.\<close>

definition unsubscribe :: "string \<Rightarrow> nat \<Rightarrow> 's bus \<Rightarrow> 's bus" where
  "unsubscribe topic i b = (case map_of (subs b) topic of
     None \<Rightarrow> b
   | Some l \<Rightarrow> if i \<in> set l then b\<lparr>subs := AList.update topic (remove1 i l) (subs b)\<rparr> else b)"

datatype iter_out = Yield bus_item | Stop | Await

text \<open>One resumption of the async iterator returned by \<open>subscribe\<close>.\<close>

definition iter_next :: "string \<Rightarrow> nat \<Rightarrow> 's bus \<Rightarrow> iter_out \<times> 's bus" where
  "iter_next topic i b = (case items (heap b i) of
     x # xs \<Rightarrow> (Yield x, set_sub i ((heap b i)\<lparr>items := xs\<rparr>) b)
   | [] \<Rightarrow> if closed_flag (heap b i) then (Stop, unsubscribe topic i b) else (Await, b))"

section \<open>Publishing\<close>

datatype bus_exn = DurableEventDropError | BusTypeError | BusError py_exn

text \<open>The part of \<open>_dispatch\<close> after the wait: make room if the queue is (still) full, append.\<close>

definition deliver :: "string \<Rightarrow> bus_item \<Rightarrow> nat \<Rightarrow> 's bus \<Rightarrow> (bus_exn + unit) \<times> 's bus" where
  "deliver topic x i b =
     (let s = heap b i in
      if length (items s) \<ge> maxsize s then
        (case items s of
           [] \<Rightarrow> (Inl (BusError IndexError), b)
         | _ # rest \<Rightarrow>
            (Inr (), (set_sub i (s\<lparr>items := rest @ [x], dropped := Suc (dropped s)\<rparr>) b)
                       \<lparr>drop_calls := drop_calls b @ [topic]\<rparr>))
      else (Inr (), set_sub i (s\<lparr>items := items s @ [x]\<rparr>) b))"

definition on_timeout :: "string \<Rightarrow> nat \<Rightarrow> 's bus \<Rightarrow> 's bus" where
  "on_timeout topic i b =
     (set_sub i ((heap b i)\<lparr>durable_dropped := Suc (durable_dropped (heap b i))\<rparr>) b)
       \<lparr>durable_drop_calls := durable_drop_calls b @ [topic]\<rparr>"

type_synonym 's script = "(bool \<times> ('s bus \<Rightarrow> 's bus)) list"

definition must_wait :: "tier \<Rightarrow> nat \<Rightarrow> 's bus \<Rightarrow> bool" where
  "must_wait t i b \<longleftrightarrow> length (items (heap b i)) \<ge> maxsize (heap b i) \<and> t = Durable \<and> durable_block_timeout_s b > 0"

definition wait_drained :: "string \<Rightarrow> nat \<Rightarrow> 's script \<Rightarrow> 's bus \<Rightarrow> 's bus \<times> 's script" where
  "wait_drained topic i sc b = (case sc of
     [] \<Rightarrow> (on_timeout topic i b, [])
   | (timed_out, f) # rest \<Rightarrow> (if timed_out then on_timeout topic i (f b) else f b, rest))"

lemma topic_ids_set_sub [simp]: "topic_ids (set_sub i s b) t = topic_ids b t"
  by (simp add: topic_ids_def set_sub_def)

lemma topic_ids_on_timeout [simp]: "topic_ids (on_timeout topic i b) t = topic_ids b t"
  by (simp add: topic_ids_def on_timeout_def set_sub_def)

lemma topic_ids_deliver [simp]: "topic_ids (snd (deliver topic x i b)) t = topic_ids b t"
  by (simp add: deliver_def Let_def topic_ids_def set_sub_def split: list.splits)

text \<open>
  The \<open>for\<close> loop over the topic's list, by index as a Python list iterator works: the bound is
  read again on every turn, so a list that shrinks or grows during a wait changes what the
  loop visits.
\<close>

function dispatch_loop :: "string \<Rightarrow> bus_item \<Rightarrow> tier \<Rightarrow> nat \<Rightarrow> 's script \<Rightarrow> 's bus
    \<Rightarrow> (bus_exn + unit) \<times> 's bus \<times> 's script" where
  "dispatch_loop topic x t k sc b =
     (if k \<ge> length (topic_ids b topic) then (Inr (), b, sc)
      else
        (let i = topic_ids b topic ! k;
             (b1, sc1) = (if must_wait t i b then wait_drained topic i sc b else (b, sc))
         in case deliver topic x i b1 of
              (Inl e, b2) \<Rightarrow> (Inl e, b2, sc1)
            | (Inr _, b2) \<Rightarrow> dispatch_loop topic x t (Suc k) sc1 b2))"
  by pat_completeness auto
termination
proof (relation "measures [\<lambda>(topic, x, t, k, sc, b). length sc,
                           \<lambda>(topic, x, t, k, sc, b). length (topic_ids b topic) - k]",
       goal_cases)
  case 1
  show ?case by simp
next
  case (2 topic x t k sc b i p b1 sc1 r b2 u)
  have d: "topic_ids b2 topic = topic_ids b1 topic"
    using 2(5) topic_ids_deliver [of topic x i b1 topic] by (metis snd_conv)
  show ?case
  proof (cases "must_wait t i b")
    case False
    with 2 d show ?thesis by auto
  next
    case True
    with 2 d show ?thesis by (auto simp: wait_drained_def split: list.splits if_splits)
  qed
qed

declare dispatch_loop.simps [simp del]

definition dispatch :: "string \<Rightarrow> bus_item \<Rightarrow> tier \<Rightarrow> 's script \<Rightarrow> 's bus
    \<Rightarrow> (bus_exn + unit) \<times> 's bus \<times> 's script" where
  "dispatch topic x t sc b = dispatch_loop topic x t 0 sc b"

definition dispatch_both :: "string \<Rightarrow> bus_item \<Rightarrow> tier \<Rightarrow> 's script \<Rightarrow> 's bus
    \<Rightarrow> (bus_exn + unit) \<times> 's bus" where
  "dispatch_both topic x t sc b = (case dispatch topic x t sc b of
     (Inl e, b1, _) \<Rightarrow> (Inl e, b1)
   | (Inr _, b1, sc1) \<Rightarrow> (case dispatch WILDCARD x t sc1 b1 of (r, b2, _) \<Rightarrow> (r, b2)))"

text \<open>
  \<open>publish(event)\<close>. \<open>intf\<close> is what other tasks do during \<open>await persist\<close>; the bus is not asked
  again whether it has been closed meanwhile.
\<close>

definition publish :: "(relay_event \<Rightarrow> 's \<Rightarrow> (py_exn + nat) \<times> 's) \<Rightarrow> ('s bus \<Rightarrow> 's bus) \<Rightarrow> 's script
    \<Rightarrow> relay_event \<Rightarrow> 's bus \<Rightarrow> (bus_exn + unit) \<times> 's bus" where
  "publish persist intf sc ev b =
     (if closed b then (Inr (), b)
      else
        (let topic = class_name (body ev); t = delivery_tier ev in
         if t = Durable then
           (case durable_store b of
              Some st \<Rightarrow>
                (case persist ev st of
                   (Inl _, st') \<Rightarrow> (Inl DurableEventDropError, intf (b\<lparr>durable_store := Some st'\<rparr>))
                 | (Inr _, st') \<Rightarrow>
                     dispatch_both topic (Typed ev) t sc (intf (b\<lparr>durable_store := Some st'\<rparr>)))
            | None \<Rightarrow>
                if strict_durable b then (Inl DurableEventDropError, b)
                else dispatch_both topic (Typed ev) t sc b)
         else dispatch_both topic (Typed ev) t sc b))"

text \<open>\<open>publish(topic, payload)\<close>: always lossy.\<close>

definition publish_legacy :: "string \<Rightarrow> pyval \<Rightarrow> 's script \<Rightarrow> 's bus \<Rightarrow> (bus_exn + unit) \<times> 's bus" where
  "publish_legacy topic payload sc b =
     (if closed b then (Inr (), b) else dispatch_both topic (Legacy payload) Lossy sc b)"

text \<open>\<open>close\<close>: every registered subscriber is flagged once.\<close>

definition registered :: "'s bus \<Rightarrow> nat list" where
  "registered b = concat (map snd (subs b))"

definition close_bus :: "'s bus \<Rightarrow> 's bus" where
  "close_bus b =
     (if closed b then b
      else b\<lparr>closed := True,
             heap := (\<lambda>i. if i \<in> set (registered b) then (heap b i)\<lparr>closed_flag := True\<rparr> else heap b i)\<rparr>)"

definition replay_after :: "('s \<Rightarrow> int \<Rightarrow> nat \<Rightarrow> 'e list) \<Rightarrow> int option \<Rightarrow> nat \<Rightarrow> 's bus \<Rightarrow> 'e list" where
  "replay_after fetch last_seq limit b = (case (last_seq, durable_store b) of
     (Some n, Some st) \<Rightarrow> fetch st n limit
   | _ \<Rightarrow> [])"

definition subscribe_all :: "('s \<Rightarrow> int \<Rightarrow> nat \<Rightarrow> 'e list) \<Rightarrow> int option \<Rightarrow> nat \<Rightarrow> 's bus \<Rightarrow> 'e list" where
  "subscribe_all fetch after_seq limit b = replay_after fetch after_seq limit b"

lemmas [bus_simps] =
  set_sub_def deliver_def on_timeout_def must_wait_def wait_drained_def topic_ids_def
  subscribe_def unsubscribe_def iter_next_def

section \<open>Invariant\<close>

text \<open>
  No registered queue is longer than its bound, identities are fresh, and an object is
  registered at most once.
\<close>

definition bus_inv :: "'s bus \<Rightarrow> bool" where
  "bus_inv b \<longleftrightarrow> od_wf (subs b) \<and> distinct (registered b)
     \<and> (\<forall>i \<in> set (registered b). i < next_id b
           \<and> 0 < maxsize (heap b i) \<and> length (items (heap b i)) \<le> maxsize (heap b i))"

lemma topic_ids_subset: "i \<in> set (topic_ids b t) \<Longrightarrow> i \<in> set (registered b)"
  by (cases "map_of (subs b) t")
     (auto simp: topic_ids_def registered_def dest!: map_of_SomeD intro: bexI [of _ "(t, _)"])

lemma registered_set_sub [simp]: "registered (set_sub i s b) = registered b"
  by (simp add: registered_def set_sub_def)

lemma bus_inv_set_sub:
  assumes "bus_inv b" and "maxsize s = maxsize (heap b i)"
    and "i \<in> set (registered b) \<Longrightarrow> length (items s) \<le> maxsize s"
  shows "bus_inv (set_sub i s b)"
  using assms by (auto simp: bus_inv_def set_sub_def registered_def)

lemma bus_inv_calls [simp]:
  "bus_inv (b\<lparr>drop_calls := c\<rparr>) = bus_inv b"
  "bus_inv (b\<lparr>durable_drop_calls := c\<rparr>) = bus_inv b"
  "bus_inv (b\<lparr>durable_store := st\<rparr>) = bus_inv b"
  by (simp_all add: bus_inv_def registered_def)

lemma bus_inv_init [simp]: "bus_inv (init_bus timeout st strict)"
  by (simp add: bus_inv_def init_bus_def registered_def)

lemma bus_inv_deliver: "bus_inv b \<Longrightarrow> bus_inv (snd (deliver topic x i b))"
proof (cases "length (items (heap b i)) \<ge> maxsize (heap b i)")
  case True
  assume inv: "bus_inv b"
  show ?thesis
  proof (cases "items (heap b i)")
    case Nil
    with True inv show ?thesis by (simp add: deliver_def)
  next
    case (Cons y ys)
    have "bus_inv (set_sub i ((heap b i)\<lparr>items := ys @ [x], dropped := Suc (dropped (heap b i))\<rparr>) b)"
      using inv Cons by (intro bus_inv_set_sub) (auto simp: bus_inv_def)
    with True Cons show ?thesis by (simp add: deliver_def Let_def)
  qed
next
  case False
  assume inv: "bus_inv b"
  with False show ?thesis by (auto simp: deliver_def Let_def intro!: bus_inv_set_sub)
qed

lemma bus_inv_on_timeout: "bus_inv b \<Longrightarrow> bus_inv (on_timeout topic i b)"
  by (auto simp: on_timeout_def bus_inv_def registered_def set_sub_def)

definition script_ok :: "'s script \<Rightarrow> bool" where
  "script_ok sc \<longleftrightarrow> (\<forall>e \<in> set sc. \<forall>b. bus_inv b \<longrightarrow> bus_inv (snd e b))"

text \<open>
  Whatever the timeout counter, the delivery of \<open>x\<close> and the other tasks keep, a dispatch of \<open>x\<close>
  keeps.
\<close>

definition keeps :: "('s bus \<Rightarrow> bool) \<Rightarrow> bus_item \<Rightarrow> 's script \<Rightarrow> bool" where
  "keeps Q x sc \<longleftrightarrow> (\<forall>b topic i. Q b \<longrightarrow> Q (on_timeout topic i b) \<and> Q (snd (deliver topic x i b)))
     \<and> (\<forall>e \<in> set sc. \<forall>b. Q b \<longrightarrow> Q (snd e b))"

lemma keepsD:
  assumes "keeps Q x sc" and "Q b"
  shows "Q (on_timeout topic i b)" and "Q (snd (deliver topic x i b))"
    and "wait_drained topic i sc b = (b1, sc1) \<Longrightarrow> Q b1 \<and> keeps Q x sc1"
  using assms by (auto simp: keeps_def wait_drained_def split: list.splits prod.splits if_splits)

lemma keeps_dispatch_loop:
  "keeps Q x sc \<Longrightarrow> Q b \<Longrightarrow> dispatch_loop topic x t k sc b = (r, b', sc') \<Longrightarrow> Q b' \<and> keeps Q x sc'"
proof (induction topic x t k sc b arbitrary: r b' sc' rule: dispatch_loop.induct)
  case (1 topic x t k sc b)
  show ?case
  proof (cases "k \<ge> length (topic_ids b topic)")
    case True
    with "1.prems" show ?thesis by (simp add: dispatch_loop.simps [of topic x t k sc b])
  next
    case False
    define i where "i = topic_ids b topic ! k"
    obtain b1 sc1 where w: "(if must_wait t i b then wait_drained topic i sc b else (b, sc)) = (b1, sc1)"
      by fastforce
    have inv1: "Q b1 \<and> keeps Q x sc1"
      using w "1.prems" keepsD(3) [OF "1.prems"(1,2), of topic i b1 sc1] by (auto split: if_splits)
    obtain q b2 where dl: "deliver topic x i b1 = (q, b2)" by fastforce
    have inv2: "Q b2" using inv1 dl keepsD(2) [of Q x sc1 b1 topic i] by simp
    show ?thesis
    proof (cases q)
      case (Inl e)
      with False w dl inv1 inv2 "1.prems"(3) show ?thesis
        by (simp add: dispatch_loop.simps [of topic x t k sc b] i_def [symmetric] Let_def)
    next
      case (Inr u)
      have "dispatch_loop topic x t (Suc k) sc1 b2 = (r, b', sc')"
        using False w dl Inr "1.prems"(3)
        by (simp add: dispatch_loop.simps [of topic x t k sc b] i_def [symmetric] Let_def)
      with "1.IH" [OF False i_def w [symmetric] refl dl [symmetric] Inr] inv1 inv2 show ?thesis by blast
    qed
  qed
qed

lemma keeps_dispatch_both:
  assumes "keeps Q x sc" and "Q b"
  shows "Q (snd (dispatch_both topic x t sc b))"
proof -
  obtain r1 b1 sc1 where d1: "dispatch topic x t sc b = (r1, b1, sc1)" by (metis prod_cases3)
  obtain r2 b2 sc2 where d2: "dispatch WILDCARD x t sc1 b1 = (r2, b2, sc2)" by (metis prod_cases3)
  have "Q b1 \<and> keeps Q x sc1"
    using assms d1 unfolding dispatch_def by (rule keeps_dispatch_loop)
  moreover from this d2 have "Q b2"
    unfolding dispatch_def using keeps_dispatch_loop by blast
  ultimately show ?thesis by (auto simp: dispatch_both_def d1 d2 split: sum.splits)
qed

lemma keeps_bus_inv: "script_ok sc \<Longrightarrow> keeps bus_inv x sc"
  by (simp add: keeps_def script_ok_def bus_inv_on_timeout bus_inv_deliver)

lemmas bus_inv_dispatch_both = keeps_dispatch_both [OF keeps_bus_inv]

lemma wait_drained_inv:
  "wait_drained topic i sc b = (b1, sc1) \<Longrightarrow> bus_inv b \<Longrightarrow> script_ok sc \<Longrightarrow> bus_inv b1"
  using keepsD(3) [OF keeps_bus_inv] by blast

lemma bus_inv_dispatch_loop:
  "bus_inv b \<Longrightarrow> script_ok sc \<Longrightarrow> dispatch_loop topic x t k sc b = (r, b', sc') \<Longrightarrow> bus_inv b'"
  using keeps_dispatch_loop [OF keeps_bus_inv] by blast

lemma topic_ids_distinct: "bus_inv b \<Longrightarrow> distinct (topic_ids b t)"
  by (cases "map_of (subs b) t")
     (auto simp: topic_ids_def bus_inv_def registered_def distinct_concat_iff dest!: map_of_SomeD)

lemma map_of_concat: "map_of d u = Some m \<Longrightarrow> set m \<subseteq> set (concat (map snd d))"
  by (force dest: map_of_SomeD)

lemma distinct_concat_disjoint:
  "distinct (concat (map snd d)) \<Longrightarrow> map_of d t = Some l \<Longrightarrow> map_of d u = Some m \<Longrightarrow> t \<noteq> u
   \<Longrightarrow> set l \<inter> set m = {}"
proof (induction d)
  case (Cons kv d)
  obtain k v where kv: "kv = (k, v)" by (cases kv)
  have v: "set v \<inter> set (concat (map snd d)) = {}" using Cons.prems(1) kv by auto
  consider "k = t" | "k = u" | "k \<noteq> t" "k \<noteq> u" by blast
  then show ?case
  proof cases
    case 1
    then have "l = v" "map_of d u = Some m" using Cons.prems kv by auto
    then show ?thesis using v map_of_concat [of d u m] by blast
  next
    case 2
    then have "m = v" "map_of d t = Some l" using Cons.prems kv by auto
    then show ?thesis using v map_of_concat [of d t l] by blast
  next
    case 3
    then show ?thesis using Cons kv by auto
  qed
qed simp

lemma topics_disjoint:
  assumes "bus_inv b" and "t \<noteq> u"
  shows "set (topic_ids b t) \<inter> set (topic_ids b u) = {}"
  using assms distinct_concat_disjoint [of "subs b" t _ u]
  by (cases "map_of (subs b) t"; cases "map_of (subs b) u")
     (simp_all add: topic_ids_def bus_inv_def registered_def)

lemma registered_update:
  assumes "od_wf d" and "map_of d t = Some l"
  shows "mset (concat (map snd (AList.update t l' d))) + mset l = mset (concat (map snd d)) + mset l'"
  using assms by (induction d) (auto simp: od_wf_def dest: map_of_SomeD)

lemma registered_subscribe:
  assumes "od_wf (subs b)"
  shows "mset (registered (snd (subscribe topic n b))) = add_mset (next_id b) (mset (registered b))"
proof (cases "map_of (subs b) topic")
  case None
  then have "AList.update topic l (subs b) = subs b @ [(topic, l)]" for l
    by (simp add: od_update_new od_get_None)
  then show ?thesis using None
    by (simp add: subscribe_def Let_def registered_def topic_ids_def)
next
  case (Some l)
  show ?thesis
    using registered_update [OF assms Some, of "l @ [next_id b]"] Some
    by (simp add: subscribe_def Let_def registered_def topic_ids_def)
qed

lemma bus_inv_subscribe:
  assumes inv: "bus_inv b" and n: "0 < n"
  shows "bus_inv (snd (subscribe topic n b))"
proof -
  let ?b = "snd (subscribe topic n b)"
  have m: "mset (registered ?b) = add_mset (next_id b) (mset (registered b))"
    using inv by (simp add: registered_subscribe bus_inv_def)
  have fresh: "next_id b \<notin> set (registered b)" using inv by (auto simp: bus_inv_def)
  have "set (registered ?b) = insert (next_id b) (set (registered b))"
    using m by (metis set_mset_add_mset_insert set_mset_mset)
  moreover have "distinct (registered ?b)"
  proof -
    have "distinct (next_id b # registered b)" using inv fresh by (simp add: bus_inv_def)
    then show ?thesis using m by (metis mset.simps(2) mset_eq_imp_distinct_iff)
  qed
  moreover have "od_wf (subs ?b)" using inv by (simp add: subscribe_def Let_def bus_inv_def)
  moreover have "heap ?b i = (if i = next_id b then (new_sub n)\<lparr>closed_flag := closed b\<rparr> else heap b i)" for i
    by (simp add: subscribe_def Let_def)
  moreover have "next_id ?b = Suc (next_id b)" by (simp add: subscribe_def Let_def)
  ultimately show ?thesis using inv n fresh
    by (auto simp: bus_inv_def new_sub_def less_Suc_eq)
qed

lemma mset_exchange:
  fixes X :: "'a multiset"
  assumes "X + L = R + L'" and "L = L' + m"
  shows "R = X + m"
proof -
  have "X + m + L' = R + L'" using assms by (simp add: ac_simps)
  then show ?thesis by simp
qed

lemma registered_unsubscribe:
  assumes "od_wf (subs b)"
  shows "\<exists>m. mset (registered b) = mset (registered (unsubscribe topic i b)) + m"
proof (cases "map_of (subs b) topic")
  case (Some l)
  show ?thesis
  proof (cases "i \<in> set l")
    case True
    have "mset (registered (unsubscribe topic i b)) + mset l = mset (registered b) + mset (remove1 i l)"
      using registered_update [OF assms Some] Some True
      by (simp add: unsubscribe_def registered_def)
    moreover have "mset l = mset (remove1 i l) + {#i#}" using True by simp
    ultimately show ?thesis using mset_exchange by blast
  next
    case False
    with Some show ?thesis by (auto simp: unsubscribe_def)
  qed
qed (auto simp: unsubscribe_def)

lemma bus_inv_unsubscribe: "bus_inv b \<Longrightarrow> bus_inv (unsubscribe topic i b)"
proof -
  assume inv: "bus_inv b"
  obtain m where m: "mset (registered b) = mset (registered (unsubscribe topic i b)) + m"
    using registered_unsubscribe inv unfolding bus_inv_def by blast
  have "set (registered (unsubscribe topic i b)) \<subseteq> set (registered b)"
    using m by (metis Un_iff set_mset_mset set_mset_union subsetI)
  moreover have "distinct (registered (unsubscribe topic i b))"
  proof -
    have "count (mset (registered (unsubscribe topic i b))) x \<le> count (mset (registered b)) x" for x
      using m by simp
    moreover have "count (mset (registered b)) x \<le> 1" for x
      using inv by (auto simp: bus_inv_def distinct_count_atmost_1)
    ultimately have "count (mset (registered (unsubscribe topic i b))) x \<le> 1" for x
      by (meson order_trans)
    then show ?thesis
      by (auto simp: distinct_count_atmost_1 le_Suc_eq count_mset_0_iff)
  qed
  moreover have "od_wf (subs (unsubscribe topic i b))"
    using inv by (auto simp: unsubscribe_def bus_inv_def split: option.splits)
  moreover have "heap (unsubscribe topic i b) = heap b" "next_id (unsubscribe topic i b) = next_id b"
    by (simp_all add: unsubscribe_def split: option.splits)
  ultimately show ?thesis using inv by (auto simp: bus_inv_def)
qed

lemma bus_inv_iter_next: "bus_inv b \<Longrightarrow> bus_inv (snd (iter_next topic i b))"
proof (cases "items (heap b i)")
  case Nil
  assume "bus_inv b"
  with Nil show ?thesis by (simp add: iter_next_def bus_inv_unsubscribe)
next
  case (Cons x xs)
  assume "bus_inv b"
  then have "bus_inv (set_sub i ((heap b i)\<lparr>items := xs\<rparr>) b)"
    using Cons by (intro bus_inv_set_sub) (auto simp: bus_inv_def)
  with Cons show ?thesis by (simp add: iter_next_def)
qed

lemma bus_inv_close: "bus_inv b \<Longrightarrow> bus_inv (close_bus b)"
  by (auto simp: close_bus_def bus_inv_def registered_def)

section \<open>Dispatch without interference\<close>

text \<open>What one uninterrupted turn of the loop does to a subscriber.\<close>

definition full :: "sub \<Rightarrow> bool" where
  "full s \<longleftrightarrow> length (items s) \<ge> maxsize s"

definition offered :: "bool \<Rightarrow> bus_item \<Rightarrow> sub \<Rightarrow> sub" where
  "offered waits x s =
     (let s1 = (if full s \<and> waits then s\<lparr>durable_dropped := Suc (durable_dropped s)\<rparr> else s)
      in if full s then s1\<lparr>items := tl (items s) @ [x], dropped := Suc (dropped s)\<rparr>
         else s1\<lparr>items := items s @ [x]\<rparr>)"

definition same_conf :: "'s bus \<Rightarrow> 's bus \<Rightarrow> bool" where
  "same_conf b b' \<longleftrightarrow> subs b' = subs b \<and> next_id b' = next_id b \<and> closed b' = closed b
     \<and> durable_block_timeout_s b' = durable_block_timeout_s b \<and> durable_store b' = durable_store b
     \<and> strict_durable b' = strict_durable b"

lemma same_conf_trans: "same_conf a b \<Longrightarrow> same_conf b c \<Longrightarrow> same_conf a c"
  by (simp add: same_conf_def)

lemma same_conf_ids: "same_conf a b \<Longrightarrow> topic_ids b t = topic_ids a t"
  by (simp add: same_conf_def topic_ids_def)

definition waits_on :: "tier \<Rightarrow> 's bus \<Rightarrow> bool" where
  "waits_on t b \<longleftrightarrow> t = Durable \<and> durable_block_timeout_s b > 0"

lemma one_turn:
  assumes "0 < maxsize (heap b i)"
    and "(if must_wait t i b then wait_drained topic i [] b else (b, [])) = (b1, sc1)"
  shows "\<exists>b2. deliver topic x i b1 = (Inr (), b2) \<and> sc1 = [] \<and> same_conf b b2
             \<and> heap b2 = (heap b)(i := offered (waits_on t b) x (heap b i))"
  using assms
  by (auto simp: bus_simps offered_def full_def waits_on_def same_conf_def Let_def fun_eq_iff
        split: list.splits if_splits)

lemma dispatch_loop_quiet:
  assumes "bus_inv b"
  shows "\<exists>b'. dispatch_loop topic x t k [] b = (Inr (), b', []) \<and> same_conf b b'
           \<and> (\<forall>i. heap b' i = (if i \<in> set (drop k (topic_ids b topic))
                                  then offered (waits_on t b) x (heap b i) else heap b i))"
  using assms
proof (induction "length (topic_ids b topic) - k" arbitrary: k b)
  case 0
  then show ?case by (simp add: dispatch_loop.simps [of topic x t k "[]" b] same_conf_def)
next
  case (Suc n)
  define i where "i = topic_ids b topic ! k"
  have k: "k < length (topic_ids b topic)" using Suc.hyps(2) by simp
  then have mem: "i \<in> set (topic_ids b topic)" by (simp add: i_def)
  obtain b1 sc1 where w: "(if must_wait t i b then wait_drained topic i [] b else (b, [])) = (b1, sc1)"
    by fastforce
  have pos: "0 < maxsize (heap b i)"
    using Suc.prems topic_ids_subset [OF mem] by (auto simp: bus_inv_def)
  obtain b2 where b2: "deliver topic x i b1 = (Inr (), b2)" "sc1 = []" "same_conf b b2"
      "heap b2 = (heap b)(i := offered (waits_on t b) x (heap b i))"
    using one_turn [OF pos w] by blast
  have inv2: "bus_inv b2"
  proof -
    have "bus_inv b1"
      using w Suc.prems wait_drained_inv [of topic i "[]" b b1 sc1] by (auto simp: script_ok_def split: if_splits)
    then show ?thesis using b2(1) bus_inv_deliver [of b1 topic x i] by simp
  qed
  have ids: "topic_ids b2 topic = topic_ids b topic" using b2(3) by (rule same_conf_ids)
  have "n = length (topic_ids b2 topic) - Suc k" using Suc.hyps(2) ids by simp
  from Suc.hyps(1) [OF this inv2] obtain b' where b':
    "dispatch_loop topic x t (Suc k) [] b2 = (Inr (), b', [])" "same_conf b2 b'"
    "\<forall>j. heap b' j = (if j \<in> set (drop (Suc k) (topic_ids b2 topic))
                       then offered (waits_on t b2) x (heap b2 j) else heap b2 j)"
    by blast
  have unfold: "dispatch_loop topic x t k [] b = (Inr (), b', [])"
    using k w b2 b'(1) by (simp add: dispatch_loop.simps [of topic x t k "[]" b] i_def [symmetric] Let_def)
  have w2: "waits_on t b2 = waits_on t b" using b2(3) by (simp add: waits_on_def same_conf_def)
  have split: "drop k (topic_ids b topic) = i # drop (Suc k) (topic_ids b topic)"
    using k by (simp add: i_def Cons_nth_drop_Suc)
  have "i \<notin> set (drop (Suc k) (topic_ids b topic))"
    using topic_ids_distinct [OF Suc.prems, of topic] split
    by (metis distinct.simps(2) distinct_drop)
  then have "heap b' j = (if j \<in> set (drop k (topic_ids b topic))
                       then offered (waits_on t b) x (heap b j) else heap b j)" for j
    using b'(3) b2(4) ids w2 split by auto
  with unfold same_conf_trans [OF b2(3) b'(2)] show ?case by blast
qed

lemma bus_inv_quiet:
  assumes "bus_inv b" and "dispatch_both topic x t [] b = (r, b')"
  shows "bus_inv b'"
  using bus_inv_dispatch_both [of "[]" b topic x t] assms by (simp add: script_ok_def)

lemma dispatch_both_quiet:
  assumes inv: "bus_inv b" and nw: "topic \<noteq> WILDCARD"
  shows "\<exists>b'. dispatch_both topic x t [] b = (Inr (), b') \<and> same_conf b b'
           \<and> (\<forall>i. heap b' i = (if i \<in> set (topic_ids b topic) \<union> set (topic_ids b WILDCARD)
                                  then offered (waits_on t b) x (heap b i) else heap b i))"
proof -
  obtain b1 where b1: "dispatch topic x t [] b = (Inr (), b1, [])" "same_conf b b1"
    "\<forall>i. heap b1 i = (if i \<in> set (topic_ids b topic)
                       then offered (waits_on t b) x (heap b i) else heap b i)"
    using dispatch_loop_quiet [OF inv, of topic x t 0] by (auto simp: dispatch_def)
  have inv1: "bus_inv b1"
    using bus_inv_dispatch_loop [OF inv, of "[]" topic x t 0] b1(1)
    by (auto simp: dispatch_def script_ok_def)
  obtain b2 where b2: "dispatch WILDCARD x t [] b1 = (Inr (), b2, [])" "same_conf b1 b2"
    "\<forall>i. heap b2 i = (if i \<in> set (topic_ids b1 WILDCARD)
                       then offered (waits_on t b1) x (heap b1 i) else heap b1 i)"
    using dispatch_loop_quiet [OF inv1, of WILDCARD x t 0] by (auto simp: dispatch_def)
  have w: "waits_on t b1 = waits_on t b" using b1(2) by (simp add: waits_on_def same_conf_def)
  have ids: "topic_ids b1 WILDCARD = topic_ids b WILDCARD" using b1(2) by (rule same_conf_ids)
  have disj: "set (topic_ids b topic) \<inter> set (topic_ids b WILDCARD) = {}"
    using topics_disjoint [OF inv nw] .
  have "heap b2 i = (if i \<in> set (topic_ids b topic) \<union> set (topic_ids b WILDCARD)
                     then offered (waits_on t b) x (heap b i) else heap b i)" for i
    using b1(3) b2(3) w ids disj by auto
  with b1 b2 same_conf_trans show ?thesis by (fastforce simp: dispatch_both_def)
qed

section \<open>Interleavings\<close>

text \<open>
  Every operation of the bus is a step; what other tasks do during the waits of a publish is
  again any number of steps.
\<close>

inductive bus_step :: "(relay_event \<Rightarrow> 's \<Rightarrow> (py_exn + nat) \<times> 's) \<Rightarrow> 's bus \<Rightarrow> 's bus \<Rightarrow> bool"
  and bus_steps :: "(relay_event \<Rightarrow> 's \<Rightarrow> (py_exn + nat) \<times> 's) \<Rightarrow> 's bus \<Rightarrow> 's bus \<Rightarrow> bool"
  for persist where
  step_subscribe: "0 < n \<Longrightarrow> bus_step persist b (snd (subscribe topic n b))"
| step_iter: "bus_step persist b (snd (iter_next topic i b))"
| step_aclose: "bus_step persist b (unsubscribe topic i b)"
| step_close: "bus_step persist b (close_bus b)"
| step_publish: "\<forall>c. bus_steps persist c (intf c) \<Longrightarrow> \<forall>e \<in> set sc. \<forall>c. bus_steps persist c (snd e c)
    \<Longrightarrow> bus_step persist b (snd (publish persist intf sc ev b))"
| step_legacy: "\<forall>e \<in> set sc. \<forall>c. bus_steps persist c (snd e c)
    \<Longrightarrow> bus_step persist b (snd (publish_legacy topic v sc b))"
| steps_none: "bus_steps persist b b"
| steps_more: "bus_steps persist a b \<Longrightarrow> bus_step persist b c \<Longrightarrow> bus_steps persist a c"

lemma bus_inv_publish:
  assumes "bus_inv b" and "\<forall>c. bus_inv c \<longrightarrow> bus_inv (intf c)" and "script_ok sc"
  shows "bus_inv (snd (publish persist intf sc ev b))"
  using assms
  by (auto simp: publish_def Let_def bus_inv_dispatch_both split: option.splits prod.splits sum.splits)

lemma bus_inv_legacy:
  assumes "bus_inv b" and "script_ok sc"
  shows "bus_inv (snd (publish_legacy topic v sc b))"
  using assms by (simp add: publish_legacy_def bus_inv_dispatch_both)

lemma bus_steps_inv:
  "bus_step persist a b \<Longrightarrow> bus_inv a \<longrightarrow> bus_inv b"
  "bus_steps persist a b \<Longrightarrow> bus_inv a \<longrightarrow> bus_inv b"
proof (induction rule: bus_step_bus_steps.inducts)
  case (step_publish intf sc b ev)
  then show ?case by (auto simp: script_ok_def intro!: bus_inv_publish)
next
  case (step_legacy sc b topic v)
  then show ?case by (auto simp: script_ok_def intro!: bus_inv_legacy)
qed (auto simp: bus_inv_subscribe bus_inv_iter_next bus_inv_unsubscribe bus_inv_close)

text \<open>
  in every state the bus can reach, under any interleaving of subscriptions, consumers,
  publishers (with any activity during their waits) and a close, the buffer of every registered
  subscriber holds at most \<open>maxsize\<close> items.
\<close>

lemma queues_bounded:
  assumes "bus_steps persist (init_bus timeout st strict) b" and "i \<in> set (registered b)"
  shows "length (items (heap b i)) \<le> maxsize (heap b i)"
proof -
  have "bus_inv b" using bus_steps_inv(2) [OF assms(1)] by simp
  with assms(2) show ?thesis by (simp add: bus_inv_def)
qed

definition demo_event :: "string \<Rightarrow> relay_event" where
  "demo_event e = new_event e 0 (SessionStateChanged ''s1'' ''running'' ''paused'' None)"

definition no_persist :: "relay_event \<Rightarrow> unit \<Rightarrow> (py_exn + nat) \<times> unit" where
  "no_persist ev u = (Inr 0, u)"

lemma queues_bounded_witness:
  "length (items (heap (snd (publish no_persist id [] (demo_event ''e1'')
     (snd (subscribe ''SessionStateChanged'' 1 (init_bus 1 None False))))) 0)) \<le> 1"
proof -
  let ?b0 = "init_bus 1 None False :: unit bus"
  let ?b1 = "snd (subscribe ''SessionStateChanged'' 1 ?b0)"
  let ?b2 = "snd (publish no_persist id [] (demo_event ''e1'') ?b1)"
  have s: "bus_steps no_persist ?b0 ?b2"
    by (rule steps_more [OF steps_more [OF steps_none step_subscribe] step_publish])
       (simp_all add: steps_none)
  have "0 \<in> set (registered ?b2)" by code_simp
  moreover have "maxsize (heap ?b2 0) = 1" by code_simp
  ultimately show ?thesis using queues_bounded [OF s, of 0] by simp
qed

section \<open>Closing\<close>

text \<open>Once the bus is closed, every registered subscriber knows it.\<close>

definition close_flagged :: "'s bus \<Rightarrow> bool" where
  "close_flagged b \<longleftrightarrow> bus_inv b \<and> (closed b \<longrightarrow> (\<forall>i \<in> set (registered b). closed_flag (heap b i)))"

lemma close_flagged_subscribe:
  assumes "close_flagged b" and "0 < n"
  shows "close_flagged (snd (subscribe topic n b))"
proof -
  let ?b = "snd (subscribe topic n b)"
  have "mset (registered ?b) = add_mset (next_id b) (mset (registered b))"
    using assms by (simp add: registered_subscribe close_flagged_def bus_inv_def)
  then have "set (registered ?b) = insert (next_id b) (set (registered b))"
    by (metis set_mset_add_mset_insert set_mset_mset)
  moreover have "heap ?b i = (if i = next_id b then (new_sub n)\<lparr>closed_flag := closed b\<rparr> else heap b i)"
      "closed ?b = closed b" for i
    by (simp_all add: subscribe_def Let_def)
  ultimately show ?thesis
    using assms by (auto simp: close_flagged_def bus_inv_subscribe)
qed

lemma close_flagged_unsubscribe: "close_flagged b \<Longrightarrow> close_flagged (unsubscribe topic i b)"
proof -
  assume c: "close_flagged b"
  obtain m where "mset (registered b) = mset (registered (unsubscribe topic i b)) + m"
    using registered_unsubscribe c unfolding close_flagged_def bus_inv_def by blast
  then have "set (registered (unsubscribe topic i b)) \<subseteq> set (registered b)"
    by (metis Un_iff set_mset_mset set_mset_union subsetI)
  moreover have "heap (unsubscribe topic i b) = heap b" "closed (unsubscribe topic i b) = closed b"
    by (simp_all add: unsubscribe_def split: option.splits)
  ultimately show ?thesis using c by (auto simp: close_flagged_def bus_inv_unsubscribe)
qed

lemma close_flagged_set_sub:
  "close_flagged b \<Longrightarrow> bus_inv (set_sub i s b) \<Longrightarrow> closed_flag s = closed_flag (heap b i) \<Longrightarrow> close_flagged (set_sub i s b)"
  by (auto simp: close_flagged_def set_sub_def registered_def)

lemma close_flagged_iter: "close_flagged b \<Longrightarrow> close_flagged (snd (iter_next topic i b))"
proof -
  assume c: "close_flagged b"
  have inv: "bus_inv (snd (iter_next topic i b))" using c by (simp add: close_flagged_def bus_inv_iter_next)
  show ?thesis
  proof (cases "items (heap b i)")
    case Nil
    then show ?thesis using c by (simp add: iter_next_def close_flagged_unsubscribe)
  next
    case (Cons x xs)
    then show ?thesis using c inv by (auto simp: iter_next_def intro!: close_flagged_set_sub)
  qed
qed

lemma close_flagged_close: "close_flagged b \<Longrightarrow> close_flagged (close_bus b)"
  by (auto simp: close_flagged_def bus_inv_close) (auto simp: close_bus_def registered_def split: if_splits)

lemma close_flagged_deliver: "close_flagged b \<Longrightarrow> close_flagged (snd (deliver topic x i b))"
  using bus_inv_deliver [of b topic x i]
  by (auto simp: close_flagged_def deliver_def Let_def set_sub_def registered_def split: list.splits)

lemma close_flagged_timeout: "close_flagged b \<Longrightarrow> close_flagged (on_timeout topic i b)"
  using bus_inv_on_timeout [of b topic i]
  by (auto simp: close_flagged_def on_timeout_def set_sub_def registered_def)

lemma close_flagged_keeps:
  "(\<forall>e \<in> set sc. \<forall>c. close_flagged c \<longrightarrow> close_flagged (snd e c)) \<Longrightarrow> keeps close_flagged x sc"
  by (simp add: keeps_def close_flagged_deliver close_flagged_timeout)

lemma close_flagged_store: "close_flagged (b\<lparr>durable_store := st\<rparr>) = close_flagged b"
  by (simp add: close_flagged_def registered_def)

lemma close_flagged_steps:
  "bus_step persist a b \<Longrightarrow> close_flagged a \<longrightarrow> close_flagged b"
  "bus_steps persist a b \<Longrightarrow> close_flagged a \<longrightarrow> close_flagged b"
proof (induction rule: bus_step_bus_steps.inducts)
  case (step_publish intf sc b ev)
  have "keeps close_flagged x sc" for x using step_publish by (intro close_flagged_keeps) auto
  then have "close_flagged c \<Longrightarrow> close_flagged (snd (dispatch_both topic x t sc c))" for topic x t c
    by (rule keeps_dispatch_both)
  then show ?case using step_publish
    by (simp add: publish_def Let_def close_flagged_store split: option.splits prod.splits sum.splits)
next
  case (step_legacy sc b topic v)
  have "keeps close_flagged x sc" for x using step_legacy by (intro close_flagged_keeps) auto
  then show ?case by (simp add: publish_legacy_def keeps_dispatch_both)
qed (auto simp: close_flagged_subscribe close_flagged_iter close_flagged_unsubscribe close_flagged_close)

text \<open>\<open>n\<close> resumptions of one iterator with nothing in between.\<close>

fun run_iter :: "nat \<Rightarrow> string \<Rightarrow> nat \<Rightarrow> 's bus \<Rightarrow> iter_out list" where
  "run_iter 0 topic i b = []"
| "run_iter (Suc n) topic i b = (let (out, b') = iter_next topic i b in out # run_iter n topic i b')"

lemma run_iter_drains:
  "closed_flag (heap b i) \<Longrightarrow> items (heap b i) = xs
   \<Longrightarrow> run_iter (Suc (length xs)) topic i b = map Yield xs @ [Stop]"
proof (induction xs arbitrary: b)
  case Nil
  then show ?case by (simp add: iter_next_def)
next
  case (Cons x xs)
  let ?b = "set_sub i ((heap b i)\<lparr>items := xs\<rparr>) b"
  have it: "iter_next topic i b = (Yield x, ?b)" using Cons.prems by (simp add: iter_next_def)
  have "run_iter (Suc (length xs)) topic i ?b = map Yield xs @ [Stop]"
    using Cons.prems by (intro Cons.IH) (simp_all add: set_sub_def)
  then show ?case using it by simp
qed

text \<open>
  closing is a drain. In every reachable state of a closed bus, each registered
  subscriber still receives all the items buffered for it, in order, and then its iterator
  ends instead of waiting; and a publish changes nothing.
\<close>

lemma close_drains:
  assumes "bus_steps persist (init_bus timeout st strict) b" and "closed b" and "i \<in> set (registered b)"
  shows "run_iter (Suc (length (items (heap b i)))) topic i b = map Yield (items (heap b i)) @ [Stop]
     \<and> publish persist intf sc ev b = (Inr (), b)"
proof -
  have "close_flagged (init_bus timeout st strict :: 'a bus)"
    by (simp add: close_flagged_def) (simp add: init_bus_def registered_def)
  then have "close_flagged b" using close_flagged_steps(2) [OF assms(1)] by blast
  then have "closed_flag (heap b i)" using assms by (simp add: close_flagged_def)
  from run_iter_drains [OF this refl] show ?thesis using assms(2) by (simp add: publish_def del: run_iter.simps)
qed

lemma close_drains_witness:
  "let b = close_bus (snd (publish no_persist id [] (demo_event ''e1'')
             (snd (subscribe ''*'' 5 (init_bus 1 None False)))))
   in run_iter 2 ''*'' 0 b = [Yield (Typed (demo_event ''e1'')), Stop]
      \<and> publish no_persist id [] (demo_event ''e2'') b = (Inr (), b)"
proof -
  let ?b1 = "snd (subscribe ''*'' 5 (init_bus 1 None False)) :: unit bus"
  let ?b2 = "snd (publish no_persist id [] (demo_event ''e1'') ?b1)"
  have s: "bus_steps no_persist (init_bus 1 None False) (close_bus ?b2)"
    by (rule steps_more [OF steps_more [OF steps_more [OF steps_none step_subscribe] step_publish] step_close])
       (simp_all add: steps_none)
  have "closed (close_bus ?b2)" "0 \<in> set (registered (close_bus ?b2))"
    "items (heap (close_bus ?b2) 0) = [Typed (demo_event ''e1'')]" by code_simp+
  then show ?thesis
    using close_drains [OF s, of 0 "''*''" id "[]" "demo_event ''e2''"]
    by (simp add: Let_def numeral_2_eq_2 del: run_iter.simps)
qed

section \<open>Delivery guarantees\<close>

definition lastn :: "nat \<Rightarrow> 'a list \<Rightarrow> 'a list" where
  "lastn n xs = drop (length xs - n) xs"

lemma lastn_short: "length xs \<le> n \<Longrightarrow> lastn n xs = xs"
  by (simp add: lastn_def)

lemma lastn_lastn_append: "lastn n (lastn n xs @ ys) = lastn n (xs @ ys)"
  by (cases "length xs \<le> n") (auto simp: lastn_def add.commute)

lemma items_offered:
  assumes "length (items s) \<le> maxsize s" and "0 < maxsize s"
  shows "items (offered w x s) = lastn (maxsize s) (items s @ [x])"
    and "maxsize (offered w x s) = maxsize s"
proof -
  show "maxsize (offered w x s) = maxsize s" by (simp add: offered_def Let_def)
  show "items (offered w x s) = lastn (maxsize s) (items s @ [x])"
  proof (cases "full s")
    case True
    with assms have "length (items s) = maxsize s" by (simp add: full_def)
    then show ?thesis using True assms by (cases "items s") (auto simp: offered_def lastn_def Let_def)
  next
    case False
    then show ?thesis by (simp add: offered_def lastn_def Let_def full_def)
  qed
qed

text \<open>A bus that takes every event: no store and not strict, or a store whose writes succeed.\<close>

definition accepting :: "(relay_event \<Rightarrow> 's \<Rightarrow> (py_exn + nat) \<times> 's) \<Rightarrow> 's bus \<Rightarrow> bool" where
  "accepting persist b \<longleftrightarrow> \<not> closed b \<and>
     (case durable_store b of
        None \<Rightarrow> \<not> strict_durable b
      | Some _ \<Rightarrow> \<forall>ev st. \<exists>n st'. persist ev st = (Inr n, st'))"

definition publish_all :: "(relay_event \<Rightarrow> 's \<Rightarrow> (py_exn + nat) \<times> 's) \<Rightarrow> relay_event list \<Rightarrow> 's bus \<Rightarrow> 's bus" where
  "publish_all persist evs b = foldl (\<lambda>c ev. snd (publish persist id [] ev c)) b evs"

definition matching :: "string \<Rightarrow> relay_event \<Rightarrow> bool" where
  "matching t ev \<longleftrightarrow> t = WILDCARD \<or> class_name (body ev) = t"

lemma class_name_not_wildcard: "class_name e \<noteq> WILDCARD"
  by (cases e) (simp_all add: WILDCARD_def)

lemma publish_quiet:
  assumes inv: "bus_inv b" and acc: "accepting persist b"
  shows "\<exists>b'. publish persist id [] ev b = (Inr (), b') \<and> bus_inv b' \<and> accepting persist b'
           \<and> subs b' = subs b
           \<and> (\<forall>i. heap b' i =
                 (if i \<in> set (topic_ids b (class_name (body ev))) \<union> set (topic_ids b WILDCARD)
                  then offered (waits_on (delivery_tier ev) b) (Typed ev) (heap b i) else heap b i))"
proof -
  let ?t = "class_name (body ev)"
  obtain c where c: "publish persist id [] ev b = dispatch_both ?t (Typed ev) (delivery_tier ev) [] c"
      "bus_inv c" "accepting persist c" "subs c = subs b" "heap c = heap b"
      "durable_block_timeout_s c = durable_block_timeout_s b"
  proof (cases "durable_store b")
    case None
    then have "publish persist id [] ev b = dispatch_both ?t (Typed ev) (delivery_tier ev) [] b"
      using acc by (simp add: publish_def accepting_def Let_def)
    with inv acc that show ?thesis by blast
  next
    case (Some st)
    have "\<forall>ev st. \<exists>n st'. persist ev st = (Inr n, st')" using acc Some by (simp add: accepting_def)
    then obtain n st' where p: "persist ev st = (Inr n, st')" by blast
    let ?c = "if delivery_tier ev = Durable then b\<lparr>durable_store := Some st'\<rparr> else b"
    have "publish persist id [] ev b = dispatch_both ?t (Typed ev) (delivery_tier ev) [] ?c"
      using acc Some p by (simp add: publish_def accepting_def Let_def)
    with inv acc Some that [of ?c] show ?thesis by (auto simp: accepting_def split: if_splits)
  qed
  obtain b' where b': "dispatch_both ?t (Typed ev) (delivery_tier ev) [] c = (Inr (), b')" "same_conf c b'"
    "\<forall>i. heap b' i = (if i \<in> set (topic_ids c ?t) \<union> set (topic_ids c WILDCARD)
                        then offered (waits_on (delivery_tier ev) c) (Typed ev) (heap c i) else heap c i)"
    using dispatch_both_quiet [OF c(2) class_name_not_wildcard] by blast
  have "bus_inv b'" using bus_inv_quiet [OF c(2) b'(1)] .
  moreover have "accepting persist b'" using c(3) b'(2) by (cases "durable_store c") (simp_all add: accepting_def same_conf_def)
  moreover have "topic_ids c t = topic_ids b t" for t using c(4) by (simp add: topic_ids_def)
  ultimately show ?thesis
    using c b' by (auto simp: same_conf_def waits_on_def)
qed

lemma topic_of_subscriber:
  assumes "bus_inv b" and "i \<in> set (topic_ids b t)"
  shows "i \<in> set (topic_ids b u) \<longleftrightarrow> u = t"
  using topics_disjoint [OF assms(1), of t u] assms(2) by (cases "u = t") auto

lemma publish_all_fifo:
  assumes "bus_inv b" and "accepting persist b" and "i \<in> set (topic_ids b t)"
  shows "maxsize (heap (publish_all persist evs b) i) = maxsize (heap b i)
     \<and> items (heap (publish_all persist evs b) i) =
         lastn (maxsize (heap b i)) (items (heap b i) @ map Typed (filter (matching t) evs))"
  using assms
proof (induction evs arbitrary: b)
  case Nil
  then have "length (items (heap b i)) \<le> maxsize (heap b i)"
    using topic_ids_subset [OF Nil(3)] by (simp add: bus_inv_def)
  then show ?case by (simp add: publish_all_def lastn_short)
next
  case (Cons ev evs)
  have s: "length (items (heap b i)) \<le> maxsize (heap b i)" "0 < maxsize (heap b i)"
    using Cons.prems(1) topic_ids_subset [OF Cons.prems(3)] by (auto simp: bus_inv_def)
  obtain b' where b': "publish persist id [] ev b = (Inr (), b')" "bus_inv b'" "accepting persist b'"
     "subs b' = subs b"
     "heap b' i = (if i \<in> set (topic_ids b (class_name (body ev))) \<union> set (topic_ids b WILDCARD)
                   then offered (waits_on (delivery_tier ev) b) (Typed ev) (heap b i) else heap b i)"
    using publish_quiet [OF Cons.prems(1,2), of ev] by blast
  have m: "i \<in> set (topic_ids b (class_name (body ev))) \<union> set (topic_ids b WILDCARD) \<longleftrightarrow> matching t ev"
    using topic_of_subscriber [OF Cons.prems(1,3)] by (auto simp: matching_def)
  have mem: "i \<in> set (topic_ids b' t)" using Cons.prems(3) b'(4) by (simp add: topic_ids_def)
  have ih: "maxsize (heap (publish_all persist evs b') i) = maxsize (heap b' i)
     \<and> items (heap (publish_all persist evs b') i) =
         lastn (maxsize (heap b' i)) (items (heap b' i) @ map Typed (filter (matching t) evs))"
    using Cons.IH [OF b'(2,3) mem] .
  have unf: "publish_all persist (ev # evs) b = publish_all persist evs b'"
    using b'(1) by (simp add: publish_all_def)
  show ?case
  proof (cases "matching t ev")
    case True
    then have "heap b' i = offered (waits_on (delivery_tier ev) b) (Typed ev) (heap b i)"
      using m b'(5) by simp
    then show ?thesis
      using True ih unf items_offered [OF s] lastn_lastn_append [of "maxsize (heap b i)" "items (heap b i) @ [Typed ev]"]
      by simp
  next
    case False
    then have "heap b' i = heap b i" using m b'(5) by simp
    with False ih unf show ?thesis by simp
  qed
qed

text \<open>
  a subscriber that does not consume holds, after any sequence of publishes, exactly the
  last \<open>maxsize\<close> items of its old buffer followed by the events of its topic (all events for the
  wildcard topic), in publication order: nothing is reordered, duplicated or delivered to the
  wrong topic, and overflow loses the oldest items only.
\<close>

lemma subscriber_fifo_drop_oldest:
  assumes "bus_inv b" and "accepting persist b" and "i \<in> set (topic_ids b t)"
  shows "items (heap (publish_all persist evs b) i) =
           lastn (maxsize (heap b i)) (items (heap b i) @ map Typed (filter (matching t) evs))"
  using publish_all_fifo [OF assms] by blast

lemma subscriber_fifo_drop_oldest_witness:
  "items (heap (publish_all no_persist [demo_event ''e1'', demo_event ''e2'', demo_event ''e3'']
      (snd (subscribe ''*'' 2 (init_bus 1 None False)))) 0)
   = [Typed (demo_event ''e2''), Typed (demo_event ''e3'')]"
proof -
  let ?b = "snd (subscribe ''*'' 2 (init_bus 1 None False)) :: unit bus"
  have "bus_inv ?b" by (intro bus_inv_subscribe) simp_all
  moreover have "accepting no_persist ?b"
    by (simp add: accepting_def subscribe_def init_bus_def Let_def)
  moreover have "0 \<in> set (topic_ids ?b ''*'')" by code_simp
  ultimately have "items (heap (publish_all no_persist [demo_event ''e1'', demo_event ''e2'', demo_event ''e3''] ?b) 0)
     = lastn (maxsize (heap ?b 0)) (items (heap ?b 0)
         @ map Typed (filter (matching ''*'') [demo_event ''e1'', demo_event ''e2'', demo_event ''e3'']))"
    by (rule subscriber_fifo_drop_oldest)
  moreover have "maxsize (heap ?b 0) = 2" "items (heap ?b 0) = []" by code_simp+
  ultimately show ?thesis by (simp add: matching_def WILDCARD_def lastn_def)
qed

text \<open>
  a subscriber can miss a durable event although its own queue has room. While the
  publisher waits for the first, full, subscriber of a topic, that subscriber's consumer goes
  away and leaves the list over which \<open>_dispatch\<close> is iterating; the iteration then ends without
  having visited the second subscriber, whose buffer is untouched.
\<close>

lemma dispatch_skips_subscriber:
  assumes "topic_ids b topic = [a, c]" and "a \<noteq> c" and "must_wait Durable a b"
    and "0 < maxsize (heap b a)"
    and "dispatch topic x Durable [(timed_out, unsubscribe topic a)] b = (r, b', sc')"
  shows "r = Inr () \<and> topic_ids b' topic = [c] \<and> heap b' c = heap b c"
proof -
  define b1 where "b1 = (if timed_out then on_timeout topic a (unsubscribe topic a b) else unsubscribe topic a b)"
  have sub: "map_of (subs b) topic = Some [a, c]"
    using assms(1) by (auto simp: topic_ids_def split: option.splits)
  have heap_u: "heap (unsubscribe topic a b) = heap b"
    using sub by (simp add: unsubscribe_def)
  have ids1: "topic_ids b1 topic = [c]"
    using sub by (simp add: b1_def topic_ids_def unsubscribe_def on_timeout_def set_sub_def od_simps)
  have ha: "length (items (heap b1 a)) \<ge> maxsize (heap b1 a)" "0 < maxsize (heap b1 a)"
    using assms(3,4) heap_u by (auto simp: b1_def must_wait_def on_timeout_def set_sub_def)
  obtain b2 where b2: "deliver topic x a b1 = (Inr (), b2)" "heap b2 c = heap b1 c" "subs b2 = subs b1"
    using ha assms(2) by (cases "items (heap b1 a)") (auto simp: deliver_def set_sub_def Let_def)
  have ids2: "topic_ids b2 topic = [c]" using ids1 b2(3) by (simp add: topic_ids_def)
  have "dispatch topic x Durable [(timed_out, unsubscribe topic a)] b = (Inr (), b2, [])"
    using assms(1,3) b2(1) ids2
    by (simp add: dispatch_def dispatch_loop.simps wait_drained_def b1_def [symmetric] Let_def)
  moreover have "heap b1 c = heap b c"
    using heap_u assms(2) by (simp add: b1_def on_timeout_def set_sub_def)
  ultimately show ?thesis using assms(5) b2(2) ids2 by simp
qed

definition skip_bus :: "unit bus" where
  "skip_bus = snd (publish no_persist id [] (demo_event ''e0'')
     (snd (subscribe ''SessionStateChanged'' 1 (init_bus 1 None False))))"

lemma dispatch_skips_subscriber_witness:
  "let b = snd (subscribe ''SessionStateChanged'' 5 skip_bus);
       out = dispatch ''SessionStateChanged'' (Typed (demo_event ''e1'')) Durable
               [(True, unsubscribe ''SessionStateChanged'' 0)] b
   in fst out = Inr () \<and> items (heap (fst (snd out)) 1) = [] \<and> maxsize (heap (fst (snd out)) 1) = 5"
proof -
  let ?b = "snd (subscribe ''SessionStateChanged'' 5 skip_bus)"
  obtain r b' sc' where out: "dispatch ''SessionStateChanged'' (Typed (demo_event ''e1'')) Durable
     [(True, unsubscribe ''SessionStateChanged'' 0)] ?b = (r, b', sc')" by (metis prod_cases3)
  have h: "topic_ids ?b ''SessionStateChanged'' = [0, 1]" "must_wait Durable 0 ?b"
    "0 < maxsize (heap ?b 0)" "items (heap ?b 1) = []" "maxsize (heap ?b 1) = 5"
    by code_simp+
  have "r = Inr () \<and> topic_ids b' ''SessionStateChanged'' = [1] \<and> heap b' 1 = heap ?b 1"
    using dispatch_skips_subscriber [OF h(1) _ h(2,3) out] by simp
  with out h show ?thesis by (simp add: Let_def)
qed

end
