(* ===== verification/Retention.thy ===== *)
theory Retention
  imports Relay_Prelude
begin

text \<open>
  The batched purge of \<open>maintenance/retention.py\<close>, generic in the table: \<open>pk\<close> reads the primary
  key of a row, \<open>ts\<close> the column compared with the cutoff (\<open>None\<close> is SQL \<open>NULL\<close>, for which the
  comparison is not true), \<open>extra\<close> is the optional additional condition. A table is the list of
  its rows in the order in which the database scans it.
\<close>

definition expired :: "('r \<Rightarrow> int option) \<Rightarrow> int \<Rightarrow> ('r \<Rightarrow> bool) \<Rightarrow> 'r \<Rightarrow> bool" where
  "expired ts cutoff extra r \<longleftrightarrow> (case ts r of None \<Rightarrow> False | Some t \<Rightarrow> t < cutoff) \<and> extra r"

record summary =
  rows_deleted :: nat
  batches :: nat

definition select_ids :: "('r \<Rightarrow> 'k) \<Rightarrow> ('r \<Rightarrow> bool) \<Rightarrow> nat \<Rightarrow> 'r list \<Rightarrow> 'k list" where
  "select_ids pk old n rows = map pk (take n (filter old rows))"

definition delete_ids :: "('r \<Rightarrow> 'k) \<Rightarrow> 'k list \<Rightarrow> 'r list \<Rightarrow> 'r list" where
  "delete_ids pk ids rows = filter (\<lambda>r. pk r \<notin> set ids) rows"

lemma length_delete_ids: "length (delete_ids pk ids rows) \<le> length rows"
  by (simp add: delete_ids_def)

lemma delete_ids_smaller:
  assumes "select_ids pk old n rows \<noteq> []"
  shows "length (delete_ids pk (select_ids pk old n rows) rows) < length rows"
proof -
  obtain r where r: "r \<in> set (take n (filter old rows))"
    using assms by (cases "take n (filter old rows)") (auto simp: select_ids_def)
  then have "r \<in> set rows" by (auto dest: in_set_takeD)
  moreover have "pk r \<in> set (select_ids pk old n rows)" using r by (simp add: select_ids_def)
  ultimately show ?thesis by (auto simp: delete_ids_def intro: length_filter_less)
qed

text \<open>The \<open>while True\<close> loop with its counters.\<close>

function batch_loop :: "('r \<Rightarrow> 'k) \<Rightarrow> ('r \<Rightarrow> bool) \<Rightarrow> nat \<Rightarrow> bool \<Rightarrow> summary \<Rightarrow> 'r list \<Rightarrow> summary \<times> 'r list" where
  "batch_loop pk old batch_size dry_run acc rows =
     (let ids = select_ids pk old batch_size rows in
      if ids = [] then (acc, rows)
      else if dry_run then
        (acc\<lparr>rows_deleted := rows_deleted acc + length ids, batches := Suc (batches acc)\<rparr>, rows)
      else
        (let rows' = delete_ids pk ids rows;
             acc' = acc\<lparr>rows_deleted := rows_deleted acc + (length rows - length rows'),
                        batches := Suc (batches acc)\<rparr>
         in if length ids < batch_size then (acc', rows')
            else batch_loop pk old batch_size dry_run acc' rows'))"
  by pat_completeness auto
termination
  by (relation "measure (\<lambda>(pk, old, n, d, acc, rows). length rows)") (auto intro: delete_ids_smaller)

declare batch_loop.simps [simp del]

definition delete_in_batches ::
    "('r \<Rightarrow> 'k) \<Rightarrow> ('r \<Rightarrow> int option) \<Rightarrow> ('r \<Rightarrow> bool) \<Rightarrow> int \<Rightarrow> nat \<Rightarrow> bool \<Rightarrow> 'r list \<Rightarrow> summary \<times> 'r list" where
  "delete_in_batches pk ts extra cutoff batch_size dry_run rows =
     batch_loop pk (expired ts cutoff extra) batch_size dry_run
       \<lparr>rows_deleted = 0, batches = 0\<rparr> rows"

section \<open>What a purge does\<close>

lemma delete_first_matches:
  "distinct (map pk rows) \<Longrightarrow>
     filter old (delete_ids pk (select_ids pk old n rows) rows) = drop n (filter old rows)
   \<and> filter (\<lambda>r. \<not> old r) (delete_ids pk (select_ids pk old n rows) rows) = filter (\<lambda>r. \<not> old r) rows"
proof (induction rows arbitrary: n)
  case Nil
  show ?case by (simp add: delete_ids_def)
next
  case (Cons r rows)
  have fresh: "pk r \<notin> pk ` set rows" and d: "distinct (map pk rows)" using Cons.prems by auto
  have skip: "pk r \<notin> set (select_ids pk old m rows)" for m
    using fresh by (auto simp: select_ids_def dest: in_set_takeD)
  have other: "delete_ids pk (pk r # ids) rows = delete_ids pk ids rows" for ids
    using fresh unfolding delete_ids_def by (intro filter_cong refl) (auto simp: image_iff)
  have none: "delete_ids pk [] rows = rows" by (simp add: delete_ids_def)
  show ?case
  proof (cases "old r \<and> 0 < n")
    case True
    then obtain m where m: "n = Suc m" by (cases n) auto
    have "delete_ids pk (select_ids pk old n (r # rows)) (r # rows) =
        delete_ids pk (select_ids pk old m rows) rows"
      using True m other [of "select_ids pk old m rows"] by (simp add: select_ids_def delete_ids_def)
    with True m Cons.IH [OF d, of m] show ?thesis by simp
  next
    case False
    have "delete_ids pk (select_ids pk old n (r # rows)) (r # rows) =
        r # delete_ids pk (select_ids pk old n rows) rows"
      using False skip [of n] by (cases "old r") (auto simp: select_ids_def delete_ids_def)
    with False Cons.IH [OF d, of n] show ?thesis by auto
  qed
qed

lemma length_split_filter: "length xs = length (filter P xs) + length (filter (\<lambda>x. \<not> P x) xs)"
  by (induction xs) auto

definition batches_for :: "nat \<Rightarrow> nat \<Rightarrow> nat" where
  "batches_for m n = (m + n - 1) div n"

lemma batches_for_simps:
  "0 < n \<Longrightarrow> batches_for 0 n = 0"
  "0 < m \<Longrightarrow> m < n \<Longrightarrow> batches_for m n = 1"
  "0 < n \<Longrightarrow> n \<le> m \<Longrightarrow> batches_for m n = Suc (batches_for (m - n) n)"
proof -
  show "0 < n \<Longrightarrow> batches_for 0 n = 0" by (simp add: batches_for_def)
  show "0 < m \<Longrightarrow> m < n \<Longrightarrow> batches_for m n = 1"
    by (simp add: batches_for_def div_nat_eqI)
  assume "0 < n" "n \<le> m"
  then have "m + n - 1 = (m - n + n - 1) + n" by simp
  with \<open>0 < n\<close> show "batches_for m n = Suc (batches_for (m - n) n)"
    unfolding batches_for_def by (metis Suc_eq_plus1 div_add_self2 less_numeral_extra(3))
qed

lemma batch_loop_exact:
  assumes "distinct (map pk rows)" and "0 < n"
  shows "batch_loop pk old n False acc rows =
     (acc\<lparr>rows_deleted := rows_deleted acc + length (filter old rows),
          batches := batches acc + batches_for (length (filter old rows)) n\<rparr>,
      filter (\<lambda>r. \<not> old r) rows)"
  using assms
proof (induction "length rows" arbitrary: rows acc rule: less_induct)
  case less
  let ?ids = "select_ids pk old n rows"
  let ?rows = "delete_ids pk ?ids rows"
  let ?m = "length (filter old rows)"
  have del: "filter old ?rows = drop n (filter old rows)"
    "filter (\<lambda>r. \<not> old r) ?rows = filter (\<lambda>r. \<not> old r) rows"
    using delete_first_matches [OF less.prems(1), of old n] by auto
  have len: "length ?ids = min n ?m" by (simp add: select_ids_def)
  have cnt: "length rows - length ?rows = min n ?m"
    using del length_split_filter [of rows old] length_split_filter [of ?rows old]
    by (simp add: min_def)
  have none: "filter (\<lambda>r. \<not> old r) rs = rs" if "filter old rs = []" for rs
    using that by (simp add: filter_empty_conv)
  show ?case
  proof (cases "?m = 0")
    case True
    then have "?ids = []" using len by simp
    with True less.prems none [of rows] show ?thesis
      by (simp add: batch_loop.simps [of pk old n False acc rows] batches_for_simps)
  next
    case False
    then have ne: "?ids \<noteq> []" using len less.prems(2) by (auto simp: min_def split: if_splits)
    let ?acc = "acc\<lparr>rows_deleted := rows_deleted acc + min n ?m, batches := Suc (batches acc)\<rparr>"
    have unf: "batch_loop pk old n False acc rows =
       (if min n ?m < n then (?acc, ?rows) else batch_loop pk old n False ?acc ?rows)"
      using ne cnt len by (simp add: batch_loop.simps [of pk old n False acc rows] Let_def)
    show ?thesis
    proof (cases "?m < n")
      case True
      have "filter old ?rows = []" using del(1) True by simp
      then have "?rows = filter (\<lambda>r. \<not> old r) rows" using none [of ?rows] del(2) by simp
      with True False unf show ?thesis by (simp add: batches_for_simps(2))
    next
      case big: False
      have d: "distinct (map pk ?rows)"
        using less.prems(1) by (auto simp: delete_ids_def distinct_map inj_on_def)
      have "batch_loop pk old n False ?acc ?rows =
         (?acc\<lparr>rows_deleted := rows_deleted ?acc + length (filter old ?rows),
               batches := batches ?acc + batches_for (length (filter old ?rows)) n\<rparr>,
          filter (\<lambda>r. \<not> old r) ?rows)"
        using less.hyps [OF delete_ids_smaller [OF ne] d less.prems(2)] .
      with big unf del less.prems(2) show ?thesis by (simp add: batches_for_simps(3))
    qed
  qed
qed

text \<open>
  a purge with a positive batch size removes exactly the expired rows of a keyed table,
  keeps the others in their order, reports their number, and needs one batch per
  \<open>batch_size\<close> expired rows, rounded up.
\<close>

lemma retention_exact:
  assumes "distinct (map pk rows)" and "0 < batch_size"
  shows "delete_in_batches pk ts extra cutoff batch_size False rows =
     (\<lparr>rows_deleted = length (filter (expired ts cutoff extra) rows),
       batches = (length (filter (expired ts cutoff extra) rows) + batch_size - 1) div batch_size\<rparr>,
      filter (\<lambda>r. \<not> expired ts cutoff extra r) rows)"
  using batch_loop_exact [OF assms] by (simp add: delete_in_batches_def batches_for_def)

lemma retention_exact_witness:
  "delete_in_batches fst (\<lambda>r. Some (snd r)) (\<lambda>_. True) 10 2 False
     [(1::nat, 3::int), (2, 12), (3, 4), (4, 5)]
   = (\<lparr>rows_deleted = 3, batches = 2\<rparr>, [(2, 12)])"
proof -
  have "distinct (map fst [(1::nat, 3::int), (2, 12), (3, 4), (4, 5)])" by simp
  from retention_exact [OF this, of 2 "\<lambda>r. Some (snd r)" "\<lambda>_. True" 10] show ?thesis
    by (simp add: expired_def)
qed

lemma batch_loop_dry:
  "snd (batch_loop pk old n True acc rows) = rows"
  by (simp add: batch_loop.simps [of pk old n True acc rows] Let_def)

end
