(* ===== verification/Json_Values.thy ===== *)
theory Json_Values
  imports Py_Values
begin

text \<open>
  Values as they come back from JSON text: frames on the wire, specs in the environment of a
  container and the JSON columns of the database are all \<open>json.loads(json.dumps(v))\<close>.
\<close>

section \<open>A round trip through JSON\<close>

text \<open>
  \<open>json.loads(json.dumps(v))\<close>: tuples become lists and keys become strings; a key that is not
  a string, number, boolean or \<open>None\<close> makes \<open>dumps\<close> raise. \<open>fr\<close> is the text of a float.
\<close>

definition str_int :: "int \<Rightarrow> string" where
  "str_int i = (if i < 0 then CHR ''-'' # str_nat (nat (- i)) else str_nat (nat i))"

fun json_key :: "(pyfloat \<Rightarrow> string) \<Rightarrow> pyval \<Rightarrow> py_exn + string" where
  "json_key fr (PStr s) = Inr s"
| "json_key fr (PBool b) = Inr (if b then ''true'' else ''false'')"
| "json_key fr (PInt i) = Inr (str_int i)"
| "json_key fr (PFloat f) = Inr (fr f)"
| "json_key fr PNone = Inr ''null''"
| "json_key fr _ = Inl TypeError"

fun json_norm :: "(pyfloat \<Rightarrow> string) \<Rightarrow> pyval \<Rightarrow> py_exn + pyval"
and json_norm_list :: "(pyfloat \<Rightarrow> string) \<Rightarrow> pyval list \<Rightarrow> py_exn + pyval list"
and json_norm_dict :: "(pyfloat \<Rightarrow> string) \<Rightarrow> pydict \<Rightarrow> pydict \<Rightarrow> py_exn + pydict" where
  "json_norm fr (PList xs) = map_sum id PList (json_norm_list fr xs)"
| "json_norm fr (PTuple xs) = map_sum id PList (json_norm_list fr xs)"
| "json_norm fr (PDict d) = map_sum id PDict (json_norm_dict fr [] d)"
| "json_norm fr v = Inr v"
| "json_norm_list fr [] = Inr []"
| "json_norm_list fr (x # xs) = (case json_norm fr x of
     Inl e \<Rightarrow> Inl e
   | Inr y \<Rightarrow> map_sum id ((#) y) (json_norm_list fr xs))"
| "json_norm_dict fr acc [] = Inr acc"
| "json_norm_dict fr acc ((k, v) # d) = (case json_key fr k of
     Inl e \<Rightarrow> Inl e
   | Inr s \<Rightarrow> (case json_norm fr v of
        Inl e \<Rightarrow> Inl e
      | Inr w \<Rightarrow> json_norm_dict fr (dict_put (PStr s) w acc) d))"

text \<open>Values that JSON preserves: no tuples, and dictionaries with distinct text keys.\<close>

fun json_clean :: "pyval \<Rightarrow> bool"
and json_clean_list :: "pyval list \<Rightarrow> bool"
and json_clean_dict :: "pydict \<Rightarrow> bool" where
  "json_clean (PTuple xs) = False"
| "json_clean (PList xs) = json_clean_list xs"
| "json_clean (PDict d) = (json_clean_dict d \<and> distinct (map fst d))"
| "json_clean v = True"
| "json_clean_list [] = True"
| "json_clean_list (x # xs) = (json_clean x \<and> json_clean_list xs)"
| "json_clean_dict [] = True"
| "json_clean_dict ((k, v) # d) = ((\<exists>s. k = PStr s) \<and> json_clean v \<and> json_clean_dict d)"

lemma dict_put_new:
  "\<forall>k' \<in> set (map fst acc). \<exists>t. k' = PStr t \<Longrightarrow> PStr s \<notin> set (map fst acc) \<Longrightarrow> dict_put (PStr s) v acc = acc @ [(PStr s, v)]"
  by (induction acc) auto

lemma json_clean_norm:
  "json_clean v \<Longrightarrow> json_norm fr v = Inr v"
  "json_clean_list xs \<Longrightarrow> json_norm_list fr xs = Inr xs"
  "json_clean_dict d \<Longrightarrow> distinct (map fst (acc @ d)) \<Longrightarrow> \<forall>k \<in> set (map fst acc). \<exists>t. k = PStr t
     \<Longrightarrow> json_norm_dict fr acc d = Inr (acc @ d)"
proof (induction v and xs and d arbitrary: and and acc rule: json_clean_json_clean_list_json_clean_dict.induct)
  case (8 k v d)
  then obtain s where k: "k = PStr s" by auto
  have v: "json_norm fr v = Inr v" using 8 by simp
  have put: "dict_put k v acc = acc @ [(k, v)]" using 8 k by (auto intro!: dict_put_new)
  have "json_norm_dict fr (acc @ [(k, v)]) d = Inr ((acc @ [(k, v)]) @ d)"
    using "8.IH"(2) [of "acc @ [(k, v)]"] "8.prems" k by auto
  then show ?case using v put k by simp
qed auto

end
