(* ===== verification/Durable_Store.thy ===== *)
theory Durable_Store
  imports Event_Bus Retention Json_Values
begin

text \<open>
  The durable tier behind the bus: the \<open>DurableEventStore\<close> protocol of \<open>core/protocol.py\<close> as a
  locale, and its two implementations of \<open>store/durable_event.py\<close>, the process-local list and
  the \<open>events\<close> table, each an interpretation of the locale. A \<open>persist\<close> call is one step: the
  in-memory store and the SQLite path hold a lock around it, the Postgres path is one
  statement. The payload column stores JSON, so a stored payload is the image of the
  event's fields under a JSON round trip.
\<close>

section \<open>Fields of an event\<close>

fun opt_str :: "string option \<Rightarrow> pyval" where
  "opt_str None = PNone"
| "opt_str (Some s) = PStr s"

fun tier_value :: "tier \<Rightarrow> string" where
  "tier_value Lossy = ''lossy''"
| "tier_value Durable = ''durable''"

definition hook_fields :: "string \<Rightarrow> int \<Rightarrow> string \<Rightarrow> string option \<Rightarrow> string option \<Rightarrow> string option
    \<Rightarrow> string option \<Rightarrow> pydict \<Rightarrow> (string \<times> pyval) list" where
  "hook_fields s n et tool use parent h inp =
     [(''session_id'', PStr s), (''seq'', PInt n), (''event_type'', PStr et),
      (''tool_name'', opt_str tool), (''tool_use_id'', opt_str use),
      (''parent_tool_use_id'', opt_str parent), (''input_hash'', opt_str h),
      (''input_redacted'', PDict inp)]"

text \<open>\<open>dataclasses.asdict\<close> on the fields a subclass adds, in declaration order.\<close>

fun body_fields :: "event_body \<Rightarrow> (string \<times> pyval) list" where
  "body_fields (SessionCreated s p tags) =
     [(''session_id'', PStr s), (''prompt_redacted'', PStr p), (''tags'', PTuple (map PStr tags))]"
| "body_fields (SessionStateChanged s f t r) =
     [(''session_id'', PStr s), (''from_state'', PStr f), (''to_state'', PStr t), (''reason'', opt_str r)]"
| "body_fields (SessionOutputChunk s n ft p) =
     [(''session_id'', PStr s), (''seq'', PInt n), (''frame_type'', PStr ft), (''payload'', PDict p)]"
| "body_fields (SessionCompleted s st tok c) =
     [(''session_id'', PStr s), (''status'', PStr st),
      (''tokens'', PDict (map (\<lambda>(k, v). (PStr k, PInt v)) tok)), (''cost_usd'', PFloat c)]"
| "body_fields (HITLRequested s r t a) =
     [(''session_id'', PStr s), (''req_id'', PStr r), (''tool'', PStr t), (''args_redacted'', PDict a)]"
| "body_fields (HITLResolved s r d why who) =
     [(''session_id'', PStr s), (''req_id'', PStr r), (''decision'', PStr d),
      (''reason'', opt_str why), (''resolver'', opt_str who)]"
| "body_fields (ToolRequested s n r t a) =
     [(''session_id'', PStr s), (''seq'', PInt n), (''req_id'', PStr r), (''tool'', PStr t),
      (''args_redacted'', PDict a)]"
| "body_fields (ToolResolved s n r ok res e) =
     [(''session_id'', PStr s), (''seq'', PInt n), (''req_id'', PStr r), (''ok'', PBool ok),
      (''result_redacted'', PDict res), (''error'', opt_str e)]"
| "body_fields (ToolInvocationStarted s n et tool use parent h inp) =
     hook_fields s n et tool use parent h inp"
| "body_fields (ToolInvocationFinished s n et tool use parent h inp) =
     hook_fields s n et tool use parent h inp"
| "body_fields (SubagentCompleted s n et tool use parent h inp) =
     hook_fields s n et tool use parent h inp"
| "body_fields (InstallDone s pid ms d) =
     [(''session_id'', PStr s), (''profile_id'', opt_str pid), (''modules'', PTuple (map PStr ms)),
      (''duration_ms'', PInt d)]"
| "body_fields (InstallError s n c m tb) =
     [(''session_id'', PStr s), (''seq'', PInt n), (''code'', PStr c), (''message'', PStr m),
      (''traceback'', opt_str tb)]"
| "body_fields (Heartbeat s r) = [(''session_id'', PStr s), (''runtime_id'', PStr r)]"
| "body_fields (KeyInvalidated s us) =
     [(''session_id'', PStr s), (''usernames'', PTuple (map PStr us))]"

definition event_payload :: "relay_event \<Rightarrow> pydict" where
  "event_payload ev =
     (PStr ''delivery_tier'', PStr (tier_value (delivery_tier ev)))
       # map (\<lambda>(k, v). (PStr k, v)) (body_fields (body ev))"

section \<open>The events table\<close>

record event_row =
  row_event_id :: string
  row_ts :: int
  row_type :: string
  row_session_id :: "string option"
  row_payload :: pydict
  row_delivery_tier :: string
  row_seq :: nat

text \<open>\<open>pg_seq\<close> is the last value handed out by the sequence \<open>events_seq_seq\<close>.\<close>

record sql_events =
  dialect :: string
  event_rows :: "event_row list"
  pg_seq :: nat

definition max_seq :: "event_row list \<Rightarrow> nat" where
  "max_seq rs = foldr (\<lambda>r m. max (row_seq r) m) rs 0"

definition make_row :: "relay_event \<Rightarrow> pydict \<Rightarrow> nat \<Rightarrow> event_row" where
  "make_row ev payload n =
     \<lparr>row_event_id = event_id ev, row_ts = occurred_at ev, row_type = class_name (body ev),
      row_session_id = Some (event_session (body ev)), row_payload = payload,
      row_delivery_tier = ''disk'', row_seq = n\<rparr>"

text \<open>An \<open>INSERT\<close> checks the primary key and the unique index on \<open>seq\<close>.\<close>

definition insert_event :: "event_row \<Rightarrow> sql_events \<Rightarrow> (py_exn + nat) \<times> sql_events" where
  "insert_event r db =
     (if row_event_id r \<in> set (map row_event_id (event_rows db)) \<or> row_seq r \<in> set (map row_seq (event_rows db))
      then (Inl IntegrityError, db)
      else (Inr (row_seq r), db\<lparr>event_rows := event_rows db @ [r]\<rparr>))"

definition sql_persist :: "(pyfloat \<Rightarrow> string) \<Rightarrow> relay_event \<Rightarrow> sql_events \<Rightarrow> (py_exn + nat) \<times> sql_events" where
  "sql_persist fr ev db =
     (case json_norm fr (PDict (event_payload ev)) of
        Inr (PDict payload) \<Rightarrow>
          if dialect db = ''postgresql''
          then (let n = Suc (pg_seq db) in insert_event (make_row ev payload n) (db\<lparr>pg_seq := n\<rparr>))
          else insert_event (make_row ev payload (Suc (max_seq (event_rows db)))) db
      | Inr _ \<Rightarrow> (Inl TypeError, db)
      | Inl e \<Rightarrow> (Inl e, db))"

record replayed =
  rep_event_id :: string
  rep_occurred_at :: int
  rep_tier :: string
  type_name :: string
  rep_session_id :: string
  rep_payload :: pydict
  rep_seq :: nat

text \<open>\<open>fresh\<close> is the default factory of \<open>event_id\<close>: the stored id is not passed on.\<close>

definition row_to_replayed :: "string \<Rightarrow> event_row \<Rightarrow> replayed" where
  "row_to_replayed fresh r =
     (let tv = dget (row_payload r) ''delivery_tier'' in
      \<lparr>rep_event_id = fresh, rep_occurred_at = row_ts r,
       rep_tier = (if tv = PStr ''lossy'' then ''lossy'' else ''durable''),
       type_name = row_type r,
       rep_session_id = (case row_session_id r of None \<Rightarrow> '''' | Some s \<Rightarrow> s),
       rep_payload = row_payload r, rep_seq = row_seq r\<rparr>)"

definition sql_fetch_after :: "(nat \<Rightarrow> string) \<Rightarrow> sql_events \<Rightarrow> int \<Rightarrow> nat \<Rightarrow> replayed list" where
  "sql_fetch_after fresh db last_seq limit =
     map2 (\<lambda>i r. row_to_replayed (fresh i) r) [0..<limit]
       (take limit (sort_key row_seq (filter (\<lambda>r. int (row_seq r) > last_seq) (event_rows db))))"

text \<open>The retention sweep of \<open>maintenance/retention.py\<close> on this table.\<close>

definition prune_events :: "int \<Rightarrow> nat \<Rightarrow> bool \<Rightarrow> sql_events \<Rightarrow> summary \<times> sql_events" where
  "prune_events cutoff batch_size dry_run db =
     (let (s, rows) = delete_in_batches row_event_id (\<lambda>r. Some (row_ts r)) (\<lambda>_. True) cutoff batch_size dry_run
                        (event_rows db)
      in (s, db\<lparr>event_rows := rows\<rparr>))"

section \<open>The in-memory store\<close>

record mem_events =
  mem_log :: "(nat \<times> relay_event) list"
  next_seq :: nat

definition mem_init :: mem_events where
  "mem_init = \<lparr>mem_log = [], next_seq = 1\<rparr>"

definition mem_persist :: "relay_event \<Rightarrow> mem_events \<Rightarrow> (py_exn + nat) \<times> mem_events" where
  "mem_persist ev st =
     (Inr (next_seq st), st\<lparr>next_seq := Suc (next_seq st), mem_log := mem_log st @ [(next_seq st, ev)]\<rparr>)"

definition mem_fetch_after :: "mem_events \<Rightarrow> int \<Rightarrow> nat \<Rightarrow> relay_event list" where
  "mem_fetch_after st last_seq limit =
     take limit (map snd (filter (\<lambda>(n, _). int n > last_seq) (mem_log st)))"

definition stored_events :: "mem_events \<Rightarrow> relay_event list" where
  "stored_events st = map snd (mem_log st)"

section \<open>The contract\<close>

text \<open>
  What the bus and the replay endpoints rely on. \<open>entries\<close> is the sequence of numbered entries the
  store stands for, \<open>view\<close> what of a fetched event is determined by it (the SQL store
  invents event ids), \<open>stored\<close> what is recorded of an event.
\<close>

locale durable_log =
  fixes persist :: "relay_event \<Rightarrow> 's \<Rightarrow> (py_exn + nat) \<times> 's"
    and fetch_after :: "'s \<Rightarrow> int \<Rightarrow> nat \<Rightarrow> 'e list"
    and inv :: "'s \<Rightarrow> bool"
    and entries :: "'s \<Rightarrow> (nat \<times> 'v) list"
    and view :: "'e \<Rightarrow> 'v"
    and stored :: "relay_event \<Rightarrow> nat \<Rightarrow> 'v"
  assumes log_sorted: "inv st \<Longrightarrow> sorted_wrt (<) (map fst (entries st))"
    and persist_appends: "inv st \<Longrightarrow> persist ev st = (Inr n, st')
          \<Longrightarrow> inv st' \<and> entries st' = entries st @ [(n, stored ev n)]"
    and persist_fails: "inv st \<Longrightarrow> persist ev st = (Inl e, st') \<Longrightarrow> inv st' \<and> entries st' = entries st"
    and fetch_after_log: "inv st \<Longrightarrow> map view (fetch_after st k limit) =
          take limit (map snd (filter (\<lambda>p. int (fst p) > k) (entries st)))"
begin

lemma persist_inv: "inv st \<Longrightarrow> inv (snd (persist ev st))"
  by (cases "persist ev st"; cases "fst (persist ev st)") (auto dest: persist_appends persist_fails)

lemma persist_log_mono: "inv st \<Longrightarrow> set (entries st) \<subseteq> set (entries (snd (persist ev st)))"
  by (cases "persist ev st"; cases "fst (persist ev st)") (auto dest: persist_appends persist_fails)

lemma persist_seq_larger:
  assumes "inv st" and "persist ev st = (Inr n, st')" and "p \<in> set (entries st)"
  shows "fst p < n"
proof -
  have "inv st' \<and> entries st' = entries st @ [(n, stored ev n)]" using persist_appends assms by blast
  then have "sorted_wrt (<) (map fst (entries st) @ [n])" using log_sorted [of st'] by simp
  with assms(3) show ?thesis by (auto simp: sorted_wrt_append)
qed

text \<open>A run of publishes against the store: the numbers of the events that were stored.\<close>

fun persist_all :: "relay_event list \<Rightarrow> 's \<Rightarrow> (nat \<times> relay_event) list \<times> 's" where
  "persist_all [] st = ([], st)"
| "persist_all (ev # evs) st =
     (case persist ev st of
        (Inl _, st') \<Rightarrow> persist_all evs st'
      | (Inr n, st') \<Rightarrow> (let (ns, st'') = persist_all evs st' in ((n, ev) # ns, st'')))"

lemma persist_all_log:
  "inv st \<Longrightarrow> persist_all evs st = (ns, st')
   \<Longrightarrow> inv st' \<and> entries st' = entries st @ map (\<lambda>(n, ev). (n, stored ev n)) ns"
proof (induction evs arbitrary: st ns st')
  case (Cons ev evs)
  obtain r st1 where p: "persist ev st = (r, st1)" by (cases "persist ev st")
  show ?case
  proof (cases r)
    case (Inl e)
    then have "inv st1 \<and> entries st1 = entries st" using persist_fails [OF Cons.prems(1)] p by simp
    with Inl p Cons.prems Cons.IH [of st1 ns st'] show ?thesis by simp
  next
    case (Inr n)
    then have st1: "inv st1 \<and> entries st1 = entries st @ [(n, stored ev n)]"
      using persist_appends [OF Cons.prems(1)] p by simp
    obtain ms where ms: "persist_all evs st1 = (ms, st')" "ns = (n, ev) # ms"
      using Inr p Cons.prems(2) by (auto simp: Let_def split: prod.splits)
    from Cons.IH [OF _ ms(1)] st1 ms(2) show ?thesis by simp
  qed
qed simp

text \<open>Resuming from a number already seen gives what was stored later, all of it, in order.\<close>

lemma replay_from_seen:
  assumes "inv st" and "persist ev st = (Inr k, st1)" and "persist_all evs st1 = (ns, st2)"
  shows "map view (fetch_after st2 (int k) limit) = take limit (map (\<lambda>(n, ev). stored ev n) ns)"
proof -
  have l1: "inv st1 \<and> entries st1 = entries st @ [(k, stored ev k)]" using persist_appends assms by blast
  then have l2: "inv st2 \<and> entries st2 = entries st1 @ map (\<lambda>(n, ev). (n, stored ev n)) ns"
    using persist_all_log assms(3) by blast
  have srt: "sorted_wrt (<) (map fst (entries st) @ k # map fst ns)"
    using log_sorted [of st2] l1 l2 by (simp add: comp_def case_prod_beta)
  have early: "filter (\<lambda>p. int (fst p) > int k) (entries st) = []"
    using srt by (auto simp: sorted_wrt_append filter_empty_conv)
  have late: "filter (\<lambda>p. int (fst p) > int k) (map (\<lambda>(n, ev). (n, stored ev n)) ns)
     = map (\<lambda>(n, ev). (n, stored ev n)) ns"
    using srt by (auto simp: sorted_wrt_append filter_id_conv)
  show ?thesis
    using fetch_after_log [of st2 "int k" limit] l1 l2 early late by (simp add: comp_def case_prod_unfold)
qed

definition recorded :: "'s \<Rightarrow> relay_event \<Rightarrow> bool" where
  "recorded st ev \<longleftrightarrow> (\<exists>n. (n, stored ev n) \<in> set (entries st))"

text \<open>
  The write-ahead discipline of the bus: whatever durable event sits in a buffer is in the
  store.
\<close>

definition write_ahead :: "'s bus \<Rightarrow> bool" where
  "write_ahead b \<longleftrightarrow> (\<exists>st. durable_store b = Some st \<and> inv st \<and>
     (\<forall>i ev. Typed ev \<in> set (items (heap b i)) \<longrightarrow> delivery_tier ev = Durable \<longrightarrow> recorded st ev))"

definition bus_recorded :: "'s bus \<Rightarrow> relay_event \<Rightarrow> bool" where
  "bus_recorded b ev \<longleftrightarrow> (\<exists>st. durable_store b = Some st \<and> recorded st ev)"

text \<open>A transformation of the bus that keeps the discipline and forgets nothing.\<close>

definition faithful :: "('s bus \<Rightarrow> 's bus) \<Rightarrow> bool" where
  "faithful f \<longleftrightarrow> (\<forall>b. write_ahead b \<longrightarrow> write_ahead (f b) \<and> (\<forall>ev. bus_recorded b ev \<longrightarrow> bus_recorded (f b) ev))"

definition secured :: "bus_item \<Rightarrow> 's bus \<Rightarrow> bool" where
  "secured x b \<longleftrightarrow> (\<forall>ev. x = Typed ev \<longrightarrow> delivery_tier ev = Durable \<longrightarrow> bus_recorded b ev)"

lemma write_ahead_items:
  assumes "write_ahead b" and "durable_store b' = durable_store b"
    and "\<And>i. set (items (heap b' i)) \<subseteq> set (items (heap b i)) \<union> {x}" and "secured x b"
  shows "write_ahead b'"
  using assms unfolding write_ahead_def secured_def bus_recorded_def by fastforce

lemma write_ahead_sub:
  assumes "write_ahead b" and "durable_store b' = durable_store b"
    and "\<And>i. set (items (heap b' i)) \<subseteq> set (items (heap b i))"
  shows "write_ahead b'"
  using write_ahead_items [OF assms(1,2), of "Legacy PNone"] assms(3) by (auto simp: secured_def)

lemma deliver_items:
  "durable_store (snd (deliver topic x i b)) = durable_store b"
  "set (items (heap (snd (deliver topic x i b)) j)) \<subseteq> set (items (heap b j)) \<union> {x}"
  by (auto simp: deliver_def Let_def set_sub_def split: list.splits)

lemma timeout_items:
  "durable_store (on_timeout topic i b) = durable_store b"
  "items (heap (on_timeout topic i b) j) = items (heap b j)"
  by (auto simp: on_timeout_def set_sub_def)

lemma secured_store: "durable_store b' = durable_store b \<Longrightarrow> secured x b' = secured x b"
  by (simp add: secured_def bus_recorded_def)

lemma keeps_write_ahead:
  assumes "\<forall>e \<in> set sc. faithful (snd e)"
  shows "keeps (\<lambda>b. write_ahead b \<and> secured x b \<and> (\<forall>ev \<in> E. bus_recorded b ev)) x sc"
proof -
  have t: "write_ahead (on_timeout topic i b)" if "write_ahead b" for topic i b
    using that by (rule write_ahead_sub) (simp_all add: timeout_items)
  have d: "write_ahead (snd (deliver topic x i b))" if "write_ahead b" "secured x b" for topic i b
    by (rule write_ahead_items [OF that(1) _ _ that(2)]) (rule deliver_items)+
  have s: "write_ahead (snd e b) \<and> secured x (snd e b) \<and> (\<forall>ev \<in> E. bus_recorded (snd e b) ev)"
    if "e \<in> set sc" "write_ahead b" "secured x b" "\<forall>ev \<in> E. bus_recorded b ev" for e b
    using that assms by (auto simp: faithful_def secured_def)
  show ?thesis
    unfolding keeps_def using t d s
    by (auto simp: bus_recorded_def secured_def timeout_items deliver_items)
qed

lemma faithful_dispatch:
  assumes "\<forall>e \<in> set sc. faithful (snd e)" and "write_ahead b" and "secured x b"
  shows "write_ahead (snd (dispatch_both topic x t sc b))
     \<and> (\<forall>ev. bus_recorded b ev \<longrightarrow> bus_recorded (snd (dispatch_both topic x t sc b)) ev)"
  using keeps_dispatch_both [OF keeps_write_ahead [OF assms(1), of x "{ev. bus_recorded b ev}"], of b topic t] assms
  by auto

lemma write_ahead_persist:
  assumes "write_ahead b" and "durable_store b = Some st" and "persist ev st = (r, st')"
  shows "write_ahead (b\<lparr>durable_store := Some st'\<rparr>)"
    and "bus_recorded b e \<Longrightarrow> bus_recorded (b\<lparr>durable_store := Some st'\<rparr>) e"
    and "r = Inr n \<Longrightarrow> bus_recorded (b\<lparr>durable_store := Some st'\<rparr>) ev"
proof -
  have i: "inv st" using assms by (simp add: write_ahead_def)
  have mono: "recorded st e \<Longrightarrow> recorded st' e" for e
    using persist_log_mono [OF i, of ev] assms(3) by (auto simp: recorded_def)
  show "write_ahead (b\<lparr>durable_store := Some st'\<rparr>)"
    using assms persist_inv [OF i, of ev] mono by (auto simp: write_ahead_def)
  show "bus_recorded b e \<Longrightarrow> bus_recorded (b\<lparr>durable_store := Some st'\<rparr>) e"
    using mono assms(2) by (auto simp: bus_recorded_def)
  show "r = Inr n \<Longrightarrow> bus_recorded (b\<lparr>durable_store := Some st'\<rparr>) ev"
    using persist_appends [OF i] assms(3) by (auto simp: bus_recorded_def recorded_def)
qed

lemma faithful_publish:
  assumes "faithful intf" and "\<forall>e \<in> set sc. faithful (snd e)"
  shows "faithful (\<lambda>b. snd (publish persist intf sc ev b))"
  unfolding faithful_def
proof (intro allI impI)
  fix b assume w: "write_ahead b"
  let ?P = "\<lambda>c. write_ahead c \<and> (\<forall>e. bus_recorded b e \<longrightarrow> bus_recorded c e)"
  obtain st where st: "durable_store b = Some st" using w by (auto simp: write_ahead_def)
  obtain r st' where p: "persist ev st = (r, st')" by (cases "persist ev st")
  let ?c = "intf (b\<lparr>durable_store := Some st'\<rparr>)"
  note pw = write_ahead_persist [OF w st p]
  have c: "?P ?c" "r = Inr n \<Longrightarrow> bus_recorded ?c ev" for n
    using pw assms(1) by (auto simp: faithful_def)
  have live: "?P (snd (dispatch_both topic (Typed ev) Durable sc ?c))" if "r = Inr n" for n topic
    using faithful_dispatch [OF assms(2), of ?c "Typed ev" topic Durable] c that by (auto simp: secured_def)
  have lossy: "?P (snd (dispatch_both topic (Typed ev) (delivery_tier ev) sc b))"
    if "delivery_tier ev \<noteq> Durable" for topic
    using faithful_dispatch [OF assms(2) w, of "Typed ev" topic "delivery_tier ev"] that by (auto simp: secured_def)
  show "?P (snd (publish persist intf sc ev b))"
    using c(1) live lossy w st p
    by (cases r) (auto simp: publish_def Let_def)
qed

lemma faithful_steps:
  "bus_step persist a b \<Longrightarrow> write_ahead a \<longrightarrow> write_ahead b \<and> (\<forall>ev. bus_recorded a ev \<longrightarrow> bus_recorded b ev)"
  "bus_steps persist a b \<Longrightarrow> write_ahead a \<longrightarrow> write_ahead b \<and> (\<forall>ev. bus_recorded a ev \<longrightarrow> bus_recorded b ev)"
proof (induction rule: bus_step_bus_steps.inducts)
  case (step_publish intf sc b ev)
  then have "faithful intf" "\<forall>e \<in> set sc. faithful (snd e)" by (auto simp: faithful_def)
  then show ?case using faithful_publish [of intf sc ev] by (simp add: faithful_def)
next
  case (step_legacy sc b topic v)
  then have "\<forall>e \<in> set sc. faithful (snd e)" by (auto simp: faithful_def)
  from faithful_dispatch [OF this, of b "Legacy v" topic Lossy] show ?case
    by (auto simp: publish_legacy_def secured_def)
next
  case (step_subscribe n b topic)
  have "durable_store (snd (subscribe topic n b)) = durable_store b" by (simp add: subscribe_def Let_def)
  moreover have "set (items (heap (snd (subscribe topic n b)) i)) \<subseteq> set (items (heap b i))" for i
    by (simp add: subscribe_def Let_def new_sub_def)
  ultimately show ?case by (auto simp: bus_recorded_def intro: write_ahead_sub)
next
  case (step_iter b topic i)
  have "durable_store (snd (iter_next topic i b)) = durable_store b"
    by (simp add: iter_next_def set_sub_def unsubscribe_def split: list.splits option.splits)
  moreover have "set (items (heap (snd (iter_next topic i b)) j)) \<subseteq> set (items (heap b j))" for j
    by (auto simp: iter_next_def set_sub_def unsubscribe_def split: list.splits option.splits)
  ultimately show ?case by (auto simp: bus_recorded_def intro: write_ahead_sub)
next
  case (step_aclose b topic i)
  have "durable_store (unsubscribe topic i b) = durable_store b" "heap (unsubscribe topic i b) = heap b"
    by (simp_all add: unsubscribe_def split: option.splits)
  then show ?case by (auto simp: bus_recorded_def intro: write_ahead_sub)
next
  case (step_close b)
  have "durable_store (close_bus b) = durable_store b" "items (heap (close_bus b) j) = items (heap b j)" for j
    by (simp_all add: close_bus_def)
  then show ?case by (auto simp: bus_recorded_def intro: write_ahead_sub)
qed auto

lemma write_ahead_init: "inv st \<Longrightarrow> write_ahead (init_bus timeout (Some st) strict)"
  by (simp add: write_ahead_def init_bus_def new_sub_def)

lemma buffered_recorded:
  assumes "inv st" and "bus_steps persist (init_bus timeout (Some st) strict) b"
    and "Typed ev \<in> set (items (heap b i))" and "delivery_tier ev = Durable"
  shows "\<exists>st' n. durable_store b = Some st' \<and> (n, stored ev n) \<in> set (entries st')"
proof -
  have "write_ahead b" using faithful_steps(2) [OF assms(2)] write_ahead_init [OF assms(1)] by blast
  with assms(3,4) show ?thesis by (auto simp: write_ahead_def recorded_def)
qed

end

section \<open>The in-memory store keeps the contract\<close>

definition mem_inv :: "mem_events \<Rightarrow> bool" where
  "mem_inv st \<longleftrightarrow> sorted_wrt (<) (map fst (mem_log st)) \<and> (\<forall>p \<in> set (mem_log st). fst p < next_seq st)"

lemma mem_inv_init [simp]: "mem_inv mem_init"
  by (simp add: mem_inv_def mem_init_def)

interpretation mem: durable_log mem_persist mem_fetch_after mem_inv mem_log id "\<lambda>ev n. ev"
proof
  fix st st' ev n e and k :: int and limit
  show "mem_inv st \<Longrightarrow> sorted_wrt (<) (map fst (mem_log st))" by (simp add: mem_inv_def)
  show "mem_inv st \<Longrightarrow> mem_persist ev st = (Inr n, st')
     \<Longrightarrow> mem_inv st' \<and> mem_log st' = mem_log st @ [(n, ev)]"
    by (fastforce simp: mem_inv_def mem_persist_def sorted_wrt_append less_Suc_eq)
  show "mem_inv st \<Longrightarrow> mem_persist ev st = (Inl e, st') \<Longrightarrow> mem_inv st' \<and> mem_log st' = mem_log st"
    by (simp add: mem_persist_def)
  show "map id (mem_fetch_after st k limit) =
     take limit (map snd (filter (\<lambda>p. int (fst p) > k) (mem_log st)))"
    by (simp add: mem_fetch_after_def case_prod_unfold)
qed

section \<open>The events table keeps the contract\<close>

definition sql_inv :: "sql_events \<Rightarrow> bool" where
  "sql_inv db \<longleftrightarrow> sorted_wrt (<) (map row_seq (event_rows db))
     \<and> (dialect db = ''postgresql'' \<longrightarrow> (\<forall>r \<in> set (event_rows db). row_seq r \<le> pg_seq db))"

definition sql_log :: "sql_events \<Rightarrow> (nat \<times> replayed) list" where
  "sql_log db = map (\<lambda>r. (row_seq r, row_to_replayed '''' r)) (event_rows db)"

definition forget_id :: "replayed \<Rightarrow> replayed" where
  "forget_id e = e\<lparr>rep_event_id := ''''\<rparr>"

definition sql_image :: "(pyfloat \<Rightarrow> string) \<Rightarrow> relay_event \<Rightarrow> nat \<Rightarrow> replayed" where
  "sql_image fr ev n = (case json_norm fr (PDict (event_payload ev)) of
     Inr (PDict payload) \<Rightarrow> row_to_replayed '''' (make_row ev payload n)
   | _ \<Rightarrow> row_to_replayed '''' (make_row ev [] n))"

lemma max_seq_ge: "r \<in> set rs \<Longrightarrow> row_seq r \<le> max_seq rs"
  by (induction rs) (auto simp: max_seq_def max_def)

lemma sql_persist_cases:
  assumes "sql_inv db"
  obtains (fail) e db' where "sql_persist fr ev db = (Inl e, db')" "event_rows db' = event_rows db" "sql_inv db'"
  | (ok) n payload db' where "sql_persist fr ev db = (Inr n, db')"
      "json_norm fr (PDict (event_payload ev)) = Inr (PDict payload)"
      "event_rows db' = event_rows db @ [make_row ev payload n]" "sql_inv db'"
proof (cases "json_norm fr (PDict (event_payload ev))")
  case (Inl e)
  then show ?thesis using fail [of e db] assms by (simp add: sql_persist_def)
next
  case (Inr v)
  then obtain payload where v: "v = PDict payload"
    by (cases "json_norm_dict fr [] (event_payload ev)") auto
  define n where "n = (if dialect db = ''postgresql'' then Suc (pg_seq db) else Suc (max_seq (event_rows db)))"
  define db1 where "db1 = (if dialect db = ''postgresql'' then db\<lparr>pg_seq := n\<rparr> else db)"
  have p: "sql_persist fr ev db = insert_event (make_row ev payload n) db1"
    using Inr v by (simp add: sql_persist_def n_def db1_def Let_def)
  have larger: "row_seq r < n" if "r \<in> set (event_rows db)" for r
    using that assms max_seq_ge [OF that] by (auto simp: n_def sql_inv_def less_Suc_eq_le)
  have rows1: "event_rows db1 = event_rows db" by (simp add: db1_def)
  have inv1: "sql_inv db1" using assms by (auto simp: sql_inv_def db1_def n_def)
  show ?thesis
  proof (cases "event_id ev \<in> set (map row_event_id (event_rows db))")
    case True
    then have "sql_persist fr ev db = (Inl IntegrityError, db1)"
      using p rows1 by (simp add: insert_event_def make_row_def)
    with rows1 inv1 fail show ?thesis by blast
  next
    case False
    let ?db = "db1\<lparr>event_rows := event_rows db1 @ [make_row ev payload n]\<rparr>"
    have "n \<notin> set (map row_seq (event_rows db))" using larger by auto
    with False have "sql_persist fr ev db = (Inr n, ?db)"
      using p rows1 by (simp add: insert_event_def make_row_def)
    moreover have "sql_inv ?db"
      using inv1 rows1 larger
      by (auto simp: sql_inv_def sorted_wrt_append make_row_def db1_def n_def)
    ultimately show ?thesis using ok [of n ?db payload] Inr v rows1 by simp
  qed
qed

lemma forget_replayed: "forget_id (row_to_replayed f r) = row_to_replayed '''' r"
  by (simp add: forget_id_def row_to_replayed_def Let_def)

lemma map_map2_upt:
  "length xs \<le> n \<Longrightarrow> (\<And>i x. g (f i x) = h x) \<Longrightarrow> map g (map2 f [m..<m + n] xs) = map h xs"
proof (induction xs arbitrary: m n)
  case (Cons x xs)
  then obtain k where n: "n = Suc k" by (cases n) auto
  have "[m..<m + n] = m # [Suc m..<Suc m + k]" using n by (simp add: upt_conv_Cons)
  then show ?case using Cons.prems Cons.IH [of k "Suc m"] n by (simp del: upt_Suc)
qed simp

lemma sql_fetch_view:
  assumes "sql_inv db"
  shows "map forget_id (sql_fetch_after fresh db k limit) =
     take limit (map snd (filter (\<lambda>p. int (fst p) > k) (sql_log db)))"
proof -
  let ?rows = "filter (\<lambda>r. int (row_seq r) > k) (event_rows db)"
  have "sorted_wrt (\<lambda>r s. row_seq r \<le> row_seq s) (event_rows db)"
    using assms by (auto simp: sql_inv_def sorted_wrt_map intro: sorted_wrt_mono_rel [rotated])
  then have "sorted (map row_seq ?rows)" by (simp add: sorted_wrt_map sorted_wrt_filter)
  then have srt: "sort_key row_seq ?rows = ?rows" by (rule sort_key_id_if_sorted)
  have "map forget_id (map2 (\<lambda>i r. row_to_replayed (fresh i) r) [0..<0 + limit] (take limit ?rows))
     = map (row_to_replayed '''') (take limit ?rows)"
    by (rule map_map2_upt) (simp_all add: forget_replayed)
  then show ?thesis
    by (simp add: sql_fetch_after_def srt sql_log_def filter_map comp_def take_map)
qed

interpretation sql: durable_log "sql_persist fr" "sql_fetch_after fresh" sql_inv sql_log forget_id "sql_image fr"
  for fr and fresh
proof
  fix st st' ev n e and k :: int and limit
  show "sql_inv st \<Longrightarrow> sorted_wrt (<) (map fst (sql_log st))"
    by (simp add: sql_inv_def sql_log_def comp_def)
  show "sql_inv st' \<and> sql_log st' = sql_log st @ [(n, sql_image fr ev n)]"
    if "sql_inv st" "sql_persist fr ev st = (Inr n, st')"
    using that by (cases rule: sql_persist_cases [OF that(1), of fr ev])
      (auto simp: sql_log_def sql_image_def make_row_def)
  show "sql_inv st' \<and> sql_log st' = sql_log st"
    if "sql_inv st" "sql_persist fr ev st = (Inl e, st')"
    using that by (cases rule: sql_persist_cases [OF that(1), of fr ev]) (auto simp: sql_log_def)
  show "sql_inv st \<Longrightarrow> map forget_id (sql_fetch_after fresh st k limit) =
     take limit (map snd (filter (\<lambda>p. int (fst p) > k) (sql_log st)))"
    by (rule sql_fetch_view)
qed

section \<open>Durability of published events\<close>


definition empty_events :: "string \<Rightarrow> sql_events" where
  "empty_events d = \<lparr>dialect = d, event_rows = [], pg_seq = 0\<rparr>"

lemma sql_inv_empty [simp]: "sql_inv (empty_events d)"
  by (simp add: sql_inv_def empty_events_def)

definition demo_repr :: "pyfloat \<Rightarrow> string" where
  "demo_repr f = ''0.0''"

definition demo_bus :: "sql_events bus" where
  "demo_bus = snd (publish (sql_persist demo_repr) id [] (demo_event ''e1'')
     (snd (subscribe ''*'' 5 (init_bus 1 (Some (empty_events ''sqlite'')) True))))"


text \<open>
  C5: resuming from the cursor of an event already seen replays exactly the events stored
  after it, in the order in which they were stored, up to the limit.
\<close>

theorem sql_replay_from_cursor:
  assumes "sql_inv db" and "sql_persist fr ev db = (Inr k, db1)"
    and "sql.persist_all fr evs db1 = (ns, db2)"
  shows "map forget_id (sql_fetch_after fresh db2 (int k) limit) =
           take limit (map (\<lambda>(n, e). sql_image fr e n) ns)"
  using sql.replay_from_seen [OF assms] .

lemma sql_replay_from_cursor_witness:
  "\<exists>db1 db2 ns. sql_persist demo_repr (demo_event ''e1'') (empty_events ''postgresql'') = (Inr 1, db1)
     \<and> sql.persist_all demo_repr [demo_event ''e2'', demo_event ''e1''] db1 = (ns, db2)
     \<and> map snd ns = [demo_event ''e2'']
     \<and> map forget_id (sql_fetch_after (\<lambda>i. ''u'') db2 1 1000) = map (\<lambda>(n, e). sql_image demo_repr e n) ns"
proof -
  let ?p = "sql_persist demo_repr (demo_event ''e1'') (empty_events ''postgresql'')"
  obtain r db1 where p: "?p = (r, db1)" by (cases ?p)
  have "fst ?p = Inr 1" by code_simp
  then have p1: "?p = (Inr 1, db1)" using p by simp
  obtain ns db2 where q: "sql.persist_all demo_repr [demo_event ''e2'', demo_event ''e1''] db1 = (ns, db2)"
    by (cases "sql.persist_all demo_repr [demo_event ''e2'', demo_event ''e1''] db1")
  have "map snd (fst (sql.persist_all demo_repr [demo_event ''e2'', demo_event ''e1''] (snd ?p))) = [demo_event ''e2'']"
    by (simp only: sql.persist_all.simps) code_simp
  then have ns: "map snd ns = [demo_event ''e2'']" using p q by simp
  then have len: "length ns = 1" by (metis length_map length_Cons list.size(3) One_nat_def)
  show ?thesis
    using sql_replay_from_cursor [OF sql_inv_empty p1 q, of "\<lambda>i. ''u''" 1000] p1 q ns len by auto
qed

text \<open>
  when the store refuses a durable event, the publisher is told and no subscriber sees
  the event; a strict bus without a store does the same.
\<close>

lemma durable_refusal_reaches_nobody:
  assumes "\<not> closed b" and "delivery_tier ev = Durable"
    and "(\<exists>st e st'. durable_store b = Some st \<and> persist ev st = (Inl e, st')) \<or> (durable_store b = None \<and> strict_durable b)"
  shows "fst (publish persist id sc ev b) = Inl DurableEventDropError
     \<and> heap (snd (publish persist id sc ev b)) = heap b \<and> subs (snd (publish persist id sc ev b)) = subs b"
  using assms by (auto simp: publish_def Let_def)

lemma durable_refusal_reaches_nobody_witness:
  "fst (publish (sql_persist demo_repr) id [] (demo_event ''e1'') demo_bus) = Inl DurableEventDropError
     \<and> heap (snd (publish (sql_persist demo_repr) id [] (demo_event ''e1'') demo_bus)) = heap demo_bus"
proof -
  have "\<not> closed demo_bus" "delivery_tier (demo_event ''e1'') = Durable" by code_simp+
  moreover have "map_option (\<lambda>db. fst (sql_persist demo_repr (demo_event ''e1'') db)) (durable_store demo_bus) = Some (Inl IntegrityError)"
    by code_simp
  then obtain st where st: "durable_store demo_bus = Some st"
      "fst (sql_persist demo_repr (demo_event ''e1'') st) = Inl IntegrityError"
    by (cases "durable_store demo_bus") auto
  then have "sql_persist demo_repr (demo_event ''e1'') st =
      (Inl IntegrityError, snd (sql_persist demo_repr (demo_event ''e1'') st))"
    by (metis prod.collapse)
  with st(1) have "\<exists>st e st'. durable_store demo_bus = Some st \<and> sql_persist demo_repr (demo_event ''e1'') st = (Inl e, st')"
    by blast
  ultimately show ?thesis using durable_refusal_reaches_nobody [of demo_bus "demo_event ''e1''" "sql_persist demo_repr" "[]"] by blast
qed

text \<open>
  outside Postgres the retention sweep makes sequence numbers repeat. After the rows of an
  otherwise idle store have expired, the next event gets a number that an earlier event had,
  so a client resuming from its last cursor is not sent it.
\<close>

lemma seq_reused_after_retention:
  "\<exists>db1 db2. sql_persist demo_repr (demo_event ''e1'') (empty_events ''sqlite'') = (Inr 1, db1)
     \<and> sql_persist demo_repr (new_event ''e2'' 100 (Heartbeat ''s1'' ''r''))
         (snd (prune_events 50 10000 False db1)) = (Inr 1, db2)
     \<and> sql_fetch_after fresh db2 1 1000 = []"
proof -
  let ?p = "sql_persist demo_repr (demo_event ''e1'') (empty_events ''sqlite'')"
  let ?q = "sql_persist demo_repr (new_event ''e2'' 100 (Heartbeat ''s1'' ''r'')) (snd (prune_events 50 10000 False (snd ?p)))"
  have p: "fst ?p = Inr 1" by code_simp
  have d: "distinct (map row_event_id (event_rows (snd ?p)))" by code_simp
  have rows: "filter (\<lambda>r. \<not> expired (\<lambda>r. Some (row_ts r)) 50 (\<lambda>_. True) r) (event_rows (snd ?p)) = []" by code_simp
  have "event_rows (snd (prune_events 50 10000 False (snd ?p))) = []"
    using batch_loop_exact [OF d, of 10000] rows by (simp add: prune_events_def delete_in_batches_def Let_def)
  moreover have "dialect (snd (prune_events 50 10000 False (snd ?p))) = ''sqlite''"
  proof -
    have "dialect (snd ?p) = ''sqlite''" by code_simp
    then show ?thesis by (simp add: prune_events_def split_beta Let_def)
  qed
  ultimately have q: "fst ?q = Inr 1 \<and> map row_seq (event_rows (snd ?q)) = [1]"
    by (simp add: sql_persist_def insert_event_def make_row_def max_seq_def event_payload_def new_event_def)
  then have "event_rows (snd ?q) \<noteq> []" "\<forall>r \<in> set (event_rows (snd ?q)). row_seq r = 1"
    by (auto simp: map_eq_Cons_conv)
  then have "filter (\<lambda>r. int (row_seq r) > 1) (event_rows (snd ?q)) = []" by (simp add: filter_empty_conv)
  then have "sql_fetch_after fresh (snd ?q) 1 1000 = []" by (simp add: sql_fetch_after_def)
  with p q show ?thesis by (metis prod.collapse)
qed

end
