(* ===== verification/Keyset_Page.thy ===== *)
theory Keyset_Page
  imports Relay_Prelude "HOL-Library.Product_Lexorder" "HOL-Library.List_Lexorder" "HOL-Library.Char_ord"
begin

text \<open>
  Keyset pagination as the listing methods of \<open>store/repository.py\<close> do it (sessions, search,
  audit): rows in descending order of a key, the rows below the cursor's key, one row more than
  the limit to learn whether another page exists, and the key of the last row returned as the
  next cursor. Generic in the row and its key; the cursors as opaque text are in the theories
  of the tables.
\<close>

section \<open>One page\<close>

definition below :: "'k::linorder option \<Rightarrow> 'k \<Rightarrow> bool" where
  "below after k = (case after of None \<Rightarrow> True | Some a \<Rightarrow> k < a)"

definition ordered_desc :: "('r \<Rightarrow> 'k::linorder) \<Rightarrow> 'r list \<Rightarrow> 'r list" where
  "ordered_desc key rows = rev (sort_key key rows)"

definition page :: "('r \<Rightarrow> 'k::linorder) \<Rightarrow> ('r \<Rightarrow> bool) \<Rightarrow> nat \<Rightarrow> 'k option \<Rightarrow> 'r list \<Rightarrow> 'r list \<times> 'k option" where
  "page key sel limit after rows =
     (let got = take (limit + 1) (ordered_desc key (filter (\<lambda>r. sel r \<and> below after (key r)) rows));
          out = take limit got
      in (out, if length got > limit \<and> out \<noteq> [] then Some (key (last out)) else None))"

lemma set_ordered_desc [simp]: "set (ordered_desc key rows) = set rows"
  by (simp add: ordered_desc_def)

lemma length_ordered_desc [simp]: "length (ordered_desc key rows) = length rows"
  by (simp add: ordered_desc_def)

lemma page_rows:
  "fst (page key sel limit after rows) =
     take limit (ordered_desc key (filter (\<lambda>r. sel r \<and> below after (key r)) rows))"
  by (simp add: page_def Let_def min_def)

lemma page_cursor:
  assumes "snd (page key sel limit after rows) = Some c"
  shows "0 < limit \<and> fst (page key sel limit after rows) \<noteq> []
     \<and> c = key (last (fst (page key sel limit after rows)))"
  using assms by (auto simp: page_def Let_def split: if_splits)

lemma take_more:
  assumes "0 < n"
  shows "(if length (take (n + 1) ys) > n \<and> take n (take (n + 1) ys) \<noteq> []
          then Some (f (last (take n (take (n + 1) ys)))) else None)
       = (if length ys > n then Some (f (ys ! (n - 1))) else None)"
proof (cases "length ys > n")
  case True
  then have "length (take n ys) = n" "take n ys \<noteq> []" using assms by auto
  then have "last (take n ys) = ys ! (n - 1)" using assms by (simp add: last_conv_nth)
  then show ?thesis using True \<open>take n ys \<noteq> []\<close> by (simp add: min_def)
qed simp

lemma page_cursor_eq:
  assumes "0 < limit"
  shows "snd (page key sel limit after rows) =
     (let ys = ordered_desc key (filter (\<lambda>r. sel r \<and> below after (key r)) rows)
      in if length ys > limit then Some (key (ys ! (limit - 1))) else None)"
  unfolding page_def Let_def snd_conv using take_more [OF assms] .

lemma page_cursor_below:
  assumes "snd (page key sel limit after rows) = Some c"
  shows "\<exists>r \<in> set rows. sel r \<and> below after (key r) \<and> c = key r"
proof -
  let ?out = "fst (page key sel limit after rows)"
  have "?out \<noteq> []" "c = key (last ?out)" using page_cursor [OF assms] by auto
  moreover have "set ?out \<subseteq> {r \<in> set rows. sel r \<and> below after (key r)}"
    unfolding page_rows by (auto dest: in_set_takeD)
  moreover have "last ?out \<in> set ?out" using \<open>?out \<noteq> []\<close> by simp
  ultimately show ?thesis by blast
qed

section \<open>Following the cursors\<close>

lemma below_trans: "below after (c :: 'k::linorder) \<Longrightarrow> k < c \<Longrightarrow> below after k"
  by (auto simp: below_def split: option.splits)

lemma page_progress:
  assumes "snd (page key sel limit after rows) = Some c"
  shows "length (filter (\<lambda>r. below (Some c) (key r)) rows) < length (filter (\<lambda>r. below after (key r)) rows)"
proof -
  obtain r where r: "r \<in> set rows" "below after (key r)" "c = key r"
    using page_cursor_below [OF assms] by blast
  have sub: "filter (\<lambda>x. below (Some c) (key x)) rows =
      filter (\<lambda>x. below (Some c) (key x)) (filter (\<lambda>x. below after (key x)) rows)"
    using r by (auto simp: below_def intro!: filter_cong dest: less_trans split: option.splits)
  show ?thesis
    unfolding sub using r by (intro length_filter_less) (auto simp: below_def)
qed

function walk :: "('r \<Rightarrow> 'k::linorder) \<Rightarrow> ('r \<Rightarrow> bool) \<Rightarrow> nat \<Rightarrow> 'k option \<Rightarrow> 'r list \<Rightarrow> 'r list list" where
  "walk key sel limit after rows = fst (page key sel limit after rows) #
     (case snd (page key sel limit after rows) of
        None \<Rightarrow> []
      | Some c \<Rightarrow> walk key sel limit (Some c) rows)"
  by pat_completeness auto
termination
  by (relation "measure (\<lambda>(key, sel, limit, after, rows). length (filter (\<lambda>r. below after (key r)) rows))")
     (simp_all add: page_progress)

declare walk.simps [simp del]

lemma sorted_filter_below:
  assumes "sorted_wrt (\<lambda>x y. (key y :: 'k::linorder) < key x) xs" and "n < length xs"
  shows "filter (\<lambda>x. key x < key (xs ! n)) xs = drop (Suc n) xs"
proof -
  have split: "xs = take (Suc n) xs @ drop (Suc n) xs" by simp
  have hi: "\<not> key x < key (xs ! n)" if x: "x \<in> set (take (Suc n) xs)" for x
  proof -
    obtain i where i: "i \<le> n" "x = xs ! i" "i < length xs"
      using x assms(2) by (auto simp: in_set_conv_nth less_Suc_eq_le)
    show ?thesis
    proof (cases "i = n")
      case False
      then have "key (xs ! n) < key (xs ! i)" using assms i by (auto simp: sorted_wrt_iff_nth_less)
      then show ?thesis using i by auto
    qed (use i in simp)
  qed
  have lo: "key x < key (xs ! n)" if x: "x \<in> set (drop (Suc n) xs)" for x
  proof -
    obtain j where "j < length xs" "n < j" "x = xs ! j"
      using x by (auto simp: in_set_conv_nth intro!: that [of "Suc n + _"])
    then show ?thesis using assms by (auto simp: sorted_wrt_iff_nth_less)
  qed
  have "filter (\<lambda>x. key x < key (xs ! n)) (take (Suc n) xs) = []" using hi by (simp add: filter_empty_conv)
  moreover have "filter (\<lambda>x. key x < key (xs ! n)) (drop (Suc n) xs) = drop (Suc n) xs"
    using lo by (simp add: filter_id_conv)
  ultimately show ?thesis by (subst split) (simp only: filter_append, simp)
qed

lemma sort_key_filter: "sort_key f (filter P xs) = filter P (sort_key f xs)"
  by (simp add: filter_sort)

lemma ordered_desc_filter: "ordered_desc key (filter P xs) = filter P (ordered_desc key xs)"
  by (simp add: ordered_desc_def sort_key_filter rev_filter)

lemma ordered_desc_strict:
  assumes "distinct (map key xs)"
  shows "sorted_wrt (\<lambda>x y. key y < key x) (ordered_desc key xs)"
proof -
  have "sorted (map key (sort_key key xs))" by simp
  moreover have "distinct (map key (sort_key key xs))" using assms by (simp add: distinct_map)
  ultimately have "sorted_wrt (<) (map key (sort_key key xs))"
    by (simp add: strict_sorted_iff)
  then show ?thesis by (simp add: ordered_desc_def sorted_wrt_rev sorted_wrt_map)
qed

lemma walk_complete_below:
  assumes "distinct (map key rows)" and "0 < limit"
  shows "concat (walk key sel limit after rows) =
     filter (\<lambda>r. sel r \<and> below after (key r)) (ordered_desc key rows)"
proof (induction "length (filter (\<lambda>r. below after (key r)) rows)" arbitrary: after rule: less_induct)
  case less
  define xs where "xs = filter (\<lambda>r. sel r \<and> below after (key r)) (ordered_desc key rows)"
  have out: "fst (page key sel limit after rows) = take limit xs"
    by (simp add: page_rows xs_def ordered_desc_filter)
  have cur: "snd (page key sel limit after rows) =
      (if length xs > limit then Some (key (xs ! (limit - 1))) else None)"
    using page_cursor_eq [OF assms(2), of key sel after rows] by (simp add: xs_def ordered_desc_filter)
  show ?case
  proof (cases "length xs > limit")
    case False
    then show ?thesis using out cur
      by (simp add: walk.simps [of key sel limit after rows] xs_def [symmetric])
  next
    case True
    let ?c = "key (xs ! (limit - 1))"
    have c: "snd (page key sel limit after rows) = Some ?c" using cur True by simp
    have srt: "sorted_wrt (\<lambda>x y. key y < key x) xs"
      using ordered_desc_strict [OF assms(1)] by (simp add: xs_def sorted_wrt_filter)
    have in_xs: "xs ! (limit - 1) \<in> set xs" using True by (intro nth_mem) simp
    have "filter (\<lambda>r. sel r \<and> below (Some ?c) (key r)) (ordered_desc key rows) = filter (\<lambda>r. key r < ?c) xs"
      unfolding xs_def filter_filter
      using in_xs below_trans by (intro filter_cong) (auto simp: below_def [of "Some _"] xs_def)
    also have "\<dots> = drop limit xs"
      using sorted_filter_below [OF srt, of "limit - 1"] True assms(2) by simp
    finally have rest: "concat (walk key sel limit (Some ?c) rows) = drop limit xs"
      using less.hyps [OF page_progress [OF c]] by simp
    have "walk key sel limit after rows = take limit xs # walk key sel limit (Some ?c) rows"
      using out c by (simp add: walk.simps [of key sel limit after rows])
    then show ?thesis using rest by (simp add: xs_def [symmetric])
  qed
qed

lemma walk_pages_short:
  "ys \<in> set (walk key sel limit after rows) \<Longrightarrow> length ys \<le> limit"
proof (induction key sel limit after rows rule: walk.induct)
  case (1 key sel limit after rows)
  have "length (fst (page key sel limit after rows)) \<le> limit" by (simp add: page_rows)
  then show ?case using 1
    by (cases "snd (page key sel limit after rows)") (auto simp: walk.simps [of key sel limit after rows])
qed

section \<open>Following the cursors of a listing\<close>

text \<open>A client that follows the cursors, with a bound on the number of requests.\<close>

fun follow_pages :: "nat \<Rightarrow> (string option \<Rightarrow> 'e + ('r list \<times> string option)) \<Rightarrow> string option \<Rightarrow> ('e + 'r list list) option" where
  "follow_pages 0 f after = None"
| "follow_pages (Suc n) f after = (case f after of
     Inl e \<Rightarrow> Some (Inl e)
   | Inr (rows, None) \<Rightarrow> Some (Inr [rows])
   | Inr (rows, Some c) \<Rightarrow> map_option (map_sum id ((#) rows)) (follow_pages n f (Some c)))"

text \<open>
  A listing that answers the cursor of every row with the page below that row: the client ends
  and has received each selected row once, newest first.
\<close>

lemma follow_complete:
  assumes fetch: "\<And>after. \<forall>k. after = Some k \<longrightarrow> k \<in> key ` set rows \<Longrightarrow>
      fetch (map_option enc after) = Inr (fst (page key sel limit after rows), map_option enc (snd (page key sel limit after rows)))"
    and d: "distinct (map key rows)" and l: "0 < limit"
  shows "\<exists>pages. follow_pages (Suc (length rows)) fetch None = Some (Inr pages)
     \<and> concat pages = filter sel (ordered_desc key rows) \<and> (\<forall>ys \<in> set pages. length ys \<le> limit)"
proof -
  have w: "follow_pages n fetch (map_option enc after) = Some (Inr (walk key sel limit after rows))"
    if "\<forall>k. after = Some k \<longrightarrow> k \<in> key ` set rows" and "length (filter (\<lambda>r. below after (key r)) rows) < n" for n after
    using that
  proof (induction n arbitrary: after)
    case (Suc n)
    show ?case
    proof (cases "snd (page key sel limit after rows)")
      case None
      then show ?thesis using fetch [OF Suc.prems(1)] by (simp add: walk.simps [of key sel limit after])
    next
      case (Some c)
      have "c \<in> key ` set rows" using page_cursor_below [OF Some] by auto
      moreover have "length (filter (\<lambda>r. below (Some c) (key r)) rows) < n"
        using page_progress [OF Some] Suc.prems(2) by simp
      ultimately have "follow_pages n fetch (Some (enc c)) = Some (Inr (walk key sel limit (Some c) rows))"
        using Suc.IH [of "Some c"] by simp
      then show ?thesis using fetch [OF Suc.prems(1)] Some by (simp add: walk.simps [of key sel limit after])
    qed
  qed simp
  from w [of None "Suc (length rows)"] walk_complete_below [OF d l, of sel None]
  show ?thesis using walk_pages_short [of _ key sel limit None rows] by (auto simp: below_def le_imp_less_Suc)
qed

end
