(* ===== verification/Session_Store.thy ===== *)
theory Session_Store
  imports Session_Domain Keyset_Page
begin

text \<open>
  The session, frame, trace and HITL tables of \<open>store/schema.py\<close> and the methods of
  \<open>SqlAlchemyStore\<close> (\<open>store/repository.py\<close>) on them. A table is the list of its rows in scan
  order; every method is one transaction, so one step. A write that violates a key raises
  \<open>IntegrityError\<close> and changes nothing. Foreign keys are enforced, with their cascades, exactly
  when \<open>fk\<close> holds: Postgres does, SQLite only after a pragma that the sources never issue.
  Row versions are natural numbers, time stamps integers, \<open>None\<close> is \<open>NULL\<close>.
\<close>

section \<open>Tables\<close>

record session_row =
  s_id :: string
  s_status :: string
  s_spec :: pydict
  s_tags :: "string list"
  s_submitted_at :: int
  s_started_at :: "int option"
  s_ended_at :: "int option"
  s_end_reason :: "string option"
  s_trace_id :: "string option"
  s_backend :: string
  s_runtime_id :: "string option"
  s_input_tokens :: int
  s_output_tokens :: int
  s_cost :: rat
  s_turn_count :: int
  s_version :: nat
  s_paused_at :: "int option"
  s_owner :: "string option"
  s_description :: "string option"
  s_parent :: "string option"

record frame_row =
  fr_session :: string
  fr_seq :: int
  fr_ts :: int
  fr_type :: string
  fr_payload :: pyval

record trace_row =
  tr_session :: string
  tr_seq :: int
  tr_event_type :: string
  tr_tool :: "string option"
  tr_use_id :: "string option"
  tr_parent :: "string option"
  tr_hash :: "string option"
  tr_input :: pydict
  tr_created_at :: int

record hitl_row =
  h_id :: string
  h_session :: string
  h_tool :: string
  h_args :: pydict
  h_status :: string
  h_created_at :: int
  h_resolved_at :: "int option"
  h_reason :: "string option"
  h_resolver :: "string option"
  h_version :: nat

record store =
  fk :: bool
  sessions :: "session_row list"
  frames :: "frame_row list"
  traces :: "trace_row list"
  hitl_requests :: "hitl_row list"

datatype store_exn =
    ConcurrencyError nat "nat option"
  | CursorInvalidError
  | CursorFilterMismatchError
  | TransactionAborted
  | StoreError py_exn

definition update_where :: "('r \<Rightarrow> bool) \<Rightarrow> ('r \<Rightarrow> 'r) \<Rightarrow> 'r list \<Rightarrow> 'r list" where
  "update_where P f rows = map (\<lambda>r. if P r then f r else r) rows"

definition find_row :: "('r \<Rightarrow> string) \<Rightarrow> string \<Rightarrow> 'r list \<Rightarrow> 'r option" where
  "find_row pk k rows = find (\<lambda>r. pk r = k) rows"

section \<open>Sessions: writes\<close>

definition create_session ::
    "string \<Rightarrow> pydict \<Rightarrow> string option \<Rightarrow> string \<Rightarrow> string list \<Rightarrow> int \<Rightarrow> string option \<Rightarrow> string option \<Rightarrow> string option
     \<Rightarrow> store \<Rightarrow> (store_exn + unit) \<times> store" where
  "create_session sid spec trace backend tags now owner descr parent db =
     (if sid \<in> set (map s_id (sessions db)) then (Inl (StoreError IntegrityError), db)
      else (Inr (), db\<lparr>sessions := sessions db @
        [\<lparr>s_id = sid, s_status = ''queued'', s_spec = spec, s_tags = tags, s_submitted_at = now,
          s_started_at = None, s_ended_at = None, s_end_reason = None, s_trace_id = trace,
          s_backend = backend, s_runtime_id = None, s_input_tokens = 0, s_output_tokens = 0,
          s_cost = 0, s_turn_count = 0, s_version = 0, s_paused_at = None, s_owner = owner,
          s_description = descr, s_parent = parent\<rparr>]\<rparr>))"

text \<open>The column arguments of \<open>update_session_status\<close>; \<open>None\<close> leaves a column alone.\<close>

record patch =
  p_status :: "string option"
  p_started_at :: "int option"
  p_ended_at :: "int option"
  p_end_reason :: "string option"
  p_runtime_id :: "string option"
  p_paused_at :: "int option"

definition no_patch :: patch where
  "no_patch = \<lparr>p_status = None, p_started_at = None, p_ended_at = None, p_end_reason = None,
               p_runtime_id = None, p_paused_at = None\<rparr>"

definition keep_or :: "'a option \<Rightarrow> 'a option \<Rightarrow> 'a option" where
  "keep_or old new = (case new of None \<Rightarrow> old | Some v \<Rightarrow> Some v)"

definition apply_patch :: "patch \<Rightarrow> nat \<Rightarrow> session_row \<Rightarrow> session_row" where
  "apply_patch p v r = r\<lparr>
     s_status := (case p_status p of None \<Rightarrow> s_status r | Some s \<Rightarrow> s),
     s_started_at := keep_or (s_started_at r) (p_started_at p),
     s_ended_at := keep_or (s_ended_at r) (p_ended_at p),
     s_end_reason := keep_or (s_end_reason r) (p_end_reason p),
     s_runtime_id := keep_or (s_runtime_id r) (p_runtime_id p),
     s_paused_at := keep_or (s_paused_at r) (p_paused_at p),
     s_version := v\<rparr>"

definition get_session :: "string \<Rightarrow> store \<Rightarrow> session_row option" where
  "get_session sid db = find_row s_id sid (sessions db)"

definition get_session_version :: "string \<Rightarrow> store \<Rightarrow> nat option" where
  "get_session_version sid db = map_option s_version (get_session sid db)"

definition update_session_status ::
    "string \<Rightarrow> patch \<Rightarrow> nat option \<Rightarrow> store \<Rightarrow> (store_exn + nat) \<times> store" where
  "update_session_status sid p expected db =
     (if p = no_patch \<and> expected = None then (Inr 0, db)
      else (case expected of
        None \<Rightarrow> (case get_session_version sid db of
            None \<Rightarrow> (Inr 0, db)
          | Some v \<Rightarrow>
              (Inr (Suc v),
               db\<lparr>sessions := update_where (\<lambda>r. s_id r = sid) (apply_patch p (Suc v)) (sessions db)\<rparr>))
      | Some e \<Rightarrow>
          if p = no_patch then (Inr e, db)
          else if \<exists>r \<in> set (sessions db). s_id r = sid \<and> s_version r = e
          then (Inr (Suc e),
                db\<lparr>sessions := update_where (\<lambda>r. s_id r = sid \<and> s_version r = e) (apply_patch p (Suc e)) (sessions db)\<rparr>)
          else (Inl (ConcurrencyError e (get_session_version sid db)), db)))"

definition update_session_aggregates :: "string \<Rightarrow> int \<Rightarrow> int \<Rightarrow> rat \<Rightarrow> int \<Rightarrow> store \<Rightarrow> store" where
  "update_session_aggregates sid i o' c t db =
     db\<lparr>sessions := update_where (\<lambda>r. s_id r = sid)
        (\<lambda>r. r\<lparr>s_input_tokens := i, s_output_tokens := o', s_cost := c, s_turn_count := t\<rparr>) (sessions db)\<rparr>"

definition interrupt_row :: "int \<Rightarrow> string \<Rightarrow> session_row \<Rightarrow> session_row" where
  "interrupt_row now why r = r\<lparr>s_status := ''interrupted'', s_ended_at := Some now, s_end_reason := Some why\<rparr>"

definition mark_in_flight_as_interrupted :: "int \<Rightarrow> store \<Rightarrow> string list \<times> store" where
  "mark_in_flight_as_interrupted now db =
     (map s_id (filter (\<lambda>r. s_status r = ''running'') (sessions db)),
      db\<lparr>sessions := update_where (\<lambda>r. s_status r = ''running'')
           (interrupt_row now ''interrupted_on_startup'') (sessions db)\<rparr>)"

definition mark_queued_as_interrupted :: "int \<Rightarrow> int \<Rightarrow> store \<Rightarrow> string list \<times> store" where
  "mark_queued_as_interrupted now cutoff db =
     (let P = (\<lambda>r. s_status r = ''queued'' \<and> s_submitted_at r < cutoff) in
      (map s_id (filter P (sessions db)),
       db\<lparr>sessions := update_where P (interrupt_row now ''queued_interrupted_on_startup'') (sessions db)\<rparr>))"

definition delete_session :: "string \<Rightarrow> store \<Rightarrow> store" where
  "delete_session sid db =
     (let gone = (sid \<in> set (map s_id (sessions db)) \<and> fk db) in
      db\<lparr>sessions := filter (\<lambda>r. s_id r \<noteq> sid) (sessions db),
         frames := (if gone then filter (\<lambda>r. fr_session r \<noteq> sid) (frames db) else frames db),
         traces := (if gone then filter (\<lambda>r. tr_session r \<noteq> sid) (traces db) else traces db),
         hitl_requests := (if gone then filter (\<lambda>r. h_session r \<noteq> sid) (hitl_requests db) else hitl_requests db)\<rparr>)"

section \<open>Sessions: reads\<close>

definition list_children_of_session :: "string \<Rightarrow> store \<Rightarrow> session_row list" where
  "list_children_of_session sid db =
     sort_key s_submitted_at (filter (\<lambda>r. s_parent r = Some sid) (sessions db))"

definition list_paused :: "store \<Rightarrow> session_row list" where
  "list_paused db =
     sort_key (\<lambda>r. - (case s_paused_at r of None \<Rightarrow> 0 | Some t \<Rightarrow> t))
       (filter (\<lambda>r. s_status r = ''paused'' \<and> s_paused_at r \<noteq> None) (sessions db))"

text \<open>
  The text form of a cursor: \<open>pack\<close> is JSON then URL-safe base64 without padding, \<open>unpack\<close> the
  inverse with padding restored (\<open>None\<close> when it raises), \<open>iso\<close> and \<open>from_iso\<close> the ISO 8601 form
  of a time stamp, \<open>sha\<close> the first twelve hex digits of SHA-1, \<open>show\<close> is \<open>str\<close> of a value that
  is not text.
\<close>

record codec =
  pack :: "pyval \<Rightarrow> string"
  unpack :: "string \<Rightarrow> pyval option"
  iso :: "int \<Rightarrow> string"
  from_iso :: "pyval \<Rightarrow> int option"
  sha :: "string \<Rightarrow> string"
  show_val :: "pyval \<Rightarrow> string"

definition or_star :: "string option \<Rightarrow> string" where
  "or_star s = (case s of None \<Rightarrow> ''*'' | Some [] \<Rightarrow> ''*'' | Some t \<Rightarrow> t)"

definition filter_hash :: "codec \<Rightarrow> string option \<Rightarrow> string option \<Rightarrow> string" where
  "filter_hash cd status tag = sha cd (or_star status @ ''|'' @ or_star tag)"

definition cursor_obj :: "codec \<Rightarrow> int \<Rightarrow> string \<Rightarrow> string \<Rightarrow> pyval" where
  "cursor_obj cd ts i fh = PDict [(PStr ''ts'', PStr (iso cd ts)), (PStr ''id'', PStr i), (PStr ''fh'', PStr fh)]"

definition encode_cursor :: "codec \<Rightarrow> int \<Rightarrow> string \<Rightarrow> string \<Rightarrow> string" where
  "encode_cursor cd ts i fh = pack cd (cursor_obj cd ts i fh)"

definition decode_cursor :: "codec \<Rightarrow> string \<Rightarrow> string \<Rightarrow> store_exn + (int \<times> string)" where
  "decode_cursor cd cursor fh = (case unpack cd cursor of
     Some (PDict d) \<Rightarrow>
       if map_of d (PStr ''ts'') = None \<or> map_of d (PStr ''id'') = None then Inl CursorInvalidError
       else if dget d ''fh'' \<noteq> PStr fh then Inl CursorFilterMismatchError
       else (case from_iso cd (dget d ''ts'') of
               None \<Rightarrow> Inl CursorInvalidError
             | Some ts \<Rightarrow> Inr (ts, case dget d ''id'' of PStr s \<Rightarrow> s | v \<Rightarrow> show_val cd v))
   | _ \<Rightarrow> Inl CursorInvalidError)"

definition session_key :: "session_row \<Rightarrow> int \<times> string" where
  "session_key r = (s_submitted_at r, s_id r)"

text \<open>The shared tail of the listing methods: decode, fetch a page, mint the next cursor.\<close>

definition cursor_page :: "codec \<Rightarrow> string \<Rightarrow> (session_row \<Rightarrow> bool) \<Rightarrow> nat \<Rightarrow> string option \<Rightarrow> store
    \<Rightarrow> store_exn + (session_row list \<times> string option)" where
  "cursor_page cd fh sel limit after db =
     (case (case after of None \<Rightarrow> Inr None | Some c \<Rightarrow> map_sum id Some (decode_cursor cd c fh)) of
        Inl e \<Rightarrow> Inl e
      | Inr anchor \<Rightarrow>
          (let (rows, next) = page session_key sel limit anchor (sessions db)
           in Inr (rows, map_option (\<lambda>(ts, i). encode_cursor cd ts i fh) next)))"

definition list_sessions :: "codec \<Rightarrow> string option \<Rightarrow> string option \<Rightarrow> nat \<Rightarrow> string option \<Rightarrow> store
    \<Rightarrow> store_exn + (session_row list \<times> string option)" where
  "list_sessions cd status tag limit after db =
     cursor_page cd (filter_hash cd status tag)
       (\<lambda>r. (case status of None \<Rightarrow> True | Some s \<Rightarrow> s_status r = s)
            \<and> (case tag of None \<Rightarrow> True | Some t \<Rightarrow> t \<in> set (s_tags r)))
       limit after db"

text \<open>
  SQL \<open>LIKE\<close>: \<open>%\<close> stands for any text, \<open>_\<close> for any character; the pattern built from a search
  term is not escaped. \<open>ci\<close> says whether the comparison ignores case (SQLite).
\<close>

fun like :: "string \<Rightarrow> string \<Rightarrow> bool" where
  "like [] s = (s = [])"
| "like (p # ps) s =
     (if p = CHR ''%'' then like ps s \<or> (case s of [] \<Rightarrow> False | _ # t \<Rightarrow> like (p # ps) t)
      else (case s of [] \<Rightarrow> False | c # t \<Rightarrow> (p = CHR ''_'' \<or> p = c) \<and> like ps t))"

definition sql_like :: "bool \<Rightarrow> string \<Rightarrow> string \<Rightarrow> bool" where
  "sql_like ci pat s = (if ci then like (str_lower pat) (str_lower s) else like pat s)"

record search_filter =
  q_text :: "string option"
  q_owner :: "string option"
  q_tags :: "string list"
  q_status :: "string list"
  q_after_ts :: "int option"
  q_before_ts :: "int option"

text \<open>\<open>spec_text\<close> and \<open>tags_text\<close> are the database's text of the JSON columns.\<close>

definition search_selects ::
    "bool \<Rightarrow> (pydict \<Rightarrow> string) \<Rightarrow> (string list \<Rightarrow> string) \<Rightarrow> search_filter \<Rightarrow> session_row \<Rightarrow> bool" where
  "search_selects ci spec_text tags_text f r \<longleftrightarrow>
     (case q_text f of None \<Rightarrow> True | Some t \<Rightarrow>
        t = [] \<or> sql_like ci (''%'' @ str_lower t @ ''%'') (str_lower (spec_text (s_spec r))))
   \<and> (case q_owner f of None \<Rightarrow> True | Some w \<Rightarrow> s_owner r = Some w)
   \<and> (q_status f = [] \<or> s_status r \<in> set (q_status f))
   \<and> (case q_after_ts f of None \<Rightarrow> True | Some t \<Rightarrow> s_submitted_at r \<ge> t)
   \<and> (case q_before_ts f of None \<Rightarrow> True | Some t \<Rightarrow> s_submitted_at r \<le> t)
   \<and> (q_tags f = [] \<or> (\<exists>t \<in> set (q_tags f). sql_like ci (''%'' @ [CHR 34] @ t @ [CHR 34] @ ''%'') (tags_text (s_tags r))))"

text \<open>\<open>hash_filter\<close> is \<open>_filter_hash_search\<close> of the active filter.\<close>

definition search_sessions ::
    "codec \<Rightarrow> (search_filter \<Rightarrow> string) \<Rightarrow> bool \<Rightarrow> (pydict \<Rightarrow> string) \<Rightarrow> (string list \<Rightarrow> string)
     \<Rightarrow> search_filter \<Rightarrow> nat \<Rightarrow> string option \<Rightarrow> store \<Rightarrow> store_exn + (session_row list \<times> string option)" where
  "search_sessions cd hash_filter ci spec_text tags_text f limit after db =
     cursor_page cd (hash_filter f) (search_selects ci spec_text tags_text f) limit after db"

definition prompt_prefix :: "string \<Rightarrow> string" where
  "prompt_prefix s = take 120 (str_strip s)"

definition recent_same_prompt :: "int \<Rightarrow> string \<Rightarrow> string \<Rightarrow> int \<Rightarrow> store \<Rightarrow> session_row list" where
  "recent_same_prompt now owner prompt within_minutes db =
     (let needle = prompt_prefix prompt in
      if needle = [] then []
      else
        (let cutoff = now - within_minutes * 60000000;
             cands = take 20 (rev (sort_key s_submitted_at
                       (filter (\<lambda>r. s_owner r = Some owner \<and> s_submitted_at r \<ge> cutoff) (sessions db))))
         in take 5 (filter (\<lambda>r. case dget (s_spec r) ''prompt'' of PStr e \<Rightarrow> prompt_prefix e = needle | _ \<Rightarrow> False) cands)))"

section \<open>Aggregates\<close>

record bucket =
  b_start :: int
  b_input :: int
  b_output :: int
  b_cost :: rat
  b_sessions :: nat

text \<open>
  Token and cost series: sessions that ended at or after the cutoff, grouped by the start of
  their bucket (whole seconds since the epoch), in ascending order. Seconds are
  microseconds divided by \<open>10^6\<close>, rounded down.
\<close>

definition ended_seconds :: "session_row \<Rightarrow> int option" where
  "ended_seconds r = map_option (\<lambda>t. t div 1000000) (s_ended_at r)"

definition bucket_of :: "int \<Rightarrow> int \<Rightarrow> int" where
  "bucket_of bucket_s e = (e div bucket_s) * bucket_s"

definition aggregate_tokens_by_bucket :: "int \<Rightarrow> int \<Rightarrow> int \<Rightarrow> store \<Rightarrow> bucket list" where
  "aggregate_tokens_by_bucket now window_s bucket_s db =
     (let cutoff = now div 1000000 - window_s;
          ended = List.map_filter (\<lambda>r. case ended_seconds r of
                     None \<Rightarrow> None
                   | Some e \<Rightarrow> if e \<ge> cutoff then Some (bucket_of bucket_s e, r) else None) (sessions db)
      in map (\<lambda>b. let rs = map snd (filter (\<lambda>p. fst p = b) ended) in
                \<lparr>b_start = b, b_input = sum_list (map s_input_tokens rs),
                 b_output = sum_list (map s_output_tokens rs), b_cost = sum_list (map s_cost rs),
                 b_sessions = length rs\<rparr>)
           (sort (remdups (map fst ended))))"

definition in_window :: "int option \<Rightarrow> int option \<Rightarrow> session_row \<Rightarrow> bool" where
  "in_window from_ts to_ts r \<longleftrightarrow>
     (case from_ts of None \<Rightarrow> True | Some t \<Rightarrow> s_submitted_at r \<ge> t)
   \<and> (case to_ts of None \<Rightarrow> True | Some t \<Rightarrow> s_submitted_at r \<le> t)"

datatype cost_order = ByCost | BySessions | ByOwner

text \<open>One group per owner; \<open>None\<close> groups the sessions without owner.\<close>

definition owner_groups :: "int option \<Rightarrow> int option \<Rightarrow> store \<Rightarrow> (string option \<times> nat \<times> rat) list" where
  "owner_groups from_ts to_ts db =
     (let rs = filter (in_window from_ts to_ts) (sessions db)
      in map (\<lambda>w. let ws = filter (\<lambda>r. s_owner r = w) rs in (w, length ws, sum_list (map s_cost ws)))
           (remdups (map s_owner rs)))"

definition owner_text :: "string option \<Rightarrow> string" where
  "owner_text w = (case w of None \<Rightarrow> [] | Some s \<Rightarrow> s)"

definition aggregate_cost_by_owner ::
    "int option \<Rightarrow> int option \<Rightarrow> nat \<Rightarrow> cost_order \<Rightarrow> store \<Rightarrow> (string option \<times> nat \<times> rat) list" where
  "aggregate_cost_by_owner from_ts to_ts limit order db =
     take limit (case order of
        ByCost \<Rightarrow> rev (sort_key (\<lambda>(_, _, c). c) (owner_groups from_ts to_ts db))
      | BySessions \<Rightarrow> rev (sort_key (\<lambda>(_, n, _). n) (owner_groups from_ts to_ts db))
      | ByOwner \<Rightarrow> sort_key (\<lambda>(w, _, _). owner_text w) (owner_groups from_ts to_ts db))"

definition list_sessions_with_cost ::
    "string option \<Rightarrow> int option \<Rightarrow> int option \<Rightarrow> nat \<Rightarrow> store \<Rightarrow> session_row list" where
  "list_sessions_with_cost owner from_ts to_ts limit db =
     take limit (ordered_desc session_key
       (filter (\<lambda>r. (case owner of None \<Rightarrow> True | Some w \<Rightarrow> s_owner r = Some w) \<and> in_window from_ts to_ts r)
          (sessions db)))"

section \<open>Frames and traces\<close>

definition append_frame :: "string \<Rightarrow> int \<Rightarrow> int \<Rightarrow> string \<Rightarrow> pydict \<Rightarrow> store \<Rightarrow> (store_exn + unit) \<times> store" where
  "append_frame sid n ts ty payload db =
     (if (\<exists>r \<in> set (frames db). fr_session r = sid \<and> fr_seq r = n)
         \<or> (fk db \<and> sid \<notin> set (map s_id (sessions db)))
      then (Inl (StoreError IntegrityError), db)
      else (Inr (), db\<lparr>frames := frames db @
             [\<lparr>fr_session = sid, fr_seq = n, fr_ts = ts, fr_type = ty, fr_payload = PDict payload\<rparr>]\<rparr>))"

definition list_frames :: "string \<Rightarrow> nat \<Rightarrow> nat \<Rightarrow> store \<Rightarrow> frame_row list" where
  "list_frames sid limit offset db =
     take limit (drop offset (sort_key fr_seq (filter (\<lambda>r. fr_session r = sid) (frames db))))"

definition prune_frames_older_than :: "int \<Rightarrow> store \<Rightarrow> nat \<times> store" where
  "prune_frames_older_than cutoff db =
     (length (filter (\<lambda>r. fr_ts r < cutoff) (frames db)),
      db\<lparr>frames := filter (\<lambda>r. \<not> fr_ts r < cutoff) (frames db)\<rparr>)"

definition record_trace_invocation :: "trace_row \<Rightarrow> store \<Rightarrow> (store_exn + unit) \<times> store" where
  "record_trace_invocation t db =
     (if fk db \<and> tr_session t \<notin> set (map s_id (sessions db)) then (Inl (StoreError IntegrityError), db)
      else (Inr (), db\<lparr>traces := traces db @ [t]\<rparr>))"

definition list_trace_invocations :: "string \<Rightarrow> nat \<Rightarrow> store \<Rightarrow> trace_row list" where
  "list_trace_invocations sid limit db =
     take limit (sort_key tr_seq (filter (\<lambda>r. tr_session r = sid) (traces db)))"

definition aggregate_tool_patterns :: "int option \<Rightarrow> nat \<Rightarrow> store \<Rightarrow> ((string option \<times> string option) \<times> nat) list" where
  "aggregate_tool_patterns since limit db =
     (let rs = filter (\<lambda>r. tr_tool r \<noteq> None \<and> (case since of None \<Rightarrow> True | Some t \<Rightarrow> tr_created_at r \<ge> t)) (traces db);
          key = (\<lambda>r. (tr_tool r, tr_hash r))
      in take limit (rev (sort_key snd
           (map (\<lambda>k. (k, length (filter (\<lambda>r. key r = k) rs))) (remdups (map key rs))))))"

section \<open>HITL requests\<close>

text \<open>
  Without an expected version SQLite runs one \<open>INSERT ... ON CONFLICT DO UPDATE\<close>. The other
  branch catches the \<open>IntegrityError\<close> of a plain \<open>INSERT\<close> and issues an \<open>UPDATE\<close> in the same
  transaction; Postgres refuses any statement of a transaction in which one has failed, so that
  path raises there.
\<close>

definition get_hitl :: "string \<Rightarrow> store \<Rightarrow> hitl_row option" where
  "get_hitl rid db = find_row h_id rid (hitl_requests db)"

definition get_hitl_version :: "string \<Rightarrow> store \<Rightarrow> nat option" where
  "get_hitl_version rid db = map_option h_version (get_hitl rid db)"

definition list_pending_hitl :: "string option \<Rightarrow> store \<Rightarrow> hitl_row list" where
  "list_pending_hitl sid db =
     sort_key h_created_at (filter (\<lambda>r. h_status r = ''pending'' \<and> (case sid of None \<Rightarrow> True | Some s \<Rightarrow> h_session r = s))
       (hitl_requests db))"

text \<open>The columns an upsert writes; id, session and creation time of an existing row stay.\<close>

record hitl_write =
  w_tool :: string
  w_args :: pydict
  w_status :: string
  w_resolved_at :: "int option"
  w_reason :: "string option"
  w_resolver :: "string option"

definition apply_hitl :: "hitl_write \<Rightarrow> nat \<Rightarrow> hitl_row \<Rightarrow> hitl_row" where
  "apply_hitl w v r = r\<lparr>h_tool := w_tool w, h_args := w_args w, h_status := w_status w,
     h_resolved_at := w_resolved_at w, h_reason := w_reason w, h_resolver := w_resolver w, h_version := v\<rparr>"

definition upsert_hitl ::
    "string \<Rightarrow> string \<Rightarrow> hitl_write \<Rightarrow> int \<Rightarrow> nat option \<Rightarrow> store \<Rightarrow> (store_exn + nat option) \<times> store" where
  "upsert_hitl rid sid w created expected db = (case expected of
     Some e \<Rightarrow>
       if \<exists>r \<in> set (hitl_requests db). h_id r = rid \<and> h_version r = e
       then (Inr (Some (Suc e)),
             db\<lparr>hitl_requests := update_where (\<lambda>r. h_id r = rid \<and> h_version r = e) (apply_hitl w (Suc e)) (hitl_requests db)\<rparr>)
       else (Inl (ConcurrencyError e (get_hitl_version rid db)), db)
   | None \<Rightarrow>
       if fk db \<and> (rid \<in> set (map h_id (hitl_requests db)) \<or> sid \<notin> set (map s_id (sessions db)))
       then (Inl TransactionAborted, db)
       else if rid \<in> set (map h_id (hitl_requests db))
       then (Inr None,
             db\<lparr>hitl_requests := update_where (\<lambda>r. h_id r = rid) (\<lambda>r. apply_hitl w (Suc (h_version r)) r) (hitl_requests db)\<rparr>)
       else (Inr None,
             db\<lparr>hitl_requests := hitl_requests db @
               [\<lparr>h_id = rid, h_session = sid, h_tool = w_tool w, h_args = w_args w, h_status = w_status w,
                 h_created_at = created, h_resolved_at = w_resolved_at w, h_reason = w_reason w,
                 h_resolver = w_resolver w, h_version = 0\<rparr>]\<rparr>))"

section \<open>Optimistic locking\<close>

text \<open>
  The contract of a version-checked write, shared by sessions and HITL rows: it succeeds
  exactly when the row has the expected version, then the row has the next version; a stale
  write reports the actual version and changes nothing.
\<close>

locale versioned =
  fixes version :: "string \<Rightarrow> store \<Rightarrow> nat option"
    and cas :: "string \<Rightarrow> 'u \<Rightarrow> nat \<Rightarrow> store \<Rightarrow> (store_exn + nat) \<times> store"
    and ok :: "store \<Rightarrow> bool"
    and valid :: "'u \<Rightarrow> bool"
  assumes write_hit: "ok db \<Longrightarrow> valid u \<Longrightarrow> version k db = Some v
        \<Longrightarrow> \<exists>db'. cas k u v db = (Inr (Suc v), db') \<and> ok db' \<and> version k db' = Some (Suc v)
              \<and> (\<forall>k'. k' \<noteq> k \<longrightarrow> version k' db' = version k' db)"
    and write_miss: "ok db \<Longrightarrow> valid u \<Longrightarrow> version k db \<noteq> Some v
        \<Longrightarrow> cas k u v db = (Inl (ConcurrencyError v (version k db)), db)"
begin

lemma write_ok: "ok db \<Longrightarrow> valid u \<Longrightarrow> ok (snd (cas k u v db))"
  using write_hit [of db u k v] write_miss [of db u k v] by (cases "version k db = Some v") fastforce+

lemma write_version:
  assumes "ok db" and "valid u"
  shows "version k' (snd (cas k u v db)) =
     (if k' = k \<and> version k db = Some v then Some (Suc v) else version k' db)"
proof (cases "version k db = Some v")
  case True
  from write_hit [OF assms True] True show ?thesis by auto
next
  case False
  from write_miss [OF assms False] False show ?thesis by auto
qed

lemma write_result:
  assumes "ok db" and "valid u"
  shows "fst (cas k u v db) = (if version k db = Some v then Inr (Suc v) else Inl (ConcurrencyError v (version k db)))"
  using write_hit [OF assms, of k v] write_miss [OF assms, of k v] by (cases "version k db = Some v") auto

text \<open>A history of checked writes by any number of writers, and its outcomes.\<close>

fun run_writes :: "(string \<times> 'u \<times> nat) list \<Rightarrow> store \<Rightarrow> (store_exn + nat) list \<times> store" where
  "run_writes [] db = ([], db)"
| "run_writes ((k, u, v) # ws) db =
     (let (r, db1) = cas k u v db; (rs, db2) = run_writes ws db1 in (r # rs, db2))"

lemma run_writes_above:
  assumes "ok db" and "\<forall>w \<in> set ws. valid (fst (snd w))" and "version k db = Some m" and "v < m"
  shows "\<forall>i < length ws. (\<exists>u. ws ! i = (k, u, v)) \<longrightarrow> \<not> isl (fst (run_writes ws db) ! i) \<longrightarrow> False"
  using assms
proof (induction ws arbitrary: db m)
  case (Cons w ws)
  obtain k' u v' where w: "w = (k', u, v')" by (cases w)
  obtain r db1 where wr: "cas k' u v' db = (r, db1)" by (cases "cas k' u v' db")
  have vu: "valid u" using Cons.prems(2) w by simp
  have ok1: "ok db1" using write_ok [OF Cons.prems(1) vu, of k' v'] wr by simp
  have v1: "version k db1 = (if k = k' \<and> version k' db = Some v' then Some (Suc v') else version k db)"
    using write_version [OF Cons.prems(1) vu, of k k' v'] wr by simp
  obtain m1 where m1: "version k db1 = Some m1" "v < m1"
    using v1 Cons.prems(3,4) by (auto split: if_splits)
  have ih: "\<forall>i < length ws. (\<exists>u. ws ! i = (k, u, v)) \<longrightarrow> \<not> isl (fst (run_writes ws db1) ! i) \<longrightarrow> False"
    using Cons.IH [OF ok1 _ m1] Cons.prems(2) by simp
  have head: "isl r" if "w = (k, u, v)"
    using write_result [OF Cons.prems(1) vu, of k' v'] that w wr Cons.prems(3,4) by auto
  show ?case
  proof (intro allI impI)
    fix i assume i: "i < length (w # ws)" "\<exists>u. (w # ws) ! i = (k, u, v)" "\<not> isl (fst (run_writes (w # ws) db) ! i)"
    show False using i ih head w wr by (cases i) (auto simp: Let_def split: prod.splits)
  qed
qed simp

text \<open>Of all writes against the same version of the same row, at most one succeeds.\<close>

lemma at_most_one_winner:
  assumes "ok db" and "\<forall>w \<in> set ws. valid (fst (snd w))"
    and "i < j" and "j < length ws" and "ws ! i = (k, u1, v)" and "ws ! j = (k, u2, v)"
    and "\<not> isl (fst (run_writes ws db) ! i)"
  shows "isl (fst (run_writes ws db) ! j)"
  using assms
proof (induction ws arbitrary: db i j)
  case (Cons w ws)
  obtain k' u v' where w: "w = (k', u, v')" by (cases w)
  obtain r db1 where wr: "cas k' u v' db = (r, db1)" by (cases "cas k' u v' db")
  have vu: "valid u" using Cons.prems(2) w by simp
  have ok1: "ok db1" using write_ok [OF Cons.prems(1) vu, of k' v'] wr by simp
  obtain j' where j: "j = Suc j'" using Cons.prems(3) by (cases j) auto
  have unf: "fst (run_writes (w # ws) db) = r # fst (run_writes ws db1)"
    using w wr by (simp add: Let_def split: prod.splits)
  show ?case
  proof (cases i)
    case 0
    then have "k' = k" "v' = v" "\<not> isl r" using Cons.prems(5,7) w unf by auto
    then have "version k db = Some v" using write_result [OF Cons.prems(1) vu, of k' v'] wr by (auto split: if_splits)
    then have "version k db1 = Some (Suc v)"
      using write_version [OF Cons.prems(1) vu, of k k' v'] wr \<open>k' = k\<close> \<open>v' = v\<close> by simp
    from run_writes_above [OF ok1 _ this, of ws v] Cons.prems(2,4,6) j unf show ?thesis by auto
  next
    case (Suc i')
    then show ?thesis using Cons.IH [OF ok1, of i' j'] Cons.prems j unf by simp
  qed
qed simp

end

definition store_ok :: "store \<Rightarrow> bool" where
  "store_ok db \<longleftrightarrow> distinct (map s_id (sessions db)) \<and> distinct (map h_id (hitl_requests db))"

lemma update_where_pk:
  assumes "\<And>r. pk (f r) = pk r"
  shows "map pk (update_where P f rows) = map pk rows"
  using assms by (induction rows) (auto simp: update_where_def)

lemma find_row_mem: "find_row pk k rows = Some r \<Longrightarrow> r \<in> set rows \<and> pk r = k"
  by (auto simp: find_row_def find_Some_iff)

lemma find_row_unique:
  "distinct (map pk rows) \<Longrightarrow> r \<in> set rows \<Longrightarrow> pk r = k \<Longrightarrow> find_row pk k rows = Some r"
proof (induction rows)
  case (Cons x xs)
  show ?case
  proof (cases "pk x = k")
    case True
    then have "r = x" using Cons.prems by (auto simp: image_iff)
    with True show ?thesis by (simp add: find_row_def)
  next
    case False
    then have "find_row pk k xs = Some r" using Cons by (auto simp: find_row_def)
    with False show ?thesis by (simp add: find_row_def)
  qed
qed simp

lemma find_row_None: "find_row pk k rows = None \<longleftrightarrow> k \<notin> set (map pk rows)"
  by (auto simp: find_row_def find_None_iff)

text \<open>What a keyed update does to lookups.\<close>

lemma find_row_update:
  assumes "\<And>r. pk (f r) = pk r"
  shows "find_row pk k' (update_where P f rows) =
     map_option (\<lambda>r. if P r then f r else r) (find_row pk k' rows)"
  using assms by (induction rows) (auto simp: update_where_def find_row_def)

lemma session_hit_iff:
  assumes "distinct (map s_id (sessions db))"
  shows "(\<exists>r \<in> set (sessions db). s_id r = sid \<and> s_version r = e) \<longleftrightarrow> get_session_version sid db = Some e"
  using assms find_row_unique [of s_id "sessions db"] find_row_mem [of s_id sid "sessions db"]
  by (fastforce simp: get_session_version_def get_session_def)

lemma hitl_hit_iff:
  assumes "distinct (map h_id (hitl_requests db))"
  shows "(\<exists>r \<in> set (hitl_requests db). h_id r = rid \<and> h_version r = e) \<longleftrightarrow> get_hitl_version rid db = Some e"
  using assms find_row_unique [of h_id "hitl_requests db"] find_row_mem [of h_id rid "hitl_requests db"]
  by (fastforce simp: get_hitl_version_def get_hitl_def)

lemma apply_patch_simps [simp]: "s_id (apply_patch p v r) = s_id r" "s_version (apply_patch p v r) = v"
  by (simp_all add: apply_patch_def)

lemma apply_hitl_simps [simp]: "h_id (apply_hitl w v r) = h_id r" "h_version (apply_hitl w v r) = v"
  by (simp_all add: apply_hitl_def)

definition checked_status :: "string \<Rightarrow> patch \<Rightarrow> nat \<Rightarrow> store \<Rightarrow> (store_exn + nat) \<times> store" where
  "checked_status sid p v db = update_session_status sid p (Some v) db"

definition checked_hitl :: "string \<Rightarrow> hitl_write \<Rightarrow> nat \<Rightarrow> store \<Rightarrow> (store_exn + nat) \<times> store" where
  "checked_hitl rid w v db = (case upsert_hitl rid [] w 0 (Some v) db of
     (Inl e, db') \<Rightarrow> (Inl e, db')
   | (Inr None, db') \<Rightarrow> (Inr v, db')
   | (Inr (Some n), db') \<Rightarrow> (Inr n, db'))"

interpretation session_cas: versioned get_session_version checked_status store_ok "\<lambda>p. p \<noteq> no_patch"
proof
  fix db p k v
  assume ok: "store_ok db" and p: "p \<noteq> no_patch"
  have d: "distinct (map s_id (sessions db))" using ok by (simp add: store_ok_def)
  {
    assume v: "get_session_version k db = Some v"
    let ?db = "db\<lparr>sessions := update_where (\<lambda>r. s_id r = k \<and> s_version r = v) (apply_patch p (Suc v)) (sessions db)\<rparr>"
    have "checked_status k p v db = (Inr (Suc v), ?db)"
      using v p session_hit_iff [OF d, of k v] by (simp add: checked_status_def update_session_status_def)
    moreover have "store_ok ?db" using ok by (simp add: store_ok_def update_where_pk)
    moreover have "get_session_version k' ?db = (if k' = k then Some (Suc v) else get_session_version k' db)" for k'
      using v find_row_mem [of s_id k' "sessions db"]
      by (cases "find_row s_id k' (sessions db)")
         (auto simp: get_session_version_def get_session_def find_row_update)
    ultimately show "\<exists>db'. checked_status k p v db = (Inr (Suc v), db') \<and> store_ok db'
        \<and> get_session_version k db' = Some (Suc v)
        \<and> (\<forall>k'. k' \<noteq> k \<longrightarrow> get_session_version k' db' = get_session_version k' db)"
      by auto
  next
    assume "get_session_version k db \<noteq> Some v"
    then show "checked_status k p v db = (Inl (ConcurrencyError v (get_session_version k db)), db)"
      using p session_hit_iff [OF d, of k v] by (simp add: checked_status_def update_session_status_def)
  }
qed

interpretation hitl_cas: versioned get_hitl_version checked_hitl store_ok "\<lambda>_. True"
proof
  fix db w k v
  assume ok: "store_ok db"
  have d: "distinct (map h_id (hitl_requests db))" using ok by (simp add: store_ok_def)
  {
    assume v: "get_hitl_version k db = Some v"
    let ?db = "db\<lparr>hitl_requests := update_where (\<lambda>r. h_id r = k \<and> h_version r = v) (apply_hitl w (Suc v)) (hitl_requests db)\<rparr>"
    have "checked_hitl k w v db = (Inr (Suc v), ?db)"
      using v hitl_hit_iff [OF d, of k v] by (simp add: checked_hitl_def upsert_hitl_def)
    moreover have "store_ok ?db" using ok by (simp add: store_ok_def update_where_pk)
    moreover have "get_hitl_version k' ?db = (if k' = k then Some (Suc v) else get_hitl_version k' db)" for k'
      using v find_row_mem [of h_id k' "hitl_requests db"]
      by (cases "find_row h_id k' (hitl_requests db)")
         (auto simp: get_hitl_version_def get_hitl_def find_row_update)
    ultimately show "\<exists>db'. checked_hitl k w v db = (Inr (Suc v), db') \<and> store_ok db'
        \<and> get_hitl_version k db' = Some (Suc v)
        \<and> (\<forall>k'. k' \<noteq> k \<longrightarrow> get_hitl_version k' db' = get_hitl_version k' db)"
      by auto
  next
    assume "get_hitl_version k db \<noteq> Some v"
    then show "checked_hitl k w v db = (Inl (ConcurrencyError v (get_hitl_version k db)), db)"
      using hitl_hit_iff [OF d, of k v] by (simp add: checked_hitl_def upsert_hitl_def)
  }
qed

section \<open>Listing all sessions\<close>

text \<open>The documented behaviour of the codec on the cursors of the rows of a table.\<close>

definition codec_ok :: "codec \<Rightarrow> string \<Rightarrow> store \<Rightarrow> bool" where
  "codec_ok cd fh db \<longleftrightarrow> (\<forall>r \<in> set (sessions db).
     unpack cd (pack cd (cursor_obj cd (s_submitted_at r) (s_id r) fh)) = Some (cursor_obj cd (s_submitted_at r) (s_id r) fh)
     \<and> from_iso cd (PStr (iso cd (s_submitted_at r))) = Some (s_submitted_at r))"

lemma decode_encode:
  assumes "codec_ok cd fh db" and "r \<in> set (sessions db)"
  shows "decode_cursor cd (encode_cursor cd (s_submitted_at r) (s_id r) fh) fh = Inr (session_key r)"
  using assms by (auto simp: codec_ok_def decode_cursor_def encode_cursor_def cursor_obj_def session_key_def)

definition encode_key :: "codec \<Rightarrow> string \<Rightarrow> int \<times> string \<Rightarrow> string" where
  "encode_key cd fh = (\<lambda>(ts, i). encode_cursor cd ts i fh)"

definition session_keys :: "store \<Rightarrow> (int \<times> string) set" where
  "session_keys db = session_key ` set (sessions db)"

lemma cursor_page_at:
  assumes "codec_ok cd fh db" and "\<forall>k. after = Some k \<longrightarrow> k \<in> session_keys db"
  shows "cursor_page cd fh sel limit (map_option (encode_key cd fh) after) db =
     (let (rows, next) = page session_key sel limit after (sessions db)
      in Inr (rows, map_option (encode_key cd fh) next))"
proof (cases after)
  case None
  then show ?thesis by (simp add: cursor_page_def encode_key_def)
next
  case (Some k)
  then obtain r where r: "r \<in> set (sessions db)" "k = session_key r"
    using assms(2) by (auto simp: session_keys_def)
  have "decode_cursor cd (encode_key cd fh k) fh = Inr k"
    using decode_encode [OF assms(1) r(1)] r(2) by (simp add: encode_key_def session_key_def)
  then show ?thesis using Some by (simp add: cursor_page_def encode_key_def)
qed

lemma session_keys_distinct: "distinct (map s_id (sessions db)) \<Longrightarrow> distinct (map session_key (sessions db))"
  by (auto simp: distinct_map inj_on_def session_key_def)

text \<open>
  C26: a client that pages through \<open>list_sessions\<close> from the start, passing each returned cursor
  back, ends after at most one request per session plus one and has received every session of
  the status and tag exactly once, newest first, with ties broken by id.
\<close>

theorem session_listing_complete:
  assumes "store_ok db" and "0 < limit" and "codec_ok cd (filter_hash cd status tag) db"
  shows "\<exists>pages. follow_pages (Suc (length (sessions db))) (\<lambda>a. list_sessions cd status tag limit a db) None = Some (Inr pages)
     \<and> concat pages = filter (\<lambda>r. (case status of None \<Rightarrow> True | Some s \<Rightarrow> s_status r = s)
            \<and> (case tag of None \<Rightarrow> True | Some t \<Rightarrow> t \<in> set (s_tags r))) (ordered_desc session_key (sessions db))
     \<and> (\<forall>ys \<in> set pages. length ys \<le> limit)"
proof (rule follow_complete [where enc = "encode_key cd (filter_hash cd status tag)"])
  show "distinct (map session_key (sessions db))" using assms(1) by (simp add: store_ok_def session_keys_distinct)
  show "list_sessions cd status tag limit (map_option (encode_key cd (filter_hash cd status tag)) after) db =
     Inr (fst (page session_key (\<lambda>r. (case status of None \<Rightarrow> True | Some s \<Rightarrow> s_status r = s)
            \<and> (case tag of None \<Rightarrow> True | Some t \<Rightarrow> t \<in> set (s_tags r))) limit after (sessions db)), map_option (encode_key cd (filter_hash cd status tag)) (snd (page session_key (\<lambda>r. (case status of None \<Rightarrow> True | Some s \<Rightarrow> s_status r = s)
            \<and> (case tag of None \<Rightarrow> True | Some t \<Rightarrow> t \<in> set (s_tags r))) limit after (sessions db))))"
    if "\<forall>k. after = Some k \<longrightarrow> k \<in> session_key ` set (sessions db)" for after
    using cursor_page_at [OF assms(3)] that by (simp add: list_sessions_def session_keys_def split: prod.splits)
qed (rule assms)

definition demo_store :: store where
  "demo_store = snd (create_session ''b'' [] None ''inprocess'' [''t''] 7 (Some ''ann'') None None
     (snd (create_session ''a'' [] None ''inprocess'' [] 7 None None None
        \<lparr>fk = True, sessions = [], frames = [], traces = [], hitl_requests = []\<rparr>)))"

definition demo_codec :: codec where
  "demo_codec = \<lparr>pack = (\<lambda>v. case v of PDict d \<Rightarrow> (case dget d ''id'' of PStr s \<Rightarrow> s | _ \<Rightarrow> []) | _ \<Rightarrow> []),
     unpack = (\<lambda>s. Some (PDict [(PStr ''ts'', PStr ''7''), (PStr ''id'', PStr s), (PStr ''fh'', PStr ''f'')])),
     iso = (\<lambda>_. ''7''), from_iso = (\<lambda>_. Some 7), sha = (\<lambda>_. ''f''), show_val = (\<lambda>_. [])\<rparr>"

lemma session_listing_complete_witness:
  "\<exists>pages. follow_pages 3 (\<lambda>a. list_sessions demo_codec None None 1 a demo_store) None = Some (Inr pages)
     \<and> map s_id (concat pages) = [''b'', ''a'']"
proof -
  have ok: "store_ok demo_store" by (simp add: store_ok_def demo_store_def create_session_def)
  have cd: "codec_ok demo_codec (filter_hash demo_codec None None) demo_store"
    by (simp add: codec_ok_def demo_store_def create_session_def demo_codec_def cursor_obj_def filter_hash_def)
  have n: "Suc (length (sessions demo_store)) = 3" by (simp add: demo_store_def create_session_def)
  have "map s_id (ordered_desc session_key (sessions demo_store)) = [''b'', ''a'']" by code_simp
  with session_listing_complete [OF ok zero_less_one cd] n show ?thesis by auto
qed

section \<open>Races and start-up\<close>

text \<open>
  C4: any number of version-checked decisions race for a HITL request: of two writes against
  the version both of them read, in any history of such writes, the later one fails when the
  earlier one succeeded, so a request has at most one winning decision per version.
\<close>

theorem hitl_decision_single_winner:
  assumes "store_ok db" and "i < j" and "j < length ws" and "ws ! i = (rid, w1, v)" and "ws ! j = (rid, w2, v)"
    and "\<not> isl (fst (hitl_cas.run_writes ws db) ! i)"
  shows "isl (fst (hitl_cas.run_writes ws db) ! j)"
  using hitl_cas.at_most_one_winner [OF assms(1) _ assms(2-6)] by simp

definition demo_decision :: "string \<Rightarrow> hitl_write" where
  "demo_decision s = \<lparr>w_tool = ''Bash'', w_args = [], w_status = s, w_resolved_at = Some 1, w_reason = None, w_resolver = None\<rparr>"

definition demo_hitl :: store where
  "demo_hitl = snd (upsert_hitl ''r'' ''a'' (demo_decision ''pending'') 0 None demo_store)"

lemma hitl_decision_single_winner_witness:
  "isl (fst (hitl_cas.run_writes [(''r'', demo_decision ''accept'', 0), (''r'', demo_decision ''deny'', 0)] demo_hitl) ! 1)"
proof -
  let ?ws = "[(''r'', demo_decision ''accept'', 0), (''r'', demo_decision ''deny'', 0)]"
  have ok: "store_ok demo_hitl"
    by (simp add: store_ok_def demo_hitl_def demo_store_def create_session_def upsert_hitl_def)
  have v: "get_hitl_version ''r'' demo_hitl = Some 0" by code_simp
  have "fst (checked_hitl ''r'' (demo_decision ''accept'') 0 demo_hitl) = Inr (Suc 0)"
    using hitl_cas.write_result [OF ok TrueI, of "''r''" "demo_decision ''accept''" 0] v by simp
  then have "\<not> isl (fst (hitl_cas.run_writes ?ws demo_hitl) ! 0)"
    by (cases "checked_hitl ''r'' (demo_decision ''accept'') 0 demo_hitl") (auto simp: Let_def split: prod.splits)
  then show ?thesis
    using hitl_decision_single_winner [OF ok, of 0 1 ?ws "''r''" "demo_decision ''accept''" 0 "demo_decision ''deny''"]
    by simp
qed

lemma update_where_filter_other:
  assumes "\<And>r. P r \<Longrightarrow> \<not> Q (f r)" and "\<And>r. P r \<Longrightarrow> \<not> Q r"
  shows "filter Q (update_where P f rows) = filter Q rows"
  using assms by (induction rows) (auto simp: update_where_def)

text \<open>
  the two start-up sweeps leave no session that looks alive but has no process: afterwards
  no row is \<open>running\<close>, no row queued before the cutoff is \<open>queued\<close>, all other rows are
  untouched, and running the sweeps again finds nothing. The versions of the swept rows do not
  move, so a stale version-checked write still succeeds against them.
\<close>

lemma startup_sweeps:
  assumes "mark_in_flight_as_interrupted now db = (ids1, db1)" and "mark_queued_as_interrupted now cutoff db1 = (ids2, db2)"
  shows "(\<forall>r \<in> set (sessions db2). s_status r \<noteq> ''running'' \<and> \<not> (s_status r = ''queued'' \<and> s_submitted_at r < cutoff))
     \<and> filter (\<lambda>r. s_status r \<noteq> ''running'' \<and> s_status r \<noteq> ''interrupted'' \<and> \<not> (s_status r = ''queued'' \<and> s_submitted_at r < cutoff)) (sessions db2)
       = filter (\<lambda>r. s_status r \<noteq> ''running'' \<and> s_status r \<noteq> ''interrupted'' \<and> \<not> (s_status r = ''queued'' \<and> s_submitted_at r < cutoff)) (sessions db)
     \<and> fst (mark_in_flight_as_interrupted now' db2) = [] \<and> fst (mark_queued_as_interrupted now' cutoff db2) = []
     \<and> map s_version (sessions db2) = map s_version (sessions db)"
proof -
  have db1: "sessions db1 = update_where (\<lambda>r. s_status r = ''running'') (interrupt_row now ''interrupted_on_startup'') (sessions db)"
    using assms(1) by (auto simp: mark_in_flight_as_interrupted_def)
  let ?Q = "\<lambda>r. s_status r = ''queued'' \<and> s_submitted_at r < cutoff"
  have db2: "sessions db2 = update_where ?Q (interrupt_row now ''queued_interrupted_on_startup'') (sessions db1)"
    using assms(2) by (auto simp: mark_queued_as_interrupted_def Let_def)
  let ?alive = "\<lambda>r. s_status r \<noteq> ''running'' \<and> s_status r \<noteq> ''interrupted'' \<and> \<not> ?Q r"
  have clean: "\<forall>r \<in> set (sessions db2). s_status r \<noteq> ''running'' \<and> \<not> ?Q r"
    by (auto simp: db1 db2 update_where_def interrupt_row_def)
  have "filter ?alive (sessions db2) = filter ?alive (sessions db1)"
    unfolding db2 by (rule update_where_filter_other) (auto simp: interrupt_row_def)
  also have "\<dots> = filter ?alive (sessions db)"
    unfolding db1 by (rule update_where_filter_other) (auto simp: interrupt_row_def)
  finally have same: "filter ?alive (sessions db2) = filter ?alive (sessions db)" .
  have "map s_version (sessions db2) = map s_version (sessions db)"
    by (simp add: db1 db2 update_where_def interrupt_row_def)
  moreover have "fst (mark_in_flight_as_interrupted now' db2) = []" "fst (mark_queued_as_interrupted now' cutoff db2) = []"
    using clean by (auto simp: mark_in_flight_as_interrupted_def mark_queued_as_interrupted_def Let_def filter_empty_conv)
  ultimately show ?thesis using clean same by simp
qed

lemma startup_sweeps_witness:
  "fst (mark_queued_as_interrupted 10 8 (snd (mark_queued_as_interrupted 9 8 (snd (mark_in_flight_as_interrupted 9 demo_store))))) = []
   \<and> fst (mark_queued_as_interrupted 9 8 (snd (mark_in_flight_as_interrupted 9 demo_store))) = [''a'', ''b'']"
proof -
  obtain ids1 db1 where a: "mark_in_flight_as_interrupted 9 demo_store = (ids1, db1)"
    by (cases "mark_in_flight_as_interrupted 9 demo_store")
  obtain ids2 db2 where b: "mark_queued_as_interrupted 9 8 db1 = (ids2, db2)"
    by (cases "mark_queued_as_interrupted 9 8 db1")
  have "fst (mark_queued_as_interrupted 9 8 (snd (mark_in_flight_as_interrupted 9 demo_store))) = [''a'', ''b'']" by code_simp
  with startup_sweeps [OF a b, of 10] a b show ?thesis by simp
qed

text \<open>
  without foreign keys, that is on SQLite as the sources open it, deleting a session leaves
  its frames and HITL requests behind, and with the same id free again a new session inherits
  them. With foreign keys the delete takes them along.
\<close>

lemma delete_session_cascade:
  "list_frames sid limit offset (delete_session sid db) =
     (if fk db \<and> sid \<in> set (map s_id (sessions db)) then [] else list_frames sid limit offset db)
   \<and> list_pending_hitl (Some sid) (delete_session sid db) =
     (if fk db \<and> sid \<in> set (map s_id (sessions db)) then [] else list_pending_hitl (Some sid) db)
   \<and> get_session sid (delete_session sid db) = None"
proof -
  have f: "filter (\<lambda>r. fr_session r = sid) (filter (\<lambda>r. fr_session r \<noteq> sid) (frames db)) = []"
    by (simp add: filter_empty_conv)
  have h: "filter (\<lambda>r. h_status r = ''pending'' \<and> h_session r = sid) (filter (\<lambda>r. h_session r \<noteq> sid) (hitl_requests db)) = []"
    by (simp add: filter_empty_conv)
  have g: "find_row s_id sid (filter (\<lambda>r. s_id r \<noteq> sid) (sessions db)) = None"
    by (auto simp: find_row_None)
  show ?thesis
    using f h g
    by (simp add: list_frames_def list_pending_hitl_def get_session_def delete_session_def Let_def
             del: filter_filter)
qed

text \<open>
  no status update ever clears \<open>paused_at\<close>: a resumed session keeps the time of its last
  pause, whatever the update.
\<close>

lemma paused_at_never_cleared:
  assumes "store_ok db" and "get_session sid db = Some r" and "s_paused_at r = Some t"
    and "update_session_status k p expected db = (res, db')"
  shows "\<exists>r' t'. get_session sid db' = Some r' \<and> s_paused_at r' = Some t'"
  using assms
  by (auto simp: update_session_status_def get_session_def find_row_update apply_patch_def keep_or_def
           split: if_splits option.splits)

lemma paused_at_never_cleared_witness:
  "let paused = snd (update_session_status ''a'' (no_patch\<lparr>p_status := Some ''paused'', p_paused_at := Some 5\<rparr>) None demo_store);
       resumed = snd (update_session_status ''a'' (no_patch\<lparr>p_status := Some ''running''\<rparr>) (Some 1) paused)
   in \<exists>r t. get_session ''a'' resumed = Some r \<and> s_paused_at r = Some t"
proof -
  let ?paused = "snd (update_session_status ''a'' (no_patch\<lparr>p_status := Some ''paused'', p_paused_at := Some 5\<rparr>) None demo_store)"
  let ?up = "update_session_status ''a'' (no_patch\<lparr>p_status := Some ''running''\<rparr>) (Some 1) ?paused"
  have "map_option s_paused_at (get_session ''a'' ?paused) = Some (Some 5)" by code_simp
  then obtain r where r: "get_session ''a'' ?paused = Some r" "s_paused_at r = Some 5" by auto
  have "distinct (map s_id (sessions ?paused))" "distinct (map h_id (hitl_requests ?paused))" by code_simp+
  then have ok: "store_ok ?paused" by (simp add: store_ok_def)
  obtain res db' where u: "?up = (res, db')" by (cases ?up)
  from paused_at_never_cleared [OF ok r u] u show ?thesis by (simp add: Let_def)
qed

section \<open>Aggregates lose nothing\<close>

lemma sum_groups_aux:
  fixes f :: "'a \<Rightarrow> 'b::comm_monoid_add"
  assumes "distinct ks" and "g ` set xs \<subseteq> set ks"
  shows "sum_list (map (\<lambda>k. sum_list (map f (filter (\<lambda>x. g x = k) xs))) ks) = sum_list (map f xs)"
  using assms(2)
proof (induction xs)
  case Nil
  show ?case by (induction ks) auto
next
  case (Cons x xs)
  have one: "sum_list (map (\<lambda>k. if g x = k then f x else 0) ks) = f x"
    using assms(1) Cons.prems by (simp add: sum_list_distinct_conv_sum_set)
  have "sum_list (map (\<lambda>k. sum_list (map f (filter (\<lambda>y. g y = k) (x # xs)))) ks)
      = sum_list (map (\<lambda>k. (if g x = k then f x else 0) + sum_list (map f (filter (\<lambda>y. g y = k) xs))) ks)"
    by (rule arg_cong [of _ _ sum_list], rule map_cong) auto
  also have "\<dots> = f x + sum_list (map f xs)"
    using one Cons by (simp add: sum_list_addf)
  finally show ?case by simp
qed

lemma sum_groups:
  fixes f :: "'a \<Rightarrow> 'b::comm_monoid_add"
  shows "sum_list (map (\<lambda>k. sum_list (map f (filter (\<lambda>x. g x = k) xs))) (remdups (map g xs))) = sum_list (map f xs)"
  by (rule sum_groups_aux) auto

lemma sum_list_perm:
  fixes f :: "'a \<Rightarrow> 'b::comm_monoid_add"
  assumes "distinct xs" and "distinct ys" and "set xs = set ys"
  shows "sum_list (map f xs) = sum_list (map f ys)"
  using assms by (simp add: sum_list_distinct_conv_sum_set)

lemma sum_list_rev_map: "sum_list (map f (rev xs)) = sum_list (map (f :: 'a \<Rightarrow> 'b::comm_monoid_add) xs)"
  by (induction xs) (auto simp: add.commute)

lemma sum_list_sort_map:
  fixes f :: "'a \<Rightarrow> 'b::comm_monoid_add"
  shows "sum_list (map f (sort_key k xs)) = sum_list (map f xs)"
proof -
  have ins: "sum_list (map f (insort_key k x ys)) = f x + sum_list (map f ys)" for x ys
    by (induction ys) (auto simp: ac_simps)
  show ?thesis by (induction xs) (auto simp: ins)
qed

lemma owner_groups_total:
  "sum_list (map (\<lambda>(_, _, c). c) (owner_groups from_ts to_ts db)) =
     sum_list (map s_cost (filter (in_window from_ts to_ts) (sessions db)))
   \<and> sum_list (map (\<lambda>(_, n, _). n) (owner_groups from_ts to_ts db)) =
     length (filter (in_window from_ts to_ts) (sessions db))"
proof -
  let ?rs = "filter (in_window from_ts to_ts) (sessions db)"
  have "length (filter (\<lambda>r. s_owner r = w) ?rs) = sum_list (map (\<lambda>_. 1) (filter (\<lambda>r. s_owner r = w) ?rs))" for w
    by (simp add: sum_list_triv)
  then show ?thesis
    using sum_groups [of s_cost s_owner ?rs] sum_groups [of "\<lambda>_. 1 :: nat" s_owner ?rs]
    by (simp add: owner_groups_def Let_def comp_def sum_list_triv)
qed

text \<open>
  cost attribution is conservative. Whatever the ordering, an owner report whose limit
  covers all owners adds up to the cost and the number of the sessions submitted in the window,
  with each session counted under exactly one owner.
\<close>

lemma cost_report_conserves:
  assumes "length (owner_groups from_ts to_ts db) \<le> limit"
  shows "sum_list (map (\<lambda>(_, _, c). c) (aggregate_cost_by_owner from_ts to_ts limit order db)) =
      sum_list (map s_cost (filter (in_window from_ts to_ts) (sessions db)))
    \<and> sum_list (map (\<lambda>(_, n, _). n) (aggregate_cost_by_owner from_ts to_ts limit order db)) =
      length (filter (in_window from_ts to_ts) (sessions db))"
  using assms owner_groups_total [of from_ts to_ts db]
  by (cases order) (simp_all add: aggregate_cost_by_owner_def sum_list_rev_map sum_list_sort_map)

lemma cost_report_conserves_witness:
  "sum_list (map (\<lambda>(_, n, _). n) (aggregate_cost_by_owner None None 50 ByCost demo_store)) = 2"
proof -
  have "length (owner_groups None None demo_store) \<le> 50" by code_simp
  moreover have "length (filter (in_window None None) (sessions demo_store)) = 2" by code_simp
  ultimately show ?thesis using cost_report_conserves [of None None demo_store 50 ByCost] by simp
qed

end
