(* ===== verification/Sse_Stream.thy ===== *)
theory Sse_Stream
  imports Durable_Store Session_Store
begin

text \<open>
  The Server-Sent-Events endpoint of \<open>api/sse.py\<close>: the two readings of \<open>Last-Event-ID\<close>, the
  rendering of events, and the generator \<open>_stream\<close> with its three phases (durable replay, frame
  back-fill, live tail). A rendered chunk carries the JSON value of its \<open>data\<close> text. \<open>str\<close> of a
  value that is not text and the text of a time stamp are arguments (\<open>show\<close>, \<open>show_ts\<close>), as is
  the text of a float (\<open>fr\<close>).
\<close>

section \<open>Cursors\<close>

definition parse_last_event_id :: "string option \<Rightarrow> int option" where
  "parse_last_event_id header = (case header of
     None \<Rightarrow> None
   | Some h \<Rightarrow>
       if h = [] then None
       else (let v = str_strip h;
                 w = (if starts_with ''seq:'' v then drop 4 v else v)
             in case int_of_str w of Inl _ \<Rightarrow> None | Inr n \<Rightarrow> Some n))"

definition parse_durable_last_event_id :: "string option \<Rightarrow> int option" where
  "parse_durable_last_event_id header = (case header of
     None \<Rightarrow> None
   | Some h \<Rightarrow>
       if h = [] then None
       else (let v = str_strip h in
             if starts_with ''seq:'' v then None
             else if CHR '':'' \<notin> set v then None
             else case int_of_str (takeWhile (\<lambda>c. c \<noteq> CHR '':'') v) of Inl _ \<Rightarrow> None | Inr n \<Rightarrow> Some n))"

section \<open>Rendering\<close>

record sse =
  sse_id :: "string option"
  sse_event :: string
  sse_data :: pyval

datatype out_event = Replayed replayed | LiveEvent relay_event | FrameDict pydict

definition frame_cursor :: "pyval \<Rightarrow> string option" where
  "frame_cursor v = (case v of
     PInt n \<Rightarrow> Some (''seq:'' @ str_int n)
   | PBool b \<Rightarrow> Some (''seq:'' @ (if b then ''True'' else ''False''))
   | _ \<Rightarrow> None)"

fun event_to_sse :: "(pyfloat \<Rightarrow> string) \<Rightarrow> (int \<Rightarrow> string) \<Rightarrow> (pyval \<Rightarrow> string) \<Rightarrow> out_event \<Rightarrow> py_exn + sse" where
  "event_to_sse fr show_ts show (Replayed e) =
     map_sum id (\<lambda>d. \<lparr>sse_id = Some (str_nat (rep_seq e) @ '':'' @ rep_event_id e),
                      sse_event = (if type_name e = [] then ''RelayEvent'' else type_name e), sse_data = d\<rparr>)
       (json_norm fr (PDict (rep_payload e)))"
| "event_to_sse fr show_ts show (LiveEvent ev) =
     map_sum id (\<lambda>d. \<lparr>sse_id = Some (event_id ev), sse_event = class_name (body ev), sse_data = d\<rparr>)
       (json_norm fr (PDict ((PStr ''event_id'', PStr (event_id ev))
          # (PStr ''occurred_at'', PStr (show_ts (occurred_at ev))) # event_payload ev)))"
| "event_to_sse fr show_ts show (FrameDict d) =
     (let t = dget_default d ''type'' (PStr ''frame'');
          ftype = (case t of PStr s \<Rightarrow> s | v \<Rightarrow> show v)
      in map_sum id (\<lambda>v. \<lparr>sse_id = frame_cursor (dget d ''seq''), sse_event = ''frame.'' @ ftype, sse_data = v\<rparr>)
           (json_norm fr (PDict d)))"

section \<open>The generator\<close>

definition replay_selects :: "string \<Rightarrow> replayed \<Rightarrow> bool" where
  "replay_selects sid e \<longleftrightarrow> \<not> (rep_session_id e \<noteq> [] \<and> rep_session_id e \<noteq> sid)"

definition dict_setdefault :: "string \<Rightarrow> pyval \<Rightarrow> pydict \<Rightarrow> pydict" where
  "dict_setdefault k v d = (if map_of d (PStr k) = None then d @ [(PStr k, v)] else d)"

definition backfill_frame :: "string \<Rightarrow> frame_row \<Rightarrow> py_exn + pydict" where
  "backfill_frame sid row =
     map_sum id (\<lambda>d. dict_put (PStr ''session_id'') (PStr sid)
                       (dict_setdefault ''seq'' (PInt (fr_seq row))
                         (dict_setdefault ''type'' (PStr (fr_type row)) d)))
       (py_dict (py_or (fr_payload row) (PDict [])))"

definition live_selects :: "string \<Rightarrow> bus_item \<Rightarrow> out_event option" where
  "live_selects sid x = (case x of
     Typed ev \<Rightarrow> if event_session (body ev) = sid then Some (LiveEvent ev) else None
   | Legacy (PDict d) \<Rightarrow> if dget d ''session_id'' = PStr sid then Some (FrameDict d) else None
   | Legacy _ \<Rightarrow> None)"

text \<open>A generator ends at the first exception.\<close>

fun until_raise :: "('e + 'a) list \<Rightarrow> 'a list \<times> 'e option" where
  "until_raise [] = ([], None)"
| "until_raise (Inl e # _) = ([], Some e)"
| "until_raise (Inr x # xs) = (let (ys, r) = until_raise xs in (x # ys, r))"

definition FRAME_BACKFILL :: nat where
  "FRAME_BACKFILL = 1000"

definition replay_phase ::
    "(pyfloat \<Rightarrow> string) \<Rightarrow> (int \<Rightarrow> string) \<Rightarrow> (pyval \<Rightarrow> string) \<Rightarrow> string \<Rightarrow> string option
     \<Rightarrow> (int \<Rightarrow> replayed list) \<Rightarrow> (py_exn + sse) list" where
  "replay_phase fr show_ts show sid header replay = (case parse_durable_last_event_id header of
     None \<Rightarrow> []
   | Some n \<Rightarrow> map (\<lambda>e. event_to_sse fr show_ts show (Replayed e)) (filter (replay_selects sid) (replay n)))"

definition backfill_phase ::
    "(pyfloat \<Rightarrow> string) \<Rightarrow> (int \<Rightarrow> string) \<Rightarrow> (pyval \<Rightarrow> string) \<Rightarrow> string \<Rightarrow> string option
     \<Rightarrow> store \<Rightarrow> (py_exn + sse) list" where
  "backfill_phase fr show_ts show sid header db = (case parse_last_event_id header of
     None \<Rightarrow> []
   | Some n \<Rightarrow>
       map (\<lambda>row. case backfill_frame sid row of
                    Inl e \<Rightarrow> Inl e
                  | Inr d \<Rightarrow> event_to_sse fr show_ts show (FrameDict d))
         (filter (\<lambda>row. \<not> fr_seq row \<le> n) (list_frames sid FRAME_BACKFILL 0 db)))"

definition live_phase ::
    "(pyfloat \<Rightarrow> string) \<Rightarrow> (int \<Rightarrow> string) \<Rightarrow> (pyval \<Rightarrow> string) \<Rightarrow> string \<Rightarrow> bus_item list \<Rightarrow> (py_exn + sse) list" where
  "live_phase fr show_ts show sid xs = map (event_to_sse fr show_ts show) (List.map_filter (live_selects sid) xs)"

text \<open>
  What the client receives when the live iterator delivers \<open>xs\<close>: \<open>replay n\<close> is
  \<open>bus.replay_after(last_seq=n)\<close>, \<open>db\<close> the store whose first 1000 frames are back-filled.
\<close>

definition sse_stream ::
    "(pyfloat \<Rightarrow> string) \<Rightarrow> (int \<Rightarrow> string) \<Rightarrow> (pyval \<Rightarrow> string) \<Rightarrow> string \<Rightarrow> string option
     \<Rightarrow> (int \<Rightarrow> replayed list) \<Rightarrow> store \<Rightarrow> bus_item list \<Rightarrow> sse list \<times> py_exn option" where
  "sse_stream fr show_ts show sid header replay db xs =
     until_raise (replay_phase fr show_ts show sid header replay
       @ backfill_phase fr show_ts show sid header db
       @ live_phase fr show_ts show sid xs)"

section \<open>The subscription of a stream\<close>

text \<open>
  The generator subscribes before it back-fills and closes the iterator when the client goes
  away. Closing an async generator runs its \<open>finally\<close> block only if it has been started, that
  is, once the live phase has asked it for an item.
\<close>

datatype phase = Replaying | Backfilling | Live

definition open_stream :: "'s bus \<Rightarrow> nat \<times> 's bus" where
  "open_stream b = subscribe WILDCARD 1024 b"

definition close_stream :: "phase \<Rightarrow> nat \<Rightarrow> 's bus \<Rightarrow> 's bus" where
  "close_stream p i b = (if p = Live then unsubscribe WILDCARD i b else b)"

section \<open>Reading the cursors back\<close>

lemma strip_underscores_chars: "strip_underscores s = Some ds \<Longrightarrow> c \<in> set s \<Longrightarrow> is_digit c \<or> c = CHR ''_''"
  by (induction s arbitrary: ds rule: strip_underscores.induct) (auto split: if_splits)

lemma int_of_digits_reject: "c \<in> set s \<Longrightarrow> \<not> is_digit c \<Longrightarrow> c \<noteq> CHR ''_'' \<Longrightarrow> \<exists>e. int_of_digits s = Inl e"
  by (cases "strip_underscores s") (auto simp: int_of_digits_def dest: strip_underscores_chars)

lemma dropWhile_keeps: "x \<in> set xs \<Longrightarrow> \<not> P x \<Longrightarrow> x \<in> set (dropWhile P xs)"
  by (induction xs) auto

lemma str_strip_keeps: "x \<in> set s \<Longrightarrow> \<not> is_space x \<Longrightarrow> x \<in> set (str_strip s)"
  by (simp add: str_strip_def dropWhile_keeps)

lemma str_strip_clean:
  assumes "s \<noteq> []" and "\<not> is_space (hd s)" and "\<not> is_space (last s)"
  shows "str_strip s = s"
proof -
  have "dropWhile is_space s = s" using assms by (cases s) auto
  moreover have "dropWhile is_space (rev s) = rev s"
    using assms by (cases "rev s") (auto simp: rev_eq_Cons_iff)
  ultimately show ?thesis by (simp add: str_strip_def)
qed

lemma int_of_str_reject:
  assumes "c \<in> set s" and "\<not> is_digit c" and "c \<notin> {CHR ''_'', CHR ''-'', CHR ''+''}" and "\<not> is_space c"
  shows "\<exists>e. int_of_str s = Inl e"
proof -
  obtain d ds where v: "str_strip s = d # ds"
    using str_strip_keeps [OF assms(1,4)] by (cases "str_strip s") auto
  have "c \<in> set (d # ds)" using str_strip_keeps [OF assms(1,4)] v by simp
  then show ?thesis
    using assms int_of_digits_reject [of c ds] int_of_digits_reject [of c "d # ds"] v
    by (cases "d = CHR ''-'' \<or> d = CHR ''+''") (auto simp: int_of_str_def)
qed

lemma colon_chars: "\<not> is_digit (CHR '':'')" "\<not> is_space (CHR '':'')"
  by (simp_all add: is_digit_def is_space_def)

lemma cursors_exclusive:
  "parse_durable_last_event_id h = Some n \<Longrightarrow> parse_last_event_id h = None"
proof -
  assume d: "parse_durable_last_event_id h = Some n"
  then obtain s where h: "h = Some s" "s \<noteq> []" "\<not> starts_with ''seq:'' (str_strip s)" "CHR '':'' \<in> set (str_strip s)"
    by (auto simp: parse_durable_last_event_id_def Let_def split: option.splits if_splits)
  obtain e where "int_of_str (str_strip s) = Inl e"
    using int_of_str_reject [OF h(4)] colon_chars by auto
  with h show ?thesis by (simp add: parse_last_event_id_def Let_def)
qed

text \<open>Event ids as they are printed: no white space, no colon, and a dash after the first character.\<close>

definition uuid_text :: "string \<Rightarrow> bool" where
  "uuid_text s \<longleftrightarrow> s \<noteq> [] \<and> (\<forall>c \<in> set s. \<not> is_space c \<and> c \<noteq> CHR '':'') \<and> CHR ''-'' \<in> set (tl s)
     \<and> hd s \<noteq> CHR ''s''"

lemma takeWhile_before: "x \<notin> set xs \<Longrightarrow> takeWhile (\<lambda>c. c \<noteq> x) (xs @ x # ys) = xs"
  by (induction xs) auto

lemma durable_cursor_parses:
  assumes "uuid_text eid" and "length (str_nat n) \<le> 4300"
  shows "parse_durable_last_event_id (Some (str_nat n @ '':'' @ eid)) = Some (int n)"
proof -
  let ?s = "str_nat n @ '':'' @ eid"
  obtain c cs where n: "str_nat n = c # cs" by (cases "str_nat n") auto
  have dig: "\<forall>d \<in> set (str_nat n). is_digit d" by (rule str_nat_digits)
  then have c: "is_digit c" using n by simp
  have "last ?s \<in> set eid" using assms(1) by (simp add: uuid_text_def)
  then have "\<not> is_space (last ?s)" using assms(1) by (simp add: uuid_text_def)
  then have strip: "str_strip ?s = ?s" using c n by (intro str_strip_clean) (auto dest: digit_not_space)
  have "c \<noteq> CHR ''s''" using c by (auto simp: is_digit_def)
  then have "\<not> starts_with ''seq:'' ?s" using n by (simp add: starts_with_def)
  moreover have "CHR '':'' \<notin> set (str_nat n)" using dig colon_chars by auto
  then have "takeWhile (\<lambda>d. d \<noteq> CHR '':'') ?s = str_nat n"
    using takeWhile_before [of "CHR '':''" "str_nat n" eid] by simp
  ultimately show ?thesis
    using strip int_of_str_str_nat [OF assms(2)] by (simp add: parse_durable_last_event_id_def Let_def)
qed


definition demo_uuid :: string where
  "demo_uuid = ''6fa459ea-ee8a''"

definition demo_replayed :: "nat \<Rightarrow> string \<Rightarrow> replayed" where
  "demo_replayed n sid =
     \<lparr>rep_event_id = demo_uuid, rep_occurred_at = 0, rep_tier = ''durable'', type_name = ''SessionCreated'',
      rep_session_id = sid, rep_payload = [(PStr ''tags'', PTuple [])], rep_seq = n\<rparr>"


text \<open>
  a client whose last chunk was a live event gets nothing replayed when it reconnects,
  although a durable event is in the store before it reaches any stream: the id of a live
  chunk is the bare event id, which neither cursor reader accepts.
\<close>

lemma live_cursor_replays_nothing:
  assumes "event_to_sse fr show_ts show (LiveEvent ev) = Inr chunk" and "uuid_text (event_id ev)"
  shows "replay_phase fr show_ts show sid (sse_id chunk) replay = []
     \<and> backfill_phase fr show_ts show sid (sse_id chunk) rows = []"
proof -
  obtain c cs where s: "event_id ev = c # cs" using assms(2) by (cases "event_id ev") (auto simp: uuid_text_def)
  have u: "\<forall>d \<in> set (c # cs). \<not> is_space d \<and> d \<noteq> CHR '':''" "CHR ''-'' \<in> set cs" "c \<noteq> CHR ''s''"
    using assms(2) s by (simp_all add: uuid_text_def)
  have i: "sse_id chunk = Some (c # cs)" using assms(1) s
    by (cases "json_norm fr (PDict ((PStr ''event_id'', PStr (event_id ev))
          # (PStr ''occurred_at'', PStr (show_ts (occurred_at ev))) # event_payload ev))") auto
  have strip: "str_strip (c # cs) = c # cs"
  proof (rule str_strip_clean)
    show "\<not> is_space (last (c # cs))" using u(1) last_in_set [of "c # cs"] by blast
  qed (use u in auto)
  have nd: "\<not> is_digit CHR ''-''" by (simp add: is_digit_def)
  have "\<exists>e. int_of_str (c # cs) = Inl e"
    using int_of_digits_reject [OF u(2) nd] int_of_digits_reject [of "CHR ''-''" "c # cs"] nd u(2) strip
    by (auto simp: int_of_str_def)
  moreover have "\<not> starts_with ''seq:'' (c # cs)" using u(3) by (simp add: starts_with_def)
  moreover have "CHR '':'' \<notin> set (c # cs)" using u(1) by blast
  ultimately have "parse_last_event_id (Some (c # cs)) = None" "parse_durable_last_event_id (Some (c # cs)) = None"
    using strip by (auto simp: parse_last_event_id_def parse_durable_last_event_id_def Let_def)
  then show ?thesis by (simp add: replay_phase_def backfill_phase_def i)
qed

lemma live_cursor_replays_nothing_witness:
  "replay_phase demo_repr (\<lambda>_. ''t'') (\<lambda>_. ''v'') ''s1'' (Some demo_uuid) (\<lambda>_. [demo_replayed 9 ''s1'']) = []"
proof -
  let ?ev = "demo_event demo_uuid"
  obtain c where c: "event_to_sse demo_repr (\<lambda>_. ''t'') (\<lambda>_. ''v'') (LiveEvent ?ev) = Inr c" "sse_id c = Some demo_uuid"
    by (simp add: demo_event_def new_event_def event_payload_def)
  have "uuid_text (event_id ?ev)"
    by (simp add: demo_event_def new_event_def demo_uuid_def uuid_text_def is_space_def)
  from live_cursor_replays_nothing [OF c(1) this, of "''s1''" "\<lambda>_. [demo_replayed 9 ''s1'']"] c(2) show ?thesis by simp
qed

section \<open>Isolation and clean-up\<close>

text \<open>
  events that belong to no session (a key rotation) appear in the durable replay of every
  session, while the live tail of a session never shows them.
\<close>

lemma replay_shows_unscoped_events:
  "(live_selects sid (Typed (new_event eid now (KeyInvalidated [] users))) = None \<longleftrightarrow> sid \<noteq> [])
   \<and> replay_selects sid (row_to_replayed u (make_row (new_event eid now (KeyInvalidated [] users)) payload n))"
  by (auto simp: live_selects_def new_event_def replay_selects_def row_to_replayed_def make_row_def Let_def)

text \<open>
  a client that disconnects during the replay or the back-fill leaves its subscription
  behind: the closed stream is still registered, so later events keep filling its buffer. Only
  a stream that reached the live phase is removed.
\<close>

lemma early_disconnect_leaks_subscription:
  assumes "bus_inv b" and "open_stream b = (i, b1)"
  shows "(p \<noteq> Live \<longrightarrow> i \<in> set (registered (close_stream p i b1)))
     \<and> (p = Live \<longrightarrow> i \<notin> set (registered (close_stream p i b1)))"
proof -
  let ?b = "snd (subscribe WILDCARD 1024 b)"
  have b1: "b1 = ?b" "i = next_id b" using assms(2) by (auto simp: open_stream_def subscribe_def Let_def)
  have m: "mset (registered ?b) = add_mset (next_id b) (mset (registered b))"
    using assms(1) by (simp add: registered_subscribe bus_inv_def)
  then have mem: "i \<in> set (registered b1)" using b1 by (metis set_mset_mset union_single_eq_member)
  have wf: "od_wf (subs b1)" using bus_inv_subscribe [OF assms(1)] b1 by (simp add: bus_inv_def)
  have l: "map_of (subs b1) WILDCARD = Some (topic_ids b WILDCARD @ [i])"
    by (simp add: b1 subscribe_def Let_def od_simps)
  have "i \<notin> set (registered (unsubscribe WILDCARD i b1))"
  proof -
    let ?l = "topic_ids b WILDCARD @ [i]"
    have u: "mset (registered (unsubscribe WILDCARD i b1)) + mset ?l = mset (registered b1) + mset (remove1 i ?l)"
      using registered_update [OF wf l, of "remove1 i ?l"] l by (simp add: unsubscribe_def registered_def)
    have d: "distinct (registered b1)" using bus_inv_subscribe [OF assms(1)] b1 by (simp add: bus_inv_def)
    have "count (mset (registered b1)) i = 1" using d mem by (simp add: distinct_count_atmost_1)
    moreover have "count (mset ?l) i = Suc (count (mset (remove1 i ?l)) i)" by simp
    ultimately have "count (mset (registered (unsubscribe WILDCARD i b1))) i = 0"
      using arg_cong [OF u, of "\<lambda>M. count M i"] by simp
    then show ?thesis by (simp add: count_mset_0_iff)
  qed
  with mem show ?thesis by (auto simp: close_stream_def)
qed

lemma early_disconnect_leaks_subscription_witness:
  "0 \<in> set (registered (close_stream Replaying 0 (snd (open_stream (init_bus 1 None False :: unit bus)))))"
proof -
  have "open_stream (init_bus 1 None False :: unit bus) = (0, snd (open_stream (init_bus 1 None False)))"
    by (simp add: open_stream_def subscribe_def init_bus_def Let_def)
  from early_disconnect_leaks_subscription [OF bus_inv_init this, of Replaying] show ?thesis by simp
qed

end
