(* ===== verification/Rate_Limit.thy ===== *)
theory Rate_Limit
  imports Relay_Prelude
begin

text \<open>
  The token-bucket limiters: the in-process one of \<open>api/middleware/rate_limit.py\<close> with its LRU
  cap and sweep, the Redis one of \<open>cluster/redis_rate_limit.py\<close> with its script, and the
  middleware in front of them. Both implement one abstract bucket per key, stated as a locale,
  so a deployment may switch between them. Floats are exact; times are seconds for the
  in-process limiter (a monotonic clock) and milliseconds for the script. The asyncio lock of a
  key is never contended, because nothing is awaited while it is held, so \<open>acquire\<close> is atomic.
\<close>

section \<open>The in-process limiter\<close>

record tbucket =
  tokens :: rat
  last_refill :: rat

record limiter =
  buckets :: "(string, tbucket) od"
  locks :: "(string, unit) od"
  refill_rate :: rat
  burst :: rat
  lru_cap :: nat
  ttl :: rat

definition new_limiter :: "int \<Rightarrow> int \<Rightarrow> nat \<Rightarrow> int \<Rightarrow> limiter" where
  "new_limiter rate_per_min brst cap ttl_s =
     \<lparr>buckets = [], locks = [], refill_rate = of_int rate_per_min / 60, burst = of_int brst, lru_cap = cap, ttl = of_int ttl_s\<rparr>"

definition sweep_once :: "rat \<Rightarrow> limiter \<Rightarrow> limiter" where
  "sweep_once now l =
     (let stale = map fst (filter (\<lambda>(k, b). now - last_refill b > ttl l) (buckets l))
      in l\<lparr>buckets := foldl (\<lambda>d k. AList.delete k d) (buckets l) stale, locks := foldl (\<lambda>d k. AList.delete k d) (locks l) stale\<rparr>)"

text \<open>\<open>popitem(last=False)\<close> on an empty dictionary raises \<open>KeyError\<close>.\<close>

definition evict_lru :: "limiter \<Rightarrow> py_exn + limiter" where
  "evict_lru l =
     (if length (buckets l) \<ge> lru_cap l
      then (case buckets l of
              [] \<Rightarrow> Inl KeyError
            | (k, _) # d \<Rightarrow> Inr (l\<lparr>buckets := d, locks := AList.delete k (locks l)\<rparr>))
      else Inr l)"

definition refill :: "rat \<Rightarrow> rat \<Rightarrow> rat \<Rightarrow> tbucket \<Rightarrow> tbucket" where
  "refill brst rate now b = \<lparr>tokens = min brst (tokens b + (now - last_refill b) * rate), last_refill = now\<rparr>"

definition spend :: "rat \<Rightarrow> tbucket \<Rightarrow> (py_exn + (bool \<times> rat)) \<times> tbucket" where
  "spend rate b =
     (if tokens b \<ge> 1 then (Inr (True, 0), b\<lparr>tokens := tokens b - 1\<rparr>)
      else (if rate = 0 then Inl ZeroDivisionError else Inr (False, (1 - tokens b) / rate), b))"

definition acquire_bucket :: "string \<Rightarrow> rat \<Rightarrow> limiter \<Rightarrow> (py_exn + (bool \<times> rat)) \<times> limiter" where
  "acquire_bucket key now l =
     (let b = (case map_of (buckets l) key of None \<Rightarrow> \<lparr>tokens = burst l, last_refill = now\<rparr> | Some b \<Rightarrow> b);
          (r, b') = spend (refill_rate l) (refill (burst l) (refill_rate l) now b)
      in (r, l\<lparr>buckets := AList.update key b' (od_move_to_end key (buckets l))\<rparr>))"

definition acquire :: "string \<Rightarrow> rat \<Rightarrow> limiter \<Rightarrow> (py_exn + (bool \<times> rat)) \<times> limiter" where
  "acquire key now l =
     (case (if key \<in> set (od_keys (locks l)) then Inr l
            else map_sum id (\<lambda>l1. l1\<lparr>locks := AList.update key () (locks l1)\<rparr>) (evict_lru l)) of
        Inl e \<Rightarrow> (Inl e, l)
      | Inr l1 \<Rightarrow> acquire_bucket key now (l1\<lparr>locks := od_move_to_end key (locks l1)\<rparr>))"

section \<open>The Redis limiter\<close>

text \<open>
  The hash of a key (tokens and time of the last refill in milliseconds) with the time at which
  Redis drops it. \<open>HMGET\<close> on a dropped key returns nothing; \<open>EXPIRE\<close> sets the deadline anew.
\<close>

record redis_hash =
  r_tokens :: rat
  r_last :: int
  r_expires :: int

record redis_limiter =
  hashes :: "(string, redis_hash) od"
  r_rate :: rat
  r_burst :: rat
  r_ttl :: int
  r_prefix :: string
  r_inf :: int

definition redis_get :: "string \<Rightarrow> int \<Rightarrow> redis_limiter \<Rightarrow> redis_hash option" where
  "redis_get key now s = (case map_of (hashes s) key of
     None \<Rightarrow> None
   | Some h \<Rightarrow> if now \<ge> r_expires h then None else Some h)"

text \<open>
  The script. A division by a zero rate gives infinity in Lua; \<open>r_inf\<close> is the integer that Redis
  makes of it.
\<close>

definition lua_acquire :: "string \<Rightarrow> int \<Rightarrow> redis_limiter \<Rightarrow> (bool \<times> int) \<times> redis_limiter" where
  "lua_acquire key now s =
     (let (tk, lst) = (case redis_get key now s of None \<Rightarrow> (r_burst s, now) | Some h \<Rightarrow> (r_tokens h, r_last h));
          tk1 = min (r_burst s) (tk + (of_int (now - lst) / 1000) * r_rate s);
          (allowed, retry, tk2) = (if tk1 \<ge> 1 then (True, 0, tk1 - 1)
                                   else (False, if r_rate s = 0 then r_inf s else \<lceil>((1 - tk1) / r_rate s) * 1000\<rceil>, tk1))
      in ((allowed, retry), s\<lparr>hashes := AList.update key \<lparr>r_tokens = tk2, r_last = now, r_expires = now + r_ttl s * 1000\<rparr> (hashes s)\<rparr>))"

text \<open>\<open>acquire\<close> of the store: when Redis cannot be reached the request is let through.\<close>

definition redis_acquire :: "bool \<Rightarrow> string \<Rightarrow> int \<Rightarrow> redis_limiter \<Rightarrow> (bool \<times> rat) \<times> redis_limiter" where
  "redis_acquire reachable key now s =
     (if \<not> reachable then ((True, 0), s)
      else (case lua_acquire (r_prefix s @ '':'' @ key) now s of
              ((allowed, ms), s') \<Rightarrow> ((allowed, of_int ms / 1000), s')))"

section \<open>The middleware\<close>

definition EXEMPT :: "string list" where
  "EXEMPT = [''/healthz'', ''/readyz'', ''/metrics'']"

datatype verdict = Forward | TooMany int | Crash py_exn

definition rate_limit_dispatch ::
    "string list \<Rightarrow> ('s \<Rightarrow> (py_exn + (bool \<times> rat)) \<times> 's) \<Rightarrow> string \<Rightarrow> string option \<Rightarrow> 's \<Rightarrow> verdict \<times> 's" where
  "rate_limit_dispatch prefixes acq path key_id s =
     (if path \<in> set EXEMPT \<or> (\<exists>p \<in> set prefixes. starts_with p path) then (Forward, s)
      else if key_id = None \<or> key_id = Some [] then (Forward, s)
      else (case acq s of
              (Inl e, s') \<Rightarrow> (Crash e, s')
            | (Inr (True, _), s') \<Rightarrow> (Forward, s')
            | (Inr (False, retry_after), s') \<Rightarrow> (TooMany (\<lfloor>retry_after\<rfloor> + 1), s')))"

section \<open>One abstract bucket per key\<close>

text \<open>
  What a limiter promises: at time \<open>t\<close> (milliseconds) a key has \<open>level k t s\<close> tokens, which flow
  in at the configured rate up to the burst; a request is allowed exactly when a whole token is
  there, and takes it; other keys are not affected. \<open>K\<close> are the keys in use, \<open>inv s t\<close> holds of a
  state whose last request came at \<open>t\<close> or before.
\<close>

fun spec_decisions :: "rat \<Rightarrow> rat \<Rightarrow> (string \<times> int) list \<Rightarrow> (string \<Rightarrow> rat) \<Rightarrow> int \<Rightarrow> bool list" where
  "spec_decisions cap rate [] lv t0 = []"
| "spec_decisions cap rate ((k, t) # h) lv t0 =
     (let lv' = (\<lambda>j. min cap (lv j + of_int (t - t0) / 1000 * rate)); a = (1 \<le> lv' k)
      in a # spec_decisions cap rate h (if a then lv'(k := lv' k - 1) else lv') t)"

text \<open>A history of requests (key and time): the decisions on it, the state after it, and how often a key got through.\<close>

fun decisions :: "(string \<Rightarrow> int \<Rightarrow> 's \<Rightarrow> bool \<times> 's) \<Rightarrow> (string \<times> int) list \<Rightarrow> 's \<Rightarrow> bool list" where
  "decisions acq [] s = []"
| "decisions acq ((k, t) # h) s = (let (a, s') = acq k t s in a # decisions acq h s')"

fun served :: "(string \<Rightarrow> int \<Rightarrow> 's \<Rightarrow> bool \<times> 's) \<Rightarrow> (string \<times> int) list \<Rightarrow> 's \<Rightarrow> 's" where
  "served acq [] s = s"
| "served acq ((k, t) # h) s = served acq h (snd (acq k t s))"

definition granted :: "string \<Rightarrow> bool list \<Rightarrow> (string \<times> int) list \<Rightarrow> nat" where
  "granted k ds h = length (filter (\<lambda>(a, k', t). a \<and> k' = k) (zip ds h))"

locale token_limiter =
  fixes level :: "string \<Rightarrow> int \<Rightarrow> 's \<Rightarrow> rat"
    and acq :: "string \<Rightarrow> int \<Rightarrow> 's \<Rightarrow> bool \<times> 's"
    and inv :: "'s \<Rightarrow> int \<Rightarrow> bool"
    and K :: "string set"
    and cap :: rat
    and rate :: rat
  assumes inv_mono: "inv s t \<Longrightarrow> t \<le> t' \<Longrightarrow> inv s t'"
    and inv_acq: "inv s t \<Longrightarrow> k \<in> K \<Longrightarrow> inv (snd (acq k t s)) t"
    and flow: "inv s t \<Longrightarrow> t \<le> t' \<Longrightarrow> level k t' s = min cap (level k t s + of_int (t' - t) / 1000 * rate)"
    and allowed_iff: "inv s t \<Longrightarrow> k \<in> K \<Longrightarrow> fst (acq k t s) \<longleftrightarrow> 1 \<le> level k t s"
    and level_acq: "inv s t \<Longrightarrow> k \<in> K \<Longrightarrow> level j t (snd (acq k t s)) =
          (if j = k \<and> 1 \<le> level k t s then level k t s - 1 else level j t s)"
    and level_nonneg: "inv s t \<Longrightarrow> 0 \<le> level k t s"
    and rate_nonneg: "0 \<le> rate"
begin

lemma level_le: "inv s t \<Longrightarrow> level k t s \<le> cap"
  using flow [of s t t k] by simp

lemma granted_bound:
  assumes "inv s t0" and "sorted (t0 # map snd h)" and "\<forall>p \<in> set h. fst p \<in> K \<and> snd p \<le> t1" and "t0 \<le> t1"
  shows "of_nat (granted k (decisions acq h s) h) \<le> level k t0 s + of_int (t1 - t0) / 1000 * rate"
  using assms
proof (induction h arbitrary: s t0)
  case Nil
  have "0 \<le> of_int (t1 - t0) / 1000 * rate" using Nil(4) rate_nonneg by (intro mult_nonneg_nonneg) auto
  with level_nonneg [OF Nil(1), of k] show ?case by (simp add: granted_def)
next
  case (Cons p h)
  obtain k' t where p: "p = (k', t)" by (cases p)
  have t: "t0 \<le> t" "t \<le> t1" "k' \<in> K" using Cons.prems(2,3) p by auto
  have i: "inv s t" using inv_mono [OF Cons.prems(1) t(1)] .
  obtain a s' where a: "acq k' t s = (a, s')" by (cases "acq k' t s")
  have i': "inv s' t" using inv_acq [OF i t(3)] a by simp
  have lv: "level k t s' = level k t s - (if a \<and> k' = k then 1 else 0)"
    using level_acq [OF i t(3), of k] allowed_iff [OF i t(3)] a by auto
  have ih: "of_nat (granted k (decisions acq h s') h) \<le> level k t s' + of_int (t1 - t) / 1000 * rate"
    using Cons.IH [OF i'] Cons.prems(2,3) t p by (cases h) auto
  have fl: "level k t s \<le> level k t0 s + of_int (t - t0) / 1000 * rate" using flow [OF Cons.prems(1) t(1), of k] by simp
  have "(of_int (t1 - t) / 1000 * rate) + (of_int (t - t0) / 1000 * rate) = of_int (t1 - t0) / 1000 * rate"
    by (simp add: field_simps)
  with ih lv fl show ?case by (auto simp: p a granted_def)
qed

text \<open>The invariant holds after any history, also at later times.\<close>

lemma inv_served:
  assumes "inv s t0" and "sorted (t0 # map snd h)" and "\<forall>p \<in> set h. fst p \<in> K \<and> snd p \<le> t1" and "t0 \<le> t1"
  shows "inv (served acq h s) t1"
  using assms
proof (induction h arbitrary: s t0)
  case Nil
  then show ?case using inv_mono by simp
next
  case (Cons p h)
  obtain k t where p: "p = (k, t)" by (cases p)
  have "t0 \<le> t" "t \<le> t1" "k \<in> K" "sorted (t # map snd h)" using Cons.prems(2,3) p by auto
  then show ?case using Cons.IH [of "snd (acq k t s)" t] inv_acq inv_mono Cons.prems(1,3) p by simp
qed

text \<open>The decisions are those of the abstract buckets.\<close>

lemma refines_spec:
  assumes "inv s t0" and "sorted (t0 # map snd h)" and "\<forall>p \<in> set h. fst p \<in> K" and "\<And>k. lv k = level k t0 s"
  shows "decisions acq h s = spec_decisions cap rate h lv t0"
  using assms
proof (induction h arbitrary: s t0 lv)
  case (Cons p h)
  obtain k t where p: "p = (k, t)" by (cases p)
  have t: "t0 \<le> t" "k \<in> K" using Cons.prems(2,3) p by auto
  have i: "inv s t" using inv_mono [OF Cons.prems(1) t(1)] .
  obtain a s' where a: "acq k t s = (a, s')" by (cases "acq k t s")
  have i': "inv s' t" using inv_acq [OF i t(2)] a by simp
  have f: "min cap (lv j + of_int (t - t0) / 1000 * rate) = level j t s" for j
    using flow [OF Cons.prems(1) t(1), of j] Cons.prems(4) by simp
  have d: "a \<longleftrightarrow> 1 \<le> level k t s" using allowed_iff [OF i t(2)] a by simp
  have "level j t s' = (if j = k \<and> a then level k t s - 1 else level j t s)" for j
    using level_acq [OF i t(2), of j] a d by simp
  then have "decisions acq h s' = spec_decisions cap rate h (if a then (\<lambda>j. level j t s)(k := level k t s - 1) else (\<lambda>j. level j t s)) t"
    using Cons.prems(2,3) p by (intro Cons.IH [OF i']) (cases h; auto)+
  with d show ?case unfolding p spec_decisions.simps decisions.simps f Let_def a prod.case by simp
qed simp

end

section \<open>The in-process limiter is such a limiter\<close>

definition secs :: "int \<Rightarrow> rat" where
  "secs t = of_int t / 1000"

definition level_of :: "string \<Rightarrow> int \<Rightarrow> limiter \<Rightarrow> rat" where
  "level_of k t l = (case map_of (buckets l) k of
     None \<Rightarrow> burst l
   | Some b \<Rightarrow> min (burst l) (tokens b + (secs t - last_refill b) * refill_rate l))"

definition acquire_ms :: "string \<Rightarrow> int \<Rightarrow> limiter \<Rightarrow> bool \<times> limiter" where
  "acquire_ms k t l = (case acquire k (secs t) l of
     (Inr (a, _), l') \<Rightarrow> (a, l')
   | (Inl _, l') \<Rightarrow> (False, l'))"

definition buckets_ok :: "limiter \<Rightarrow> bool" where
  "buckets_ok l \<longleftrightarrow> od_wf (buckets l) \<and> od_keys (locks l) = od_keys (buckets l)
     \<and> (\<forall>(k, b) \<in> set (buckets l). 0 \<le> tokens b \<and> tokens b \<le> burst l)"

text \<open>The parameters \<open>(rate, burst, cap, ttl)\<close> of a limiter, which no operation changes.\<close>

definition params :: "limiter \<Rightarrow> rat \<times> rat \<times> nat \<times> rat" where
  "params l = (refill_rate l, burst l, lru_cap l, ttl l)"

definition limiter_inv :: "string set \<Rightarrow> rat \<times> rat \<times> nat \<times> rat \<Rightarrow> limiter \<Rightarrow> int \<Rightarrow> bool" where
  "limiter_inv K ps l t \<longleftrightarrow> params l = ps \<and> buckets_ok l \<and> set (od_keys (buckets l)) \<subseteq> K
     \<and> (\<forall>(k, b) \<in> set (buckets l). last_refill b \<le> secs t)"

text \<open>What a request does to the table of buckets.\<close>

definition taken :: "string \<Rightarrow> rat \<Rightarrow> limiter \<Rightarrow> tbucket" where
  "taken k now l = snd (spend (refill_rate l) (refill (burst l) (refill_rate l) now
     (case map_of (buckets l) k of None \<Rightarrow> \<lparr>tokens = burst l, last_refill = now\<rparr> | Some b \<Rightarrow> b)))"

lemma acquire_bucket_simps:
  "buckets (snd (acquire_bucket k now l)) = AList.update k (taken k now l) (od_move_to_end k (buckets l))"
  "locks (snd (acquire_bucket k now l)) = locks l" "params (snd (acquire_bucket k now l)) = params l"
  by (simp_all add: acquire_bucket_def taken_def params_def Let_def split: prod.splits)

lemma no_eviction:
  assumes "buckets_ok l" and "set (od_keys (buckets l)) \<subseteq> K" and "finite K" and "card K \<le> lru_cap l" and "k \<in> K"
    and "k \<notin> set (od_keys (buckets l))"
  shows "length (buckets l) < lru_cap l"
proof -
  have "length (buckets l) = card (set (od_keys (buckets l)))"
    using assms(1) by (metis buckets_ok_def distinct_card length_map od_wf_def)
  also have "\<dots> < card K" using assms by (intro psubset_card_mono) auto
  finally show ?thesis using assms(4) by simp
qed

lemma acquire_tracked:
  assumes "limiter_inv K ps l t" and "finite K" and "card K \<le> lru_cap l" and "k \<in> K"
  shows "\<exists>lk. acquire k (secs t) l = acquire_bucket k (secs t) (l\<lparr>locks := lk\<rparr>)
       \<and> od_keys lk = od_keys (AList.update k b (od_move_to_end k (buckets l)))"
proof -
  have ok: "buckets_ok l" "od_keys (locks l) = od_keys (buckets l)" using assms(1) by (auto simp: limiter_inv_def buckets_ok_def)
  show ?thesis
  proof (cases "k \<in> set (od_keys (locks l))")
    case True
    then show ?thesis using ok(2)
      by (intro exI [of _ "od_move_to_end k (locks l)"]) (simp add: acquire_def od_keys_update od_keys_move_to_end)
  next
    case False
    then have "length (buckets l) < lru_cap l"
      using no_eviction [OF ok(1) _ assms(2,3,4)] assms(1) ok(2) by (simp add: limiter_inv_def)
    moreover have "filter (\<lambda>x. x \<noteq> k) (od_keys (buckets l)) = od_keys (buckets l)" using False ok(2) by (intro filter_True) auto
    ultimately show ?thesis using False ok(2)
      by (intro exI [of _ "od_move_to_end k (AList.update k () (locks l))"])
         (auto simp: acquire_def evict_lru_def od_keys_update od_keys_move_to_end)
  qed
qed

lemma refilled_level:
  "tokens (refill (burst l) (refill_rate l) (secs t)
     (case map_of (buckets l) k of None \<Rightarrow> \<lparr>tokens = burst l, last_refill = secs t\<rparr> | Some b \<Rightarrow> b)) = level_of k t l"
  by (simp add: refill_def level_of_def split: option.splits)

lemma taken_simps:
  "tokens (taken k (secs t) l) = (if 1 \<le> level_of k t l then level_of k t l - 1 else level_of k t l)" "last_refill (taken k (secs t) l) = secs t"
  unfolding taken_def by (simp_all add: spend_def refilled_level) (simp_all add: refill_def)

lemma level_of_update:
  "level_of j t (l\<lparr>locks := lk, buckets := AList.update k (taken k (secs t) l) (od_move_to_end k (buckets l))\<rparr>)
     = (if j = k \<and> 1 \<le> level_of k t l then level_of k t l - 1 else level_of j t l)"
proof (cases "j = k")
  case True
  have "level_of k t l \<le> burst l" by (simp add: level_of_def split: option.splits)
  then have "min (burst l) (tokens (taken k (secs t) l)) = (if 1 \<le> level_of k t l then level_of k t l - 1 else level_of k t l)"
    by (simp add: taken_simps)
  with True show ?thesis by (subst level_of_def) (simp add: od_get_update od_get_move_to_end taken_simps(2))
next
  case False
  then show ?thesis by (simp add: level_of_def od_get_update od_get_move_to_end cong: option.case_cong)
qed

lemma level_of_le: "level_of k t l \<le> burst l"
  by (simp add: level_of_def split: option.splits)

lemma level_of_nonneg:
  assumes "limiter_inv K ps l t" and "0 \<le> burst l" and "0 \<le> refill_rate l"
  shows "0 \<le> level_of k t l"
proof (cases "map_of (buckets l) k")
  case None
  then show ?thesis using assms(2) by (simp add: level_of_def)
next
  case (Some b)
  then have "(k, b) \<in> set (buckets l)" by (rule map_of_SomeD)
  then have "0 \<le> tokens b" "last_refill b \<le> secs t" using assms(1) by (auto simp: limiter_inv_def buckets_ok_def)
  moreover from this have "0 \<le> (secs t - last_refill b) * refill_rate l" using assms(3) by (intro mult_nonneg_nonneg) auto
  ultimately show ?thesis using Some assms(2) by (simp add: level_of_def)
qed

lemma acquire_result:
  assumes "limiter_inv K ps l t" and "finite K" and "card K \<le> lru_cap l" and "k \<in> K" and "0 < refill_rate l"
  obtains lk where "acquire_ms k t l = (1 \<le> level_of k t l, l\<lparr>locks := lk, buckets := AList.update k (taken k (secs t) l) (od_move_to_end k (buckets l))\<rparr>)"
    and "od_keys lk = od_keys (AList.update k (taken k (secs t) l) (od_move_to_end k (buckets l)))"
    and "fst (acquire k (secs t) l) = Inr (if 1 \<le> level_of k t l then (True, 0) else (False, (1 - level_of k t l) / refill_rate l))"
proof -
  obtain lk where lk: "acquire k (secs t) l = acquire_bucket k (secs t) (l\<lparr>locks := lk\<rparr>)"
      "od_keys lk = od_keys (AList.update k (taken k (secs t) l) (od_move_to_end k (buckets l)))"
    using acquire_tracked [OF assms(1-4)] by blast
  have "acquire_bucket k (secs t) (l\<lparr>locks := lk\<rparr>) =
     (Inr (if 1 \<le> level_of k t l then (True, 0) else (False, (1 - level_of k t l) / refill_rate l)),
      l\<lparr>locks := lk, buckets := AList.update k (taken k (secs t) l) (od_move_to_end k (buckets l))\<rparr>)"
    using assms(5) refilled_level [of l t k]
    by (simp add: acquire_bucket_def taken_def spend_def Let_def split: prod.splits cong: option.case_cong)
  with lk that show thesis by (simp add: acquire_ms_def split: prod.splits)
qed

lemma inproc_flow:
  assumes "limiter_inv K ps l t" and "t \<le> t'" and "0 \<le> refill_rate l"
  shows "level_of k t' l = min (burst l) (level_of k t l + of_int (t' - t) / 1000 * refill_rate l)"
proof -
  have n: "0 \<le> of_int (t' - t) / 1000 * refill_rate l" using assms(2,3) by (intro mult_nonneg_nonneg) auto
  have e: "secs t' = secs t + of_int (t' - t) / 1000" by (simp add: secs_def field_simps)
  show ?thesis
  proof (cases "map_of (buckets l) k")
    case None
    then show ?thesis using n by (simp add: level_of_def)
  next
    case (Some b)
    have "tokens b + (secs t' - last_refill b) * refill_rate l
        = tokens b + (secs t - last_refill b) * refill_rate l + of_int (t' - t) / 1000 * refill_rate l"
      by (simp add: e algebra_simps)
    with Some n show ?thesis by (simp add: level_of_def)
  qed
qed

lemma inproc_preserved:
  assumes "limiter_inv K ps l t" and "finite K" and "card K \<le> lru_cap l" and "k \<in> K" and "0 < refill_rate l" and "0 \<le> burst l"
  shows "limiter_inv K ps (snd (acquire_ms k t l)) t"
proof -
  obtain lk where a: "acquire_ms k t l = (1 \<le> level_of k t l, l\<lparr>locks := lk, buckets := AList.update k (taken k (secs t) l) (od_move_to_end k (buckets l))\<rparr>)"
      and lk: "od_keys lk = od_keys (AList.update k (taken k (secs t) l) (od_move_to_end k (buckets l)))"
    by (rule acquire_result [OF assms(1-5)])
  let ?d = "AList.update k (taken k (secs t) l) (od_move_to_end k (buckets l))"
  have wf: "od_wf (buckets l)" "set (od_keys (buckets l)) \<subseteq> K" using assms(1) by (auto simp: limiter_inv_def buckets_ok_def)
  have "set (od_keys ?d) \<subseteq> K" using wf(2) assms(4) by (auto simp: od_keys_update od_keys_move_to_end)
  moreover have "0 \<le> tokens b \<and> tokens b \<le> burst l \<and> last_refill b \<le> secs t" if m: "(j, b) \<in> set ?d" for j b
  proof -
    have "map_of ?d j = Some b" by (rule od_wf_get [OF _ m]) (simp add: wf(1))
    then have "b = taken k (secs t) l \<or> map_of (buckets l) j = Some b"
      by (simp add: od_get_update od_get_move_to_end split: if_splits)
    then consider "b = taken k (secs t) l" | "map_of (buckets l) j = Some b" by blast
    then show ?thesis
    proof cases
      case 1
      then show ?thesis using taken_simps [of k t l] level_of_nonneg [OF assms(1) assms(6), of k] assms(5) level_of_le [of k t l] by auto
    next
      case 2
      then have "(j, b) \<in> set (buckets l)" by (rule map_of_SomeD)
      then show ?thesis using assms(1) by (auto simp: limiter_inv_def buckets_ok_def)
    qed
  qed
  ultimately show ?thesis using assms(1) a lk wf(1) by (auto simp: limiter_inv_def buckets_ok_def params_def)
qed

text \<open>The settings under which the in-process limiter never has to evict a key in use.\<close>

definition roomy :: "string set \<Rightarrow> rat \<times> rat \<times> nat \<times> rat \<Rightarrow> bool" where
  "roomy K ps = (case ps of (rate, brst, cap, _) \<Rightarrow> finite K \<and> card K \<le> cap \<and> 0 < rate \<and> 0 \<le> brst)"

interpretation inproc: token_limiter level_of acquire_ms "\<lambda>l t. roomy K ps \<and> limiter_inv K ps l t" K "fst (snd ps)" "\<bar>fst ps\<bar>" for K ps
proof
  fix s t t' k j
  assume i: "roomy K ps \<and> limiter_inv K ps s t"
  have p: "finite K" "card K \<le> lru_cap s" "0 < refill_rate s" "0 \<le> burst s" "fst (snd ps) = burst s" "\<bar>fst ps\<bar> = refill_rate s"
    using i by (auto simp: roomy_def limiter_inv_def params_def)
  have i': "limiter_inv K ps s t" using i by simp
  {
    assume tt: "t \<le> t'"
    then have "secs t \<le> secs t'" by (simp add: secs_def divide_right_mono)
    with i show "roomy K ps \<and> limiter_inv K ps s t'" by (force simp: limiter_inv_def)
    show "level_of k t' s = min (fst (snd ps)) (level_of k t s + of_int (t' - t) / 1000 * \<bar>fst ps\<bar>)"
      using inproc_flow [OF i' tt] p by simp
  next
    assume k: "k \<in> K"
    obtain lk where a: "acquire_ms k t s = (1 \<le> level_of k t s, s\<lparr>locks := lk, buckets := AList.update k (taken k (secs t) s) (od_move_to_end k (buckets s))\<rparr>)"
      by (rule acquire_result [OF i' p(1,2) k p(3)])
    show "roomy K ps \<and> limiter_inv K ps (snd (acquire_ms k t s)) t" using inproc_preserved [OF i' p(1,2) k p(3,4)] i by simp
    show "fst (acquire_ms k t s) \<longleftrightarrow> 1 \<le> level_of k t s" by (simp add: a)
    show "level_of j t (snd (acquire_ms k t s)) = (if j = k \<and> 1 \<le> level_of k t s then level_of k t s - 1 else level_of j t s)"
      by (simp add: a level_of_update)
  next
    show "0 \<le> level_of k t s" using level_of_nonneg [OF i' p(4)] p(3) by simp
  }
qed simp

section \<open>The Redis limiter is such a limiter\<close>

definition hash_key :: "string \<Rightarrow> redis_limiter \<Rightarrow> string" where
  "hash_key k s = r_prefix s @ '':'' @ k"

definition redis_level :: "string \<Rightarrow> int \<Rightarrow> redis_limiter \<Rightarrow> rat" where
  "redis_level k t s = (case map_of (hashes s) (hash_key k s) of
     None \<Rightarrow> r_burst s
   | Some h \<Rightarrow> min (r_burst s) (r_tokens h + of_int (t - r_last h) / 1000 * r_rate s))"

definition redis_ms :: "string \<Rightarrow> int \<Rightarrow> redis_limiter \<Rightarrow> bool \<times> redis_limiter" where
  "redis_ms k t s = (case redis_acquire True k t s of ((a, _), s') \<Rightarrow> (a, s'))"

text \<open>
  Settings \<open>(rate, burst, ttl)\<close> under which dropping an idle hash loses nothing: within the time
  to live the bucket has filled up.
\<close>

definition patient :: "rat \<times> rat \<times> int \<Rightarrow> bool" where
  "patient ps = (case ps of (rate, brst, ttl_s) \<Rightarrow> 0 < rate \<and> 0 \<le> brst \<and> brst \<le> of_int ttl_s * rate)"

definition redis_inv :: "rat \<times> rat \<times> int \<Rightarrow> redis_limiter \<Rightarrow> int \<Rightarrow> bool" where
  "redis_inv ps s t \<longleftrightarrow> patient ps \<and> (r_rate s, r_burst s, r_ttl s) = ps
     \<and> (\<forall>k h. map_of (hashes s) k = Some h \<longrightarrow> 0 \<le> r_tokens h \<and> r_last h \<le> t \<and> r_expires h = r_last h + r_ttl s * 1000)"

lemma hash_key_inj: "hash_key j s = hash_key k s \<longleftrightarrow> j = k"
  by (simp add: hash_key_def)

lemma redis_facts:
  assumes "redis_inv ps s t"
  shows "0 < r_rate s" and "0 \<le> r_burst s" and "r_burst s \<le> of_int (r_ttl s) * r_rate s" and "fst (snd ps) = r_burst s" and "\<bar>fst ps\<bar> = r_rate s"
  using assms by (auto simp: redis_inv_def patient_def)

text \<open>The level the script computes with is that of the abstract bucket, expired or not.\<close>

lemma script_level:
  assumes "redis_inv ps s t"
  shows "min (r_burst s) ((case redis_get (hash_key k s) t s of None \<Rightarrow> r_burst s | Some h \<Rightarrow> r_tokens h)
           + of_int (t - (case redis_get (hash_key k s) t s of None \<Rightarrow> t | Some h \<Rightarrow> r_last h)) / 1000 * r_rate s) = redis_level k t s"
proof (cases "map_of (hashes s) (hash_key k s)")
  case None
  then show ?thesis by (simp add: redis_get_def redis_level_def)
next
  case (Some h)
  have h: "0 \<le> r_tokens h" "r_expires h = r_last h + r_ttl s * 1000" using assms Some by (auto simp: redis_inv_def)
  show ?thesis
  proof (cases "t \<ge> r_expires h")
    case True
    then have "of_int (r_ttl s) \<le> (of_int (t - r_last h) / 1000 :: rat)"
      using h(2) of_int_le_iff [of "r_ttl s * 1000" "t - r_last h", where 'a = rat] by (simp add: field_simps)
    then have "of_int (r_ttl s) * r_rate s \<le> of_int (t - r_last h) / 1000 * r_rate s"
      using redis_facts(1) [OF assms] by (intro mult_right_mono) auto
    with redis_facts(3) [OF assms] h(1) Some True show ?thesis by (simp add: redis_get_def redis_level_def)
  next
    case False
    with Some show ?thesis by (simp add: redis_get_def redis_level_def)
  qed
qed

lemma redis_result:
  assumes "redis_inv ps s t"
  shows "redis_ms k t s = (1 \<le> redis_level k t s, s\<lparr>hashes := AList.update (hash_key k s)
     \<lparr>r_tokens = (if 1 \<le> redis_level k t s then redis_level k t s - 1 else redis_level k t s), r_last = t, r_expires = t + r_ttl s * 1000\<rparr> (hashes s)\<rparr>)"
proof -
  have "lua_acquire (hash_key k s) t s = ((1 \<le> redis_level k t s, if 1 \<le> redis_level k t s then 0 else \<lceil>((1 - redis_level k t s) / r_rate s) * 1000\<rceil>),
      s\<lparr>hashes := AList.update (hash_key k s)
       \<lparr>r_tokens = (if 1 \<le> redis_level k t s then redis_level k t s - 1 else redis_level k t s), r_last = t, r_expires = t + r_ttl s * 1000\<rparr> (hashes s)\<rparr>)"
    unfolding script_level [OF assms, of k, symmetric] using redis_facts(1) [OF assms]
    by (cases "redis_get (hash_key k s) t s") (simp_all add: lua_acquire_def Let_def)
  then show ?thesis by (simp add: redis_ms_def redis_acquire_def hash_key_def)
qed

lemma redis_level_bounds:
  assumes "redis_inv ps s t"
  shows "0 \<le> redis_level k t s" and "redis_level k t s \<le> r_burst s"
proof -
  show "redis_level k t s \<le> r_burst s" by (simp add: redis_level_def split: option.splits)
  show "0 \<le> redis_level k t s"
  proof (cases "map_of (hashes s) (hash_key k s)")
    case None
    then show ?thesis using redis_facts(2) [OF assms] by (simp add: redis_level_def)
  next
    case (Some h)
    then have "0 \<le> r_tokens h" "r_last h \<le> t" using assms by (auto simp: redis_inv_def)
    moreover from this have "0 \<le> of_int (t - r_last h) / 1000 * r_rate s"
      using redis_facts(1) [OF assms] by (intro mult_nonneg_nonneg) auto
    ultimately show ?thesis using Some redis_facts(2) [OF assms] by (simp add: redis_level_def)
  qed
qed

lemma min_flow: "0 \<le> c \<Longrightarrow> min b (min b a + c) = min b (a + c)" for a b c :: rat
  by linarith

lemma redis_flow:
  assumes "redis_inv ps s t" and "t \<le> t'"
  shows "redis_level k t' s = min (r_burst s) (redis_level k t s + of_int (t' - t) / 1000 * r_rate s)"
proof -
  have n: "0 \<le> of_int (t' - t) / 1000 * r_rate s"
    using assms(2) redis_facts(1) [OF assms(1)] by (intro mult_nonneg_nonneg) auto
  show ?thesis
  proof (cases "map_of (hashes s) (hash_key k s)")
    case None
    then show ?thesis using n by (simp add: redis_level_def)
  next
    case (Some h)
    have "r_tokens h + of_int (t' - r_last h) / 1000 * r_rate s
        = r_tokens h + of_int (t - r_last h) / 1000 * r_rate s + of_int (t' - t) / 1000 * r_rate s"
      by (simp add: field_simps)
    then show ?thesis unfolding redis_level_def Some option.case using min_flow [OF n] by metis
  qed
qed

interpretation redis: token_limiter redis_level redis_ms "redis_inv ps" UNIV "fst (snd ps)" "\<bar>fst ps\<bar>" for ps
proof
  fix s t t' k j
  assume i: "redis_inv ps s t"
  note f = redis_facts [OF i]
  {
    assume tt: "t \<le> t'"
    then show "redis_inv ps s t'" using i by (force simp: redis_inv_def)

    show "redis_level k t' s = min (fst (snd ps)) (redis_level k t s + of_int (t' - t) / 1000 * \<bar>fst ps\<bar>)"
      unfolding f(4,5) by (rule redis_flow [OF i tt])
  next
    show "redis_inv ps (snd (redis_ms k t s)) t"
      using i redis_level_bounds(1) [OF i, of k] by (auto simp: redis_result [OF i] redis_inv_def od_get_update split: if_splits)
    show "fst (redis_ms k t s) \<longleftrightarrow> 1 \<le> redis_level k t s" by (simp add: redis_result [OF i])
    show "redis_level j t (snd (redis_ms k t s)) = (if j = k \<and> 1 \<le> redis_level k t s then redis_level k t s - 1 else redis_level j t s)"
    proof (cases "j = k")
      case True
      then show ?thesis using redis_level_bounds(2) [OF i, of k]
        by (subst redis_level_def) (simp add: redis_result [OF i] od_get_update hash_key_def)
    next
      case False
      then have "hash_key j s \<noteq> hash_key k s" by (simp add: hash_key_inj)
      with False show ?thesis
        by (simp add: redis_result [OF i] redis_level_def od_get_update hash_key_def cong: option.case_cong)
    qed
    show "0 \<le> redis_level k t s" by (rule redis_level_bounds(1) [OF i])
  }
qed simp

section \<open>What the limiters guarantee\<close>

definition new_redis_limiter :: "int \<Rightarrow> int \<Rightarrow> int \<Rightarrow> string \<Rightarrow> int \<Rightarrow> redis_limiter" where
  "new_redis_limiter rate_per_min brst ttl_s prefix iv =
     \<lparr>hashes = [], r_rate = of_int rate_per_min / 60, r_burst = of_int brst, r_ttl = ttl_s, r_prefix = prefix, r_inf = iv\<rparr>"

lemma fresh_inproc:
  assumes "0 < r" and "0 \<le> b" and "finite K" and "card K \<le> cap"
  shows "roomy K (of_int r / 60, of_int b, cap, of_int w) \<and> limiter_inv K (of_int r / 60, of_int b, cap, of_int w) (new_limiter r b cap w) t"
    and "level_of k t (new_limiter r b cap w) = of_int b"
  using assms by (simp_all add: roomy_def limiter_inv_def params_def buckets_ok_def new_limiter_def od_wf_def level_of_def)

lemma fresh_redis:
  assumes "0 < r" and "0 \<le> b" and "60 * b \<le> w * r"
  shows "redis_inv (of_int r / 60, of_int b, w) (new_redis_limiter r b w p iv) t"
    and "redis_level k t (new_redis_limiter r b w p iv) = of_int b"
proof -
  have "of_int (60 * b) \<le> (of_int (w * r) :: rat)" using assms(3) by (simp only: of_int_le_iff)
  then show "redis_inv (of_int r / 60, of_int b, w) (new_redis_limiter r b w p iv) t"
    using assms(1,2) by (simp add: redis_inv_def patient_def new_redis_limiter_def)
  show "redis_level k t (new_redis_limiter r b w p iv) = of_int b" by (simp add: redis_level_def new_redis_limiter_def)
qed

lemma history_start:
  assumes "sorted (map snd h)" and "\<forall>p \<in> set h. snd p \<le> t"
  obtains t0 :: int where "sorted (t0 # map snd h)" and "t0 \<le> t"
proof (cases h)
  case Nil
  then show thesis using that [of t] by simp
next
  case (Cons p h')
  then show thesis using that [of "snd p"] assms by force
qed

definition settings :: "int \<Rightarrow> int \<Rightarrow> nat \<Rightarrow> int \<Rightarrow> rat \<times> rat \<times> nat \<times> rat" where
  "settings r b cap w = (of_int r / 60, of_int b, cap, of_int w)"

lemma settings_sel [simp]: "fst (settings r b cap w) = of_int r / 60" "fst (snd (settings r b cap w)) = of_int b"
  by (simp_all add: settings_def)

lemma inproc_after:
  assumes "0 < r" and "0 \<le> b" and "sorted (map snd h)" and "finite K" and "card K \<le> cap"
    and "\<forall>p \<in> set h. fst p \<in> K \<and> snd p \<le> t"
  shows "roomy K (settings r b cap w) \<and> limiter_inv K (settings r b cap w) (served acquire_ms h (new_limiter r b cap w)) t"
proof -
  obtain t0 where "sorted (t0 # map snd h)" "t0 \<le> t" using history_start assms(3,6) by blast
  moreover have "roomy K (settings r b cap w) \<and> limiter_inv K (settings r b cap w) (new_limiter r b cap w) t0"
    unfolding settings_def using assms by (intro fresh_inproc)
  ultimately show ?thesis using inproc.inv_served assms(6) by blast
qed



text \<open>The Redis limiter and the in-process one give the same answers to the same requests, so
  \<open>rate_limit_backend\<close> can be switched: both implement one abstract bucket per key, provided a hash
  lives long enough to fill up before it expires and the in-process table holds all keys.\<close>

lemma limiters_agree:
  assumes "0 < r" and "0 \<le> b" and "60 * b \<le> w * r" and "sorted (map snd h)" and "card (set (map fst h)) \<le> cap"
  shows "decisions redis_ms h (new_redis_limiter r b w prefix iv) = decisions acquire_ms h (new_limiter r b cap ttl_s)"
proof -
  define t1 where "t1 = Max (insert 0 (set (map snd h)))"
  have "\<forall>p \<in> set h. snd p \<le> t1" unfolding t1_def by (auto intro: Max_ge)
  then obtain t where s: "sorted (t # map snd h)" using history_start assms(4) by blast
  have "decisions redis_ms h (new_redis_limiter r b w prefix iv) = spec_decisions (of_int b) (of_int r / 60) h (\<lambda>_. of_int b) t"
    using redis.refines_spec [OF fresh_redis(1) [OF assms(1-3), of prefix iv t], OF s, of "\<lambda>_. of_int b"]
      assms(1) by (simp add: fresh_redis(2) [OF assms(1-3)])
  moreover have "decisions acquire_ms h (new_limiter r b cap ttl_s) = spec_decisions (of_int b) (of_int r / 60) h (\<lambda>_. of_int b) t"
    using inproc.refines_spec [OF fresh_inproc(1) [OF assms(1,2), of "set (map fst h)" cap ttl_s t], OF _ _ s, of "\<lambda>_. of_int b"]
      assms(1,5) by (simp add: level_of_def new_limiter_def)
  ultimately show ?thesis by simp
qed

lemma limiters_agree_witness:
  "decisions redis_ms [(''k'', 0), (''j'', 400), (''k'', 500), (''k'', 1000)] (new_redis_limiter 60 1 3600 ''rl'' 0)
     = decisions acquire_ms [(''k'', 0), (''j'', 400), (''k'', 500), (''k'', 1000)] (new_limiter 60 1 4 10)"
  by (rule limiters_agree) (simp_all add: card_insert_if)

text \<open>A refusal leaves the bucket as it is.\<close>

lemma refused:
  assumes "roomy K ps \<and> limiter_inv K ps l t" and "k \<in> K" and "acquire k (secs t) l = (Inr (False, ra), l')"
  shows "level_of k t l < 1" and "ra = (1 - level_of k t l) / \<bar>fst ps\<bar>" and "level_of k t l' = level_of k t l"
    and "limiter_inv K ps l' t" and "0 < \<bar>fst ps\<bar>"
proof -
  have p: "finite K" "card K \<le> lru_cap l" "0 < refill_rate l" "\<bar>fst ps\<bar> = refill_rate l"
    using assms(1) by (auto simp: roomy_def limiter_inv_def params_def)
  have e: "snd (acquire_ms k t l) = l'" using assms(3) by (simp add: acquire_ms_def)
  have i: "limiter_inv K ps l t" using assms(1) by simp
  obtain lk where "fst (acquire k (secs t) l) = Inr (if 1 \<le> level_of k t l then (True, 0) else (False, (1 - level_of k t l) / refill_rate l))"
    by (rule acquire_result [OF i p(1,2) assms(2) p(3)])
  then show lt: "level_of k t l < 1" "ra = (1 - level_of k t l) / \<bar>fst ps\<bar>" using assms(3) p(4) by (auto split: if_splits)
  show "level_of k t l' = level_of k t l" using inproc.level_acq [OF assms(1,2), of k] e lt(1) by simp
  show "limiter_inv K ps l' t" using inproc.inv_acq [OF assms(1,2)] e by simp
  show "0 < \<bar>fst ps\<bar>" using p by simp
qed

lemma waited:
  assumes "roomy K ps \<and> limiter_inv K ps l t" and "k \<in> K" and "1 \<le> level_of k t l"
  shows "\<exists>l'. acquire k (secs t) l = (Inr (True, 0), l')"
proof -
  have p: "finite K" "card K \<le> lru_cap l" "0 < refill_rate l" using assms(1) by (auto simp: roomy_def limiter_inv_def params_def)
  have i: "limiter_inv K ps l t" using assms(1) by simp
  obtain lk where "fst (acquire k (secs t) l) = Inr (if 1 \<le> level_of k t l then (True, 0) else (False, (1 - level_of k t l) / refill_rate l))"
    by (rule acquire_result [OF i p(1,2) assms(2) p(3)])
  with assms(3) show ?thesis by (cases "acquire k (secs t) l") simp
qed

text \<open>A refused client that waits the seconds of the \<open>Retry-After\<close> header is let through on its next request.\<close>

lemma retry_after_suffices:
  assumes "0 < r" and "1 \<le> b" and "sorted (map snd before)" and "card (insert k (set (map fst before))) \<le> cap"
    and "\<forall>p \<in> set before. snd p \<le> t"
    and "rate_limit_dispatch prefixes (acquire k (secs t)) path (Some k) (served acquire_ms before (new_limiter r b cap w)) = (TooMany n, l')"
    and "t + n * 1000 \<le> t'"
  shows "0 < n \<and> fst (rate_limit_dispatch prefixes (acquire k (secs t')) path (Some k) l') = Forward"
proof -
  define K where "K = insert k (set (map fst before))"
  define ps where "ps = settings r b cap w"
  define l where "l = served acquire_ms before (new_limiter r b cap w)"
  have i: "roomy K ps \<and> limiter_inv K ps l t"
    unfolding ps_def l_def using assms by (intro inproc_after) (auto simp: K_def)
  obtain ra where ra: "acquire k (secs t) l = (Inr (False, ra), l')" "n = \<lfloor>ra\<rfloor> + 1"
    using assms(6) by (auto simp: rate_limit_dispatch_def l_def split: if_splits prod.splits sum.splits bool.splits)
  note f = refused [OF i _ ra(1)]
  have k: "k \<in> K" by (simp add: K_def)
  have pos: "0 \<le> ra" using f(1,2,5) [OF k] by simp
  then have n: "0 < n" using ra(2) by simp
  then have tt: "t \<le> t'" using assms(7) by simp
  have i': "roomy K ps \<and> limiter_inv K ps l' t" using i f(4) [OF k] by simp
  have "ra \<le> of_int n" using ra(2) by linarith
  also have "of_int n \<le> (of_int (t' - t) / 1000 :: rat)"
    using assms(7) of_int_le_iff [of "n * 1000" "t' - t", where 'a = rat] by (simp add: field_simps)
  finally have "ra * \<bar>fst ps\<bar> \<le> of_int (t' - t) / 1000 * \<bar>fst ps\<bar>" by (intro mult_right_mono) auto
  then have "1 \<le> level_of k t l' + of_int (t' - t) / 1000 * \<bar>fst ps\<bar>" using f(2,3,5) [OF k] by simp
  then have "1 \<le> level_of k t' l'" using inproc.flow [OF i' tt, of k] assms(2) by (simp add: ps_def)
  then obtain l2 where "acquire k (secs t') l' = (Inr (True, 0), l2)"
    using waited [OF inproc.inv_mono [OF i' tt] k] by blast
  then show ?thesis using n assms(6) by (simp add: rate_limit_dispatch_def split: if_splits)
qed

lemma retry_after_suffices_witness:
  "\<exists>l'. rate_limit_dispatch [''/dashboard/''] (acquire ''k'' (secs 100)) ''/api/v1/sessions'' (Some ''k'') (served acquire_ms [(''k'', 0)] (new_limiter 60 1 2 3600)) = (TooMany 1, l')
     \<and> 0 < (1::int) \<and> fst (rate_limit_dispatch [''/dashboard/''] (acquire ''k'' (secs 1100)) ''/api/v1/sessions'' (Some ''k'') l') = Forward"
proof -
  let ?l = "served acquire_ms [(''k'', 0)] (new_limiter 60 1 2 3600)"
  obtain l' where l': "rate_limit_dispatch [''/dashboard/''] (acquire ''k'' (secs 100)) ''/api/v1/sessions'' (Some ''k'') ?l = (TooMany 1, l')"
    by (simp add: rate_limit_dispatch_def EXEMPT_def starts_with_def acquire_ms_def acquire_def acquire_bucket_def evict_lru_def
        new_limiter_def spend_def refill_def secs_def od_move_to_end_def Let_def floor_eq_iff)
  from retry_after_suffices [OF _ _ _ _ _ l', of 1100] l' show ?thesis by (auto simp: card_insert_if)
qed

section \<open>The sweep and the size of the table\<close>

lemma od_get_pops: "map_of (foldl (\<lambda>d k. AList.delete k d) d ks) j = (if j \<in> set ks then None else map_of d j)"
  by (induction ks arbitrary: d) (auto simp: od_get_delete)

lemma od_keys_pops: "od_keys (foldl (\<lambda>d k. AList.delete k d) d ks) = filter (\<lambda>x. x \<notin> set ks) (od_keys d)"
  by (induction ks arbitrary: d) (auto simp: od_keys_delete intro: filter_cong)

text \<open>The sweep only drops buckets that are full again, when the window is long enough to fill one.\<close>

lemma sweep_keeps_levels:
  assumes "buckets_ok l" and "0 \<le> refill_rate l" and "burst l \<le> ttl l * refill_rate l"
  shows "level_of k t (sweep_once (secs t) l) = level_of k t l"
proof (cases "map_of (buckets l) k")
  case None
  then show ?thesis by (simp add: level_of_def sweep_once_def Let_def od_get_pops)
next
  case (Some b)
  have wf: "od_wf (buckets l)" using assms(1) by (simp add: buckets_ok_def)
  have m: "(k, b) \<in> set (buckets l)" using Some by (rule map_of_SomeD)
  have "k \<in> set (map fst (filter (\<lambda>(k, b). secs t - last_refill b > ttl l) (buckets l))) \<longleftrightarrow> secs t - last_refill b > ttl l"
  proof
    assume "k \<in> set (map fst (filter (\<lambda>(k, b). secs t - last_refill b > ttl l) (buckets l)))"
    then obtain b' where b': "(k, b') \<in> set (buckets l)" "secs t - last_refill b' > ttl l" by auto
    have "b' = b" using od_wf_get [OF wf b'(1)] Some by simp
    with b'(2) show "secs t - last_refill b > ttl l" by simp
  next
    assume "secs t - last_refill b > ttl l"
    with m have "(k, b) \<in> set (filter (\<lambda>(k, b). secs t - last_refill b > ttl l) (buckets l))" by simp
    then show "k \<in> set (map fst (filter (\<lambda>(k, b). secs t - last_refill b > ttl l) (buckets l)))" by force
  qed
  moreover have "burst l \<le> tokens b + (secs t - last_refill b) * refill_rate l" if "secs t - last_refill b > ttl l"
  proof -
    have "ttl l * refill_rate l \<le> (secs t - last_refill b) * refill_rate l" using that assms(2) by (intro mult_right_mono) auto
    moreover have "0 \<le> tokens b" using assms(1) m by (auto simp: buckets_ok_def)
    ultimately show ?thesis using assms(3) by simp
  qed
  ultimately show ?thesis using Some by (auto simp: level_of_def sweep_once_def Let_def od_get_pops)
qed

definition in_step :: "limiter \<Rightarrow> bool" where
  "in_step l \<longleftrightarrow> od_wf (buckets l) \<and> od_keys (locks l) = od_keys (buckets l) \<and> length (buckets l) \<le> lru_cap l"

text \<open>A request for a key, or a round of the sweeper, at a time.\<close>

definition limiter_op :: "limiter \<Rightarrow> string option \<times> rat \<Rightarrow> limiter" where
  "limiter_op l p = (case fst p of None \<Rightarrow> sweep_once (snd p) l | Some k \<Rightarrow> snd (acquire k (snd p) l))"

lemma in_step_sweep: "in_step l \<Longrightarrow> in_step (sweep_once now l)"
proof -
  assume i: "in_step l"
  let ?ks = "map fst (filter (\<lambda>(k, b). now - last_refill b > ttl l) (buckets l))"
  let ?b = "foldl (\<lambda>d k. AList.delete k d) (buckets l) ?ks"
  have "length ?b \<le> length (buckets l)" by (metis length_filter_le length_map od_keys_pops)
  then have "length ?b \<le> lru_cap l" using i by (simp add: in_step_def)
  with i show ?thesis by (simp add: in_step_def sweep_once_def Let_def od_wf_def od_keys_pops)
qed

lemma in_step_evict:
  assumes "in_step l" and "0 < lru_cap l"
  obtains l1 where "evict_lru l = Inr l1" and "in_step l1" and "length (buckets l1) < lru_cap l1" and "lru_cap l1 = lru_cap l"
    and "set (od_keys (buckets l1)) \<subseteq> set (od_keys (buckets l))"
proof (cases "length (buckets l) \<ge> lru_cap l")
  case False
  then show thesis using that [of l] assms(1) by (simp add: evict_lru_def)
next
  case True
  then obtain k b d where d: "buckets l = (k, b) # d" using assms(2) by (cases "buckets l") auto
  have "filter (\<lambda>x. x \<noteq> k) (od_keys d) = od_keys d" using assms(1) d by (intro filter_True) (force simp: in_step_def od_wf_def)
  then show thesis using that [of "l\<lparr>buckets := d, locks := AList.delete k (locks l)\<rparr>"] assms d True
    by (auto simp: in_step_def evict_lru_def od_wf_def od_keys_delete)
qed

lemma length_move_to_end: "od_wf d \<Longrightarrow> length (od_move_to_end k d) = length d"
proof (cases "map_of d k")
  case None
  then show ?thesis by (simp add: od_move_to_end_def)
next
  case (Some v)
  assume "od_wf d"
  then have "length (AList.delete k d) = length d - 1"
    using od_keys_delete [of k d] length_filter_neq [of "od_keys d" k] od_get_mem [OF Some] by (metis length_map od_wf_def)
  with Some show ?thesis by (cases d) (simp_all add: od_move_to_end_def)
qed

lemma in_step_bucket:
  assumes "od_wf (buckets l)" and "od_keys lk = od_keys (AList.update k (taken k now l) (od_move_to_end k (buckets l)))"
    and "length (od_keys lk) \<le> lru_cap l"
  shows "in_step (snd (acquire_bucket k now (l\<lparr>locks := lk\<rparr>))) \<and> lru_cap (snd (acquire_bucket k now (l\<lparr>locks := lk\<rparr>))) = lru_cap l
    \<and> fst (acquire_bucket k now (l\<lparr>locks := lk\<rparr>)) \<noteq> Inl KeyError"
proof (intro conjI)
  have "taken k now (l\<lparr>locks := lk\<rparr>) = taken k now l" by (simp add: taken_def cong: option.case_cong)
  moreover show "lru_cap (snd (acquire_bucket k now (l\<lparr>locks := lk\<rparr>))) = lru_cap l"
    using acquire_bucket_simps(3) [of k now "l\<lparr>locks := lk\<rparr>"] by (simp add: params_def)
  moreover have "length (AList.update k (taken k now l) (od_move_to_end k (buckets l))) = length (od_keys lk)"
    using arg_cong [OF assms(2), of length] by simp
  ultimately show "in_step (snd (acquire_bucket k now (l\<lparr>locks := lk\<rparr>)))"
    using assms unfolding in_step_def acquire_bucket_simps by simp
  show "fst (acquire_bucket k now (l\<lparr>locks := lk\<rparr>)) \<noteq> Inl KeyError" by (auto simp: acquire_bucket_def spend_def Let_def split: prod.splits)
qed

lemma in_step_acquire:
  assumes "in_step l" and "0 < lru_cap l"
  shows "in_step (snd (acquire k now l)) \<and> lru_cap (snd (acquire k now l)) = lru_cap l \<and> fst (acquire k now l) \<noteq> Inl KeyError"
proof (cases "k \<in> set (od_keys (locks l))")
  case True
  let ?lk = "od_move_to_end k (locks l)"
  have e: "acquire k now l = acquire_bucket k now (l\<lparr>locks := ?lk\<rparr>)" using True by (simp add: acquire_def)
  have ks: "od_keys ?lk = od_keys (AList.update k (taken k now l) (od_move_to_end k (buckets l)))"
    using assms(1) True by (simp add: in_step_def od_keys_update od_keys_move_to_end)
  have "length (od_keys ?lk) \<le> lru_cap l"
    using assms(1) length_map [of fst "locks l"] by (simp add: in_step_def od_wf_def length_move_to_end)
  then show ?thesis unfolding e using assms(1) ks by (intro in_step_bucket) (auto simp: in_step_def)
next
  case False
  obtain l1 where l1: "evict_lru l = Inr l1" "in_step l1" "length (buckets l1) < lru_cap l1" "lru_cap l1 = lru_cap l"
      "set (od_keys (buckets l1)) \<subseteq> set (od_keys (buckets l))"
    by (rule in_step_evict [OF assms])
  let ?lk = "od_move_to_end k (AList.update k () (locks l1))"
  have e: "acquire k now l = acquire_bucket k now (l1\<lparr>locks := ?lk\<rparr>)" using False l1(1) by (simp add: acquire_def)
  have "od_keys (locks l1) = od_keys (buckets l1)" "od_keys (locks l) = od_keys (buckets l)"
    using assms(1) l1(2) by (simp_all add: in_step_def)
  then have n: "k \<notin> set (od_keys (locks l1))" "k \<notin> set (od_keys (buckets l1))"
    using False subsetD [OF l1(5), of k] by metis+
  then have ks: "od_keys ?lk = od_keys (AList.update k (taken k now l1) (od_move_to_end k (buckets l1)))"
    using l1(2) by (force simp: in_step_def od_keys_update od_keys_move_to_end filter_id_conv)
  have "length (locks l1) = length (buckets l1)" using l1(2) by (metis in_step_def length_map)
  moreover have "od_wf (AList.update k () (locks l1))" using l1(2) by (intro od_wf_update) (simp add: in_step_def od_wf_def)
  ultimately have "length (od_keys ?lk) \<le> lru_cap l1" using n l1(3) length_move_to_end [of "AList.update k () (locks l1)" k]
    by (simp add: od_update_new)
  then show ?thesis unfolding e l1(4) [symmetric] using l1(2) ks by (intro in_step_bucket) (auto simp: in_step_def)
qed

text \<open>The limiter's table never holds more than \<open>lru_cap\<close> buckets, every lock belongs to a bucket and
  every bucket has its lock, after any sequence of requests and sweeps, and no request fails on an empty
  table, as long as the cap is not zero.\<close>

lemma limiter_table_bounded:
  assumes "0 < cap"
  shows "in_step (foldl limiter_op (new_limiter r b cap w) ops)
       \<and> fst (acquire k now (foldl limiter_op (new_limiter r b cap w) ops)) \<noteq> Inl KeyError"
proof -
  have "in_step (foldl limiter_op l ops) \<and> lru_cap (foldl limiter_op l ops) = lru_cap l" if "in_step l" "0 < lru_cap l" for l
    using that
  proof (induction ops arbitrary: l)
    case (Cons p ops)
    have "in_step (limiter_op l p) \<and> lru_cap (limiter_op l p) = lru_cap l"
      using Cons.prems in_step_acquire in_step_sweep by (auto simp: limiter_op_def sweep_once_def Let_def split: option.splits)
    with Cons show ?case by simp
  qed simp
  from this [of "new_limiter r b cap w"] assms show ?thesis using in_step_acquire by (simp add: in_step_def new_limiter_def)
qed

lemma limiter_table_bounded_witness:
  "in_step (foldl limiter_op (new_limiter 60 60 1 3600) [(Some ''a'', 0), (Some ''b'', 1), (None, 2)])
     \<and> fst (acquire ''c'' 3 (foldl limiter_op (new_limiter 60 60 1 3600) [(Some ''a'', 0), (Some ''b'', 1), (None, 2)])) \<noteq> Inl KeyError"
  by (rule limiter_table_bounded) simp

text \<open>With a cap of zero every request fails; with a rate of zero the first refusal does.\<close>

lemma zero_cap_fails: "fst (acquire k now (new_limiter r b 0 w)) = Inl KeyError"
  by (simp add: acquire_def evict_lru_def new_limiter_def)

lemma zero_rate_fails: "fst (acquire k now (new_limiter 0 0 (Suc cap) w)) = Inl ZeroDivisionError"
  by (simp add: acquire_def evict_lru_def new_limiter_def acquire_bucket_def spend_def refill_def Let_def)

end
