(* ===== verification/Tool_Policy.thy ===== *)
theory Tool_Policy
  imports Py_Values "HOL-Library.Sublist"
begin

text \<open>
  The policy that decides which tool calls of an agent run without a human
  (\<open>session/hitl/policy.py\<close>), with the shell patterns of \<open>fnmatch\<close> it uses. What a path resolves to
  depends on the file system (symbolic links, the working directory), so \<open>Path.resolve\<close> is a
  parameter: the components of the absolute path, or the exception it raises.
\<close>

section \<open>Shell patterns\<close>

text \<open>
  One bracket expression: a \<open>-\<close> between two characters is a range, empty when its ends are in the
  wrong order; at the border it stands for itself.
\<close>

fun class_has :: "string \<Rightarrow> char \<Rightarrow> bool" where
  "class_has (a # CHR ''-'' # b # r) c = ((of_char a \<le> (of_char c :: nat) \<and> of_char c \<le> (of_char b :: nat)) \<or> class_has r c)"
| "class_has (a # r) c = (a = c \<or> class_has r c)"
| "class_has [] c = False"

definition class_matches :: "string \<Rightarrow> char \<Rightarrow> bool" where
  "class_matches stuff c = (case stuff of
     CHR ''!'' # r \<Rightarrow> \<not> class_has r c
   | _ \<Rightarrow> class_has stuff c)"

text \<open>
  What stands between the brackets and what follows them: the closing bracket is the first one
  after at least one character (the negation mark apart); without it, the opening one is literal.
\<close>

definition class_split :: "string \<Rightarrow> (string \<times> string) option" where
  "class_split p =
     (let lead = (case p of CHR ''!'' # _ \<Rightarrow> 1 | _ \<Rightarrow> 0);
          skip = (case drop lead p of CHR '']'' # _ \<Rightarrow> lead + 1 | _ \<Rightarrow> lead);
          mid = takeWhile (\<lambda>c. c \<noteq> CHR '']'') (drop skip p)
      in case drop (skip + length mid) p of
           [] \<Rightarrow> None
         | _ # r \<Rightarrow> Some (take (skip + length mid) p, r))"

lemma class_split_shorter:
  assumes "class_split p = Some (stuff, r)"
  shows "length r < length p"
proof -
  obtain n c where "drop n p = c # r"
    using assms by (auto simp: class_split_def Let_def split: list.splits)
  then show ?thesis
    by (metis Suc_le_eq length_Cons length_drop diff_le_self)
qed

function fnmatch :: "string \<Rightarrow> string \<Rightarrow> bool" where
  "fnmatch s [] = (s = [])"
| "fnmatch s (c # p) =
     (if c = CHR ''*'' then fnmatch s p \<or> (case s of [] \<Rightarrow> False | _ # t \<Rightarrow> fnmatch t (c # p))
      else (case s of
          [] \<Rightarrow> False
        | x # t \<Rightarrow>
            if c = CHR ''?'' then fnmatch t p
            else if c = CHR ''['' then (case class_split p of
                None \<Rightarrow> x = c \<and> fnmatch t p
              | Some (stuff, r) \<Rightarrow> class_matches stuff x \<and> fnmatch t r)
            else x = c \<and> fnmatch t p))"
  by pat_completeness auto
termination
  by (relation "measures [\<lambda>(s, p). length p, \<lambda>(s, p). length s]") (auto dest: class_split_shorter)

section \<open>Policy\<close>

datatype decision = ACCEPT | DENY | NEEDS_HITL

record tool_policy =
  auto_accept_tools :: "string set"
  hitl_tools :: "string set"
  neutral_tools :: "string set"
  path_required_tools :: "string set"
  dangerous_patterns :: "string list"

definition make_policy :: "tool_policy \<Rightarrow> py_exn + tool_policy" where
  "make_policy p =
     (if path_required_tools p - auto_accept_tools p \<noteq> {} then Inl ValueError else Inr p)"

definition DEFAULT_AUTO_ACCEPT :: "string set" where
  "DEFAULT_AUTO_ACCEPT = {''Edit'', ''Write'', ''MultiEdit'', ''NotebookEdit''}"

definition DEFAULT_HITL :: "string set" where
  "DEFAULT_HITL = {''Bash'', ''WebFetch'', ''Task''}"

definition DEFAULT_NEUTRAL :: "string set" where
  "DEFAULT_NEUTRAL = {''Read'', ''Glob'', ''Grep'', ''LS''}"

definition DEFAULT_DANGEROUS :: "string list" where
  "DEFAULT_DANGEROUS =
     [''*.env'', ''*/.git/*'', ''*/secrets/*'', ''*/credentials/*'', ''*id_rsa*'', ''*.pem'']"

definition DEFAULT_POLICY :: tool_policy where
  "DEFAULT_POLICY = \<lparr>auto_accept_tools = DEFAULT_AUTO_ACCEPT, hitl_tools = DEFAULT_HITL,
     neutral_tools = DEFAULT_NEUTRAL, path_required_tools = DEFAULT_AUTO_ACCEPT,
     dangerous_patterns = DEFAULT_DANGEROUS\<rparr>"

definition PATH_FIELDS :: "string list" where
  "PATH_FIELDS = [''file_path'', ''notebook_path'', ''path'']"

definition nonempty_str :: "pyval \<Rightarrow> string option" where
  "nonempty_str v = (case v of PStr s \<Rightarrow> if s = [] then None else Some s | _ \<Rightarrow> None)"

fun first_some :: "'a option list \<Rightarrow> 'a option" where
  "first_some [] = None"
| "first_some (Some x # xs) = Some x"
| "first_some (None # xs) = first_some xs"

definition extract_path :: "pydict \<Rightarrow> string option" where
  "extract_path args = first_some (map (\<lambda>k. nonempty_str (dget args k)) PATH_FIELDS)"

type_synonym fs = "string \<Rightarrow> py_exn + string list"

definition path_text :: "string list \<Rightarrow> string" where
  "path_text cs = (if cs = [] then ''/'' else concat (map (\<lambda>c. CHR ''/'' # c) cs))"

text \<open>\<open>relative_to\<close> raises \<open>ValueError\<close> unless the path starts with all components of the directory.\<close>

definition inside_cwd :: "fs \<Rightarrow> string \<Rightarrow> string \<Rightarrow> py_exn + bool" where
  "inside_cwd resolve path cwd = (case resolve path of
     Inl e \<Rightarrow> if e = ValueError then Inr False else Inl e
   | Inr ps \<Rightarrow> (case resolve cwd of
        Inl e \<Rightarrow> if e = ValueError then Inr False else Inl e
      | Inr cs \<Rightarrow> Inr (prefix cs ps)))"

definition matches_dangerous :: "fs \<Rightarrow> tool_policy \<Rightarrow> string \<Rightarrow> py_exn + bool" where
  "matches_dangerous resolve p path = (case resolve path of
     Inl e \<Rightarrow> Inl e
   | Inr ps \<Rightarrow> Inr (list_ex (\<lambda>pat. fnmatch (str_lower (path_text ps)) (str_lower pat)) (dangerous_patterns p)))"

definition decide :: "fs \<Rightarrow> tool_policy \<Rightarrow> string \<Rightarrow> pydict \<Rightarrow> string \<Rightarrow> py_exn + decision" where
  "decide resolve p tool args cwd =
     (if tool \<in> neutral_tools p then Inr ACCEPT
      else if tool \<in> auto_accept_tools p then
        (case extract_path args of
           None \<Rightarrow> Inr (if tool \<in> path_required_tools p then NEEDS_HITL else ACCEPT)
         | Some path \<Rightarrow> (case inside_cwd resolve path cwd of
              Inl e \<Rightarrow> Inl e
            | Inr False \<Rightarrow> Inr NEEDS_HITL
            | Inr True \<Rightarrow> map_sum id (\<lambda>d. if d then NEEDS_HITL else ACCEPT) (matches_dangerous resolve p path)))
      else Inr NEEDS_HITL)"

section \<open>What the patterns mean\<close>

definition literal :: "string \<Rightarrow> bool" where
  "literal p = list_all (\<lambda>c. c \<noteq> CHR ''*'' \<and> c \<noteq> CHR ''?'' \<and> c \<noteq> CHR ''['') p"

lemma fnmatch_literal: "literal p \<Longrightarrow> fnmatch s (p @ r) = (\<exists>t. s = p @ t \<and> fnmatch t r)"
  by (induction p arbitrary: s) (auto simp: literal_def split: list.splits)

lemma fnmatch_star: "fnmatch s (CHR ''*'' # p) = (\<exists>t. suffix t s \<and> fnmatch t p)"
  by (induction s) (auto simp: suffix_Cons)

lemma fnmatch_star_literal:
  assumes "literal p"
  shows "fnmatch s (CHR ''*'' # p) = suffix p s"
  using fnmatch_literal [OF assms, of _ "[]"] by (auto simp: fnmatch_star simp del: fnmatch.simps(2))

lemma fnmatch_star_literal_star:
  assumes "literal p"
  shows "fnmatch s (CHR ''*'' # p @ ''*'') = sublist p s"
proof -
  have "fnmatch t ''*''" for t
    by (induction t) simp_all
  then show ?thesis
    using fnmatch_literal [OF assms, of _ "''*''"]
    by (auto simp: fnmatch_star suffix_def sublist_def simp del: fnmatch.simps(2))
qed

section \<open>What the default policy lets through\<close>

definition slash_free :: "string \<Rightarrow> bool" where
  "slash_free c = (CHR ''/'' \<notin> set c)"

definition under_slashes :: "string list \<Rightarrow> string" where
  "under_slashes cs = concat (map (\<lambda>c. CHR ''/'' # c) cs)"

lemma under_slashes_simps [simp]:
  "under_slashes [] = []"
  "under_slashes (c # cs) = CHR ''/'' # c @ under_slashes cs"
  by (simp_all add: under_slashes_def)

lemma hd_under_slashes: "cs \<noteq> [] \<Longrightarrow> \<exists>t. under_slashes cs = CHR ''/'' # t"
  by (cases cs) auto

lemma prefix_component:
  assumes "slash_free w" "slash_free c"
  shows "prefix (w @ ''/'') (c @ under_slashes cs) = (w = c \<and> cs \<noteq> [])"
  using assms
proof (induction w arbitrary: c)
  case Nil
  then show ?case
    using hd_under_slashes [of cs] by (cases c; cases cs) (auto simp: slash_free_def)
next
  case (Cons a w)
  then show ?case
    by (cases c; cases cs) (auto simp: slash_free_def)
qed

lemma sublist_skip: "slash_free c \<Longrightarrow> sublist (CHR ''/'' # w) (c @ t) = sublist (CHR ''/'' # w) t"
  by (induction c) (auto simp: slash_free_def sublist_Cons_right)

lemma sublist_directory:
  assumes "slash_free w" "list_all slash_free cs"
  shows "sublist (CHR ''/'' # w @ ''/'') (under_slashes cs) = (w \<in> set (butlast cs))"
  using assms(2)
proof (induction cs)
  case (Cons c cs)
  then show ?case
    using prefix_component [OF assms(1), of c cs] sublist_skip [of c "w @ ''/''" "under_slashes cs"]
    by (auto simp: sublist_Cons_right)
qed simp

lemma sublist_within:
  assumes "slash_free w" "w \<noteq> []" "slash_free c"
  shows "sublist w (c @ under_slashes cs) = (sublist w c \<or> sublist w (under_slashes cs))"
  using assms(3)
proof (induction c)
  case Nil
  then show ?case
    using assms(2) by (simp add: sublist_Nil_right)
next
  case (Cons a c)
  have "prefix w (d @ under_slashes cs) = prefix w d" if "slash_free d" for d
  proof
    assume p: "prefix w (d @ under_slashes cs)"
    show "prefix w d"
    proof (cases "cs = []")
      case False
      then obtain t where "under_slashes cs = CHR ''/'' # t"
        using hd_under_slashes by blast
      with p assms(1) show ?thesis
        by (auto simp: prefix_append prefix_Cons slash_free_def)
    qed (use p in simp)
  qed (simp add: prefix_prefix)
  from this [of "a # c"] Cons.prems have "prefix w (a # c @ under_slashes cs) = prefix w (a # c)"
    by simp
  with Cons show ?case
    by (auto simp: sublist_Cons_right slash_free_def)
qed

lemma sublist_component:
  assumes "slash_free w" "w \<noteq> []" "list_all slash_free cs"
  shows "sublist w (under_slashes cs) = list_ex (sublist w) cs"
  using assms(3)
proof (induction cs)
  case (Cons c cs)
  have "\<not> prefix w (CHR ''/'' # t)" for t
    using assms(1,2) by (cases w) (auto simp: slash_free_def)
  with Cons show ?case
    using sublist_within [OF assms(1,2), of c cs] by (simp add: sublist_Cons_right)
qed (use assms(2) in simp)

lemma suffix_component:
  assumes "slash_free w" "list_all slash_free cs" "cs \<noteq> []"
  shows "suffix w (under_slashes cs) = suffix w (last cs)"
proof -
  define d where "d = under_slashes (butlast cs) @ ''/''"
  have "under_slashes cs = d @ last cs"
    using assms(3) unfolding d_def by (induction cs) auto
  moreover have "suffix w (d @ c) = suffix w c" for c
  proof
    assume "suffix w (d @ c)"
    then consider "suffix w c" | xs where "w = xs @ c" "suffix xs d"
      by (auto simp: suffix_append)
    then show "suffix w c"
    proof cases
      case 2
      have "xs = []"
        using 2 assms(1) by (cases xs rule: rev_cases) (auto simp: d_def slash_free_def)
      with 2 show ?thesis
        by simp
    qed
  qed (simp add: suffix_append)
  ultimately show ?thesis
    by simp
qed

text \<open>
  A path the default patterns single out, in terms of its resolved components and regardless of
  case: a file name ending in \<open>.env\<close> or \<open>.pem\<close>, a directory \<open>.git\<close>, \<open>secrets\<close> or \<open>credentials\<close>
  above the file, or \<open>id_rsa\<close> anywhere.
\<close>

definition risky :: "string list \<Rightarrow> bool" where
  "risky ps = (let ls = map str_lower ps in
     (ls \<noteq> [] \<and> (suffix ''.env'' (last ls) \<or> suffix ''.pem'' (last ls))) \<or>
     list_ex (\<lambda>d. d \<in> {''.git'', ''secrets'', ''credentials''}) (butlast ls) \<or>
     list_ex (sublist ''id_rsa'') ls)"

lemma char_lower_slash [simp]: "char_lower c = CHR ''/'' \<longleftrightarrow> c = CHR ''/''"
proof
  assume a: "char_lower c = CHR ''/''"
  show "c = CHR ''/''"
  proof (rule ccontr)
    assume "c \<noteq> CHR ''/''"
    with a have n: "65 \<le> (of_char c :: nat)" "of_char c \<le> (90 :: nat)"
      and e: "char_of ((of_char c :: nat) + 32) = CHR ''/''"
      by (auto simp: char_lower_def Let_def split: if_splits)
    from e have "of_char (char_of ((of_char c :: nat) + 32) :: char) = (47 :: nat)"
      by simp
    with n show False
      by simp
  qed
qed (simp add: char_lower_def)

lemma lower_slash_free: "slash_free c \<Longrightarrow> slash_free (str_lower c)"
  by (auto simp: slash_free_def str_lower_def dest: sym [of "CHR ''/''"])

lemma lower_under_slashes: "str_lower (under_slashes cs) = under_slashes (map str_lower cs)"
  by (induction cs) (simp_all add: str_lower_def)

lemma lower_patterns:
  "map str_lower DEFAULT_DANGEROUS = DEFAULT_DANGEROUS"
  by (simp add: DEFAULT_DANGEROUS_def str_lower_def char_lower_def)

lemma default_patterns:
  "list_ex (fnmatch s) DEFAULT_DANGEROUS \<longleftrightarrow>
     suffix ''.env'' s \<or> suffix ''.pem'' s \<or> sublist ''/.git/'' s \<or> sublist ''/secrets/'' s \<or>
     sublist ''/credentials/'' s \<or> sublist ''id_rsa'' s"
  using fnmatch_star_literal [of "''.env''" s] fnmatch_star_literal [of "''.pem''" s]
    fnmatch_star_literal_star [of "''/.git/''" s] fnmatch_star_literal_star [of "''/secrets/''" s]
    fnmatch_star_literal_star [of "''/credentials/''" s] fnmatch_star_literal_star [of "''id_rsa''" s]
  by (simp add: DEFAULT_DANGEROUS_def literal_def del: fnmatch.simps) blast

lemma dangerous_risky:
  assumes "list_all slash_free ps"
  shows "list_ex (fnmatch (str_lower (path_text ps))) DEFAULT_DANGEROUS = risky ps"
proof (cases "ps = []")
  case True
  have "\<not> sublist (a # b # r) ''/''" "\<not> suffix (a # b # r) ''/''" for a b r :: "_"
    using sublist_length_le [of "a # b # r" "''/''"] suffix_length_le [of "a # b # r" "''/''"] by auto
  with True show ?thesis
    by (simp add: default_patterns path_text_def risky_def str_lower_def char_lower_def)
next
  case False
  define ls where "ls = map str_lower ps"
  have ls: "list_all slash_free ls" "ls \<noteq> []"
    using assms False by (auto simp: ls_def list_all_iff lower_slash_free)
  have shape: "str_lower (path_text ps) = under_slashes ls"
    using False lower_under_slashes [of ps] by (simp add: path_text_def under_slashes_def ls_def)
  have dirs: "sublist ''/.git/'' (under_slashes ls) = (''.git'' \<in> set (butlast ls))"
    "sublist ''/secrets/'' (under_slashes ls) = (''secrets'' \<in> set (butlast ls))"
    "sublist ''/credentials/'' (under_slashes ls) = (''credentials'' \<in> set (butlast ls))"
    using sublist_directory [OF _ ls(1), of "''.git''"] sublist_directory [OF _ ls(1), of "''secrets''"]
      sublist_directory [OF _ ls(1), of "''credentials''"] by (simp_all add: slash_free_def)
  have names: "suffix ''.env'' (under_slashes ls) = suffix ''.env'' (last ls)"
    "suffix ''.pem'' (under_slashes ls) = suffix ''.pem'' (last ls)"
    "sublist ''id_rsa'' (under_slashes ls) = list_ex (sublist ''id_rsa'') ls"
    using suffix_component [OF _ ls, of "''.env''"] suffix_component [OF _ ls, of "''.pem''"]
      sublist_component [OF _ _ ls(1), of "''id_rsa''"] by (simp_all add: slash_free_def)
  show ?thesis
    unfolding shape default_patterns dirs names risky_def Let_def ls_def [symmetric]
    using ls(2) by (auto simp: list_ex_iff)
qed


definition demo_fs :: fs where
  "demo_fs p = (if p = ''/w'' then Inr [''w'']
     else if p = ''a.py'' then Inr [''w'', ''a.py'']
     else if p = ''.ENV'' then Inr [''w'', ''.ENV'']
     else if p = ''../b'' then Inr [''b'']
     else Inl ValueError)"


text \<open>
  Only the first path field is looked at: a notebook outside the working directory is edited
  without asking when the call also carries a harmless \<open>file_path\<close>.
\<close>

lemma decoy_path_accepted:
  "decide demo_fs DEFAULT_POLICY ''NotebookEdit''
     [(PStr ''notebook_path'', PStr ''../b''), (PStr ''file_path'', PStr ''a.py'')] ''/w'' = Inr ACCEPT"
  "decide demo_fs DEFAULT_POLICY ''NotebookEdit'' [(PStr ''notebook_path'', PStr ''../b'')] ''/w'' = Inr NEEDS_HITL"
  by code_simp+

text \<open>
  A policy that passed its constructor check asks for a path only of tools it may accept, so for
  such a tool a call without a path always goes to a human.
\<close>

lemma path_required:
  assumes "make_policy p = Inr q" "tool \<in> path_required_tools q" "tool \<notin> neutral_tools q" "extract_path args = None"
  shows "decide resolve q tool args cwd = Inr NEEDS_HITL"
  using assms by (auto simp: make_policy_def decide_def split: if_splits)

end
