(* ===== verification/Wire_Frames.thy ===== *)
theory Wire_Frames
  imports Relay_Events
begin

text \<open>
  The frame builders of \<open>session/frames.py\<close>, for both directions of a session's transport, and
  their agreement with the event factories of \<open>core/events.py\<close>: what a runner builds is what the
  subscribers see. \<open>ts\<close> is the time stamp text that \<open>_now_iso\<close> gives.
\<close>

section \<open>Builders\<close>

definition envelope :: "string \<Rightarrow> int \<Rightarrow> string \<Rightarrow> pydict \<Rightarrow> pydict" where
  "envelope ts seq ftype rest =
     [(PStr ''v'', PInt 1), (PStr ''type'', PStr ftype), (PStr ''seq'', PInt seq), (PStr ''ts'', PStr ts)] @ rest"

definition opt_field :: "string \<Rightarrow> string option \<Rightarrow> pydict" where
  "opt_field k v = (case v of None \<Rightarrow> [] | Some s \<Rightarrow> [(PStr k, PStr s)])"

definition make_msg_chunk :: "string \<Rightarrow> int \<Rightarrow> pydict \<Rightarrow> pydict" where
  "make_msg_chunk ts seq data = envelope ts seq ''msg.chunk'' [(PStr ''data'', PDict data)]"

definition make_tool_request :: "string \<Rightarrow> int \<Rightarrow> string \<Rightarrow> string \<Rightarrow> pydict \<Rightarrow> pydict" where
  "make_tool_request ts seq req_id tool args =
     envelope ts seq ''tool.request'' [(PStr ''req_id'', PStr req_id), (PStr ''tool'', PStr tool), (PStr ''args'', PDict args)]"

definition make_tool_result :: "string \<Rightarrow> int \<Rightarrow> string \<Rightarrow> bool \<Rightarrow> pydict \<Rightarrow> pydict" where
  "make_tool_result ts seq req_id ok result =
     envelope ts seq ''tool.result'' [(PStr ''req_id'', PStr req_id), (PStr ''ok'', PBool ok), (PStr ''result'', PDict result)]"

definition make_hook_frame ::
    "string \<Rightarrow> int \<Rightarrow> string \<Rightarrow> string \<Rightarrow> pydict \<Rightarrow> string option \<Rightarrow> string option \<Rightarrow> string option \<Rightarrow> string option \<Rightarrow> string option \<Rightarrow> pydict" where
  "make_hook_frame ts seq ftype event_type input_redacted tool_name tool_use_id parent_tool_use_id sdk_session_id input_hash =
     envelope ts seq ftype
       ([(PStr ''event_type'', PStr event_type), (PStr ''input_redacted'', PDict input_redacted)]
        @ opt_field ''tool_name'' tool_name @ opt_field ''tool_use_id'' tool_use_id @ opt_field ''parent_tool_use_id'' parent_tool_use_id
        @ opt_field ''sdk_session_id'' sdk_session_id @ opt_field ''input_hash'' input_hash)"

definition make_session_end :: "string \<Rightarrow> int \<Rightarrow> string \<Rightarrow> pydict \<Rightarrow> pyfloat \<Rightarrow> pydict" where
  "make_session_end ts seq status tokens cost_usd =
     envelope ts seq ''session.end'' [(PStr ''status'', PStr status), (PStr ''tokens'', PDict tokens), (PStr ''cost_usd'', PFloat cost_usd)]"

definition make_error :: "string \<Rightarrow> int \<Rightarrow> string \<Rightarrow> string \<Rightarrow> string option \<Rightarrow> pydict" where
  "make_error ts seq code message traceback =
     envelope ts seq ''error'' ([(PStr ''code'', PStr code), (PStr ''message'', PStr message)] @ opt_field ''traceback'' traceback)"

definition make_install_done :: "string \<Rightarrow> int \<Rightarrow> string option \<Rightarrow> string list \<Rightarrow> int \<Rightarrow> string \<Rightarrow> pydict" where
  "make_install_done ts seq profile_id modules duration_ms install_root =
     envelope ts seq ''install.done''
       [(PStr ''profile_id'', case profile_id of None \<Rightarrow> PNone | Some s \<Rightarrow> PStr s), (PStr ''modules'', PList (map PStr modules)),
        (PStr ''duration_ms'', PInt duration_ms), (PStr ''install_root'', PStr install_root)]"

definition STDERR_TAIL_MAX :: nat where
  "STDERR_TAIL_MAX = 2048"

text \<open>\<open>s[-n:]\<close> is the text itself when it is not longer than \<open>n\<close>.\<close>

definition tail_of :: "nat \<Rightarrow> string \<Rightarrow> string" where
  "tail_of n s = drop (length s - n) s"

definition make_install_error :: "string \<Rightarrow> int \<Rightarrow> string \<Rightarrow> string \<Rightarrow> string \<Rightarrow> pydict" where
  "make_install_error ts seq code message stderr_tail =
     envelope ts seq ''install.error''
       [(PStr ''code'', PStr code), (PStr ''message'', PStr message), (PStr ''stderr_tail'', PStr (tail_of STDERR_TAIL_MAX stderr_tail))]"

definition make_tool_decision :: "string \<Rightarrow> int \<Rightarrow> string \<Rightarrow> string \<Rightarrow> string option \<Rightarrow> pydict" where
  "make_tool_decision ts seq req_id decision reason =
     envelope ts seq ''tool.decision'' ([(PStr ''req_id'', PStr req_id), (PStr ''decision'', PStr decision)] @ opt_field ''reason'' reason)"

definition make_ping :: "string \<Rightarrow> int \<Rightarrow> pydict" where
  "make_ping ts seq = envelope ts seq ''ping'' []"

definition make_pong :: "string \<Rightarrow> int \<Rightarrow> pydict" where
  "make_pong ts seq = envelope ts seq ''pong'' []"

definition make_shutdown :: "string \<Rightarrow> int \<Rightarrow> pydict" where
  "make_shutdown ts seq = envelope ts seq ''shutdown'' []"

definition make_pause :: "string \<Rightarrow> int \<Rightarrow> string \<Rightarrow> string option \<Rightarrow> pydict" where
  "make_pause ts seq req_id reason = envelope ts seq ''pause'' ((PStr ''req_id'', PStr req_id) # opt_field ''reason'' reason)"

definition make_resume :: "string \<Rightarrow> int \<Rightarrow> string \<Rightarrow> string option \<Rightarrow> pydict" where
  "make_resume ts seq req_id hint = envelope ts seq ''resume'' ((PStr ''req_id'', PStr req_id) # opt_field ''hint'' hint)"

definition make_pause_ack :: "string \<Rightarrow> int \<Rightarrow> string \<Rightarrow> bool \<Rightarrow> string option \<Rightarrow> pydict" where
  "make_pause_ack ts seq req_id ok error =
     envelope ts seq ''pause.ack'' ([(PStr ''req_id'', PStr req_id), (PStr ''ok'', PBool ok)] @ opt_field ''error'' error)"

definition make_resume_ack :: "string \<Rightarrow> int \<Rightarrow> string \<Rightarrow> bool \<Rightarrow> string option \<Rightarrow> pydict" where
  "make_resume_ack ts seq req_id ok error =
     envelope ts seq ''resume.ack'' ([(PStr ''req_id'', PStr req_id), (PStr ''ok'', PBool ok)] @ opt_field ''error'' error)"

section \<open>What the builders put is what the readers get\<close>

lemma dget_simps [simp]:
  "dget [] k = PNone" "dget ((PStr j, v) # d) k = (if j = k then v else dget d k)"
  by (simp_all add: dget_def)

lemma dget_opt_field [simp]:
  "dget (opt_field j v @ d) k = (if j = k then (case v of None \<Rightarrow> dget d k | Some s \<Rightarrow> PStr s) else dget d k)"
  "dget (opt_field j v) k = (if j = k then (case v of None \<Rightarrow> PNone | Some s \<Rightarrow> PStr s) else PNone)"
  by (simp_all add: opt_field_def split: option.splits)

lemma dget_envelope [simp]:
  "dget (envelope ts seq ftype rest) k =
     (if k = ''v'' then PInt 1 else if k = ''type'' then PStr ftype else if k = ''seq'' then PInt seq else if k = ''ts'' then PStr ts else dget rest k)"
  by (simp add: envelope_def)

lemmas frame_defs = make_msg_chunk_def make_tool_request_def make_tool_result_def make_hook_frame_def make_session_end_def make_error_def
  make_install_done_def make_install_error_def make_tool_decision_def make_ping_def make_pong_def make_shutdown_def make_pause_def
  make_resume_def make_pause_ack_def make_resume_ack_def

lemma safe_int_PInt [simp]: "safe_int (PInt n) = Inr n"
  by (simp add: safe_int_def)

lemma tokens_of_ints: "tokens_of (map (\<lambda>(k, i). (PStr k, PInt i)) toks) acc = Inr (fold (\<lambda>(k, i). AList.update k i) toks acc)"
  by (induction toks arbitrary: acc) auto

lemma as_str_opt: "as_str (case v of None \<Rightarrow> PNone | Some s \<Rightarrow> PStr s) = v"
  by (cases v) simp_all

lemma lift_session_end:
  "frame_to_event sid (make_session_end ts n status (map (\<lambda>(k, i). (PStr k, PInt i)) toks) c) =
     Inr (Some (SessionCompleted sid (if status = ''cancelled'' then ''cancelled'' else if status = ''crashed'' \<or> status = ''failed'' then ''failed'' else ''completed'')
                  (fold (\<lambda>(k, i). AList.update k i) toks []) c))"
proof -
  have "py_float (py_or (PFloat c) (PFloat (Fin 0))) = Inr c" by (simp add: py_or_def)
  moreover have "as_dict (py_or (PDict (map (\<lambda>(k, i). (PStr k, PInt i)) toks)) (PDict [])) = Some (map (\<lambda>(k, i). (PStr k, PInt i)) toks)"
    by (simp add: py_or_def)
  ultimately show ?thesis
    by (simp add: frame_to_event_def FRAME_TO_EVENT_def factory_defs frame_defs tokens_of_ints end_status_of_def safe_str_def Let_def)
qed

text \<open>Every frame a runner builds becomes the event with exactly the fields it was built from: message
  chunks, tool requests and results, hook events, installation reports, errors, the end of the session
  and heartbeats. Control frames and their acknowledgements give no event.\<close>

lemma built_frames_lift:
  "frame_to_event sid (make_tool_request ts n req tool args) = Inr (Some (ToolRequested sid n req tool args)) \<and>
   frame_to_event sid (make_tool_result ts n req ok result) = Inr (Some (ToolResolved sid n req ok result None)) \<and>
   frame_to_event sid (make_msg_chunk ts n data) = Inr (Some (SessionOutputChunk sid n ''msg.chunk'' (make_msg_chunk ts n data))) \<and>
   frame_to_event sid (make_hook_frame ts n ''hook.pre_tool_use'' et inp tn tu pt ss ih) = Inr (Some (ToolInvocationStarted sid n et tn tu pt ih inp)) \<and>
   frame_to_event sid (make_hook_frame ts n ''hook.post_tool_use'' et inp tn tu pt ss ih) = Inr (Some (ToolInvocationFinished sid n et tn tu pt ih inp)) \<and>
   frame_to_event sid (make_hook_frame ts n ''hook.subagent_stop'' et inp tn tu pt ss ih) = Inr (Some (SubagentCompleted sid n et tn tu pt ih inp)) \<and>
   frame_to_event sid (make_install_done ts n prof mods ms rt) = Inr (Some (InstallDone sid prof mods ms)) \<and>
   frame_to_event sid (make_install_error ts n code msg et) = Inr (Some (InstallError sid n code msg None)) \<and>
   frame_to_event sid (make_error ts n code msg tb) = Inr (Some (InstallError sid n code msg tb)) \<and>
   frame_to_event sid (make_session_end ts n status (map (\<lambda>(k, i). (PStr k, PInt i)) toks) c) =
     Inr (Some (SessionCompleted sid (if status = ''cancelled'' then ''cancelled'' else if status = ''crashed'' \<or> status = ''failed'' then ''failed'' else ''completed'')
                  (fold (\<lambda>(k, i). AList.update k i) toks []) c)) \<and>
   frame_to_event sid (make_pong ts n) = Inr (Some (Heartbeat sid [])) \<and>
   frame_to_event sid (make_ping ts n) = Inr None \<and>
   frame_to_event sid (make_shutdown ts n) = Inr None \<and>
   frame_to_event sid (make_pause ts n req r) = Inr None \<and>
   frame_to_event sid (make_resume ts n req r) = Inr None \<and>
   frame_to_event sid (make_pause_ack ts n req ok tb) = Inr None \<and>
   frame_to_event sid (make_resume_ack ts n req ok tb) = Inr None \<and>
   frame_to_event sid (make_tool_decision ts n req code r) = Inr None"
  by (intro conjI lift_session_end)
     (auto simp: frame_to_event_def FRAME_TO_EVENT_def factory_defs frame_defs py_or_def safe_str_def dget_default_def as_str_opt
        List.map_filter_def envelope_def comp_def split: option.splits)

end
