(* ===== verification/Hitl_Coordinator.thy ===== *)
theory Hitl_Coordinator
  imports Session_Store
begin

text \<open>
  Human-in-the-loop decisions: the in-process router of pending requests
  (\<open>session/hitl/coordinator.py\<close>) and the endpoints that resolve them (\<open>api/routers/hitl.py\<close>).
  A pending entry holds a future: \<open>None\<close> until a decision is set. The coordinator's methods run
  under its lock without suspending, so each is one step; the endpoints await the database, and
  what other tasks do at each await is the next entry of a script.
\<close>

section \<open>Coordinator\<close>

record pending_entry =
  e_tool :: string
  e_args :: pydict
  e_future :: "(string \<times> string option) option"
  e_session :: string

record coord =
  pend :: "(string, pending_entry) od"
  store_attached :: bool

definition init_coord :: "bool \<Rightarrow> coord" where
  "init_coord attached = \<lparr>pend = [], store_attached = attached\<rparr>"

record decision_view =
  d_status :: string
  d_resolver :: "string option"
  d_reason :: "string option"
  d_resolved_at :: "int option"

definition decision_from_row :: "hitl_row \<Rightarrow> decision_view" where
  "decision_from_row r = \<lparr>d_status = h_status r, d_resolver = h_resolver r, d_reason = h_reason r, d_resolved_at = h_resolved_at r\<rparr>"

datatype hitl_exn = AlreadyPending | HITLNotPending | HITLAlreadyResolved decision_view

text \<open>\<open>request\<close> up to its await: the id is registered, or refused when it is pending already.\<close>

definition request_begin :: "string \<Rightarrow> string \<Rightarrow> pydict \<Rightarrow> string \<Rightarrow> coord \<Rightarrow> (hitl_exn + unit) \<times> coord" where
  "request_begin rid tool args sid c =
     (if rid \<in> set (od_keys (pend c)) then (Inl AlreadyPending, c)
      else (Inr (), c\<lparr>pend := AList.update rid \<lparr>e_tool = tool, e_args = args, e_future = None, e_session = sid\<rparr> (pend c)\<rparr>))"

text \<open>
  The rest of \<open>request\<close>: the awaiter resumes with the decision, or is cancelled (\<open>None\<close>); the
  entry is removed in both cases.
\<close>

definition request_end :: "string \<Rightarrow> coord \<Rightarrow> (string \<times> string option) option \<times> coord" where
  "request_end rid c =
     (case map_of (pend c) rid of None \<Rightarrow> None | Some e \<Rightarrow> e_future e, c\<lparr>pend := AList.delete rid (pend c)\<rparr>)"

text \<open>Setting the result of a future that has none.\<close>

definition fire :: "string \<Rightarrow> string \<Rightarrow> string option \<Rightarrow> coord \<Rightarrow> (hitl_exn + unit) \<times> coord" where
  "fire rid decision reason c = (case map_of (pend c) rid of
     None \<Rightarrow> (Inl HITLNotPending, c)
   | Some e \<Rightarrow>
       if e_future e \<noteq> None then (Inl HITLNotPending, c)
       else (Inr (), c\<lparr>pend := AList.update rid (e\<lparr>e_future := Some (decision, reason)\<rparr>) (pend c)\<rparr>))"

definition resolve :: "string \<Rightarrow> string \<Rightarrow> string option \<Rightarrow> store \<Rightarrow> coord \<Rightarrow> (hitl_exn + unit) \<times> coord" where
  "resolve rid decision reason db c =
     (case (if store_attached c then get_hitl rid db else None) of
        None \<Rightarrow> fire rid decision reason c
      | Some row \<Rightarrow>
          if h_status row \<noteq> ''pending'' then (Inl (HITLAlreadyResolved (decision_from_row row)), c)
          else fire rid decision reason c)"

definition in_scope :: "string option \<Rightarrow> pending_entry \<Rightarrow> bool" where
  "in_scope sid e \<longleftrightarrow> e_future e = None \<and> (case sid of None \<Rightarrow> True | Some s \<Rightarrow> e_session e = s)"

definition cancel_all :: "string \<Rightarrow> string option \<Rightarrow> coord \<Rightarrow> nat \<times> coord" where
  "cancel_all reason sid c =
     (length (filter (in_scope sid \<circ> snd) (pend c)),
      c\<lparr>pend := map (\<lambda>(k, e). (k, if in_scope sid e then e\<lparr>e_future := Some (''deny'', Some reason)\<rparr> else e)) (pend c)\<rparr>)"

definition pending_snapshot :: "string option \<Rightarrow> coord \<Rightarrow> (string \<times> string \<times> pydict \<times> string) list" where
  "pending_snapshot sid c =
     map (\<lambda>(k, e). (k, e_tool e, e_args e, e_session e)) (filter (in_scope sid \<circ> snd) (pend c))"

section \<open>Endpoints\<close>

text \<open>
  What an endpoint works on. \<open>w_audit\<close> is the audit service, if configured: whether a write
  succeeds; \<open>w_audits\<close> are the records written.
\<close>

record hitl_audit =
  ha_actor :: string
  ha_action :: string
  ha_target :: string
  ha_metadata :: pydict

record world =
  w_db :: store
  w_coord :: coord
  w_audit :: "(hitl_audit \<Rightarrow> bool) option"
  w_audits :: "hitl_audit list"

type_synonym world_script = "(world \<Rightarrow> world) list"

definition await :: "world \<times> world_script \<Rightarrow> world \<times> world_script" where
  "await p = (case snd p of [] \<Rightarrow> p | f # fs \<Rightarrow> (f (fst p), fs))"

datatype response =
    Resolved string string
  | Conflict string "decision_view option"
  | FailedWith store_exn

definition full_req_id :: "string \<Rightarrow> string \<Rightarrow> string" where
  "full_req_id sid req = (if CHR '':'' \<in> set req then req else sid @ '':'' @ req)"

definition reason_with_resolver :: "string option \<Rightarrow> string option \<Rightarrow> string option" where
  "reason_with_resolver reason resolver = (case resolver of
     None \<Rightarrow> reason
   | Some [] \<Rightarrow> reason
   | Some w \<Rightarrow> (case reason of
        None \<Rightarrow> Some (''by:'' @ w)
      | Some [] \<Rightarrow> Some (''by:'' @ w)
      | Some t \<Rightarrow> Some (t @ ''|by:'' @ w)))"

definition write_of :: "hitl_row option \<Rightarrow> string \<Rightarrow> int \<Rightarrow> string option \<Rightarrow> string option \<Rightarrow> hitl_write" where
  "write_of row decision now reason resolver =
     \<lparr>w_tool = (case row of None \<Rightarrow> [] | Some r \<Rightarrow> h_tool r), w_args = (case row of None \<Rightarrow> [] | Some r \<Rightarrow> h_args r),
      w_status = decision, w_resolved_at = Some now, w_reason = reason, w_resolver = resolver\<rparr>"

definition created_of :: "hitl_row option \<Rightarrow> int \<Rightarrow> int" where
  "created_of row now = (case row of None \<Rightarrow> now | Some r \<Rightarrow> h_created_at r)"

definition conflict_response :: "string \<Rightarrow> world \<Rightarrow> response" where
  "conflict_response rid w = Conflict rid (map_option decision_from_row (get_hitl rid (w_db w)))"

text \<open>\<open>POST /sessions/{sid}/hitl/{req}\<close>.\<close>

definition resolve_endpoint ::
    "string \<Rightarrow> string \<Rightarrow> string \<Rightarrow> string option \<Rightarrow> string option \<Rightarrow> int \<Rightarrow> world \<times> world_script \<Rightarrow> response \<times> world" where
  "resolve_endpoint sid req decision reason resolver now p0 =
     (let rid = full_req_id sid req;
          v = get_hitl_version rid (w_db (fst p0));
          p1 = await p0;
          row = get_hitl rid (w_db (fst p1));
          p2 = await p1
      in case resolve rid decision (reason_with_resolver reason resolver) (w_db (fst p2)) (w_coord (fst p2)) of
           (Inl _, _) \<Rightarrow> let p3 = await p2 in (conflict_response rid (fst p3), fst p3)
         | (Inr _, c) \<Rightarrow>
             (let p3 = await ((fst p2)\<lparr>w_coord := c\<rparr>, snd p2)
              in case upsert_hitl rid sid (write_of row decision now reason resolver) (created_of row now) v (w_db (fst p3)) of
                   (Inr _, db) \<Rightarrow> (Resolved decision rid, (fst p3)\<lparr>w_db := db\<rparr>)
                 | (Inl (ConcurrencyError _ _), db) \<Rightarrow>
                     (let p4 = await ((fst p3)\<lparr>w_db := db\<rparr>, snd p3) in (conflict_response rid (fst p4), fst p4))
                 | (Inl e, db) \<Rightarrow> (FailedWith e, (fst p3)\<lparr>w_db := db\<rparr>)))"

datatype batch_item = ItemOk string | ItemError string string

text \<open>
  One turn of the batch loop; \<open>act\<close> is the action of the request and the size of the batch,
  \<open>label\<close> the caller's key label. A failing audit write is swallowed.
\<close>

definition opt_pystr :: "string option \<Rightarrow> pyval" where
  "opt_pystr s = (case s of None \<Rightarrow> PNone | Some t \<Rightarrow> PStr t)"

definition audit_item :: "string \<times> nat \<Rightarrow> string \<Rightarrow> string option \<Rightarrow> string \<Rightarrow> string \<Rightarrow> world \<times> world_script \<Rightarrow> world \<times> world_script" where
  "audit_item act decision reason label hid p = (case w_audit (fst p) of
     None \<Rightarrow> p
   | Some writes \<Rightarrow>
       (let a = \<lparr>ha_actor = label, ha_action = ''hitl_batch_'' @ fst act, ha_target = hid,
                 ha_metadata = [(PStr ''reason'', opt_pystr reason), (PStr ''batch_size'', PInt (int (snd act))),
                                (PStr ''decision'', PStr decision)]\<rparr>;
            p1 = await p
        in if writes a then ((fst p1)\<lparr>w_audits := w_audits (fst p1) @ [a]\<rparr>, snd p1) else p1))"

definition batch_one ::
    "string \<times> nat \<Rightarrow> string \<Rightarrow> string option \<Rightarrow> string \<Rightarrow> int \<Rightarrow> string \<Rightarrow> world \<times> world_script \<Rightarrow> batch_item \<times> (world \<times> world_script)" where
  "batch_one act decision reason label now hid p0 =
     (let v = get_hitl_version hid (w_db (fst p0));
          p1 = await p0;
          row = get_hitl hid (w_db (fst p1));
          p2 = await p1
      in case resolve hid decision reason (w_db (fst p2)) (w_coord (fst p2)) of
           (Inl (HITLAlreadyResolved _), _) \<Rightarrow> (ItemError hid ''hitl_already_resolved'', p2)
         | (Inl HITLNotPending, _) \<Rightarrow> (ItemError hid ''hitl_not_pending'', p2)
         | (Inl _, _) \<Rightarrow> (ItemError hid ''internal_error'', p2)
         | (Inr _, c) \<Rightarrow>
             (let p3 = await ((fst p2)\<lparr>w_coord := c\<rparr>, snd p2)
              in case upsert_hitl hid (case row of None \<Rightarrow> [] | Some r \<Rightarrow> h_session r)
                        (write_of row decision now reason (Some label)) (created_of row now) v (w_db (fst p3)) of
                   (Inr _, db) \<Rightarrow> (ItemOk hid, audit_item act decision reason label hid (await ((fst p3)\<lparr>w_db := db\<rparr>, snd p3)))
                 | (Inl (ConcurrencyError _ _), db) \<Rightarrow> (ItemError hid ''hitl_already_resolved'', ((fst p3)\<lparr>w_db := db\<rparr>, snd p3))
                 | (Inl _, db) \<Rightarrow> (ItemError hid ''internal_error'', ((fst p3)\<lparr>w_db := db\<rparr>, snd p3))))"

fun resolve_batch :: "string \<times> nat \<Rightarrow> string \<Rightarrow> string option \<Rightarrow> string \<Rightarrow> int \<Rightarrow> string list \<Rightarrow> world \<times> world_script
    \<Rightarrow> batch_item list \<times> (world \<times> world_script)" where
  "resolve_batch act decision reason label now [] p = ([], p)"
| "resolve_batch act decision reason label now (h # hs) p =
     (let (i, p1) = batch_one act decision reason label now h p;
          (is, p2) = resolve_batch act decision reason label now hs p1
      in (i # is, p2))"

definition is_ok :: "batch_item \<Rightarrow> bool" where
  "is_ok i = (case i of ItemOk _ \<Rightarrow> True | ItemError _ _ \<Rightarrow> False)"

text \<open>\<open>POST /hitl/batch\<close>: the items and the two counters of the summary.\<close>

definition batch_hitl ::
    "string \<Rightarrow> string option \<Rightarrow> string option \<Rightarrow> int \<Rightarrow> string list \<Rightarrow> world \<times> world_script
     \<Rightarrow> (batch_item list \<times> nat \<times> nat) \<times> world" where
  "batch_hitl action reason label now ids p =
     (let decision = (if action = ''approve'' then ''accept'' else ''deny'');
          who = (case label of None \<Rightarrow> ''anon'' | Some [] \<Rightarrow> ''anon'' | Some l \<Rightarrow> l);
          (is, p1) = resolve_batch (action, length ids) decision reason who now ids p
      in ((is, length (filter is_ok is), length (filter (\<lambda>i. \<not> is_ok i) is)), fst p1))"

lemmas [hitl_simps] =
  request_begin_def request_end_def cancel_all_def pending_snapshot_def in_scope_def

section \<open>Every request gets one decision\<close>

text \<open>The decision a future holds, if any.\<close>

definition decided :: "string \<Rightarrow> coord \<Rightarrow> (string \<times> string option) option" where
  "decided rid c = (case map_of (pend c) rid of None \<Rightarrow> None | Some e \<Rightarrow> e_future e)"

inductive coord_step :: "store \<Rightarrow> coord \<Rightarrow> coord \<Rightarrow> bool" where
  step_begin: "coord_step db c (snd (request_begin rid tool args sid c))"
| step_resolve: "coord_step db c (snd (resolve rid decision reason db c))"
| step_cancel: "coord_step db c (snd (cancel_all reason sid c))"
| step_end: "coord_step db c (snd (request_end rid c))"

lemma map_of_map_snd: "map_of (map (\<lambda>(k, e). (k, f e)) d) k = map_option f (map_of d k)"
  by (induction d) auto

lemma decided_begin: "decided r c = Some d \<Longrightarrow> decided r (snd (request_begin rid tool args sid c)) = Some d"
  by (auto simp: decided_def request_begin_def od_simps split: option.splits dest: od_get_mem)

lemma decided_fire: "decided r c = Some d \<Longrightarrow> decided r (snd (fire rid x y c)) = Some d"
  by (cases d) (auto simp: decided_def fire_def od_get_update split: option.splits if_splits)

lemma decided_resolve: "decided r c = Some d \<Longrightarrow> decided r (snd (resolve rid x y db c)) = Some d"
  by (auto simp: resolve_def decided_fire split: option.splits)

lemma decided_cancel: "decided r c = Some d \<Longrightarrow> decided r (snd (cancel_all reason sid c)) = Some d"
  by (auto simp: decided_def cancel_all_def map_of_map_snd in_scope_def split: option.splits)

lemma decided_end: "decided r c = Some d \<Longrightarrow> r \<noteq> rid \<Longrightarrow> decided r (snd (request_end rid c)) = Some d"
  by (auto simp: decided_def request_end_def od_simps split: option.splits)

text \<open>
  a decision is final. Once a pending request has a decision, no later operation of the
  coordinator, whatever the database says, changes it before its awaiter collects it; and the
  awaiter collects exactly that decision.
\<close>

lemma decision_final:
  assumes "decided rid c = Some d" and "coord_step db c c'"
  shows "decided rid c' = Some d \<or> c' = snd (request_end rid c) \<and> fst (request_end rid c) = Some d"
  using assms(2,1)
proof (cases rule: coord_step.cases)
  case (step_end r)
  then show ?thesis
    using assms(1) decided_end [OF assms(1), of r]
    by (cases "r = rid") (auto simp: decided_def request_end_def split: option.splits)
qed (auto simp: decided_begin decided_resolve decided_cancel)

definition demo_coord :: coord where
  "demo_coord = snd (request_begin ''a:2'' ''Bash'' [] ''a'' (snd (request_begin ''a:1'' ''Bash'' [] ''a'' (init_coord True))))"

lemma decision_final_witness:
  "let c = snd (resolve ''a:1'' ''accept'' None demo_store demo_coord);
       c' = snd (cancel_all ''shutdown'' None c)
   in decided ''a:1'' c' = Some (''accept'', None)"
proof -
  let ?c = "snd (resolve ''a:1'' ''accept'' None demo_store demo_coord)"
  let ?c' = "snd (cancel_all ''shutdown'' None ?c)"
  have d: "decided ''a:1'' ?c = Some (''accept'', None)" by code_simp
  have n: "decided ''a:1'' ?c' \<noteq> None" by code_simp
  have e: "decided ''a:1'' (snd (request_end ''a:1'' ?c)) = None" by code_simp
  from decision_final [OF d step_cancel [of demo_store ?c "''shutdown''" None]] n e
  show ?thesis by (auto simp: Let_def)
qed

text \<open>
  cancelling releases every waiter. After \<open>cancel_all\<close>, no request in scope is undecided,
  the requests that were undecided in scope are denied with the reason, all others are as
  before, the count is their number, and a second call finds nothing.
\<close>

lemma cancel_all_denies:
  assumes "cancel_all reason sid c = (n, c')"
  shows "pending_snapshot sid c' = [] \<and> n = length (pending_snapshot sid c) \<and> fst (cancel_all why sid c') = 0
     \<and> (\<forall>rid e. map_of (pend c) rid = Some e \<longrightarrow>
          decided rid c' = (if in_scope sid e then Some (''deny'', Some reason) else decided rid c))"
proof -
  have c': "c' = snd (cancel_all reason sid c)" "n = fst (cancel_all reason sid c)" using assms by simp_all
  have none: "filter (in_scope sid \<circ> snd) (pend c') = []"
    by (auto simp: c' cancel_all_def filter_empty_conv in_scope_def split: if_splits option.splits)
  have "decided rid c' = (if in_scope sid e then Some (''deny'', Some reason) else decided rid c)"
    if "map_of (pend c) rid = Some e" for rid e
    using that by (simp add: c' cancel_all_def decided_def map_of_map_snd)
  then show ?thesis using none c' by (auto simp: pending_snapshot_def cancel_all_def)
qed

lemma cancel_all_denies_witness:
  "pending_snapshot (Some ''a'') (snd (cancel_all ''x'' (Some ''a'') demo_coord)) = []"
proof -
  obtain n c' where "cancel_all ''x'' (Some ''a'') demo_coord = (n, c')" by fastforce
  with cancel_all_denies [OF this, of "''y''"] show ?thesis by simp
qed

section \<open>The resolve endpoint\<close>

lemma find_row_append_new:
  "k \<notin> set (map pk rows) \<Longrightarrow> find_row pk k (rows @ [x]) = (if pk x = k then Some x else None)"
  by (induction rows) (auto simp: find_row_def)

lemma get_hitl_insert:
  assumes "get_hitl rid db = None" and "sid \<in> set (map s_id (sessions db)) \<or> \<not> fk db"
  shows "\<exists>db' r. upsert_hitl rid sid w created None db = (Inr None, db') \<and> get_hitl rid db' = Some r
     \<and> h_status r = w_status w \<and> h_resolver r = w_resolver w \<and> h_reason r = w_reason w \<and> h_resolved_at r = w_resolved_at w"
proof -
  have "rid \<notin> set (map h_id (hitl_requests db))"
    using assms(1) unfolding get_hitl_def find_row_None .
  moreover from this have "find_row h_id rid (hitl_requests db @ [x]) = (if h_id x = rid then Some x else None)" for x
    by (rule find_row_append_new)
  ultimately show ?thesis using assms(2) by (auto simp: upsert_hitl_def get_hitl_def)
qed

text \<open>
  with the store attached and no other activity, the first resolve of a pending request is
  answered with its decision, which is what the waiting session receives and what the row
  records; a second resolve of the same request, whatever its decision, is answered with a
  conflict that carries the first decision, and leaves decision and row alone.
\<close>

lemma resolve_then_conflict:
  assumes "store_attached (w_coord w)" and "map_of (pend (w_coord w)) (full_req_id sid req) = Some e"
    and "e_future e = None" and "get_hitl (full_req_id sid req) (w_db w) = None"
    and "sid \<in> set (map s_id (sessions (w_db w))) \<or> \<not> fk (w_db w)"
    and "d1 \<noteq> ''pending''"
  shows "\<exists>w1. resolve_endpoint sid req d1 reason resolver now (w, []) = (Resolved d1 (full_req_id sid req), w1)
     \<and> decided (full_req_id sid req) (w_coord w1) = Some (d1, reason_with_resolver reason resolver)
     \<and> resolve_endpoint sid req d2 reason2 resolver2 now2 (w1, []) =
         (Conflict (full_req_id sid req)
            (Some \<lparr>d_status = d1, d_resolver = resolver, d_reason = reason, d_resolved_at = Some now\<rparr>), w1)"
proof -
  let ?rid = "full_req_id sid req"
  let ?c = "(w_coord w)\<lparr>pend := AList.update ?rid (e\<lparr>e_future := Some (d1, reason_with_resolver reason resolver)\<rparr>) (pend (w_coord w))\<rparr>"
  let ?wr = "write_of None d1 now reason resolver"
  obtain db r where db: "upsert_hitl ?rid sid ?wr (created_of None now) None (w_db w) = (Inr None, db)"
      "get_hitl ?rid db = Some r" "h_status r = d1" "h_resolver r = resolver" "h_reason r = reason" "h_resolved_at r = Some now"
    using get_hitl_insert [OF assms(4,5), of ?wr "created_of None now"] by (auto simp: write_of_def)
  let ?w1 = "w\<lparr>w_coord := ?c, w_db := db\<rparr>"
  have "resolve_endpoint sid req d1 reason resolver now (w, []) = (Resolved d1 ?rid, ?w1)"
    using assms db(1) by (simp add: resolve_endpoint_def await_def resolve_def fire_def get_hitl_version_def Let_def)
  moreover have "decided ?rid (w_coord ?w1) = Some (d1, reason_with_resolver reason resolver)"
    by (simp add: decided_def od_simps)
  moreover have "resolve_endpoint sid req d2 reason2 resolver2 now2 (?w1, []) =
      (Conflict ?rid (Some \<lparr>d_status = d1, d_resolver = resolver, d_reason = reason, d_resolved_at = Some now\<rparr>), ?w1)"
    using assms(1,6) db
    by (simp add: resolve_endpoint_def await_def resolve_def conflict_response_def decision_from_row_def Let_def)
  ultimately show ?thesis by blast
qed

definition demo_world :: world where
  "demo_world = \<lparr>w_db = demo_store, w_coord = demo_coord, w_audit = None, w_audits = []\<rparr>"

lemma resolve_then_conflict_witness:
  "\<exists>w1. resolve_endpoint ''a'' ''1'' ''accept'' None (Some ''ann'') 5 (demo_world, []) = (Resolved ''accept'' ''a:1'', w1)
     \<and> resolve_endpoint ''a'' ''1'' ''deny'' None None 6 (w1, []) =
         (Conflict ''a:1'' (Some \<lparr>d_status = ''accept'', d_resolver = Some ''ann'', d_reason = None, d_resolved_at = Some 5\<rparr>), w1)"
proof -
  have i: "full_req_id ''a'' ''1'' = ''a:1''" by code_simp
  have "map_option e_future (map_of (pend (w_coord demo_world)) ''a:1'') = Some None" by code_simp
  then obtain e where e: "map_of (pend (w_coord demo_world)) (full_req_id ''a'' ''1'') = Some e" "e_future e = None"
    using i by auto
  have h: "store_attached (w_coord demo_world)" "get_hitl (full_req_id ''a'' ''1'') (w_db demo_world) = None"
     "''a'' \<in> set (map s_id (sessions (w_db demo_world))) \<or> \<not> fk (w_db demo_world)" by code_simp+
  from resolve_then_conflict [OF h(1) e h(2,3), of "''accept''" None "Some ''ann''" 5 "''deny''" None None 6] i
  show ?thesis by auto
qed

text \<open>
  the decision takes effect before it is recorded. When another worker writes the row
  between the version read and the upsert, the caller is told that someone else decided, yet
  the waiting session has received the caller's decision.
\<close>

lemma conflict_after_effect:
  assumes "get_hitl_version (full_req_id sid req) (w_db w) = Some v"
    and "resolve (full_req_id sid req) decision (reason_with_resolver reason resolver) (w_db w) (w_coord w) = (Inr (), c)"
    and "store_ok (w_db (f (w\<lparr>w_coord := c\<rparr>)))" and "get_hitl_version (full_req_id sid req) (w_db (f (w\<lparr>w_coord := c\<rparr>))) \<noteq> Some v"
    and "w_coord (f (w\<lparr>w_coord := c\<rparr>)) = c"
  shows "\<exists>d w'. resolve_endpoint sid req decision reason resolver now (w, [id, id, f]) = (Conflict (full_req_id sid req) d, w')
     \<and> decided (full_req_id sid req) (w_coord w') = Some (decision, reason_with_resolver reason resolver)"
proof -
  let ?rid = "full_req_id sid req"
  let ?w = "f (w\<lparr>w_coord := c\<rparr>)"
  have miss: "\<not> (\<exists>r \<in> set (hitl_requests (w_db ?w)). h_id r = ?rid \<and> h_version r = v)"
    using hitl_hit_iff [of "w_db ?w" ?rid v] assms(3,4) by (simp add: store_ok_def)
  have dec: "decided ?rid c = Some (decision, reason_with_resolver reason resolver)"
    using assms(2) by (auto simp: resolve_def fire_def decided_def od_get_update split: option.splits if_splits)
  have "resolve_endpoint sid req decision reason resolver now (w, [id, id, f]) = (conflict_response ?rid ?w, ?w)"
    using assms(1,2) miss by (auto simp: resolve_endpoint_def await_def upsert_hitl_def Let_def)
  then show ?thesis using dec assms(5) by (simp add: conflict_response_def)
qed

definition demo_world2 :: world where
  "demo_world2 = \<lparr>w_db = snd (upsert_hitl ''a:1'' ''a'' (demo_decision ''pending'') 0 None demo_store), w_coord = demo_coord, w_audit = None, w_audits = []\<rparr>"

definition other_worker :: "world \<Rightarrow> world" where
  "other_worker w = w\<lparr>w_db := snd (upsert_hitl ''a:1'' ''a'' (demo_decision ''deny'') 0 (Some 0) (w_db w))\<rparr>"

lemma conflict_after_effect_witness:
  "\<exists>d w'. resolve_endpoint ''a'' ''1'' ''accept'' None None 5 (demo_world2, [id, id, other_worker]) = (Conflict ''a:1'' d, w')
     \<and> decided ''a:1'' (w_coord w') = Some (''accept'', None)"
proof -
  have i: "full_req_id ''a'' ''1'' = ''a:1''" "reason_with_resolver None None = None" by code_simp+
  let ?r = "resolve ''a:1'' ''accept'' None (w_db demo_world2) (w_coord demo_world2)"
  obtain c where c: "?r = (Inr (), c)"
  proof -
    have "fst ?r = Inr ()" by code_simp
    then show ?thesis using that by (cases ?r) auto
  qed
  let ?w = "other_worker (demo_world2\<lparr>w_coord := c\<rparr>)"
  have db: "w_db ?w = w_db (other_worker demo_world2)" "w_coord ?w = c" by (simp_all add: other_worker_def)
  have "distinct (map s_id (sessions (w_db (other_worker demo_world2))))"
    "distinct (map h_id (hitl_requests (w_db (other_worker demo_world2))))" by code_simp+
  then have ok: "store_ok (w_db ?w)" by (simp add: store_ok_def db)
  have v: "get_hitl_version ''a:1'' (w_db demo_world2) = Some 0" by code_simp
  have nv: "get_hitl_version ''a:1'' (w_db ?w) \<noteq> Some 0" unfolding db by code_simp
  show ?thesis
    using conflict_after_effect [of "''a''" "''1''" demo_world2 0 "''accept''" None None c other_worker 5] i c ok v nv db by simp
qed

section \<open>The batch endpoint\<close>

definition item_id :: "batch_item \<Rightarrow> string" where
  "item_id i = (case i of ItemOk h \<Rightarrow> h | ItemError h _ \<Rightarrow> h)"

lemma batch_one_id: "item_id (fst (batch_one act decision reason label now h p)) = h"
  by (auto simp: batch_one_def item_id_def Let_def split: prod.splits sum.splits hitl_exn.splits store_exn.splits)

lemma resolve_batch_ids: "map item_id (fst (resolve_batch act decision reason label now ids p)) = ids"
proof (induction ids arbitrary: p)
  case (Cons h hs)
  obtain i p1 where b: "batch_one act decision reason label now h p = (i, p1)"
    by (cases "batch_one act decision reason label now h p")
  obtain ys p2 where r: "resolve_batch act decision reason label now hs p1 = (ys, p2)"
    by (cases "resolve_batch act decision reason label now hs p1")
  show ?case using batch_one_id [of act decision reason label now h p] Cons.IH [of p1] b r by simp
qed simp

text \<open>
  a batch reports on every id, once, in the order given, and its two counters add up to
  the number of ids, whatever other tasks do meanwhile.
\<close>

lemma batch_reports_every_id:
  "let ((items, oks, errors), w) = batch_hitl action reason label now ids p
   in map item_id items = ids \<and> oks + errors = length ids \<and> oks = length (filter is_ok items)"
proof -
  have len: "length (filter is_ok xs) + length (filter (\<lambda>i. \<not> is_ok i) xs) = length xs" for xs
    by (induction xs) auto
  define d where "d = (if action = ''approve'' then ''accept'' else ''deny'')"
  define l where "l = (case label of None \<Rightarrow> ''anon'' | Some [] \<Rightarrow> ''anon'' | Some l \<Rightarrow> l)"
  obtain ys p2 where r: "resolve_batch (action, length ids) d reason l now ids p = (ys, p2)"
    by (cases "resolve_batch (action, length ids) d reason l now ids p")
  have ids: "map item_id ys = ids" using resolve_batch_ids [of "(action, length ids)" d reason l now ids p] r by simp
  then have "length ys = length ids" by (metis length_map)
  with ids len [of ys] r show ?thesis
    by (simp add: batch_hitl_def d_def [symmetric] l_def [symmetric])
qed

text \<open>
  where foreign keys are enforced, a batch that resolves a pending request without a row
  (and nothing in the sources writes the row of a pending request) delivers the decision to the
  waiting session and then reports an internal error, because it inserts the row under an empty
  session id.
\<close>

lemma batch_misreports_on_postgres:
  assumes "fk (w_db w)" and "get_hitl hid (w_db w) = None" and "[] \<notin> set (map s_id (sessions (w_db w)))"
    and "map_of (pend (w_coord w)) hid = Some e" and "e_future e = None"
  shows "fst (batch_one act decision reason label now hid (w, [])) = ItemError hid ''internal_error''
     \<and> decided hid (w_coord (fst (snd (batch_one act decision reason label now hid (w, []))))) = Some (decision, reason)"
proof -
  have n: "hid \<notin> set (map h_id (hitl_requests (w_db w)))"
    using assms(2) unfolding get_hitl_def find_row_None .
  show ?thesis
    using assms n
    by (simp add: batch_one_def await_def resolve_def fire_def upsert_hitl_def get_hitl_version_def decided_def
          od_get_update Let_def)
qed

lemma batch_misreports_on_postgres_witness:
  "fst (batch_one (''approve'', 1) ''accept'' None ''ann'' 5 ''a:1'' (demo_world, [])) = ItemError ''a:1'' ''internal_error''"
proof -
  have "map_option e_future (map_of (pend (w_coord demo_world)) ''a:1'') = Some None" by code_simp
  then obtain e where e: "map_of (pend (w_coord demo_world)) ''a:1'' = Some e" "e_future e = None" by auto
  have h: "fk (w_db demo_world)" "get_hitl ''a:1'' (w_db demo_world) = None"
    "[] \<notin> set (map s_id (sessions (w_db demo_world)))" by code_simp+
  from batch_misreports_on_postgres [OF h e] show ?thesis by simp
qed

end
