(* ===== verification/Control_Bridge.thy ===== *)
theory Control_Bridge
  imports Wire_Frames Hitl_Coordinator "HOL-Library.Sublist"
begin

text \<open>
  Pause and resume between the host and the runner: the control channel and the control loop of
  \<open>session/control.py\<close>, the in-process bridge (\<open>session/runner/inprocess_control.py\<close>), the wire
  bridge on the host (\<open>session/runner/bridge.py\<close>) and the proxy in the container
  (\<open>session/runner/proxy_client.py\<close>), with heartbeats and tool decisions. A future is \<open>None\<close> until
  it has a result. The outcome of an SDK call is given from outside: \<open>None\<close>, or the text of the
  exception it raised.
\<close>

section \<open>Channel\<close>

datatype control_op = OpPause | OpResume

fun op_name :: "control_op \<Rightarrow> string" where
  "op_name OpPause = ''pause''"
| "op_name OpResume = ''resume''"

record control_msg =
  cm_op :: control_op
  cm_req :: string
  cm_payload :: pydict

record control_ack =
  ca_op :: control_op
  ca_req :: string
  ca_ok :: bool
  ca_error :: "string option"

record channel =
  inbox :: "control_msg list"
  ack_futs :: "(string, control_ack option) od"
  counter :: nat
  ch_closed :: bool

definition new_channel :: channel where
  "new_channel = \<lparr>inbox = [], ack_futs = [], counter = 1, ch_closed = False\<rparr>"

definition req_id_of :: "control_op \<Rightarrow> nat \<Rightarrow> string" where
  "req_id_of opr n = op_name opr @ ''-'' @ str_nat n"

text \<open>\<open>host_request\<close> up to its wait: the request id, or the answer of a closed channel.\<close>

definition host_begin :: "control_op \<Rightarrow> pydict \<Rightarrow> channel \<Rightarrow> (control_ack + string) \<times> channel" where
  "host_begin opr payload ch =
     (if ch_closed ch then (Inl \<lparr>ca_op = opr, ca_req = ''<closed>'', ca_ok = False, ca_error = Some ''channel_closed''\<rparr>, ch)
      else (let rid = req_id_of opr (counter ch) in
            (Inr rid, ch\<lparr>counter := Suc (counter ch), ack_futs := AList.update rid None (ack_futs ch),
                         inbox := inbox ch @ [\<lparr>cm_op = opr, cm_req = rid, cm_payload = payload\<rparr>]\<rparr>)))"

text \<open>The end of the wait: the answer that is there, or a synthetic one when none came in time.\<close>

definition host_end :: "control_op \<Rightarrow> string \<Rightarrow> channel \<Rightarrow> control_ack \<times> channel" where
  "host_end opr rid ch =
     ((case map_of (ack_futs ch) rid of
         Some (Some a) \<Rightarrow> a
       | _ \<Rightarrow> \<lparr>ca_op = opr, ca_req = rid, ca_ok = False, ca_error = Some ''bridge_ack_timeout''\<rparr>),
      ch\<lparr>ack_futs := AList.delete rid (ack_futs ch)\<rparr>)"

definition runner_recv :: "channel \<Rightarrow> (control_msg \<times> channel) option" where
  "runner_recv ch = (case inbox ch of [] \<Rightarrow> None | m # ms \<Rightarrow> Some (m, ch\<lparr>inbox := ms\<rparr>))"

definition push :: "control_msg \<Rightarrow> channel \<Rightarrow> channel" where
  "push m ch = ch\<lparr>inbox := inbox ch @ [m]\<rparr>"

definition settle :: "string \<Rightarrow> control_ack \<Rightarrow> (string, control_ack option) od \<Rightarrow> (string, control_ack option) od" where
  "settle rid a futs = (case map_of futs rid of Some None \<Rightarrow> AList.update rid (Some a) futs | _ \<Rightarrow> futs)"

definition runner_ack :: "control_ack \<Rightarrow> channel \<Rightarrow> channel" where
  "runner_ack a ch = ch\<lparr>ack_futs := settle (ca_req a) a (ack_futs ch)\<rparr>"

definition close_channel :: "channel \<Rightarrow> channel" where
  "close_channel ch =
     (if ch_closed ch then ch
      else ch\<lparr>ch_closed := True,
              ack_futs := map (\<lambda>(r, f). (r, case f of
                  None \<Rightarrow> Some \<lparr>ca_op = OpPause, ca_req = r, ca_ok = False, ca_error = Some ''channel_closed''\<rparr>
                | Some a \<Rightarrow> Some a)) (ack_futs ch)\<rparr>)"

section \<open>Control loop\<close>

datatype sdk_call = Interrupt | Query string

text \<open>The state of the loop, with the calls that succeeded.\<close>

record runner =
  loop_paused :: bool
  sdk_calls :: "sdk_call list"

definition new_runner :: runner where
  "new_runner = \<lparr>loop_paused = False, sdk_calls = []\<rparr>"

definition handle_pause :: "string option \<Rightarrow> control_msg \<Rightarrow> runner \<Rightarrow> control_ack \<times> runner" where
  "handle_pause outcome m r =
     (if loop_paused r then (\<lparr>ca_op = OpPause, ca_req = cm_req m, ca_ok = False, ca_error = Some ''already_paused''\<rparr>, r)
      else (case outcome of
         Some err \<Rightarrow> (\<lparr>ca_op = OpPause, ca_req = cm_req m, ca_ok = False, ca_error = Some err\<rparr>, r)
       | None \<Rightarrow> (\<lparr>ca_op = OpPause, ca_req = cm_req m, ca_ok = True, ca_error = None\<rparr>,
                 r\<lparr>loop_paused := True, sdk_calls := sdk_calls r @ [Interrupt]\<rparr>)))"

definition hint_of :: "control_msg \<Rightarrow> string" where
  "hint_of m = (case dget (cm_payload m) ''hint'' of PStr s \<Rightarrow> if s = [] then ''continue'' else s | _ \<Rightarrow> ''continue'')"

definition handle_resume :: "string option \<Rightarrow> control_msg \<Rightarrow> runner \<Rightarrow> control_ack \<times> runner" where
  "handle_resume outcome m r =
     (if \<not> loop_paused r then (\<lparr>ca_op = OpResume, ca_req = cm_req m, ca_ok = False, ca_error = Some ''not_paused''\<rparr>, r)
      else (case outcome of
         Some err \<Rightarrow> (\<lparr>ca_op = OpResume, ca_req = cm_req m, ca_ok = False, ca_error = Some err\<rparr>, r)
       | None \<Rightarrow> (\<lparr>ca_op = OpResume, ca_req = cm_req m, ca_ok = True, ca_error = None\<rparr>,
                 r\<lparr>loop_paused := False, sdk_calls := sdk_calls r @ [Query (hint_of m)]\<rparr>)))"

definition loop_dispatch :: "string option \<Rightarrow> control_msg \<Rightarrow> runner \<Rightarrow> control_ack \<times> runner" where
  "loop_dispatch outcome m r = (case cm_op m of OpPause \<Rightarrow> handle_pause outcome m r | OpResume \<Rightarrow> handle_resume outcome m r)"

section \<open>In-process bridge\<close>

definition text_payload :: "control_op \<Rightarrow> string option \<Rightarrow> pydict" where
  "text_payload opr tx = opt_field (case opr of OpPause \<Rightarrow> ''reason'' | OpResume \<Rightarrow> ''hint'') tx"

text \<open>A request, raised as \<open>BridgeAckTimeout\<close> (\<open>None\<close>) when the channel reports a timeout.\<close>

definition inprocess_begin :: "control_op \<Rightarrow> string option \<Rightarrow> channel \<Rightarrow> (control_ack + string) \<times> channel" where
  "inprocess_begin opr tx ch = host_begin opr (text_payload opr tx) ch"

definition inprocess_end :: "control_op \<Rightarrow> string \<Rightarrow> channel \<Rightarrow> control_ack option \<times> channel" where
  "inprocess_end opr rid ch =
     (let (a, ch') = host_end opr rid ch in (if ca_error a = Some ''bridge_ack_timeout'' then None else Some a, ch'))"

section \<open>Wire bridge\<close>

record bridge =
  b_frames :: "pydict list"
  b_seq :: int
  b_futs :: "(string, control_ack option) od"
  pause_seq :: nat
  hb_misses :: nat
  hb_threshold :: nat
  hb_unhealthy :: bool
  hb_stopped :: bool
  last_pong_seq :: int
  shutdown_set :: bool
  finished :: bool

definition new_bridge :: "nat \<Rightarrow> bridge" where
  "new_bridge thr = \<lparr>b_frames = [], b_seq = 0, b_futs = [], pause_seq = 0, hb_misses = 0, hb_threshold = thr, hb_unhealthy = False, hb_stopped = False,
     last_pong_seq = -1, shutdown_set = False, finished = False\<rparr>"

text \<open>\<open>pause\<close> and \<open>resume\<close> up to the wait: the request id and the frame to send.\<close>

definition bridge_begin :: "string \<Rightarrow> control_op \<Rightarrow> string option \<Rightarrow> bridge \<Rightarrow> string \<times> pydict \<times> bridge" where
  "bridge_begin ts opr tx b =
     (let rid = req_id_of opr (Suc (pause_seq b));
          frame = (case opr of OpPause \<Rightarrow> make_pause ts (b_seq b + 1) rid tx | OpResume \<Rightarrow> make_resume ts (b_seq b + 1) rid tx)
      in (rid, frame, b\<lparr>pause_seq := Suc (pause_seq b), b_seq := b_seq b + 1, b_futs := AList.update rid None (b_futs b)\<rparr>))"

definition bridge_end :: "string \<Rightarrow> bridge \<Rightarrow> control_ack option \<times> bridge" where
  "bridge_end rid b =
     ((case map_of (b_futs b) rid of Some (Some a) \<Rightarrow> Some a | _ \<Rightarrow> None), b\<lparr>b_futs := AList.delete rid (b_futs b)\<rparr>)"

definition handle_pause_ack :: "pydict \<Rightarrow> bridge \<Rightarrow> bridge" where
  "handle_pause_ack frame b =
     (let rid = (case dget frame ''req_id'' of PStr s \<Rightarrow> s | _ \<Rightarrow> []) in
      if rid = [] then b
      else b\<lparr>b_futs := settle rid \<lparr>ca_op = (if dget frame ''type'' = PStr ''pause.ack'' then OpPause else OpResume), ca_req = rid,
                                  ca_ok = py_truthy (dget_default frame ''ok'' (PBool False)), ca_error = as_str (dget frame ''error'')\<rparr> (b_futs b)\<rparr>)"

text \<open>One frame in \<open>run\<close>: a tool request to hand to the coordinator, if any; a bad pong number raises out of the loop.\<close>

definition bridge_recv :: "pydict \<Rightarrow> bridge \<Rightarrow> (py_exn + pydict option) \<times> bridge" where
  "bridge_recv frame b =
     (let ftype = dget frame ''type'' in
      if ftype = PStr ''tool.request'' then (Inr (Some frame), b)
      else if ftype = PStr ''pong'' then
        (let b1 = b\<lparr>hb_misses := 0\<rparr> in
         case py_int (dget_default frame ''seq'' (PInt (-1))) of
           Inl e \<Rightarrow> (Inl e, b1\<lparr>finished := True\<rparr>)
         | Inr n \<Rightarrow> (Inr None, b1\<lparr>last_pong_seq := n\<rparr>))
      else if ftype = PStr ''pause.ack'' \<or> ftype = PStr ''resume.ack'' then
        (Inr None, handle_pause_ack frame (b\<lparr>b_frames := b_frames b @ [frame]\<rparr>))
      else (let b1 = b\<lparr>b_frames := b_frames b @ [frame]\<rparr> in (Inr None, if ftype = PStr ''session.end'' then b1\<lparr>finished := True\<rparr> else b1)))"

text \<open>
  \<open>_handle_tool_request\<close>: the request goes to the coordinator without a session id; whatever the
  coordinator answers, or a deny when it raises, goes back to the runner.
\<close>

definition tool_request_begin :: "pydict \<Rightarrow> coord \<Rightarrow> (hitl_exn + unit) \<times> coord" where
  "tool_request_begin frame c =
     request_begin (case dget_default frame ''req_id'' (PStr []) of PStr s \<Rightarrow> s | _ \<Rightarrow> []) (case dget_default frame ''tool'' (PStr ''?'') of PStr s \<Rightarrow> s | _ \<Rightarrow> [])
       (case py_or (dget_default frame ''args'' (PDict [])) (PDict []) of PDict d \<Rightarrow> d | _ \<Rightarrow> []) [] c"

definition tool_decision :: "string \<Rightarrow> string \<Rightarrow> string option \<Rightarrow> bridge \<Rightarrow> pydict \<times> bridge" where
  "tool_decision ts rid answer b =
     (make_tool_decision ts (b_seq b + 1) rid (case answer of None \<Rightarrow> ''deny'' | Some d \<Rightarrow> d) None, b\<lparr>b_seq := b_seq b + 1\<rparr>)"

text \<open>
  One round of \<open>_heartbeat_loop\<close>: a ping, or the verdict that the runner is gone. \<open>sends\<close> says
  whether the transport still accepts frames.
\<close>

definition heartbeat_tick :: "string \<Rightarrow> bool \<Rightarrow> bridge \<Rightarrow> pydict list \<times> bridge" where
  "heartbeat_tick ts sends b =
     (if hb_stopped b \<or> shutdown_set b then ([], b\<lparr>hb_stopped := True\<rparr>)
      else if hb_misses b \<ge> hb_threshold b then
        ([], b\<lparr>hb_stopped := True, hb_unhealthy := True, b_seq := b_seq b + 1,
              b_frames := b_frames b @ [make_error ts (b_seq b + 1) ''heartbeat_timeout'' (str_nat (hb_threshold b) @ '' consecutive missed pongs'') None]\<rparr>)
      else if \<not> sends then ([], b\<lparr>hb_stopped := True, b_seq := b_seq b + 1\<rparr>)
      else ([make_ping ts (b_seq b + 1)], b\<lparr>b_seq := b_seq b + 1, hb_misses := Suc (hb_misses b)\<rparr>))"

text \<open>\<open>shutdown\<close> tells the runner to exit, once.\<close>

definition bridge_shutdown :: "string \<Rightarrow> bridge \<Rightarrow> pydict list \<times> bridge" where
  "bridge_shutdown ts b =
     (if shutdown_set b then ([], b) else ([make_shutdown ts (b_seq b + 1)], b\<lparr>b_seq := b_seq b + 1, shutdown_set := True\<rparr>))"

section \<open>Container proxy\<close>

record proxy =
  px_pending :: "(string, string option) od"
  shutdown_requested :: bool
  pong_seq :: int
  ack_seq :: int
  px_channel :: channel

definition new_proxy :: proxy where
  "new_proxy = \<lparr>px_pending = [], shutdown_requested = False, pong_seq = 0, ack_seq = 0, px_channel = new_channel\<rparr>"

definition send_ack :: "string \<Rightarrow> control_ack \<Rightarrow> proxy \<Rightarrow> pydict \<times> proxy" where
  "send_ack ts a p =
     ((case ca_op a of OpPause \<Rightarrow> make_pause_ack ts (ack_seq p + 1) (ca_req a) (ca_ok a) (ca_error a)
                     | OpResume \<Rightarrow> make_resume_ack ts (ack_seq p + 1) (ca_req a) (ca_ok a) (ca_error a)),
      p\<lparr>ack_seq := ack_seq p + 1\<rparr>)"

definition proxy_request :: "string \<Rightarrow> proxy \<Rightarrow> (py_exn + unit) \<times> proxy" where
  "proxy_request rid p =
     (if map_of (px_pending p) rid \<noteq> None then (Inl ValueError, p) else (Inr (), p\<lparr>px_pending := AList.update rid None (px_pending p)\<rparr>))"

definition proxy_exit :: "proxy \<Rightarrow> proxy" where
  "proxy_exit p = p\<lparr>px_pending := map (\<lambda>(r, f). (r, case f of None \<Rightarrow> Some ''deny'' | Some d \<Rightarrow> Some d)) (px_pending p),
     px_channel := close_channel (px_channel p)\<rparr>"

definition frame_req :: "pydict \<Rightarrow> string" where
  "frame_req frame = (case dget_default frame ''req_id'' (PStr []) of PStr s \<Rightarrow> s | _ \<Rightarrow> [])"

text \<open>One frame of \<open>consume_loop\<close>: the frames it sends back and whether it goes on.\<close>

definition proxy_recv :: "string \<Rightarrow> pydict \<Rightarrow> proxy \<Rightarrow> pydict list \<times> bool \<times> proxy" where
  "proxy_recv ts frame p = (case dget frame ''type'' of
     PStr ftype \<Rightarrow>
       if ftype = ''tool.decision'' then
         (let d = (case dget_default frame ''decision'' (PStr ''deny'') of PStr s \<Rightarrow> s | _ \<Rightarrow> []) in
          ([], True, case map_of (px_pending p) (frame_req frame) of
                       Some None \<Rightarrow> p\<lparr>px_pending := AList.update (frame_req frame) (Some d) (px_pending p)\<rparr>
                     | _ \<Rightarrow> p))
       else if ftype = ''shutdown'' then ([], False, proxy_exit (p\<lparr>shutdown_requested := True\<rparr>))
       else if ftype = ''ping'' then ([make_pong ts (pong_seq p + 1)], True, p\<lparr>pong_seq := pong_seq p + 1\<rparr>)
       else if ftype = ''pause'' \<or> ftype = ''resume'' then
         (if frame_req frame = [] then ([], True, p)
          else (let opr = (if ftype = ''pause'' then OpPause else OpResume);
                    k = (if ftype = ''pause'' then ''reason'' else ''hint'')
                in ([], True, p\<lparr>px_channel := push \<lparr>cm_op = opr, cm_req = frame_req frame, cm_payload = opt_field k (as_str (dget frame k))\<rparr> (px_channel p)\<rparr>)))
       else ([], True, p)
   | _ \<Rightarrow> ([], True, p))"

section \<open>Both bridges answer alike\<close>

text \<open>A call: the operation, its text, and what the SDK does with it. Nothing else runs meanwhile.\<close>

type_synonym control_call = "control_op \<times> string option \<times> string option"

definition inproc_call :: "control_call \<Rightarrow> channel \<times> runner \<Rightarrow> control_ack option \<times> channel \<times> runner" where
  "inproc_call c s = (case c of (opr, tx, outcome) \<Rightarrow> (case inprocess_begin opr tx (fst s) of
     (Inl a, ch) \<Rightarrow> (Some a, ch, snd s)
   | (Inr rid, ch) \<Rightarrow> (case runner_recv ch of
       None \<Rightarrow> (None, ch, snd s)
     | Some (m, ch1) \<Rightarrow>
         (let (a, r) = loop_dispatch outcome m (snd s); (res, ch2) = inprocess_end opr rid (runner_ack a ch1) in (res, ch2, r)))))"

definition wire_call :: "string \<Rightarrow> control_call \<Rightarrow> bridge \<times> proxy \<times> runner \<Rightarrow> control_ack option \<times> bridge \<times> proxy \<times> runner" where
  "wire_call ts c s = (case c of (opr, tx, outcome) \<Rightarrow>
     (let (rid, frame, b1) = bridge_begin ts opr tx (fst s); (_, _, p1) = proxy_recv ts frame (fst (snd s)) in
      case runner_recv (px_channel p1) of
        None \<Rightarrow> (let (res, b2) = bridge_end rid b1 in (res, b2, p1, snd (snd s)))
      | Some (m, ch) \<Rightarrow>
          (let (a, r) = loop_dispatch outcome m (snd (snd s)); (reply, p2) = send_ack ts a (p1\<lparr>px_channel := ch\<rparr>);
               (_, b2) = bridge_recv reply b1; (res, b3) = bridge_end rid b2
           in (res, b3, p2, r))))"

fun inproc_calls :: "control_call list \<Rightarrow> channel \<times> runner \<Rightarrow> control_ack option list \<times> runner" where
  "inproc_calls [] s = ([], snd s)"
| "inproc_calls (c # cs) s = (let (a, s1) = inproc_call c s; (as, r) = inproc_calls cs s1 in (a # as, r))"

fun wire_calls :: "string \<Rightarrow> control_call list \<Rightarrow> bridge \<times> proxy \<times> runner \<Rightarrow> control_ack option list \<times> runner" where
  "wire_calls ts [] s = ([], snd (snd s))"
| "wire_calls ts (c # cs) s = (let (a, s1) = wire_call ts c s; (as, r) = wire_calls ts cs s1 in (a # as, r))"

lemma req_id_nonempty [simp]: "req_id_of opr n \<noteq> []"
  by (cases opr) (simp_all add: req_id_of_def)

lemma loop_dispatch_ids: "loop_dispatch outcome m r = (a, r') \<Longrightarrow> ca_op a = cm_op m \<and> ca_req a = cm_req m"
  by (cases "cm_op m") (auto simp: loop_dispatch_def handle_pause_def handle_resume_def split: if_splits option.splits)

lemma loop_dispatch_payload:
  "cm_op m = cm_op m' \<Longrightarrow> cm_req m = cm_req m' \<Longrightarrow> dget (cm_payload m) ''hint'' = dget (cm_payload m') ''hint'' \<Longrightarrow> loop_dispatch outcome m r = loop_dispatch outcome m' r"
  by (simp add: loop_dispatch_def handle_pause_def handle_resume_def hint_of_def split: control_op.splits option.splits)

lemma loop_error: "loop_dispatch outcome m r = (a, r') \<Longrightarrow> outcome \<noteq> Some ''bridge_ack_timeout'' \<Longrightarrow> ca_error a \<noteq> Some ''bridge_ack_timeout''"
  by (cases "cm_op m") (auto simp: loop_dispatch_def handle_pause_def handle_resume_def split: if_splits option.splits)

text \<open>States between two calls: nothing is pending on either side, and the numbering agrees.\<close>

definition quiet :: "channel \<times> runner \<Rightarrow> bridge \<times> proxy \<times> runner \<Rightarrow> bool" where
  "quiet s w \<longleftrightarrow> inbox (fst s) = [] \<and> ack_futs (fst s) = [] \<and> \<not> ch_closed (fst s) \<and> counter (fst s) = Suc (pause_seq (fst w))
     \<and> b_futs (fst w) = [] \<and> inbox (px_channel (fst (snd w))) = [] \<and> snd s = snd (snd w)"

lemma bridge_gets_ack:
  assumes "send_ack ts a p = (reply, p')" and "ca_req a \<noteq> []" and "map_of (b_futs b) (ca_req a) = Some None"
  shows "snd (bridge_recv reply b) = b\<lparr>b_frames := b_frames b @ [reply], b_futs := AList.update (ca_req a) (Some a) (b_futs b)\<rparr>"
proof -
  obtain opr rid ok err where a: "a = \<lparr>ca_op = opr, ca_req = rid, ca_ok = ok, ca_error = err\<rparr>" by (cases a)
  show ?thesis using assms unfolding a
    by (cases opr; cases err; clarsimp simp: send_ack_def bridge_recv_def handle_pause_ack_def settle_def frame_defs dget_default_def envelope_def opt_field_def Let_def)
qed

lemma proxy_gets_request:
  assumes "bridge_begin ts opr tx b = (rid, frame, b1)"
  shows "proxy_recv ts frame p = ([], True, p\<lparr>px_channel := push \<lparr>cm_op = opr, cm_req = rid, cm_payload = text_payload opr tx\<rparr> (px_channel p)\<rparr>)"
    and "rid = req_id_of opr (Suc (pause_seq b))" and "map_of (b_futs b1) rid = Some None" and "pause_seq b1 = Suc (pause_seq b)"
    and "b_futs b1 = AList.update rid None (b_futs b)"
proof -
  have rid: "rid = req_id_of opr (Suc (pause_seq b))" using assms by (simp add: bridge_begin_def Let_def)
  then show "rid = req_id_of opr (Suc (pause_seq b))" .
  show "map_of (b_futs b1) rid = Some None" "pause_seq b1 = Suc (pause_seq b)" "b_futs b1 = AList.update rid None (b_futs b)"
    using assms by (auto simp: bridge_begin_def od_get_update Let_def)
  have "rid \<noteq> []" by (simp add: rid)
  then show "proxy_recv ts frame p = ([], True, p\<lparr>px_channel := push \<lparr>cm_op = opr, cm_req = rid, cm_payload = text_payload opr tx\<rparr> (px_channel p)\<rparr>)"
    using assms by (cases opr; cases tx; clarsimp simp: bridge_begin_def proxy_recv_def frame_req_def frame_defs dget_default_def envelope_def opt_field_def text_payload_def Let_def)
qed

lemma calls_agree:
  assumes "quiet s w" and "snd (snd c) \<noteq> Some ''bridge_ack_timeout''"
  shows "fst (inproc_call c s) = fst (wire_call ts c w) \<and> quiet (snd (inproc_call c s)) (snd (wire_call ts c w))"
proof -
  obtain opr tx outcome where c: "c = (opr, tx, outcome)" by (cases c)
  obtain ch r where s: "s = (ch, r)" by (cases s)
  obtain b p r' where w: "w = (b, p, r')" by (cases w)
  have q: "inbox ch = []" "ack_futs ch = []" "\<not> ch_closed ch" "counter ch = Suc (pause_seq b)" "b_futs b = []" "inbox (px_channel p) = []" "r' = r"
    using assms(1) by (auto simp: quiet_def s w)
  obtain rid frame b1 where b1: "bridge_begin ts opr tx b = (rid, frame, b1)" by (cases "bridge_begin ts opr tx b") auto
  note pr = proxy_gets_request [OF b1]
  let ?m = "\<lparr>cm_op = opr, cm_req = rid, cm_payload = text_payload opr tx\<rparr>"
  obtain a r1 where a: "loop_dispatch outcome ?m r = (a, r1)" by (cases "loop_dispatch outcome ?m r")
  have ids: "ca_req a = rid" "ca_error a \<noteq> Some ''bridge_ack_timeout''" using loop_dispatch_ids [OF a] loop_error [OF a] assms(2) c by auto
  let ?p1 = "p\<lparr>px_channel := (push ?m (px_channel p))\<lparr>inbox := []\<rparr>\<rparr>"
  obtain reply p2 where sa: "send_ack ts a ?p1 = (reply, p2)" by (cases "send_ack ts a ?p1")
  have p2: "px_channel p2 = (push ?m (px_channel p))\<lparr>inbox := []\<rparr>" using sa by (auto simp: send_ack_def)
  have br: "snd (bridge_recv reply b1) = b1\<lparr>b_frames := b_frames b1 @ [reply], b_futs := AList.update rid (Some a) (b_futs b1)\<rparr>"
    using bridge_gets_ack [OF sa, of b1] ids(1) pr(2,3) by simp
  have wr: "wire_call ts c w = (Some a, b1\<lparr>b_frames := b_frames b1 @ [reply], b_futs := []\<rparr>, p2, r1)"
    using pr(1) a sa br q(5-7)
    by (cases "bridge_recv reply b1") (simp add: wire_call_def c w b1 runner_recv_def push_def bridge_end_def pr(5))
  have ir: "inproc_call c s = (Some a, ch\<lparr>counter := Suc (counter ch)\<rparr>, r1)"
    using q(1-4) a ids pr(2)
    by (simp add: inproc_call_def c s inprocess_begin_def host_begin_def runner_recv_def inprocess_end_def host_end_def runner_ack_def settle_def Let_def)
  show ?thesis using q p2 pr(4) by (simp add: wr ir quiet_def)
qed

text \<open>Whether a session runs in the process or in a container, the host gets the same acknowledgements to
  the same pauses and resumes, with the same request ids, and the SDK sees the same calls.\<close>

lemma bridges_agree:
  assumes "\<forall>c \<in> set cs. snd (snd c) \<noteq> Some ''bridge_ack_timeout''"
  shows "inproc_calls cs (new_channel, new_runner) = wire_calls ts cs (new_bridge thr, new_proxy, new_runner)"
proof -
  have "inproc_calls cs s = wire_calls ts cs w" if "quiet s w" for s w
    using that assms
  proof (induction cs arbitrary: s w)
    case Nil
    then show ?case by (simp add: quiet_def)
  next
    case (Cons c cs)
    then show ?case using calls_agree [OF Cons.prems(1), of c ts] by (auto split: prod.splits)
  qed
  moreover have "quiet (new_channel, new_runner) (new_bridge thr, new_proxy, new_runner)"
    by (simp add: quiet_def new_channel_def new_bridge_def new_proxy_def)
  ultimately show ?thesis by blast
qed

lemma bridges_agree_witness:
  "inproc_calls [(OpPause, Some ''lunch'', None), (OpPause, None, None), (OpResume, None, Some ''boom''), (OpResume, Some ''go'', None)] (new_channel, new_runner)
     = wire_calls ''t'' [(OpPause, Some ''lunch'', None), (OpPause, None, None), (OpResume, None, Some ''boom''), (OpResume, Some ''go'', None)] (new_bridge 3, new_proxy, new_runner)"
  by (rule bridges_agree) simp

section \<open>Requests, time-outs and the loop interleaved\<close>

text \<open>The channel and its runner, with the answers the loop has given.\<close>

record ctl =
  c_ch :: channel
  c_rn :: runner
  c_log :: "control_ack list"

definition ctl_init :: ctl where
  "ctl_init = \<lparr>c_ch = new_channel, c_rn = new_runner, c_log = []\<rparr>"

text \<open>
  A host task asks; the loop serves the next directive; a host task stops waiting, with or without an
  answer; the channel is closed.
\<close>

inductive ctl_step :: "ctl \<Rightarrow> ctl \<Rightarrow> bool" where
  ask: "host_begin opr payload (c_ch s) = (Inr rid, ch) \<Longrightarrow> ctl_step s (s\<lparr>c_ch := ch\<rparr>)"
| serve: "runner_recv (c_ch s) = Some (m, ch) \<Longrightarrow> loop_dispatch outcome m (c_rn s) = (a, rn) \<Longrightarrow>
    ctl_step s (s\<lparr>c_ch := runner_ack a ch, c_rn := rn, c_log := c_log s @ [a]\<rparr>)"
| leave: "ctl_step s (s\<lparr>c_ch := snd (host_end opr rid (c_ch s))\<rparr>)"
| close: "ctl_step s (s\<lparr>c_ch := close_channel (c_ch s)\<rparr>)"

inductive ctl_reach :: "ctl \<Rightarrow> bool" where
  init: "ctl_reach ctl_init"
| step: "ctl_reach s \<Longrightarrow> ctl_step s s' \<Longrightarrow> ctl_reach s'"

text \<open>The state of the SDK that the calls lead to, if they make sense: interrupt only while running, query only while interrupted.\<close>

fun sdk_state :: "bool \<Rightarrow> sdk_call list \<Rightarrow> bool option" where
  "sdk_state p [] = Some p"
| "sdk_state p (Interrupt # cs) = (if p then None else sdk_state True cs)"
| "sdk_state p (Query _ # cs) = (if p then sdk_state False cs else None)"

definition ids :: "ctl \<Rightarrow> string list" where
  "ids s = map ca_req (c_log s) @ map cm_req (inbox (c_ch s))"

definition ctl_inv :: "ctl \<Rightarrow> bool" where
  "ctl_inv s \<longleftrightarrow> sdk_state False (sdk_calls (c_rn s)) = Some (loop_paused (c_rn s))
     \<and> length (filter ca_ok (c_log s)) = length (sdk_calls (c_rn s))
     \<and> distinct (ids s) \<and> (\<forall>i \<in> set (ids s). \<exists>opr n. i = req_id_of opr n \<and> n < counter (c_ch s))
     \<and> (\<forall>rid a. map_of (ack_futs (c_ch s)) rid = Some (Some a) \<longrightarrow> ca_req a = rid \<and> (a \<in> set (c_log s) \<or> \<not> ca_ok a \<and> ca_error a = Some ''channel_closed''))"

lemma sdk_state_append: "sdk_state p (cs @ ds) = (case sdk_state p cs of None \<Rightarrow> None | Some q \<Rightarrow> sdk_state q ds)"
  by (induction p cs rule: sdk_state.induct) auto

lemma req_id_inj: "req_id_of opr m = req_id_of opr' n \<longleftrightarrow> opr = opr' \<and> m = n"
  by (cases opr; cases opr') (auto simp: req_id_of_def str_nat_inj)

lemma loop_keeps:
  assumes "loop_dispatch outcome m r = (a, r')" and "sdk_state False (sdk_calls r) = Some (loop_paused r)"
  shows "sdk_state False (sdk_calls r') = Some (loop_paused r')"
    and "length (sdk_calls r') = length (sdk_calls r) + (if ca_ok a then 1 else 0)"
  using assms by (auto simp: loop_dispatch_def handle_pause_def handle_resume_def sdk_state_append split: if_splits option.splits control_op.splits)

lemma settle_get:
  "map_of (settle rid a futs) j = Some (Some b) \<Longrightarrow> map_of futs j = Some (Some b) \<or> j = rid \<and> b = a"
  by (auto simp: settle_def od_get_update split: option.splits if_splits)

lemma ctl_invI:
  assumes "sdk_state False (sdk_calls (c_rn s)) = Some (loop_paused (c_rn s))" and "length (filter ca_ok (c_log s)) = length (sdk_calls (c_rn s))"
    and "distinct (ids s)" and "\<And>i. i \<in> set (ids s) \<Longrightarrow> \<exists>opr n. i = req_id_of opr n \<and> n < counter (c_ch s)"
    and "\<And>rid a. map_of (ack_futs (c_ch s)) rid = Some (Some a) \<Longrightarrow> ca_req a = rid \<and> (a \<in> set (c_log s) \<or> \<not> ca_ok a \<and> ca_error a = Some ''channel_closed'')"
  shows "ctl_inv s"
  using assms unfolding ctl_inv_def by blast

lemma close_get:
  "map_of (ack_futs (close_channel ch)) rid = Some (Some a) \<Longrightarrow>
     map_of (ack_futs ch) rid = Some (Some a) \<or> (ca_req a = rid \<and> \<not> ca_ok a \<and> ca_error a = Some ''channel_closed'')"
proof -
  assume a: "map_of (ack_futs (close_channel ch)) rid = Some (Some a)"
  have "map_of (map (\<lambda>(r, f). (r, case f of None \<Rightarrow> Some \<lparr>ca_op = OpPause, ca_req = r, ca_ok = False, ca_error = Some ''channel_closed''\<rparr> | Some a \<Rightarrow> Some a)) futs) rid
      = map_option (\<lambda>f. case f of None \<Rightarrow> Some \<lparr>ca_op = OpPause, ca_req = rid, ca_ok = False, ca_error = Some ''channel_closed''\<rparr> | Some a \<Rightarrow> Some a) (map_of futs rid)" for futs
    by (induction futs) (auto split: option.splits)
  with a show ?thesis by (auto simp: close_channel_def split: if_splits option.splits)
qed

lemma ctl_step_inv:
  assumes "ctl_step s s'" and "ctl_inv s"
  shows "ctl_inv s'"
  using assms(1)
proof cases
  case (ask opr payload rid ch)
  then have ch: "ch = (c_ch s)\<lparr>counter := Suc (counter (c_ch s)), ack_futs := AList.update rid None (ack_futs (c_ch s)),
      inbox := inbox (c_ch s) @ [\<lparr>cm_op = opr, cm_req = rid, cm_payload = payload\<rparr>]\<rparr>" and rid: "rid = req_id_of opr (counter (c_ch s))"
    by (auto simp: host_begin_def Let_def split: if_splits)
  have old: "\<forall>i \<in> set (ids s). \<exists>opr n. i = req_id_of opr n \<and> n < counter (c_ch s)" using assms(2) by (simp add: ctl_inv_def)
  have "rid \<notin> set (ids s)"
  proof
    assume "rid \<in> set (ids s)"
    then obtain opr' n where "rid = req_id_of opr' n" "n < counter (c_ch s)" using old by blast
    then show False by (simp add: rid req_id_inj)
  qed
  moreover have "ids s' = ids s @ [rid]" using ask ch by (simp add: ids_def)
  moreover have "\<exists>opr n. i = req_id_of opr n \<and> n < Suc (counter (c_ch s))" if a: "i \<in> set (ids s @ [rid])" for i
  proof (cases "i = rid")
    case True
    then show ?thesis using rid by blast
  next
    case False
    then obtain opr' n where "i = req_id_of opr' n" "n < counter (c_ch s)" using a old by auto
    then show ?thesis by (intro exI [of _ opr'] exI [of _ n]) simp
  qed
  ultimately show ?thesis using assms(2) ask ch unfolding ctl_inv_def by (auto simp: od_get_update split: if_splits)
next
  case (serve m ch outcome a rn)
  then obtain ms where ms: "inbox (c_ch s) = m # ms" "ch = (c_ch s)\<lparr>inbox := ms\<rparr>" by (auto simp: runner_recv_def split: list.splits)
  have req: "ca_req a = cm_req m" using loop_dispatch_ids [OF serve(3)] by simp
  have i: "ids s' = ids s" using serve(1) ms req by (simp add: ids_def runner_ack_def)
  note k = loop_keeps [OF serve(3)]
  show ?thesis
  proof (rule ctl_invI)
    show "distinct (ids s')" "\<And>i. i \<in> set (ids s') \<Longrightarrow> \<exists>opr n. i = req_id_of opr n \<and> n < counter (c_ch s')"
      unfolding i using assms(2) serve(1) ms by (auto simp: ctl_inv_def runner_ack_def)
    show "ca_req b = rid \<and> (b \<in> set (c_log s') \<or> \<not> ca_ok b \<and> ca_error b = Some ''channel_closed'')"
      if "map_of (ack_futs (c_ch s')) rid = Some (Some b)" for rid b
      using that assms(2) serve(1) ms settle_get [of "ca_req a" a "ack_futs (c_ch s)" rid b] by (auto simp: ctl_inv_def runner_ack_def)
  qed (use k assms(2) serve(1) in \<open>auto simp: ctl_inv_def\<close>)
next
  case (leave opr rid)
  then show ?thesis using assms(2) by (auto simp: ctl_inv_def host_end_def od_get_delete ids_def split: if_splits)
next
  case close
  have i: "ids s' = ids s" "counter (c_ch s') = counter (c_ch s)" "c_rn s' = c_rn s" "c_log s' = c_log s" using close by (simp_all add: ids_def close_channel_def)
  have "ca_req a = rid \<and> (a \<in> set (c_log s) \<or> \<not> ca_ok a \<and> ca_error a = Some ''channel_closed'')" if "map_of (ack_futs (c_ch s')) rid = Some (Some a)" for rid a
    using that close close_get [of "c_ch s" rid a] assms(2) by (auto simp: ctl_inv_def)
  then show ?thesis using assms(2) i unfolding ctl_inv_def by simp
qed

lemma ctl_reach_inv: "ctl_reach s \<Longrightarrow> ctl_inv s"
proof (induction rule: ctl_reach.induct)
  case init
  show ?case by (simp add: ctl_inv_def ctl_init_def new_channel_def new_runner_def ids_def)
qed (rule ctl_step_inv)


definition demo_ctl :: ctl where
  "demo_ctl = (let ch = snd (host_begin OpPause [] new_channel); (a, rn) = loop_dispatch None (hd (inbox ch)) new_runner
     in \<lparr>c_ch = runner_ack a (ch\<lparr>inbox := []\<rparr>), c_rn = rn, c_log = [a]\<rparr>)"

lemma demo_ctl_reach: "ctl_reach demo_ctl"
proof -
  let ?ch = "snd (host_begin OpPause [] new_channel)"
  let ?s1 = "ctl_init\<lparr>c_ch := ?ch\<rparr>"
  let ?d = "loop_dispatch None (hd (inbox ?ch)) new_runner"
  have "ctl_step ctl_init ?s1" by (rule ctl_step.ask [of OpPause "[]" _ "''pause-1''"]) code_simp
  then have r1: "ctl_reach ?s1" by (rule ctl_reach.step [OF ctl_reach.init])
  have "ctl_step ?s1 (?s1\<lparr>c_ch := runner_ack (fst ?d) (?ch\<lparr>inbox := []\<rparr>), c_rn := snd ?d, c_log := c_log ?s1 @ [fst ?d]\<rparr>)"
    by (rule ctl_step.serve [where m = "hd (inbox ?ch)" and outcome = None]) (simp_all add: ctl_init_def runner_recv_def host_begin_def new_channel_def Let_def)
  from ctl_reach.step [OF r1 this] show ?thesis by (simp add: demo_ctl_def ctl_init_def Let_def case_prod_unfold)
qed


text \<open>
  A request that timed out is not withdrawn: the loop still serves it, and the session is interrupted
  although its pause was reported as failed. Every further pause is then refused.
\<close>

lemma timed_out_pause_still_runs:
  "\<exists>s. ctl_reach s \<and> ack_futs (c_ch s) = [] \<and> inbox (c_ch s) = [] \<and> loop_paused (c_rn s)
     \<and> fst (inproc_call (OpPause, None, None) (c_ch s, c_rn s)) =
         Some \<lparr>ca_op = OpPause, ca_req = ''pause-2'', ca_ok = False, ca_error = Some ''already_paused''\<rparr>"
proof -
  let ?ch = "snd (host_begin OpPause [] new_channel)"
  let ?s1 = "ctl_init\<lparr>c_ch := ?ch\<rparr>"
  let ?ch2 = "snd (host_end OpPause ''pause-1'' ?ch)"
  let ?s2 = "?s1\<lparr>c_ch := ?ch2\<rparr>"
  let ?d = "loop_dispatch None (hd (inbox ?ch2)) new_runner"
  let ?s3 = "?s2\<lparr>c_ch := runner_ack (fst ?d) (?ch2\<lparr>inbox := []\<rparr>), c_rn := snd ?d, c_log := c_log ?s2 @ [fst ?d]\<rparr>"
  have "ctl_step ctl_init ?s1" by (rule ctl_step.ask [of OpPause "[]" _ "''pause-1''"]) code_simp
  then have r1: "ctl_reach ?s1" by (rule ctl_reach.step [OF ctl_reach.init])
  have "ctl_step ?s1 ?s2" using ctl_step.leave [of ?s1 OpPause "''pause-1''"] by simp
  then have r2: "ctl_reach ?s2" by (rule ctl_reach.step [OF r1])
  have "ctl_step ?s2 ?s3"
    by (rule ctl_step.serve [where m = "hd (inbox ?ch2)" and outcome = None]) (simp_all add: ctl_init_def runner_recv_def host_begin_def host_end_def new_channel_def Let_def)
  then have r3: "ctl_reach ?s3" by (rule ctl_reach.step [OF r2])
  have "ack_futs (c_ch ?s3) = [] \<and> inbox (c_ch ?s3) = [] \<and> loop_paused (c_rn ?s3)
     \<and> fst (inproc_call (OpPause, None, None) (c_ch ?s3, c_rn ?s3)) =
         Some \<lparr>ca_op = OpPause, ca_req = ''pause-2'', ca_ok = False, ca_error = Some ''already_paused''\<rparr>"
    by code_simp
  with r3 show ?thesis by blast
qed

text \<open>Closing the channel answers a pending resume as if it were a pause.\<close>

lemma close_mislabels_resume:
  "ca_op (fst (host_end OpResume ''resume-1'' (close_channel (snd (host_begin OpResume [] new_channel))))) = OpPause"
  by code_simp

section \<open>Heartbeats\<close>

datatype hb_event = Beat | PongIn

fun hb_run :: "string \<Rightarrow> hb_event list \<Rightarrow> bridge \<Rightarrow> bridge" where
  "hb_run ts [] b = b"
| "hb_run ts (Beat # es) b = hb_run ts es (snd (heartbeat_tick ts True b))"
| "hb_run ts (PongIn # es) b = hb_run ts es (snd (bridge_recv (make_pong ts 0) b))"

lemma pong_resets: "snd (bridge_recv (make_pong ts n) b) = b\<lparr>hb_misses := 0, last_pong_seq := n\<rparr>"
  by (simp add: bridge_recv_def frame_defs dget_default_def envelope_def Let_def)

lemma hb_stays_unhealthy: "hb_unhealthy b \<Longrightarrow> hb_stopped b \<Longrightarrow> hb_unhealthy (hb_run ts es b)"
  by (induction ts es b rule: hb_run.induct) (auto simp: heartbeat_tick_def pong_resets)

lemma prefix_replicate: "m \<le> n \<Longrightarrow> prefix (replicate m x) (replicate n x)"
  by (metis le_Suc_ex prefixI replicate_add)

lemma hb_counts:
  assumes "\<not> hb_stopped b" and "\<not> hb_unhealthy b" and "\<not> shutdown_set b" and "hb_misses b \<le> hb_threshold b"
  shows "hb_unhealthy (hb_run ts es b) \<longleftrightarrow>
     prefix (replicate (Suc (hb_threshold b) - hb_misses b) Beat) es \<or> sublist (replicate (Suc (hb_threshold b)) Beat) es"
  using assms
proof (induction ts es b rule: hb_run.induct)
  case (1 ts b)
  then show ?case by simp
next
  case (2 ts es b)
  let ?t = "hb_threshold b"
  show ?case
  proof (cases "hb_misses b = ?t")
    case True
    then have "hb_unhealthy (hb_run ts (Beat # es) b)" using "2.prems" by (simp add: heartbeat_tick_def hb_stays_unhealthy)
    with True show ?thesis by simp
  next
    case False
    then have l: "hb_misses b < ?t" using "2.prems"(4) by simp
    let ?b = "snd (heartbeat_tick ts True b)"
    have b: "?b = b\<lparr>b_seq := b_seq b + 1, hb_misses := Suc (hb_misses b)\<rparr>" using "2.prems" l by (simp add: heartbeat_tick_def)
    have ih: "hb_unhealthy (hb_run ts es ?b) \<longleftrightarrow> prefix (replicate (?t - hb_misses b) Beat) es \<or> sublist (replicate (Suc ?t) Beat) es"
      using "2.IH" "2.prems" l by (simp add: b)
    have "prefix (replicate (?t - hb_misses b) Beat) es" if "prefix (replicate ?t Beat) es"
      using prefix_order.trans [OF prefix_replicate that] by simp
    then show ?thesis using ih l by (auto simp: sublist_Cons_right Suc_diff_le)
  qed
next
  case (3 ts es b)
  have "hb_unhealthy (hb_run ts es (b\<lparr>hb_misses := 0, last_pong_seq := 0\<rparr>)) \<longleftrightarrow>
      prefix (replicate (Suc (hb_threshold b)) Beat) es \<or> sublist (replicate (Suc (hb_threshold b)) Beat) es"
    using "3.IH" "3.prems" by (simp add: pong_resets)
  moreover have "Suc (hb_threshold b) - hb_misses b \<noteq> 0" using "3.prems"(4) by simp
  ultimately show ?case by (cases "Suc (hb_threshold b) - hb_misses b") (auto simp: pong_resets sublist_Cons_right)
qed

text \<open>The wire bridge declares a runner unhealthy exactly when, at some point, more beats than the threshold went
  by without a single pong between them: a runner that answers within the threshold is never declared
  dead, one that stops answering always is.\<close>

lemma heartbeat_exact:
  "hb_unhealthy (hb_run ts es (new_bridge thr)) \<longleftrightarrow> (\<exists>xs ys. es = xs @ replicate (Suc thr) Beat @ ys)"
proof -
  have "hb_unhealthy (hb_run ts es (new_bridge thr)) \<longleftrightarrow> prefix (replicate (Suc thr) Beat) es \<or> sublist (replicate (Suc thr) Beat) es"
    using hb_counts [of "new_bridge thr" ts es] by (simp add: new_bridge_def)
  then show ?thesis using prefix_imp_sublist [of "replicate (Suc thr) Beat" es] by (auto simp: sublist_def)
qed

section \<open>Tool decisions over the wire\<close>

text \<open>The answer of the coordinator reaches the runner that waits for it, once.\<close>

lemma decision_delivered:
  assumes "map_of (px_pending p) rid = Some None"
  shows "map_of (px_pending (snd (snd (proxy_recv ts (fst (tool_decision ts rid answer b)) p)))) rid = Some (Some (case answer of None \<Rightarrow> ''deny'' | Some d \<Rightarrow> d))"
  using assms by (simp add: tool_decision_def proxy_recv_def frame_req_def frame_defs dget_default_def envelope_def opt_field_def od_get_update Let_def)

text \<open>When the proxy stops, nobody is left waiting.\<close>

lemma proxy_exit_settles: "map_of (px_pending (proxy_exit p)) rid \<noteq> Some None"
proof -
  have "map_of (map (\<lambda>(r, f). (r, case f of None \<Rightarrow> Some ''deny'' | Some d \<Rightarrow> Some d)) xs) rid \<noteq> Some None" for xs :: "(string, string option) od"
    by (induction xs) (auto split: option.splits)
  then show ?thesis by (simp add: proxy_exit_def)
qed

text \<open>
  The bridge registers tool requests without a session id: denying the pending requests of a session, as
  cancelling it does, leaves them pending.
\<close>

lemma wire_requests_escape_cancel:
  assumes "tool_request_begin (make_tool_request ts n rid tool args) c = (Inr u, c')" and "sid \<noteq> []"
  shows "\<exists>e. map_of (pend (snd (cancel_all reason (Some sid) c'))) rid = Some e \<and> e_future e = None"
proof -
  let ?e = "\<lparr>e_tool = tool, e_args = args, e_future = None, e_session = []\<rparr>"
  have "c' = c\<lparr>pend := AList.update rid ?e (pend c)\<rparr>"
    using assms(1) by (auto simp: tool_request_begin_def request_begin_def frame_defs dget_default_def envelope_def py_or_def split: if_splits)
  moreover have "map_of (map (\<lambda>(k, e). (k, if in_scope (Some sid) e then e\<lparr>e_future := Some (''deny'', Some reason)\<rparr> else e)) xs) rid
      = map_option (\<lambda>e. if in_scope (Some sid) e then e\<lparr>e_future := Some (''deny'', Some reason)\<rparr> else e) (map_of xs rid)" for xs
    by (induction xs) auto
  ultimately show ?thesis using assms(2) by (simp add: cancel_all_def od_get_update in_scope_def)
qed

end
