(* ===== verification/Regex_Match.thy ===== *)
theory Regex_Match
  imports Relay_Prelude "HOL-Library.Sublist"
begin

text \<open>
  The part of Python's \<open>re\<close> module that the redaction rules use: character classes, sequence,
  ordered alternative, greedy repetition and the word boundary, with the backtracking
  semantics (the matches at a position in order of priority), and \<open>sub\<close>, which replaces the
  leftmost matches from left to right. A position is the character before it and the text
  after it. Patterns that match the empty text are not substituted; the rules have none.
\<close>

section \<open>Matching\<close>

datatype rx =
    Cls "char \<Rightarrow> bool"
  | Eps
  | Cat rx rx
  | Alt rx rx
  | Star rx
  | WordB

type_synonym pos = "char option \<times> string"

definition is_word :: "char \<Rightarrow> bool" where
  "is_word c = (let n = of_char c :: nat in
     (48 \<le> n \<and> n \<le> 57) \<or> (65 \<le> n \<and> n \<le> 90) \<or> n = 95 \<or> (97 \<le> n \<and> n \<le> 122))"

definition at_boundary :: "pos \<Rightarrow> bool" where
  "at_boundary p = ((case fst p of None \<Rightarrow> False | Some c \<Rightarrow> is_word c)
                    \<noteq> (case snd p of [] \<Rightarrow> False | c # _ \<Rightarrow> is_word c))"

function (sequential) matches_at :: "rx \<Rightarrow> pos \<Rightarrow> pos list" where
  "matches_at (Cls P) p = (case snd p of [] \<Rightarrow> [] | c # s \<Rightarrow> if P c then [(Some c, s)] else [])"
| "matches_at Eps p = [p]"
| "matches_at (Cat a b) p =
     concat (map (\<lambda>q. if length (snd q) \<le> length (snd p) then matches_at b q else []) (matches_at a p))"
| "matches_at (Alt a b) p = matches_at a p @ matches_at b p"
| "matches_at (Star a) p =
     concat (map (\<lambda>q. if length (snd q) < length (snd p) then matches_at (Star a) q else []) (matches_at a p)) @ [p]"
| "matches_at WordB p = (if at_boundary p then [p] else [])"
  by pat_completeness auto
termination
  by (relation "measures [\<lambda>(r, p). length (snd p), \<lambda>(r, p). size r]") auto

declare matches_at.simps(3,5) [simp del]

lemma cat_mem:
  "q \<in> set (matches_at (Cat a b) p) \<longleftrightarrow>
     (\<exists>m \<in> set (matches_at a p). length (snd m) \<le> length (snd p) \<and> q \<in> set (matches_at b m))"
  by (auto simp: matches_at.simps(3))

lemma star_mem:
  "q \<in> set (matches_at (Star a) p) \<longleftrightarrow>
     q = p \<or> (\<exists>m \<in> set (matches_at a p). length (snd m) < length (snd p) \<and> q \<in> set (matches_at (Star a) m))"
  by (subst matches_at.simps(5)) auto

definition Plus :: "rx \<Rightarrow> rx" where
  "Plus r = Cat r (Star r)"

definition Opt :: "rx \<Rightarrow> rx" where
  "Opt r = Alt r Eps"

fun Times :: "nat \<Rightarrow> rx \<Rightarrow> rx" where
  "Times 0 r = Eps"
| "Times (Suc n) r = Cat r (Times n r)"

definition Chr :: "char \<Rightarrow> rx" where
  "Chr c = Cls (\<lambda>x. x = c)"

text \<open>Literal text, and literal text ignoring case (the flag \<open>(?i)\<close>).\<close>

fun Lit :: "string \<Rightarrow> rx" where
  "Lit [] = Eps"
| "Lit (c # s) = Cat (Chr c) (Lit s)"

fun LitI :: "string \<Rightarrow> rx" where
  "LitI [] = Eps"
| "LitI (c # s) = Cat (Cls (\<lambda>x. char_lower x = char_lower c)) (LitI s)"

section \<open>Substitution\<close>

function sub_all :: "rx \<Rightarrow> string \<Rightarrow> char option \<Rightarrow> string \<Rightarrow> string" where
  "sub_all r repl p s = (case s of
     [] \<Rightarrow> []
   | c # t \<Rightarrow> (case matches_at r (p, s) of
        (q, u) # _ \<Rightarrow> if length u < length s then repl @ sub_all r repl q u else c # sub_all r repl (Some c) t
      | [] \<Rightarrow> c # sub_all r repl (Some c) t))"
  by pat_completeness auto
termination
  by (relation "measure (\<lambda>(r, repl, p, s). length s)") auto

declare sub_all.simps [simp del]

text \<open>\<open>pattern.search(s) is not None\<close>.\<close>

fun searches :: "rx \<Rightarrow> char option \<Rightarrow> string \<Rightarrow> bool" where
  "searches r p [] = (matches_at r (p, []) \<noteq> [])"
| "searches r p (c # s) = (matches_at r (p, c # s) \<noteq> [] \<or> searches r (Some c) s)"

section \<open>Context-free patterns\<close>

text \<open>No word boundary inside; every match consumes a character; no match contains \<open>x\<close>.\<close>

fun plain :: "rx \<Rightarrow> bool" where
  "plain (Cat a b) = (plain a \<and> plain b)"
| "plain (Alt a b) = (plain a \<and> plain b)"
| "plain (Star a) = plain a"
| "plain WordB = False"
| "plain _ = True"

fun consuming :: "rx \<Rightarrow> bool" where
  "consuming (Cls P) = True"
| "consuming (Cat a b) = (consuming a \<or> consuming b)"
| "consuming (Alt a b) = (consuming a \<and> consuming b)"
| "consuming _ = False"

fun avoids :: "char \<Rightarrow> rx \<Rightarrow> bool" where
  "avoids x (Cls P) = (\<not> P x)"
| "avoids x (Cat a b) = (avoids x a \<and> avoids x b)"
| "avoids x (Alt a b) = (avoids x a \<and> avoids x b)"
| "avoids x (Star a) = avoids x a"
| "avoids x _ = True"

definition accepts :: "rx \<Rightarrow> string \<Rightarrow> bool" where
  "accepts r v = (\<exists>q \<in> set (matches_at r (None, v)). snd q = [])"

text \<open>A match takes a prefix off the text, and for a plain pattern only that prefix matters.\<close>

lemma matches_prefix:
  "q \<in> set (matches_at r p) \<Longrightarrow> \<exists>u. snd p = u @ snd q \<and> (avoids x r \<longrightarrow> x \<notin> set u) \<and> (consuming r \<longrightarrow> u \<noteq> [])"
proof (induction r p arbitrary: q rule: matches_at.induct)
  case (3 a b p)
  then obtain m where m: "m \<in> set (matches_at a p)" "length (snd m) \<le> length (snd p)" "q \<in> set (matches_at b m)"
    unfolding cat_mem by blast
  obtain u where u: "snd p = u @ snd m" "avoids x a \<longrightarrow> x \<notin> set u" "consuming a \<longrightarrow> u \<noteq> []"
    using "3.IH"(1) [OF m(1)] by blast
  obtain v where v: "snd m = v @ snd q" "avoids x b \<longrightarrow> x \<notin> set v" "consuming b \<longrightarrow> v \<noteq> []"
    using "3.IH"(2) [OF m(1,2,3)] by blast
  from u v show ?case by (intro exI [of _ "u @ v"]) auto
next
  case (5 a p)
  show ?case
  proof (cases "q = p")
    case False
    then obtain m where m: "m \<in> set (matches_at a p)" "length (snd m) < length (snd p)" "q \<in> set (matches_at (Star a) m)"
      using "5.prems" star_mem [of q a p] by blast
    obtain u where u: "snd p = u @ snd m" "avoids x a \<longrightarrow> x \<notin> set u" using "5.IH"(1) [OF m(1)] by blast
    obtain v where v: "snd m = v @ snd q" "avoids x (Star a) \<longrightarrow> x \<notin> set v" using "5.IH"(2) [OF m] by blast
    from u v show ?thesis by (intro exI [of _ "u @ v"]) auto
  qed (intro exI [of _ "[]"], simp)
next
  case (4 a b p)
  from "4.prems" consider "q \<in> set (matches_at a p)" | "q \<in> set (matches_at b p)" by auto
  then show ?case
  proof cases
    case 1
    from "4.IH"(1) [OF 1] show ?thesis by auto
  next
    case 2
    from "4.IH"(2) [OF 2] show ?thesis by auto
  qed
qed (auto split: list.splits if_splits)

lemma matches_local:
  "q \<in> set (matches_at r p) \<Longrightarrow> plain r \<Longrightarrow> snd p = u @ snd q
   \<Longrightarrow> \<exists>q' \<in> set (matches_at r (o', u @ t)). snd q' = t"
proof (induction r p arbitrary: q u o' t rule: matches_at.induct)
  case (3 a b p)
  then obtain m where m: "m \<in> set (matches_at a p)" "length (snd m) \<le> length (snd p)" "q \<in> set (matches_at b m)"
    unfolding cat_mem by blast
  obtain u1 where u1: "snd p = u1 @ snd m" using matches_prefix [OF m(1)] by blast
  obtain u2 where u2: "snd m = u2 @ snd q" using matches_prefix [OF m(3)] by blast
  have u: "u = u1 @ u2" using "3.prems"(3) u1 u2 by simp
  obtain m' where m': "m' \<in> set (matches_at a (o', u1 @ u2 @ t))" "snd m' = u2 @ t"
    using "3.IH"(1) [OF m(1) _ u1] "3.prems"(2) by fastforce
  obtain q' where q': "q' \<in> set (matches_at b (fst m', u2 @ t))" "snd q' = t"
    using "3.IH"(2) [OF m(1,2,3) _ u2] "3.prems"(2) by fastforce
  have "(fst m', u2 @ t) = m'" using m'(2) by (metis prod.collapse)
  then have "q' \<in> set (matches_at (Cat a b) (o', u @ t))"
    using m' q'(1) u unfolding cat_mem by (intro bexI [of _ m']) auto
  with q'(2) show ?case by blast
next
  case (5 a p)
  show ?case
  proof (cases "q = p")
    case True
    then have "u = []" using "5.prems"(3) by simp
    then show ?thesis using star_mem [of "(o', t)" a "(o', t)"] by (intro bexI [of _ "(o', t)"]) auto
  next
    case False
    then obtain m where m: "m \<in> set (matches_at a p)" "length (snd m) < length (snd p)" "q \<in> set (matches_at (Star a) m)"
      using "5.prems"(1) star_mem [of q a p] by blast
    obtain u1 where u1: "snd p = u1 @ snd m" using matches_prefix [OF m(1)] by blast
    obtain u2 where u2: "snd m = u2 @ snd q" using matches_prefix [OF m(3)] by blast
    have u: "u = u1 @ u2" using "5.prems"(3) u1 u2 by simp
    have ne: "u1 \<noteq> []" using m(2) u1 by auto
    obtain m' where m': "m' \<in> set (matches_at a (o', u1 @ u2 @ t))" "snd m' = u2 @ t"
      using "5.IH"(1) [OF m(1) _ u1] "5.prems"(2) by fastforce
    obtain q' where q': "q' \<in> set (matches_at (Star a) (fst m', u2 @ t))" "snd q' = t"
      using "5.IH"(2) [OF m _ u2] "5.prems"(2) by fastforce
    have "(fst m', u2 @ t) = m'" using m'(2) by (metis prod.collapse)
    then have "q' \<in> set (matches_at (Star a) (o', u @ t))"
      using m' q'(1) u ne star_mem [of q' a "(o', u @ t)"] by force
    with q'(2) show ?thesis by blast
  qed
next
  case (4 a b p)
  from "4.prems"(1) consider "q \<in> set (matches_at a p)" | "q \<in> set (matches_at b p)" by auto
  then show ?case
  proof cases
    case 1
    from "4.IH"(1) [OF 1 _ "4.prems"(3), of o' t] "4.prems"(2) show ?thesis by auto
  next
    case 2
    from "4.IH"(2) [OF 2 _ "4.prems"(3), of o' t] "4.prems"(2) show ?thesis by auto
  qed
qed (auto split: list.splits if_splits)

lemma accepts_match:
  assumes "accepts r v" and "plain r"
  shows "\<exists>q \<in> set (matches_at r (p, v @ t)). snd q = t"
proof -
  obtain q where "q \<in> set (matches_at r (None, v))" "snd q = []" using assms(1) by (auto simp: accepts_def)
  then show ?thesis using matches_local [of q r "(None, v)" v p t] assms(2) by simp
qed

section \<open>What substitution leaves behind\<close>

lemma sub_cases:
  assumes "consuming r"
  obtains (nil) "s = []" "sub_all r repl p s = []"
  | (hit) q u w where "s = w @ u" "w \<noteq> []" "sub_all r repl p s = repl @ sub_all r repl q u"
  | (miss) c t where "s = c # t" "matches_at r (p, s) = []" "sub_all r repl p s = c # sub_all r repl (Some c) t"
proof (cases s)
  case Nil
  then show ?thesis using nil by (simp add: sub_all.simps)
next
  case (Cons c t)
  show ?thesis
  proof (cases "matches_at r (p, s)")
    case Nil
    then show ?thesis using miss [OF Cons] Cons by (simp add: sub_all.simps [of r repl p "c # t"])
  next
    case m: (Cons m ms)
    obtain q u where qu: "m = (q, u)" by (cases m)
    obtain w where w: "s = w @ u" "w \<noteq> []"
      using matches_prefix [of m r "(p, s)"] m qu assms by auto
    then have "length u < length s" by simp
    then show ?thesis using hit [OF w, of q] Cons m qu by (simp add: sub_all.simps [of r repl p "c # t"])
  qed
qed

text \<open>
  Text that avoids the character with which the replacement starts: what the result begins
  with, the input begins with.
\<close>

lemma sub_prefix:
  assumes "consuming r" and "x \<notin> set v" and "prefix v (sub_all r (x # repl) p s)"
  shows "prefix v s"
  using assms(2,3)
proof (induction s arbitrary: v p rule: length_induct)
  case (1 s)
  show ?case
  proof (cases rule: sub_cases [OF assms(1), of s "x # repl" p, case_names nil hit miss])
    case nil
    then show ?thesis using 1 by simp
  next
    case (hit q u w)
    then have "v = []" using 1 by (cases v) auto
    then show ?thesis by simp
  next
    case (miss c t)
    show ?thesis
    proof (cases v)
      case (Cons d v')
      then have "d = c" "prefix v' (sub_all r (x # repl) (Some c) t)" using "1.prems"(2) miss by auto
      then show ?thesis using "1.IH" [rule_format, of t v' "Some c"] "1.prems"(1) miss Cons by auto
    qed simp
  qed
qed

lemma sublist_split:
  "x \<notin> set v \<Longrightarrow> sublist v (a @ x # b) \<Longrightarrow> sublist v a \<or> sublist v b"
proof (induction a)
  case Nil
  then show ?case by (cases v) (auto simp: sublist_Cons_right)
next
  case (Cons y a)
  from Cons.prems(2) have "prefix v (y # a @ x # b) \<or> sublist v (a @ x # b)" by (simp add: sublist_Cons_right)
  then show ?case
  proof
    assume "prefix v (y # a @ x # b)"
    then have "prefix v ((y # a) @ x # b)" by simp
    then have "prefix v (y # a)"
      using Cons.prems(1) by (auto simp: prefix_append prefix_Cons)
    then show ?thesis using prefix_imp_sublist by blast
  next
    assume "sublist v (a @ x # b)"
    then show ?thesis using Cons by (auto simp: sublist_Cons_right)
  qed
qed

text \<open>
  With a replacement \<open>x # core @ [x]\<close>, a text that avoids \<open>x\<close> and occurs in the result occurs in
  the input or in the core.
\<close>

lemma sub_occurs:
  assumes "consuming r" and "x \<notin> set v" and "sublist v (sub_all r (x # core @ [x]) p s)"
  shows "sublist v s \<or> sublist v core"
  using assms(3)
proof (induction s arbitrary: p rule: length_induct)
  case (1 s)
  show ?case
  proof (cases rule: sub_cases [OF assms(1), of s "x # core @ [x]" p, case_names nil hit miss])
    case nil
    then show ?thesis using 1 by simp
  next
    case (hit q u w)
    then have "sublist v (core @ x # sub_all r (x # core @ [x]) q u)"
      using "1.prems" sublist_split [OF assms(2), of "[]"] by (auto simp: sublist_Cons_right)
    then have "sublist v core \<or> sublist v (sub_all r (x # core @ [x]) q u)"
      by (rule sublist_split [OF assms(2)])
    then show ?thesis
    proof
      assume o: "sublist v (sub_all r (x # core @ [x]) q u)"
      have "sublist u s" "length u < length s" using hit by auto
      then have "sublist v u \<or> sublist v core" using "1.IH" o by blast
      moreover have "sublist v s" if "sublist v u"
        using that hit by (metis sublist_append_leftI sublist_order.order_trans)
      ultimately show ?thesis by blast
    qed simp
  next
    case (miss c t)
    then have "prefix v (c # sub_all r (x # core @ [x]) (Some c) t) \<or> sublist v (sub_all r (x # core @ [x]) (Some c) t)"
      using "1.prems" by (simp add: sublist_Cons_right)
    then show ?thesis
    proof
      assume "prefix v (c # sub_all r (x # core @ [x]) (Some c) t)"
      then have "prefix v s"
        using miss sub_prefix [OF assms(1,2), of "core @ [x]" p s] by simp
      then show ?thesis using prefix_imp_sublist by blast
    next
      assume "sublist v (sub_all r (x # core @ [x]) (Some c) t)"
      then show ?thesis using "1.IH" miss by (auto simp: sublist_Cons_right)
    qed
  qed
qed

text \<open>A plain pattern that avoids \<open>x\<close> has no match left in the result outside the core.\<close>

lemma sub_clean:
  assumes "consuming r" and "plain r" and "avoids x r" and "accepts r v"
    and "sublist v (sub_all r (x # core @ [x]) p s)"
  shows "sublist v core"
proof -
  obtain q where q: "q \<in> set (matches_at r (None, v))" "snd q = []" using assms(4) by (auto simp: accepts_def)
  have xv: "x \<notin> set v" using matches_prefix [OF q(1), of x] q(2) assms(3) by auto
  show ?thesis using assms(5)
  proof (induction s arbitrary: p rule: length_induct)
    case (1 s)
    show ?case
    proof (cases rule: sub_cases [OF assms(1), of s "x # core @ [x]" p, case_names nil hit miss])
      case nil
      then have "v = []" using "1.prems" by simp
      then show ?thesis by simp
    next
      case (hit q u w)
      then have "sublist v (core @ x # sub_all r (x # core @ [x]) q u)"
        using "1.prems" sublist_split [OF xv, of "[]"] by (auto simp: sublist_Cons_right)
      then have "sublist v core \<or> sublist v (sub_all r (x # core @ [x]) q u)"
        by (rule sublist_split [OF xv])
      then show ?thesis
      proof
        assume "sublist v (sub_all r (x # core @ [x]) q u)"
        moreover have "length u < length s" using hit by simp
        ultimately show ?thesis using "1.IH" by blast
      qed
    next
      case (miss c t)
      then have "prefix v (sub_all r (x # core @ [x]) p s) \<or> sublist v (sub_all r (x # core @ [x]) (Some c) t)"
        using "1.prems" by (simp add: sublist_Cons_right)
      then show ?thesis
      proof
        assume "prefix v (sub_all r (x # core @ [x]) p s)"
        then have "prefix v s" by (rule sub_prefix [OF assms(1) xv])
        then obtain t' where "s = v @ t'" by (auto simp: prefix_def)
        then have "matches_at r (p, s) \<noteq> []" using accepts_match [OF assms(4,2), of p t'] by auto
        then show ?thesis using miss by simp
      next
        assume "sublist v (sub_all r (x # core @ [x]) (Some c) t)"
        then show ?thesis using "1.IH" miss by auto
      qed
    qed
  qed
qed

end
