(* ===== verification/Redaction.thy ===== *)
theory Redaction
  imports Py_Values Regex_Match
begin

text \<open>
  The redaction engine of \<open>redaction/engine.py\<close>: the five secret formats and the sensitive key
  names, masking of strings and of nested values, and the log processor. The patterns are
  written in the syntax of \<open>Regex_Match\<close>, each in the order of its source text.
\<close>

section \<open>Rules\<close>

definition REDACTED :: string where
  "REDACTED = ''***REDACTED***''"

definition SPACES :: rx where
  "SPACES = Star (Cls is_space)"

definition QUOTE :: rx where
  "QUOTE = Opt (Cls (\<lambda>c. c = CHR 39 \<or> c = CHR 34))"

definition API_KEY :: rx where
  "API_KEY = Cat (LitI ''api'') (Cat (Opt (Cls (\<lambda>c. c = CHR ''_'' \<or> c = CHR ''-''))) (LitI ''key''))"

definition assignment_pattern :: rx where
  "assignment_pattern =
     Cat WordB (Cat (Alt API_KEY (Alt (LitI ''token'') (Alt (LitI ''secret'') (LitI ''password''))))
       (Cat WordB (Cat SPACES (Cat (Cls (\<lambda>c. c = CHR '':'' \<or> c = CHR ''='')) (Cat SPACES (Cat QUOTE
         (Cat (Plus (Cls (\<lambda>c. is_word c \<or> c = CHR ''-'' \<or> c = CHR ''.'' \<or> c = CHR ''+'' \<or> c = CHR ''/''))) QUOTE)))))))"

definition anthropic_pattern :: rx where
  "anthropic_pattern = Cat (Lit ''sk-ant-'') (Plus (Cls (\<lambda>c. is_word c \<or> c = CHR ''-'')))"

definition bearer_pattern :: rx where
  "bearer_pattern = Cat (LitI ''bearer'') (Cat (Plus (Cls is_space)) (Plus (Cls (\<lambda>c. is_word c \<or> c = CHR ''-'' \<or> c = CHR ''.''))))"

definition is_upper_digit :: "char \<Rightarrow> bool" where
  "is_upper_digit c = (let n = of_char c :: nat in (48 \<le> n \<and> n \<le> 57) \<or> (65 \<le> n \<and> n \<le> 90))"

definition is_alnum :: "char \<Rightarrow> bool" where
  "is_alnum c = (is_word c \<and> c \<noteq> CHR ''_'')"

definition aws_pattern :: rx where
  "aws_pattern = Cat (Lit ''AKIA'') (Times 16 (Cls is_upper_digit))"

definition github_pattern :: rx where
  "github_pattern =
     Cat (Lit ''gh'') (Cat (Cls (\<lambda>c. c \<in> set ''posu'')) (Cat (Chr CHR ''_'') (Cat (Times 36 (Cls is_alnum)) (Star (Cls is_alnum)))))"

definition DEFAULT_PATTERNS :: "rx list" where
  "DEFAULT_PATTERNS = [assignment_pattern, anthropic_pattern, bearer_pattern, aws_pattern, github_pattern]"

definition DEFAULT_SENSITIVE_KEYS :: "string list" where
  "DEFAULT_SENSITIVE_KEYS =
     [''api_key'', ''apikey'', ''api-key'', ''token'', ''secret'', ''password'', ''pass'', ''passwd'',
      ''credentials'', ''auth'', ''authorization'', ''anthropic_api_key'', ''openai_api_key'', ''x-api-key'']"

definition SENSITIVE_PATTERN :: rx where
  "SENSITIVE_PATTERN =
     Alt (Cat (Alt API_KEY (Alt (LitI ''password'') (Alt (LitI ''secret'') (LitI ''token''))))
           (Cat SPACES (Cat (Cls (\<lambda>c. c = CHR '':'' \<or> c = CHR ''='')) (Cat SPACES (Plus (Cls (\<lambda>c. \<not> is_space c)))))))
         (Cat (LitI ''bearer'') (Cat (Plus (Cls is_space)) (Plus (Cls (\<lambda>c. \<not> is_space c)))))"

section \<open>The engine\<close>

record engine =
  patterns :: "rx list"
  sensitive_keys :: "string list"

definition make_engine :: "rx list \<Rightarrow> string list \<Rightarrow> engine" where
  "make_engine ps ks = \<lparr>patterns = ps, sensitive_keys = map str_lower ks\<rparr>"

definition default_engine :: engine where
  "default_engine = make_engine DEFAULT_PATTERNS DEFAULT_SENSITIVE_KEYS"

definition redact_string :: "engine \<Rightarrow> string \<Rightarrow> string" where
  "redact_string e s = foldl (\<lambda>out r. sub_all r REDACTED None out) s (patterns e)"

definition sensitive_key :: "engine \<Rightarrow> pyval \<Rightarrow> bool" where
  "sensitive_key e k = (case k of PStr s \<Rightarrow> str_lower s \<in> set (sensitive_keys e) | _ \<Rightarrow> False)"

fun redact_value :: "engine \<Rightarrow> pyval \<Rightarrow> pyval"
and redact_list :: "engine \<Rightarrow> pyval list \<Rightarrow> pyval list"
and redact_dict :: "engine \<Rightarrow> pydict \<Rightarrow> pydict" where
  "redact_value e (PStr s) = PStr (redact_string e s)"
| "redact_value e (PDict d) = PDict (redact_dict e d)"
| "redact_value e (PList xs) = PList (redact_list e xs)"
| "redact_value e (PTuple xs) = PList (redact_list e xs)"
| "redact_value e v = v"
| "redact_list e [] = []"
| "redact_list e (x # xs) = redact_value e x # redact_list e xs"
| "redact_dict e [] = []"
| "redact_dict e ((k, v) # d) =
     (k, if sensitive_key e k then PStr REDACTED else redact_value e v) # redact_dict e d"

definition redact_frame :: "engine \<Rightarrow> pydict \<Rightarrow> pydict" where
  "redact_frame e f = redact_dict e f"

section \<open>The log processor\<close>

datatype log_value = Secret string | Plain pyval

definition mask_value :: "log_value \<Rightarrow> log_value" where
  "mask_value v = (case v of
     Secret _ \<Rightarrow> Plain (PStr ''***'')
   | Plain (PStr s) \<Rightarrow> if searches SENSITIVE_PATTERN None s then Plain (PStr ''***'') else v
   | Plain _ \<Rightarrow> v)"

definition redaction_processor :: "(string \<times> log_value) list \<Rightarrow> (string \<times> log_value) list" where
  "redaction_processor event = map (\<lambda>(k, v). (k, mask_value v)) event"

section \<open>No known secret format survives\<close>

text \<open>Every match of the pattern contains a character with the property.\<close>

fun must :: "rx \<Rightarrow> (char \<Rightarrow> bool) \<Rightarrow> bool" where
  "must (Cls Q) P = (\<forall>c. Q c \<longrightarrow> P c)"
| "must (Cat a b) P = (must a P \<or> must b P)"
| "must (Alt a b) P = (must a P \<and> must b P)"
| "must _ P = False"

lemma must_match:
  "q \<in> set (matches_at r p) \<Longrightarrow> must r P \<Longrightarrow> \<exists>u. snd p = u @ snd q \<and> (\<exists>c \<in> set u. P c)"
proof (induction r arbitrary: p q)
  case (Cat a b)
  then obtain m where m: "m \<in> set (matches_at a p)" "q \<in> set (matches_at b m)"
    unfolding cat_mem by blast
  obtain u where u: "snd p = u @ snd m" using matches_prefix [OF m(1)] by blast
  obtain w where w: "snd m = w @ snd q" using matches_prefix [OF m(2)] by blast
  from Cat.prems(2) consider "must a P" | "must b P" by auto
  then show ?case
  proof cases
    case 1
    then obtain u' where "snd p = u' @ snd m" "\<exists>c \<in> set u'. P c" using Cat.IH(1) [OF m(1)] by blast
    then show ?thesis using w by (intro exI [of _ "u' @ w"]) auto
  next
    case 2
    then obtain w' where "snd m = w' @ snd q" "\<exists>c \<in> set w'. P c" using Cat.IH(2) [OF m(2)] by blast
    then show ?thesis using u by (intro exI [of _ "u @ w'"]) auto
  qed
next
  case (Alt a b)
  from Alt.prems(1) consider "q \<in> set (matches_at a p)" | "q \<in> set (matches_at b p)" by auto
  then show ?case using Alt by cases auto
qed (auto split: list.splits if_splits)

lemma must_accepts: "accepts r v \<Longrightarrow> must r P \<Longrightarrow> \<exists>c \<in> set v. P c"
  using must_match [of _ r "(None, v)" P] by (fastforce simp: accepts_def)

definition CORE :: string where
  "CORE = ''**REDACTED**''"

lemma REDACTED_shape: "REDACTED = CHR ''*'' # CORE @ [CHR ''*'']"
  by (simp add: REDACTED_def CORE_def)

text \<open>The four patterns that do not look at their surroundings.\<close>

definition context_free_patterns :: "rx list" where
  "context_free_patterns = [anthropic_pattern, bearer_pattern, aws_pattern, github_pattern]"

lemma pattern_consuming:
  "r \<in> set DEFAULT_PATTERNS \<Longrightarrow> consuming r"
  by (auto simp: DEFAULT_PATTERNS_def assignment_pattern_def anthropic_pattern_def bearer_pattern_def
        aws_pattern_def github_pattern_def Plus_def Chr_def)

lemma plain_Times [simp]: "plain r \<Longrightarrow> plain (Times n r)"
  by (induction n) auto

lemma avoids_Times [simp]: "avoids x r \<Longrightarrow> avoids x (Times n r)"
  by (induction n) auto

lemma context_free:
  assumes "r \<in> set context_free_patterns"
  shows "consuming r" and "plain r" and "avoids (CHR ''*'') r"
proof -
  show "consuming r" using assms pattern_consuming by (auto simp: context_free_patterns_def DEFAULT_PATTERNS_def)
  show "plain r"
    using assms by (auto simp: context_free_patterns_def anthropic_pattern_def bearer_pattern_def aws_pattern_def
        github_pattern_def Plus_def Chr_def)
  show "avoids (CHR ''*'') r"
    using assms by (auto simp: context_free_patterns_def anthropic_pattern_def bearer_pattern_def aws_pattern_def
        github_pattern_def Plus_def Chr_def is_word_def is_space_def is_upper_digit_def is_alnum_def char_lower_def)
qed

lemma must_Lit: "c \<in> set s \<Longrightarrow> P c \<Longrightarrow> must (Lit s) P"
  by (induction s) (auto simp: Chr_def)

lemma must_core:
  assumes "r \<in> set context_free_patterns"
  shows "must r (\<lambda>c. c \<notin> set CORE)"
proof -
  have "must (Lit ''sk-ant-'') (\<lambda>c. c \<notin> set CORE)" by (rule must_Lit [of "CHR ''s''"]) (simp_all add: CORE_def)
  then have 1: "must anthropic_pattern (\<lambda>c. c \<notin> set CORE)" by (simp only: anthropic_pattern_def must.simps simp_thms)
  have "must (Cls is_space) (\<lambda>c. c \<notin> set CORE)" by (auto simp: CORE_def is_space_def)
  then have 2: "must bearer_pattern (\<lambda>c. c \<notin> set CORE)" unfolding bearer_pattern_def Plus_def must.simps by blast
  have "must (Lit ''AKIA'') (\<lambda>c. c \<notin> set CORE)" by (rule must_Lit [of "CHR ''K''"]) (simp_all add: CORE_def)
  then have 3: "must aws_pattern (\<lambda>c. c \<notin> set CORE)" by (simp only: aws_pattern_def must.simps simp_thms)
  have "must (Lit ''gh'') (\<lambda>c. c \<notin> set CORE)" by (rule must_Lit [of "CHR ''g''"]) (simp_all add: CORE_def)
  then have 4: "must github_pattern (\<lambda>c. c \<notin> set CORE)" by (simp only: github_pattern_def must.simps simp_thms)
  from 1 2 3 4 assms show ?thesis by (auto simp only: context_free_patterns_def list.set insert_iff empty_iff)
qed

lemma core_clean:
  assumes "r \<in> set context_free_patterns" and "accepts r v"
  shows "\<not> sublist v CORE"
proof
  assume "sublist v CORE"
  then have sub: "set v \<subseteq> set CORE" by (rule set_mono_sublist)
  show False using must_accepts [OF assms(2) must_core [OF assms(1)]] sub by blast
qed

text \<open>Each pass keeps a text clean of a pattern, and the pattern's own pass makes it so.\<close>

definition clean :: "rx \<Rightarrow> string \<Rightarrow> bool" where
  "clean r s \<longleftrightarrow> (\<forall>v. accepts r v \<longrightarrow> \<not> sublist v s)"

lemma accepts_avoids: "accepts r v \<Longrightarrow> avoids x r \<Longrightarrow> x \<notin> set v"
  using matches_prefix [of _ r "(None, v)" x] by (fastforce simp: accepts_def)

lemma clean_pass:
  assumes "r \<in> set context_free_patterns" and "p \<in> set DEFAULT_PATTERNS" and "clean r s \<or> p = r"
  shows "clean r (sub_all p REDACTED None s)"
  unfolding clean_def
proof (intro allI impI notI)
  fix v assume v: "accepts r v" and occ: "sublist v (sub_all p REDACTED None s)"
  note cf = context_free [OF assms(1)]
  have "sublist v s \<or> sublist v CORE"
    using sub_occurs [OF pattern_consuming [OF assms(2)] accepts_avoids [OF v cf(3)]] occ by (simp add: REDACTED_shape)
  moreover have "\<not> sublist v CORE" using core_clean [OF assms(1) v] .
  moreover have "\<not> sublist v s" if "clean r s" using that v by (simp add: clean_def)
  moreover have "sublist v CORE" if "p = r"
    using sub_clean [OF cf v] occ that by (simp add: REDACTED_shape)
  ultimately show False using assms(3) by blast
qed

lemma clean_passes:
  assumes "r \<in> set context_free_patterns" and "set ps \<subseteq> set DEFAULT_PATTERNS" and "clean r s \<or> r \<in> set ps"
  shows "clean r (foldl (\<lambda>out p. sub_all p REDACTED None out) s ps)"
  using assms(2,3)
proof (induction ps arbitrary: s)
  case (Cons p ps)
  have p: "p \<in> set DEFAULT_PATTERNS" using Cons.prems by simp
  have "clean r (sub_all p REDACTED None s) \<or> r \<in> set ps"
    using Cons.prems(2) clean_pass [OF assms(1) p, of s] by auto
  then show ?case using Cons by simp
qed simp



section \<open>Sensitive keys\<close>

text \<open>At every depth, the value under a sensitive key is the placeholder.\<close>

fun masked :: "engine \<Rightarrow> pyval \<Rightarrow> bool"
and masked_list :: "engine \<Rightarrow> pyval list \<Rightarrow> bool"
and masked_dict :: "engine \<Rightarrow> pydict \<Rightarrow> bool" where
  "masked e (PDict d) = masked_dict e d"
| "masked e (PList xs) = masked_list e xs"
| "masked e (PTuple xs) = masked_list e xs"
| "masked e v = True"
| "masked_list e [] = True"
| "masked_list e (x # xs) = (masked e x \<and> masked_list e xs)"
| "masked_dict e [] = True"
| "masked_dict e ((k, v) # d) = ((sensitive_key e k \<longrightarrow> v = PStr REDACTED) \<and> masked e v \<and> masked_dict e d)"

lemma redaction_masks: "masked e (redact_value e v)" "masked_list e (redact_list e xs)" "masked_dict e (redact_dict e d)"
  by (induction e v and e xs and e d rule: redact_value_redact_list_redact_dict.induct) auto

text \<open>
  after redaction every value under a sensitive key (in any letter case), at any depth of
  nesting in dictionaries, lists and tuples, is the placeholder, and the keys of the top level
  are those of the input in their order.
\<close>

lemma sensitive_keys_masked:
  "masked e (redact_value e v) \<and> masked_list e (redact_list e xs) \<and> masked_dict e (redact_dict e d)
   \<and> map fst (redact_dict e d) = map fst d"
proof -
  have "map fst (redact_dict e d) = map fst d" by (induction d) auto
  then show ?thesis using redaction_masks by blast
qed

section \<open>What the rules miss\<close>

text \<open>
  two ways in which a credential passes the default rules. The assignment rule runs first
  and takes the word \<open>Bearer\<close> for the value, so the token behind it stays; and its leading word
  boundary does not hold behind an underscore, so \<open>access_token=\<close> is not recognised at all,
  although the log processor's pattern does recognise it.
\<close>

lemma redaction_misses:
  "redact_string default_engine ''token: Bearer s3cr3t'' = ''***REDACTED*** s3cr3t''
   \<and> redact_string default_engine ''access_token=s3cr3t'' = ''access_token=s3cr3t''
   \<and> searches SENSITIVE_PATTERN None ''access_token=s3cr3t''"
  by code_simp

end
