(* ===== verification/Runner_Core.thy ===== *)
theory Runner_Core
  imports Tool_Policy Control_Bridge Redaction
begin

text \<open>
  The runner that drives one SDK conversation (\<open>session/client.py\<close>) and the relay of SDK hooks
  (\<open>session/hooks.py\<close>): the frames a session emits and their numbers, the pairing of permission
  requests with tool calls, the guards against fake completions, the commands run beforehand and the
  environment of the SDK. SDK messages arrive as values with the attributes the code reads. The
  texts that the standard library makes of arbitrary values (\<open>json.dumps\<close> with sorted keys, \<open>str\<close>,
  \<open>repr\<close>, tracebacks and hashes) are parameters; frames are logged in the order they are sent.
\<close>

section \<open>SDK messages\<close>

datatype block =
    TextBlock string
  | ThinkingBlock string
  | ToolUseBlock string string pydict
  | ToolResultBlock string pyval pyval
  | OtherBlock string bool pydict string

datatype sdk_msg =
    ResultMessage "pydict option" "pyfloat option"
  | AssistantMessage string "string option" "block list"
  | UserMessage "string option" "string + block list"
  | SystemMessage string pyval
  | StreamEvent pydict
  | OtherMessage string bool pydict string

definition opt_str :: "string option \<Rightarrow> pyval" where
  "opt_str s = (case s of None \<Rightarrow> PNone | Some t \<Rightarrow> PStr t)"

text \<open>
  A value of any other class: its class name, whether it is a dataclass, its attributes and its
  \<open>repr\<close>.
\<close>

definition serialize_other :: "string \<Rightarrow> bool \<Rightarrow> pydict \<Rightarrow> string \<Rightarrow> pydict" where
  "serialize_other name is_dataclass attrs rep =
     (if is_dataclass then fold (\<lambda>(k, v). dict_put k v) attrs [(PStr ''type'', PStr name)]
      else [(PStr ''type'', PStr name), (PStr ''repr'', PStr rep)])"

fun serialize_block :: "block \<Rightarrow> pydict" where
  "serialize_block (TextBlock s) = [(PStr ''type'', PStr ''text''), (PStr ''text'', PStr s)]"
| "serialize_block (ThinkingBlock sig) = [(PStr ''type'', PStr ''thinking''), (PStr ''signature'', PStr sig)]"
| "serialize_block (ToolUseBlock uid name inp) =
     [(PStr ''type'', PStr ''tool_use''), (PStr ''id'', PStr uid), (PStr ''name'', PStr name), (PStr ''input'', PDict inp)]"
| "serialize_block (ToolResultBlock uid content is_error) =
     [(PStr ''type'', PStr ''tool_result''), (PStr ''tool_use_id'', PStr uid), (PStr ''is_error'', is_error)]"
| "serialize_block (OtherBlock name dc attrs rep) = serialize_other name dc attrs rep"

definition serialize_assistant :: "string \<Rightarrow> string option \<Rightarrow> block list \<Rightarrow> pydict" where
  "serialize_assistant model parent content =
     [(PStr ''type'', PStr ''AssistantMessage''), (PStr ''model'', PStr model), (PStr ''parent_tool_use_id'', opt_str parent),
      (PStr ''content'', PList (map (PDict \<circ> serialize_block) content))]"

definition serialize_user :: "string option \<Rightarrow> string + block list \<Rightarrow> pydict" where
  "serialize_user parent content =
     [(PStr ''type'', PStr ''UserMessage''), (PStr ''parent_tool_use_id'', opt_str parent),
      (PStr ''content'', case content of Inl s \<Rightarrow> PStr s | Inr bs \<Rightarrow> PList (map (PDict \<circ> serialize_block) bs))]"

fun serialize_misc :: "sdk_msg \<Rightarrow> pydict" where
  "serialize_misc (SystemMessage subtype data) =
     [(PStr ''type'', PStr ''SystemMessage''), (PStr ''subtype'', PStr subtype), (PStr ''data'', data)]"
| "serialize_misc (StreamEvent attrs) =
     [(PStr ''type'', PStr ''StreamEvent''), (PStr ''uuid'', dget attrs ''uuid''), (PStr ''session_id'', dget attrs ''session_id''),
      (PStr ''event'', dget attrs ''event''), (PStr ''parent_tool_use_id'', dget attrs ''parent_tool_use_id'')]"
| "serialize_misc (OtherMessage name dc attrs rep) = serialize_other name dc attrs rep"
| "serialize_misc _ = []"

definition serialize_tool_result :: "pyval \<Rightarrow> pyval \<Rightarrow> pydict" where
  "serialize_tool_result content is_error = [(PStr ''content'', content), (PStr ''is_error'', is_error)]"

definition SYNTHETIC_MODEL_MARKER :: string where
  "SYNTHETIC_MODEL_MARKER = ''<synthetic>''"

definition API_RETRY_SUBTYPE :: string where
  "API_RETRY_SUBTYPE = ''api_retry''"

fun block_text :: "block \<Rightarrow> string option" where
  "block_text (TextBlock s) = (if s = [] then None else Some s)"
| "block_text (OtherBlock name dc attrs rep) = nonempty_str (dget attrs ''text'')"
| "block_text _ = None"

fun join_space :: "string list \<Rightarrow> string" where
  "join_space [] = []"
| "join_space [s] = s"
| "join_space (s # t # r) = s @ '' '' @ join_space (t # r)"

definition extract_synthetic_text :: "block list \<Rightarrow> string" where
  "extract_synthetic_text content =
     (let parts = List.map_filter block_text content
      in if parts = [] then ''synthetic AssistantMessage'' else join_space parts)"

section \<open>State of a runner\<close>

type_synonym tool_key = "string \<times> (pyval \<times> string) set"

record core =
  seq_no :: int
  pending_perms :: "(string \<times> tool_key) list"
  pending_use_blocks :: "(string \<times> tool_key) list"
  use_id_to_req_id :: "(string, string) od"
  api_retry_count :: nat
  last_api_retry_payload :: "pydict option"
  last_synthetic_text :: "string option"
  hook_seq :: int
  sent :: "pydict list"

definition new_core :: core where
  "new_core = \<lparr>seq_no = 0, pending_perms = [], pending_use_blocks = [], use_id_to_req_id = [], api_retry_count = 0,
     last_api_retry_payload = None, last_synthetic_text = None, hook_seq = 900000, sent = []\<rparr>"

record texts =
  dumps_text :: "pyval \<Rightarrow> string"
  str_text :: "pyval \<Rightarrow> string"
  repr_text :: "pyval \<Rightarrow> string"
  argv_text :: "string list \<Rightarrow> string"
  traceback_text :: string
  hash_text :: "pydict \<Rightarrow> string"

record run_cfg =
  r_session :: string
  r_cwd :: string
  r_policy :: tool_policy
  r_resolve :: fs
  r_budget :: int

definition freeze :: "texts \<Rightarrow> pydict \<Rightarrow> (pyval \<times> string) set" where
  "freeze tx d = set (map (\<lambda>(k, v). (k, dumps_text tx v)) d)"

text \<open>A frame with the current number, and one with the next number.\<close>

definition send :: "(int \<Rightarrow> pydict) \<Rightarrow> core \<Rightarrow> core" where
  "send mk c = c\<lparr>sent := sent c @ [mk (seq_no c)]\<rparr>"

definition bump :: "core \<Rightarrow> core" where
  "bump c = c\<lparr>seq_no := seq_no c + 1\<rparr>"

section \<open>Permission requests and tool calls\<close>

fun take_match :: "'k \<Rightarrow> (string \<times> 'k) list \<Rightarrow> (string \<times> (string \<times> 'k) list) option" where
  "take_match k [] = None"
| "take_match k ((i, k') # r) =
     (if k' = k then Some (i, r) else map_option (\<lambda>(j, r'). (j, (i, k') # r')) (take_match k r))"

definition queue_perm :: "string \<Rightarrow> tool_key \<Rightarrow> core \<Rightarrow> core" where
  "queue_perm rid k c = (case take_match k (pending_use_blocks c) of
     Some (uid, r) \<Rightarrow> c\<lparr>pending_use_blocks := r, use_id_to_req_id := AList.update uid rid (use_id_to_req_id c)\<rparr>
   | None \<Rightarrow> c\<lparr>pending_perms := pending_perms c @ [(rid, k)]\<rparr>)"

definition queue_block :: "string \<Rightarrow> tool_key \<Rightarrow> core \<Rightarrow> core" where
  "queue_block uid k c = (case take_match k (pending_perms c) of
     Some (rid, r) \<Rightarrow> c\<lparr>pending_perms := r, use_id_to_req_id := AList.update uid rid (use_id_to_req_id c)\<rparr>
   | None \<Rightarrow> c\<lparr>pending_use_blocks := pending_use_blocks c @ [(uid, k)]\<rparr>)"

datatype permission = Allow | Deny string

definition runner_req_id :: "run_cfg \<Rightarrow> string \<Rightarrow> string" where
  "runner_req_id cfg short = (if r_session cfg = [] then ''r-'' @ short else r_session cfg @ '':'' @ short)"

text \<open>
  \<open>can_use_tool\<close> up to its wait for the coordinator: an answer, or the request that was sent. \<open>short\<close>
  is the fresh random part of the id.
\<close>

definition can_use_begin ::
    "texts \<Rightarrow> run_cfg \<Rightarrow> string \<Rightarrow> string \<Rightarrow> string \<Rightarrow> pydict \<Rightarrow> core \<Rightarrow> (py_exn + permission + string) \<times> core" where
  "can_use_begin tx cfg ts short tool inp c =
     (case decide (r_resolve cfg) (r_policy cfg) tool inp (r_cwd cfg) of
        Inl e \<Rightarrow> (Inl e, c)
      | Inr ACCEPT \<Rightarrow> (Inr (Inl Allow), c)
      | Inr DENY \<Rightarrow> (Inr (Inl (Deny (''policy denied '' @ tool))), c)
      | Inr NEEDS_HITL \<Rightarrow>
          (let rid = runner_req_id cfg short
           in (Inr (Inr rid),
               send (\<lambda>n. make_tool_request ts n rid tool inp) (bump (queue_perm rid (tool, freeze tx inp) c)))))"

definition can_use_end :: "string \<Rightarrow> permission" where
  "can_use_end answer = (if answer = ''accept'' then Allow else Deny ''HITL rejected'')"

section \<open>Messages\<close>

datatype verdict = Continue | Finish | PermissionError string

fun tool_uses :: "block list \<Rightarrow> (string \<times> string \<times> pydict) list" where
  "tool_uses [] = []"
| "tool_uses (ToolUseBlock uid name inp # bs) = (uid, name, inp) # tool_uses bs"
| "tool_uses (_ # bs) = tool_uses bs"

fun tool_results :: "block list \<Rightarrow> (string \<times> pyval \<times> pyval) list" where
  "tool_results [] = []"
| "tool_results (ToolResultBlock uid content is_error # bs) = (uid, content, is_error) # tool_results bs"
| "tool_results (_ # bs) = tool_results bs"

definition results_of :: "string + block list \<Rightarrow> (string \<times> pyval \<times> pyval) list" where
  "results_of content = (case content of Inl _ \<Rightarrow> [] | Inr bs \<Rightarrow> tool_results bs)"

definition send_result :: "string \<Rightarrow> string \<times> pyval \<times> pyval \<Rightarrow> core \<Rightarrow> core" where
  "send_result ts r c = (case r of (uid, content, is_error) \<Rightarrow>
     let rid = (case map_of (use_id_to_req_id c) uid of None \<Rightarrow> [] | Some rid \<Rightarrow> rid)
     in send (\<lambda>n. make_tool_result ts n rid (\<not> py_truthy is_error) (serialize_tool_result content is_error))
          (bump (c\<lparr>use_id_to_req_id := AList.delete uid (use_id_to_req_id c)\<rparr>)))"

definition on_assistant :: "texts \<Rightarrow> string \<Rightarrow> string \<Rightarrow> string option \<Rightarrow> block list \<Rightarrow> core \<Rightarrow> core" where
  "on_assistant tx ts model parent content c =
     (let c1 = bump c;
          c2 = c1\<lparr>last_synthetic_text := (if model = SYNTHETIC_MODEL_MARKER then Some (extract_synthetic_text content) else None)\<rparr>;
          c3 = fold (\<lambda>(uid, name, inp). queue_block uid (name, freeze tx inp)) (tool_uses content) c2
      in send (\<lambda>n. make_msg_chunk ts n (serialize_assistant model parent content)) c3)"

definition on_user :: "string \<Rightarrow> string option \<Rightarrow> string + block list \<Rightarrow> core \<Rightarrow> core" where
  "on_user ts parent content c =
     (if results_of content \<noteq> [] then fold (send_result ts) (results_of content) (bump c)
      else send (\<lambda>n. make_msg_chunk ts n (serialize_user parent content)) (bump c))"

definition format_retry_budget_error :: "texts \<Rightarrow> nat \<Rightarrow> int \<Rightarrow> pydict option \<Rightarrow> string" where
  "format_retry_budget_error tx count budget last_payload =
     (let base = ''upstream api_retry budget exhausted (count='' @ str_nat count @ '' budget='' @ str_text tx (PInt budget) @ '')''
      in case last_payload of
           None \<Rightarrow> base
         | Some d \<Rightarrow>
             let status = dget d ''error_status''; err = dget d ''error''
             in if status = PNone \<and> err = PNone then base
                else base @ '': error_status='' @ str_text tx status @ '' error='' @ repr_text tx err)"

definition is_retry :: "sdk_msg \<Rightarrow> bool" where
  "is_retry m = (case m of SystemMessage subtype data \<Rightarrow> subtype = API_RETRY_SUBTYPE | _ \<Rightarrow> False)"

definition note_retry :: "pyval \<Rightarrow> core \<Rightarrow> core" where
  "note_retry data c = c\<lparr>api_retry_count := Suc (api_retry_count c),
     last_api_retry_payload := (case data of PDict d \<Rightarrow> Some d | _ \<Rightarrow> last_api_retry_payload c)\<rparr>"

definition on_misc :: "texts \<Rightarrow> run_cfg \<Rightarrow> string \<Rightarrow> sdk_msg \<Rightarrow> core \<Rightarrow> verdict \<times> core" where
  "on_misc tx cfg ts m c =
     (let c1 = (case m of SystemMessage subtype data \<Rightarrow> if is_retry m then note_retry data (bump c) else bump c | _ \<Rightarrow> bump c);
          c2 = send (\<lambda>n. make_msg_chunk ts n (serialize_misc m)) c1
      in if is_retry m \<and> r_budget cfg > 0 \<and> int (api_retry_count c1) > r_budget cfg
         then (PermissionError (format_retry_budget_error tx (api_retry_count c1) (r_budget cfg) (last_api_retry_payload c1)), c2)
         else (Continue, c2))"

fun on_message :: "texts \<Rightarrow> run_cfg \<Rightarrow> string \<Rightarrow> sdk_msg \<Rightarrow> core \<Rightarrow> verdict \<times> core" where
  "on_message tx cfg ts (ResultMessage usage cost) c =
     (case last_synthetic_text c of
        Some t \<Rightarrow> (PermissionError (''upstream auth failure: synthetic completion ('' @ take 200 t @ '')''), bump c)
      | None \<Rightarrow> (Finish, send (\<lambda>n. make_session_end ts n ''completed'' (case usage of None \<Rightarrow> [] | Some d \<Rightarrow> d)
                                       (case cost of None \<Rightarrow> Fin 0 | Some f \<Rightarrow> f)) (bump (bump c))))"
| "on_message tx cfg ts (AssistantMessage model parent content) c = (Continue, on_assistant tx ts model parent content c)"
| "on_message tx cfg ts (UserMessage parent content) c = (Continue, on_user ts parent content c)"
| "on_message tx cfg ts m c = on_misc tx cfg ts m c"

text \<open>The \<open>except BaseException\<close> branch: the cause as an error frame before the exception goes on.\<close>

definition report_failure :: "texts \<Rightarrow> string \<Rightarrow> string \<Rightarrow> string \<Rightarrow> core \<Rightarrow> core" where
  "report_failure tx ts name message c =
     send (\<lambda>n. make_error ts n name message (Some (traceback_text tx))) (bump c)"

text \<open>The receive loop on the messages of a conversation: the error it raised, if any.\<close>

fun drain_messages :: "texts \<Rightarrow> run_cfg \<Rightarrow> (string \<times> sdk_msg) list \<Rightarrow> core \<Rightarrow> string option \<times> core" where
  "drain_messages tx cfg [] c = (None, c)"
| "drain_messages tx cfg ((ts, m) # ms) c = (case on_message tx cfg ts m c of
     (Continue, c') \<Rightarrow> drain_messages tx cfg ms c'
   | (Finish, c') \<Rightarrow> (None, c')
   | (PermissionError e, c') \<Rightarrow> (Some e, report_failure tx ts ''SDKPermissionError'' e c'))"

section \<open>Before the conversation\<close>

record install_report =
  ir_profile :: "string option"
  ir_modules :: "string list"
  ir_duration_ms :: int
  ir_root :: string

definition announce_install :: "string \<Rightarrow> install_report option \<Rightarrow> core \<Rightarrow> core" where
  "announce_install ts rep c = (case rep of
     None \<Rightarrow> c
   | Some r \<Rightarrow> bump (send (\<lambda>n. make_install_done ts n (ir_profile r) (ir_modules r) (ir_duration_ms r) (ir_root r)) c))"

definition PRE_RUN_OUTPUT_LIMIT_BYTES :: nat where
  "PRE_RUN_OUTPUT_LIMIT_BYTES = 64 * 1024"

definition pre_run_chunk :: "string \<Rightarrow> string \<Rightarrow> string \<Rightarrow> core \<Rightarrow> core" where
  "pre_run_chunk ts sid t c =
     bump (send (\<lambda>n. make_msg_chunk ts n [(PStr ''text'', PStr t), (PStr ''stream'', PStr ''pre_run''), (PStr ''session_id'', PStr sid)]) c)"

definition truncation_notice :: string where
  "truncation_notice = ''[pre_run] output truncated at '' @ str_nat PRE_RUN_OUTPUT_LIMIT_BYTES @ '' bytes'' @ [CHR 0x0A]"

text \<open>
  One chunk that a command wrote: the state is the runner, the bytes forwarded in this session so
  far and what is captured of this command's output.
\<close>

definition stream_chunk :: "string \<Rightarrow> string \<Rightarrow> string \<Rightarrow> core \<times> nat \<times> string \<Rightarrow> core \<times> nat \<times> string" where
  "stream_chunk ts sid chunk s = (case s of (c, emitted, captured) \<Rightarrow>
     let captured' = (if length captured < PRE_RUN_OUTPUT_LIMIT_BYTES
                      then captured @ take (PRE_RUN_OUTPUT_LIMIT_BYTES - length captured) chunk else captured)
     in if emitted < PRE_RUN_OUTPUT_LIMIT_BYTES then
          let forwarded = take (PRE_RUN_OUTPUT_LIMIT_BYTES - emitted) chunk;
              emitted' = emitted + length forwarded;
              c1 = pre_run_chunk ts sid forwarded c;
              c2 = (if emitted' \<ge> PRE_RUN_OUTPUT_LIMIT_BYTES then pre_run_chunk ts sid truncation_notice c1 else c1)
          in (c2, emitted', captured')
        else (c, emitted, captured'))"

text \<open>
  What a command does: it cannot be started, it writes and exits with a code, or it has only
  written so much when one of the two time budgets is over.
\<close>

datatype process = SpawnFails string | Exits "string list" int | TimesOut "string list"

definition emit_error :: "string \<Rightarrow> string \<Rightarrow> string \<Rightarrow> string option \<Rightarrow> core \<Rightarrow> core" where
  "emit_error ts code message tb c = bump (send (\<lambda>n. make_error ts n code message tb) c)"

fun run_one :: "texts \<Rightarrow> string \<Rightarrow> string \<Rightarrow> string list \<Rightarrow> process \<Rightarrow> core \<times> nat \<Rightarrow> (string + unit) \<times> core \<times> nat" where
  "run_one tx ts sid argv (SpawnFails exc) (c, emitted) =
     (Inl (''pre_run_cmd failed to spawn: '' @ argv_text tx argv),
      emit_error ts ''pre_run_spawn_failed'' (''failed to spawn argv='' @ argv_text tx argv @ '': '' @ exc) (Some (traceback_text tx)) c, emitted)"
| "run_one tx ts sid argv (Exits chunks rc) (c, emitted) =
     (case fold (stream_chunk ts sid) chunks (c, emitted, []) of (c', emitted', captured) \<Rightarrow>
        if rc \<noteq> 0 then
          (Inl (''pre_run_cmd non-zero exit: argv='' @ argv_text tx argv @ '' rc='' @ str_text tx (PInt rc)),
           emit_error ts ''pre_run_failed'' (''pre_run argv='' @ argv_text tx argv @ '' exit='' @ str_text tx (PInt rc)) (Some captured) c', emitted')
        else (Inr (), c', emitted'))"
| "run_one tx ts sid argv (TimesOut chunks) (c, emitted) =
     (case fold (stream_chunk ts sid) chunks (c, emitted, []) of (c', emitted', captured) \<Rightarrow>
        (Inl ''pre_run_cmds timed out'',
         emit_error ts ''pre_run_timeout'' ''pre_run_cmds exceeded time budget'' None c', emitted'))"

fun execute_pre_run_cmds :: "texts \<Rightarrow> string \<Rightarrow> string \<Rightarrow> (string list \<times> process) list \<Rightarrow> core \<times> nat \<Rightarrow> (string + unit) \<times> core \<times> nat" where
  "execute_pre_run_cmds tx ts sid [] s = (Inr (), s)"
| "execute_pre_run_cmds tx ts sid ((argv, p) # cmds) s = (case run_one tx ts sid argv p s of
     (Inl e, s') \<Rightarrow> (Inl e, s')
   | (Inr (), s') \<Rightarrow> execute_pre_run_cmds tx ts sid cmds s')"

definition SDK_HOST_ENV_PASSTHROUGH :: "string list" where
  "SDK_HOST_ENV_PASSTHROUGH =
     [''ANTHROPIC_API_KEY'', ''ANTHROPIC_AUTH_TOKEN'', ''ANTHROPIC_BASE_URL'', ''ANTHROPIC_MODEL'',
      ''ANTHROPIC_DEFAULT_HAIKU_MODEL'', ''ANTHROPIC_DEFAULT_SONNET_MODEL'', ''ANTHROPIC_DEFAULT_OPUS_MODEL'',
      ''ANTHROPIC_DEFAULT_HAIKU_MODEL_NAME'', ''ANTHROPIC_DEFAULT_SONNET_MODEL_NAME'', ''ANTHROPIC_DEFAULT_OPUS_MODEL_NAME'',
      ''CLAUDE_CODE_SUBAGENT_MODEL'', ''AWS_ACCESS_KEY_ID'', ''AWS_SECRET_ACCESS_KEY'', ''AWS_SESSION_TOKEN'', ''AWS_REGION'',
      ''GOOGLE_APPLICATION_CREDENTIALS'', ''CLOUD_ML_REGION'', ''ANTHROPIC_VERTEX_PROJECT_ID'']"

definition put_all :: "(string \<times> string) list \<Rightarrow> (string, string) od \<Rightarrow> (string, string) od" where
  "put_all kvs env = fold (\<lambda>(k, v). AList.update k v) kvs env"

text \<open>
  The environment of the SDK: host variables that are set, then credentials, then the caller's
  extra variables, then the trace id, the install root and the subagent model. \<open>ctx\<close> holds the
  credentials and the trace id of the session.
\<close>

definition host_env :: "(string \<Rightarrow> string option) \<Rightarrow> (string, string) od" where
  "host_env host = put_all (List.map_filter (\<lambda>k. case host k of Some v \<Rightarrow> if v = [] then None else Some (k, v) | None \<Rightarrow> None)
                              SDK_HOST_ENV_PASSTHROUGH) []"

definition caller_env ::
    "(string \<Rightarrow> string option) \<Rightarrow> ((string \<times> string) list \<times> string option) option \<Rightarrow> (string \<times> string) list \<Rightarrow> (string, string) od" where
  "caller_env host ctx extra =
     put_all extra (case ctx of None \<Rightarrow> host_env host | Some (creds, _) \<Rightarrow> put_all creds (host_env host))"

definition put_given :: "string \<Rightarrow> string option \<Rightarrow> (string, string) od \<Rightarrow> (string, string) od" where
  "put_given k v env = (case v of Some (x # xs) \<Rightarrow> AList.update k (x # xs) env | _ \<Rightarrow> env)"

definition sdk_env ::
    "(string \<Rightarrow> string option) \<Rightarrow> ((string \<times> string) list \<times> string option) option \<Rightarrow> (string \<times> string) list \<Rightarrow> string option \<Rightarrow>
     string option \<Rightarrow> (string, string) od" where
  "sdk_env host ctx extra install_root subagent =
     (let e1 = put_given ''RELAY_TRACE_ID'' (Option.bind ctx snd) (caller_env host ctx extra);
          e2 = (case install_root of None \<Rightarrow> e1 | Some r \<Rightarrow> od_setdefault ''RELAY_INSTALL_DIR_ROOT'' r e1)
      in put_given ''CLAUDE_CODE_SUBAGENT_MODEL'' subagent e2)"

section \<open>Hooks\<close>

text \<open>\<open>re.sub\<close> of the pattern for a capital letter that is not first, then lower case.\<close>

definition snake_event :: "string \<Rightarrow> string" where
  "snake_event name = str_lower (case name of
     [] \<Rightarrow> []
   | c # r \<Rightarrow> c # concat (map (\<lambda>x. if 65 \<le> (of_char x :: nat) \<and> of_char x \<le> (90 :: nat) then [CHR ''_'', x] else [x]) r))"

definition first_str :: "pydict \<Rightarrow> string list \<Rightarrow> string option" where
  "first_str d keys = first_some (map (\<lambda>k. nonempty_str (dget d k)) keys)"

definition or_else :: "string option \<Rightarrow> string option \<Rightarrow> string option" where
  "or_else a b = (case a of Some (x # xs) \<Rightarrow> a | _ \<Rightarrow> b)"

text \<open>\<open>ctx_session\<close> is the session id attribute of the hook context, if it has one.\<close>

definition emit_hook :: "texts \<Rightarrow> engine \<Rightarrow> string \<Rightarrow> string \<Rightarrow> pydict \<Rightarrow> string option \<Rightarrow> string option \<Rightarrow> core \<Rightarrow> core" where
  "emit_hook tx e ts event_type hook_input tool_name ctx_session c =
     (let redacted = redact_dict e hook_input
      in c\<lparr>hook_seq := hook_seq c + 1,
           sent := sent c @ [make_hook_frame ts (hook_seq c) (''hook.'' @ snake_event event_type) event_type redacted
             (or_else tool_name (first_str hook_input [''tool_name'', ''name'', ''tool'']))
             (first_str hook_input [''tool_use_id'', ''toolUseID'', ''toolUseId'', ''id''])
             (first_str hook_input [''parent_tool_use_id'', ''parentToolUseID'', ''parentToolUseId''])
             (or_else (first_str hook_input [''session_id'', ''sdk_session_id'']) ctx_session)
             (Some (hash_text tx redacted))]\<rparr>)"

section \<open>Interleavings\<close>

text \<open>
  After the preparation, the message loop, permission callbacks and hooks run as tasks of one event
  loop. A message is handled up to its one send; a user message with several tool results sends
  each of them separately, so other tasks may come between. A failure ends the message loop but
  not the callbacks.
\<close>

inductive core_step :: "texts \<Rightarrow> run_cfg \<Rightarrow> engine \<Rightarrow> core \<Rightarrow> core \<Rightarrow> bool" for tx cfg e where
  permission: "core_step tx cfg e c (snd (can_use_begin tx cfg ts short tool inp c))"
| message: "core_step tx cfg e c (snd (on_message tx cfg ts m c))"
| open_results: "core_step tx cfg e c (bump c)"
| result: "core_step tx cfg e c (send_result ts r c)"
| failure: "core_step tx cfg e c (report_failure tx ts name msg c)"
| hook: "core_step tx cfg e c (emit_hook tx e ts ev inp tool sess c)"

definition prepared :: "texts \<Rightarrow> string \<Rightarrow> install_report option \<Rightarrow> string \<Rightarrow> (string list \<times> process) list \<Rightarrow> core" where
  "prepared tx ts rep sid cmds = fst (snd (execute_pre_run_cmds tx ts sid cmds (announce_install ts rep new_core, 0)))"

inductive core_reach :: "texts \<Rightarrow> run_cfg \<Rightarrow> engine \<Rightarrow> core \<Rightarrow> bool" for tx cfg e where
  start: "core_reach tx cfg e (prepared tx ts rep (r_session cfg) cmds)"
| step: "core_reach tx cfg e c \<Longrightarrow> core_step tx cfg e c c' \<Longrightarrow> core_reach tx cfg e c'"

section \<open>Frame numbers\<close>

definition frame_no :: "pydict \<Rightarrow> int" where
  "frame_no f = (case dget f ''seq'' of PInt n \<Rightarrow> n | _ \<Rightarrow> 0)"

lemma frame_no_envelope [simp]: "frame_no (envelope ts n ty rest) = n"
  by (simp add: frame_no_def envelope_def)

lemma frame_no_made [simp]:
  "frame_no (make_msg_chunk ts n d) = n" "frame_no (make_tool_request ts n r t a) = n"
  "frame_no (make_tool_result ts n r ok res) = n" "frame_no (make_session_end ts n st tok cost) = n"
  "frame_no (make_error ts n code msg tb) = n" "frame_no (make_install_done ts n p ms ms' rt) = n"
  "frame_no (make_hook_frame ts n ty et inp tn tu pt ss ih) = n"
  by (simp_all add: frame_defs)

text \<open>
  \<open>c'\<close> has sent more than \<open>c\<close>, with increasing numbers between the two counters; \<open>d\<close> is 1 where
  a number is taken before it is used and 0 where it is taken afterwards.
\<close>

definition emits :: "int \<Rightarrow> core \<Rightarrow> core \<Rightarrow> bool" where
  "emits d c c' = (hook_seq c' = hook_seq c \<and> seq_no c \<le> seq_no c' \<and>
     (\<exists>fs. sent c' = sent c @ fs \<and> sorted_wrt (<) (map frame_no fs) \<and>
        (\<forall>f \<in> set fs. seq_no c + d \<le> frame_no f \<and> frame_no f < seq_no c' + d)))"

lemma emitsI:
  "hook_seq c' = hook_seq c \<Longrightarrow> seq_no c \<le> seq_no c' \<Longrightarrow> sent c' = sent c @ fs \<Longrightarrow> sorted_wrt (<) (map frame_no fs) \<Longrightarrow>
   (\<And>f. f \<in> set fs \<Longrightarrow> seq_no c + d \<le> frame_no f \<and> frame_no f < seq_no c' + d) \<Longrightarrow> emits d c c'"
  unfolding emits_def by blast

lemma emitsE:
  assumes "emits d c c'"
  obtains fs where "hook_seq c' = hook_seq c" "seq_no c \<le> seq_no c'" "sent c' = sent c @ fs" "sorted_wrt (<) (map frame_no fs)"
    "\<And>f. f \<in> set fs \<Longrightarrow> seq_no c + d \<le> frame_no f \<and> frame_no f < seq_no c' + d"
  using assms unfolding emits_def by blast

lemma emits_trans:
  assumes "emits d a b" "emits d b c"
  shows "emits d a c"
proof -
  obtain fs where fs: "hook_seq b = hook_seq a" "seq_no a \<le> seq_no b" "sent b = sent a @ fs" "sorted_wrt (<) (map frame_no fs)"
    "\<And>f. f \<in> set fs \<Longrightarrow> seq_no a + d \<le> frame_no f \<and> frame_no f < seq_no b + d"
    by (rule emitsE [OF assms(1)]) (rule that)
  obtain gs where gs: "hook_seq c = hook_seq b" "seq_no b \<le> seq_no c" "sent c = sent b @ gs" "sorted_wrt (<) (map frame_no gs)"
    "\<And>f. f \<in> set gs \<Longrightarrow> seq_no b + d \<le> frame_no f \<and> frame_no f < seq_no c + d"
    by (rule emitsE [OF assms(2)]) (rule that)
  show ?thesis
  proof (rule emitsI [of _ _ "fs @ gs"])
    show "sorted_wrt (<) (map frame_no (fs @ gs))"
      using fs(4,5) gs(4,5) by (fastforce simp: sorted_wrt_append)
  qed (use fs gs in \<open>fastforce+\<close>)
qed

lemma emits_same:
  "sent c' = sent c \<Longrightarrow> seq_no c' = seq_no c \<Longrightarrow> hook_seq c' = hook_seq c \<Longrightarrow> emits d c c'"
  by (rule emitsI [of _ _ "[]"]) auto

lemma emits_bump: "emits d c (bump c)"
  by (rule emitsI [of _ _ "[]"]) (auto simp: bump_def)

lemma emits_next:
  assumes "\<And>n. frame_no (mk n) = n"
  shows "emits 1 c (send mk (bump c))"
  using assms by (intro emitsI [of _ _ "[mk (seq_no c + 1)]"]) (auto simp: bump_def send_def)

lemma emits_current:
  assumes "\<And>n. frame_no (mk n) = n"
  shows "emits 0 c (bump (send mk c))"
  using assms by (intro emitsI [of _ _ "[mk (seq_no c)]"]) (auto simp: bump_def send_def)

lemma queue_fields [simp]:
  "sent (queue_perm rid k c) = sent c" "seq_no (queue_perm rid k c) = seq_no c" "hook_seq (queue_perm rid k c) = hook_seq c"
  "sent (queue_block rid k c) = sent c" "seq_no (queue_block rid k c) = seq_no c" "hook_seq (queue_block rid k c) = hook_seq c"
  by (simp_all add: queue_perm_def queue_block_def split: option.splits prod.splits)

lemma emits_fold: "(\<And>x a. emits d a (f x a)) \<Longrightarrow> emits d a (fold f xs a)"
  by (induction xs arbitrary: a) (auto intro: emits_same emits_trans)

lemma emits_result: "emits 1 c (send_result ts r c)"
proof -
  obtain uid content is_error where r: "r = (uid, content, is_error)"
    by (cases r)
  let ?c = "c\<lparr>use_id_to_req_id := AList.delete uid (use_id_to_req_id c)\<rparr>"
  have "emits 1 c ?c"
    by (rule emits_same) auto
  then show ?thesis
    unfolding r send_result_def Let_def prod.case by (rule emits_trans) (rule emits_next, simp)
qed

lemma emits_permission: "emits 1 c (snd (can_use_begin tx cfg ts short tool inp c))"
proof -
  have "emits 1 c (send (\<lambda>n. make_tool_request ts n rid tool inp) (bump (queue_perm rid k c)))" for rid k
    by (rule emits_trans [OF emits_same [of "queue_perm rid k c"] emits_next]) simp_all
  then show ?thesis
    by (auto simp: can_use_begin_def Let_def split: sum.splits decision.splits intro: emits_same)
qed

lemma emits_assistant: "emits 1 c (on_assistant tx ts model parent content c)"
proof -
  define f where "f = (\<lambda>(uid, name, inp). queue_block uid (name, freeze tx inp))"
  have f: "sent (fold f bs a) = sent a \<and> seq_no (fold f bs a) = seq_no a \<and> hook_seq (fold f bs a) = hook_seq a" for bs a
    by (induction bs arbitrary: a) (simp_all add: f_def split: prod.splits)
  show ?thesis
    by (rule emitsI [of _ _ "[make_msg_chunk ts (seq_no c + 1) (serialize_assistant model parent content)]"])
       (simp_all add: on_assistant_def Let_def f_def [symmetric] f send_def bump_def)
qed

lemma emits_user: "emits 1 c (on_user ts parent content c)"
  unfolding on_user_def by (auto intro: emits_trans [OF emits_bump emits_fold] emits_result emits_next)

lemma emits_misc: "emits 1 c (snd (on_misc tx cfg ts m c))"
proof -
  have "snd (on_misc tx cfg ts m c) = send (\<lambda>n. make_msg_chunk ts n (serialize_misc m)) (case m of
      SystemMessage subtype data \<Rightarrow> if is_retry m then note_retry data (bump c) else bump c | _ \<Rightarrow> bump c)"
    by (simp add: on_misc_def Let_def)
  also have "emits 1 c \<dots>"
    by (rule emitsI [of _ _ "[make_msg_chunk ts (seq_no c + 1) (serialize_misc m)]"])
       (auto simp: send_def bump_def note_retry_def split: sdk_msg.splits)
  finally show ?thesis .
qed

lemma emits_message: "emits 1 c (snd (on_message tx cfg ts m c))"
proof (cases m)
  case (ResultMessage usage cost)
  then show ?thesis
    by (auto split: option.splits intro: emits_bump emits_trans [OF emits_bump emits_next])
qed (use emits_assistant emits_user emits_misc in auto)

lemma emits_failure: "emits 1 c (report_failure tx ts name msg c)"
  unfolding report_failure_def by (rule emits_next) simp

lemma emits_pre_chunk: "emits 0 c (pre_run_chunk ts sid t c)"
  unfolding pre_run_chunk_def by (rule emits_current) simp

lemma emits_emit_error: "emits 0 c (emit_error ts code message tb c)"
  unfolding emit_error_def by (rule emits_current) simp

lemma emits_stream: "emits 0 (fst s) (fst (stream_chunk ts sid chunk s))"
  by (cases s) (auto simp: stream_chunk_def Let_def intro: emits_same emits_pre_chunk emits_trans [OF emits_pre_chunk emits_pre_chunk])

lemma emits_streams: "emits 0 (fst s) (fst (fold (stream_chunk ts sid) chunks s))"
proof (induction chunks arbitrary: s)
  case (Cons x xs)
  then show ?case
    using emits_trans [OF emits_stream [of s ts sid x]] by simp
qed (simp add: emits_same)

lemma emits_run_one: "emits 0 c (fst (snd (run_one tx ts sid argv p (c, n))))"
proof (cases p)
  case (Exits chunks rc)
  then show ?thesis
    using emits_streams [of "(c, n, [])" ts sid chunks] emits_trans [OF _ emits_emit_error]
    by (auto split: prod.splits)
next
  case (TimesOut chunks)
  then show ?thesis
    using emits_streams [of "(c, n, [])" ts sid chunks] emits_trans [OF _ emits_emit_error]
    by (auto split: prod.splits)
qed (simp add: emits_emit_error)

lemma emits_pre_run: "emits 0 (fst s) (fst (snd (execute_pre_run_cmds tx ts sid cmds s)))"
proof (induction cmds arbitrary: s)
  case (Cons x xs)
  obtain argv p where x: "x = (argv, p)"
    by (cases x)
  obtain c n where s: "s = (c, n)"
    by (cases s)
  have one: "emits 0 c (fst (snd (run_one tx ts sid argv p (c, n))))"
    by (rule emits_run_one)
  show ?case
    using one emits_trans [OF one Cons.IH [of "snd (run_one tx ts sid argv p (c, n))"]]
    by (cases "run_one tx ts sid argv p (c, n)") (auto simp: x s split: sum.splits unit.splits)
qed (simp add: emits_same)

lemma emits_announce: "emits 0 c (announce_install ts rep c)"
  unfolding announce_install_def by (auto split: option.splits intro: emits_same emits_current)

lemma emits_prepared: "emits 0 new_core (prepared tx ts rep sid cmds)"
  unfolding prepared_def
  using emits_trans [OF emits_announce emits_pre_run [of "(announce_install ts rep new_core, 0)" tx ts sid cmds, simplified]] .

text \<open>
  Runner frames and hook frames are numbered from two counters; as long as the first one stays
  below the start of the second, all numbers are different.
\<close>

definition numbered :: "core \<Rightarrow> bool" where
  "numbered c = (let ns = map frame_no (sent c) in
     sorted_wrt (<) (filter (\<lambda>n. n < 900000) ns) \<and> sorted_wrt (<) (filter (\<lambda>n. \<not> n < 900000) ns) \<and>
     (\<forall>n \<in> set ns. if n < 900000 then n \<le> seq_no c else n < hook_seq c) \<and> 900000 \<le> hook_seq c)"

lemma numbered_emits:
  assumes "numbered c" "emits 1 c c'" "seq_no c' < 900000"
  shows "numbered c'"
proof -
  obtain fs where fs: "hook_seq c' = hook_seq c" "seq_no c \<le> seq_no c'" "sent c' = sent c @ fs" "sorted_wrt (<) (map frame_no fs)"
    "\<And>f. f \<in> set fs \<Longrightarrow> seq_no c + 1 \<le> frame_no f \<and> frame_no f < seq_no c' + 1"
    by (rule emitsE [OF assms(2)]) (rule that)
  have low: "f \<in> set fs \<Longrightarrow> frame_no f < 900000" for f
    using fs(5) [of f] assms(3) by linarith
  have sel: "filter (\<lambda>n. n < 900000) (map frame_no fs) = map frame_no fs" "filter (\<lambda>n. \<not> n < 900000) (map frame_no fs) = []"
    using low by (auto simp: filter_id_conv filter_empty_conv)
  have lo: "sorted_wrt (<) (filter (\<lambda>n. n < 900000) (map frame_no (sent c')))"
    unfolding fs(3) map_append filter_append sel sorted_wrt_append
    using assms(1) fs(4,5) by (fastforce simp: numbered_def Let_def)
  have hi: "sorted_wrt (<) (filter (\<lambda>n. \<not> n < 900000) (map frame_no (sent c')))"
    unfolding fs(3) map_append filter_append sel using assms(1) by (simp add: numbered_def Let_def)
  have "\<forall>n \<in> set (map frame_no (sent c')). if n < 900000 then n \<le> seq_no c' else n < hook_seq c'"
    unfolding fs(3) using assms(1) fs(1,2,5) low by (fastforce simp: numbered_def Let_def split: if_splits)
  with lo hi show ?thesis
    using assms(1) fs(1) by (simp add: numbered_def Let_def)
qed

lemma numbered_hook:
  assumes "numbered c"
  shows "numbered (emit_hook tx e ts ev inp tool sess c)"
  using assms by (auto simp: numbered_def emit_hook_def Let_def sorted_wrt_append split: if_splits)

lemma seq_grows: "core_step tx cfg e c c' \<Longrightarrow> seq_no c \<le> seq_no c'"
  by (erule core_step.cases)
     (use emits_permission emits_message emits_bump emits_result emits_failure in \<open>auto simp: emits_def emit_hook_def Let_def\<close>)

lemma numbered_step:
  assumes "core_step tx cfg e c c'" "numbered c" "seq_no c' < 900000"
  shows "numbered c'"
  using assms by cases (auto intro: numbered_emits numbered_hook emits_permission emits_message emits_bump emits_result emits_failure)

lemma numbered_start:
  assumes "seq_no (prepared tx ts rep sid cmds) < 900000"
  shows "numbered (prepared tx ts rep sid cmds)"
proof -
  let ?p = "prepared tx ts rep sid cmds"
  obtain fs where fs: "hook_seq ?p = 900000" "sent ?p = fs" "sorted_wrt (<) (map frame_no fs)"
    "\<And>f. f \<in> set fs \<Longrightarrow> frame_no f < seq_no ?p"
    by (rule emitsE [OF emits_prepared [of tx ts rep sid cmds]]) (auto simp: new_core_def intro: that)
  have "f \<in> set fs \<Longrightarrow> frame_no f < 900000" for f
    using fs(4) [of f] assms by linarith
  then have "filter (\<lambda>n. n < 900000) (map frame_no fs) = map frame_no fs" "filter (\<lambda>n. \<not> n < 900000) (map frame_no fs) = []"
    "\<forall>n \<in> set (map frame_no fs). if n < 900000 then n \<le> seq_no ?p else n < hook_seq ?p"
    using fs(4) by (auto simp: filter_id_conv filter_empty_conv intro: less_imp_le)
  then show ?thesis
    using fs(3) by (simp add: numbered_def Let_def fs(1,2) del: filter_map)
qed

lemma core_reach_numbered: "core_reach tx cfg e c \<Longrightarrow> seq_no c < 900000 \<Longrightarrow> numbered c"
proof (induction rule: core_reach.induct)
  case (step c c')
  then show ?case
    using seq_grows numbered_step by fastforce
qed (rule numbered_start)

lemma numbered_distinct:
  assumes "numbered c"
  shows "distinct (map frame_no (sent c))"
proof -
  have "sorted_wrt (<) xs \<Longrightarrow> distinct xs" for xs :: "int list"
    by (simp add: strict_sorted_iff)
  then have d: "distinct (filter (\<lambda>n. n < 900000) (map frame_no (sent c)))" "distinct (filter (\<lambda>n. \<not> n < 900000) (map frame_no (sent c)))"
    using assms by (simp_all add: numbered_def Let_def del: filter_map)
  have "distinct (filter P xs) \<Longrightarrow> distinct (filter (\<lambda>x. \<not> P x) xs) \<Longrightarrow> distinct xs" for P and xs :: "int list"
    by (induction xs) (auto split: if_splits)
  from this [OF d] show ?thesis .
qed

section \<open>Every frame of a runner can be stored\<close>

fun store_frames :: "string \<Rightarrow> int \<Rightarrow> pydict list \<Rightarrow> store \<Rightarrow> (store_exn + unit) \<times> store" where
  "store_frames sid now [] db = (Inr (), db)"
| "store_frames sid now (f # fs) db =
     (case append_frame sid (frame_no f) now (case dget f ''type'' of PStr t \<Rightarrow> t | _ \<Rightarrow> []) f db of
        (Inl e, db') \<Rightarrow> (Inl e, db')
      | (Inr _, db') \<Rightarrow> store_frames sid now fs db')"

lemma store_frames_distinct:
  assumes "distinct (map frame_no fs)" "sid \<in> set (map s_id (sessions db))"
    and "\<And>r. r \<in> set (frames db) \<Longrightarrow> fr_session r = sid \<Longrightarrow> fr_seq r \<notin> frame_no ` set fs"
  shows "\<exists>db'. store_frames sid now fs db = (Inr (), db') \<and> sessions db' = sessions db \<and>
    map fr_seq (filter (\<lambda>r. fr_session r = sid) (frames db')) = map fr_seq (filter (\<lambda>r. fr_session r = sid) (frames db)) @ map frame_no fs"
  using assms
proof (induction fs arbitrary: db)
  case (Cons f fs)
  let ?row = "\<lparr>fr_session = sid, fr_seq = frame_no f, fr_ts = now, fr_type = (case dget f ''type'' of PStr t \<Rightarrow> t | _ \<Rightarrow> []), fr_payload = PDict f\<rparr>"
  let ?db = "db\<lparr>frames := frames db @ [?row]\<rparr>"
  have "append_frame sid (frame_no f) now (case dget f ''type'' of PStr t \<Rightarrow> t | _ \<Rightarrow> []) f db = (Inr (), ?db)"
    using Cons.prems by (force simp: append_frame_def)
  moreover have "\<exists>db'. store_frames sid now fs ?db = (Inr (), db') \<and> sessions db' = sessions ?db \<and>
    map fr_seq (filter (\<lambda>r. fr_session r = sid) (frames db')) = map fr_seq (filter (\<lambda>r. fr_session r = sid) (frames ?db)) @ map frame_no fs"
    using Cons.prems by (intro Cons.IH) auto
  ultimately show ?case
    by auto
qed simp

text \<open>
  Whatever the interleaving of messages, permission callbacks and hooks, the frames a runner has
  sent carry pairwise different numbers, so the unique key of the frames table rejects none of
  them: stored in the order they were sent, they are all in the table, with their numbers. This
  holds up to 900000 runner frames, where the numbers of the hook frames begin.
\<close>

lemma runner_frames_all_stored:
  assumes "core_reach tx cfg e c" "seq_no c < 900000"
    and "sid \<in> set (map s_id (sessions db))" "filter (\<lambda>r. fr_session r = sid) (frames db) = []"
  shows "\<exists>db'. store_frames sid now (sent c) db = (Inr (), db') \<and>
    map fr_seq (filter (\<lambda>r. fr_session r = sid) (frames db')) = map frame_no (sent c)"
  using store_frames_distinct [OF numbered_distinct [OF core_reach_numbered [OF assms(1,2)]] assms(3), of now] assms(4)
  by (fastforce simp: filter_empty_conv)

definition demo_texts :: texts where
  "demo_texts = \<lparr>dumps_text = (\<lambda>v. case v of PStr s \<Rightarrow> s | _ \<Rightarrow> []), str_text = (\<lambda>v. []), repr_text = (\<lambda>v. []),
     argv_text = concat, traceback_text = [], hash_text = (\<lambda>d. [])\<rparr>"

definition demo_cfg :: run_cfg where
  "demo_cfg = \<lparr>r_session = ''s'', r_cwd = ''/w'', r_policy = DEFAULT_POLICY, r_resolve = demo_fs, r_budget = 0\<rparr>"

definition demo_ls :: pydict where
  "demo_ls = [(PStr ''command'', PStr ''ls'')]"

definition demo_run :: core where
  "demo_run =
     (let c1 = snd (on_message demo_texts demo_cfg ''t'' (AssistantMessage ''m'' None [ToolUseBlock ''u1'' ''Bash'' demo_ls]) new_core);
          c2 = snd (can_use_begin demo_texts demo_cfg ''t'' ''1'' ''Bash'' demo_ls c1);
          c3 = emit_hook demo_texts default_engine ''t'' ''PreToolUse'' demo_ls (Some ''Bash'') None c2
      in snd (on_message demo_texts demo_cfg ''t'' (UserMessage None (Inr [ToolResultBlock ''u1'' (PStr ''ok'') (PBool False)])) c3))"

lemma prepared_none: "prepared tx ts None sid [] = new_core"
  by (simp add: prepared_def announce_install_def)

lemma demo_run_reach: "core_reach demo_texts demo_cfg default_engine demo_run"
  unfolding demo_run_def Let_def
  by (intro core_reach.step [OF _ core_step.message] core_reach.step [OF _ core_step.permission] core_reach.step [OF _ core_step.hook]
        core_reach.start [of demo_texts demo_cfg default_engine "''t''" None "[]", unfolded prepared_none])

lemma demo_run_frames: "map frame_no (sent demo_run) = [1, 2, 900000, 4]" "seq_no demo_run = 4"
  by code_simp+

lemma runner_frames_all_stored_witness:
  "\<exists>db'. store_frames ''a'' 0 (sent demo_run) demo_store = (Inr (), db') \<and>
    map fr_seq (filter (\<lambda>r. fr_session r = ''a'') (frames db')) = [1, 2, 900000, 4]"
proof -
  have db: "''a'' \<in> set (map s_id (sessions demo_store))" "filter (\<lambda>r. fr_session r = ''a'') (frames demo_store) = []"
    by code_simp+
  show ?thesis
    using runner_frames_all_stored [OF demo_run_reach _ db, of 0] by (simp add: demo_run_frames)
qed

text \<open>
  The host numbers its own frames from a third counter that starts at one. The error frame that a
  heartbeat timeout leaves for the session therefore has a number that a runner frame already
  holds, and the store refuses it.
\<close>

lemma heartbeat_error_rejected:
  "map frame_no (b_frames (hb_run ''t'' (replicate 4 Beat) (new_bridge 3))) = [4]"
  "fst (store_frames ''a'' 0 (sent demo_run @ b_frames (hb_run ''t'' (replicate 4 Beat) (new_bridge 3))) demo_store)
     = Inl (StoreError IntegrityError)"
  by code_simp+

section \<open>Which request a tool result answers\<close>

text \<open>
  A permission callback or a message, in the order the event loop runs them; the requests that go to
  a human, the tool calls and the tool results among them.
\<close>

datatype act = Ask string string pydict | Msg sdk_msg

fun do_act :: "texts \<Rightarrow> run_cfg \<Rightarrow> string \<Rightarrow> act \<Rightarrow> core \<Rightarrow> core" where
  "do_act tx cfg ts (Ask short tool inp) c = snd (can_use_begin tx cfg ts short tool inp c)"
| "do_act tx cfg ts (Msg m) c = snd (on_message tx cfg ts m c)"

fun asked_by :: "texts \<Rightarrow> run_cfg \<Rightarrow> act \<Rightarrow> (string \<times> tool_key) list" where
  "asked_by tx cfg (Ask short tool inp) =
     (if decide (r_resolve cfg) (r_policy cfg) tool inp (r_cwd cfg) = Inr NEEDS_HITL
      then [(runner_req_id cfg short, tool, freeze tx inp)] else [])"
| "asked_by tx cfg (Msg m) = []"

fun called_by :: "texts \<Rightarrow> act \<Rightarrow> (string \<times> tool_key) list" where
  "called_by tx (Msg (AssistantMessage model parent content)) = map (\<lambda>(uid, name, inp). (uid, name, freeze tx inp)) (tool_uses content)"
| "called_by tx _ = []"

fun answered_by :: "act \<Rightarrow> string list" where
  "answered_by (Msg (UserMessage parent content)) = map fst (results_of content)"
| "answered_by _ = []"

abbreviation asked :: "texts \<Rightarrow> run_cfg \<Rightarrow> act list \<Rightarrow> (string \<times> tool_key) list" where
  "asked tx cfg as \<equiv> concat (map (asked_by tx cfg) as)"

abbreviation called :: "texts \<Rightarrow> act list \<Rightarrow> (string \<times> tool_key) list" where
  "called tx as \<equiv> concat (map (called_by tx) as)"

abbreviation answered :: "act list \<Rightarrow> string list" where
  "answered as \<equiv> concat (map answered_by as)"

text \<open>The reference: the n-th call with some tool and input belongs to the n-th request with them.\<close>

definition with_key :: "'k \<Rightarrow> (string \<times> 'k) list \<Rightarrow> string list" where
  "with_key k ps = map fst (filter (\<lambda>p. snd p = k) ps)"

definition partner :: "(string \<times> 'k) list \<Rightarrow> (string \<times> 'k) list \<Rightarrow> string \<Rightarrow> string option" where
  "partner rs us uid = (case map_of us uid of
     None \<Rightarrow> None
   | Some k \<Rightarrow> map_of (zip (with_key k us) (with_key k rs)) uid)"

definition paired :: "(string \<times> tool_key) list \<Rightarrow> (string \<times> tool_key) list \<Rightarrow> string set \<Rightarrow> core \<Rightarrow> bool" where
  "paired rs us gone c = ((\<forall>k. with_key k (pending_perms c) = drop (length (with_key k us)) (with_key k rs)) \<and>
     (\<forall>k. with_key k (pending_use_blocks c) = drop (length (with_key k rs)) (with_key k us)) \<and>
     (\<forall>uid. uid \<notin> gone \<longrightarrow> map_of (use_id_to_req_id c) uid = partner rs us uid))"

lemma with_key_simps [simp]:
  "with_key k [] = []" "with_key k ((i, k') # ps) = (if k' = k then i # with_key k ps else with_key k ps)"
  "with_key k (ps @ qs) = with_key k ps @ with_key k qs"
  by (simp_all add: with_key_def)

lemma take_match_None: "take_match k ps = None \<longleftrightarrow> with_key k ps = []"
  by (induction k ps rule: take_match.induct) auto

lemma take_match_Some:
  "take_match k ps = Some (i, r) \<Longrightarrow> with_key k ps = i # with_key k r \<and> (\<forall>k'. k' \<noteq> k \<longrightarrow> with_key k' r = with_key k' ps)"
  by (induction k ps arbitrary: i r rule: take_match.induct) (auto split: if_splits)

lemma distinct_with_key: "distinct (map fst us) \<Longrightarrow> distinct (with_key k us)"
  by (simp add: with_key_def distinct_map_filter)

lemma with_key_mem: "i \<in> set (with_key k us) \<longleftrightarrow> (i, k) \<in> set us"
  by (force simp: with_key_def)

lemma partner_mem:
  assumes "distinct (map fst us)" "(uid, k) \<in> set us"
  shows "partner rs us uid = map_of (zip (with_key k us) (with_key k rs)) uid"
  using assms by (simp add: partner_def)

lemma partner_unknown: "uid \<notin> fst ` set us \<Longrightarrow> partner rs us uid = None"
  using map_of_eq_None_iff [of us uid] by (simp add: partner_def)

lemma map_of_snoc: "map_of d x = None \<Longrightarrow> map_of (d @ [(x, y)]) = (map_of d)(x \<mapsto> y)"
  by (auto simp: fun_eq_iff map_add_def split: option.splits)

lemma map_of_zip_None: "x \<notin> set xs \<Longrightarrow> map_of (zip xs ys) x = None"
  by (auto simp: map_of_eq_None_iff dest: set_zip_leftD)

lemma map_of_zip_snoc_right:
  assumes "distinct xs" "length ys < length xs"
  shows "map_of (zip xs (ys @ [y])) = (map_of (zip xs ys))(xs ! length ys \<mapsto> y)"
proof -
  have "zip xs (ys @ [y]) = zip (take (length ys) xs) ys @ [(xs ! length ys, y)]"
    using assms(2) by (simp add: zip_append2 Cons_nth_drop_Suc [symmetric])
  moreover have "zip xs ys = zip (take (length ys) xs) ys"
    using zip_append2 [of xs ys "[]"] by simp
  moreover have "xs ! length ys \<notin> set (take (length ys) xs)"
    using assms by (auto simp: in_set_conv_nth nth_eq_iff_index_eq)
  ultimately show ?thesis
    by (simp add: map_of_snoc map_of_zip_None del: map_of_append)
qed

lemma map_of_zip_snoc_left:
  assumes "x \<notin> set xs"
  shows "map_of (zip (xs @ [x]) ys) =
    (if length xs < length ys then (map_of (zip xs ys))(x \<mapsto> ys ! length xs) else map_of (zip xs ys))"
proof (cases "length xs < length ys")
  case True
  then have "zip (xs @ [x]) ys = zip xs ys @ [(x, ys ! length xs)]"
    using zip_append1 [of xs "[]" ys] by (simp add: zip_append1 Cons_nth_drop_Suc [symmetric])
  then show ?thesis
    using True by (simp add: map_of_snoc map_of_zip_None [OF assms] del: map_of_append)
next
  case False
  then show ?thesis
    using zip_append1 [of xs "[]" ys] by (simp add: zip_append1)
qed

lemma pairedI:
  "(\<And>k. with_key k (pending_perms c) = drop (length (with_key k us)) (with_key k rs)) \<Longrightarrow>
   (\<And>k. with_key k (pending_use_blocks c) = drop (length (with_key k rs)) (with_key k us)) \<Longrightarrow>
   (\<And>uid. uid \<notin> gone \<Longrightarrow> map_of (use_id_to_req_id c) uid = partner rs us uid) \<Longrightarrow> paired rs us gone c"
  unfolding paired_def by blast

lemma pairedD:
  assumes "paired rs us gone c"
  shows "with_key k (pending_perms c) = drop (length (with_key k us)) (with_key k rs)"
    and "with_key k (pending_use_blocks c) = drop (length (with_key k rs)) (with_key k us)"
    and "uid \<notin> gone \<Longrightarrow> map_of (use_id_to_req_id c) uid = partner rs us uid"
  using assms unfolding paired_def by blast+

lemma paired_cong:
  "pending_perms c' = pending_perms c \<Longrightarrow> pending_use_blocks c' = pending_use_blocks c \<Longrightarrow>
   use_id_to_req_id c' = use_id_to_req_id c \<Longrightarrow> paired rs us gone c' = paired rs us gone c"
  by (simp add: paired_def)

lemma partner_ask:
  fixes k :: 'k
  assumes "distinct (map fst us)"
  shows "partner (rs @ [(rid, k)]) us =
    (if length (with_key k rs) < length (with_key k us) then (partner rs us)(with_key k us ! length (with_key k rs) \<mapsto> rid) else partner rs us)"
proof
  fix uid
  let ?B = "with_key k us" and ?R = "with_key k rs"
  show "partner (rs @ [(rid, k)]) us uid = (if length ?R < length ?B then (partner rs us)(?B ! length ?R \<mapsto> rid) else partner rs us) uid"
  proof (cases "length ?R < length ?B")
    case True
    have mem: "(?B ! length ?R, k) \<in> set us"
      using True with_key_mem [of "?B ! length ?R" k us] by simp
    show ?thesis
    proof (cases "map_of us uid")
      case None
      then have "uid \<noteq> ?B ! length ?R"
        using mem by (auto simp: map_of_eq_None_iff image_iff)
      with None True show ?thesis
        by (simp add: partner_def)
    next
      case (Some k')
      have "map_of us (?B ! length ?R) = Some k"
        using mem assms by (simp add: map_of_is_SomeI)
      with Some have other: "k' \<noteq> k \<Longrightarrow> uid \<noteq> ?B ! length ?R"
        by auto
      show ?thesis
      proof (cases "k' = k")
        case same: True
        show ?thesis
          using Some True map_of_zip_snoc_right [OF distinct_with_key [OF assms, of k] True, of rid]
          by (simp add: partner_def same)
      next
        case False
        with other Some True show ?thesis
          by (simp add: partner_def)
      qed
    qed
  next
    case False
    then have "zip ?B (?R @ [rid]) = zip ?B ?R"
      by (simp add: zip_append2)
    with False show ?thesis
      by (auto simp: partner_def split: option.splits)
  qed
qed

lemma partner_call:
  fixes k :: 'k
  assumes "distinct (map fst (us @ [(uid, k)]))"
  shows "partner rs (us @ [(uid, k)]) =
    (if length (with_key k us) < length (with_key k rs) then (partner rs us)(uid \<mapsto> with_key k rs ! length (with_key k us)) else partner rs us)"
proof
  fix u
  let ?B = "with_key k us" and ?R = "with_key k rs"
  have new: "uid \<notin> fst ` set us" "uid \<notin> set ?B"
    using assms with_key_mem [of uid k us] by (force simp: image_iff)+
  have keys: "map_of (us @ [(uid, k)]) u = (if u = uid then Some k else map_of us u)"
    using new(1) map_of_snoc [of us uid k] map_of_eq_None_iff [of us uid] by simp
  show "partner rs (us @ [(uid, k)]) u = (if length ?B < length ?R then (partner rs us)(uid \<mapsto> ?R ! length ?B) else partner rs us) u"
  proof (cases "u = uid")
    case True
    then show ?thesis
      using keys partner_unknown [OF new(1), of rs] map_of_zip_None [OF new(2), of ?R]
      by (simp add: partner_def [of rs "us @ [(uid, k)]"] map_of_zip_snoc_left [OF new(2)] del: map_of_append)
  next
    case False
    then show ?thesis
      using keys by (simp add: partner_def map_of_zip_snoc_left [OF new(2)] del: map_of_append split: option.splits)
  qed
qed

lemma paired_ask:
  assumes p: "paired rs us gone c" and d: "distinct (map fst us)"
  shows "paired (rs @ [(rid, k)]) us gone (queue_perm rid k c)"
proof (cases "take_match k (pending_use_blocks c)")
  case None
  then have short: "length (with_key k us) \<le> length (with_key k rs)"
    using pairedD(2) [OF p, of k] by (simp add: take_match_None)
  show ?thesis
  proof (rule pairedI)
    fix j
    show "with_key j (pending_perms (queue_perm rid k c)) = drop (length (with_key j us)) (with_key j (rs @ [(rid, k)]))"
      using None short pairedD(1) [OF p, of j] by (auto simp: queue_perm_def)
    show "with_key j (pending_use_blocks (queue_perm rid k c)) = drop (length (with_key j (rs @ [(rid, k)]))) (with_key j us)"
      using None short pairedD(2) [OF p, of j] by (auto simp: queue_perm_def)
  qed (use None short pairedD(3) [OF p] in \<open>simp add: queue_perm_def partner_ask [OF d]\<close>)
next
  case (Some m)
  obtain uid r where m: "m = (uid, r)"
    by (cases m)
  note t = take_match_Some [OF Some [unfolded m]]
  have long: "length (with_key k rs) < length (with_key k us)"
    using t pairedD(2) [OF p, of k] by (metis drop_all list.distinct(1) not_le)
  have uid: "uid = with_key k us ! length (with_key k rs)" "with_key k r = drop (Suc (length (with_key k rs))) (with_key k us)"
    using t pairedD(2) [OF p, of k] Cons_nth_drop_Suc [OF long] by simp_all
  show ?thesis
  proof (rule pairedI)
    fix j
    show "with_key j (pending_perms (queue_perm rid k c)) = drop (length (with_key j us)) (with_key j (rs @ [(rid, k)]))"
      using Some long pairedD(1) [OF p, of j] by (auto simp: queue_perm_def m)
    show "with_key j (pending_use_blocks (queue_perm rid k c)) = drop (length (with_key j (rs @ [(rid, k)]))) (with_key j us)"
      using Some t [THEN conjunct2, rule_format, of j] uid(2) pairedD(2) [OF p, of j] by (cases "j = k") (auto simp: queue_perm_def m)
  qed (use Some long uid(1) pairedD(3) [OF p] in \<open>simp add: queue_perm_def m partner_ask [OF d] od_simps\<close>)
qed

lemma paired_call:
  assumes p: "paired rs us gone c" and d: "distinct (map fst (us @ [(uid, k)]))"
  shows "paired rs (us @ [(uid, k)]) gone (queue_block uid k c)"
proof (cases "take_match k (pending_perms c)")
  case None
  then have short: "length (with_key k rs) \<le> length (with_key k us)"
    using pairedD(1) [OF p, of k] by (simp add: take_match_None)
  show ?thesis
  proof (rule pairedI)
    fix j
    show "with_key j (pending_perms (queue_block uid k c)) = drop (length (with_key j (us @ [(uid, k)]))) (with_key j rs)"
      using None short pairedD(1) [OF p, of j] by (auto simp: queue_block_def)
    show "with_key j (pending_use_blocks (queue_block uid k c)) = drop (length (with_key j rs)) (with_key j (us @ [(uid, k)]))"
      using None short pairedD(2) [OF p, of j] by (auto simp: queue_block_def)
  qed (use None short pairedD(3) [OF p] in \<open>simp add: queue_block_def partner_call [OF d]\<close>)
next
  case (Some m)
  obtain rid r where m: "m = (rid, r)"
    by (cases m)
  note t = take_match_Some [OF Some [unfolded m]]
  have long: "length (with_key k us) < length (with_key k rs)"
    using t pairedD(1) [OF p, of k] by (metis drop_all list.distinct(1) not_le)
  have rid: "rid = with_key k rs ! length (with_key k us)" "with_key k r = drop (Suc (length (with_key k us))) (with_key k rs)"
    using t pairedD(1) [OF p, of k] Cons_nth_drop_Suc [OF long] by simp_all
  show ?thesis
  proof (rule pairedI)
    fix j
    show "with_key j (pending_perms (queue_block uid k c)) = drop (length (with_key j (us @ [(uid, k)]))) (with_key j rs)"
      using Some t [THEN conjunct2, rule_format, of j] rid(2) pairedD(1) [OF p, of j] by (cases "j = k") (auto simp: queue_block_def m)
    show "with_key j (pending_use_blocks (queue_block uid k c)) = drop (length (with_key j rs)) (with_key j (us @ [(uid, k)]))"
      using Some long pairedD(2) [OF p, of j] by (auto simp: queue_block_def m)
  qed (use Some long rid(1) pairedD(3) [OF p] in \<open>simp add: queue_block_def m partner_call [OF d] od_simps\<close>)
qed

lemma paired_result:
  assumes "paired rs us gone c"
  shows "paired rs us (insert (fst r) gone) (send_result ts r c)"
  using assms by (cases r) (auto simp: paired_def send_result_def send_def bump_def Let_def od_simps)

lemma paired_calls:
  "paired rs us gone c \<Longrightarrow> distinct (map fst (us @ map (\<lambda>(uid, name, inp). (uid, name, freeze tx inp)) bs)) \<Longrightarrow>
   paired rs (us @ map (\<lambda>(uid, name, inp). (uid, name, freeze tx inp)) bs) gone
     (fold (\<lambda>(uid, name, inp). queue_block uid (name, freeze tx inp)) bs c)"
proof (induction bs arbitrary: us c)
  case (Cons b bs)
  obtain uid name inp where b: "b = (uid, name, inp)"
    by (cases b)
  have "paired rs (us @ [(uid, name, freeze tx inp)]) gone (queue_block uid (name, freeze tx inp) c)"
    using Cons.prems by (intro paired_call) (auto simp: b)
  from Cons.IH [OF this] Cons.prems(2) show ?case
    by (simp add: b)
qed simp

lemma paired_results:
  "paired rs us gone c \<Longrightarrow> paired rs us (fst ` set res \<union> gone) (fold (send_result ts) res c)"
proof (induction res arbitrary: gone c)
  case (Cons r res)
  from Cons.IH [OF paired_result [OF Cons.prems, of r ts]] show ?case
    by simp
qed simp

lemma same_pairing [simp]:
  "paired rs us gone (send mk c) = paired rs us gone c" "paired rs us gone (bump c) = paired rs us gone c"
  "paired rs us gone (note_retry d c) = paired rs us gone c" "paired rs us gone (c\<lparr>last_synthetic_text := t\<rparr>) = paired rs us gone c"
  by (simp_all add: paired_def bump_def send_def note_retry_def)

lemma paired_act:
  assumes "paired rs us gone c" "distinct (map fst (us @ called_by tx a))"
  shows "paired (rs @ asked_by tx cfg a) (us @ called_by tx a) (set (answered_by a) \<union> gone) (do_act tx cfg ts a c)"
proof (cases a)
  case (Ask short tool inp)
  then show ?thesis
    using assms paired_ask [of rs us gone c]
    by (auto simp: can_use_begin_def Let_def split: sum.splits decision.splits)
next
  case (Msg m)
  show ?thesis
  proof (cases m)
    case (AssistantMessage model parent content)
    let ?c = "(bump c)\<lparr>last_synthetic_text := (if model = SYNTHETIC_MODEL_MARKER then Some (extract_synthetic_text content) else None)\<rparr>"
    have "paired rs us gone ?c"
      using assms(1) by simp
    from paired_calls [OF this] assms(2) show ?thesis
      by (simp add: Msg AssistantMessage on_assistant_def Let_def)
  next
    case (UserMessage parent content)
    have "paired rs us gone (bump c)"
      using assms(1) by simp
    from paired_results [OF this] assms(1) show ?thesis
      by (simp add: Msg UserMessage on_user_def)
  qed (use assms(1) in \<open>auto simp: Msg on_misc_def Let_def split: option.splits\<close>)
qed

lemma paired_acts:
  "distinct (map fst (called tx as)) \<Longrightarrow>
   paired (asked tx cfg as) (called tx as) (set (answered as)) (fold (do_act tx cfg ts) as new_core)"
proof (induction as rule: rev_induct)
  case (snoc a as)
  then show ?case
    using paired_act [of "asked tx cfg as" "called tx as" "set (answered as)" _ tx a cfg ts]
    by (simp add: Un_commute)
qed (simp add: paired_def partner_def new_core_def)

text \<open>
  C39: A tool result goes out under the request it answers, in whatever order the SDK delivers permission
  callbacks and messages: if the call is the n-th one with its tool and input, the result frame
  carries the id of the n-th human request for that tool and input, and an empty id when there is
  none.
\<close>

theorem tool_results_paired:
  assumes "distinct (map fst (called tx acts))" "uid \<notin> set (answered acts)"
  shows "dget (last (sent (send_result ts (uid, content, is_error) (fold (do_act tx cfg ts') acts new_core)))) ''req_id''
    = PStr (case partner (asked tx cfg acts) (called tx acts) uid of None \<Rightarrow> [] | Some rid \<Rightarrow> rid)"
  using pairedD(3) [OF paired_acts [OF assms(1), of cfg ts'] assms(2)]
  by (simp add: send_result_def send_def Let_def frame_defs envelope_def)

definition demo_acts :: "act list" where
  "demo_acts = [Ask ''1'' ''Bash'' demo_ls,
     Msg (AssistantMessage ''m'' None [ToolUseBlock ''u1'' ''Bash'' demo_ls, ToolUseBlock ''u2'' ''Bash'' demo_ls]),
     Ask ''2'' ''Bash'' demo_ls, Ask ''3'' ''Edit'' [(PStr ''file_path'', PStr ''a.py'')]]"

theorem tool_results_paired_witness:
  "dget (last (sent (send_result ''t'' (''u2'', PNone, PNone) (fold (do_act demo_texts demo_cfg ''t'') demo_acts new_core)))) ''req_id''
    = PStr ''s:2''"
proof -
  have "distinct (map fst (called demo_texts demo_acts))" "''u2'' \<notin> set (answered demo_acts)"
    "partner (asked demo_texts demo_cfg demo_acts) (called demo_texts demo_acts) ''u2'' = Some ''s:2''"
    by code_simp+
  then show ?thesis
    using tool_results_paired [of demo_texts demo_acts "''u2''" "''t''" PNone PNone demo_cfg "''t''"] by simp
qed

text \<open>
  A call that no human was asked about stays queued for good, and a later request with the same
  tool and input is paired with it instead of with its own call.
\<close>

lemma unasked_call_mispairs:
  "pending_use_blocks (fold (do_act demo_texts demo_cfg ''t'') [Msg (AssistantMessage ''m'' None [ToolUseBlock ''u1'' ''Read'' []])] new_core)
     = [(''u1'', ''Read'', {})]"
  "use_id_to_req_id (fold (do_act demo_texts demo_cfg ''t'')
     [Msg (AssistantMessage ''m'' None [ToolUseBlock ''u1'' ''Bash'' demo_ls]), Msg (UserMessage None (Inr [ToolResultBlock ''u1'' PNone PNone])),
      Msg (AssistantMessage ''m'' None [ToolUseBlock ''u2'' ''Bash'' demo_ls]), Ask ''1'' ''Bash'' demo_ls] new_core) = [(''u1'', ''s:1'')]"
  by code_simp+

section \<open>A conversation is reported as completed only if it was\<close>

definition is_result :: "sdk_msg \<Rightarrow> bool" where
  "is_result m = (case m of ResultMessage usage cost \<Rightarrow> True | _ \<Rightarrow> False)"

definition over_budget :: "run_cfg \<Rightarrow> nat \<Rightarrow> sdk_msg list \<Rightarrow> bool" where
  "over_budget cfg n ms = (r_budget cfg > 0 \<and> int (n + length (filter is_retry ms)) > r_budget cfg)"

fun synthetic_last :: "bool \<Rightarrow> sdk_msg list \<Rightarrow> bool" where
  "synthetic_last b [] = b"
| "synthetic_last b (AssistantMessage model parent content # ms) = synthetic_last (model = SYNTHETIC_MODEL_MARKER) ms"
| "synthetic_last b (_ # ms) = synthetic_last b ms"

definition has_type :: "string \<Rightarrow> pydict \<Rightarrow> bool" where
  "has_type t f = (dget f ''type'' = PStr t)"

abbreviation ended :: "core \<Rightarrow> bool" where
  "ended c \<equiv> list_ex (has_type ''session.end'') (sent c)"

lemma has_type_envelope [simp]: "has_type t (envelope ts n ty rest) = (ty = t)"
  by (simp add: has_type_def envelope_def)

lemma has_type_made [simp]:
  "has_type t (make_msg_chunk ts n d) = (t = ''msg.chunk'')" "has_type t (make_tool_result ts n r ok res) = (t = ''tool.result'')"
  "has_type t (make_session_end ts n st tok cost) = (t = ''session.end'')" "has_type t (make_error ts n code msg tb) = (t = ''error'')"
  by (auto simp: frame_defs)

definition guards :: "core \<Rightarrow> nat \<times> bool \<times> bool" where
  "guards c = (api_retry_count c, last_synthetic_text c \<noteq> None, ended c)"

lemma guards_steps [simp]:
  "guards (queue_block uid k c) = guards c" "guards (bump c) = guards c" "guards (send_result ts r c) = guards c"
  by (auto simp: guards_def queue_block_def bump_def send_result_def send_def Let_def split: option.splits prod.splits)

lemma guards_send: "\<not> has_type ''session.end'' (mk (seq_no c)) \<Longrightarrow> guards (send mk c) = guards c"
  by (simp add: guards_def send_def)

lemma guards_fold: "(\<And>x c. guards (f x c) = guards c) \<Longrightarrow> guards (fold f xs c) = guards c"
  by (induction xs arbitrary: c) simp_all

lemma guards_assistant: "guards (on_assistant tx ts model parent content c) = (api_retry_count c, model = SYNTHETIC_MODEL_MARKER, ended c)"
proof -
  have "guards (fold (\<lambda>(uid, name, inp). queue_block uid (name, freeze tx inp)) bs d) = guards d" for bs d
    by (rule guards_fold) (simp split: prod.splits)
  then show ?thesis
    by (simp add: on_assistant_def Let_def guards_send) (simp add: guards_def bump_def)
qed

lemma guards_user: "guards (on_user ts parent content c) = guards c"
  by (simp add: on_user_def guards_send guards_fold)

definition misc :: "sdk_msg \<Rightarrow> bool" where
  "misc m = (case m of SystemMessage _ _ \<Rightarrow> True | StreamEvent _ \<Rightarrow> True | OtherMessage _ _ _ _ \<Rightarrow> True | _ \<Rightarrow> False)"

lemma guards_misc:
  assumes "misc m"
  shows "guards (snd (on_misc tx cfg ts m c)) = (if is_retry m then (Suc (api_retry_count c), snd (guards c)) else guards c)"
    and "(\<exists>e. fst (on_misc tx cfg ts m c) = PermissionError e) = (is_retry m \<and> over_budget cfg (Suc (api_retry_count c)) [])"
    and "fst (on_misc tx cfg ts m c) \<noteq> Finish"
  using assms
  by (cases m; auto simp: on_misc_def Let_def guards_def send_def bump_def note_retry_def is_retry_def over_budget_def misc_def)+

lemma misc_simps:
  assumes "misc m"
  shows "on_message tx cfg ts m c = on_misc tx cfg ts m c" "\<not> is_result m" "synthetic_last b (m # ms) = synthetic_last b ms"
  using assms by (cases m; simp add: misc_def is_result_def)+

lemma drain_guards:
  assumes "\<not> over_budget cfg (api_retry_count c) []" "\<not> ended c"
  shows "(ended (snd (drain_messages tx cfg msgs c)) \<longleftrightarrow> list_ex is_result (map snd msgs) \<and>
      \<not> over_budget cfg (api_retry_count c) (takeWhile (\<lambda>m. \<not> is_result m) (map snd msgs)) \<and>
      \<not> synthetic_last (last_synthetic_text c \<noteq> None) (takeWhile (\<lambda>m. \<not> is_result m) (map snd msgs))) \<and>
    (fst (drain_messages tx cfg msgs c) \<noteq> None \<longleftrightarrow>
      over_budget cfg (api_retry_count c) (takeWhile (\<lambda>m. \<not> is_result m) (map snd msgs)) \<or>
      list_ex is_result (map snd msgs) \<and> synthetic_last (last_synthetic_text c \<noteq> None) (takeWhile (\<lambda>m. \<not> is_result m) (map snd msgs)))"
  using assms
proof (induction msgs arbitrary: c)
  case (Cons x msgs)
  obtain ts m where x: "x = (ts, m)"
    by (cases x)
  consider (Res) usage cost where "m = ResultMessage usage cost" | (Asst) model parent content where "m = AssistantMessage model parent content"
    | (User) parent content where "m = UserMessage parent content" | (Misc) "misc m"
    by (cases m) (auto simp: misc_def)
  then show ?case
  proof cases
    case Res
    then show ?thesis
      using Cons.prems
      by (cases "last_synthetic_text c") (auto simp: x is_result_def send_def bump_def report_failure_def)
  next
    case (Asst model parent content)
    let ?c = "on_assistant tx ts model parent content c"
    have "api_retry_count ?c = api_retry_count c" "(last_synthetic_text ?c \<noteq> None) = (model = SYNTHETIC_MODEL_MARKER)" "ended ?c = ended c"
      using guards_assistant [of tx ts model parent content c] by (simp_all add: guards_def)
    then show ?thesis
      using Cons.IH [of ?c] Cons.prems by (simp add: x Asst is_result_def is_retry_def over_budget_def)
  next
    case (User parent content)
    let ?c = "on_user ts parent content c"
    have "api_retry_count ?c = api_retry_count c" "(last_synthetic_text ?c \<noteq> None) = (last_synthetic_text c \<noteq> None)" "ended ?c = ended c"
      using guards_user [of ts parent content c] by (simp_all add: guards_def)
    then show ?thesis
      using Cons.IH [of ?c] Cons.prems by (simp add: x User is_result_def is_retry_def over_budget_def)
  next
    case Misc
    obtain v c' where on: "on_misc tx cfg ts m c = (v, c')"
      by fastforce
    note g = guards_misc [OF Misc, of tx cfg ts c, unfolded on fst_conv snd_conv]
    have c: "api_retry_count c' = (if is_retry m then Suc (api_retry_count c) else api_retry_count c)"
        "(last_synthetic_text c' \<noteq> None) = (last_synthetic_text c \<noteq> None)" "ended c' = ended c"
      using g(1) by (simp_all add: guards_def split: if_splits)
    show ?thesis
    proof (cases "is_retry m \<and> over_budget cfg (Suc (api_retry_count c)) []")
      case True
      with g(2) obtain e where "v = PermissionError e"
        by blast
      then show ?thesis
        using True Cons.prems c(3)
        by (simp add: x misc_simps [OF Misc] on over_budget_def report_failure_def send_def bump_def)
    next
      case False
      with g(2,3) have "v = Continue"
        by (cases v) auto
      moreover have "\<not> over_budget cfg (api_retry_count c') []"
        using False Cons.prems(1) c(1) by (auto simp: over_budget_def)
      moreover have "over_budget cfg (api_retry_count c) (m # ms) = over_budget cfg (api_retry_count c') ms" for ms
        using c(1) by (auto simp: over_budget_def)
      ultimately show ?thesis
        using Cons.IH [of c'] Cons.prems(2) c(2,3) by (simp add: x misc_simps [OF Misc] on)
    qed
  qed
qed (simp add: over_budget_def)

text \<open>
  The session is reported as completed exactly if a result arrives and, up to it, the retries of
  the upstream API stayed within the budget and the last assistant message was a real one; it
  fails with a permission error exactly if the budget ran out or a result followed a synthetic
  message.
\<close>

lemma completion_honest:
  "(ended (snd (drain_messages tx cfg msgs new_core)) \<longleftrightarrow> list_ex is_result (map snd msgs) \<and>
      \<not> over_budget cfg 0 (takeWhile (\<lambda>m. \<not> is_result m) (map snd msgs)) \<and>
      \<not> synthetic_last False (takeWhile (\<lambda>m. \<not> is_result m) (map snd msgs))) \<and>
   (fst (drain_messages tx cfg msgs new_core) \<noteq> None \<longleftrightarrow>
      over_budget cfg 0 (takeWhile (\<lambda>m. \<not> is_result m) (map snd msgs)) \<or>
      list_ex is_result (map snd msgs) \<and> synthetic_last False (takeWhile (\<lambda>m. \<not> is_result m) (map snd msgs)))"
  using drain_guards [of cfg new_core tx msgs] by (simp add: new_core_def over_budget_def)

section \<open>Before the conversation: output and environment\<close>

text \<open>
  However much the commands write, the bytes counted as forwarded never exceed the limit, and what
  is captured of one command for the error report is the beginning of its output, up to the limit.
\<close>

lemma stream_step:
  assumes "emitted \<le> PRE_RUN_OUTPUT_LIMIT_BYTES"
  shows "\<exists>c'. stream_chunk ts sid x (c, emitted, take PRE_RUN_OUTPUT_LIMIT_BYTES captured) =
    (c', min PRE_RUN_OUTPUT_LIMIT_BYTES (emitted + length x), take PRE_RUN_OUTPUT_LIMIT_BYTES (captured @ x))"
proof -
  have "(if length (take PRE_RUN_OUTPUT_LIMIT_BYTES captured) < PRE_RUN_OUTPUT_LIMIT_BYTES
     then take PRE_RUN_OUTPUT_LIMIT_BYTES captured @ take (PRE_RUN_OUTPUT_LIMIT_BYTES - length (take PRE_RUN_OUTPUT_LIMIT_BYTES captured)) x
     else take PRE_RUN_OUTPUT_LIMIT_BYTES captured) = take PRE_RUN_OUTPUT_LIMIT_BYTES (captured @ x)"
    by (auto simp: min_def)
  moreover have "emitted + length (take (PRE_RUN_OUTPUT_LIMIT_BYTES - emitted) x) = min PRE_RUN_OUTPUT_LIMIT_BYTES (emitted + length x)"
    using assms by (auto simp: min_def)
  moreover have "\<not> emitted < PRE_RUN_OUTPUT_LIMIT_BYTES \<Longrightarrow> emitted = min PRE_RUN_OUTPUT_LIMIT_BYTES (emitted + length x)"
    using assms by (simp add: min_def)
  ultimately show ?thesis
    unfolding stream_chunk_def prod.case Let_def by (cases "emitted < PRE_RUN_OUTPUT_LIMIT_BYTES") (simp_all only: if_True if_False prod.inject, blast+)
qed

lemma stream_bounded:
  assumes "emitted \<le> PRE_RUN_OUTPUT_LIMIT_BYTES"
  shows "\<exists>c'. fold (stream_chunk ts sid) chunks (c, emitted, take PRE_RUN_OUTPUT_LIMIT_BYTES captured) =
    (c', min PRE_RUN_OUTPUT_LIMIT_BYTES (emitted + length (concat chunks)), take PRE_RUN_OUTPUT_LIMIT_BYTES (captured @ concat chunks))"
  using assms
proof (induction chunks arbitrary: c emitted captured)
  case (Cons x xs)
  obtain c1 where "stream_chunk ts sid x (c, emitted, take PRE_RUN_OUTPUT_LIMIT_BYTES captured) =
    (c1, min PRE_RUN_OUTPUT_LIMIT_BYTES (emitted + length x), take PRE_RUN_OUTPUT_LIMIT_BYTES (captured @ x))"
    using stream_step [OF Cons.prems] by blast
  moreover have "min L (min L (e + a) + b) = min L (e + (a + b))" for L e a b :: nat
    by (simp add: min_def)
  ultimately show ?case
    using Cons.IH [of "min PRE_RUN_OUTPUT_LIMIT_BYTES (emitted + length x)" c1 "captured @ x"] by simp
qed (simp add: min_def)

text \<open>
  Precedence in the SDK environment: the trace id of the session beats every other source, the
  caller's variables beat credentials, and credentials beat the variables of the host.
\<close>

lemma put_all_get: "map_of (put_all kvs env) k = (case map_of (rev kvs) k of None \<Rightarrow> map_of env k | Some v \<Rightarrow> Some v)"
  unfolding put_all_def
  by (induction kvs arbitrary: env) (auto simp: od_get_update map_add_def split: option.splits)

lemma od_get_setdefault: "map_of (od_setdefault j v d) k = (if k = j \<and> map_of d k = None then Some v else map_of d k)"
  by (cases "map_of d j") (auto simp: od_setdefault_def map_of_snoc simp del: map_of_append)

lemma put_given_get: "map_of (put_given j v env) k = (case v of Some (x # xs) \<Rightarrow> if k = j then Some (x # xs) else map_of env k | _ \<Rightarrow> map_of env k)"
  by (auto simp: put_given_def od_get_update split: option.splits list.splits)

lemma sdk_env_get:
  assumes "k \<noteq> ''CLAUDE_CODE_SUBAGENT_MODEL''" "k \<noteq> ''RELAY_TRACE_ID''" "map_of (caller_env host ctx extra) k = Some v"
  shows "map_of (sdk_env host ctx extra rt sub) k = Some v"
proof -
  have other: "map_of (put_given j w env) k = map_of env k" if "k \<noteq> j" for j w env
    using that by (simp add: put_given_get split: option.splits list.splits)
  show ?thesis
    using assms by (cases rt) (simp_all add: sdk_env_def Let_def other od_get_setdefault)
qed

lemma env_precedence:
  "t \<noteq> [] \<Longrightarrow> map_of (sdk_env host (Some (creds, Some t)) extra rt sub) ''RELAY_TRACE_ID'' = Some t"
  "k \<noteq> ''RELAY_TRACE_ID'' \<Longrightarrow> k \<noteq> ''CLAUDE_CODE_SUBAGENT_MODEL'' \<Longrightarrow> map_of (rev extra) k = Some v \<Longrightarrow>
     map_of (sdk_env host ctx extra rt sub) k = Some v"
  "k \<noteq> ''RELAY_TRACE_ID'' \<Longrightarrow> k \<noteq> ''CLAUDE_CODE_SUBAGENT_MODEL'' \<Longrightarrow> map_of (rev extra) k = None \<Longrightarrow> map_of (rev creds) k = Some v \<Longrightarrow>
     map_of (sdk_env host (Some (creds, trace)) extra rt sub) k = Some v"
proof -
  show "t \<noteq> [] \<Longrightarrow> map_of (sdk_env host (Some (creds, Some t)) extra rt sub) ''RELAY_TRACE_ID'' = Some t"
    by (cases t; cases rt) (simp_all add: sdk_env_def Let_def put_given_get od_get_setdefault split: option.splits list.splits)
qed (auto intro!: sdk_env_get simp: caller_env_def put_all_get)

end
