(* ===== verification/Json_Text.thy ===== *)
theory Json_Text
  imports Json_Values
begin

text \<open>
  JSON as text: \<open>json.dumps\<close> as the transports and the event stream call it, and \<open>json.loads\<close>. A
  character is a code point below 256, printed as an escape unless it is printable ASCII. The
  text of a finite float (\<open>repr\<close>) and its inverse (\<open>float\<close>) are parameters.
\<close>

section \<open>Printing\<close>

definition hex_digit :: "nat \<Rightarrow> char" where
  "hex_digit n = char_of (if n < 10 then 48 + n else 87 + n)"

definition json_esc :: "char \<Rightarrow> string" where
  "json_esc c = (let n = of_char c :: nat in
     if c = CHR 0x22 then [CHR 0x5C, CHR 0x22]
     else if c = CHR 0x5C then [CHR 0x5C, CHR 0x5C]
     else if c = CHR 0x0A then [CHR 0x5C, CHR ''n'']
     else if c = CHR 0x0D then [CHR 0x5C, CHR ''r'']
     else if c = CHR 0x09 then [CHR 0x5C, CHR ''t'']
     else if c = CHR 0x08 then [CHR 0x5C, CHR ''b'']
     else if c = CHR 0x0C then [CHR 0x5C, CHR ''f'']
     else if 32 \<le> n \<and> n \<le> 126 then [c]
     else [CHR 0x5C, CHR ''u'', CHR ''0'', CHR ''0'', hex_digit (n div 16), hex_digit (n mod 16)])"

definition json_chars :: "string \<Rightarrow> string" where
  "json_chars s = concat (map json_esc s)"

definition json_str :: "string \<Rightarrow> string" where
  "json_str s = CHR 0x22 # json_chars s @ [CHR 0x22]"

fun float_text :: "(pyfloat \<Rightarrow> string) \<Rightarrow> pyfloat \<Rightarrow> string" where
  "float_text fr PosInf = ''Infinity''"
| "float_text fr NegInf = ''-Infinity''"
| "float_text fr NaN = ''NaN''"
| "float_text fr f = fr f"

text \<open>\<open>sp\<close> is what follows a comma or a colon: a blank by default, nothing with compact separators.\<close>

definition key_text :: "(pyfloat \<Rightarrow> string) \<Rightarrow> pyval \<Rightarrow> string" where
  "key_text fr k = (case json_key (float_text fr) k of Inr s \<Rightarrow> s | Inl _ \<Rightarrow> [])"

fun json_text :: "(pyfloat \<Rightarrow> string) \<Rightarrow> string \<Rightarrow> pyval \<Rightarrow> string"
and json_items :: "(pyfloat \<Rightarrow> string) \<Rightarrow> string \<Rightarrow> pyval list \<Rightarrow> string"
and json_pairs :: "(pyfloat \<Rightarrow> string) \<Rightarrow> string \<Rightarrow> pydict \<Rightarrow> string" where
  "json_text fr sp PNone = ''null''"
| "json_text fr sp (PBool b) = (if b then ''true'' else ''false'')"
| "json_text fr sp (PInt i) = str_int i"
| "json_text fr sp (PFloat f) = float_text fr f"
| "json_text fr sp (PStr s) = json_str s"
| "json_text fr sp (PList xs) = ''['' @ json_items fr sp xs @ '']''"
| "json_text fr sp (PTuple xs) = ''['' @ json_items fr sp xs @ '']''"
| "json_text fr sp (PDict d) = ''{'' @ json_pairs fr sp d @ ''}''"
| "json_items fr sp [] = []"
| "json_items fr sp (x # xs) = json_text fr sp x @ (if xs = [] then [] else '','' @ sp @ json_items fr sp xs)"
| "json_pairs fr sp [] = []"
| "json_pairs fr sp ((k, v) # d) =
     json_str (key_text fr k) @ '':'' @ sp @ json_text fr sp v @ (if d = [] then [] else '','' @ sp @ json_pairs fr sp d)"

fun keys_ok :: "pyval \<Rightarrow> bool"
and keys_ok_list :: "pyval list \<Rightarrow> bool"
and keys_ok_dict :: "pydict \<Rightarrow> bool" where
  "keys_ok (PList xs) = keys_ok_list xs"
| "keys_ok (PTuple xs) = keys_ok_list xs"
| "keys_ok (PDict d) = keys_ok_dict d"
| "keys_ok v = True"
| "keys_ok_list [] = True"
| "keys_ok_list (x # xs) = (keys_ok x \<and> keys_ok_list xs)"
| "keys_ok_dict [] = True"
| "keys_ok_dict ((k, v) # d) = ((case k of PList _ \<Rightarrow> False | PTuple _ \<Rightarrow> False | PDict _ \<Rightarrow> False | _ \<Rightarrow> True) \<and> keys_ok v \<and> keys_ok_dict d)"

definition json_dumps :: "(pyfloat \<Rightarrow> string) \<Rightarrow> string \<Rightarrow> pyval \<Rightarrow> py_exn + string" where
  "json_dumps fr sp v = (if keys_ok v then Inr (json_text fr sp v) else Inl TypeError)"

section \<open>Reading\<close>

definition json_space :: "char \<Rightarrow> bool" where
  "json_space c = (c = CHR '' '' \<or> c = CHR 0x09 \<or> c = CHR 0x0A \<or> c = CHR 0x0D)"

abbreviation skip_ws :: "string \<Rightarrow> string" where
  "skip_ws s \<equiv> dropWhile json_space s"

definition hex_val :: "char \<Rightarrow> nat option" where
  "hex_val c = (let n = of_char c :: nat in
     if 48 \<le> n \<and> n \<le> 57 then Some (n - 48)
     else if 97 \<le> n \<and> n \<le> 102 then Some (n - 87)
     else if 65 \<le> n \<and> n \<le> 70 then Some (n - 55)
     else None)"

definition unescape :: "char \<Rightarrow> char option" where
  "unescape c = map_of [(CHR 0x22, CHR 0x22), (CHR 0x5C, CHR 0x5C), (CHR ''/'', CHR ''/''), (CHR ''b'', CHR 0x08),
     (CHR ''f'', CHR 0x0C), (CHR ''n'', CHR 0x0A), (CHR ''r'', CHR 0x0D), (CHR ''t'', CHR 0x09)] c"

text \<open>
  \<open>scanstring\<close> after the opening quote. Control characters are refused; a code point above 255 has
  no character here, so texts with such escapes are outside the model and read as failures.
\<close>

fun scan_string :: "string \<Rightarrow> (string \<times> string) option" where
  "scan_string [] = None"
| "scan_string (c # s) =
     (if c = CHR 0x22 then Some ([], s)
      else if c = CHR 0x5C then (case s of
          [] \<Rightarrow> None
        | e # r \<Rightarrow>
            if e = CHR ''u'' then (case r of
                a # b # x # y # t \<Rightarrow> (case (hex_val a, hex_val b, hex_val x, hex_val y) of
                    (Some i, Some j, Some k, Some l) \<Rightarrow>
                      if i = 0 \<and> j = 0 then map_option (apfst ((#) (char_of (16 * k + l)))) (scan_string t) else None
                  | _ \<Rightarrow> None)
              | _ \<Rightarrow> None)
            else (case unescape e of
                None \<Rightarrow> None
              | Some d \<Rightarrow> map_option (apfst ((#) d)) (scan_string r)))
      else if of_char c < (32 :: nat) then None
      else map_option (apfst ((#) c)) (scan_string s))"

definition expect :: "char \<Rightarrow> string \<Rightarrow> string option" where
  "expect c s = (case s of x # t \<Rightarrow> if x = c then Some t else None | [] \<Rightarrow> None)"

definition digits_of :: "string \<Rightarrow> string" where
  "digits_of s = takeWhile is_digit s"

text \<open>The three groups of the number pattern and what follows them.\<close>

definition scan_sign :: "string \<Rightarrow> string \<times> string" where
  "scan_sign s = (case expect (CHR ''-'') s of Some r \<Rightarrow> (''-'', r) | None \<Rightarrow> ([], s))"

definition scan_int :: "string \<Rightarrow> (string \<times> string) option" where
  "scan_int s = (case s of
     c # r \<Rightarrow> if c = CHR ''0'' then Some (''0'', r)
              else if is_digit c then Some (digits_of s, drop (length (digits_of s)) s) else None
   | [] \<Rightarrow> None)"

definition scan_frac :: "string \<Rightarrow> string \<times> string" where
  "scan_frac s = (case expect (CHR ''.'') s of
     Some r \<Rightarrow> if digits_of r \<noteq> [] then (CHR ''.'' # digits_of r, drop (length (digits_of r)) r) else ([], s)
   | None \<Rightarrow> ([], s))"

definition scan_exp :: "string \<Rightarrow> string \<times> string" where
  "scan_exp s = (case s of
     e # r \<Rightarrow>
       if e = CHR ''e'' \<or> e = CHR ''E'' then
         (let sg = (case r of g # _ \<Rightarrow> if g = CHR ''+'' \<or> g = CHR ''-'' then [g] else [] | [] \<Rightarrow> []);
              ds = digits_of (drop (length sg) r)
          in if ds \<noteq> [] then (e # sg @ ds, drop (length sg + length ds) r) else ([], s))
       else ([], s)
   | [] \<Rightarrow> ([], s))"

definition scan_number :: "(string \<Rightarrow> pyfloat) \<Rightarrow> string \<Rightarrow> (pyval \<times> string) option" where
  "scan_number fp s = (let (sg, s1) = scan_sign s in case scan_int s1 of
     None \<Rightarrow> None
   | Some (ds, s2) \<Rightarrow>
       let (fs, s3) = scan_frac s2; (es, s4) = scan_exp s3
       in if fs = [] \<and> es = [] then Some (PInt ((if sg = [] then 1 else -1) * int (digits_value ds)), s4)
          else Some (PFloat (fp (sg @ ds @ fs @ es)), s4))"

definition scan_atom :: "(string \<Rightarrow> pyfloat) \<Rightarrow> string \<Rightarrow> (pyval \<times> string) option" where
  "scan_atom fp s =
     (if starts_with ''null'' s then Some (PNone, drop 4 s)
      else if starts_with ''true'' s then Some (PBool True, drop 4 s)
      else if starts_with ''false'' s then Some (PBool False, drop 5 s)
      else case scan_number fp s of
          Some r \<Rightarrow> Some r
        | None \<Rightarrow>
            if starts_with ''NaN'' s then Some (PFloat NaN, drop 3 s)
            else if starts_with ''Infinity'' s then Some (PFloat PosInf, drop 8 s)
            else if starts_with ''-Infinity'' s then Some (PFloat NegInf, drop 9 s)
            else None)"

text \<open>
  The recursive scanner. The first argument bounds the depth of calls; \<open>json_loads\<close> starts it with
  the length of the text, and every call consumes a character.
\<close>

fun scan :: "(string \<Rightarrow> pyfloat) \<Rightarrow> nat \<Rightarrow> string \<Rightarrow> (pyval \<times> string) option"
and scan_items :: "(string \<Rightarrow> pyfloat) \<Rightarrow> nat \<Rightarrow> string \<Rightarrow> (pyval list \<times> string) option"
and scan_pairs :: "(string \<Rightarrow> pyfloat) \<Rightarrow> nat \<Rightarrow> pydict \<Rightarrow> string \<Rightarrow> (pydict \<times> string) option" where
  "scan fp 0 s = None"
| "scan fp (Suc n) s = (case s of
     [] \<Rightarrow> None
   | c # r \<Rightarrow>
       if c = CHR 0x22 then map_option (apfst PStr) (scan_string r)
       else if c = CHR ''{'' then (case expect (CHR ''}'') (skip_ws r) of
           Some t \<Rightarrow> Some (PDict [], t)
         | None \<Rightarrow> map_option (apfst PDict) (scan_pairs fp n [] (skip_ws r)))
       else if c = CHR ''['' then (case expect (CHR '']'') (skip_ws r) of
           Some t \<Rightarrow> Some (PList [], t)
         | None \<Rightarrow> map_option (apfst PList) (scan_items fp n (skip_ws r)))
       else scan_atom fp s)"
| "scan_items fp 0 s = None"
| "scan_items fp (Suc n) s = (case scan fp n s of
     None \<Rightarrow> None
   | Some (v, r) \<Rightarrow> (case expect (CHR '']'') (skip_ws r) of
        Some t \<Rightarrow> Some ([v], t)
      | None \<Rightarrow> (case expect (CHR '','') (skip_ws r) of
           Some t \<Rightarrow> map_option (apfst ((#) v)) (scan_items fp n (skip_ws t))
         | None \<Rightarrow> None)))"
| "scan_pairs fp 0 acc s = None"
| "scan_pairs fp (Suc n) acc s = (case Option.bind (expect (CHR 0x22) s) scan_string of
     None \<Rightarrow> None
   | Some (k, r1) \<Rightarrow> (case expect (CHR '':'') (skip_ws r1) of
        None \<Rightarrow> None
      | Some r2 \<Rightarrow> (case scan fp n (skip_ws r2) of
           None \<Rightarrow> None
         | Some (v, r3) \<Rightarrow> (case expect (CHR ''}'') (skip_ws r3) of
              Some t \<Rightarrow> Some (dict_put (PStr k) v acc, t)
            | None \<Rightarrow> (case expect (CHR '','') (skip_ws r3) of
                 Some t \<Rightarrow> scan_pairs fp n (dict_put (PStr k) v acc) (skip_ws t)
               | None \<Rightarrow> None)))))"

definition json_loads :: "(string \<Rightarrow> pyfloat) \<Rightarrow> string \<Rightarrow> pyval option" where
  "json_loads fp s = (case scan fp (length s) (skip_ws s) of
     None \<Rightarrow> None
   | Some (v, r) \<Rightarrow> if skip_ws r = [] then Some v else None)"

section \<open>Reading what was printed\<close>

lemma expect_simps [simp]:
  "expect c (c # t) = Some t" "x \<noteq> c \<Longrightarrow> expect c (x # t) = None" "expect c [] = None"
  by (simp_all add: expect_def)

lemma hex_digit_val: "k < 16 \<Longrightarrow> hex_val (hex_digit k) = Some k"
  by (auto simp: hex_digit_def hex_val_def Let_def)

lemma scan_esc: "scan_string (json_esc c @ t) = map_option (apfst ((#) c)) (scan_string t)"
proof -
  let ?n = "of_char c :: nat"
  have c: "c = char_of ?n" and lt: "?n < 256"
    by (simp_all add: nat_of_char_less_256)
  consider "c = CHR 0x22" | "c = CHR 0x5C" | "c = CHR 0x0A" | "c = CHR 0x0D" | "c = CHR 0x09" | "c = CHR 0x08" | "c = CHR 0x0C"
    | (plain) "c \<noteq> CHR 0x22" "c \<noteq> CHR 0x5C" "32 \<le> ?n" "?n \<le> 126"
    | (hex) "c \<notin> {CHR 0x22, CHR 0x5C, CHR 0x0A, CHR 0x0D, CHR 0x09, CHR 0x08, CHR 0x0C}" "\<not> (32 \<le> ?n \<and> ?n \<le> 126)"
    by fastforce
  then show ?thesis
  proof cases
    case plain
    then show ?thesis
      by (auto simp: json_esc_def Let_def)
  next
    case hex
    have "hex_val (hex_digit (?n div 16)) = Some (?n div 16)" "hex_val (hex_digit (?n mod 16)) = Some (?n mod 16)"
      using lt by (simp_all add: hex_digit_val less_mult_imp_div_less)
    moreover have "char_of (16 * (?n div 16) + ?n mod 16) = c"
      using c by simp
    moreover have "hex_val (CHR ''0'') = Some 0"
      by (simp add: hex_val_def)
    ultimately show ?thesis
      using hex by (simp add: json_esc_def Let_def)
  qed (simp_all add: json_esc_def unescape_def)
qed

lemma scan_string_chars: "scan_string (json_chars s @ CHR 0x22 # r) = Some (s, r)"
  by (induction s) (simp_all add: json_chars_def scan_esc del: scan_string.simps, simp)

lemma char_48 [simp]: "(char_of (48 :: nat) :: char) = CHR ''0''"
  by code_simp

lemma str_nat_head: "n > 0 \<Longrightarrow> hd (str_nat n) \<noteq> CHR ''0''"
proof (induction n rule: str_nat.induct)
  case (1 n)
  have z: "(char_of (48 + k) :: char) = CHR ''0'' \<longleftrightarrow> k = 0" if "k < 10" for k :: nat
  proof
    assume "(char_of (48 + k) :: char) = CHR ''0''"
    then have "of_char (char_of (48 + k) :: char) = (48 :: nat)"
      by simp
    with that show "k = 0"
      by simp
  qed simp
  show ?case
  proof (cases "n < 10")
    case True
    then show ?thesis
      using "1.prems" z [of n] by (simp add: str_nat.simps [of n])
  next
    case False
    then show ?thesis
      using "1.IH" by (simp add: str_nat.simps [of n])
  qed
qed

text \<open>What may follow a value: the end of the text, or a character that does not continue a number.\<close>

definition delim :: "string \<Rightarrow> bool" where
  "delim r = (r = [] \<or> hd r \<in> {CHR '','', CHR '']'', CHR ''}'', CHR 0x0A})"

lemma digits_of_append: "\<forall>c \<in> set ds. is_digit c \<Longrightarrow> delim r \<Longrightarrow> digits_of (ds @ r) = ds"
  unfolding digits_of_def
  by (cases r) (auto simp: delim_def takeWhile_append2 is_digit_def)

lemma delim_rest [simp]:
  assumes "delim r"
  shows "scan_frac r = ([], r)" "scan_exp r = ([], r)"
  using assms by (cases r; auto simp: delim_def scan_frac_def scan_exp_def expect_def)+

lemma scan_nat:
  assumes "delim r"
  shows "scan_int (str_nat n @ r) = Some (str_nat n, r)"
proof (cases "n = 0")
  case True
  then show ?thesis
    by (simp add: scan_int_def str_nat.simps [of 0])
next
  case False
  obtain c ds where cs: "str_nat n = c # ds"
    by (cases "str_nat n") simp_all
  have "c \<noteq> CHR ''0''" "is_digit c"
    using False str_nat_head [of n] str_nat_digits [of n] cs by auto
  then show ?thesis
    using digits_of_append [OF str_nat_digits assms, of n] cs by (simp add: scan_int_def)
qed

lemma scan_number_int:
  assumes "delim r"
  shows "scan_number fp (str_int i @ r) = Some (PInt i, r)"
proof (cases "i < 0")
  case True
  then show ?thesis
    using scan_nat [OF assms, of "nat (- i)"]
    by (simp add: str_int_def scan_number_def scan_sign_def Let_def assms str_nat_value)
next
  case False
  obtain c ds where cs: "str_nat (nat i) = c # ds"
    by (cases "str_nat (nat i)") simp_all
  then have "is_digit c"
    using str_nat_digits [of "nat i"] by simp
  then have "c \<noteq> CHR ''-''"
    by (auto simp: is_digit_def)
  then have "scan_sign (str_nat (nat i) @ r) = ([], str_nat (nat i) @ r)"
    by (simp add: scan_sign_def cs)
  then show ?thesis
    using False scan_nat [OF assms, of "nat i"]
    by (simp add: str_int_def scan_number_def Let_def assms str_nat_value)
qed

text \<open>
  What is asked of the text of floats: it is made of the characters of a number and reading it back
  gives the float.
\<close>

definition float_ok :: "(pyfloat \<Rightarrow> string) \<Rightarrow> (string \<Rightarrow> pyfloat) \<Rightarrow> pyfloat \<Rightarrow> bool" where
  "float_ok fr fp f = (case f of
     Fin q \<Rightarrow> fr f \<noteq> [] \<and> list_all (\<lambda>c. is_digit c \<or> c \<in> {CHR ''.'', CHR ''-'', CHR ''+'', CHR ''e''}) (fr f) \<and>
       (\<forall>r. delim r \<longrightarrow> scan_atom fp (fr f @ r) = Some (PFloat f, r))
   | _ \<Rightarrow> True)"

fun floats_ok :: "(pyfloat \<Rightarrow> string) \<Rightarrow> (string \<Rightarrow> pyfloat) \<Rightarrow> pyval \<Rightarrow> bool"
and floats_ok_list :: "(pyfloat \<Rightarrow> string) \<Rightarrow> (string \<Rightarrow> pyfloat) \<Rightarrow> pyval list \<Rightarrow> bool"
and floats_ok_dict :: "(pyfloat \<Rightarrow> string) \<Rightarrow> (string \<Rightarrow> pyfloat) \<Rightarrow> pydict \<Rightarrow> bool" where
  "floats_ok fr fp (PFloat f) = float_ok fr fp f"
| "floats_ok fr fp (PList xs) = floats_ok_list fr fp xs"
| "floats_ok fr fp (PTuple xs) = floats_ok_list fr fp xs"
| "floats_ok fr fp (PDict d) = floats_ok_dict fr fp d"
| "floats_ok fr fp v = True"
| "floats_ok_list fr fp [] = True"
| "floats_ok_list fr fp (x # xs) = (floats_ok fr fp x \<and> floats_ok_list fr fp xs)"
| "floats_ok_dict fr fp [] = True"
| "floats_ok_dict fr fp ((k, v) # d) = (floats_ok fr fp v \<and> floats_ok_dict fr fp d)"

definition starter :: "char \<Rightarrow> bool" where
  "starter c = (\<not> json_space c \<and> c \<notin> {CHR '']'', CHR ''}'', CHR '','', CHR '':''})"

lemma number_char: "is_digit c \<or> c \<in> {CHR ''.'', CHR ''-'', CHR ''+'', CHR ''e''} \<Longrightarrow>
    starter c \<and> c \<notin> {CHR 0x22, CHR ''{'', CHR ''['', CHR ''n'', CHR ''t'', CHR ''f''}"
  by (auto simp: starter_def json_space_def is_digit_def)

lemma str_int_head: "\<exists>c t. str_int i = c # t \<and> (is_digit c \<or> c = CHR ''-'')"
  using str_nat_digits [of "nat i"] by (cases "str_nat (nat i)") (auto simp: str_int_def)

lemma float_head:
  assumes "float_ok fr fp f"
  shows "\<exists>c t. float_text fr f = c # t \<and> starter c \<and> c \<notin> {CHR 0x22, CHR ''{'', CHR ''[''}"
proof (cases f)
  case (Fin q)
  obtain c t where "fr f = c # t"
    using assms Fin by (cases "fr f") (auto simp: float_ok_def)
  then show ?thesis
    using assms Fin number_char [of c] by (auto simp: float_ok_def)
qed (auto simp: starter_def json_space_def)

lemma text_head: "floats_ok fr fp v \<Longrightarrow> \<exists>c t. json_text fr sp v = c # t \<and> starter c"
proof (cases v)
  case (PInt i)
  then show ?thesis
    using str_int_head [of i] number_char by fastforce
next
  case (PFloat f)
  then show "floats_ok fr fp v \<Longrightarrow> ?thesis"
    using float_head [of fr fp f] by auto
qed (auto simp: starter_def json_space_def json_str_def)

lemma starter_space [simp]: "starter c \<Longrightarrow> \<not> json_space c"
  by (simp add: starter_def)

lemma skip_sp: "list_all json_space sp \<Longrightarrow> skip_ws (sp @ r) = skip_ws r"
  by (induction sp) auto

lemma scan_atom_int: "delim r \<Longrightarrow> scan_atom fp (str_int i @ r) = Some (PInt i, r)"
proof -
  assume r: "delim r"
  obtain c t where c: "str_int i = c # t" "is_digit c \<or> c = CHR ''-''"
    using str_int_head [of i] by blast
  then have "c \<notin> {CHR ''n'', CHR ''t'', CHR ''f''}"
    by (auto simp: is_digit_def)
  then have "\<not> starts_with ''null'' (str_int i @ r)" "\<not> starts_with ''true'' (str_int i @ r)" "\<not> starts_with ''false'' (str_int i @ r)"
    using c(1) by (auto simp: starts_with_def)
  then show ?thesis
    using scan_number_int [OF r, of fp i] by (simp add: scan_atom_def)
qed

lemma scan_atom_float:
  assumes "float_ok fr fp f" "delim r"
  shows "scan_atom fp (float_text fr f @ r) = Some (PFloat f, r)"
proof (cases f)
  case (Fin q)
  then show ?thesis
    using assms by (simp add: float_ok_def)
qed (simp_all add: scan_atom_def starts_with_def scan_number_def scan_sign_def scan_int_def is_digit_def)

lemma scan_simple:
  assumes "json_text fr sp v = c # t" "c \<notin> {CHR 0x22, CHR ''{'', CHR ''[''}" "scan_atom fp (json_text fr sp v @ r) = Some (v, r)"
    "length (json_text fr sp v) \<le> n"
  shows "scan fp n (json_text fr sp v @ r) = Some (v, r)"
  using assms by (cases n) auto

lemma delim_simps [simp]: "delim (CHR '','' # r)" "delim (CHR '']'' # r)" "delim (CHR ''}'' # r)" "delim []" "delim (CHR 0x0A # r)"
  by (simp_all add: delim_def)

lemma json_space_simps [simp]:
  "\<not> json_space (CHR '']'')" "\<not> json_space (CHR ''}'')" "\<not> json_space (CHR '','')" "\<not> json_space (CHR '':'')" "\<not> json_space (CHR 0x22)"
  "json_space (CHR 0x0A)" "json_space (CHR '' '')"
  by (simp_all add: json_space_def)

lemmas json_clean_induct = json_clean_json_clean_list_json_clean_dict.induct
  [case_names 1 2 3 is_none is_bool is_int is_float is_str 5 6 7 8]

lemma scan_text:
  assumes sp: "list_all json_space sp"
  shows "json_clean v \<Longrightarrow> floats_ok fr fp v \<Longrightarrow> length (json_text fr sp v) \<le> n \<Longrightarrow> delim r \<Longrightarrow>
      scan fp n (json_text fr sp v @ r) = Some (v, r)"
    and "json_clean_list xs \<Longrightarrow> floats_ok_list fr fp xs \<Longrightarrow> xs \<noteq> [] \<Longrightarrow> length (json_items fr sp xs) < n \<Longrightarrow>
      scan_items fp n (json_items fr sp xs @ CHR '']'' # r) = Some (xs, r)"
    and "json_clean_dict d \<Longrightarrow> floats_ok_dict fr fp d \<Longrightarrow> d \<noteq> [] \<Longrightarrow> distinct (map fst (acc @ d)) \<Longrightarrow>
      \<forall>k \<in> set (map fst acc). \<exists>t. k = PStr t \<Longrightarrow> length (json_pairs fr sp d) < n \<Longrightarrow>
      scan_pairs fp n acc (json_pairs fr sp d @ CHR ''}'' # r) = Some (acc @ d, r)"
proof (induction v and xs and d arbitrary: n r and n r and n r acc rule: json_clean_induct)
  case (2 xs)
  obtain m where n: "n = Suc m"
    using "2.prems"(3) by (cases n) auto
  show ?case
  proof (cases xs)
    case (Cons x ys)
    then obtain c t where "json_items fr sp xs = c # t" "starter c"
      using "2.prems"(2) text_head [of fr fp x sp] by auto
    moreover have "scan_items fp m (json_items fr sp xs @ CHR '']'' # r) = Some (xs, r)"
      using 2 n Cons by simp
    ultimately show ?thesis
      by (simp add: n starter_def)
  qed (simp add: n)
next
  case (3 d)
  obtain m where n: "n = Suc m"
    using "3.prems"(3) by (cases n) auto
  show ?case
  proof (cases d)
    case (Cons kv d')
    then obtain t where "json_pairs fr sp d = CHR 0x22 # t"
      by (cases kv) (simp add: json_str_def)
    moreover have "scan_pairs fp m [] (json_pairs fr sp d @ CHR ''}'' # r) = Some (d, r)"
      using "3.IH" [of "[]" m r] "3.prems" n Cons by simp
    ultimately show ?thesis
      by (simp add: n)
  qed (simp add: n)
next
  case (6 x xs)
  obtain m where n: "n = Suc m"
    using "6.prems"(4) by (cases n) auto
  show ?case
  proof (cases "xs = []")
    case True
    then show ?thesis
      using "6.IH"(1) [of m "CHR '']'' # r"] "6.prems" by (simp add: n)
  next
    case False
    then obtain y ys where ys: "xs = y # ys"
      by (cases xs) auto
    then obtain c t where c: "json_items fr sp xs = c # t" "starter c"
      using "6.prems"(2) text_head [of fr fp y sp] by auto
    have "scan fp m (json_text fr sp x @ CHR '','' # sp @ json_items fr sp xs @ CHR '']'' # r) = Some (x, CHR '','' # sp @ json_items fr sp xs @ CHR '']'' # r)"
      using "6.prems" False by (intro "6.IH"(1)) (auto simp: n)
    moreover have "scan_items fp m (json_items fr sp xs @ CHR '']'' # r) = Some (xs, r)"
      using "6.prems" False by (intro "6.IH"(2)) (auto simp: n)
    ultimately show ?thesis
      using False c by (simp add: n skip_sp [OF sp])
  qed
next
  case (8 k v d)
  obtain m where n: "n = Suc m"
    using "8.prems"(6) by (cases n) auto
  obtain s where k: "k = PStr s"
    using "8.prems"(1) by auto
  have put: "dict_put (PStr s) v acc = acc @ [(k, v)]"
    using "8.prems"(4,5) k by (auto intro!: dict_put_new)
  obtain c t where c: "json_text fr sp v = c # t" "starter c"
    using "8.prems"(2) text_head [of fr fp v sp] by auto
  show ?case
  proof (cases "d = []")
    case True
    have "scan fp m (json_text fr sp v @ CHR ''}'' # r) = Some (v, CHR ''}'' # r)"
      using "8.prems" True by (intro "8.IH"(1)) (auto simp: n)
    then show ?thesis
      using True c put by (simp add: n k key_text_def json_str_def scan_string_chars skip_sp [OF sp])
  next
    case False
    then obtain u where u: "json_pairs fr sp d = CHR 0x22 # u"
      by (cases d) (auto simp: json_str_def)
    have "scan fp m (json_text fr sp v @ CHR '','' # sp @ json_pairs fr sp d @ CHR ''}'' # r) = Some (v, CHR '','' # sp @ json_pairs fr sp d @ CHR ''}'' # r)"
      using "8.prems" False by (intro "8.IH"(1)) (auto simp: n)
    moreover have "scan_pairs fp m (acc @ [(k, v)]) (json_pairs fr sp d @ CHR ''}'' # r) = Some ((acc @ [(k, v)]) @ d, r)"
      using "8.prems" False by (intro "8.IH"(2)) (auto simp: n k)
    ultimately show ?thesis
      using False c u put by (simp add: n k key_text_def json_str_def scan_string_chars skip_sp [OF sp])
  qed
next
  case (is_int i)
  obtain c u where "str_int i = c # u" "is_digit c \<or> c = CHR ''-''"
    using str_int_head [of i] by blast
  with is_int show ?case
    using number_char [of c] scan_atom_int [of r fp i] by (intro scan_simple) auto
next
  case (is_float f)
  obtain c u where "float_text fr f = c # u" "c \<notin> {CHR 0x22, CHR ''{'', CHR ''[''}"
    using float_head [of fr fp f] is_float by auto
  with is_float show ?case
    using scan_atom_float [of fr fp f r] by (intro scan_simple) auto
next
  case (is_str s)
  then show ?case
    by (cases n) (simp_all add: json_str_def scan_string_chars)
next
  case is_none
  then show ?case
    by (cases n) (simp_all add: scan_atom_def starts_with_def)
next
  case (is_bool b)
  then show ?case
    by (cases n; cases b) (simp_all add: scan_atom_def starts_with_def)
qed auto

text \<open>Reading a text that was printed, with or without a final line break, gives the value back.\<close>

lemma loads_text:
  assumes "list_all json_space sp" "json_clean v" "floats_ok fr fp v" "r = [] \<or> r = [CHR 0x0A]"
  shows "json_loads fp (json_text fr sp v @ r) = Some v"
proof -
  obtain c t where "json_text fr sp v = c # t" "starter c"
    using text_head [OF assms(3)] by blast
  then have "skip_ws (json_text fr sp v @ r) = json_text fr sp v @ r"
    by simp
  moreover have "scan fp (length (json_text fr sp v @ r)) (json_text fr sp v @ r) = Some (v, r)"
    using assms by (intro scan_text(1)) auto
  ultimately show ?thesis
    using assms(4) by (auto simp: json_loads_def)
qed

text \<open>A printed value consists of printable ASCII characters: it stays on one line and needs no encoding.\<close>

definition printable :: "char \<Rightarrow> bool" where
  "printable c = (32 \<le> (of_char c :: nat) \<and> of_char c \<le> (126 :: nat))"

lemma hex_digit_printable: "k < 16 \<Longrightarrow> printable (hex_digit k)"
  by (simp add: hex_digit_def printable_def)

lemma json_esc_printable: "list_all printable (json_esc c)"
proof -
  have "printable (hex_digit (of_char c div 16))" "printable (hex_digit (of_char c mod 16))"
    using nat_of_char_less_256 [of c] by (simp_all add: hex_digit_printable less_mult_imp_div_less)
  moreover have "list_all printable [CHR 0x5C, CHR 0x22, CHR ''n'', CHR ''r'', CHR ''t'', CHR ''b'', CHR ''f'', CHR ''u'', CHR ''0'']"
    by (simp add: printable_def)
  ultimately show ?thesis
    by (auto simp: json_esc_def Let_def) (simp add: printable_def)
qed

lemma json_str_printable: "list_all printable (json_str s)"
proof -
  have "list_all printable (json_chars s)"
    using json_esc_printable by (induction s) (simp_all add: json_chars_def)
  then show ?thesis
    by (simp add: json_str_def printable_def)
qed

lemma digit_printable: "is_digit c \<Longrightarrow> printable c"
  by (simp add: is_digit_def printable_def Let_def)

lemma float_printable: "float_ok fr fp f \<Longrightarrow> list_all printable (float_text fr f)"
proof (cases f)
  case (Fin q)
  moreover have "is_digit c \<or> c \<in> {CHR ''.'', CHR ''-'', CHR ''+'', CHR ''e''} \<Longrightarrow> printable c" for c
    by (auto intro: digit_printable simp: printable_def [of "CHR ''.''"] printable_def [of "CHR ''-''"] printable_def [of "CHR ''+''"] printable_def [of "CHR ''e''"])
  ultimately show "float_ok fr fp f \<Longrightarrow> ?thesis"
    by (auto simp: float_ok_def list_all_iff)
qed (simp_all add: printable_def)

lemma str_int_printable: "list_all printable (str_int i)"
  using str_nat_digits digit_printable by (auto simp: str_int_def list_all_iff printable_def [of "CHR ''-''"])

lemma text_printable:
  assumes "list_all printable sp"
  shows "floats_ok fr fp v \<Longrightarrow> list_all printable (json_text fr sp v)"
    and "floats_ok_list fr fp xs \<Longrightarrow> list_all printable (json_items fr sp xs)"
    and "floats_ok_dict fr fp d \<Longrightarrow> list_all printable (json_pairs fr sp d)"
proof (induction fr fp v and fr fp xs and fr fp d rule: floats_ok_floats_ok_list_floats_ok_dict.induct)
qed (use assms in \<open>auto simp: json_str_printable float_printable str_int_printable printable_def\<close>)

lemma printable_line: "list_all printable s \<Longrightarrow> CHR 0x0A \<notin> set s"
  by (induction s) (auto simp: printable_def)

end
