(* ===== verification/Transports.thy ===== *)
theory Transports
  imports Json_Text
begin

text \<open>
  The transports between host and runner: the in-memory pair (\<open>session/transport/inmemory.py\<close>), the
  line-oriented JSON streams over a Unix socket (\<open>session/transport/unixsocket.py\<close>) and over TCP
  with its token handshake (\<open>session/transport/tcp.py\<close>). One direction of a socket is the bytes the
  network still holds and the bytes in the reader's buffer; they move from one to the other in
  pieces of any size. A call that has to wait returns \<open>None\<close>.
\<close>

section \<open>Line-oriented JSON over a stream\<close>

datatype t_exn = TransportClosed | NotSerializable | LineTooLong

record pipe =
  wire :: string
  buf :: string
  hung_up :: bool
  s_closing :: bool
  r_closing :: bool

definition new_pipe :: pipe where
  "new_pipe = \<lparr>wire = [], buf = [], hung_up = False, s_closing = False, r_closing = False\<rparr>"

definition READER_LIMIT :: nat where
  "READER_LIMIT = 16 * 1024 * 1024"

abbreviation newline :: char where
  "newline \<equiv> CHR 0x0A"

text \<open>\<open>gone\<close>: the peer has closed the connection, so that flushing fails.\<close>

definition ndjson_send :: "(pyfloat \<Rightarrow> string) \<Rightarrow> bool \<Rightarrow> pydict \<Rightarrow> pipe \<Rightarrow> (t_exn + unit) \<times> pipe" where
  "ndjson_send fr gone frame p =
     (if s_closing p then (Inl TransportClosed, p)
      else (case json_dumps fr [] (PDict frame) of
          Inl _ \<Rightarrow> (Inl NotSerializable, p)
        | Inr t \<Rightarrow>
            (let p1 = p\<lparr>wire := wire p @ t @ [newline]\<rparr>
             in if gone then (Inl TransportClosed, p1\<lparr>s_closing := True\<rparr>) else (Inr (), p1))))"

text \<open>
  \<open>StreamReader.readline\<close>: a line with its line break, or at the end of the stream whatever is left.
  A line longer than the limit raises and is thrown away.
\<close>

definition readline :: "pipe \<Rightarrow> (t_exn + string) option \<times> pipe" where
  "readline p =
     (let n = length (takeWhile (\<lambda>c. c \<noteq> newline) (buf p))
      in if n < length (buf p) then
           (if n > READER_LIMIT then (Some (Inl LineTooLong), p\<lparr>buf := drop (Suc n) (buf p)\<rparr>)
            else (Some (Inr (take (Suc n) (buf p))), p\<lparr>buf := drop (Suc n) (buf p)\<rparr>))
         else if n > READER_LIMIT then (Some (Inl LineTooLong), p\<lparr>buf := []\<rparr>)
         else if hung_up p \<and> wire p = [] then (Some (Inr (buf p)), p\<lparr>buf := []\<rparr>)
         else (None, p))"

text \<open>UTF-8 down to the code points below 256 that a character can be.\<close>

fun utf8 :: "string \<Rightarrow> string option" where
  "utf8 [] = Some []"
| "utf8 (c # s) =
     (if of_char c < (128 :: nat) then map_option ((#) c) (utf8 s)
      else (case s of
          d # t \<Rightarrow>
            if (c = CHR 0xC2 \<or> c = CHR 0xC3) \<and> 128 \<le> (of_char d :: nat) \<and> of_char d < (192 :: nat)
            then map_option ((#) (char_of ((of_char c - 192) * 64 + (of_char d - 128) :: nat))) (utf8 t)
            else None
        | [] \<Rightarrow> None))"

definition read_json :: "(string \<Rightarrow> pyfloat) \<Rightarrow> string \<Rightarrow> pyval option" where
  "read_json fp line = Option.bind (utf8 line) (json_loads fp)"

definition ndjson_recv :: "(string \<Rightarrow> pyfloat) \<Rightarrow> pipe \<Rightarrow> (t_exn + pyval) option \<times> pipe" where
  "ndjson_recv fp p = (case readline p of
     (None, p1) \<Rightarrow> (None, p1)
   | (Some (Inl e), p1) \<Rightarrow> (Some (Inl e), p1)
   | (Some (Inr line), p1) \<Rightarrow>
       if line = [] then (Some (Inl TransportClosed), p1\<lparr>r_closing := True\<rparr>)
       else (case read_json fp line of
           None \<Rightarrow> (Some (Inl TransportClosed), p1\<lparr>r_closing := True\<rparr>)
         | Some v \<Rightarrow> (Some (Inr v), p1)))"

definition ndjson_close :: "pipe \<Rightarrow> pipe" where
  "ndjson_close p = (if s_closing p then p else p\<lparr>s_closing := True, hung_up := True\<rparr>)"

text \<open>Some bytes arrive.\<close>

definition arrive :: "nat \<Rightarrow> pipe \<Rightarrow> pipe" where
  "arrive n p = p\<lparr>buf := buf p @ take n (wire p), wire := drop n (wire p)\<rparr>"

text \<open>The two socket transports share this code line by line.\<close>

definition unix_send :: "(pyfloat \<Rightarrow> string) \<Rightarrow> bool \<Rightarrow> pydict \<Rightarrow> pipe \<Rightarrow> (t_exn + unit) \<times> pipe" where
  "unix_send = ndjson_send"

definition unix_recv :: "(string \<Rightarrow> pyfloat) \<Rightarrow> pipe \<Rightarrow> (t_exn + pyval) option \<times> pipe" where
  "unix_recv = ndjson_recv"

definition tcp_send :: "(pyfloat \<Rightarrow> string) \<Rightarrow> bool \<Rightarrow> pydict \<Rightarrow> pipe \<Rightarrow> (t_exn + unit) \<times> pipe" where
  "tcp_send = ndjson_send"

definition tcp_recv :: "(string \<Rightarrow> pyfloat) \<Rightarrow> pipe \<Rightarrow> (t_exn + pyval) option \<times> pipe" where
  "tcp_recv = ndjson_recv"

section \<open>In-memory pair\<close>

datatype side = Host | Runner

fun other :: "side \<Rightarrow> side" where
  "other Host = Runner"
| "other Runner = Host"

text \<open>\<open>outbox s\<close> is what side \<open>s\<close> has sent and the other has not read; \<open>None\<close> is the end mark.\<close>

record mem_pair =
  outbox :: "side \<Rightarrow> pydict option list"
  alive :: "side \<Rightarrow> bool"
  capacity :: nat

definition make_pair :: "nat \<Rightarrow> mem_pair" where
  "make_pair maxsize = \<lparr>outbox = (\<lambda>s. []), alive = (\<lambda>s. True), capacity = maxsize\<rparr>"

definition mem_put :: "side \<Rightarrow> pydict option \<Rightarrow> mem_pair \<Rightarrow> mem_pair" where
  "mem_put s x p = p\<lparr>outbox := (outbox p)(s := outbox p s @ [x])\<rparr>"

definition mem_send :: "side \<Rightarrow> pydict \<Rightarrow> mem_pair \<Rightarrow> (t_exn + unit) option \<times> mem_pair" where
  "mem_send s frame p =
     (if \<not> alive p s then (Some (Inl TransportClosed), p)
      else if capacity p > 0 \<and> length (outbox p s) \<ge> capacity p then (None, p)
      else (Some (Inr ()), mem_put s (Some frame) p))"

definition mem_recv :: "side \<Rightarrow> mem_pair \<Rightarrow> (t_exn + pydict) option \<times> mem_pair" where
  "mem_recv s p = (case outbox p (other s) of
     [] \<Rightarrow> (None, p)
   | Some frame # q \<Rightarrow> (Some (Inr frame), p\<lparr>outbox := (outbox p)(other s := q)\<rparr>)
   | None # q \<Rightarrow> (Some (Inl TransportClosed), p\<lparr>outbox := (outbox p)(other s := q), alive := (alive p)(s := False)\<rparr>))"

text \<open>Closing marks the end on the own queue and then closes the peer, which does the same.\<close>

definition close_end :: "side \<Rightarrow> mem_pair \<Rightarrow> mem_pair" where
  "close_end s p = mem_put s None (p\<lparr>alive := (alive p)(s := False)\<rparr>)"

definition mem_close :: "side \<Rightarrow> mem_pair \<Rightarrow> mem_pair" where
  "mem_close s p =
     (if \<not> alive p s then p
      else (let p1 = close_end s p in if alive p1 (other s) then close_end (other s) p1 else p1))"

section \<open>What a transport promises\<close>

datatype got = Frame pydict | Wait | Fail t_exn

datatype action = Send pydict | Arrive nat | Recv | HangUp

fun transport_run ::
    "(pydict \<Rightarrow> 's \<Rightarrow> bool \<times> 's) \<Rightarrow> (nat \<Rightarrow> 's \<Rightarrow> 's) \<Rightarrow> ('s \<Rightarrow> got \<times> 's) \<Rightarrow> ('s \<Rightarrow> 's) \<Rightarrow> action list \<Rightarrow>
     's \<times> pydict list \<times> pydict list \<Rightarrow> 's \<times> pydict list \<times> pydict list" where
  "transport_run put move get hang [] st = st"
| "transport_run put move get hang (Send f # as) (s, out, inp) =
     (case put f s of (ok, s') \<Rightarrow> transport_run put move get hang as (s', if ok then out @ [f] else out, inp))"
| "transport_run put move get hang (Arrive n # as) (s, out, inp) = transport_run put move get hang as (move n s, out, inp)"
| "transport_run put move get hang (Recv # as) (s, out, inp) =
     (case get s of
        (Frame f, s') \<Rightarrow> transport_run put move get hang as (s', out, inp @ [f])
      | (_, s') \<Rightarrow> transport_run put move get hang as (s', out, inp))"
| "transport_run put move get hang (HangUp # as) (s, out, inp) = transport_run put move get hang as (hang s, out, inp)"

text \<open>
  The contract of \<open>SessionTransport\<close>: \<open>view\<close> are the frames accepted from the sender and not yet
  handed to the receiver.
\<close>

locale session_transport =
  fixes put :: "pydict \<Rightarrow> 's \<Rightarrow> bool \<times> 's"
    and move :: "nat \<Rightarrow> 's \<Rightarrow> 's"
    and get :: "'s \<Rightarrow> got \<times> 's"
    and hang :: "'s \<Rightarrow> 's"
    and view :: "'s \<Rightarrow> pydict list"
    and good :: "'s \<Rightarrow> bool"
    and fits :: "pydict \<Rightarrow> bool"
    and arrived :: "'s \<Rightarrow> bool"
  assumes put_law: "good s \<Longrightarrow> fits f \<Longrightarrow> good (snd (put f s)) \<and> view (snd (put f s)) = view s @ (if fst (put f s) then [f] else [])"
    and move_law: "good s \<Longrightarrow> good (move n s) \<and> view (move n s) = view s"
    and hang_law: "good s \<Longrightarrow> good (hang s) \<and> view (hang s) = view s"
    and get_law: "good s \<Longrightarrow> good (snd (get s)) \<and>
      (case fst (get s) of
         Frame f \<Rightarrow> view s = f # view (snd (get s))
       | Wait \<Rightarrow> view (snd (get s)) = view s
       | Fail e \<Rightarrow> view s = [] \<and> view (snd (get s)) = [])"
    and get_arrived: "good s \<Longrightarrow> arrived s \<Longrightarrow> view s \<noteq> [] \<Longrightarrow> (\<exists>f. fst (get s) = Frame f) \<and> arrived (snd (get s))"
begin

lemma run_conserves:
  assumes "good s" "\<And>f. Send f \<in> set as \<Longrightarrow> fits f" "out = inp @ view s"
    and "transport_run put move get hang as (s, out, inp) = (s', out', inp')"
  shows "good s' \<and> out' = inp' @ view s'"
  using assms
proof (induction as arbitrary: s out inp)
  case (Cons a as)
  have fits: "\<And>f. Send f \<in> set as \<Longrightarrow> fits f"
    using Cons.prems(2) by simp
  show ?case
  proof (cases a)
    case (Send f)
    have "fits f"
      using Cons.prems(2) Send by simp
    then show ?thesis
      using put_law [OF Cons.prems(1), of f] Cons.IH [OF _ fits, of "snd (put f s)"] Cons.prems(3,4) Send
      by (cases "put f s") (auto split: if_splits)
  next
    case (Arrive n)
    then show ?thesis
      using move_law [OF Cons.prems(1), of n] Cons.IH [OF _ fits, of "move n s"] Cons.prems(3,4) by simp
  next
    case Recv
    obtain g s1 where g: "get s = (g, s1)"
      by fastforce
    show ?thesis
    proof (cases g)
      case (Frame f)
      then show ?thesis
        using get_law [OF Cons.prems(1)] Cons.IH [OF _ fits, of s1 out "inp @ [f]"] Cons.prems(3,4) Recv by (simp add: g)
    qed (use get_law [OF Cons.prems(1)] Cons.IH [OF _ fits, of s1 out inp] Cons.prems(3,4) Recv g in auto)
  next
    case HangUp
    then show ?thesis
      using hang_law [OF Cons.prems(1)] Cons.IH [OF _ fits, of "hang s"] Cons.prems(3,4) by simp
  qed
qed simp

lemma run_drains:
  "good s \<Longrightarrow> arrived s \<Longrightarrow> \<exists>s'. transport_run put move get hang (replicate (length (view s)) Recv) (s, out, inp) = (s', out, inp @ view s)"
proof (induction "view s" arbitrary: s inp)
  case (Cons f fs)
  obtain g s1 where g: "get s = (g, s1)"
    by fastforce
  have "view s \<noteq> []"
    by (simp add: Cons.hyps(2) [symmetric])
  then have "\<exists>f. g = Frame f" "arrived s1"
    using get_arrived [OF Cons.prems] by (auto simp: g)
  then have "g = Frame f" "good s1" "view s1 = fs" "arrived s1"
    using get_law [OF Cons.prems(1)] Cons.hyps(2) by (auto simp: g)
  then show ?case
    using Cons.hyps(1) [of s1 "inp @ [f]"] Cons.hyps(2) [symmetric] g by auto
qed simp

end

section \<open>The sockets keep the contract\<close>

abbreviation line_of :: "(pyfloat \<Rightarrow> string) \<Rightarrow> pydict \<Rightarrow> string" where
  "line_of fr f \<equiv> json_text fr [] (PDict f) @ [newline]"

definition fits :: "(pyfloat \<Rightarrow> string) \<Rightarrow> (string \<Rightarrow> pyfloat) \<Rightarrow> pydict \<Rightarrow> bool" where
  "fits fr fp f = (json_clean (PDict f) \<and> floats_ok fr fp (PDict f) \<and> length (json_text fr [] (PDict f)) \<le> READER_LIMIT)"

lemma dropWhile_shorter: "dropWhile P s = c # r \<Longrightarrow> length r < length s"
  by (metis Suc_le_eq length_Cons length_dropWhile_le)

function frames_in :: "(string \<Rightarrow> pyfloat) \<Rightarrow> string \<Rightarrow> pydict list" where
  "frames_in fp s = (case dropWhile (\<lambda>c. c \<noteq> newline) s of
     [] \<Rightarrow> []
   | _ # r \<Rightarrow> (case json_loads fp (takeWhile (\<lambda>c. c \<noteq> newline) s) of Some (PDict d) \<Rightarrow> d # frames_in fp r | _ \<Rightarrow> frames_in fp r))"
  by pat_completeness auto
termination
  by (relation "measure (length \<circ> snd)") (auto dest: dropWhile_shorter)

declare frames_in.simps [simp del]

lemma utf8_ascii: "list_all (\<lambda>c. of_char c < (128 :: nat)) s \<Longrightarrow> utf8 s = Some s"
  by (induction s) auto

lemma read_printed:
  assumes "json_clean v" "floats_ok fr fp v"
  shows "read_json fp (json_text fr [] v @ [newline]) = Some v"
proof -
  have "list_all (\<lambda>c. of_char c < (128 :: nat)) (json_text fr [] v @ [newline])"
    using text_printable(1) [of "[]" fr fp v] assms(2) by (auto simp: list_all_iff printable_def)
  then show ?thesis
    using loads_text [of "[]" v fr fp "[newline]"] assms by (simp add: read_json_def utf8_ascii)
qed

lemma fits_line:
  assumes "fits fr fp f"
  shows "newline \<notin> set (json_text fr [] (PDict f))" "json_loads fp (json_text fr [] (PDict f)) = Some (PDict f)"
    "read_json fp (line_of fr f) = Some (PDict f)" "json_dumps fr [] (PDict f) = Inr (json_text fr [] (PDict f))"
proof -
  let ?t = "json_text fr [] (PDict f)"
  have p: "list_all printable ?t"
    using assms text_printable(1) [of "[]" fr fp "PDict f"] by (simp add: fits_def)
  show "newline \<notin> set ?t"
    using p by (rule printable_line)
  show "json_loads fp ?t = Some (PDict f)"
    using loads_text [of "[]" "PDict f" fr fp "[]"] assms by (simp add: fits_def)
  show "read_json fp (line_of fr f) = Some (PDict f)"
    using read_printed [of "PDict f" fr fp] assms by (simp add: fits_def del: json_text.simps)
  have "(json_clean v \<longrightarrow> keys_ok v)" "(json_clean_list xs \<longrightarrow> keys_ok_list xs)" "(json_clean_dict d \<longrightarrow> keys_ok_dict d)" for v xs d
    by (induction v and xs and d rule: json_clean_json_clean_list_json_clean_dict.induct) auto
  then show "json_dumps fr [] (PDict f) = Inr ?t"
    using assms by (simp add: json_dumps_def fits_def)
qed

lemma frames_in_Nil [simp]: "frames_in fp [] = []"
  by (simp add: frames_in.simps [of fp "[]"])

lemma frames_in_Cons:
  assumes "fits fr fp f"
  shows "frames_in fp (line_of fr f @ r) = f # frames_in fp r"
proof -
  have "takeWhile (\<lambda>c. c \<noteq> newline) (line_of fr f @ r) = json_text fr [] (PDict f)"
    "dropWhile (\<lambda>c. c \<noteq> newline) (line_of fr f @ r) = newline # r"
    using fits_line(1) [OF assms] by (auto simp: takeWhile_append dropWhile_append)
  then show ?thesis
    using fits_line(2) [OF assms] by (subst frames_in.simps) (simp del: json_text.simps)
qed

definition pipe_good :: "(pyfloat \<Rightarrow> string) \<Rightarrow> (string \<Rightarrow> pyfloat) \<Rightarrow> pipe \<Rightarrow> bool" where
  "pipe_good fr fp p = (\<exists>fs. list_all (fits fr fp) fs \<and> buf p @ wire p = concat (map (line_of fr) fs))"

definition pipe_view :: "(string \<Rightarrow> pyfloat) \<Rightarrow> pipe \<Rightarrow> pydict list" where
  "pipe_view fp p = frames_in fp (buf p @ wire p)"

definition pipe_put :: "(pyfloat \<Rightarrow> string) \<Rightarrow> pydict \<Rightarrow> pipe \<Rightarrow> bool \<times> pipe" where
  "pipe_put fr f p = (case unix_send fr False f p of (r, p') \<Rightarrow> (r = Inr (), p'))"

definition pipe_get :: "(string \<Rightarrow> pyfloat) \<Rightarrow> pipe \<Rightarrow> got \<times> pipe" where
  "pipe_get fp p = (case unix_recv fp p of
     (None, p') \<Rightarrow> (Wait, p')
   | (Some (Inr (PDict f)), p') \<Rightarrow> (Frame f, p')
   | (Some (Inl e), p') \<Rightarrow> (Fail e, p')
   | (Some (Inr _), p') \<Rightarrow> (Fail TransportClosed, p'))"

lemma frames_in_lines: "list_all (fits fr fp) fs \<Longrightarrow> frames_in fp (concat (map (line_of fr) fs)) = fs"
  by (induction fs) (use frames_in_Cons in \<open>fastforce+\<close>)

text \<open>The buffer holds either the whole first line or only a part of it.\<close>

lemma buffer_cases:
  assumes "b @ w = t @ newline # r" "newline \<notin> set t"
  obtains (whole) b' where "b = t @ newline # b'" "b' @ w = r" | (part) u where "t = b @ u" "w = u @ newline # r"
proof -
  from assms(1) consider us where "b = t @ us" "us @ w = newline # r" | us where "b @ us = t" "w = us @ newline # r"
    by (auto simp: append_eq_append_conv2)
  then show thesis
  proof cases
    case (1 us)
    then show thesis
      using whole part [of "[]"] by (cases us) auto
  next
    case (2 us)
    then show thesis
      using part [of us] by simp
  qed
qed

lemma pipe_get_cases:
  assumes "fits fr fp f" "buf p @ wire p = line_of fr f @ r"
  obtains (frame) b where "pipe_get fp p = (Frame f, p\<lparr>buf := b\<rparr>)" "b @ wire p = r" "buf p = line_of fr f @ b"
    | (wait) "pipe_get fp p = (Wait, p)" "wire p \<noteq> []"
proof -
  let ?t = "json_text fr [] (PDict f)"
  have "buf p @ wire p = ?t @ newline # r"
    using assms(2) by simp
  then consider (whole) b where "buf p = ?t @ newline # b" "b @ wire p = r" | (part) u where "?t = buf p @ u" "wire p = u @ newline # r"
    by (rule buffer_cases [OF _ fits_line(1) [OF assms(1)]])
  then show thesis
  proof cases
    case (whole b)
    have n: "takeWhile (\<lambda>c. c \<noteq> newline) (buf p) = ?t"
      using whole(1) fits_line(1) [OF assms(1)] by (auto simp: takeWhile_append)
    have "readline p = (Some (Inr (line_of fr f)), p\<lparr>buf := b\<rparr>)"
      using assms(1) unfolding readline_def n by (simp add: whole(1) fits_def)
    then have "pipe_get fp p = (Frame f, p\<lparr>buf := b\<rparr>)"
      using fits_line(3) [OF assms(1)] by (simp add: pipe_get_def unix_recv_def ndjson_recv_def)
    then show thesis
      using frame whole by simp
  next
    case (part u)
    have n: "takeWhile (\<lambda>c. c \<noteq> newline) (buf p) = buf p"
      using part(1) fits_line(1) [OF assms(1)] by (auto simp: takeWhile_eq_all_conv)
    have "length (buf p) \<le> READER_LIMIT"
      using assms(1) arg_cong [OF part(1), of length] by (simp add: fits_def del: json_text.simps)
    then have "readline p = (None, p)"
      using part(2) unfolding readline_def n by simp
    then have "pipe_get fp p = (Wait, p)"
      by (simp add: pipe_get_def unix_recv_def ndjson_recv_def)
    then show thesis
      using wait part(2) by simp
  qed
qed

lemma pipe_goodE:
  assumes "pipe_good fr fp p"
  obtains (empty) "buf p = []" "wire p = []" "pipe_view fp p = []"
    | (first) f r where "fits fr fp f" "buf p @ wire p = line_of fr f @ r" "pipe_view fp p = f # frames_in fp r"
        "\<exists>fs. list_all (fits fr fp) fs \<and> r = concat (map (line_of fr) fs)"
proof -
  obtain fs where fs: "list_all (fits fr fp) fs" "buf p @ wire p = concat (map (line_of fr) fs)"
    using assms by (auto simp: pipe_good_def)
  show thesis
  proof (cases fs)
    case Nil
    then show thesis
      using fs(2) empty by (simp add: pipe_view_def)
  next
    case (Cons f gs)
    have "buf p @ wire p = line_of fr f @ concat (map (line_of fr) gs)"
      using fs(2) Cons by (simp del: json_text.simps)
    moreover from this have "pipe_view fp p = f # frames_in fp (concat (map (line_of fr) gs))"
      using frames_in_Cons fs(1) Cons by (simp add: pipe_view_def del: json_text.simps append_assoc)
    ultimately show thesis
      using first [of f "concat (map (line_of fr) gs)"] fs(1) Cons by auto
  qed
qed

interpretation unix: session_transport "pipe_put fr" arrive "pipe_get fp" ndjson_close "pipe_view fp" "pipe_good fr fp" "fits fr fp" "\<lambda>p. wire p = []"
proof
  fix p f
  assume g: "pipe_good fr fp p" and f: "fits fr fp f"
  obtain fs where fs: "list_all (fits fr fp) fs" "buf p @ wire p = concat (map (line_of fr) fs)"
    using g by (auto simp: pipe_good_def)
  show "pipe_good fr fp (snd (pipe_put fr f p)) \<and>
      pipe_view fp (snd (pipe_put fr f p)) = pipe_view fp p @ (if fst (pipe_put fr f p) then [f] else [])"
  proof (cases "s_closing p")
    case True
    then show ?thesis
      using g by (simp add: pipe_put_def unix_send_def ndjson_send_def)
  next
    case False
    let ?p = "p\<lparr>wire := wire p @ line_of fr f\<rparr>"
    have put: "pipe_put fr f p = (True, ?p)"
      using False fits_line(4) [OF f] by (simp add: pipe_put_def unix_send_def ndjson_send_def del: json_text.simps)
    have fs': "list_all (fits fr fp) (fs @ [f])" "buf ?p @ wire ?p = concat (map (line_of fr) (fs @ [f]))"
      using fs f by (simp_all add: append_assoc [symmetric] del: append_assoc json_text.simps)
    then have "pipe_good fr fp ?p"
      unfolding pipe_good_def by blast
    moreover have "pipe_view fp ?p = fs @ [f]" "pipe_view fp p = fs"
      using frames_in_lines [OF fs'(1)] frames_in_lines [OF fs(1)] fs(2) fs'(2) by (simp_all only: pipe_view_def)
    ultimately show ?thesis
      by (simp add: put del: json_text.simps)
  qed
next
  fix p n
  assume "pipe_good fr fp p"
  then show "pipe_good fr fp (arrive n p) \<and> pipe_view fp (arrive n p) = pipe_view fp p"
    by (simp add: pipe_good_def pipe_view_def arrive_def)
next
  fix p
  assume "pipe_good fr fp p"
  then show "pipe_good fr fp (ndjson_close p) \<and> pipe_view fp (ndjson_close p) = pipe_view fp p"
    by (simp add: pipe_good_def pipe_view_def ndjson_close_def)
next
  fix p
  assume g: "pipe_good fr fp p"
  then show "pipe_good fr fp (snd (pipe_get fp p)) \<and>
      (case fst (pipe_get fp p) of Frame f \<Rightarrow> pipe_view fp p = f # pipe_view fp (snd (pipe_get fp p))
         | Wait \<Rightarrow> pipe_view fp (snd (pipe_get fp p)) = pipe_view fp p
         | Fail e \<Rightarrow> pipe_view fp p = [] \<and> pipe_view fp (snd (pipe_get fp p)) = [])"
  proof (cases rule: pipe_goodE)
    case empty
    then show ?thesis
      using g by (simp add: pipe_get_def unix_recv_def ndjson_recv_def readline_def pipe_good_def pipe_view_def)
  next
    case (first f r)
    from first(1,2) show ?thesis
    proof (cases rule: pipe_get_cases)
      case (frame b)
      then show ?thesis
        using first(3,4) by (simp add: pipe_good_def pipe_view_def)
    next
      case wait
      then show ?thesis
        using g by simp
    qed
  qed
next
  fix p
  assume g: "pipe_good fr fp p" and w: "wire p = []" and v: "pipe_view fp p \<noteq> []"
  from g show "(\<exists>f. fst (pipe_get fp p) = Frame f) \<and> wire (snd (pipe_get fp p)) = []"
  proof (cases rule: pipe_goodE)
    case empty
    then show ?thesis
      using v by simp
  next
    case (first f r)
    from first(1,2) show ?thesis
      by (cases rule: pipe_get_cases) (use w in auto)
  qed
qed

definition mem_good :: "mem_pair \<Rightarrow> bool" where
  "mem_good p = (\<exists>fs e. outbox p Host = map Some fs @ e \<and> (e = [] \<or> e = [None] \<and> \<not> alive p Host))"

definition mem_view :: "mem_pair \<Rightarrow> pydict list" where
  "mem_view p = List.map_filter id (outbox p Host)"

definition mem_sent :: "pydict \<Rightarrow> mem_pair \<Rightarrow> bool \<times> mem_pair" where
  "mem_sent f p = (case mem_send Host f p of (r, p') \<Rightarrow> (r = Some (Inr ()), p'))"

definition mem_get :: "mem_pair \<Rightarrow> got \<times> mem_pair" where
  "mem_get p = (case mem_recv Runner p of
     (None, p') \<Rightarrow> (Wait, p')
   | (Some (Inl e), p') \<Rightarrow> (Fail e, p')
   | (Some (Inr f), p') \<Rightarrow> (Frame f, p'))"

lemma map_filter_Some [simp]:
  "List.map_filter id (map Some fs @ e) = fs @ List.map_filter id e" "List.map_filter id (map Some fs) = fs"
  by (induction fs) (simp_all add: List.map_filter_simps)

lemma mem_goodI: "outbox p Host = map Some fs @ e \<Longrightarrow> e = [] \<or> e = [None] \<and> \<not> alive p Host \<Longrightarrow> mem_good p"
  unfolding mem_good_def by blast

interpretation mem: session_transport mem_sent "\<lambda>n p. p" mem_get "mem_close Host" mem_view mem_good "\<lambda>f. True" "\<lambda>p. True"
proof
  fix p f
  assume "mem_good p"
  then obtain fs e where fs: "outbox p Host = map Some fs @ e" "e = [] \<or> e = [None] \<and> \<not> alive p Host"
    by (auto simp: mem_good_def)
  show "mem_good (snd (mem_sent f p)) \<and> mem_view (snd (mem_sent f p)) = mem_view p @ (if fst (mem_sent f p) then [f] else [])"
  proof (cases "fst (mem_sent f p)")
    case True
    then have "alive p Host" "snd (mem_sent f p) = mem_put Host (Some f) p"
      by (auto simp: mem_sent_def mem_send_def split: if_splits)
    then show ?thesis
      using True fs mem_goodI [of "mem_put Host (Some f) p" "fs @ [f]" "[]"]
      by (auto simp: mem_put_def mem_view_def List.map_filter_simps)
  next
    case False
    then have "snd (mem_sent f p) = p"
      by (auto simp: mem_sent_def mem_send_def split: if_splits)
    then show ?thesis
      using False fs mem_goodI by auto
  qed
next
  fix p
  assume "mem_good p"
  then obtain fs e where fs: "outbox p Host = map Some fs @ e" "e = [] \<or> e = [None] \<and> \<not> alive p Host"
    by (auto simp: mem_good_def)
  then show "mem_good (mem_close Host p) \<and> mem_view (mem_close Host p) = mem_view p"
    using mem_goodI [of "mem_close Host p" fs "[None]"] mem_goodI [of p fs e]
    by (auto simp: mem_close_def close_end_def mem_put_def mem_view_def Let_def List.map_filter_simps)
next
  fix p
  assume "mem_good p"
  then obtain fs e where fs: "outbox p Host = map Some fs @ e" "e = [] \<or> e = [None] \<and> \<not> alive p Host"
    by (auto simp: mem_good_def)
  show "mem_good (snd (mem_get p)) \<and>
      (case fst (mem_get p) of Frame f \<Rightarrow> mem_view p = f # mem_view (snd (mem_get p))
         | Wait \<Rightarrow> mem_view (snd (mem_get p)) = mem_view p
         | Fail e \<Rightarrow> mem_view p = [] \<and> mem_view (snd (mem_get p)) = [])"
  proof (cases fs)
    case (Cons g gs)
    then show ?thesis
      using fs mem_goodI [of "snd (mem_get p)" gs e]
      by (auto simp: mem_get_def mem_recv_def mem_view_def List.map_filter_simps)
  next
    case Nil
    then show ?thesis
      using fs mem_goodI [of "snd (mem_get p)" "[]" "[]"]
      by (auto simp: mem_get_def mem_recv_def mem_view_def List.map_filter_simps)
  qed
next
  fix p
  assume "mem_good p" and v: "mem_view p \<noteq> []"
  then obtain fs e where fs: "outbox p Host = map Some fs @ e" "e = [] \<or> e = [None] \<and> \<not> alive p Host"
    by (auto simp: mem_good_def)
  then show "(\<exists>f. fst (mem_get p) = Frame f) \<and> True"
    using v by (cases fs) (auto simp: mem_view_def mem_get_def mem_recv_def List.map_filter_simps)
qed simp_all

section \<open>Streams lose nothing and keep the order\<close>

lemma transport_run_append:
  "transport_run put move get hang (as @ bs) st = transport_run put move get hang bs (transport_run put move get hang as st)"
proof (induction as arbitrary: st)
  case (Cons a as)
  then show ?case
    by (cases st; cases a) (auto split: prod.splits got.splits)
qed simp

lemma new_pipe_good: "pipe_good fr fp new_pipe" "pipe_view fp new_pipe = []"
  unfolding pipe_good_def by (rule exI [of _ "[]"]) (simp_all add: new_pipe_def pipe_view_def)


definition demo_frames :: "pydict list" where
  "demo_frames = [[(PStr ''type'', PStr ''ping''), (PStr ''n'', PInt (-1))], [(PStr ''a'', PList [PNone, PBool True, PStr [CHR 0x0A, CHR 0x22]])]]"

lemma demo_frames_length: "length demo_frames = 2"
  by (simp add: demo_frames_def)

definition demo_actions :: "action list" where
  "demo_actions = [Send (demo_frames ! 0), Arrive 7, Send (demo_frames ! 1), HangUp]"


text \<open>The in-memory pair keeps the same contract, with bounded queues and no bytes on the way.\<close>

lemma memory_stream_exact:
  assumes "transport_run mem_sent (\<lambda>n p. p) mem_get (mem_close Host) as (make_pair n, [], []) = (p, out, inp)"
  shows "out = inp @ mem_view p"
proof -
  have "mem_good (make_pair n)" "mem_view (make_pair n) = []"
    using mem_goodI [of "make_pair n" "[]" "[]"] by (simp_all add: make_pair_def mem_view_def List.map_filter_simps)
  then show ?thesis
    using mem.run_conserves [of "make_pair n" as "[]" "[]" p out inp] assms by simp
qed

text \<open>
  After the end of the stream a socket keeps reporting that the transport is closed; the in-memory
  transport reports it once and then waits forever.
\<close>

lemma second_recv_after_close:
  "fst (ndjson_recv fp (snd (ndjson_recv fp (ndjson_close new_pipe)))) = Some (Inl TransportClosed)"
  "fst (mem_recv Runner (mem_close Host (make_pair 5))) = Some (Inl TransportClosed)"
  "fst (mem_recv Runner (snd (mem_recv Runner (mem_close Host (make_pair 5))))) = None"
  by (simp_all add: ndjson_recv_def readline_def ndjson_close_def new_pipe_def mem_recv_def mem_close_def close_end_def mem_put_def make_pair_def Let_def)

text \<open>A line above the limit is dropped with an error that is not a closed transport, and reading goes on behind it.\<close>

lemma oversize_line_raises:
  assumes "newline \<notin> set t" "length t > READER_LIMIT" "buf p = t @ newline # r"
  shows "ndjson_recv fp p = (Some (Inl LineTooLong), p\<lparr>buf := r\<rparr>)"
proof -
  have n: "takeWhile (\<lambda>c. c \<noteq> newline) (buf p) = t"
    using assms(1,3) by (auto simp: takeWhile_append)
  show ?thesis
    using assms(2,3) unfolding ndjson_recv_def readline_def n by simp
qed

section \<open>Token handshake\<close>

text \<open>No floats occur in the handshake, so their text does not matter.\<close>

definition line_text :: "pydict \<Rightarrow> string" where
  "line_text d = json_text (\<lambda>f. []) [] (PDict d) @ [newline]"

definition auth_frame :: "string \<Rightarrow> pydict" where
  "auth_frame token = [(PStr ''v'', PInt 1), (PStr ''type'', PStr ''auth''), (PStr ''token'', PStr token)]"

definition ack_frame :: "bool \<Rightarrow> pydict" where
  "ack_frame ok = [(PStr ''v'', PInt 1), (PStr ''type'', PStr ''auth.ack''), (PStr ''ok'', PBool ok)]"

text \<open>
  \<open>_on_accept\<close> of the server with the first line it read (\<open>None\<close> when that timed out or failed):
  the reply it wrote and whether the connection became a transport. \<open>flushed\<close> says whether the
  reply could be written.
\<close>

definition tcp_on_accept :: "(string \<Rightarrow> pyfloat) \<Rightarrow> string \<Rightarrow> bool \<Rightarrow> string option \<Rightarrow> string option \<times> bool" where
  "tcp_on_accept fp expected flushed line = (case line of
     None \<Rightarrow> (None, False)
   | Some l \<Rightarrow>
       if l = [] then (None, False)
       else (case read_json fp l of
           None \<Rightarrow> (None, False)
         | Some payload \<Rightarrow>
             (let ok = (case payload of PDict d \<Rightarrow> dget d ''type'' = PStr ''auth'' \<and> dget d ''token'' = PStr expected | _ \<Rightarrow> False)
              in (Some (line_text (ack_frame ok)), ok \<and> flushed))))"

definition tcp_listen :: "string \<Rightarrow> py_exn + string" where
  "tcp_listen expected = (if expected = [] then Inl ValueError else Inr expected)"

text \<open>\<open>connect\<close> once the socket is open: what the server answered decides.\<close>

datatype handshake = Connected | AuthFailed

definition tcp_connect :: "(string \<Rightarrow> pyfloat) \<Rightarrow> string option \<Rightarrow> handshake" where
  "tcp_connect fp reply = (case reply of
     None \<Rightarrow> AuthFailed
   | Some l \<Rightarrow>
       if l = [] then AuthFailed
       else (case read_json fp l of
           Some (PDict d) \<Rightarrow> if dget d ''type'' = PStr ''auth.ack'' \<and> py_truthy (dget d ''ok'') then Connected else AuthFailed
         | _ \<Rightarrow> AuthFailed))"

definition tcp_handshake :: "(string \<Rightarrow> pyfloat) \<Rightarrow> string \<Rightarrow> string \<Rightarrow> handshake \<times> bool" where
  "tcp_handshake fp expected token =
     (case tcp_on_accept fp expected True (Some (line_text (auth_frame token))) of (reply, accepted) \<Rightarrow> (tcp_connect fp reply, accepted))"

lemma read_handshake:
  "read_json fp (line_text (auth_frame t)) = Some (PDict (auth_frame t))" "read_json fp (line_text (ack_frame ok)) = Some (PDict (ack_frame ok))"
  unfolding line_text_def by (rule read_printed; simp add: auth_frame_def ack_frame_def)+

text \<open>
  Only the token opens a connection: the server turns a connection into a transport exactly if its
  first line is a JSON object of type \<open>auth\<close> with the expected token (whatever else arrives is
  closed), and a client with some token gets a transport exactly if it is the expected one, which is
  exactly when the server has one too.
\<close>

lemma handshake_exact:
  "(snd (tcp_on_accept fp expected flushed line) \<longleftrightarrow> flushed \<and>
      (\<exists>l d. line = Some l \<and> l \<noteq> [] \<and> read_json fp l = Some (PDict d) \<and> dget d ''type'' = PStr ''auth'' \<and> dget d ''token'' = PStr expected)) \<and>
   tcp_handshake fp expected token = (if token = expected then (Connected, True) else (AuthFailed, False))"
proof
  show "snd (tcp_on_accept fp expected flushed line) \<longleftrightarrow> flushed \<and>
      (\<exists>l d. line = Some l \<and> l \<noteq> [] \<and> read_json fp l = Some (PDict d) \<and> dget d ''type'' = PStr ''auth'' \<and> dget d ''token'' = PStr expected)"
    by (auto simp: tcp_on_accept_def Let_def split: option.splits pyval.splits)
  have "line_text d \<noteq> []" for d
    by (simp add: line_text_def)
  then show "tcp_handshake fp expected token = (if token = expected then (Connected, True) else (AuthFailed, False))"
    by (auto simp: tcp_handshake_def tcp_on_accept_def tcp_connect_def read_handshake Let_def)
       (auto simp: auth_frame_def ack_frame_def dget_def)
qed

end
