(* ===== verification/Egress_Proxy.thy ===== *)
theory Egress_Proxy
  imports Transports
begin

text \<open>
  The forward proxy through which containers reach the outside (\<open>proxy/server.py\<close>) with its audit
  log (\<open>proxy/audit.py\<close>). A connection is the text the client sent; handling it is the sequence of
  what the proxy does, in order. Whether an upstream host can be reached is a parameter.
\<close>

section \<open>Requests\<close>

datatype proxy_act =
    Reply nat string
  | AuditAllow string string int
  | AuditDeny string string string "int option"
  | Connect string int
  | Forward string
  | Tunnel

datatype reach = Open | Unreachable string | Raises py_exn

datatype outcome = Done | Dropped | Failed py_exn

definition ALLOWED_HOSTS_DEFAULT :: "string set" where
  "ALLOWED_HOSTS_DEFAULT = {''api.anthropic.com''}"

definition HEADER_LIMIT :: nat where
  "HEADER_LIMIT = 8 * 1024"

abbreviation CRLF :: string where
  "CRLF \<equiv> [CHR 0x0D, CHR 0x0A]"

text \<open>
  \<open>readuntil\<close>: the text through the first line break and the rest; \<open>None\<close> when the read raises, because the
  client stops before, or because the break lies beyond the stream's buffer limit.
\<close>

definition STREAM_LIMIT :: nat where
  "STREAM_LIMIT = 64 * 1024"

fun to_crlf :: "string \<Rightarrow> (string \<times> string) option" where
  "to_crlf (a # b # s) = (if a = CHR 0x0D \<and> b = CHR 0x0A then Some (CRLF, s) else map_option (apfst ((#) a)) (to_crlf (b # s)))"
| "to_crlf _ = None"

definition read_line :: "string \<Rightarrow> (string \<times> string) option" where
  "read_line s = (case to_crlf s of Some (l, r) \<Rightarrow> if length l > STREAM_LIMIT + 2 then None else Some (l, r) | None \<Rightarrow> None)"

definition byte_space :: "char \<Rightarrow> bool" where
  "byte_space c = (c \<in> {CHR '' '', CHR 0x09, CHR 0x0A, CHR 0x0D, CHR 0x0B, CHR 0x0C})"

definition rstrip_of :: "(char \<Rightarrow> bool) \<Rightarrow> string \<Rightarrow> string" where
  "rstrip_of P s = rev (dropWhile P (rev s))"

definition byte_strip :: "string \<Rightarrow> string" where
  "byte_strip s = rstrip_of byte_space (dropWhile byte_space s)"

text \<open>\<open>partition\<close>: what is before the first separator, whether it occurs, and what is behind it.\<close>

definition before :: "char \<Rightarrow> string \<Rightarrow> string" where
  "before c s = takeWhile (\<lambda>x. x \<noteq> c) s"

definition behind :: "char \<Rightarrow> string \<Rightarrow> string" where
  "behind c s = drop (Suc (length (before c s))) s"

text \<open>\<open>split(b" ", 2)\<close> when it gives three parts.\<close>

definition split3 :: "string \<Rightarrow> (string \<times> string \<times> string) option" where
  "split3 s = (let r = behind (CHR '' '') s in
     if CHR '' '' \<in> set s \<and> CHR '' '' \<in> set r then Some (before (CHR '' '') s, before (CHR '' '') r, behind (CHR '' '') r) else None)"

lemma to_crlf_parts: "to_crlf s = Some (l, r) \<Longrightarrow> s = l @ r \<and> l \<noteq> []"
proof (induction s arbitrary: l r rule: to_crlf.induct)
  case (1 a b s)
  then show ?case by (cases "a = CHR 0x0D \<and> b = CHR 0x0A") (auto simp: apfst_def map_prod_def)
qed auto

lemma read_line_length: "read_line s = Some (l, r) \<Longrightarrow> length r < length s"
  by (auto simp: read_line_def dest!: to_crlf_parts split: option.splits if_splits)

function read_headers :: "nat \<Rightarrow> (string, string) od \<Rightarrow> string \<Rightarrow> (py_exn + (string, string) od \<times> string) option" where
  "read_headers seen hs s = (case read_line s of
     None \<Rightarrow> None
   | Some (l, r) \<Rightarrow>
       if seen + length l > HEADER_LIMIT then Some (Inl ValueError)
       else if l = CRLF then Some (Inr (hs, r))
       else if CHR '':'' \<notin> set l then read_headers (seen + length l) hs r
       else read_headers (seen + length l) (AList.update (str_lower (byte_strip (before (CHR '':'') l))) (byte_strip (behind (CHR '':'') l)) hs) r)"
  by pat_completeness auto
termination
  by (relation "measure (length \<circ> snd \<circ> snd)") (auto dest: read_line_length)

declare read_headers.simps [simp del]

text \<open>\<open>decode(errors="replace")\<close>; the replacement character is written as a question mark.\<close>

definition decode_replace :: "string \<Rightarrow> string" where
  "decode_replace s = (case utf8 s of Some t \<Rightarrow> t | None \<Rightarrow> map (\<lambda>c. if of_char c < (128 :: nat) then c else CHR ''?'') s)"

definition session_of :: "(string, string) od \<Rightarrow> string" where
  "session_of hs = (case map_of hs ''x-relay-session-id'' of
     None \<Rightarrow> ''unknown''
   | Some v \<Rightarrow> if decode_replace v = [] then ''unknown'' else decode_replace v)"

section \<open>Handling a connection\<close>

definition handle_connect :: "string set \<Rightarrow> (string \<Rightarrow> int \<Rightarrow> reach) \<Rightarrow> string \<Rightarrow> string \<Rightarrow> proxy_act list \<times> outcome" where
  "handle_connect allowed upstream host_port sid =
     (let host = before (CHR '':'') host_port; port_str = behind (CHR '':'') host_port
      in case (if port_str = [] then Inr 443 else int_of_str port_str) of
           Inl e \<Rightarrow> if e = ValueError then ([Reply 400 ''Bad Request'', AuditDeny sid host ''bad_port'' None], Done) else ([], Failed e)
         | Inr port \<Rightarrow>
             if host \<notin> allowed then ([AuditDeny sid host ''host_not_in_whitelist'' (Some port), Reply 403 ''Forbidden''], Done)
             else (case upstream host port of
                 Open \<Rightarrow> ([Connect host port, AuditAllow sid host port, Reply 200 ''Connection Established'', Tunnel], Done)
               | Unreachable e \<Rightarrow> ([Connect host port, AuditDeny sid host (''upstream_unreachable:'' @ e) (Some port), Reply 502 ''Bad Gateway''], Done)
               | Raises e \<Rightarrow> ([Connect host port], Failed e)))"

definition forwarded_head :: "string \<Rightarrow> string \<Rightarrow> (string, string) od \<Rightarrow> string" where
  "forwarded_head meth path_q hs =
     meth @ '' /'' @ path_q @ '' HTTP/1.1'' @ CRLF @
     concat (map (\<lambda>(k, v). k @ '': '' @ v @ CRLF) (filter (\<lambda>(k, v). k \<notin> {''proxy-connection'', ''connection''}) hs)) @ CRLF"

definition handle_plain ::
    "string set \<Rightarrow> (string \<Rightarrow> int \<Rightarrow> reach) \<Rightarrow> string \<Rightarrow> string \<Rightarrow> (string, string) od \<Rightarrow> string \<Rightarrow> proxy_act list \<times> outcome" where
  "handle_plain allowed upstream meth target hs sid =
     (if \<not> starts_with ''http://'' target then ([Reply 400 ''Bad Request''], Done)
      else
        (let rest = drop 7 target; host_part = before (CHR ''/'') rest; path_q = behind (CHR ''/'') rest;
             host_str = before (CHR '':'') host_part; port_str = behind (CHR '':'') host_part
         in case (utf8 host_str, int_of_str (if port_str = [] then ''80'' else port_str)) of
              (None, _) \<Rightarrow> ([], Failed ValueError)
            | (Some host, Inl e) \<Rightarrow> ([], Failed e)
            | (Some host, Inr port) \<Rightarrow>
                if host \<notin> allowed then ([AuditDeny sid host ''host_not_in_whitelist'' (Some port), Reply 403 ''Forbidden''], Done)
                else (case upstream host port of
                    Open \<Rightarrow> ([AuditAllow sid host port, Connect host port, Forward (forwarded_head meth path_q hs), Tunnel], Done)
                  | Unreachable e \<Rightarrow> ([AuditAllow sid host port, Connect host port, Reply 502 ''Bad Gateway''], Done)
                  | Raises e \<Rightarrow> ([AuditAllow sid host port, Connect host port], Failed e))))"

definition handle :: "string set \<Rightarrow> (string \<Rightarrow> int \<Rightarrow> reach) \<Rightarrow> string \<Rightarrow> proxy_act list \<times> outcome" where
  "handle allowed upstream s = (case read_line s of
     None \<Rightarrow> ([], Dropped)
   | Some (l, r) \<Rightarrow> (case split3 (rstrip_of (\<lambda>c. c \<in> set CRLF) l) of
        None \<Rightarrow> ([Reply 400 ''Bad Request''], Done)
      | Some (meth, target, version) \<Rightarrow> (case read_headers 0 [] r of
           None \<Rightarrow> ([], Dropped)
         | Some (Inl e) \<Rightarrow> ([], Failed e)
         | Some (Inr (hs, sent)) \<Rightarrow>
             if meth = ''CONNECT'' then
               (case utf8 target of
                  None \<Rightarrow> ([], Failed ValueError)
                | Some host_port \<Rightarrow> handle_connect allowed upstream host_port (session_of hs))
             else handle_plain allowed upstream meth target hs (session_of hs))))"

text \<open>An entry of the audit log, as \<open>allow\<close> and \<open>deny\<close> build it and \<open>_write\<close> stamps it.\<close>

fun audit_entry :: "string \<Rightarrow> proxy_act \<Rightarrow> pyval list" where
  "audit_entry ts (AuditAllow sid host port) =
     [PDict [(PStr ''event'', PStr ''allow''), (PStr ''session_id'', PStr sid), (PStr ''host'', PStr host),
       (PStr ''port'', PInt port), (PStr ''ts'', PStr ts)]]"
| "audit_entry ts (AuditDeny sid host reason port) =
     [PDict ([(PStr ''event'', PStr ''deny''), (PStr ''session_id'', PStr sid), (PStr ''host'', PStr host),
        (PStr ''reason'', PStr reason)] @ (case port of Some p \<Rightarrow> [(PStr ''port'', PInt p)] | None \<Rightarrow> []) @ [(PStr ''ts'', PStr ts)])]"
| "audit_entry ts _ = []"

definition audit_of :: "string \<Rightarrow> proxy_act list \<Rightarrow> pyval list" where
  "audit_of ts acts = concat (map (audit_entry ts) acts)"

section \<open>Confinement\<close>

definition contacted :: "proxy_act list \<Rightarrow> (string \<times> int) set" where
  "contacted acts = {(h, p). Connect h p \<in> set acts}"

definition served :: "proxy_act list \<Rightarrow> bool" where
  "served acts = (Tunnel \<in> set acts \<or> Reply 200 ''Connection Established'' \<in> set acts \<or> (\<exists>t. Forward t \<in> set acts))"

text \<open>What one handled connection may show, whichever way it went.\<close>

definition confined :: "string set \<Rightarrow> (string \<Rightarrow> int \<Rightarrow> reach) \<Rightarrow> proxy_act list \<Rightarrow> bool" where
  "confined allowed upstream acts =
     (fst ` contacted acts \<subseteq> allowed
      \<and> (served acts \<longrightarrow> (\<exists>sid h p. contacted acts = {(h, p)} \<and> upstream h p = Open \<and> AuditAllow sid h p \<in> set acts))
      \<and> (\<forall>sid h p. AuditAllow sid h p \<in> set acts \<longrightarrow> (h, p) \<in> contacted acts)
      \<and> (Reply 403 ''Forbidden'' \<in> set acts \<longleftrightarrow> (\<exists>sid h p. AuditDeny sid h ''host_not_in_whitelist'' p \<in> set acts))
      \<and> (\<forall>sid h p. AuditDeny sid h ''host_not_in_whitelist'' p \<in> set acts \<longrightarrow> h \<notin> allowed \<and> contacted acts = {}))"

lemmas confined_defs = confined_def contacted_def served_def

lemma confined_nil [simp]: "confined allowed upstream []"
  by (simp add: confined_defs)

lemma confined_bad [simp]: "confined allowed upstream [Reply 400 t]"
  by (simp add: confined_defs)

lemma confined_connect: "confined allowed upstream (fst (handle_connect allowed upstream host_port sid))"
proof -
  define r where "r = (if behind (CHR '':'') host_port = [] then Inr 443 else int_of_str (behind (CHR '':'') host_port))"
  define h where "h = before (CHR '':'') host_port"
  have eq: "handle_connect allowed upstream host_port sid = (case r of
      Inl e \<Rightarrow> if e = ValueError then ([Reply 400 ''Bad Request'', AuditDeny sid h ''bad_port'' None], Done) else ([], Failed e)
    | Inr port \<Rightarrow>
        if h \<notin> allowed then ([AuditDeny sid h ''host_not_in_whitelist'' (Some port), Reply 403 ''Forbidden''], Done)
        else (case upstream h port of
            Open \<Rightarrow> ([Connect h port, AuditAllow sid h port, Reply 200 ''Connection Established'', Tunnel], Done)
          | Unreachable e \<Rightarrow> ([Connect h port, AuditDeny sid h (''upstream_unreachable:'' @ e) (Some port), Reply 502 ''Bad Gateway''], Done)
          | Raises e \<Rightarrow> ([Connect h port], Failed e)))"
    unfolding handle_connect_def Let_def r_def h_def by (rule refl)
  show ?thesis
  proof (cases r)
    case (Inl e)
    then show ?thesis by (simp add: eq confined_defs)
  next
    case (Inr port)
    then show ?thesis
      by (cases "upstream h port") (auto simp: eq confined_defs)
  qed
qed

lemma confined_plain: "confined allowed upstream (fst (handle_plain allowed upstream meth target hs sid))"
proof (cases "starts_with ''http://'' target")
  case False
  then show ?thesis by (simp add: handle_plain_def)
next
  case True
  define hp where "hp = before (CHR ''/'') (drop 7 target)"
  define r where "r = (utf8 (before (CHR '':'') hp), int_of_str (if behind (CHR '':'') hp = [] then ''80'' else behind (CHR '':'') hp))"
  define fw where "fw = Forward (forwarded_head meth (behind (CHR ''/'') (drop 7 target)) hs)"
  have eq: "handle_plain allowed upstream meth target hs sid = (case r of
      (None, _) \<Rightarrow> ([], Failed ValueError)
    | (Some h, Inl e) \<Rightarrow> ([], Failed e)
    | (Some h, Inr port) \<Rightarrow>
        if h \<notin> allowed then ([AuditDeny sid h ''host_not_in_whitelist'' (Some port), Reply 403 ''Forbidden''], Done)
        else (case upstream h port of
            Open \<Rightarrow> ([AuditAllow sid h port, Connect h port, fw, Tunnel], Done)
          | Unreachable e \<Rightarrow> ([AuditAllow sid h port, Connect h port, Reply 502 ''Bad Gateway''], Done)
          | Raises e \<Rightarrow> ([AuditAllow sid h port, Connect h port], Failed e)))"
    using True unfolding handle_plain_def Let_def r_def hp_def fw_def by (simp only: not_True_eq_False if_False)
  obtain ho po where r: "r = (ho, po)" by (cases r)
  show ?thesis
  proof (cases ho; cases po)
    fix h port
    assume "ho = Some h" "po = Inr port"
    then show ?thesis by (cases "upstream h port") (auto simp: eq r confined_defs fw_def)
  qed (simp_all add: eq r)
qed

lemma confined_handle: "confined allowed upstream (fst (handle allowed upstream s))"
  by (simp add: handle_def confined_connect confined_plain split: option.splits sum.splits prod.splits)

section \<open>Requests as a client writes them\<close>

definition graphic :: "char \<Rightarrow> bool" where
  "graphic c = (let n = of_char c :: nat in 33 \<le> n \<and> n \<le> 126)"

lemma graphic_facts:
  assumes "graphic c"
  shows "c \<noteq> CHR 0x0D" "c \<noteq> CHR '' ''" "\<not> byte_space c" "of_char c < (128 :: nat)" "c \<notin> set CRLF"
  using assms by (auto simp: graphic_def byte_space_def Let_def)

lemma digit_graphic: "is_digit c \<Longrightarrow> graphic c \<and> c \<noteq> CHR '':''"
  by (auto simp: is_digit_def graphic_def Let_def)

lemma to_crlf_append: "CHR 0x0D \<notin> set l \<Longrightarrow> to_crlf (l @ CRLF @ r) = Some (l @ CRLF, r)"
proof (induction l)
  case (Cons a l)
  then show ?case by (cases l) auto
qed simp

lemma read_line_append:
  assumes "CHR 0x0D \<notin> set l" "length l \<le> STREAM_LIMIT"
  shows "read_line (l @ CRLF @ r) = Some (l @ CRLF, r)"
  using assms(2) by (simp add: read_line_def to_crlf_append [OF assms(1), simplified])

lemma rstrip_append:
  assumes "\<forall>c \<in> set t. P c" "s \<noteq> []" "\<not> P (last s)"
  shows "rstrip_of P (s @ t) = s"
proof -
  have "dropWhile P (rev t @ rev s) = dropWhile P (rev s)"
    using assms(1) by (intro dropWhile_append2) simp
  moreover have "dropWhile P (rev s) = rev s"
    using assms(2,3) by (metis dropWhile_eq_self_iff hd_rev)
  ultimately show ?thesis by (simp add: rstrip_of_def)
qed

lemma before_append [simp]: "c \<notin> set s \<Longrightarrow> before c (s @ c # t) = s"
  by (induction s) (auto simp: before_def)

lemma behind_append [simp]: "c \<notin> set s \<Longrightarrow> behind c (s @ c # t) = t"
  by (simp add: behind_def)

lemma split3_parts:
  assumes "CHR '' '' \<notin> set a" "CHR '' '' \<notin> set b"
  shows "split3 (a @ CHR '' '' # b @ CHR '' '' # c) = Some (a, b, c)"
  using assms by (simp add: split3_def Let_def)

lemma byte_strip_value:
  assumes "list_all graphic v"
  shows "byte_strip (CHR '' '' # v @ CRLF) = v"
proof (cases "v = []")
  case True
  then show ?thesis by (simp add: byte_strip_def rstrip_of_def byte_space_def)
next
  case False
  have ns: "\<forall>c \<in> set v. \<not> byte_space c"
    using assms graphic_facts(3) by (auto simp: list_all_iff)
  obtain x xs where v: "v = x # xs" using False by (cases v) auto
  have "dropWhile byte_space (CHR '' '' # v @ CRLF) = v @ CRLF"
    using ns by (simp add: v byte_space_def [of "CHR '' ''"])
  moreover have "rstrip_of byte_space (v @ CRLF) = v"
    using ns False by (intro rstrip_append) (auto simp: byte_space_def [of "CHR 0x0D"] byte_space_def [of "CHR 0x0A"])
  ultimately show ?thesis by (simp only: byte_strip_def)
qed

lemma str_nat_length: "n < 10 ^ Suc k \<Longrightarrow> length (str_nat n) \<le> Suc k"
proof (induction k arbitrary: n)
  case 0
  then show ?case by (simp add: str_nat.simps [of n])
next
  case (Suc k)
  then have "n div 10 < 10 ^ Suc k" by (simp add: less_mult_imp_div_less mult.commute)
  then show ?case using Suc.IH [of "n div 10"] by (simp add: str_nat.simps [of n])
qed

lemma port_text:
  assumes "port < 65536"
  shows "length (str_nat port) \<le> 5" "int_of_str (str_nat port) = Inr (int port)" "str_nat port \<noteq> []"
    "CHR '':'' \<notin> set (str_nat port)" "list_all graphic (str_nat port)"
proof -
  show len: "length (str_nat port) \<le> 5" using str_nat_length [of port 4] assms by simp
  show "int_of_str (str_nat port) = Inr (int port)" using len by (simp add: int_of_str_str_nat)
  show "str_nat port \<noteq> []" by (simp add: str_nat.simps [of port])
  show "CHR '':'' \<notin> set (str_nat port)" using str_nat_digits [of port] digit_graphic by blast
  show "list_all graphic (str_nat port)" using str_nat_digits [of port] digit_graphic by (auto simp: list_all_iff)
qed

definition sid_line :: "string \<Rightarrow> string" where
  "sid_line sid = ''X-Relay-Session-Id: '' @ sid"

lemma headers_read:
  assumes "list_all graphic sid" "length sid \<le> 4096"
  shows "read_headers 0 [] (sid_line sid @ CRLF @ CRLF) = Some (Inr ([(''x-relay-session-id'', sid)], []))"
proof -
  have cr: "CHR 0x0D \<notin> set (sid_line sid)"
    using assms(1) graphic_facts(1) by (auto simp: sid_line_def list_all_iff)
  have one: "read_line (sid_line sid @ CRLF @ CRLF) = Some (sid_line sid @ CRLF, CRLF)"
    using assms(2) by (intro read_line_append cr) (simp add: STREAM_LIMIT_def sid_line_def)
  have two: "read_line CRLF = Some (CRLF, [])"
    using read_line_append [of "[]" "[]"] by simp
  have key: "before (CHR '':'') (sid_line sid @ CRLF) = ''X-Relay-Session-Id''"
    "behind (CHR '':'') (sid_line sid @ CRLF) = CHR '' '' # sid @ CRLF"
    by (simp_all add: sid_line_def before_def behind_def)
  have name: "str_lower (byte_strip ''X-Relay-Session-Id'') = ''x-relay-session-id''"
    by code_simp
  have ne: "sid_line sid @ CRLF \<noteq> CRLF" "CHR '':'' \<in> set (sid_line sid @ CRLF)"
    by (simp_all add: sid_line_def)
  have len: "length (sid_line sid @ CRLF) + 2 \<le> HEADER_LIMIT"
    using assms(2) by (simp add: sid_line_def HEADER_LIMIT_def)
  show ?thesis
    using len ne
    by (simp add: read_headers.simps [of _ _ "sid_line sid @ CRLF @ CRLF"] read_headers.simps [of _ _ CRLF] one two key name
        byte_strip_value [OF assms(1)] del: append_Cons append.simps)
qed

definition connect_request :: "string \<Rightarrow> nat \<Rightarrow> string \<Rightarrow> string" where
  "connect_request host port sid =
     ''CONNECT '' @ host @ '':'' @ str_nat port @ '' HTTP/1.1'' @ CRLF @ sid_line sid @ CRLF @ CRLF"

lemma connect_parsed:
  assumes "list_all graphic host" "CHR '':'' \<notin> set host" "length host \<le> 4096" "port < 65536"
    and "list_all graphic sid" "length sid \<le> 4096"
  shows "handle allowed upstream (connect_request host port sid)
    = handle_connect allowed upstream (host @ '':'' @ str_nat port) (session_of [(''x-relay-session-id'', sid)])"
proof -
  note pt = port_text [OF assms(4)]
  define tgt where "tgt = host @ '':'' @ str_nat port"
  have g: "list_all graphic tgt" using assms(1) pt(5) by (simp add: tgt_def graphic_def)
  have nosp: "CHR '' '' \<notin> set tgt" and nocr: "CHR 0x0D \<notin> set tgt"
    using g graphic_facts(1,2) by (auto simp: list_all_iff)
  define l where "l = ''CONNECT'' @ CHR '' '' # tgt @ CHR '' '' # ''HTTP/1.1''"
  have req: "connect_request host port sid = l @ CRLF @ (sid_line sid @ CRLF @ CRLF)"
    by (simp add: connect_request_def l_def tgt_def)
  have one: "read_line (connect_request host port sid) = Some (l @ CRLF, sid_line sid @ CRLF @ CRLF)"
    unfolding req using assms(3) nocr pt(1)
    by (intro read_line_append) (auto simp: l_def STREAM_LIMIT_def tgt_def)
  have strip: "rstrip_of (\<lambda>c. c \<in> set CRLF) (l @ CRLF) = l"
    by (rule rstrip_append) (auto simp: l_def)
  have parts: "split3 l = Some (''CONNECT'', tgt, ''HTTP/1.1'')"
    unfolding l_def by (rule split3_parts) (use nosp in auto)
  have dec: "utf8 tgt = Some tgt"
    using g graphic_facts(4) by (intro utf8_ascii) (auto simp: list_all_iff)
  show ?thesis
    using headers_read [OF assms(5,6)] by (simp add: handle_def one strip [simplified] parts dec tgt_def [symmetric, simplified])
qed

text \<open>
  a CONNECT request for \<open>host:port\<close> with a session header, as a client writes it, is parsed from
  its text and answered exactly: a host outside the list is refused with 403 and recorded as denied, and nothing is contacted;
  a listed host is contacted on that port, and only when that succeeds is the tunnel opened, after the allow entry;
  otherwise the client gets 502 and the deny entry names the error.
\<close>
lemma connect_answered:
  assumes "list_all graphic host" "CHR '':'' \<notin> set host" "length host \<le> 4096" "port < 65536"
    and "list_all graphic sid" "sid \<noteq> []" "length sid \<le> 4096"
  shows "handle allowed upstream (connect_request host port sid) =
    (if host \<notin> allowed then ([AuditDeny sid host ''host_not_in_whitelist'' (Some (int port)), Reply 403 ''Forbidden''], Done)
     else (case upstream host (int port) of
         Open \<Rightarrow> ([Connect host (int port), AuditAllow sid host (int port), Reply 200 ''Connection Established'', Tunnel], Done)
       | Unreachable e \<Rightarrow>
           ([Connect host (int port), AuditDeny sid host (''upstream_unreachable:'' @ e) (Some (int port)), Reply 502 ''Bad Gateway''], Done)
       | Raises e \<Rightarrow> ([Connect host (int port)], Failed e)))"
proof -
  have "decode_replace sid = sid"
    using assms(5) graphic_facts(4) by (auto simp: decode_replace_def list_all_iff utf8_ascii)
  then have sid: "session_of [(''x-relay-session-id'', sid)] = sid"
    using assms(6) by (simp add: session_of_def)
  show ?thesis
    unfolding connect_parsed [OF assms(1-5,7)] sid
    using assms(2) port_text [OF assms(4)] by (simp add: handle_connect_def Let_def)
qed

lemma connect_answered_witness:
  "handle ALLOWED_HOSTS_DEFAULT (\<lambda>h p. Open) (connect_request ''example.org'' 443 ''s1'')
     = ([AuditDeny ''s1'' ''example.org'' ''host_not_in_whitelist'' (Some 443), Reply 403 ''Forbidden''], Done)
   \<and> handle ALLOWED_HOSTS_DEFAULT (\<lambda>h p. Open) (connect_request ''api.anthropic.com'' 443 ''s1'')
     = ([Connect ''api.anthropic.com'' 443, AuditAllow ''s1'' ''api.anthropic.com'' 443,
         Reply 200 ''Connection Established'', Tunnel], Done)"
  using connect_answered [of "''example.org''" 443 "''s1''" ALLOWED_HOSTS_DEFAULT "\<lambda>h p. Open"]
    connect_answered [of "''api.anthropic.com''" 443 "''s1''" ALLOWED_HOSTS_DEFAULT "\<lambda>h p. Open"]
  by (simp add: graphic_def ALLOWED_HOSTS_DEFAULT_def)

text \<open>
  C13: whatever text a client sends, only hosts of the allow list are contacted; a client is tunnelled or has its request
  forwarded only to the one host and port that was contacted, that accepted, and that the audit log names as allowed;
  403 is answered exactly when the log has the refusal, and then nothing was contacted.
\<close>
theorem egress_confined:
  assumes "handle allowed upstream s = (acts, res)"
  shows "fst ` contacted acts \<subseteq> allowed
    \<and> (served acts \<longrightarrow> (\<exists>sid h p. contacted acts = {(h, p)} \<and> upstream h p = Open \<and> AuditAllow sid h p \<in> set acts))
    \<and> (\<forall>sid h p. AuditAllow sid h p \<in> set acts \<longrightarrow> (h, p) \<in> contacted acts)
    \<and> (Reply 403 ''Forbidden'' \<in> set acts \<longleftrightarrow> (\<exists>sid h p. AuditDeny sid h ''host_not_in_whitelist'' p \<in> set acts))
    \<and> (\<forall>sid h p. AuditDeny sid h ''host_not_in_whitelist'' p \<in> set acts \<longrightarrow> h \<notin> allowed \<and> contacted acts = {})"
  using confined_handle [of allowed upstream s] unfolding assms confined_def fst_conv .

text \<open>A plain request without headers.\<close>

definition plain_request :: "string \<Rightarrow> string \<Rightarrow> string" where
  "plain_request meth target = meth @ CHR '' '' # target @ CHR '' '' # ''HTTP/1.1'' @ CRLF @ CRLF"

lemma plain_parsed:
  assumes "list_all graphic meth" "meth \<noteq> ''CONNECT''" "list_all graphic target" "length meth + length target \<le> 8192"
  shows "handle allowed upstream (plain_request meth target) = handle_plain allowed upstream meth target [] ''unknown''"
proof -
  define l where "l = meth @ CHR '' '' # target @ CHR '' '' # ''HTTP/1.1''"
  have nosp: "CHR '' '' \<notin> set meth" "CHR '' '' \<notin> set target" "CHR 0x0D \<notin> set l"
    using assms(1,3) graphic_facts(1,2) by (auto simp: list_all_iff l_def)
  have req: "plain_request meth target = l @ CRLF @ CRLF"
    by (simp add: plain_request_def l_def)
  have one: "read_line (plain_request meth target) = Some (l @ CRLF, CRLF)"
    unfolding req using assms(4) nosp by (intro read_line_append) (auto simp: l_def STREAM_LIMIT_def)
  have strip: "rstrip_of (\<lambda>c. c \<in> set CRLF) (l @ CRLF) = l"
    by (rule rstrip_append) (auto simp: l_def)
  have parts: "split3 l = Some (meth, target, ''HTTP/1.1'')"
    unfolding l_def by (rule split3_parts) (use nosp in auto)
  have hdrs: "read_headers 0 [] CRLF = Some (Inr ([], []))"
    using read_line_append [of "[]" "[]"] by (simp add: read_headers.simps HEADER_LIMIT_def)
  show ?thesis
    using assms(2) by (simp add: handle_def one strip [simplified] parts hdrs session_of_def)
qed

lemma port80: "int_of_str ''80'' = Inr 80"
  by code_simp

lemma plain_example:
  "handle {''a''} (\<lambda>h p. Open) (plain_request ''GET'' ''http://a:80/x'')
     = ([AuditAllow ''unknown'' ''a'' 80, Connect ''a'' 80,
         Forward (''GET /x HTTP/1.1'' @ CRLF @ CRLF), Tunnel], Done)"
proof -
  have "handle_plain {''a''} (\<lambda>h p. Open) ''GET'' ''http://a:80/x'' [] ''unknown''
    = ([AuditAllow ''unknown'' ''a'' 80, Connect ''a'' 80, Forward (''GET /x HTTP/1.1'' @ CRLF @ CRLF), Tunnel], Done)"
    using port80 by (simp add: handle_plain_def Let_def before_def behind_def starts_with_def forwarded_head_def)
  then show ?thesis
    using plain_parsed [of "''GET''" "''http://a:80/x''"] by (simp add: graphic_def)
qed

theorem egress_confined_witness:
  "fst ` contacted (fst (handle {''a''} (\<lambda>h p. Open) (plain_request ''GET'' ''http://a:80/x''))) \<subseteq> {''a''}
   \<and> (\<exists>sid h p. contacted (fst (handle {''a''} (\<lambda>h p. Open) (plain_request ''GET'' ''http://a:80/x''))) = {(h, p)}
       \<and> AuditAllow sid h p \<in> set (fst (handle {''a''} (\<lambda>h p. Open) (plain_request ''GET'' ''http://a:80/x''))))"
proof -
  have "served [AuditAllow ''unknown'' ''a'' 80, Connect ''a'' 80, Forward (''GET /x HTTP/1.1'' @ CRLF @ CRLF), Tunnel]"
    by (simp add: served_def)
  then show ?thesis
    using egress_confined [OF plain_example] unfolding plain_example fst_conv by blast
qed

text \<open>
  Three ways in which the plain branch falls short of the CONNECT branch: a port that is no number ends the connection without
  an answer or an entry; an unreachable host is recorded as allowed and its failure is not recorded; a target in another form is
  answered 400 and leaves no entry.
\<close>

lemma plain_bad_port_unanswered:
  "handle ALLOWED_HOSTS_DEFAULT upstream (plain_request ''GET'' ''http://api.anthropic.com:x/'') = ([], Failed ValueError)"
proof -
  have "int_of_str ''x'' = Inl ValueError" by code_simp
  then have "handle_plain ALLOWED_HOSTS_DEFAULT upstream ''GET'' ''http://api.anthropic.com:x/'' [] ''unknown'' = ([], Failed ValueError)"
    by (simp add: handle_plain_def Let_def before_def behind_def starts_with_def)
  then show ?thesis
    using plain_parsed [of "''GET''" "''http://api.anthropic.com:x/''"] by (simp add: graphic_def)
qed

lemma plain_unreachable_recorded_allowed:
  assumes "upstream ''api.anthropic.com'' 80 = Unreachable e"
  shows "handle ALLOWED_HOSTS_DEFAULT upstream (plain_request ''GET'' ''http://api.anthropic.com/'')
    = ([AuditAllow ''unknown'' ''api.anthropic.com'' 80, Connect ''api.anthropic.com'' 80, Reply 502 ''Bad Gateway''], Done)"
proof -
  have "handle_plain ALLOWED_HOSTS_DEFAULT upstream ''GET'' ''http://api.anthropic.com/'' [] ''unknown''
    = ([AuditAllow ''unknown'' ''api.anthropic.com'' 80, Connect ''api.anthropic.com'' 80, Reply 502 ''Bad Gateway''], Done)"
    using assms port80 by (simp add: handle_plain_def Let_def before_def behind_def starts_with_def ALLOWED_HOSTS_DEFAULT_def)
  then show ?thesis
    using plain_parsed [of "''GET''" "''http://api.anthropic.com/''"] by (simp add: graphic_def)
qed

lemma plain_other_form_unrecorded:
  "handle ALLOWED_HOSTS_DEFAULT upstream (plain_request ''GET'' ''https://evil.example/'') = ([Reply 400 ''Bad Request''], Done)"
  using plain_parsed [of "''GET''" "''https://evil.example/''"] by (simp add: graphic_def handle_plain_def starts_with_def)

end
