(* ===== verification/Session_Spec.thy ===== *)
theory Session_Spec
  imports Json_Values
begin

text \<open>
  The data contracts of \<open>session/spec.py\<close>: the plugin manifest with its validation and its
  command line, the session spec and its JSON form in both directions. The dataclasses do not
  check the types of their fields, and a spec may come from parsed JSON, so the fields hold
  dynamic values. \<open>path\<close> is \<open>str(Path(s))\<close>. The per-session policy override is not serialised by
  the sources and is not part of the record.
\<close>

section \<open>Records\<close>

record plugin_manifest =
  profile :: pyval
  modules :: "pyval list"
  skills :: "pyval list"
  with_components :: "pyval list"
  without_components :: "pyval list"
  extra_env :: "(pyval \<times> pyval) list"
  pre_run_cmds :: "pyval list list"

record session_spec =
  prompt :: pyval
  cwd :: string
  plugins :: plugin_manifest
  executor :: pyval
  timeout_s :: int
  metadata :: "(pyval \<times> pyval) list"
  tags :: "pyval list"

text \<open>\<open>__post_init__\<close>: at least one of profile, modules, skills.\<close>

definition make_manifest :: "plugin_manifest \<Rightarrow> py_exn + plugin_manifest" where
  "make_manifest m = (if \<not> (py_truthy (profile m) \<or> modules m \<noteq> [] \<or> skills m \<noteq> []) then Inl ValueError else Inr m)"

fun join_comma :: "string list \<Rightarrow> string" where
  "join_comma [] = []"
| "join_comma [s] = s"
| "join_comma (s # t # r) = s @ '','' @ join_comma (t # r)"

definition texts :: "pyval list \<Rightarrow> string list option" where
  "texts vs = (if list_all (\<lambda>v. as_str v \<noteq> None) vs then Some (List.map_filter as_str vs) else None)"

text \<open>\<open>to_install_argv\<close>; joining values that are not text raises \<open>TypeError\<close>.\<close>

definition to_install_argv :: "string \<Rightarrow> plugin_manifest \<Rightarrow> py_exn + pyval list" where
  "to_install_argv home m =
     (case (texts (modules m), texts (skills m)) of
        (Some ms, Some ss) \<Rightarrow>
          Inr ((if py_truthy (profile m) then [PStr ''--profile'', profile m] else [])
             @ (if ms = [] then [] else [PStr ''--modules'', PStr (join_comma ms)])
             @ (if ss = [] then [] else [PStr ''--skills'', PStr (join_comma ss)])
             @ concat (map (\<lambda>c. [PStr ''--with'', c]) (with_components m))
             @ concat (map (\<lambda>c. [PStr ''--without'', c]) (without_components m))
             @ [PStr ''--home'', PStr home])
      | _ \<Rightarrow> Inl TypeError)"

section \<open>To JSON and back\<close>

definition pair_list :: "pyval \<times> pyval \<Rightarrow> pyval" where
  "pair_list p = PList [fst p, snd p]"

definition manifest_json :: "plugin_manifest \<Rightarrow> pydict" where
  "manifest_json m =
     [(PStr ''profile'', profile m), (PStr ''modules'', PList (modules m)), (PStr ''skills'', PList (skills m)),
      (PStr ''with_components'', PList (with_components m)),
      (PStr ''without_components'', PList (without_components m)),
      (PStr ''extra_env'', PList (map pair_list (extra_env m))),
      (PStr ''pre_run_cmds'', PList (map PList (pre_run_cmds m)))]"

definition to_json_safe :: "session_spec \<Rightarrow> pydict" where
  "to_json_safe sp =
     [(PStr ''prompt'', prompt sp), (PStr ''cwd'', PStr (cwd sp)), (PStr ''plugins'', PDict (manifest_json (plugins sp))),
      (PStr ''executor'', executor sp), (PStr ''timeout_s'', PInt (timeout_s sp)),
      (PStr ''metadata'', PList (map pair_list (metadata sp))), (PStr ''tags'', PList (tags sp))]"

text \<open>\<open>tuple(v or ())\<close>, and unpacking every element into a pair or a tuple.\<close>

definition tuple_or :: "pyval \<Rightarrow> py_exn + pyval list" where
  "tuple_or v = (if py_truthy v then py_iter v else Inr [])"

fun unpack_pairs :: "pyval list \<Rightarrow> py_exn + (pyval \<times> pyval) list" where
  "unpack_pairs [] = Inr []"
| "unpack_pairs (x # xs) = (case py_iter x of
     Inl e \<Rightarrow> Inl e
   | Inr [a, b] \<Rightarrow> map_sum id ((#) (a, b)) (unpack_pairs xs)
   | Inr _ \<Rightarrow> Inl ValueError)"

fun unpack_tuples :: "pyval list \<Rightarrow> py_exn + pyval list list" where
  "unpack_tuples [] = Inr []"
| "unpack_tuples (x # xs) = (case py_iter x of
     Inl e \<Rightarrow> Inl e
   | Inr ys \<Rightarrow> map_sum id ((#) ys) (unpack_tuples xs))"

definition bind_sum :: "'e + 'a \<Rightarrow> ('a \<Rightarrow> 'e + 'b) \<Rightarrow> 'e + 'b" where
  "bind_sum m f = (case m of Inl e \<Rightarrow> Inl e | Inr a \<Rightarrow> f a)"

lemma bind_sum_simps [simp]: "bind_sum (Inl e) f = Inl e" "bind_sum (Inr a) f = f a"
  by (simp_all add: bind_sum_def)

definition manifest_from_json :: "pydict \<Rightarrow> py_exn + plugin_manifest" where
  "manifest_from_json d =
     bind_sum (tuple_or (dget d ''modules'')) (\<lambda>ms.
     bind_sum (tuple_or (dget d ''skills'')) (\<lambda>ss.
     bind_sum (tuple_or (dget d ''with_components'')) (\<lambda>ws.
     bind_sum (tuple_or (dget d ''without_components'')) (\<lambda>wos.
     bind_sum (bind_sum (tuple_or (dget d ''extra_env'')) unpack_pairs) (\<lambda>env.
     bind_sum (bind_sum (tuple_or (dget d ''pre_run_cmds'')) unpack_tuples) (\<lambda>cmds.
       make_manifest \<lparr>profile = dget d ''profile'', modules = ms, skills = ss, with_components = ws,
         without_components = wos, extra_env = env, pre_run_cmds = cmds\<rparr>))))))"

text \<open>\<open>data[k]\<close> and \<open>data.get\<close> on what \<open>json.loads\<close> returned.\<close>

definition item :: "pydict \<Rightarrow> string \<Rightarrow> py_exn + pyval" where
  "item d k = (case map_of d (PStr k) of None \<Rightarrow> Inl KeyError | Some v \<Rightarrow> Inr v)"

definition need_dict :: "pyval \<Rightarrow> py_exn + pydict" where
  "need_dict v = (case v of PDict d \<Rightarrow> Inr d | _ \<Rightarrow> Inl TypeError)"

definition need_str :: "pyval \<Rightarrow> py_exn + string" where
  "need_str v = (case v of PStr s \<Rightarrow> Inr s | _ \<Rightarrow> Inl TypeError)"

definition from_json :: "(string \<Rightarrow> string) \<Rightarrow> pyval \<Rightarrow> py_exn + session_spec" where
  "from_json path data =
     bind_sum (need_dict data) (\<lambda>d.
     bind_sum (bind_sum (item d ''plugins'') need_dict) (\<lambda>pd.
     bind_sum (manifest_from_json pd) (\<lambda>pm.
     bind_sum (item d ''prompt'') (\<lambda>pr.
     bind_sum (bind_sum (item d ''cwd'') need_str) (\<lambda>cw.
     bind_sum (py_int (dget_default d ''timeout_s'' (PInt 1800))) (\<lambda>tm.
     bind_sum (bind_sum (tuple_or (dget d ''metadata'')) unpack_pairs) (\<lambda>md.
     bind_sum (tuple_or (dget d ''tags'')) (\<lambda>tg.
       Inr \<lparr>prompt = pr, cwd = path cw, plugins = pm, executor = dget_default d ''executor'' (PStr ''docker''),
            timeout_s = tm, metadata = md, tags = tg\<rparr>))))))))"

text \<open>\<open>to_json\<close> then \<open>json.loads\<close>, as the container runner sees the spec.\<close>

definition transported :: "(pyfloat \<Rightarrow> string) \<Rightarrow> session_spec \<Rightarrow> py_exn + pyval" where
  "transported fr sp = json_norm fr (PDict (to_json_safe sp))"

section \<open>Round trip\<close>

definition clean_pairs :: "(pyval \<times> pyval) list \<Rightarrow> bool" where
  "clean_pairs ps \<longleftrightarrow> list_all (\<lambda>p. json_clean (fst p) \<and> json_clean (snd p)) ps"

text \<open>A spec whose dynamic values are JSON values.\<close>

definition json_spec :: "session_spec \<Rightarrow> bool" where
  "json_spec sp \<longleftrightarrow> json_clean (prompt sp) \<and> json_clean (executor sp) \<and> json_clean_list (tags sp) \<and> clean_pairs (metadata sp)
     \<and> json_clean (profile (plugins sp)) \<and> json_clean_list (modules (plugins sp)) \<and> json_clean_list (skills (plugins sp))
     \<and> json_clean_list (with_components (plugins sp)) \<and> json_clean_list (without_components (plugins sp))
     \<and> clean_pairs (extra_env (plugins sp)) \<and> list_all json_clean_list (pre_run_cmds (plugins sp))"

lemma clean_pair_lists: "clean_pairs ps \<Longrightarrow> json_clean_list (map pair_list ps)"
  by (induction ps) (auto simp: clean_pairs_def pair_list_def)

lemma clean_cmd_lists: "list_all json_clean_list cs \<Longrightarrow> json_clean_list (map PList cs)"
  by (induction cs) auto

lemma to_json_safe_clean: "json_spec sp \<Longrightarrow> json_clean (PDict (to_json_safe sp))"
  by (simp add: json_spec_def to_json_safe_def manifest_json_def clean_pair_lists clean_cmd_lists)

lemma tuple_or_PList [simp]: "tuple_or (PList xs) = Inr xs"
  by (simp add: tuple_or_def)

lemma unpack_pairs_map [simp]: "unpack_pairs (map pair_list ps) = Inr ps"
  by (induction ps) (auto simp: pair_list_def)

lemma unpack_tuples_map [simp]: "unpack_tuples (map PList cs) = Inr cs"
  by (induction cs) auto

lemma manifest_round_trip: "manifest_from_json (manifest_json m) = make_manifest m"
  by (cases m) (simp add: manifest_from_json_def manifest_json_def)

lemma from_json_to_json:
  assumes "path (cwd sp) = cwd sp" and "make_manifest (plugins sp) = Inr (plugins sp)"
  shows "from_json path (PDict (to_json_safe sp)) = Inr sp"
  using assms manifest_round_trip [of "plugins sp"]
  by (cases sp) (simp add: from_json_def to_json_safe_def item_def need_dict_def need_str_def dget_default_def)

text \<open>
  the container runner reads back the spec the host sent: for a spec whose values are JSON
  values, whose path is in the normal form of \<open>Path\<close> and whose manifest is valid, parsing the
  transported JSON gives the spec itself.
\<close>

lemma spec_round_trip:
  assumes "json_spec sp" and "path (cwd sp) = cwd sp" and "make_manifest (plugins sp) = Inr (plugins sp)"
  shows "bind_sum (transported fr sp) (from_json path) = Inr sp"
  using json_clean_norm(1) [OF to_json_safe_clean [OF assms(1)], of fr] from_json_to_json [of path sp] assms(2,3)
  by (simp add: transported_def)

definition demo_spec :: session_spec where
  "demo_spec = \<lparr>prompt = PStr ''fix it'', cwd = ''/work'',
     plugins = \<lparr>profile = PNone, modules = [PStr ''go''], skills = [], with_components = [], without_components = [],
       extra_env = [(PStr ''A'', PStr ''1'')], pre_run_cmds = [[PStr ''git'', PStr ''fetch'']]\<rparr>,
     executor = PStr ''docker'', timeout_s = 60, metadata = [], tags = [PStr ''t'']\<rparr>"

lemma spec_round_trip_witness:
  "bind_sum (transported (\<lambda>_. ''0.0'') demo_spec) (from_json id) = Inr demo_spec"
proof -
  have "json_spec demo_spec" "id (cwd demo_spec) = cwd demo_spec" "make_manifest (plugins demo_spec) = Inr (plugins demo_spec)"
    by (simp_all add: demo_spec_def json_spec_def clean_pairs_def make_manifest_def)
  then show ?thesis by (rule spec_round_trip)
qed

end
