(* ===== verification/Session_Manager.thy ===== *)
theory Session_Manager
  imports Hitl_Coordinator Session_Spec Redaction Relay_Events
begin

text \<open>
  The session manager of \<open>session/manager.py\<close>. Its state holds the store, the HITL coordinator
  and the bus it was built with, the free slots of the semaphore and the dictionaries and sets
  of the class. The bus is a parameter: a state and the operation \<open>pub\<close>, which says whether the
  publish succeeded. A method runs in a configuration: the state, and a script with one entry
  per suspension of the method, which is what other tasks did to the state meanwhile; an empty
  script is a method that nothing interrupts. A call of the store is suspended before and after
  its transaction. \<open>has_slot\<close> stands for the local \<open>acquired_slot\<close> of the coroutines of
  \<open>_run\<close>, \<open>task_credentials\<close> for the credentials they were started with, \<open>cancel_requested\<close> for
  the tasks on which \<open>cancel\<close> was called.
\<close>

section \<open>State\<close>

datatype mgr_exn =
    SessionNotFound
  | SessionNotRunning
  | SessionNotPaused
  | MaxPausedExceeded
  | ResumeQueueTimeout
  | BridgeAckTimeout
  | ControlRefused
  | VersionConflict nat "nat option"
  | ShuttingDown
  | MissingCredentialsError
  | CredentialsLookupUnavailable
  | RetryConfigError
  | DurableDrop
  | StoreFailed store_exn
  | PyError py_exn

record run_metrics =
  frames_persisted :: nat
  frames_dropped :: nat
  input_tokens :: int
  output_tokens :: int
  cost_usd :: pyfloat
  turn_count :: int

definition no_metrics :: run_metrics where
  "no_metrics = \<lparr>frames_persisted = 0, frames_dropped = 0, input_tokens = 0, output_tokens = 0, cost_usd = Fin 0, turn_count = 0\<rparr>"

record audit_entry =
  a_actor :: string
  a_action :: string
  a_target :: string
  a_metadata :: pydict

record 'b mgr =
  m_db :: store
  m_coord :: coord
  m_bus :: 'b
  m_audits :: "audit_entry list"
  sem :: nat
  accepting_new :: bool
  running_tasks :: "string list"
  cancel_requested :: "string list"
  metrics :: "(string, run_metrics) od"
  bridges :: "string list"
  api_key_by_session :: "(string, string option) od"
  paused_set :: "string list"
  paused_at :: "(string, int) od"
  paused_timers :: "(string, rat) od"
  paused_holds_slot :: "string list"
  paused_by_key :: "(string, int) od"
  owner_by_session :: "(string, string option) od"
  session_states :: "(string, session_state) od"
  has_slot :: "string list"
  task_credentials :: "(string, (string, pyval) od) od"

text \<open>
  What the methods use of their surroundings: the bus, the audit sink and the credentials store
  (\<open>None\<close> when not configured; a lookup that raises returns \<open>None\<close>), the redaction engine, the
  configured limits, and \<open>str\<close> of values and exceptions whose text the sources do not fix.
\<close>

record 'b env =
  pub :: "event_body \<Rightarrow> 'b \<Rightarrow> bool \<times> 'b"
  pub_topic :: "string \<Rightarrow> pyval \<Rightarrow> 'b \<Rightarrow> bool \<times> 'b"
  audit_sink :: "(audit_entry \<Rightarrow> bool) option"
  user_credentials :: "(string \<Rightarrow> (string, pyval) od option) option"
  redactor :: engine
  max_paused :: nat
  max_paused_per_api_key :: nat
  paused_timeout_s :: rat
  default_timeout_s :: int
  require_per_user_credentials :: bool
  show_value :: "pyval \<Rightarrow> string"
  show_exn :: "mgr_exn \<Rightarrow> raised"
  path_text :: "string \<Rightarrow> string"
  parse_iso :: "string \<Rightarrow> int option"

definition init_mgr :: "nat \<Rightarrow> store \<Rightarrow> coord \<Rightarrow> 'b \<Rightarrow> 'b mgr" where
  "init_mgr max_concurrent db co b =
     \<lparr>m_db = db, m_coord = co, m_bus = b, m_audits = [], sem = max_concurrent, accepting_new = True,
      running_tasks = [], cancel_requested = [], metrics = [], bridges = [], api_key_by_session = [],
      paused_set = [], paused_at = [], paused_timers = [], paused_holds_slot = [], paused_by_key = [],
      owner_by_session = [], session_states = [], has_slot = [], task_credentials = []\<rparr>"

definition running_session_count :: "'b mgr \<Rightarrow> nat" where
  "running_session_count m = length (running_tasks m)"

section \<open>Suspensions and the calls behind them\<close>

type_synonym 'b cfg = "'b mgr \<times> ('b mgr \<Rightarrow> 'b mgr) list"

definition suspend :: "'b cfg \<Rightarrow> 'b cfg" where
  "suspend c = (case snd c of [] \<Rightarrow> c | f # fs \<Rightarrow> (f (fst c), fs))"

definition modify :: "('b mgr \<Rightarrow> 'b mgr) \<Rightarrow> 'b cfg \<Rightarrow> 'b cfg" where
  "modify f c = (f (fst c), snd c)"

definition on_db :: "(store \<Rightarrow> 'r \<times> store) \<Rightarrow> 'b cfg \<Rightarrow> 'r \<times> 'b cfg" where
  "on_db f c =
     (let c1 = suspend c; (r, db) = f (m_db (fst c1))
      in (r, suspend ((fst c1)\<lparr>m_db := db\<rparr>, snd c1)))"

definition read_session :: "string \<Rightarrow> 'b cfg \<Rightarrow> session_row option \<times> 'b cfg" where
  "read_session sid c = on_db (\<lambda>db. (get_session sid db, db)) c"

text \<open>\<open>_audit_record\<close>: skipped without a sink, failures swallowed.\<close>

definition audit_record :: "'b env \<Rightarrow> string \<Rightarrow> string \<Rightarrow> string \<Rightarrow> pydict \<Rightarrow> 'b cfg \<Rightarrow> 'b cfg" where
  "audit_record e actor action target meta c = (case audit_sink e of
     None \<Rightarrow> c
   | Some writes \<Rightarrow>
       (let a = \<lparr>a_actor = actor, a_action = action, a_target = target, a_metadata = meta\<rparr>;
            c1 = suspend c
        in suspend (if writes a then modify (\<lambda>m. m\<lparr>m_audits := m_audits m @ [a]\<rparr>) c1 else c1)))"

definition publish_event :: "'b env \<Rightarrow> event_body \<Rightarrow> 'b cfg \<Rightarrow> (mgr_exn + unit) \<times> 'b cfg" where
  "publish_event e ev c =
     (let c1 = suspend c; (ok, b) = pub e ev (m_bus (fst c1))
      in (if ok then Inr () else Inl DurableDrop, suspend ((fst c1)\<lparr>m_bus := b\<rparr>, snd c1)))"

definition owner_of :: "string \<Rightarrow> 'b mgr \<Rightarrow> string" where
  "owner_of sid m = (case map_of (owner_by_session m) sid of
     Some (Some w) \<Rightarrow> if w = [] then ''anon'' else w
   | _ \<Rightarrow> ''anon'')"

section \<open>Version-checked status writes\<close>

definition conflict :: "store_exn \<Rightarrow> mgr_exn" where
  "conflict x = (case x of ConcurrencyError v a \<Rightarrow> VersionConflict v a | _ \<Rightarrow> StoreFailed x)"

text \<open>The version for the second attempt: reported by the failure, or read again.\<close>

definition retry_version :: "string \<Rightarrow> nat option \<Rightarrow> 'b cfg \<Rightarrow> (mgr_exn + nat) \<times> 'b cfg" where
  "retry_version sid actual c = (case actual of
     Some a \<Rightarrow> (Inr a, c)
   | None \<Rightarrow> (case read_session sid c of
        (None, c1) \<Rightarrow> (Inl SessionNotFound, c1)
      | (Some row, c1) \<Rightarrow> (Inr (s_version row), c1)))"

definition attempts :: "string \<Rightarrow> patch \<Rightarrow> nat \<Rightarrow> 'b cfg \<Rightarrow> (mgr_exn + nat) \<times> 'b cfg" where
  "attempts sid p v c = (case on_db (update_session_status sid p (Some v)) c of
     (Inr n, c1) \<Rightarrow> (Inr n, c1)
   | (Inl (ConcurrencyError _ actual), c1) \<Rightarrow>
       bind_res (retry_version sid actual (suspend c1))
         (\<lambda>v2 c2. case on_db (update_session_status sid p (Some v2)) c2 of
             (Inr n, c3) \<Rightarrow> (Inr n, c3)
           | (Inl x, c3) \<Rightarrow> (Inl (conflict x), c3))
   | (Inl x, c1) \<Rightarrow> (Inl (conflict x), c1))"

definition update_status_locked ::
    "string \<Rightarrow> nat option \<Rightarrow> patch \<Rightarrow> 'b cfg \<Rightarrow> (mgr_exn + nat) \<times> 'b cfg" where
  "update_status_locked sid expected p c = (case expected of
     Some v \<Rightarrow> attempts sid p v c
   | None \<Rightarrow> (case read_session sid c of
        (None, c1) \<Rightarrow> (Inl SessionNotFound, c1)
      | (Some row, c1) \<Rightarrow> attempts sid p (s_version row) c1))"

section \<open>Pause bookkeeping\<close>

definition key_count :: "string \<Rightarrow> 'b mgr \<Rightarrow> int" where
  "key_count k m = (case map_of (paused_by_key m) k of None \<Rightarrow> 0 | Some n \<Rightarrow> n)"

definition api_key_of :: "string \<Rightarrow> 'b mgr \<Rightarrow> string option" where
  "api_key_of sid m = (case map_of (api_key_by_session m) sid of None \<Rightarrow> None | Some k \<Rightarrow> k)"

definition check_paused_caps :: "'b env \<Rightarrow> string \<Rightarrow> 'b mgr \<Rightarrow> mgr_exn + unit" where
  "check_paused_caps e sid m =
     (if length (paused_set m) \<ge> max_paused e then Inl MaxPausedExceeded
      else (case api_key_of sid m of
              None \<Rightarrow> Inr ()
            | Some k \<Rightarrow> if key_count k m \<ge> int (max_paused_per_api_key e) then Inl MaxPausedExceeded else Inr ()))"

definition cancel_paused_timer :: "string \<Rightarrow> 'b mgr \<Rightarrow> 'b mgr" where
  "cancel_paused_timer sid m = m\<lparr>paused_timers := AList.delete sid (paused_timers m)\<rparr>"

definition arm_paused_timer :: "'b env \<Rightarrow> string \<Rightarrow> rat option \<Rightarrow> 'b mgr \<Rightarrow> 'b mgr" where
  "arm_paused_timer e sid remaining m =
     (let m1 = cancel_paused_timer sid m;
          t = (case remaining of None \<Rightarrow> paused_timeout_s e | Some r \<Rightarrow> r)
      in m1\<lparr>paused_timers := AList.update sid t (paused_timers m1)\<rparr>)"

definition discard :: "'a \<Rightarrow> 'a list \<Rightarrow> 'a list" where
  "discard x xs = filter (\<lambda>y. y \<noteq> x) xs"

definition add_new :: "'a \<Rightarrow> 'a list \<Rightarrow> 'a list" where
  "add_new x xs = (if x \<in> set xs then xs else xs @ [x])"

definition release_pause_bookkeeping :: "bool \<Rightarrow> string \<Rightarrow> 'b mgr \<Rightarrow> 'b mgr" where
  "release_pause_bookkeeping keep_holds sid m =
     (let was_paused = (sid \<in> set (paused_set m));
          m1 = m\<lparr>paused_set := discard sid (paused_set m), paused_at := AList.delete sid (paused_at m),
                 paused_holds_slot := (if keep_holds then paused_holds_slot m else discard sid (paused_holds_slot m))\<rparr>
      in if \<not> was_paused then m1
         else (case api_key_of sid m1 of
                 None \<Rightarrow> m1
               | Some k \<Rightarrow>
                   (let remaining = key_count k m1 - 1
                    in m1\<lparr>paused_by_key := (if remaining \<le> 0 then AList.delete k (paused_by_key m1)
                                            else AList.update k remaining (paused_by_key m1))\<rparr>)))"

text \<open>What \<open>pause\<close> records, without suspension, once the runner has acknowledged.\<close>

definition mark_paused :: "string \<Rightarrow> int \<Rightarrow> 'b mgr \<Rightarrow> 'b mgr" where
  "mark_paused sid now m =
     (let m1 = m\<lparr>paused_set := add_new sid (paused_set m), paused_at := AList.update sid now (paused_at m)\<rparr>;
          m2 = (case api_key_of sid m1 of
                  None \<Rightarrow> m1
                | Some k \<Rightarrow> m1\<lparr>paused_by_key := AList.update k (key_count k m1 + 1) (paused_by_key m1)\<rparr>)
      in if sid \<in> set (paused_holds_slot m2) then m2
         else m2\<lparr>paused_holds_slot := paused_holds_slot m2 @ [sid], sem := Suc (sem m2)\<rparr>)"

section \<open>Pause, resume, cancel\<close>

text \<open>
  What the runner answers to a control frame: it agrees, it refuses, or nothing arrives in
  time and the bridge raises.
\<close>

datatype ack = AckOk | AckError | AckTimeout

definition opt_text :: "string option \<Rightarrow> pyval" where
  "opt_text s = (case s of None \<Rightarrow> PNone | Some t \<Rightarrow> PStr t)"

definition set_state :: "string \<Rightarrow> session_state \<Rightarrow> 'b mgr \<Rightarrow> 'b mgr" where
  "set_state sid st m = m\<lparr>session_states := AList.update sid st (session_states m)\<rparr>"

definition pause_commit ::
    "'b env \<Rightarrow> int \<Rightarrow> string \<Rightarrow> string option \<Rightarrow> nat \<Rightarrow> 'b cfg \<Rightarrow> (mgr_exn + unit) \<times> 'b cfg" where
  "pause_commit e now sid reason v c =
     bind_res (update_status_locked sid (Some v) (no_patch\<lparr>p_status := Some ''paused'', p_paused_at := Some now\<rparr>)
                 (modify (mark_paused sid now) c))
       (\<lambda>_ c1. let c2 = modify (set_state sid PAUSED) c1;
                   c3 = audit_record e (owner_of sid (fst c2)) ''session_pause'' sid [(PStr ''reason'', opt_text reason)] c2
               in bind_res (publish_event e (SessionStateChanged sid ''running'' ''paused'' reason) c3)
                    (\<lambda>_ c4. (Inr (), modify (arm_paused_timer e sid None) c4)))"

definition pause ::
    "'b env \<Rightarrow> ack \<Rightarrow> int \<Rightarrow> string \<Rightarrow> string option \<Rightarrow> 'b cfg \<Rightarrow> (mgr_exn + unit) \<times> 'b cfg" where
  "pause e a now sid reason c =
     (if sid \<notin> set (bridges (fst c)) then
        (case read_session sid c of
           (None, c1) \<Rightarrow> (Inl SessionNotFound, c1)
         | (Some _, c1) \<Rightarrow> (Inl SessionNotRunning, c1))
      else if sid \<in> set (paused_set (fst c)) then (Inr (), modify (arm_paused_timer e sid None) c)
      else (case check_paused_caps e sid (fst c) of
         Inl x \<Rightarrow> (Inl x, c)
       | Inr _ \<Rightarrow> (case read_session sid c of
            (None, c1) \<Rightarrow> (Inl SessionNotFound, c1)
          | (Some row, c1) \<Rightarrow> (case a of
               AckTimeout \<Rightarrow> (Inl BridgeAckTimeout, suspend c1)
             | AckError \<Rightarrow> (Inl ControlRefused, suspend c1)
             | AckOk \<Rightarrow> pause_commit e now sid reason (s_version row) (suspend c1)))))"

text \<open>
  A bounded wait for a slot: what other tasks did meanwhile is one suspension; it succeeds when a
  slot is free at its end.
\<close>

definition take_slot :: "'b mgr \<Rightarrow> 'b mgr" where
  "take_slot m = m\<lparr>sem := sem m - 1\<rparr>"

definition release_slot :: "'b mgr \<Rightarrow> 'b mgr" where
  "release_slot m = m\<lparr>sem := Suc (sem m)\<rparr>"

definition wait_slot :: "'b cfg \<Rightarrow> bool \<times> 'b cfg" where
  "wait_slot c = (let c1 = suspend c in if sem (fst c1) > 0 then (True, modify take_slot c1) else (False, c1))"

text \<open>What \<open>resume\<close> records, without suspension, once the runner has acknowledged.\<close>

definition hand_back :: "string \<Rightarrow> 'b mgr \<Rightarrow> 'b mgr" where
  "hand_back sid m = release_pause_bookkeeping True sid (m\<lparr>paused_holds_slot := discard sid (paused_holds_slot m)\<rparr>)"

definition resume_commit ::
    "'b env \<Rightarrow> string \<Rightarrow> string option \<Rightarrow> nat \<Rightarrow> 'b cfg \<Rightarrow> (mgr_exn + unit) \<times> 'b cfg" where
  "resume_commit e sid hint v c =
     bind_res (update_status_locked sid (Some v) (no_patch\<lparr>p_status := Some ''running''\<rparr>) (modify (hand_back sid) c))
       (\<lambda>_ c1. let c2 = modify (set_state sid RUNNING) c1;
                   c3 = audit_record e (owner_of sid (fst c2)) ''session_resume'' sid [(PStr ''hint'', opt_text hint)] c2
               in publish_event e (SessionStateChanged sid ''paused'' ''running'' hint) c3)"

definition resume :: "'b env \<Rightarrow> ack \<Rightarrow> string \<Rightarrow> string option \<Rightarrow> 'b cfg \<Rightarrow> (mgr_exn + unit) \<times> 'b cfg" where
  "resume e a sid hint c =
     (if sid \<notin> set (paused_set (fst c)) \<or> sid \<notin> set (bridges (fst c)) then
        (case read_session sid c of
           (None, c1) \<Rightarrow> (Inl SessionNotFound, c1)
         | (Some _, c1) \<Rightarrow> (Inl SessionNotPaused, c1))
      else (case read_session sid (modify (cancel_paused_timer sid) c) of
         (None, c1) \<Rightarrow> (Inl SessionNotFound, c1)
       | (Some row, c1) \<Rightarrow> (case wait_slot c1 of
            (False, c2) \<Rightarrow> (Inl ResumeQueueTimeout, modify (arm_paused_timer e sid None) c2)
          | (True, c2) \<Rightarrow> (case a of
               AckTimeout \<Rightarrow> (Inl BridgeAckTimeout, modify (arm_paused_timer e sid None \<circ> release_slot) (suspend c2))
             | AckError \<Rightarrow> (Inl ControlRefused, modify (arm_paused_timer e sid None \<circ> release_slot) (suspend c2))
             | AckOk \<Rightarrow> resume_commit e sid hint (s_version row) (suspend c2)))))"

definition request_cancel :: "string \<Rightarrow> 'b mgr \<Rightarrow> 'b mgr" where
  "request_cancel sid m =
     (if sid \<in> set (running_tasks m) then m\<lparr>cancel_requested := add_new sid (cancel_requested m)\<rparr> else m)"

definition cancel_bookkeeping :: "string \<Rightarrow> 'b mgr \<Rightarrow> 'b mgr" where
  "cancel_bookkeeping sid m =
     (let m1 = cancel_paused_timer sid m;
          m2 = (if sid \<in> set (paused_set m1) then release_pause_bookkeeping False sid m1 else m1)
      in request_cancel sid m2)"

definition deny_pending :: "string \<Rightarrow> string option \<Rightarrow> 'b mgr \<Rightarrow> 'b mgr" where
  "deny_pending reason sid m = m\<lparr>m_coord := snd (cancel_all reason sid (m_coord m))\<rparr>"

definition cancel :: "'b env \<Rightarrow> string \<Rightarrow> string \<Rightarrow> 'b cfg \<Rightarrow> 'b cfg" where
  "cancel e sid reason c =
     (let c1 = audit_record e (owner_of sid (fst c)) ''session_cancel'' sid [(PStr ''reason'', PStr reason)] c;
          c2 = modify (cancel_bookkeeping sid) c1
      in modify (deny_pending (''cancel:'' @ reason) (Some sid)) (suspend c2))"

text \<open>The watchdog, once its sleep is over; a cancelled sleep returns at once.\<close>

definition paused_timeout_watchdog :: "'b env \<Rightarrow> string \<Rightarrow> 'b cfg \<Rightarrow> 'b cfg" where
  "paused_timeout_watchdog e sid c =
     (if sid \<in> set (paused_set (fst c)) then cancel e sid ''paused_timeout'' c else c)"

text \<open>
  \<open>shutdown\<close>: \<open>polls\<close> is how often the drain loop sleeps before its deadline; waiting for the
  cancelled tasks is one suspension.
\<close>

fun drain_running :: "nat \<Rightarrow> 'b cfg \<Rightarrow> 'b cfg" where
  "drain_running 0 c = c"
| "drain_running (Suc n) c = (if running_tasks (fst c) = [] then c else drain_running n (suspend c))"

definition shutdown :: "'b env \<Rightarrow> nat \<Rightarrow> bool \<Rightarrow> 'b cfg \<Rightarrow> 'b cfg" where
  "shutdown e polls cancel_paused c =
     (if \<not> accepting_new (fst c) \<and> running_tasks (fst c) = [] then c
      else
        (let c1 = modify (\<lambda>m. m\<lparr>accepting_new := False\<rparr>) c;
             c2 = (if cancel_paused then foldl (\<lambda>cc sid. cancel e sid ''shutdown_during_pause'' cc) c1 (paused_set (fst c1)) else c1);
             c3 = drain_running polls c2;
             c4 = modify (\<lambda>m. foldl (\<lambda>mm sid. request_cancel sid mm) m (running_tasks m)) c3;
             c5 = modify (deny_pending ''shutdown'' None) (suspend (suspend c4))
         in modify (\<lambda>m. foldl (\<lambda>mm sid. cancel_paused_timer sid mm) m (od_keys (paused_timers m))) c5))"

section \<open>Submit and retry\<close>

definition to_text :: "'b env \<Rightarrow> pyval \<Rightarrow> string" where
  "to_text e v = (case v of PStr s \<Rightarrow> s | _ \<Rightarrow> show_value e v)"

definition credential_bundle_is_complete :: "(string, pyval) od \<Rightarrow> bool" where
  "credential_bundle_is_complete creds \<longleftrightarrow>
     (\<exists>k \<in> set [''ANTHROPIC_API_KEY'', ''ANTHROPIC_AUTH_TOKEN''].
        case map_of creds k of Some (PStr v) \<Rightarrow> str_strip v \<noteq> [] | _ \<Rightarrow> False)"

record submit_args =
  sa_credentials :: "(string, pyval) od"
  sa_trace_id :: string
  sa_api_key_id :: "string option"
  sa_owner :: "string option"
  sa_actor_label :: "string option"
  sa_actor_role :: "string option"
  sa_description :: "string option"
  sa_parent :: "string option"

definition no_args :: submit_args where
  "no_args = \<lparr>sa_credentials = [], sa_trace_id = [], sa_api_key_id = None, sa_owner = None, sa_actor_label = None,
              sa_actor_role = None, sa_description = None, sa_parent = None\<rparr>"

definition or_none :: "string \<Rightarrow> string option" where
  "or_none s = (if s = [] then None else Some s)"

definition merge_dict :: "('k, 'v) od \<Rightarrow> ('k, 'v) od \<Rightarrow> ('k, 'v) od" where
  "merge_dict a b = foldl (\<lambda>d (k, v). AList.update k v d) a b"

text \<open>The stored credentials of the authenticated actor, overridden by those of the request.\<close>

definition load_credentials :: "'b env \<Rightarrow> submit_args \<Rightarrow> 'b cfg \<Rightarrow> (mgr_exn + (string, pyval) od) \<times> 'b cfg" where
  "load_credentials e a c = (case (user_credentials e, sa_actor_label a) of
     (Some lookup, Some label) \<Rightarrow>
       if label = [] then (Inr (sa_credentials a), c)
       else (case lookup label of
          None \<Rightarrow> (if require_per_user_credentials e then Inl CredentialsLookupUnavailable else Inr (sa_credentials a), suspend c)
        | Some stored \<Rightarrow>
            (Inr (if stored = [] then sa_credentials a else merge_dict stored (sa_credentials a)), suspend c))
   | _ \<Rightarrow> (Inr (sa_credentials a), c))"

definition create_metadata :: "'b env \<Rightarrow> session_spec \<Rightarrow> pydict \<Rightarrow> submit_args \<Rightarrow> pydict" where
  "create_metadata e sp redacted a =
     [(PStr ''backend'', executor sp), (PStr ''tags'', PList (tags sp)), (PStr ''trace_id'', opt_text (or_none (sa_trace_id a))),
      (PStr ''has_description'', PBool (sa_description a \<noteq> None)),
      (PStr ''prompt_len'', PInt (int (length (to_text e (dget_default redacted ''prompt'' (PStr [])))))),
      (PStr ''parent_session_id'', opt_text (sa_parent a))]"

definition owner_or_anon :: "string option \<Rightarrow> string" where
  "owner_or_anon w = (case w of Some s \<Rightarrow> if s = [] then ''anon'' else s | None \<Rightarrow> ''anon'')"

definition track_session :: "string \<Rightarrow> submit_args \<Rightarrow> (string, pyval) od \<Rightarrow> 'b mgr \<Rightarrow> 'b mgr" where
  "track_session sid a creds m = m\<lparr>
     metrics := AList.update sid no_metrics (metrics m),
     api_key_by_session := AList.update sid (sa_api_key_id a) (api_key_by_session m),
     owner_by_session := AList.update sid (sa_owner a) (owner_by_session m),
     session_states := AList.update sid QUEUED (session_states m),
     running_tasks := add_new sid (running_tasks m),
     task_credentials := AList.update sid creds (task_credentials m)\<rparr>"

definition persist_new ::
    "'b env \<Rightarrow> string \<Rightarrow> int \<Rightarrow> session_spec \<Rightarrow> pydict \<Rightarrow> submit_args \<Rightarrow> 'b cfg \<Rightarrow> (mgr_exn + unit) \<times> 'b cfg" where
  "persist_new e sid now sp redacted a c =
     (case on_db (create_session sid redacted (or_none (sa_trace_id a)) (to_text e (executor sp)) (map (to_text e) (tags sp))
                    now (sa_owner a) (sa_description a) (sa_parent a)) c of
        (Inl x, c1) \<Rightarrow> (Inl (StoreFailed x), c1)
      | (Inr _, c1) \<Rightarrow> (Inr (), c1))"

text \<open>\<open>sid\<close> is the fresh \<open>uuid4().hex\<close>. The row's tags and backend are text.\<close>

definition submit ::
    "'b env \<Rightarrow> string \<Rightarrow> int \<Rightarrow> session_spec \<Rightarrow> submit_args \<Rightarrow> 'b cfg \<Rightarrow> (mgr_exn + string) \<times> 'b cfg" where
  "submit e sid now sp a c =
     (if \<not> accepting_new (fst c) then (Inl ShuttingDown, c)
      else bind_res (load_credentials e a c) (\<lambda>creds c1.
        if \<not> credential_bundle_is_complete creds \<and> sa_actor_role a \<noteq> Some ''admin'' \<and> require_per_user_credentials e
        then (Inl MissingCredentialsError, c1)
        else
          (let redacted = redact_dict (redactor e) (to_json_safe sp) in
           bind_res (persist_new e sid now sp redacted a c1) (\<lambda>_ c2.
             let c3 = audit_record e (owner_or_anon (sa_owner a)) ''session_create'' sid (create_metadata e sp redacted a) c2 in
             bind_res (publish_event e
                 (SessionCreated sid (take 512 (to_text e (dget_default redacted ''prompt'' (PStr [])))) (map (to_text e) (tags sp))) c3)
               (\<lambda>_ c4. (Inr sid, modify (track_session sid a creds) c4))))))"

definition str_or :: "'b env \<Rightarrow> pyval \<Rightarrow> string \<Rightarrow> string" where
  "str_or e v d = to_text e (if py_truthy v then v else PStr d)"

definition retry_manifest :: "pydict \<Rightarrow> mgr_exn + plugin_manifest" where
  "retry_manifest spec =
     (case manifest_from_json (case py_or (dget spec ''plugins'') (PDict []) of PDict d \<Rightarrow> d | _ \<Rightarrow> []) of
        Inl ValueError \<Rightarrow> Inl RetryConfigError
      | Inl x \<Rightarrow> Inl (PyError x)
      | Inr pm \<Rightarrow> Inr pm)"

definition retry_spec :: "'b env \<Rightarrow> pydict \<Rightarrow> mgr_exn + session_spec" where
  "retry_spec e spec =
     (if str_or e (dget spec ''prompt'') [] = [] then Inl RetryConfigError
      else bind_sum (retry_manifest spec) (\<lambda>pm.
        bind_sum (map_sum PyError id (py_int (py_or (dget spec ''timeout_s'') (PInt (default_timeout_s e))))) (\<lambda>tm.
        bind_sum (map_sum PyError id (tuple_or (dget spec ''tags''))) (\<lambda>tg.
          Inr \<lparr>prompt = PStr (str_or e (dget spec ''prompt'') []), cwd = path_text e (str_or e (dget spec ''cwd'') ''.''),
               plugins = pm, executor = PStr (str_or e (dget spec ''executor'') ''inprocess''), timeout_s = tm,
               metadata = [], tags = tg\<rparr>))))"

definition truthy_or :: "string option \<Rightarrow> string option \<Rightarrow> string option" where
  "truthy_or a b = (case a of Some s \<Rightarrow> if s = [] then b else Some s | None \<Rightarrow> b)"

definition retry ::
    "'b env \<Rightarrow> string \<Rightarrow> int \<Rightarrow> string \<Rightarrow> string option \<Rightarrow> string option \<Rightarrow> 'b cfg \<Rightarrow> (mgr_exn + string) \<times> 'b cfg" where
  "retry e new_sid now sid actor role c = (case read_session sid c of
     (None, c1) \<Rightarrow> (Inl SessionNotFound, c1)
   | (Some row, c1) \<Rightarrow> (case retry_spec e (s_spec row) of
        Inl x \<Rightarrow> (Inl x, c1)
      | Inr sp \<Rightarrow>
          (let owner = owner_or_anon (truthy_or actor (s_owner row));
               descr = truthy_or (s_description row) (Some (''Retry of '' @ sid));
               a = no_args\<lparr>sa_owner := Some owner, sa_actor_label := actor, sa_actor_role := role,
                           sa_description := descr, sa_parent := Some sid\<rparr>
           in bind_res (submit e new_sid now sp a c1) (\<lambda>ns c2.
                (Inr ns, audit_record e owner ''session_retry'' ns
                   [(PStr ''parent_session_id'', PStr sid), (PStr ''tags'', PList (tags sp)), (PStr ''backend'', executor sp)] c2)))))"

section \<open>Frames\<close>

definition on_metrics :: "string \<Rightarrow> (run_metrics \<Rightarrow> run_metrics) \<Rightarrow> 'b mgr \<Rightarrow> 'b mgr" where
  "on_metrics sid f m = (case map_of (metrics m) sid of
     None \<Rightarrow> m
   | Some r \<Rightarrow> m\<lparr>metrics := AList.update sid (f r) (metrics m)\<rparr>)"

text \<open>
  \<open>_record_session_end\<close>: the three conversions run in order and the first failure keeps what
  was assigned before it; only \<open>TypeError\<close> and \<open>ValueError\<close> are caught.
\<close>

definition end_counts :: "pydict \<Rightarrow> pyval \<times> pyval \<times> pyval" where
  "end_counts f =
     (let toks = (case py_or (dget f ''tokens'') (PDict []) of PDict d \<Rightarrow> d | _ \<Rightarrow> []) in
      (py_or (dget f ''input_tokens'') (py_or (dget toks ''input_tokens'') (py_or (dget toks ''in'') (PInt 0))),
       py_or (dget f ''output_tokens'') (py_or (dget toks ''output_tokens'') (py_or (dget toks ''out'') (PInt 0))),
       py_or (dget f ''turn_count'') (py_or (dget toks ''turn_count'') (PInt 0))))"

definition assign_counts :: "pydict \<Rightarrow> run_metrics \<Rightarrow> (py_exn + unit) \<times> run_metrics" where
  "assign_counts f r = (case end_counts f of (i, ou, t) \<Rightarrow>
     bind_res (map_sum id (\<lambda>_. ()) (py_int i), case py_int i of Inl _ \<Rightarrow> r | Inr n \<Rightarrow> r\<lparr>input_tokens := n\<rparr>) (\<lambda>_ r1.
     bind_res (map_sum id (\<lambda>_. ()) (py_int ou), case py_int ou of Inl _ \<Rightarrow> r1 | Inr n \<Rightarrow> r1\<lparr>output_tokens := n\<rparr>) (\<lambda>_ r2.
       (map_sum id (\<lambda>_. ()) (py_int t), case py_int t of Inl _ \<Rightarrow> r2 | Inr n \<Rightarrow> r2\<lparr>turn_count := n\<rparr>))))"

definition is_number :: "pyval \<Rightarrow> bool" where
  "is_number v = (case v of PInt _ \<Rightarrow> True | PBool _ \<Rightarrow> True | PFloat _ \<Rightarrow> True | _ \<Rightarrow> False)"

definition record_session_end :: "string \<Rightarrow> pydict \<Rightarrow> 'b mgr \<Rightarrow> (py_exn + unit) \<times> 'b mgr" where
  "record_session_end sid f m = (case map_of (metrics m) sid of
     None \<Rightarrow> (Inr (), m)
   | Some r \<Rightarrow> (case assign_counts f r of (res, r1) \<Rightarrow>
       (case res of
          Inl OverflowError \<Rightarrow> (Inl OverflowError, on_metrics sid (\<lambda>_. r1) m)
        | _ \<Rightarrow>
            if is_number (dget f ''cost_usd'') then
              (case py_float (dget f ''cost_usd'') of
                 Inl x \<Rightarrow> (Inl x, on_metrics sid (\<lambda>_. r1) m)
               | Inr cost \<Rightarrow> (Inr (), on_metrics sid (\<lambda>_. r1\<lparr>cost_usd := cost\<rparr>) m))
            else (Inr (), on_metrics sid (\<lambda>_. r1) m))))"

definition trace_of :: "'b env \<Rightarrow> string \<Rightarrow> string \<Rightarrow> int \<Rightarrow> int \<Rightarrow> pydict \<Rightarrow> trace_row" where
  "trace_of e sid ftype n ts f =
     \<lparr>tr_session = sid, tr_seq = n, tr_event_type = str_or e (dget f ''event_type'') ftype,
      tr_tool = as_str (dget f ''tool_name''), tr_use_id = as_str (dget f ''tool_use_id''),
      tr_parent = as_str (dget f ''parent_tool_use_id''), tr_hash = as_str (dget f ''input_hash''),
      tr_input = (case dget f ''input_redacted'' of PDict d \<Rightarrow> d | _ \<Rightarrow> []), tr_created_at = ts\<rparr>"

definition record_trace_frame :: "'b env \<Rightarrow> string \<Rightarrow> pydict \<Rightarrow> int \<Rightarrow> 'b cfg \<Rightarrow> 'b cfg" where
  "record_trace_frame e sid f ts c = (case dget f ''type'' of
     PStr ftype \<Rightarrow>
       if \<not> starts_with ''hook.'' ftype then c
       else (case py_int (dget_default f ''seq'' (PInt 0)) of
               Inl _ \<Rightarrow> c
             | Inr n \<Rightarrow> snd (on_db (record_trace_invocation (trace_of e sid ftype n ts f)) c))
   | _ \<Rightarrow> c)"

definition frame_ts :: "'b env \<Rightarrow> int \<Rightarrow> pydict \<Rightarrow> int" where
  "frame_ts e now f = (case dget f ''ts'' of
     PStr s \<Rightarrow> (case parse_iso e s of None \<Rightarrow> now | Some t \<Rightarrow> t)
   | _ \<Rightarrow> now)"

definition count_persisted :: "run_metrics \<Rightarrow> run_metrics" where
  "count_persisted r = r\<lparr>frames_persisted := Suc (frames_persisted r)\<rparr>"

definition count_dropped :: "run_metrics \<Rightarrow> run_metrics" where
  "count_dropped r = r\<lparr>frames_dropped := Suc (frames_dropped r)\<rparr>"

definition store_frame :: "'b env \<Rightarrow> string \<Rightarrow> pydict \<Rightarrow> int \<Rightarrow> 'b cfg \<Rightarrow> 'b cfg" where
  "store_frame e sid f ts c = (case py_int (dget_default f ''seq'' (PInt 0)) of
     Inl _ \<Rightarrow> modify (on_metrics sid count_dropped) c
   | Inr n \<Rightarrow>
       (case on_db (append_frame sid n ts (to_text e (dget_default f ''type'' (PStr ''unknown''))) f) c of
          (Inl _, c1) \<Rightarrow> modify (on_metrics sid count_dropped) c1
        | (Inr _, c1) \<Rightarrow> modify (on_metrics sid count_persisted) c1))"

definition publish_frame :: "'b env \<Rightarrow> string \<Rightarrow> pydict \<Rightarrow> 'b cfg \<Rightarrow> (mgr_exn + unit) \<times> 'b cfg" where
  "publish_frame e sid f c = (case frame_to_event sid f of
     Inl x \<Rightarrow> (Inl (PyError x), c)
   | Inr (Some ev) \<Rightarrow> publish_event e ev c
   | Inr None \<Rightarrow>
       (let c1 = suspend c; (ok, b) = pub_topic e ''frame'' (PDict (merge_dict [(PStr ''session_id'', PStr sid)] f)) (m_bus (fst c1))
        in (if ok then Inr () else Inl DurableDrop, suspend ((fst c1)\<lparr>m_bus := b\<rparr>, snd c1))))"

definition harvest_end :: "string \<Rightarrow> pydict \<Rightarrow> 'b cfg \<Rightarrow> (mgr_exn + unit) \<times> 'b cfg" where
  "harvest_end sid f c =
     (if dget f ''type'' = PStr ''session.end''
      then (case record_session_end sid f (fst c) of (r, m) \<Rightarrow> (map_sum PyError id r, (m, snd c)))
      else (Inr (), c))"

definition persist_frame :: "'b env \<Rightarrow> int \<Rightarrow> string \<Rightarrow> pydict \<Rightarrow> 'b cfg \<Rightarrow> (mgr_exn + unit) \<times> 'b cfg" where
  "persist_frame e now sid frame c =
     (let f = redact_frame (redactor e) frame; ts = frame_ts e now f in
      bind_res (harvest_end sid f (store_frame e sid f ts c)) (\<lambda>_ c1.
        publish_frame e sid f (record_trace_frame e sid f ts c1)))"

fun persist_frames :: "'b env \<Rightarrow> int \<Rightarrow> string \<Rightarrow> pydict list \<Rightarrow> 'b cfg \<Rightarrow> (mgr_exn + unit) \<times> 'b cfg" where
  "persist_frames e now sid [] c = (Inr (), c)"
| "persist_frames e now sid (f # fs) c = bind_res (persist_frame e now sid f c) (\<lambda>_. persist_frames e now sid fs)"

text \<open>The frames the transport delivers before it closes; the first \<open>session.end\<close> stops the drain.\<close>

fun drain_inprocess :: "'b env \<Rightarrow> int \<Rightarrow> string \<Rightarrow> pydict list \<Rightarrow> 'b cfg \<Rightarrow> (mgr_exn + unit) \<times> 'b cfg" where
  "drain_inprocess e now sid [] c = (Inr (), suspend c)"
| "drain_inprocess e now sid (f # fs) c =
     bind_res (persist_frame e now sid f (suspend c)) (\<lambda>_ c1.
       if dget f ''type'' = PStr ''session.end'' then (Inr (), c1) else drain_inprocess e now sid fs c1)"

section \<open>The life of a session\<close>

text \<open>
  How the body of \<open>_run\<close> leaves: normally, by \<open>TimeoutError\<close>, by cancellation, by a failed
  installation, or by any other exception.
\<close>

datatype ending =
    Finished
  | TimedOut
  | Cancelled
  | InstallFailed string string
  | Crashed raised

fun end_status :: "ending \<Rightarrow> string" where
  "end_status Finished = ''completed''"
| "end_status TimedOut = ''cancelled''"
| "end_status Cancelled = ''cancelled''"
| "end_status (InstallFailed _ _) = ''failed''"
| "end_status (Crashed _) = ''failed''"

fun end_reason :: "ending \<Rightarrow> string option" where
  "end_reason Finished = None"
| "end_reason TimedOut = Some ''timeout''"
| "end_reason Cancelled = Some ''cancelled''"
| "end_reason (InstallFailed code _) = Some (''install:'' @ code)"
| "end_reason (Crashed r) =
     Some (category_name (error_category r) @ '':'' @ str_nat (http_status (error_category r)))"

text \<open>\<open>except ConcurrencyError\<close>: log and go on.\<close>

definition is_conflict :: "mgr_exn \<Rightarrow> bool" where
  "is_conflict x = (case x of VersionConflict _ _ \<Rightarrow> True | _ \<Rightarrow> False)"

definition ignoring :: "(mgr_exn \<Rightarrow> bool) \<Rightarrow> (mgr_exn + 'a) \<times> 's \<Rightarrow> (mgr_exn + unit) \<times> 's" where
  "ignoring P r = (case fst r of Inl x \<Rightarrow> if P x then Inr () else Inl x | Inr _ \<Rightarrow> Inr (), snd r)"

definition begin_run :: "'b env \<Rightarrow> int \<Rightarrow> string \<Rightarrow> 'b cfg \<Rightarrow> (mgr_exn + unit) \<times> 'b cfg" where
  "begin_run e now sid c =
     bind_res (ignoring is_conflict
         (update_status_locked sid None (no_patch\<lparr>p_status := Some ''running'', p_started_at := Some now\<rparr>)
            (modify (\<lambda>m. m\<lparr>has_slot := add_new sid (has_slot m)\<rparr>) c))) (\<lambda>_ c1.
       bind_res (publish_event e (SessionStateChanged sid ''queued'' ''running'' None) c1) (\<lambda>_ c2.
         (Inr (), modify (set_state sid RUNNING) c2)))"

definition register_bridge :: "string \<Rightarrow> 'b mgr \<Rightarrow> 'b mgr" where
  "register_bridge sid m = m\<lparr>bridges := add_new sid (bridges m)\<rparr>"

text \<open>After \<open>executor.start\<close>: an in-process handle may carry a bridge; then the runtime id is written.\<close>

definition executor_started :: "string \<Rightarrow> bool \<Rightarrow> string \<Rightarrow> 'b cfg \<Rightarrow> (mgr_exn + unit) \<times> 'b cfg" where
  "executor_started sid has_bridge runtime_id c =
     ignoring is_conflict (update_status_locked sid None (no_patch\<lparr>p_runtime_id := Some runtime_id\<rparr>)
       (if has_bridge then modify (register_bridge sid) c else c))"

text \<open>
  \<open>_drive_session\<close>: a container's bridge buffers the frames and they are persisted when it is
  done; in process they are drained one by one. \<open>how\<close> is how the bridge task or the runner task
  ended.
\<close>

definition drive_session ::
    "'b env \<Rightarrow> int \<Rightarrow> string \<Rightarrow> string \<Rightarrow> pydict list \<Rightarrow> ending \<Rightarrow> 'b cfg \<Rightarrow> ending \<times> 'b cfg" where
  "drive_session e now sid kind fs how c =
     (case (if kind \<in> set [''docker'', ''k8s_job'']
            then persist_frames e now sid fs (suspend (suspend (modify (register_bridge sid) c)))
            else drain_inprocess e now sid fs c) of
        (Inl x, c1) \<Rightarrow> (Crashed (show_exn e x), c1)
      | (Inr _, c1) \<Rightarrow> (how, c1))"

definition handle_ending :: "'b env \<Rightarrow> string \<Rightarrow> ending \<Rightarrow> 'b cfg \<Rightarrow> (mgr_exn + unit) \<times> 'b cfg" where
  "handle_ending e sid en c = (case en of
     TimedOut \<Rightarrow> (Inr (), modify (deny_pending ''timeout'' (Some sid)) (suspend c))
   | InstallFailed _ msg \<Rightarrow> publish_event e (InstallError sid 0 ''install_failed'' (take 128 msg) None) c
   | Crashed r \<Rightarrow> publish_event e (InstallError sid 0 (category_name (error_category r)) (take 512 (raised_message r)) None) c
   | _ \<Rightarrow> (Inr (), c))"

text \<open>The part of the \<open>finally\<close> block before its first suspension.\<close>

definition end_bookkeeping :: "string \<Rightarrow> 'b mgr \<Rightarrow> 'b mgr" where
  "end_bookkeeping sid m =
     (let m1 = (if sid \<in> set (has_slot m) \<and> sid \<notin> set (paused_holds_slot m) then release_slot m else m);
          m2 = release_pause_bookkeeping False sid (cancel_paused_timer sid m1)
      in m2\<lparr>bridges := discard sid (bridges m2),
            api_key_by_session := AList.delete sid (api_key_by_session m2),
            owner_by_session := AList.delete sid (owner_by_session m2),
            session_states := AList.delete sid (session_states m2),
            has_slot := discard sid (has_slot m2)\<rparr>)"

definition flush_metrics :: "string \<Rightarrow> 'b cfg \<Rightarrow> 'b cfg" where
  "flush_metrics sid c = (case map_of (metrics (fst c)) sid of
     None \<Rightarrow> c
   | Some r \<Rightarrow> (case cost_usd r of
        Fin cost \<Rightarrow> snd (on_db (\<lambda>db. ((), update_session_aggregates sid (input_tokens r) (output_tokens r) cost (turn_count r) db)) c)
      | _ \<Rightarrow> suspend c))"

definition task_done :: "string \<Rightarrow> 'b mgr \<Rightarrow> 'b mgr" where
  "task_done sid m = m\<lparr>running_tasks := discard sid (running_tasks m), cancel_requested := discard sid (cancel_requested m),
                       task_credentials := AList.delete sid (task_credentials m)\<rparr>"

definition end_run :: "'b env \<Rightarrow> int \<Rightarrow> string \<Rightarrow> ending \<Rightarrow> 'b cfg \<Rightarrow> (mgr_exn + unit) \<times> 'b cfg" where
  "end_run e now sid en c =
     (let (handled, c1) = handle_ending e sid en c;
          from_state = (case map_of (session_states (fst c1)) sid of None \<Rightarrow> RUNNING | Some s \<Rightarrow> s);
          (res, c2) = bind_res
             (ignoring (\<lambda>x. is_conflict x \<or> x = SessionNotFound)
               (update_status_locked sid None
                 (no_patch\<lparr>p_status := Some (end_status en), p_ended_at := Some now, p_end_reason := end_reason en\<rparr>)
                 (modify (end_bookkeeping sid) c1)))
             (\<lambda>_ c2. publish_event e (SessionStateChanged sid (state_value from_state) (end_status en) (end_reason en)) (flush_metrics sid c2))
      in (case res of Inl x \<Rightarrow> Inl x | Inr _ \<Rightarrow> handled, modify (task_done sid) c2))"

text \<open>
  The whole of \<open>_run\<close>: \<open>r_prepare\<close> is a failure of the assembler, \<open>r_start\<close> what
  \<open>executor.start\<close> did, \<open>r_frames\<close> the frames the runner sent, \<open>r_how\<close> how driving it ended,
  \<open>r_cut\<close> the phase after which the task was cancelled. A task that never gets a slot only
  leaves its wait by cancellation.
\<close>

record runner =
  r_prepare :: "(string \<times> string) option"
  r_start :: "raised + (bool \<times> string)"
  r_frames :: "pydict list"
  r_how :: ending
  r_cut :: "nat option"

definition run_body :: "'b env \<Rightarrow> int \<Rightarrow> string \<Rightarrow> string \<Rightarrow> runner \<Rightarrow> 'b cfg \<Rightarrow> ending \<times> 'b cfg" where
  "run_body e now sid kind r c = (case begin_run e now sid c of
     (Inl x, c1) \<Rightarrow> (Crashed (show_exn e x), c1)
   | (Inr _, c1) \<Rightarrow>
       if r_cut r = Some 1 then (Cancelled, c1)
       else (case r_prepare r of
          Some (code, msg) \<Rightarrow> (InstallFailed code msg, suspend c1)
        | None \<Rightarrow> (case r_start r of
             Inl x \<Rightarrow> (Crashed x, suspend (suspend c1))
           | Inr (has_bridge, rid) \<Rightarrow> (case executor_started sid has_bridge rid (suspend (suspend c1)) of
                (Inl x, c2) \<Rightarrow> (Crashed (show_exn e x), suspend c2)
              | (Inr _, c2) \<Rightarrow>
                  if r_cut r = Some 2 then (Cancelled, suspend c2)
                  else (case drive_session e now sid kind (r_frames r) (r_how r) c2 of (en, c3) \<Rightarrow> (en, suspend c3))))))"

definition run :: "'b env \<Rightarrow> int \<Rightarrow> string \<Rightarrow> string \<Rightarrow> runner \<Rightarrow> 'b cfg \<Rightarrow> (mgr_exn + unit) \<times> 'b cfg" where
  "run e now sid kind r c =
     (if r_cut r = Some 0 then end_run e now sid Cancelled (suspend c)
      else (case wait_slot c of
         (False, c1) \<Rightarrow> end_run e now sid Cancelled c1
       | (True, c1) \<Rightarrow> (case run_body e now sid kind r c1 of (en, c2) \<Rightarrow> end_run e now sid en c2)))"

end
