(* ===== verification/Manager_Slots.thy ===== *)
theory Manager_Slots
  imports Session_Manager
begin

text \<open>
  Concurrency slots and pause accounting of the session manager. Between two suspensions a
  method of the manager is atomic; the labels below are the atomic parts that touch slots or
  pause accounting, each the very definition that the method uses, so a sequence of labels is
  an interleaving of any number of calls. \<open>R\<close> lists the sessions for which a \<open>resume\<close> holds a
  re-acquired slot while it waits for the runner's answer.
\<close>

section \<open>Atomic steps\<close>

datatype mop =
    Spawn string submit_args
  | Start string
  | Register string
  | PauseAck string int
  | Reacquire string
  | Rollback string
  | ResumeAck string
  | CancelCall string
  | Finish string

type_synonym 'b slots = "'b mgr \<times> string list"

definition fresh_sid :: "string \<Rightarrow> 'b mgr \<Rightarrow> bool" where
  "fresh_sid sid m \<longleftrightarrow> sid \<notin> set (running_tasks m) \<and> sid \<notin> set (has_slot m) \<and> sid \<notin> set (paused_set m)"

fun enabled :: "mop \<Rightarrow> 'b slots \<Rightarrow> bool" where
  "enabled (Spawn sid a) (m, R) \<longleftrightarrow> fresh_sid sid m"
| "enabled (Start sid) (m, R) \<longleftrightarrow> sid \<in> set (running_tasks m) \<and> sid \<notin> set (has_slot m) \<and> sem m > 0"
| "enabled (Register sid) (m, R) \<longleftrightarrow> sid \<in> set (has_slot m)"
| "enabled (PauseAck sid now) (m, R) \<longleftrightarrow> True"
| "enabled (Reacquire sid) (m, R) \<longleftrightarrow> sem m > 0"
| "enabled (Rollback sid) (m, R) \<longleftrightarrow> sid \<in> set R"
| "enabled (ResumeAck sid) (m, R) \<longleftrightarrow> sid \<in> set R"
| "enabled (CancelCall sid) (m, R) \<longleftrightarrow> True"
| "enabled (Finish sid) (m, R) \<longleftrightarrow> sid \<in> set (running_tasks m)"

fun perform :: "mop \<Rightarrow> 'b slots \<Rightarrow> 'b slots" where
  "perform (Spawn sid a) (m, R) = (track_session sid a (sa_credentials a) m, R)"
| "perform (Start sid) (m, R) = ((take_slot m)\<lparr>has_slot := add_new sid (has_slot m)\<rparr>, R)"
| "perform (Register sid) (m, R) = (register_bridge sid m, R)"
| "perform (PauseAck sid now) (m, R) = (mark_paused sid now m, R)"
| "perform (Reacquire sid) (m, R) = (take_slot m, sid # R)"
| "perform (Rollback sid) (m, R) = (release_slot m, remove1 sid R)"
| "perform (ResumeAck sid) (m, R) = (hand_back sid m, remove1 sid R)"
| "perform (CancelCall sid) (m, R) = (cancel_bookkeeping sid m, R)"
| "perform (Finish sid) (m, R) = (task_done sid (end_bookkeeping sid m), R)"

fun run_ops :: "mop list \<Rightarrow> 'b slots \<Rightarrow> 'b slots option" where
  "run_ops [] s = Some s"
| "run_ops (x # xs) s = (if enabled x s then run_ops xs (perform x s) else None)"

text \<open>
  The situations in which the accounting is sound: the runner's answer to a pause finds the
  session still registered and not yet paused, one resume at a time acts on a paused session
  and the session does not end under it, and \<open>cancel\<close> is called on sessions that are not paused.
\<close>

fun orderly :: "mop \<Rightarrow> 'b slots \<Rightarrow> bool" where
  "orderly (PauseAck sid now) (m, R) \<longleftrightarrow> sid \<in> set (bridges m) \<and> sid \<notin> set (paused_set m)"
| "orderly (Reacquire sid) (m, R) \<longleftrightarrow> sid \<in> set (paused_set m) \<and> sid \<notin> set R"
| "orderly (ResumeAck sid) (m, R) \<longleftrightarrow> sid \<in> set (paused_set m)"
| "orderly (CancelCall sid) (m, R) \<longleftrightarrow> sid \<notin> set (paused_set m)"
| "orderly (Finish sid) (m, R) \<longleftrightarrow> sid \<notin> set R"
| "orderly _ s \<longleftrightarrow> True"

fun all_steps :: "(mop \<Rightarrow> 'b slots \<Rightarrow> bool) \<Rightarrow> mop list \<Rightarrow> 'b slots \<Rightarrow> bool" where
  "all_steps P [] s \<longleftrightarrow> True"
| "all_steps P (x # xs) s \<longleftrightarrow> P x s \<and> all_steps P xs (perform x s)"

lemma run_ops_invariant:
  assumes "\<And>x s. I s \<Longrightarrow> enabled x s \<Longrightarrow> P x s \<Longrightarrow> I (perform x s)"
    and "I s" and "run_ops xs s = Some t" and "all_steps P xs s"
  shows "I t"
  using assms(2-4)
proof (induction xs arbitrary: s)
  case (Cons x xs)
  then show ?case using assms(1) [of s x] by (simp split: if_splits)
qed simp

section \<open>Field-wise effect of the bookkeeping\<close>

lemma set_discard [simp]: "set (discard x xs) = set xs - {x}"
  by (auto simp: discard_def)

lemma distinct_discard [simp]: "distinct xs \<Longrightarrow> distinct (discard x xs)"
  by (simp add: discard_def)

lemma length_discard: "distinct xs \<Longrightarrow> length (discard x xs) = (if x \<in> set xs then length xs - 1 else length xs)"
  using length_filter_neq [of xs x] by (simp add: discard_def)

lemma set_add_new [simp]: "set (add_new x xs) = insert x (set xs)"
  by (auto simp: add_new_def)

lemma distinct_add_new [simp]: "distinct xs \<Longrightarrow> distinct (add_new x xs)"
  by (simp add: add_new_def)

lemma length_add_new: "length (add_new x xs) = (if x \<in> set xs then length xs else Suc (length xs))"
  by (simp add: add_new_def)

lemma discard_absent: "x \<notin> set xs \<Longrightarrow> discard x xs = xs"
  by (induction xs) (auto simp: discard_def)

lemma cancel_paused_timer_simps [simp]:
  "sem (cancel_paused_timer sid m) = sem m" "has_slot (cancel_paused_timer sid m) = has_slot m"
  "paused_holds_slot (cancel_paused_timer sid m) = paused_holds_slot m" "paused_set (cancel_paused_timer sid m) = paused_set m"
  "bridges (cancel_paused_timer sid m) = bridges m" "running_tasks (cancel_paused_timer sid m) = running_tasks m"
  "paused_by_key (cancel_paused_timer sid m) = paused_by_key m"
  "api_key_by_session (cancel_paused_timer sid m) = api_key_by_session m"
  by (simp_all add: cancel_paused_timer_def)

lemma release_simps [simp]:
  "sem (release_pause_bookkeeping kh sid m) = sem m"
  "has_slot (release_pause_bookkeeping kh sid m) = has_slot m"
  "paused_set (release_pause_bookkeeping kh sid m) = discard sid (paused_set m)"
  "paused_holds_slot (release_pause_bookkeeping kh sid m) = (if kh then paused_holds_slot m else discard sid (paused_holds_slot m))"
  "bridges (release_pause_bookkeeping kh sid m) = bridges m"
  "running_tasks (release_pause_bookkeeping kh sid m) = running_tasks m"
  "api_key_by_session (release_pause_bookkeeping kh sid m) = api_key_by_session m"
  by (simp_all add: release_pause_bookkeeping_def Let_def split: option.splits)

lemma mark_paused_simps [simp]:
  "has_slot (mark_paused sid now m) = has_slot m"
  "paused_set (mark_paused sid now m) = add_new sid (paused_set m)"
  "paused_holds_slot (mark_paused sid now m) = add_new sid (paused_holds_slot m)"
  "sem (mark_paused sid now m) = (if sid \<in> set (paused_holds_slot m) then sem m else Suc (sem m))"
  "bridges (mark_paused sid now m) = bridges m"
  "running_tasks (mark_paused sid now m) = running_tasks m"
  "api_key_by_session (mark_paused sid now m) = api_key_by_session m"
  by (auto simp: mark_paused_def Let_def add_new_def split: option.splits)

lemma request_cancel_simps [simp]:
  "sem (request_cancel sid m) = sem m" "has_slot (request_cancel sid m) = has_slot m"
  "paused_holds_slot (request_cancel sid m) = paused_holds_slot m" "paused_set (request_cancel sid m) = paused_set m"
  "bridges (request_cancel sid m) = bridges m" "running_tasks (request_cancel sid m) = running_tasks m"
  "paused_by_key (request_cancel sid m) = paused_by_key m" "api_key_by_session (request_cancel sid m) = api_key_by_session m"
  by (simp_all add: request_cancel_def)

lemma release_absent:
  "sid \<notin> set (paused_set m) \<Longrightarrow> paused_by_key (release_pause_bookkeeping kh sid m) = paused_by_key m"
  by (simp add: release_pause_bookkeeping_def Let_def)

section \<open>Slots are conserved\<close>

definition running_slots :: "'b mgr \<Rightarrow> string list" where
  "running_slots m = filter (\<lambda>s. s \<notin> set (paused_holds_slot m)) (has_slot m)"

definition slots_ok :: "nat \<Rightarrow> 'b slots \<Rightarrow> bool" where
  "slots_ok n s = (case s of (m, R) \<Rightarrow>
     distinct (has_slot m) \<and> distinct (paused_holds_slot m) \<and> distinct R
   \<and> set (paused_set m) = set (paused_holds_slot m) \<and> set (paused_holds_slot m) \<subseteq> set (has_slot m)
   \<and> set R \<subseteq> set (paused_holds_slot m) \<and> set (bridges m) \<subseteq> set (has_slot m) \<and> set (has_slot m) \<subseteq> set (running_tasks m)
   \<and> sem m + length (has_slot m) + length R = n + length (paused_holds_slot m))"

lemma length_running_slots:
  assumes "distinct (has_slot m)" and "distinct (paused_holds_slot m)" and "set (paused_holds_slot m) \<subseteq> set (has_slot m)"
  shows "length (running_slots m) + length (paused_holds_slot m) = length (has_slot m)"
proof -
  have "set (filter (\<lambda>s. s \<in> set (paused_holds_slot m)) (has_slot m)) = set (paused_holds_slot m)" using assms(3) by auto
  then have "length (filter (\<lambda>s. s \<in> set (paused_holds_slot m)) (has_slot m)) = length (paused_holds_slot m)"
    using assms(1,2) distinct_card [of "paused_holds_slot m"] distinct_card [of "filter (\<lambda>s. s \<in> set (paused_holds_slot m)) (has_slot m)"]
    by simp
  then show ?thesis
    using sum_length_filter_compl [of "\<lambda>s. s \<in> set (paused_holds_slot m)" "has_slot m"] by (simp add: running_slots_def)
qed

lemma Suc_remove1: "x \<in> set xs \<Longrightarrow> Suc (length (remove1 x xs)) = length xs"
  using length_pos_if_in_set [of x xs] by (simp add: length_remove1 del: length_greater_0_conv)

lemma Suc_discard: "distinct xs \<Longrightarrow> x \<in> set xs \<Longrightarrow> Suc (length (discard x xs)) = length xs"
  using length_pos_if_in_set [of x xs] by (simp add: length_discard del: length_greater_0_conv)

lemmas slot_defs = slots_ok_def track_session_def take_slot_def release_slot_def register_bridge_def hand_back_def
  cancel_bookkeeping_def end_bookkeeping_def task_done_def fresh_sid_def Let_def length_add_new discard_absent

lemma slots_ok_step:
  assumes "slots_ok n s" and "enabled x s" and "orderly x s"
  shows "slots_ok n (perform x s)"
proof (cases s)
  case (Pair m R)
  note s = this
  show ?thesis
  proof (cases x)
    case (Spawn sid a)
    then show ?thesis using assms s by (auto simp: slot_defs)
  next
    case (Start sid)
    then show ?thesis using assms s by (auto simp: slot_defs)
  next
    case (Register sid)
    then show ?thesis using assms s by (auto simp: slot_defs)
  next
    case (PauseAck sid now)
    then show ?thesis using assms s by (auto simp: slot_defs)
  next
    case (Reacquire sid)
    then show ?thesis using assms s by (auto simp: slot_defs)
  next
    case (Rollback sid)
    then show ?thesis using assms s Suc_remove1 [of sid R] by (auto simp: slot_defs)
  next
    case (ResumeAck sid)
    then show ?thesis using assms s Suc_remove1 [of sid R] Suc_discard [of "paused_holds_slot m" sid]
      by (auto simp: slot_defs)
  next
    case (CancelCall sid)
    then show ?thesis using assms s by (auto simp: slot_defs)
  next
    case (Finish sid)
    then show ?thesis
      using assms s Suc_discard [of "has_slot m" sid] Suc_discard [of "paused_holds_slot m" sid]
      by (cases "sid \<in> set (has_slot m)"; cases "sid \<in> set (paused_holds_slot m)") (auto simp: slot_defs)
  qed
qed

lemma slots_ok_init: "slots_ok n (init_mgr n db co b, [])"
  by (simp add: slots_ok_def init_mgr_def)

text \<open>
  C1: concurrency is bounded: over any orderly interleaving of submissions, starts, pauses,
  resumes, cancellations and endings, the free slots, the slots of the running sessions and the
  slots held by resumes in flight always sum up to \<open>max_concurrent\<close>, so no more than
  \<open>max_concurrent\<close> sessions run at once, and a paused session occupies none.
\<close>

theorem slots_conserved:
  assumes "run_ops xs (init_mgr max_concurrent db co b, []) = Some (m, R)"
    and "all_steps orderly xs (init_mgr max_concurrent db co b, [])"
  shows "sem m + length (running_slots m) + length R = max_concurrent
    \<and> (\<forall>sid \<in> set (paused_set m). sid \<notin> set (running_slots m))"
proof -
  have "slots_ok max_concurrent (m, R)"
    by (rule run_ops_invariant [OF slots_ok_step slots_ok_init assms])
  then show ?thesis
    using length_running_slots [of m] by (auto simp: slots_ok_def running_slots_def)
qed

lemma slots_conserved_witness:
  "\<exists>m R. run_ops [Spawn ''a'' no_args, Start ''a'', Register ''a'', PauseAck ''a'' 5, Spawn ''b'' no_args, Start ''b'']
           (init_mgr 1 demo_store (init_coord True) (), []) = Some (m, R)
    \<and> sem m + length (running_slots m) + length R = 1 \<and> running_slots m = [''b''] \<and> paused_set m = [''a'']"
proof -
  let ?xs = "[Spawn ''a'' no_args, Start ''a'', Register ''a'', PauseAck ''a'' 5, Spawn ''b'' no_args, Start ''b'']"
  let ?s = "(init_mgr 1 demo_store (init_coord True) (), [])"
  note d = init_mgr_def track_session_def fresh_sid_def take_slot_def register_bridge_def add_new_def mark_paused_def
    api_key_of_def no_args_def
  have o: "all_steps orderly ?xs ?s" by (simp add: d Let_def)
  obtain m R where r: "run_ops ?xs ?s = Some (m, R)" "running_slots m = [''b'']" "paused_set m = [''a'']"
    by (simp add: d Let_def running_slots_def)
  from slots_conserved [OF r(1) o] r show ?thesis by blast
qed

text \<open>
  cancelling a paused session creates a slot: the pause gave the slot back, \<open>cancel\<close> drops
  the mark that says so, and the \<open>finally\<close> block then releases the slot a second time. From
  every consistent state the free and running slots then sum up to one more than before.
\<close>

lemma cancel_of_paused_over_releases:
  assumes "slots_ok n (m, [])" and "sid \<in> set (paused_set m)"
    and "run_ops [CancelCall sid, Finish sid] (m, []) = Some (m', R)"
  shows "sem m' + length (running_slots m') = Suc n"
proof -
  have d: "distinct (has_slot m)" "distinct (paused_holds_slot m)" "set (paused_set m) = set (paused_holds_slot m)"
      "set (paused_holds_slot m) \<subseteq> set (has_slot m)" "sem m + length (has_slot m) = n + length (paused_holds_slot m)"
    using assms(1) by (simp_all add: slots_ok_def)
  have m': "has_slot m' = discard sid (has_slot m)" "paused_holds_slot m' = discard sid (paused_holds_slot m)"
      "sem m' = Suc (sem m)"
    using assms(2,3) d by (auto simp: cancel_bookkeeping_def end_bookkeeping_def task_done_def release_slot_def Let_def discard_def
        split: if_splits)
  have "length (running_slots m') + length (paused_holds_slot m') = length (has_slot m')"
    using d m' by (intro length_running_slots) auto
  then show ?thesis
    using m' d assms(2) Suc_discard [of "has_slot m" sid] Suc_discard [of "paused_holds_slot m" sid] by auto
qed

lemmas trace_defs = init_mgr_def track_session_def fresh_sid_def take_slot_def release_slot_def register_bridge_def
  mark_paused_def api_key_of_def no_args_def cancel_bookkeeping_def cancel_paused_timer_def release_pause_bookkeeping_def
  request_cancel_def end_bookkeeping_def task_done_def hand_back_def Let_def

definition demo_mgr :: "nat \<Rightarrow> unit mgr" where
  "demo_mgr n = init_mgr n demo_store (init_coord True) ()"

lemma run_ops_append: "run_ops (xs @ ys) s = (case run_ops xs s of None \<Rightarrow> None | Some t \<Rightarrow> run_ops ys t)"
  by (induction xs arbitrary: s) auto

lemma demo_paused_run:
  "\<exists>m. run_ops [Spawn ''a'' no_args, Start ''a'', Register ''a'', PauseAck ''a'' 5, Spawn ''b'' no_args, Start ''b''] (demo_mgr 1, [])
          = Some (m, []) \<and> slots_ok 1 (m, []) \<and> paused_set m = [''a''] \<and> has_slot m = [''a'', ''b''] \<and> paused_holds_slot m = [''a'']
        \<and> running_tasks m = [''a'', ''b'']"
  by (simp add: trace_defs demo_mgr_def add_new_def slots_ok_def)

lemma cancel_of_paused_over_releases_witness:
  "\<exists>m R. run_ops ([Spawn ''a'' no_args, Start ''a'', Register ''a'', PauseAck ''a'' 5, Spawn ''b'' no_args, Start ''b'']
                   @ [CancelCall ''a'', Finish ''a'']) (demo_mgr 1, []) = Some (m, R)
    \<and> running_slots m = [''b''] \<and> sem m + length (running_slots m) = 2"
proof -
  obtain m where m: "run_ops [Spawn ''a'' no_args, Start ''a'', Register ''a'', PauseAck ''a'' 5, Spawn ''b'' no_args, Start ''b'']
          (demo_mgr 1, []) = Some (m, [])" "slots_ok 1 (m, [])" "paused_set m = [''a'']" "has_slot m = [''a'', ''b'']"
      "paused_holds_slot m = [''a'']" "running_tasks m = [''a'', ''b'']"
    using demo_paused_run by blast
  let ?m = "fst (perform (Finish ''a'') (perform (CancelCall ''a'') (m, [])))"
  have r: "run_ops [CancelCall ''a'', Finish ''a''] (m, []) = Some (?m, [])"
    using m by (simp add: cancel_bookkeeping_def Let_def)
  have "running_slots ?m = [''b'']"
    using m by (simp add: running_slots_def cancel_bookkeeping_def end_bookkeeping_def task_done_def release_slot_def Let_def discard_def)
  moreover from cancel_of_paused_over_releases [OF m(2) _ r] m(3) have "sem ?m + length (running_slots ?m) = 2" by simp
  moreover have "run_ops ([Spawn ''a'' no_args, Start ''a'', Register ''a'', PauseAck ''a'' 5, Spawn ''b'' no_args, Start ''b'']
      @ [CancelCall ''a'', Finish ''a'']) (demo_mgr 1, []) = Some (?m, [])"
    using m(1) r by (simp only: run_ops_append option.case)
  ultimately show ?thesis by blast
qed

text \<open>
  late answers from a runner corrupt the slot count: when the session ends while \<open>pause\<close>
  waits, the pause still releases a slot that was already released; when two resumes of one
  session overlap, a slot is lost for good.
\<close>

lemma late_acks_miscount:
  assumes "slots_ok n (m, [])"
  shows "(run_ops [Finish sid, PauseAck sid t] (m, []) = Some (m1, R1) \<and> sid \<in> set (running_slots m)
           \<longrightarrow> sem m1 + length (running_slots m1) = Suc n)
       \<and> (run_ops [Reacquire sid, Reacquire sid, ResumeAck sid, ResumeAck sid] (m, []) = Some (m2, R2) \<and> sid \<in> set (paused_set m)
           \<longrightarrow> Suc (sem m2 + length (running_slots m2)) = n \<and> R2 = [])"
proof -
  have d: "distinct (has_slot m)" "distinct (paused_holds_slot m)" "set (paused_set m) = set (paused_holds_slot m)"
      "set (paused_holds_slot m) \<subseteq> set (has_slot m)" "sem m + length (has_slot m) = n + length (paused_holds_slot m)"
    using assms by (simp_all add: slots_ok_def)
  have "sem m1 + length (running_slots m1) = Suc n"
    if r: "run_ops [Finish sid, PauseAck sid t] (m, []) = Some (m1, R1)" "sid \<in> set (running_slots m)"
  proof -
    have "has_slot m1 = discard sid (has_slot m)" "set (paused_holds_slot m1) = insert sid (set (paused_holds_slot m))"
        "sem m1 = Suc (Suc (sem m))"
      using r by (auto simp: running_slots_def end_bookkeeping_def task_done_def release_slot_def Let_def discard_absent split: if_splits)
    moreover from this have "running_slots m1 = discard sid (running_slots m)"
      by (auto simp: running_slots_def discard_def intro!: filter_cong)
    moreover have "Suc (length (discard sid (running_slots m))) = length (running_slots m)"
      using d(1) r(2) by (intro Suc_discard) (simp_all add: running_slots_def)
    ultimately show ?thesis using length_running_slots [of m] d by simp
  qed
  moreover have "Suc (sem m2 + length (running_slots m2)) = n \<and> R2 = []"
    if r: "run_ops [Reacquire sid, Reacquire sid, ResumeAck sid, ResumeAck sid] (m, []) = Some (m2, R2)" "sid \<in> set (paused_set m)"
  proof -
    have m2: "has_slot m2 = has_slot m" "paused_holds_slot m2 = discard sid (paused_holds_slot m)" "sem m2 = sem m - 2" "sem m \<ge> 2" "R2 = []"
      using r by (auto simp: hand_back_def take_slot_def discard_def split: if_splits)
    have "length (running_slots m2) + length (paused_holds_slot m2) = length (has_slot m2)"
      using d m2 by (intro length_running_slots) auto
    then show ?thesis using m2 d r(2) Suc_discard [of "paused_holds_slot m" sid] by auto
  qed
  ultimately show ?thesis by blast
qed

lemma late_acks_miscount_witness:
  "\<exists>m. run_ops [Finish ''b'', PauseAck ''b'' 9]
         (fst (the (run_ops [Spawn ''a'' no_args, Start ''a'', Register ''a'', PauseAck ''a'' 5, Spawn ''b'' no_args, Start ''b'']
                     (demo_mgr 1, []))), []) = Some (m, [])
     \<and> sem m + length (running_slots m) = 2"
proof -
  obtain m where m: "run_ops [Spawn ''a'' no_args, Start ''a'', Register ''a'', PauseAck ''a'' 5, Spawn ''b'' no_args, Start ''b'']
          (demo_mgr 1, []) = Some (m, [])" "slots_ok 1 (m, [])" "paused_set m = [''a'']" "has_slot m = [''a'', ''b'']"
      "paused_holds_slot m = [''a'']" "running_tasks m = [''a'', ''b'']"
    using demo_paused_run by blast
  let ?m = "fst (perform (PauseAck ''b'' 9) (perform (Finish ''b'') (m, [])))"
  have r: "run_ops [Finish ''b'', PauseAck ''b'' 9] (m, []) = Some (?m, [])" "''b'' \<in> set (running_slots m)"
    using m by (simp_all add: running_slots_def)
  from late_acks_miscount [OF m(2), of "''b''" 9 ?m "[]"] r have "sem ?m + length (running_slots ?m) = Suc 1" by blast
  then have "sem ?m + length (running_slots ?m) = 2" by (simp only: numeral_2_eq_2 One_nat_def)
  with r(1) m(1) show ?thesis by (simp only: option.sel fst_conv) blast
qed

section \<open>Pause counts per API key\<close>

definition paused_of :: "string \<Rightarrow> 'b mgr \<Rightarrow> string list" where
  "paused_of k m = filter (\<lambda>s. api_key_of s m = Some k) (paused_set m)"

definition counts_ok :: "'b mgr \<Rightarrow> bool" where
  "counts_ok m \<longleftrightarrow> distinct (paused_set m) \<and> (\<forall>k. key_count k m = int (length (paused_of k m)))"

lemma key_count_fields:
  "paused_by_key m = paused_by_key m' \<Longrightarrow> key_count k m = key_count k m'"
  by (simp add: key_count_def)

lemma api_key_fields:
  "api_key_by_session m = api_key_by_session m' \<Longrightarrow> api_key_of k m = api_key_of k m'"
  by (simp add: api_key_of_def)

lemma counts_ok_fields:
  assumes "paused_by_key m = paused_by_key m'" and "api_key_by_session m = api_key_by_session m'" and "paused_set m = paused_set m'"
  shows "counts_ok m = counts_ok m'"
  using assms by (simp add: counts_ok_def paused_of_def key_count_def api_key_of_def)

lemma key_count_mark:
  "key_count k (mark_paused sid now m) = (if api_key_of sid m = Some k then key_count k m + 1 else key_count k m)"
  by (auto simp: mark_paused_def Let_def key_count_def api_key_of_def od_get_update split: option.splits)

lemma key_count_release:
  assumes "key_count k m \<ge> 0" and "api_key_of sid m = Some k \<Longrightarrow> key_count k m \<ge> 1"
  shows "key_count k (release_pause_bookkeeping kh sid m) =
     (if sid \<in> set (paused_set m) \<and> api_key_of sid m = Some k then key_count k m - 1 else key_count k m)"
  using assms
  by (auto simp: release_pause_bookkeeping_def Let_def key_count_def api_key_of_def od_get_update od_get_delete split: option.splits)

lemma paused_of_discard: "filter P (discard sid xs) = discard sid (filter P xs)"
  by (auto simp: discard_def intro!: filter_cong)

lemma counts_ok_mark:
  assumes "counts_ok m" and "sid \<notin> set (paused_set m)"
  shows "counts_ok (mark_paused sid now m)"
proof -
  have "api_key_of s (mark_paused sid now m) = api_key_of s m" for s by (rule api_key_fields) simp
  then show ?thesis using assms by (auto simp: counts_ok_def paused_of_def key_count_mark add_new_def)
qed

lemma counts_ok_release:
  assumes "counts_ok m"
  shows "counts_ok (release_pause_bookkeeping kh sid m)"
proof -
  have d: "distinct (paused_set m)" and c: "key_count k m = int (length (paused_of k m))" for k
    using assms by (auto simp: counts_ok_def)
  have ak: "api_key_of s (release_pause_bookkeeping kh sid m) = api_key_of s m" for s by (rule api_key_fields) simp
  have "key_count k (release_pause_bookkeeping kh sid m) = int (length (discard sid (paused_of k m)))" for k
  proof (cases "sid \<in> set (paused_set m)")
    case True
    then have mem: "sid \<in> set (paused_of k m) \<longleftrightarrow> api_key_of sid m = Some k" by (simp add: paused_of_def)
    have l: "sid \<in> set (paused_of k m) \<Longrightarrow> Suc (length (discard sid (paused_of k m))) = length (paused_of k m)"
      using d by (intro Suc_discard) (simp_all add: paused_of_def)
    have "key_count k (release_pause_bookkeeping kh sid m) = (if api_key_of sid m = Some k then key_count k m - 1 else key_count k m)"
      using key_count_release [of k m sid kh] c [of k] mem l True by force
    then show ?thesis using c [of k] mem l by (cases "api_key_of sid m = Some k") (auto simp: discard_absent)
  next
    case False
    then have "sid \<notin> set (paused_of k m)" by (simp add: paused_of_def)
    with False c [of k] key_count_fields [OF release_absent [OF False], of k kh] show ?thesis by (simp add: discard_absent)
  qed
  with d show ?thesis by (simp add: counts_ok_def paused_of_def ak paused_of_discard)
qed

text \<open>Dropping the key of a session that is not paused leaves the counts exact.\<close>

lemma counts_ok_keys:
  assumes "counts_ok m" and "sid \<notin> set (paused_set m)" and "paused_set m' = paused_set m" and "paused_by_key m' = paused_by_key m"
    and "\<And>s. s \<noteq> sid \<Longrightarrow> api_key_of s m' = api_key_of s m"
  shows "counts_ok m'"
proof -
  have "paused_of k m' = paused_of k m" for k
    unfolding paused_of_def assms(3) using assms(2,5) by (intro filter_cong refl) metis
  with assms show ?thesis by (simp add: counts_ok_def key_count_fields [of m' m])
qed

lemma counts_ok_end:
  assumes "counts_ok m"
  shows "counts_ok (task_done sid (end_bookkeeping sid m))"
proof -
  define m1 where "m1 = (if sid \<in> set (has_slot m) \<and> sid \<notin> set (paused_holds_slot m) then release_slot m else m)"
  define m2 where "m2 = release_pause_bookkeeping False sid (cancel_paused_timer sid m1)"
  have "counts_ok (cancel_paused_timer sid m1) = counts_ok m"
    by (rule counts_ok_fields) (simp_all add: m1_def release_slot_def)
  then have "counts_ok m2" unfolding m2_def using assms by (intro counts_ok_release) simp
  then show ?thesis
    by (rule counts_ok_keys [where sid = sid])
       (auto simp: end_bookkeeping_def task_done_def Let_def api_key_of_def od_get_delete
          m1_def [symmetric] m2_def [symmetric], auto simp: m2_def)
qed

lemma counts_ok_request [simp]: "counts_ok (request_cancel sid m) = counts_ok m"
  by (rule counts_ok_fields) simp_all

fun no_double_pause :: "mop \<Rightarrow> 'b slots \<Rightarrow> bool" where
  "no_double_pause (PauseAck sid now) (m, R) \<longleftrightarrow> sid \<notin> set (paused_set m)"
| "no_double_pause _ s \<longleftrightarrow> True"

lemma counts_ok_step:
  assumes "counts_ok (fst s)" and "enabled x s" and "no_double_pause x s"
  shows "counts_ok (fst (perform x s))"
proof (cases s)
  case (Pair m R)
  note s = this
  show ?thesis
  proof (cases x)
    case (Spawn sid a)
    with assms s show ?thesis
      by (auto simp: track_session_def fresh_sid_def api_key_of_def od_get_update intro: counts_ok_keys [where sid = sid and m = m])
  next
    case (PauseAck sid now)
    with assms s show ?thesis by (simp add: counts_ok_mark)
  next
    case (ResumeAck sid)
    have "counts_ok (m\<lparr>paused_holds_slot := discard sid (paused_holds_slot m)\<rparr>)"
      using assms(1) s counts_ok_fields [of m "m\<lparr>paused_holds_slot := discard sid (paused_holds_slot m)\<rparr>"] by simp
    with ResumeAck s show ?thesis by (simp add: hand_back_def counts_ok_release)
  next
    case (CancelCall sid)
    have "counts_ok (cancel_paused_timer sid m)"
      using assms(1) s counts_ok_fields [of m "cancel_paused_timer sid m"] by simp
    then have "counts_ok (if sid \<in> set (paused_set m) then release_pause_bookkeeping False sid (cancel_paused_timer sid m)
                          else cancel_paused_timer sid m)" by (simp add: counts_ok_release)
    with CancelCall s show ?thesis by (simp add: cancel_bookkeeping_def Let_def split: if_splits)
  next
    case (Finish sid)
    with assms s show ?thesis by (simp add: counts_ok_end)
  qed (use assms(1) s counts_ok_fields [of "fst (perform x s)" m] in
       \<open>simp_all add: take_slot_def release_slot_def register_bridge_def\<close>)
qed

text \<open>
  the per-key pause counts are exact: over any interleaving in which no runner
  acknowledges a second pause of a paused session, cancellations and races included, the
  count of an API key is the number of its sessions in the paused set, so \<open>pause\<close> compares the
  right number with \<open>max_paused_per_api_key\<close>.
\<close>

lemma pause_counts_exact:
  assumes "run_ops xs (init_mgr max_concurrent db co b, []) = Some (m, R)"
    and "all_steps no_double_pause xs (init_mgr max_concurrent db co b, [])"
  shows "key_count k m = int (length (paused_of k m))"
proof -
  have "counts_ok (fst (m, R))"
    by (rule run_ops_invariant [where I = "\<lambda>s. counts_ok (fst s)", OF counts_ok_step _ assms])
       (simp_all add: counts_ok_def init_mgr_def key_count_def paused_of_def)
  then show ?thesis by (simp add: counts_ok_def)
qed

lemma pause_counts_exact_witness:
  "\<exists>m. run_ops [Spawn ''a'' (no_args\<lparr>sa_api_key_id := Some ''k''\<rparr>), Start ''a'', Register ''a'', PauseAck ''a'' 5, CancelCall ''a'']
           (demo_mgr 1, []) = Some (m, [])
     \<and> key_count ''k'' m = int (length (paused_of ''k'' m)) \<and> paused_set m = []"
proof -
  let ?xs = "[Spawn ''a'' (no_args\<lparr>sa_api_key_id := Some ''k''\<rparr>), Start ''a'', Register ''a'', PauseAck ''a'' 5, CancelCall ''a'']"
  have o: "all_steps no_double_pause ?xs (demo_mgr 1, [])"
    by (simp add: trace_defs demo_mgr_def add_new_def)
  obtain m where r: "run_ops ?xs (demo_mgr 1, []) = Some (m, [])" "paused_set m = []"
    by (simp add: trace_defs demo_mgr_def add_new_def discard_def key_count_def)
  from pause_counts_exact [OF r(1) [unfolded demo_mgr_def] o [unfolded demo_mgr_def]] r show ?thesis by blast
qed

end
