(* ===== verification/Manager_Calls.thy ===== *)
theory Manager_Calls
  imports Manager_Slots
begin

text \<open>
  Interference between the methods of the manager. A predicate on the manager that neither the
  store, nor the bus, nor the audit trail can change is a \<open>kept\<close> predicate; when the other tasks
  keep it too, every suspension of a method keeps it. With it the pause and resume methods are
  shown to respect the configured limits, and to undo each other.
\<close>

section \<open>Predicates that suspensions keep\<close>

text \<open>
  \<open>F\<close> is what the other tasks may do. The store operations of the manager never remove a
  session row and keep the keys unique.
\<close>

definition cfg_ok :: "('b mgr \<Rightarrow> bool) \<Rightarrow> ('b mgr \<Rightarrow> 'b mgr) set \<Rightarrow> 'b cfg \<Rightarrow> bool" where
  "cfg_ok I F c \<longleftrightarrow> I (fst c) \<and> set (snd c) \<subseteq> F"

definition db_grows :: "store \<Rightarrow> store \<Rightarrow> bool" where
  "db_grows d d' \<longleftrightarrow> (store_ok d \<longrightarrow> store_ok d') \<and> set (map s_id (sessions d)) \<subseteq> set (map s_id (sessions d'))"

lemma db_grows_refl [simp]: "db_grows d d"
  by (simp add: db_grows_def)

lemma db_grows_same_ids:
  "map s_id (sessions d') = map s_id (sessions d) \<Longrightarrow> hitl_requests d' = hitl_requests d \<Longrightarrow> db_grows d d'"
  by (simp add: db_grows_def store_ok_def)

lemma update_session_status_grows [simp]: "db_grows d (snd (update_session_status sid p expected d))"
  by (auto simp: update_session_status_def update_where_pk split: option.splits intro: db_grows_same_ids)

lemma append_frame_grows [simp]: "db_grows d (snd (append_frame sid n ts ty payload d))"
  by (simp add: append_frame_def db_grows_same_ids)

lemma record_trace_grows [simp]: "db_grows d (snd (record_trace_invocation t d))"
  by (simp add: record_trace_invocation_def db_grows_same_ids)

locale kept =
  fixes I :: "'b mgr \<Rightarrow> bool" and F :: "('b mgr \<Rightarrow> 'b mgr) set"
  assumes rely: "f \<in> F \<Longrightarrow> I m \<Longrightarrow> I (f m)"
    and on_store: "I m \<Longrightarrow> db_grows (m_db m) d \<Longrightarrow> I (m\<lparr>m_db := d\<rparr>)"
    and on_bus: "I m \<Longrightarrow> I (m\<lparr>m_bus := b\<rparr>)"
    and on_audits: "I m \<Longrightarrow> I (m\<lparr>m_audits := a\<rparr>)"
begin

lemma suspend_ok: "cfg_ok I F c \<Longrightarrow> cfg_ok I F (suspend c)"
  by (cases "snd c") (auto simp: cfg_ok_def suspend_def rely)

lemma modify_ok: "cfg_ok I F c \<Longrightarrow> (\<And>m. I m \<Longrightarrow> I (f m)) \<Longrightarrow> cfg_ok I F (modify f c)"
  by (simp add: cfg_ok_def modify_def)

lemma put_db_ok: "cfg_ok I F c \<Longrightarrow> db_grows (m_db (fst c)) d \<Longrightarrow> cfg_ok I F ((fst c)\<lparr>m_db := d\<rparr>, snd c)"
  by (simp add: cfg_ok_def on_store)

lemma put_bus_ok: "cfg_ok I F c \<Longrightarrow> cfg_ok I F ((fst c)\<lparr>m_bus := b\<rparr>, snd c)"
  by (simp add: cfg_ok_def on_bus)

lemma on_db_ok:
  assumes "cfg_ok I F c" and "\<And>d. db_grows d (snd (f d))"
  shows "cfg_ok I F (snd (on_db f c))"
  using put_db_ok [OF suspend_ok [OF assms(1)] assms(2)] suspend_ok
  by (simp add: on_db_def Let_def split_beta)

lemma read_session_ok: "cfg_ok I F c \<Longrightarrow> cfg_ok I F (snd (read_session sid c))"
  by (simp add: read_session_def on_db_ok)

lemma publish_event_ok: "cfg_ok I F c \<Longrightarrow> cfg_ok I F (snd (publish_event e ev c))"
  by (simp add: publish_event_def Let_def suspend_ok put_bus_ok split: prod.splits)

lemma audit_record_ok: "cfg_ok I F c \<Longrightarrow> cfg_ok I F (audit_record e ac an tg md c)"
  by (simp add: audit_record_def Let_def suspend_ok modify_ok on_audits split: option.splits)

lemma bind_ok:
  assumes "cfg_ok I F (snd r)" and "\<And>a c. r = (Inr a, c) \<Longrightarrow> cfg_ok I F c \<Longrightarrow> cfg_ok I F (snd (g a c))"
  shows "cfg_ok I F (snd (bind_res r g))"
  using assms by (cases r rule: prod.exhaust; cases "fst r") auto

lemma retry_version_ok: "cfg_ok I F c \<Longrightarrow> cfg_ok I F (snd (retry_version sid actual c))"
  using read_session_ok [of c sid] by (auto simp: retry_version_def split: option.splits prod.splits)

lemma attempts_ok:
  assumes "cfg_ok I F c"
  shows "cfg_ok I F (snd (attempts sid p v c))"
proof -
  obtain r c1 where w: "on_db (update_session_status sid p (Some v)) c = (r, c1)" by (rule prod.exhaust)
  have c1: "cfg_ok I F c1" using on_db_ok [OF assms, of "update_session_status sid p (Some v)"] w by simp
  have "cfg_ok I F (snd (bind_res (retry_version sid actual (suspend c1))
         (\<lambda>v2 c2. case on_db (update_session_status sid p (Some v2)) c2 of
             (Inr n, c3) \<Rightarrow> (Inr n, c3)
           | (Inl x, c3) \<Rightarrow> (Inl (conflict x), c3))))" for actual
  proof (rule bind_ok)
    show "cfg_ok I F (snd (retry_version sid actual (suspend c1)))" by (simp add: c1 suspend_ok retry_version_ok)
    fix v2 c2 assume "cfg_ok I F c2"
    then show "cfg_ok I F (snd (case on_db (update_session_status sid p (Some v2)) c2 of
             (Inr n, c3) \<Rightarrow> (Inr n, c3) | (Inl x, c3) \<Rightarrow> (Inl (conflict x), c3)))"
      using on_db_ok [of c2 "update_session_status sid p (Some v2)"] by (auto split: prod.splits sum.splits)
  qed
  with w c1 show ?thesis by (auto simp: attempts_def split: sum.splits store_exn.splits)
qed

lemma update_status_locked_ok: "cfg_ok I F c \<Longrightarrow> cfg_ok I F (snd (update_status_locked sid expected p c))"
  using read_session_ok [of c sid] attempts_ok by (auto simp: update_status_locked_def split: option.splits prod.splits)

end

lemma cfg_ok_fst: "cfg_ok I F c \<Longrightarrow> I (fst c)"
  by (simp add: cfg_ok_def)

lemma cfg_ok_modify: "cfg_ok I F c \<Longrightarrow> (\<And>m. I m \<Longrightarrow> J (f m)) \<Longrightarrow> cfg_ok J F (modify f c)"
  by (simp add: cfg_ok_def modify_def)

text \<open>The fields that slots and pause accounting depend on, and what leaves them alone.\<close>

definition core :: "'b mgr \<Rightarrow> nat \<times> string list \<times> (string, string option) od \<times> string list \<times> (string, int) od \<times> string list \<times> string list" where
  "core m = (sem m, bridges m, api_key_by_session m, paused_set m, paused_by_key m, paused_holds_slot m, has_slot m)"

definition calm :: "('b mgr \<Rightarrow> 'b mgr) set" where
  "calm = {f. \<forall>m. core (f m) = core m}"

interpretation same_core: kept "\<lambda>m. core m = B" calm for B
  by unfold_locales (simp_all add: core_def calm_def)

interpretation exact_counts: kept counts_ok "{f. \<forall>m. counts_ok m \<longrightarrow> counts_ok (f m)}"
  by unfold_locales (simp_all add: counts_ok_def paused_of_def key_count_def api_key_of_def)

section \<open>The paused caps\<close>

definition caps_ok :: "'b env \<Rightarrow> 'b mgr \<Rightarrow> bool" where
  "caps_ok e m \<longleftrightarrow> length (paused_set m) \<le> max_paused e \<and> (\<forall>k. length (paused_of k m) \<le> max_paused_per_api_key e)"

lemma caps_counts_core:
  assumes "core m = core m'"
  shows "counts_ok m = counts_ok m'" and "caps_ok e m = caps_ok e m'" and "check_paused_caps e sid m = check_paused_caps e sid m'"
  using assms by (auto simp: core_def counts_ok_def caps_ok_def paused_of_def key_count_def api_key_of_def check_paused_caps_def
      split: option.splits)

text \<open>Timers and states are not part of the core.\<close>

lemma core_simps [simp]:
  "core (arm_paused_timer e sid t m) = core m" "core (set_state sid st m) = core m" "core (cancel_paused_timer sid m) = core m"
  by (simp_all add: core_def arm_paused_timer_def cancel_paused_timer_def set_state_def Let_def)

lemma core_mark_cong: "core m = core m' \<Longrightarrow> core (mark_paused sid now m) = core (mark_paused sid now m')"
  by (auto simp: core_def mark_paused_def Let_def api_key_of_def key_count_def split: option.splits)

lemma core_hand_back_cong: "core m = core m' \<Longrightarrow> core (hand_back sid m) = core (hand_back sid m')"
  by (auto simp: core_def hand_back_def release_pause_bookkeeping_def Let_def api_key_of_def key_count_def split: option.splits)

lemma pause_commit_core:
  fixes c :: "'b cfg"
  assumes "cfg_ok (\<lambda>m. core m = B) calm c" and "\<And>m :: 'b mgr. core m = B \<Longrightarrow> core (mark_paused sid now m) = B'"
  shows "core (fst (snd (pause_commit e now sid reason v c))) = B'"
proof -
  have c0: "cfg_ok (\<lambda>m. core m = B') calm (modify (mark_paused sid now) c)"
    by (rule cfg_ok_modify [OF assms(1)]) (rule assms(2))
  have "cfg_ok (\<lambda>m. core m = B') calm (snd (pause_commit e now sid reason v c))"
    unfolding pause_commit_def Let_def
    by (intro same_core.bind_ok same_core.update_status_locked_ok c0 same_core.publish_event_ok same_core.audit_record_ok)
       (auto intro!: same_core.modify_ok)
  then show ?thesis by (rule cfg_ok_fst)
qed

text \<open>What a pause does to the core: nothing, or the marks of a session that passed both caps.\<close>

lemma pause_core:
  assumes "set fs \<subseteq> calm"
  shows "core (fst (snd (pause e a now sid reason (m, fs)))) = core m
       \<or> (core (fst (snd (pause e a now sid reason (m, fs)))) = core (mark_paused sid now m)
          \<and> sid \<notin> set (paused_set m) \<and> check_paused_caps e sid m = Inr ())"
proof -
  have c: "cfg_ok (\<lambda>x. core x = core m) calm (m, fs)" using assms by (simp add: cfg_ok_def)
  obtain row c1 where rd: "read_session sid (m, fs) = (row, c1)" by (rule prod.exhaust)
  have c1: "cfg_ok (\<lambda>x. core x = core m) calm c1" using same_core.read_session_ok [OF c, of sid] rd by simp
  have s1: "cfg_ok (\<lambda>x. core x = core m) calm (suspend c1)" by (rule same_core.suspend_ok [OF c1])
  have p: "core (fst (snd (pause_commit e now sid reason v (suspend c1)))) = core (mark_paused sid now m)" for v
    by (rule pause_commit_core [OF s1 core_mark_cong])
  show ?thesis
    using cfg_ok_fst [OF c1] cfg_ok_fst [OF s1] p rd
    by (auto simp: pause_def modify_def split: sum.splits option.splits ack.splits)
qed

lemma caps_after_mark:
  assumes "counts_ok m" and "caps_ok e m" and "sid \<notin> set (paused_set m)" and "check_paused_caps e sid m = Inr ()"
  shows "caps_ok e (mark_paused sid now m)"
proof -
  have ak: "api_key_of s (mark_paused sid now m) = api_key_of s m" for s by (rule api_key_fields) simp
  have "length (paused_set m) < max_paused e" using assms(4) by (auto simp: check_paused_caps_def split: if_splits)
  moreover have "length (paused_of k m) < max_paused_per_api_key e" if "api_key_of sid m = Some k" for k
    using assms(1,4) that by (auto simp: check_paused_caps_def counts_ok_def split: if_splits)
  ultimately show ?thesis
    using assms(2,3) by (auto simp: caps_ok_def paused_of_def ak add_new_def)
qed

text \<open>
  a pause that no other pause, resume, cancel or ending overtakes keeps the paused sessions
  within both limits, whatever the runner answers, whatever the writes do and however they
  fail, and keeps the per-key counts exact; a pause that would exceed a limit is refused and
  changes nothing.
\<close>

lemma pause_respects_caps:
  assumes "counts_ok m" and "caps_ok e m" and "set fs \<subseteq> calm"
  shows "counts_ok (fst (snd (pause e a now sid reason (m, fs)))) \<and> caps_ok e (fst (snd (pause e a now sid reason (m, fs))))
       \<and> (sid \<in> set (bridges m) \<and> sid \<notin> set (paused_set m)
            \<and> (length (paused_set m) = max_paused e \<or> (\<exists>k. api_key_of sid m = Some k \<and> length (paused_of k m) = max_paused_per_api_key e))
          \<longrightarrow> pause e a now sid reason (m, fs) = (Inl MaxPausedExceeded, (m, fs)))"
proof -
  let ?m = "fst (snd (pause e a now sid reason (m, fs)))"
  have "counts_ok ?m \<and> caps_ok e ?m"
    using pause_core [OF assms(3), of e a now sid reason m]
  proof
    assume "core ?m = core m"
    then show ?thesis using assms(1,2) caps_counts_core(1,2) by blast
  next
    assume "core ?m = core (mark_paused sid now m) \<and> sid \<notin> set (paused_set m) \<and> check_paused_caps e sid m = Inr ()"
    then show ?thesis
      using caps_counts_core(1,2) counts_ok_mark [OF assms(1)] caps_after_mark [OF assms(1,2)] by blast
  qed
  moreover have "pause e a now sid reason (m, fs) = (Inl MaxPausedExceeded, (m, fs))"
    if "sid \<in> set (bridges m)" "sid \<notin> set (paused_set m)"
       "length (paused_set m) = max_paused e \<or> (\<exists>k. api_key_of sid m = Some k \<and> length (paused_of k m) = max_paused_per_api_key e)"
    using that assms(1) by (auto simp: pause_def check_paused_caps_def counts_ok_def)
  ultimately show ?thesis by blast
qed

section \<open>Uninterrupted calls\<close>

lemma suspend_Nil [simp]: "suspend (m, []) = (m, [])"
  by (simp add: suspend_def)

lemma modify_pair [simp]: "modify f (m, fs) = (f m, fs)"
  by (simp add: modify_def)

lemma on_db_Nil [simp]: "on_db f (m, []) = (fst (f (m_db m)), (m\<lparr>m_db := snd (f (m_db m))\<rparr>, []))"
  by (simp add: on_db_def split: prod.splits)

lemma read_session_Nil [simp]: "read_session sid (m, []) = (get_session sid (m_db m), (m, []))"
  by (simp add: read_session_def)

definition put_row :: "string \<Rightarrow> patch \<Rightarrow> store \<Rightarrow> store" where
  "put_row sid p db = db\<lparr>sessions := update_where (\<lambda>r. s_id r = sid) (\<lambda>r. apply_patch p (Suc (s_version r)) r) (sessions db)\<rparr>"

lemma get_session_put_row [simp]:
  "get_session k (put_row sid p db) =
     (if k = sid then map_option (\<lambda>r. apply_patch p (Suc (s_version r)) r) (get_session k db) else get_session k db)"
  using find_row_mem [of s_id k "sessions db"]
  by (cases "find_row s_id k (sessions db)") (auto simp: put_row_def get_session_def find_row_update)

lemma store_ok_put_row [simp]: "store_ok (put_row sid p db) = store_ok db"
  by (simp add: store_ok_def put_row_def update_where_pk)

lemma update_hit:
  assumes "store_ok db" and "get_session sid db = Some row" and "p \<noteq> no_patch"
  shows "update_session_status sid p (Some (s_version row)) db = (Inr (Suc (s_version row)), put_row sid p db)"
proof -
  have d: "distinct (map s_id (sessions db))" using assms(1) by (simp add: store_ok_def)
  have row: "row \<in> set (sessions db)" "s_id row = sid" using assms(2) find_row_mem [of s_id sid "sessions db" row] by (simp_all add: get_session_def)
  then have only: "r \<in> set (sessions db) \<Longrightarrow> s_id r = sid \<Longrightarrow> r = row" for r
    using find_row_unique [OF d, of r sid] assms(2) by (simp add: get_session_def)
  then have "update_where (\<lambda>r. s_id r = sid \<and> s_version r = s_version row) (apply_patch p (Suc (s_version row))) (sessions db)
      = update_where (\<lambda>r. s_id r = sid) (\<lambda>r. apply_patch p (Suc (s_version r)) r) (sessions db)"
    by (auto simp: update_where_def)
  with row assms(3) show ?thesis by (auto simp: update_session_status_def put_row_def)
qed

lemma update_miss:
  assumes "store_ok db" and "get_session sid db = Some row" and "p \<noteq> no_patch" and "s_version row \<noteq> v"
  shows "update_session_status sid p (Some v) db = (Inl (ConcurrencyError v (Some (s_version row))), db)"
  using session_cas.write_miss [of db p sid v] assms by (simp add: checked_status_def get_session_version_def)

text \<open>With the row in place, an uninterrupted checked write always lands, at the row's own version.\<close>

lemma locked_write_lands:
  assumes "store_ok (m_db m)" and "get_session sid (m_db m) = Some row" and "p \<noteq> no_patch"
  shows "update_status_locked sid expected p (m, []) = (Inr (Suc (s_version row)), (m\<lparr>m_db := put_row sid p (m_db m)\<rparr>, []))"
proof (cases "expected = None \<or> expected = Some (s_version row)")
  case True
  with assms update_hit [OF assms] show ?thesis by (auto simp: update_status_locked_def attempts_def)
next
  case False
  then obtain v where "expected = Some v" "s_version row \<noteq> v" by auto
  with update_miss [OF assms, of v] update_hit [OF assms] show ?thesis
    by (simp add: update_status_locked_def attempts_def retry_version_def)
qed

text \<open>
  the last writer wins: whatever another task did to the row in the meantime, a terminal
  status included, the second attempt of a checked write takes the version it is told and
  overwrites it; the conflict never reaches the caller unless a second task interferes.
\<close>

lemma stale_write_overwrites:
  assumes "store_ok (m_db (f m))" and "get_session sid (m_db (f m)) = Some row" and "p \<noteq> no_patch"
  shows "update_status_locked sid (Some v) p (m, [f]) = (Inr (Suc (s_version row)), ((f m)\<lparr>m_db := put_row sid p (m_db (f m))\<rparr>, []))"
proof -
  have "update_status_locked sid (Some v) p (m, [f]) = update_status_locked sid (Some v) p (f m, [])"
    by (simp add: update_status_locked_def attempts_def on_db_def suspend_def split: prod.splits)
  with locked_write_lands [OF assms] show ?thesis by simp
qed

definition demo_cancelled :: "unit mgr \<Rightarrow> unit mgr" where
  "demo_cancelled m = m\<lparr>m_db := put_row ''a'' (no_patch\<lparr>p_status := Some ''cancelled''\<rparr>) (m_db m)\<rparr>"

lemma stale_write_overwrites_witness:
  "\<exists>c. update_status_locked ''a'' (Some 0) (no_patch\<lparr>p_status := Some ''running''\<rparr>) (demo_mgr 1, [demo_cancelled]) = (Inr 2, c)
     \<and> map_option s_status (get_session ''a'' (m_db (demo_cancelled (demo_mgr 1)))) = Some ''cancelled''
     \<and> map_option s_status (get_session ''a'' (m_db (fst c))) = Some ''running''"
proof -
  let ?p = "no_patch\<lparr>p_status := Some ''running''\<rparr>" and ?m = "demo_cancelled (demo_mgr 1)"
  have r: "get_session ''a'' (m_db ?m) = Some (apply_patch (no_patch\<lparr>p_status := Some ''cancelled''\<rparr>) 1
      \<lparr>s_id = ''a'', s_status = ''queued'', s_spec = [], s_tags = [], s_submitted_at = 7, s_started_at = None, s_ended_at = None,
       s_end_reason = None, s_trace_id = None, s_backend = ''inprocess'', s_runtime_id = None, s_input_tokens = 0,
       s_output_tokens = 0, s_cost = 0, s_turn_count = 0, s_version = 0, s_paused_at = None, s_owner = None,
       s_description = None, s_parent = None\<rparr>)" (is "_ = Some ?row")
    by (simp add: demo_cancelled_def demo_mgr_def init_mgr_def demo_store_def create_session_def get_session_def find_row_def put_row_def
        update_where_def apply_patch_def)
  have ok: "store_ok (m_db ?m)"
    by (simp add: demo_cancelled_def demo_mgr_def init_mgr_def) (simp add: store_ok_def demo_store_def create_session_def)
  have p: "?p \<noteq> no_patch" by (simp add: no_patch_def)
  from stale_write_overwrites [where f = demo_cancelled and m = "demo_mgr 1", OF ok r p, of 0] r show ?thesis by (simp add: apply_patch_def no_patch_def)
qed

section \<open>Pause then resume\<close>

text \<open>A bus and a trail that accept everything.\<close>

definition accepting :: "'b env \<Rightarrow> bool" where
  "accepting e \<longleftrightarrow> (\<forall>ev b. fst (pub e ev b))"

lemma publish_Nil: "accepting e \<Longrightarrow> publish_event e ev (m, []) = (Inr (), (m\<lparr>m_bus := snd (pub e ev (m_bus m))\<rparr>, []))"
  by (simp add: publish_event_def accepting_def split: prod.splits) (metis fst_conv)

lemma audit_Nil: "\<exists>as. audit_record e ac an tg md (m, []) = (m\<lparr>m_audits := as\<rparr>, [])"
proof -
  have "\<exists>as. m = m\<lparr>m_audits := as\<rparr>" by (rule exI [of _ "m_audits m"]) simp
  then show ?thesis by (auto simp: audit_record_def Let_def split: option.splits)
qed

lemma pause_commit_succeeds:
  assumes "accepting e" and "store_ok (m_db m)" and "get_session sid (m_db m) = Some row"
  shows "\<exists>m1. pause_commit e now sid reason v (m, []) = (Inr (), (m1, [])) \<and> core m1 = core (mark_paused sid now m)
           \<and> m_db m1 = put_row sid (no_patch\<lparr>p_status := Some ''paused'', p_paused_at := Some now\<rparr>) (m_db m)
           \<and> map_of (paused_timers m1) sid = Some (paused_timeout_s e) \<and> map_of (session_states m1) sid = Some PAUSED"
proof -
  let ?p = "no_patch\<lparr>p_status := Some ''paused'', p_paused_at := Some now\<rparr>"
  have db: "m_db (mark_paused sid now m) = m_db m" by (simp add: mark_paused_def Let_def split: option.splits)
  have p: "?p \<noteq> no_patch" by (simp add: no_patch_def)
  let ?m = "set_state sid PAUSED ((mark_paused sid now m)\<lparr>m_db := put_row sid ?p (m_db m)\<rparr>)"
  have w: "update_status_locked sid (Some v) ?p (mark_paused sid now m, [])
      = (Inr (Suc (s_version row)), ((mark_paused sid now m)\<lparr>m_db := put_row sid ?p (m_db m)\<rparr>, []))"
    using locked_write_lands [of "mark_paused sid now m" sid row ?p "Some v"] assms(2,3) p db by simp
  obtain as where as: "audit_record e (owner_of sid ?m) ''session_pause'' sid [(PStr ''reason'', opt_text reason)] (?m, [])
      = (?m\<lparr>m_audits := as\<rparr>, [])" using audit_Nil by blast
  show ?thesis
    using w as publish_Nil [OF assms(1)]
    by (simp add: pause_commit_def) (simp add: core_def arm_paused_timer_def cancel_paused_timer_def set_state_def od_get_update)
qed

lemma pause_succeeds:
  assumes "accepting e" and "store_ok (m_db m)" and "get_session sid (m_db m) = Some row"
    and "sid \<in> set (bridges m)" and "sid \<notin> set (paused_set m)" and "check_paused_caps e sid m = Inr ()"
  shows "\<exists>m1. pause e AckOk now sid reason (m, []) = (Inr (), (m1, [])) \<and> core m1 = core (mark_paused sid now m)
           \<and> m_db m1 = put_row sid (no_patch\<lparr>p_status := Some ''paused'', p_paused_at := Some now\<rparr>) (m_db m)
           \<and> map_of (paused_timers m1) sid = Some (paused_timeout_s e) \<and> map_of (session_states m1) sid = Some PAUSED"
  using pause_commit_succeeds [OF assms(1-3), of now reason "s_version row"] assms(3-6) by (simp add: pause_def)

lemma resume_succeeds:
  assumes "accepting e" and "store_ok (m_db m)" and "get_session sid (m_db m) = Some row"
    and "sid \<in> set (bridges m)" and "sid \<in> set (paused_set m)" and "sem m > 0"
  shows "\<exists>m1. resume e AckOk sid hint (m, []) = (Inr (), (m1, [])) \<and> core m1 = core (hand_back sid (take_slot m))
           \<and> m_db m1 = put_row sid (no_patch\<lparr>p_status := Some ''running''\<rparr>) (m_db m)
           \<and> map_of (paused_timers m1) sid = None \<and> map_of (session_states m1) sid = Some RUNNING"
proof -
  let ?p = "no_patch\<lparr>p_status := Some ''running''\<rparr>" and ?h = "hand_back sid (take_slot (cancel_paused_timer sid m))"
  have db: "m_db ?h = m_db m" "paused_timers ?h = AList.delete sid (paused_timers m)"
    by (simp_all add: hand_back_def release_pause_bookkeeping_def take_slot_def cancel_paused_timer_def Let_def split: option.splits)
  have c: "core ?h = core (hand_back sid (take_slot m))"
    by (rule core_hand_back_cong) (simp add: core_def take_slot_def)
  have p: "?p \<noteq> no_patch" by (simp add: no_patch_def)
  let ?m = "set_state sid RUNNING (?h\<lparr>m_db := put_row sid ?p (m_db m)\<rparr>)"
  have w: "update_status_locked sid (Some v) ?p (?h, []) = (Inr (Suc (s_version row)), (?h\<lparr>m_db := put_row sid ?p (m_db m)\<rparr>, []))" for v
    using locked_write_lands [of ?h sid row ?p "Some v"] assms(2,3) p db(1) by simp
  obtain as where as: "audit_record e (owner_of sid ?m) ''session_resume'' sid [(PStr ''hint'', opt_text hint)] (?m, [])
      = (?m\<lparr>m_audits := as\<rparr>, [])" using audit_Nil by blast
  have tk: "m_db (cancel_paused_timer sid m) = m_db m" by (simp add: cancel_paused_timer_def)
  show ?thesis
    using assms w as c db publish_Nil [OF assms(1)] tk
    by (simp add: resume_def resume_commit_def wait_slot_def) (simp add: core_def set_state_def od_get_update od_get_delete)
qed

text \<open>
  C6: resuming undoes pausing: an accepted pause gives the slot back, arms the watchdog and
  moves the row to \<open>paused\<close>; resuming with no other call in between takes the slot again, removes
  the watchdog, restores the paused set, the slot marks and the per-key counts, and the row is
  \<open>running\<close> again two versions later.
\<close>

theorem pause_resume_round_trip:
  assumes "accepting e" and "store_ok (m_db m)" and "get_session sid (m_db m) = Some row" and "counts_ok m"
    and "sid \<in> set (bridges m)" and "sid \<notin> set (paused_set m)" and "sid \<notin> set (paused_holds_slot m)"
    and "check_paused_caps e sid m = Inr ()"
  shows "\<exists>m1 m2. pause e AckOk now sid reason (m, []) = (Inr (), (m1, [])) \<and> resume e AckOk sid hint (m1, []) = (Inr (), (m2, []))
     \<and> sem m1 = Suc (sem m) \<and> map_of (paused_timers m1) sid = Some (paused_timeout_s e)
     \<and> map_option s_status (get_session sid (m_db m1)) = Some ''paused''
     \<and> sem m2 = sem m \<and> paused_set m2 = paused_set m \<and> paused_holds_slot m2 = paused_holds_slot m
     \<and> (\<forall>k. key_count k m2 = key_count k m) \<and> map_of (paused_timers m2) sid = None
     \<and> map_option (\<lambda>r. (s_status r, s_version r)) (get_session sid (m_db m2)) = Some (''running'', s_version row + 2)"
proof -
  obtain m1 where p: "pause e AckOk now sid reason (m, []) = (Inr (), (m1, []))" and c1: "core m1 = core (mark_paused sid now m)"
      and db1: "m_db m1 = put_row sid (no_patch\<lparr>p_status := Some ''paused'', p_paused_at := Some now\<rparr>) (m_db m)"
      and t1: "map_of (paused_timers m1) sid = Some (paused_timeout_s e)"
    using pause_succeeds [OF assms(1,2,3,5,6,8), of now reason] by blast
  obtain row1 where r1: "get_session sid (m_db m1) = Some row1" using assms(3) db1 by simp
  have f1: "sem m1 = Suc (sem m)" "bridges m1 = bridges m" "paused_set m1 = paused_set m @ [sid]"
      "paused_holds_slot m1 = paused_holds_slot m @ [sid]"
    using c1 assms(6,7) by (auto simp: core_def add_new_def)
  obtain m2 where r: "resume e AckOk sid hint (m1, []) = (Inr (), (m2, []))" and c2: "core m2 = core (hand_back sid (take_slot m1))"
      and db2: "m_db m2 = put_row sid (no_patch\<lparr>p_status := Some ''running''\<rparr>) (m_db m1)" and t2: "map_of (paused_timers m2) sid = None"
    using resume_succeeds [OF assms(1) _ r1, of hint] assms(2,5) db1 f1 by auto
  have "counts_ok m1" using counts_ok_mark [OF assms(4,6), of now] caps_counts_core(1) [OF c1] by simp
  then have k1: "counts_ok (hand_back sid (take_slot m1))"
    by (simp add: hand_back_def take_slot_def counts_ok_release counts_ok_fields [of "m1\<lparr>sem := s, paused_holds_slot := h\<rparr>" m1 for s h])
  have f2: "sem m2 = sem m" "paused_set m2 = discard sid (paused_set m @ [sid])" "paused_holds_slot m2 = discard sid (paused_holds_slot m @ [sid])"
      "api_key_by_session m2 = api_key_by_session m"
    using c2 c1 f1 by (auto simp: core_def hand_back_def take_slot_def)
  have f3: "paused_set m2 = paused_set m" "paused_holds_slot m2 = paused_holds_slot m"
    using f2(2,3) assms(6,7) discard_absent by (auto simp: discard_def)
  have "counts_ok m2" using k1 caps_counts_core(1) [OF c2] by simp
  then have "\<forall>k. key_count k m2 = key_count k m"
    using assms(4) f3(1) api_key_fields [OF f2(4)] by (simp add: counts_ok_def paused_of_def)
  with p r f1(1) f2(1) f3 t1 t2 db1 db2 assms(3) show ?thesis
    by (simp add: apply_patch_def no_patch_def)
qed

definition demo_env :: "event_body list env" where
  "demo_env = \<lparr>pub = (\<lambda>ev b. (True, b @ [ev])), pub_topic = (\<lambda>_ _ b. (True, b)), audit_sink = Some (\<lambda>_. True),
     user_credentials = None, redactor = \<lparr>patterns = [], sensitive_keys = []\<rparr>, max_paused = 1, max_paused_per_api_key = 1,
     paused_timeout_s = 30, default_timeout_s = 1800, require_per_user_credentials = False, show_value = (\<lambda>_. []),
     show_exn = (\<lambda>_. OtherError ''RuntimeError'' []), path_text = id, parse_iso = (\<lambda>_. None)\<rparr>"

text \<open>Two running sessions, neither paused.\<close>

definition demo_pair :: "event_body list mgr" where
  "demo_pair = (init_mgr 2 demo_store (init_coord True) [])\<lparr>sem := 0, running_tasks := [''a'', ''b''], bridges := [''a'', ''b''],
     has_slot := [''a'', ''b''], api_key_by_session := [(''a'', Some ''k''), (''b'', None)]\<rparr>"

lemma demo_pair_facts:
  "accepting demo_env" "store_ok (m_db demo_pair)" "\<exists>row. get_session ''a'' (m_db demo_pair) = Some row \<and> s_version row = 0"
  "\<exists>row. get_session ''b'' (m_db demo_pair) = Some row"
  "counts_ok demo_pair" "caps_ok demo_env demo_pair" "check_paused_caps demo_env sid demo_pair = Inr ()"
  by (simp_all add: demo_env_def demo_pair_def accepting_def init_mgr_def demo_store_def create_session_def store_ok_def
      get_session_def find_row_def counts_ok_def paused_of_def key_count_def caps_ok_def check_paused_caps_def split: option.splits)

lemma pause_resume_round_trip_witness:
  "\<exists>m1 m2. pause demo_env AckOk 9 ''a'' None (demo_pair, []) = (Inr (), (m1, [])) \<and> resume demo_env AckOk ''a'' None (m1, []) = (Inr (), (m2, []))
     \<and> sem m1 = 1 \<and> sem m2 = 0 \<and> paused_set m2 = []
     \<and> map_option (\<lambda>r. (s_status r, s_version r)) (get_session ''a'' (m_db m2)) = Some (''running'', 2)"
proof -
  obtain row where row: "get_session ''a'' (m_db demo_pair) = Some row" "s_version row = 0" using demo_pair_facts(3) by blast
  have f: "''a'' \<in> set (bridges demo_pair)" "''a'' \<notin> set (paused_set demo_pair)" "''a'' \<notin> set (paused_holds_slot demo_pair)"
      "sem demo_pair = 0" "paused_set demo_pair = []"
    by (simp_all add: demo_pair_def init_mgr_def)
  show ?thesis
    using pause_resume_round_trip [OF demo_pair_facts(1,2) row(1) demo_pair_facts(5) f(1-3) demo_pair_facts(7), of 9 None None] f(4,5) row(2)
    by auto
qed

lemma pause_respects_caps_witness:
  "\<exists>m r. pause demo_env AckOk 9 ''a'' None (demo_pair, [id, id]) = (r, (m, [])) \<and> paused_set m = [''a'']
     \<and> caps_ok demo_env m \<and> pause demo_env AckOk 9 ''b'' None (m, []) = (Inl MaxPausedExceeded, (m, []))"
proof -
  have c: "set [id, id] \<subseteq> calm" "set [] \<subseteq> calm" by (simp_all add: calm_def)
  let ?m = "fst (snd (pause demo_env AckOk 9 ''a'' None (demo_pair, [])))"
  have "read_session ''a'' (demo_pair, [id, id]) = read_session ''a'' (demo_pair, [])"
    by (simp add: read_session_def on_db_def suspend_def)
  then have s: "pause demo_env AckOk 9 ''a'' None (demo_pair, [id, id]) = pause demo_env AckOk 9 ''a'' None (demo_pair, [])"
    using demo_pair_facts(7) by (simp add: pause_def demo_pair_def init_mgr_def)
  obtain row where row: "get_session ''a'' (m_db demo_pair) = Some row" using demo_pair_facts(3) by blast
  obtain m where m: "pause demo_env AckOk 9 ''a'' None (demo_pair, []) = (Inr (), (m, []))" "core m = core (mark_paused ''a'' 9 demo_pair)"
    using pause_succeeds [OF demo_pair_facts(1,2) row _ _ demo_pair_facts(7), of 9 None] by (auto simp: demo_pair_def init_mgr_def)
  have f: "paused_set m = [''a'']" "bridges m = [''a'', ''b'']" using m(2) by (auto simp: core_def add_new_def demo_pair_def init_mgr_def)
  have ok: "counts_ok m" "caps_ok demo_env m"
    using pause_respects_caps [OF demo_pair_facts(5,6) c(1), of AckOk 9 "''a''" None] s m(1) by simp_all
  have "pause demo_env AckOk 9 ''b'' None (m, []) = (Inl MaxPausedExceeded, (m, []))"
    using pause_respects_caps [OF ok c(2), of AckOk 9 "''b''" None] f by (simp add: demo_env_def)
  with s m(1) f(1) ok(2) show ?thesis by auto
qed

text \<open>
  the caps are checked before the pause waits: a second pause that runs while the first
  waits for its runner passes the same check, and the paused set outgrows \<open>max_paused\<close>.
\<close>

lemma overlapping_pauses_exceed_cap:
  "\<exists>m fs. pause demo_env AckOk 9 ''a'' None
             (demo_pair, [id, id, \<lambda>m. fst (snd (pause demo_env AckOk 9 ''b'' None (m, [])))]) = (Inr (), (m, fs))
     \<and> max_paused demo_env = 1 \<and> set (paused_set m) = {''a'', ''b''} \<and> length (paused_set m) = 2"
proof -
  obtain ra rb where rows: "get_session ''a'' (m_db demo_pair) = Some ra" "get_session ''b'' (m_db demo_pair) = Some rb"
    using demo_pair_facts(3,4) by blast
  obtain mb where mb: "pause demo_env AckOk 9 ''b'' None (demo_pair, []) = (Inr (), (mb, []))" "core mb = core (mark_paused ''b'' 9 demo_pair)"
      "m_db mb = put_row ''b'' (no_patch\<lparr>p_status := Some ''paused'', p_paused_at := Some 9\<rparr>) (m_db demo_pair)"
    using pause_succeeds [OF demo_pair_facts(1,2) rows(2) _ _ demo_pair_facts(7), of 9 None] by (auto simp: demo_pair_def init_mgr_def)
  have "store_ok (m_db mb)" "get_session ''a'' (m_db mb) = Some ra" using mb(3) rows demo_pair_facts(2) by simp_all
  from pause_commit_succeeds [OF demo_pair_facts(1) this, of 9 None "s_version ra"]
  obtain m where m: "pause_commit demo_env 9 ''a'' None (s_version ra) (mb, []) = (Inr (), (m, []))" "core m = core (mark_paused ''a'' 9 mb)"
    by blast
  have "read_session ''a'' (demo_pair, [id, id, f]) = (Some ra, (demo_pair, [f]))" for f
    using rows by (simp add: read_session_def on_db_def suspend_def)
  then have "pause demo_env AckOk 9 ''a'' None (demo_pair, [id, id, \<lambda>m. fst (snd (pause demo_env AckOk 9 ''b'' None (m, [])))])
      = (Inr (), (m, []))"
    using demo_pair_facts(7) mb(1) m(1) by (simp add: pause_def suspend_def demo_pair_def init_mgr_def)
  moreover have "paused_set m = [''b'', ''a'']"
    using m(2) mb(2) by (auto simp: core_def add_new_def demo_pair_def init_mgr_def)
  ultimately show ?thesis by (auto simp: demo_env_def)
qed

end
