(* ===== verification/Manager_Life.thy ===== *)
theory Manager_Life
  imports Manager_Calls
begin

text \<open>
  The life of a session in the manager: how \<open>_run\<close> ends and what it leaves behind, the frame
  pipeline, \<open>submit\<close> with its credential rules, \<open>retry\<close> and \<open>shutdown\<close>.
\<close>

section \<open>The frame pipeline\<close>

locale kept_metrics = kept +
  assumes on_metric_writes: "I m \<Longrightarrow> I (m\<lparr>metrics := x\<rparr>)"
begin

lemma on_metrics_ok: "I m \<Longrightarrow> I (on_metrics sid f m)"
  by (simp add: on_metrics_def on_metric_writes split: option.splits)

lemma store_frame_ok:
  assumes "cfg_ok I F c"
  shows "cfg_ok I F (store_frame e sid f ts c)"
proof (cases "py_int (dget_default f ''seq'' (PInt 0))")
  case (Inl x)
  then show ?thesis using assms by (simp add: store_frame_def modify_ok on_metrics_ok)
next
  case (Inr n)
  let ?w = "on_db (append_frame sid n ts (to_text e (dget_default f ''type'' (PStr ''unknown''))) f) c"
  have "cfg_ok I F (snd ?w)" by (rule on_db_ok [OF assms]) simp
  with Inr show ?thesis by (cases ?w; cases "fst ?w") (simp_all add: store_frame_def cfg_ok_def on_metrics_ok)
qed

lemma harvest_end_ok: "cfg_ok I F c \<Longrightarrow> cfg_ok I F (snd (harvest_end sid f c))"
  by (auto simp: harvest_end_def cfg_ok_def record_session_end_def on_metrics_ok split: option.splits prod.splits sum.splits py_exn.splits)

lemma record_trace_frame_ok: "cfg_ok I F c \<Longrightarrow> cfg_ok I F (record_trace_frame e sid f ts c)"
  by (simp add: record_trace_frame_def on_db_ok split: pyval.splits sum.splits)

lemma publish_frame_ok: "cfg_ok I F c \<Longrightarrow> cfg_ok I F (snd (publish_frame e sid f c))"
  by (simp add: publish_frame_def Let_def publish_event_ok suspend_ok put_bus_ok split: prod.splits sum.splits option.splits)

lemma persist_frame_ok: "cfg_ok I F c \<Longrightarrow> cfg_ok I F (snd (persist_frame e now sid f c))"
  unfolding persist_frame_def Let_def
  by (intro bind_ok harvest_end_ok store_frame_ok publish_frame_ok record_trace_frame_ok)

lemma persist_frames_ok: "cfg_ok I F c \<Longrightarrow> cfg_ok I F (snd (persist_frames e now sid fs c))"
proof (induction fs arbitrary: c)
  case (Cons f fs)
  then show ?case by (auto intro!: bind_ok persist_frame_ok)
qed simp

lemma drain_inprocess_ok: "cfg_ok I F c \<Longrightarrow> cfg_ok I F (snd (drain_inprocess e now sid fs c))"
proof (induction fs arbitrary: c)
  case Nil
  then show ?case by (simp add: suspend_ok)
next
  case (Cons f fs)
  then show ?case by (auto intro!: bind_ok persist_frame_ok suspend_ok)
qed

end

text \<open>A session whose row is in place, with the slots of the manager as they were.\<close>

definition alive :: "string \<Rightarrow> nat \<times> string list \<times> string list \<times> string list \<times> string list \<Rightarrow> 'b mgr \<Rightarrow> bool" where
  "alive sid B m \<longleftrightarrow> store_ok (m_db m) \<and> sid \<in> set (map s_id (sessions (m_db m)))
     \<and> (sem m, paused_set m, paused_holds_slot m, has_slot m, running_tasks m) = B"

interpretation alive: kept_metrics "alive sid B" "{}" for sid B
  by unfold_locales (auto simp: alive_def db_grows_def)

interpretation core_metrics: kept_metrics "\<lambda>m. core m = B" calm for B
  by unfold_locales (simp add: core_def)

lemma alive_row: "alive sid B m \<Longrightarrow> \<exists>row. get_session sid (m_db m) = Some row"
  using find_row_None [of s_id sid "sessions (m_db m)"] by (auto simp: alive_def get_session_def)

section \<open>How a run ends\<close>

lemma drive_session_alive:
  assumes "cfg_ok (alive sid B) {} c"
  shows "cfg_ok (alive sid B) {} (snd (drive_session e now sid' kind fs how c))"
proof -
  have "cfg_ok (alive sid B) {} (modify (register_bridge sid') c)"
    using assms by (rule cfg_ok_modify) (simp add: alive_def register_bridge_def)
  then have "cfg_ok (alive sid B) {} (snd (persist_frames e now sid' fs (suspend (suspend (modify (register_bridge sid') c)))))"
    by (intro alive.persist_frames_ok alive.suspend_ok)
  moreover have "cfg_ok (alive sid B) {} (snd (drain_inprocess e now sid' fs c))"
    by (rule alive.drain_inprocess_ok [OF assms])
  ultimately show ?thesis
    by (auto simp: drive_session_def split: prod.splits sum.splits)
qed

lemma begin_run_alive:
  assumes "cfg_ok (alive sid B) {} (modify (\<lambda>m. m\<lparr>has_slot := add_new sid (has_slot m)\<rparr>) c)"
  shows "cfg_ok (alive sid B) {} (snd (begin_run e now sid c))"
proof -
  let ?w = "ignoring is_conflict (update_status_locked sid None (no_patch\<lparr>p_status := Some ''running'', p_started_at := Some now\<rparr>)
            (modify (\<lambda>m. m\<lparr>has_slot := add_new sid (has_slot m)\<rparr>) c))"
  have w: "cfg_ok (alive sid B) {} (snd ?w)" by (simp add: ignoring_def alive.update_status_locked_ok [OF assms])
  have st: "cfg_ok (alive sid B) {} (modify (set_state sid RUNNING) c2)" if "cfg_ok (alive sid B) {} c2" for c2
    using that by (simp add: cfg_ok_def modify_def alive_def set_state_def)
  show ?thesis unfolding begin_run_def
    by (rule alive.bind_ok [OF w], rule alive.bind_ok [OF alive.publish_event_ok]) (simp_all add: st)
qed

lemma executor_started_alive:
  assumes "cfg_ok (alive sid B) {} c"
  shows "cfg_ok (alive sid B) {} (snd (executor_started sid' b rid c))"
proof -
  have "cfg_ok (alive sid B) {} (if b then modify (register_bridge sid') c else c)"
    using assms cfg_ok_modify [OF assms, of "alive sid B" "register_bridge sid'"] by (simp add: alive_def register_bridge_def)
  from alive.update_status_locked_ok [OF this, of sid' None] show ?thesis
    by (simp add: executor_started_def ignoring_def)
qed

lemma run_body_alive:
  assumes "cfg_ok (alive sid B) {} (modify (\<lambda>m. m\<lparr>has_slot := add_new sid (has_slot m)\<rparr>) c)"
  shows "cfg_ok (alive sid B) {} (snd (run_body e now sid kind r c))"
proof -
  obtain x c1 where b: "begin_run e now sid c = (x, c1)" by (rule prod.exhaust)
  have c1: "cfg_ok (alive sid B) {} c1" using begin_run_alive [OF assms, of e now] b by simp
  note s = alive.suspend_ok
  have st: "cfg_ok (alive sid B) {} (snd (executor_started sid hb rid (suspend (suspend c1))))" for hb rid
    by (rule executor_started_alive [OF s [OF s [OF c1]]])
  have dr: "cfg_ok (alive sid B) {} (snd (drive_session e now sid kind fs how c2))" if "cfg_ok (alive sid B) {} c2" for fs how c2
    by (rule drive_session_alive [OF that])
  have "cfg_ok (alive sid B) {} (snd (case executor_started sid hb rid (suspend (suspend c1)) of
          (Inl x, c2) \<Rightarrow> (Crashed (show_exn e x), suspend c2)
        | (Inr _, c2) \<Rightarrow> if r_cut r = Some 2 then (Cancelled, suspend c2)
            else (case drive_session e now sid kind (r_frames r) (r_how r) c2 of (en, c3) \<Rightarrow> (en, suspend c3))))" for hb rid
    using st [of hb rid] dr [of _ "r_frames r" "r_how r"]
    by (cases "executor_started sid hb rid (suspend (suspend c1))"; cases "fst (executor_started sid hb rid (suspend (suspend c1)))")
       (auto simp: split_beta intro!: s)
  with c1 s [OF c1] s [OF s [OF c1]] show ?thesis
    by (cases x; cases "r_prepare r"; cases "r_start r") (auto simp: run_body_def b split: prod.splits)
qed

lemma handle_ending_Nil:
  assumes "accepting e"
  shows "\<exists>co b. handle_ending e sid en (m, []) = (Inr (), (m\<lparr>m_coord := co, m_bus := b\<rparr>, []))"
proof -
  have "\<exists>co b. m = m\<lparr>m_coord := co, m_bus := b\<rparr>" by (rule exI [of _ "m_coord m"], rule exI [of _ "m_bus m"]) simp
  moreover have "\<exists>co b. m\<lparr>m_bus := x\<rparr> = m\<lparr>m_coord := co, m_bus := b\<rparr>" for x by (rule exI [of _ "m_coord m"], rule exI [of _ x]) simp
  moreover have "\<exists>co b. m\<lparr>m_coord := x\<rparr> = m\<lparr>m_coord := co, m_bus := b\<rparr>" for x by (rule exI [of _ x], rule exI [of _ "m_bus m"]) simp
  ultimately show ?thesis
    by (cases en) (simp_all add: handle_ending_def publish_Nil [OF assms] deny_pending_def)
qed

lemma flush_metrics_Nil:
  "\<exists>db. flush_metrics sid (m, []) = (m\<lparr>m_db := db\<rparr>, [])
      \<and> map_option (\<lambda>r. (s_status r, s_ended_at r, s_end_reason r, s_version r)) (get_session sid db)
          = map_option (\<lambda>r. (s_status r, s_ended_at r, s_end_reason r, s_version r)) (get_session sid (m_db m))
      \<and> (case map_of (metrics m) sid of Some r \<Rightarrow> (case cost_usd r of Fin cost \<Rightarrow>
            map_option (\<lambda>w. (s_input_tokens w, s_output_tokens w, s_cost w, s_turn_count w)) (get_session sid db)
              = map_option (\<lambda>_. (input_tokens r, output_tokens r, cost, turn_count r)) (get_session sid (m_db m)) | _ \<Rightarrow> True) | None \<Rightarrow> True)"
proof -
  have "get_session sid (update_session_aggregates sid i ou cost t db) =
      map_option (\<lambda>r. r\<lparr>s_input_tokens := i, s_output_tokens := ou, s_cost := cost, s_turn_count := t\<rparr>) (get_session sid db)" for i ou cost t db
    using find_row_mem [of s_id sid "sessions db"]
    by (cases "find_row s_id sid (sessions db)") (auto simp: update_session_aggregates_def get_session_def find_row_update)
  then show ?thesis
    by (auto simp: flush_metrics_def option.map_comp comp_def split: option.splits pyfloat.splits)
       (rule exI [of _ "m_db m"], simp)+
qed

text \<open>The state that \<open>end_bookkeeping\<close> leaves for a session.\<close>

definition forgotten :: "string \<Rightarrow> 'b mgr \<Rightarrow> bool" where
  "forgotten sid m \<longleftrightarrow> sid \<notin> set (bridges m) \<and> sid \<notin> set (paused_set m) \<and> sid \<notin> set (paused_holds_slot m)
     \<and> sid \<notin> set (has_slot m) \<and> sid \<notin> set (running_tasks m) \<and> sid \<notin> set (cancel_requested m)
     \<and> map_of (paused_timers m) sid = None \<and> map_of (paused_at m) sid = None \<and> map_of (api_key_by_session m) sid = None
     \<and> map_of (owner_by_session m) sid = None \<and> map_of (session_states m) sid = None \<and> map_of (task_credentials m) sid = None"

lemma end_bookkeeping_forgets: "forgotten sid (task_done sid (end_bookkeeping sid m))"
  by (auto simp: forgotten_def task_done_def end_bookkeeping_def release_pause_bookkeeping_def cancel_paused_timer_def
      release_slot_def Let_def od_get_delete split: option.splits)

lemma end_bookkeeping_fields [simp]:
  "m_db (end_bookkeeping sid m) = m_db m" "m_bus (end_bookkeeping sid m) = m_bus m" "metrics (end_bookkeeping sid m) = metrics m"
  "m_coord (end_bookkeeping sid m) = m_coord m" "running_tasks (end_bookkeeping sid m) = running_tasks m"
  by (simp_all add: end_bookkeeping_def release_pause_bookkeeping_def cancel_paused_timer_def release_slot_def Let_def split: option.splits)

lemma end_bookkeeping_sem:
  "sem (end_bookkeeping sid m) = (if sid \<in> set (has_slot m) \<and> sid \<notin> set (paused_holds_slot m) then Suc (sem m) else sem m)"
  by (simp add: end_bookkeeping_def Let_def release_slot_def)

lemma end_run_Nil:
  assumes "accepting e" and "store_ok (m_db m)" and "get_session sid (m_db m) = Some row"
  shows "\<exists>m'. end_run e now sid en (m, []) = (Inr (), (m', [])) \<and> forgotten sid m' \<and> sem m' = sem (end_bookkeeping sid m)
     \<and> map_option (\<lambda>r. (s_status r, s_ended_at r, s_end_reason r, s_version r)) (get_session sid (m_db m'))
         = Some (end_status en, Some now, keep_or (s_end_reason row) (end_reason en), Suc (s_version row))
     \<and> (case map_of (metrics m) sid of Some r \<Rightarrow> (case cost_usd r of Fin cost \<Rightarrow>
           map_option (\<lambda>w. (s_input_tokens w, s_output_tokens w, s_cost w, s_turn_count w)) (get_session sid (m_db m'))
             = Some (input_tokens r, output_tokens r, cost, turn_count r) | _ \<Rightarrow> True) | None \<Rightarrow> True)
     \<and> (\<exists>b. m_bus m' = snd (pub e (SessionStateChanged sid
            (state_value (case map_of (session_states m) sid of None \<Rightarrow> RUNNING | Some st \<Rightarrow> st)) (end_status en) (end_reason en)) b))"
proof -
  let ?p = "no_patch\<lparr>p_status := Some (end_status en), p_ended_at := Some now, p_end_reason := end_reason en\<rparr>"
  obtain co b where h: "handle_ending e sid en (m, []) = (Inr (), (m\<lparr>m_coord := co, m_bus := b\<rparr>, []))"
    using handle_ending_Nil [OF assms(1)] by blast
  let ?m1 = "m\<lparr>m_coord := co, m_bus := b\<rparr>"
  let ?m2 = "(end_bookkeeping sid ?m1)\<lparr>m_db := put_row sid ?p (m_db m)\<rparr>"
  have p: "?p \<noteq> no_patch" by (simp add: no_patch_def)
  have w: "update_status_locked sid None ?p (end_bookkeeping sid ?m1, []) = (Inr (Suc (s_version row)), (?m2, []))"
    using locked_write_lands [of "end_bookkeeping sid ?m1" sid row ?p None] assms(2,3) p by simp
  obtain db where fl: "flush_metrics sid (?m2, []) = (?m2\<lparr>m_db := db\<rparr>, [])"
      and row': "map_option (\<lambda>r. (s_status r, s_ended_at r, s_end_reason r, s_version r)) (get_session sid db)
          = map_option (\<lambda>r. (s_status r, s_ended_at r, s_end_reason r, s_version r)) (get_session sid (m_db ?m2))"
      and met: "case map_of (metrics ?m2) sid of Some r \<Rightarrow> (case cost_usd r of Fin cost \<Rightarrow>
            map_option (\<lambda>w. (s_input_tokens w, s_output_tokens w, s_cost w, s_turn_count w)) (get_session sid db)
              = map_option (\<lambda>_. (input_tokens r, output_tokens r, cost, turn_count r)) (get_session sid (m_db ?m2)) | _ \<Rightarrow> True) | None \<Rightarrow> True"
    using flush_metrics_Nil [of sid ?m2] by blast
  let ?ev = "SessionStateChanged sid (state_value (case map_of (session_states ?m1) sid of None \<Rightarrow> RUNNING | Some s \<Rightarrow> s)) (end_status en) (end_reason en)"
  let ?m3 = "task_done sid (?m2\<lparr>m_db := db, m_bus := snd (pub e ?ev b)\<rparr>)"
  have "end_run e now sid en (m, []) = (Inr (), (?m3, []))"
    using h w fl publish_Nil [OF assms(1)] by (simp add: end_run_def ignoring_def Let_def)
  moreover have "forgotten sid ?m3"
    using end_bookkeeping_forgets [of sid ?m1] by (simp add: forgotten_def task_done_def)
  moreover have "sem ?m3 = sem (end_bookkeeping sid m)" by (simp add: task_done_def end_bookkeeping_sem)
  moreover have "map_option (\<lambda>r. (s_status r, s_ended_at r, s_end_reason r, s_version r)) (get_session sid (m_db ?m3))
         = Some (end_status en, Some now, keep_or (s_end_reason row) (end_reason en), Suc (s_version row))"
    using row' assms(3) by (simp add: task_done_def apply_patch_def keep_or_def no_patch_def)
  moreover have "m_bus ?m3 = snd (pub e (SessionStateChanged sid
      (state_value (case map_of (session_states m) sid of None \<Rightarrow> RUNNING | Some st \<Rightarrow> st)) (end_status en) (end_reason en)) b)"
    by (simp add: task_done_def)
  moreover have "case map_of (metrics m) sid of Some r \<Rightarrow> (case cost_usd r of Fin cost \<Rightarrow>
           map_option (\<lambda>w. (s_input_tokens w, s_output_tokens w, s_cost w, s_turn_count w)) (get_session sid (m_db ?m3))
             = Some (input_tokens r, output_tokens r, cost, turn_count r) | _ \<Rightarrow> True) | None \<Rightarrow> True"
    using met assms(3) by (simp add: task_done_def split: option.splits pyfloat.splits)
  ultimately show ?thesis by blast
qed

text \<open>
  every way a run can end is recorded: completion, timeout, cancellation, a failed
  installation and any other exception each write their status, time and reason to the
  session's row with the next version and the token counts collected from \<open>session.end\<close>, the
  last event published is the state change, and nothing of the session stays in the manager.
\<close>

lemma session_end_recorded:
  assumes "accepting e" and "store_ok (m_db m)" and "get_session sid (m_db m) = Some row"
    and "map_of (metrics m) sid = Some r" and "cost_usd r = Fin cost"
  shows "\<exists>m' row' b. end_run e now sid en (m, []) = (Inr (), (m', [])) \<and> forgotten sid m'
     \<and> get_session sid (m_db m') = Some row' \<and> s_status row' = end_status en \<and> s_ended_at row' = Some now
     \<and> s_end_reason row' = keep_or (s_end_reason row) (end_reason en) \<and> s_version row' = Suc (s_version row)
     \<and> (s_input_tokens row', s_output_tokens row', s_cost row', s_turn_count row') = (input_tokens r, output_tokens r, cost, turn_count r)
     \<and> m_bus m' = snd (pub e (SessionStateChanged sid
            (state_value (case map_of (session_states m) sid of None \<Rightarrow> RUNNING | Some st \<Rightarrow> st)) (end_status en) (end_reason en)) b)"
  using end_run_Nil [OF assms(1-3), of now en] assms(4,5) by auto

lemma session_end_recorded_witness:
  "\<exists>m' row'. end_run demo_env 50 ''a'' (Crashed (OtherError ''ConnectionError'' ''refused''))
       (demo_pair\<lparr>metrics := [(''a'', no_metrics)]\<rparr>, []) = (Inr (), (m', []))
     \<and> forgotten ''a'' m' \<and> get_session ''a'' (m_db m') = Some row' \<and> s_status row' = ''failed''"
proof -
  let ?m = "demo_pair\<lparr>metrics := [(''a'', no_metrics)]\<rparr>"
  obtain row where row: "get_session ''a'' (m_db ?m) = Some row" using demo_pair_facts(3) by auto
  have "store_ok (m_db ?m)" "map_of (metrics ?m) ''a'' = Some no_metrics" "cost_usd no_metrics = Fin 0"
    using demo_pair_facts(2) by (simp_all add: no_metrics_def)
  from session_end_recorded [OF demo_pair_facts(1) this(1) row this(2,3), of 50 "Crashed (OtherError ''ConnectionError'' ''refused'')"]
  show ?thesis by auto
qed



section \<open>Submissions\<close>

lemma map_of_merge:
  assumes "distinct (map fst b)"
  shows "map_of (merge_dict a b) k = (case map_of b k of Some v \<Rightarrow> Some v | None \<Rightarrow> map_of a k)"
  using assms
proof (induction b arbitrary: a)
  case (Cons p b)
  obtain k' v where p: "p = (k', v)" by (cases p)
  have "map_of (merge_dict a (p # b)) k = map_of (merge_dict (AList.update k' v a) b) k" by (simp add: merge_dict_def p)
  also have "\<dots> = (case map_of b k of Some w \<Rightarrow> Some w | None \<Rightarrow> map_of (AList.update k' v a) k)" using Cons by simp
  finally have step: "map_of (merge_dict a (p # b)) k = (case map_of b k of Some w \<Rightarrow> Some w | None \<Rightarrow> map_of (AList.update k' v a) k)" .
  have "map_of b k' = None" using Cons.prems p by (simp add: map_of_eq_None_iff)
  with step p show ?case by (cases "k = k'") (simp_all add: od_get_update split: option.split)
qed (simp add: merge_dict_def)

text \<open>The credentials of a submission: those stored for the authenticated actor, if any.\<close>

definition stored_credentials :: "'b env \<Rightarrow> string option \<Rightarrow> (string, pyval) od" where
  "stored_credentials e label = (case (user_credentials e, label) of
     (Some lookup, Some l) \<Rightarrow> if l = [] then [] else (case lookup l of None \<Rightarrow> [] | Some s \<Rightarrow> s)
   | _ \<Rightarrow> [])"

definition body_wins :: "(string, pyval) od \<Rightarrow> (string, pyval) od \<Rightarrow> (string, pyval) od" where
  "body_wins stored given = (if stored = [] then given else merge_dict stored given)"

lemma load_credentials_Inr:
  "load_credentials e a c = (Inr creds, c1) \<Longrightarrow> creds = body_wins (stored_credentials e (sa_actor_label a)) (sa_credentials a)"
  by (auto simp: load_credentials_def stored_credentials_def body_wins_def split: option.splits if_splits)

lemma load_credentials_soft:
  "\<not> require_per_user_credentials e \<Longrightarrow> load_credentials e a (m, [])
     = (Inr (body_wins (stored_credentials e (sa_actor_label a)) (sa_credentials a)), (m, []))"
  by (cases "user_credentials e"; cases "sa_actor_label a")
     (auto simp: load_credentials_def stored_credentials_def body_wins_def split: option.splits)

lemma submit_Inr:
  assumes "submit e sid now sp a c = (Inr s, c')"
  obtains creds c1 where "load_credentials e a c = (Inr creds, c1)" "s = sid"
    "require_per_user_credentials e \<and> sa_actor_role a \<noteq> Some ''admin'' \<Longrightarrow> credential_bundle_is_complete creds"
    "map_of (task_credentials (fst c')) sid = Some creds"
proof -
  obtain creds c1 where l: "load_credentials e a c = (Inr creds, c1)"
    using assms by (auto simp: submit_def bind_res_Inr_iff split: if_splits)
  have "s = sid \<and> map_of (task_credentials (fst c')) sid = Some creds
      \<and> (require_per_user_credentials e \<and> sa_actor_role a \<noteq> Some ''admin'' \<longrightarrow> credential_bundle_is_complete creds)"
    using assms l by (auto simp: submit_def bind_res_Inr_iff Let_def modify_def track_session_def od_get_update split: if_splits)
  with l that show thesis by blast
qed

text \<open>
  under strict credentials every accepted session of a non-administrator runs with a
  complete bundle of its own: each credential is the one in the request or, failing that, the one
  stored for the authenticated actor, never one of the claimed owner; otherwise the submission is
  refused. This holds under any interference.
\<close>

lemma strict_credentials:
  assumes "submit e sid now sp a c = (Inr s, c')" and "require_per_user_credentials e" and "sa_actor_role a \<noteq> Some ''admin''"
    and "distinct (map fst (sa_credentials a))"
  shows "\<exists>creds. map_of (task_credentials (fst c')) sid = Some creds \<and> credential_bundle_is_complete creds
     \<and> (\<forall>k. map_of creds k = (case map_of (sa_credentials a) k of
            Some v \<Rightarrow> Some v | None \<Rightarrow> map_of (stored_credentials e (sa_actor_label a)) k))"
proof -
  obtain creds c1 where l: "load_credentials e a c = (Inr creds, c1)" and t: "map_of (task_credentials (fst c')) sid = Some creds"
      and b: "credential_bundle_is_complete creds"
    using submit_Inr [OF assms(1)] assms(2,3) by metis
  have "map_of creds k = (case map_of (sa_credentials a) k of
            Some v \<Rightarrow> Some v | None \<Rightarrow> map_of (stored_credentials e (sa_actor_label a)) k)" for k
    using load_credentials_Inr [OF l] map_of_merge [OF assms(4)] by (auto simp: body_wins_def split: option.splits)
  with t b show ?thesis by blast
qed

text \<open>
  credentials stay in memory: two accepted submissions that differ only in the credentials
  of the request leave the same rows, the same events, the same audit trail and the same
  bookkeeping; only the credentials of the new task differ.
\<close>

lemma credentials_not_persisted:
  assumes "submit e sid now sp a c = (Inr s1, (m1, fs1))" and "submit e sid now sp (a\<lparr>sa_credentials := cr\<rparr>) c = (Inr s2, (m2, fs2))"
  shows "m1 = m2\<lparr>task_credentials := task_credentials m1\<rparr> \<and> fs1 = fs2"
proof -
  obtain creds1 c1 where l1: "load_credentials e a c = (Inr creds1, c1)" using submit_Inr [OF assms(1)] by metis
  obtain creds2 c2 where l2: "load_credentials e (a\<lparr>sa_credentials := cr\<rparr>) c = (Inr creds2, c2)" using submit_Inr [OF assms(2)] by metis
  have "c1 = c2" using l1 l2 by (auto simp: load_credentials_def split: option.splits if_splits)
  with assms l1 l2 show ?thesis
    by (auto simp: submit_def bind_res_Inr_iff Let_def persist_new_def create_metadata_def modify_def track_session_def split: if_splits)
qed

lemma get_session_created:
  "create_session sid spec tr be tg now w ds pa db = (Inr (), db') \<Longrightarrow> get_session sid db' = Some
     \<lparr>s_id = sid, s_status = ''queued'', s_spec = spec, s_tags = tg, s_submitted_at = now, s_started_at = None, s_ended_at = None,
      s_end_reason = None, s_trace_id = tr, s_backend = be, s_runtime_id = None, s_input_tokens = 0, s_output_tokens = 0, s_cost = 0,
      s_turn_count = 0, s_version = 0, s_paused_at = None, s_owner = w, s_description = ds, s_parent = pa\<rparr>"
proof -
  have "find P (xs @ ys) = (case find P xs of None \<Rightarrow> find P ys | Some x \<Rightarrow> Some x)" for P :: "session_row \<Rightarrow> bool" and xs ys
    by (induction xs) auto
  then show "create_session sid spec tr be tg now w ds pa db = (Inr (), db') \<Longrightarrow> ?thesis"
    using find_row_None [of s_id sid "sessions db"]
    by (auto simp: create_session_def get_session_def find_row_def split: if_splits option.splits)
qed

lemma submit_Nil:
  assumes "accepting e" and "accepting_new m" and "sid \<notin> set (map s_id (sessions (m_db m)))"
    and "load_credentials e a (m, []) = (Inr creds, (m, []))"
    and "credential_bundle_is_complete creds \<or> sa_actor_role a = Some ''admin'' \<or> \<not> require_per_user_credentials e"
  shows "\<exists>m' as row. submit e sid now sp a (m, []) = (Inr sid, (m', []))
     \<and> m' = track_session sid a creds (m\<lparr>m_db := m_db m', m_audits := as, m_bus := snd (pub e (SessionCreated sid
            (take 512 (to_text e (dget_default (redact_dict (redactor e) (to_json_safe sp)) ''prompt'' (PStr []))))
            (map (to_text e) (tags sp))) (m_bus m))\<rparr>)
     \<and> get_session sid (m_db m') = Some row \<and> s_status row = ''queued'' \<and> s_version row = 0 \<and> s_owner row = sa_owner a
     \<and> s_parent row = sa_parent a \<and> s_spec row = redact_dict (redactor e) (to_json_safe sp)"
proof -
  let ?red = "redact_dict (redactor e) (to_json_safe sp)"
  obtain db' where db: "create_session sid ?red (or_none (sa_trace_id a)) (to_text e (executor sp)) (map (to_text e) (tags sp))
                    now (sa_owner a) (sa_description a) (sa_parent a) (m_db m) = (Inr (), db')"
    using assms(3) by (simp add: create_session_def)
  let ?m1 = "m\<lparr>m_db := db'\<rparr>"
  have p: "persist_new e sid now sp ?red a (m, []) = (Inr (), (?m1, []))" using db by (simp add: persist_new_def)
  obtain as where as: "audit_record e (owner_or_anon (sa_owner a)) ''session_create'' sid (create_metadata e sp ?red a) (?m1, [])
      = (?m1\<lparr>m_audits := as\<rparr>, [])" using audit_Nil by blast
  show ?thesis
    using assms(2,4,5) p as publish_Nil [OF assms(1)] get_session_created [OF db]
    by (auto simp: submit_def Let_def track_session_def)
qed

text \<open>
  an accepted submission, with no other task in between, leaves one queued row at version 0
  whose spec is redacted (every value under a sensitive key is the placeholder, at any depth),
  announces it with the redacted prompt, and tracks the session for execution.
\<close>

lemma submit_records_session:
  assumes "accepting e" and "accepting_new m" and "sid \<notin> set (map s_id (sessions (m_db m)))"
    and "user_credentials e = None" and "\<not> require_per_user_credentials e"
  shows "\<exists>m' row txt. submit e sid now sp a (m, []) = (Inr sid, (m', []))
     \<and> get_session sid (m_db m') = Some row \<and> s_status row = ''queued'' \<and> s_version row = 0 \<and> s_owner row = sa_owner a
     \<and> masked_dict (redactor e) (s_spec row) \<and> txt = to_text e (dget_default (s_spec row) ''prompt'' (PStr []))
     \<and> m_bus m' = snd (pub e (SessionCreated sid (take 512 txt) (map (to_text e) (tags sp))) (m_bus m))
     \<and> sid \<in> set (running_tasks m') \<and> map_of (session_states m') sid = Some QUEUED
     \<and> map_of (api_key_by_session m') sid = Some (sa_api_key_id a) \<and> sem m' = sem m"
proof -
  have "load_credentials e a (m, []) = (Inr (sa_credentials a), (m, []))" using assms(4) by (simp add: load_credentials_def)
  from submit_Nil [OF assms(1-3) this, of now sp] assms(5)
  obtain m' as row where m': "submit e sid now sp a (m, []) = (Inr sid, (m', []))"
      "m' = track_session sid a (sa_credentials a) (m\<lparr>m_db := m_db m', m_audits := as, m_bus := snd (pub e (SessionCreated sid
            (take 512 (to_text e (dget_default (redact_dict (redactor e) (to_json_safe sp)) ''prompt'' (PStr []))))
            (map (to_text e) (tags sp))) (m_bus m))\<rparr>)"
      and row: "get_session sid (m_db m') = Some row" "s_status row = ''queued''" "s_version row = 0" "s_owner row = sa_owner a"
        "s_spec row = redact_dict (redactor e) (to_json_safe sp)" by auto
  have t: "m_bus m' = snd (pub e (SessionCreated sid
            (take 512 (to_text e (dget_default (redact_dict (redactor e) (to_json_safe sp)) ''prompt'' (PStr []))))
            (map (to_text e) (tags sp))) (m_bus m))" "sid \<in> set (running_tasks m')" "map_of (session_states m') sid = Some QUEUED"
      "map_of (api_key_by_session m') sid = Some (sa_api_key_id a)" "sem m' = sem m"
    by (subst m'(2), simp add: track_session_def od_get_update)+
  from m'(1) row t redaction_masks(3) [of "redactor e" "to_json_safe sp"] show ?thesis by auto
qed

lemma submit_records_session_witness:
  "\<exists>m' row. submit demo_env ''n'' 3 demo_spec no_args (init_mgr 1 demo_store (init_coord True) [], []) = (Inr ''n'', (m', []))
     \<and> get_session ''n'' (m_db m') = Some row \<and> s_status row = ''queued'' \<and> running_tasks m' = [''n'']"
proof -
  let ?m = "init_mgr 1 demo_store (init_coord True) [] :: event_body list mgr"
  have "accepting_new ?m" "''n'' \<notin> set (map s_id (sessions (m_db ?m)))" "user_credentials demo_env = None" "\<not> require_per_user_credentials demo_env"
    by (simp_all add: init_mgr_def demo_env_def demo_store_def create_session_def)
  from submit_records_session [OF demo_pair_facts(1) this, of 3 demo_spec no_args]
  obtain m' row where m': "submit demo_env ''n'' 3 demo_spec no_args (?m, []) = (Inr ''n'', (m', []))"
     "get_session ''n'' (m_db m') = Some row" "s_status row = ''queued''" by blast
  have "running_tasks m' = [''n'']"
    using m'(1) by (auto simp: submit_def bind_res_Inr_iff Let_def load_credentials_def persist_new_def create_session_def demo_env_def
        demo_store_def init_mgr_def audit_record_def publish_event_def track_session_def add_new_def)
  with m' show ?thesis by blast
qed

text \<open>Strict mode, with the credentials of one user in the store.\<close>

definition strict_env :: "event_body list env" where
  "strict_env = demo_env\<lparr>require_per_user_credentials := True,
     user_credentials := Some (\<lambda>l. if l = ''bob'' then Some [(''ANTHROPIC_API_KEY'', PStr ''kb'')] else Some [])\<rparr>"

definition bob_args :: submit_args where
  "bob_args = no_args\<lparr>sa_actor_label := Some ''bob'', sa_owner := Some ''alice'', sa_actor_role := Some ''member''\<rparr>"

definition idle_mgr :: "event_body list mgr" where
  "idle_mgr = init_mgr 1 demo_store (init_coord True) []"

lemma strict_facts:
  "accepting strict_env" "accepting_new idle_mgr" "''n'' \<notin> set (map s_id (sessions (m_db idle_mgr)))"
  "require_per_user_credentials strict_env"
  by (simp_all add: strict_env_def demo_env_def accepting_def idle_mgr_def init_mgr_def demo_store_def create_session_def)

lemma bob_loads:
  "load_credentials strict_env bob_args (idle_mgr, []) = (Inr [(''ANTHROPIC_API_KEY'', PStr ''kb'')], (idle_mgr, []))"
  "load_credentials strict_env (bob_args\<lparr>sa_credentials := [(''ANTHROPIC_API_KEY'', PStr ''k2'')]\<rparr>) (idle_mgr, [])
     = (Inr [(''ANTHROPIC_API_KEY'', PStr ''k2'')], (idle_mgr, []))"
  by (simp_all add: load_credentials_def strict_env_def bob_args_def no_args_def merge_dict_def)

lemma complete_single: "v \<noteq> [] \<Longrightarrow> \<not> is_space (hd v) \<Longrightarrow> credential_bundle_is_complete [(''ANTHROPIC_API_KEY'', PStr v)]"
  by (cases v) (auto simp: credential_bundle_is_complete_def str_strip_def)

lemma bob_complete:
  "credential_bundle_is_complete [(''ANTHROPIC_API_KEY'', PStr ''kb'')]" "credential_bundle_is_complete [(''ANTHROPIC_API_KEY'', PStr ''k2'')]"
  by (rule complete_single; simp add: is_space_def)+

lemma strict_credentials_witness:
  "\<exists>c'. submit strict_env ''n'' 3 demo_spec bob_args (idle_mgr, []) = (Inr ''n'', c')
     \<and> (\<exists>creds. map_of (task_credentials (fst c')) ''n'' = Some creds \<and> map_of creds ''ANTHROPIC_API_KEY'' = Some (PStr ''kb''))"
proof -
  obtain m' where s: "submit strict_env ''n'' 3 demo_spec bob_args (idle_mgr, []) = (Inr ''n'', (m', []))"
    using submit_Nil [OF strict_facts(1,2,3) bob_loads(1), of 3 demo_spec] bob_complete(1) by blast
  have "sa_actor_role bob_args \<noteq> Some ''admin''" "distinct (map fst (sa_credentials bob_args))"
    by (simp_all add: bob_args_def no_args_def)
  from strict_credentials [OF s strict_facts(4) this] s show ?thesis
    by (auto simp: bob_args_def no_args_def stored_credentials_def strict_env_def)
qed

lemma credentials_not_persisted_witness:
  "\<exists>m1 m2. submit strict_env ''n'' 3 demo_spec bob_args (idle_mgr, []) = (Inr ''n'', (m1, []))
     \<and> submit strict_env ''n'' 3 demo_spec (bob_args\<lparr>sa_credentials := [(''ANTHROPIC_API_KEY'', PStr ''k2'')]\<rparr>) (idle_mgr, []) = (Inr ''n'', (m2, []))
     \<and> m_db m1 = m_db m2 \<and> m_bus m1 = m_bus m2 \<and> m_audits m1 = m_audits m2"
proof -
  obtain m1 where s1: "submit strict_env ''n'' 3 demo_spec bob_args (idle_mgr, []) = (Inr ''n'', (m1, []))"
    using submit_Nil [OF strict_facts(1,2,3) bob_loads(1), of 3 demo_spec] bob_complete(1) by blast
  obtain m2 where s2: "submit strict_env ''n'' 3 demo_spec (bob_args\<lparr>sa_credentials := [(''ANTHROPIC_API_KEY'', PStr ''k2'')]\<rparr>) (idle_mgr, [])
      = (Inr ''n'', (m2, []))"
    using submit_Nil [OF strict_facts(1,2,3) bob_loads(2), of 3 demo_spec] bob_complete(2) by blast
  have "m1 = m2\<lparr>task_credentials := task_credentials m1\<rparr>" using credentials_not_persisted [OF s1 s2] by blast
  then have "m_db m1 = m_db m2 \<and> m_bus m1 = m_bus m2 \<and> m_audits m1 = m_audits m2" by (metis mgr.select_convs(1,3,4) mgr.surjective mgr.update_convs(20))
  with s1 s2 show ?thesis by blast
qed

section \<open>Retry\<close>

text \<open>
  a retry runs with the credentials of the user who asks for it: whoever owns the original
  session, the new task has exactly the credentials stored for the retrying actor, and none when
  there is no actor; the new row names the original as its parent.
\<close>

lemma retry_uses_retrier:
  assumes "accepting e" and "accepting_new m" and "get_session sid (m_db m) = Some row" and "retry_spec e (s_spec row) = Inr sp"
    and "new_sid \<notin> set (map s_id (sessions (m_db m)))" and "\<not> require_per_user_credentials e"
  shows "\<exists>m' row'. retry e new_sid now sid actor role (m, []) = (Inr new_sid, (m', []))
     \<and> map_of (task_credentials m') new_sid = Some (stored_credentials e actor)
     \<and> get_session new_sid (m_db m') = Some row' \<and> s_parent row' = Some sid"
proof -
  define a where "a = no_args\<lparr>sa_owner := Some (owner_or_anon (truthy_or actor (s_owner row))), sa_actor_label := actor, sa_actor_role := role,
     sa_description := truthy_or (s_description row) (Some (''Retry of '' @ sid)), sa_parent := Some sid\<rparr>"
  obtain creds where l: "load_credentials e a (m, []) = (Inr creds, (m, []))"
    using load_credentials_soft [OF assms(6)] by blast
  have c: "creds = stored_credentials e actor"
    using load_credentials_Inr [OF l] by (auto simp: a_def no_args_def body_wins_def merge_dict_def)
  obtain m1 as row' where s: "submit e new_sid now sp a (m, []) = (Inr new_sid, (m1, []))"
      "get_session new_sid (m_db m1) = Some row'" "s_parent row' = sa_parent a"
    using submit_Nil [OF assms(1,2,5) l, of now sp] assms(6) by blast
  have t: "map_of (task_credentials m1) new_sid = Some creds" using submit_Inr [OF s(1)] l by auto
  obtain as where as: "audit_record e (owner_or_anon (truthy_or actor (s_owner row))) ''session_retry'' new_sid
      [(PStr ''parent_session_id'', PStr sid), (PStr ''tags'', PList (tags sp)), (PStr ''backend'', executor sp)] (m1, [])
      = (m1\<lparr>m_audits := as\<rparr>, [])" using audit_Nil by blast
  have "retry e new_sid now sid actor role (m, []) = (Inr new_sid, (m1\<lparr>m_audits := as\<rparr>, []))"
    using assms(3,4) s(1) [unfolded a_def] as by (simp add: retry_def Let_def)
  then show ?thesis using s t c by (simp add: a_def)
qed

section \<open>Shutdown\<close>

lemma clear_timers: "paused_timers (foldl (\<lambda>mm sid. cancel_paused_timer sid mm) m ks) = filter (\<lambda>p. fst p \<notin> set ks) (paused_timers m)"
  by (induction ks arbitrary: m) (auto simp: cancel_paused_timer_def AList.delete_eq intro!: filter_cong)

lemma clear_timers_coord: "m_coord (foldl (\<lambda>mm sid. cancel_paused_timer sid mm) m ks) = m_coord m"
  by (induction ks arbitrary: m) (auto simp: cancel_paused_timer_def)

text \<open>
  shutting down settles the rest: whatever the other tasks do meanwhile and however long the
  grace period, when \<open>shutdown\<close> returns every pending human decision has been answered and no
  watchdog is left to fire. A manager that has already shut down and has no task returns at once.
\<close>

lemma shutdown_settles:
  assumes "accepting_new m \<or> running_tasks m \<noteq> []"
  shows "paused_timers (fst (shutdown e polls cancel_paused (m, fs))) = []
     \<and> (\<forall>(k, en) \<in> set (pend (m_coord (fst (shutdown e polls cancel_paused (m, fs))))). e_future en \<noteq> None)"
proof -
  obtain c where c: "shutdown e polls cancel_paused (m, fs) = modify (\<lambda>m. foldl (\<lambda>mm sid. cancel_paused_timer sid mm) m (od_keys (paused_timers m)))
      (modify (deny_pending ''shutdown'' None) c)"
  proof -
    have n: "\<not> (\<not> accepting_new (fst (m, fs)) \<and> running_tasks (fst (m, fs)) = [])" using assms by auto
    show thesis using that unfolding shutdown_def Let_def if_not_P [OF n] by blast
  qed
  have "paused_timers (fst (shutdown e polls cancel_paused (m, fs))) = []"
    by (auto simp: c modify_def clear_timers filter_empty_conv)
  moreover have "\<forall>(k, en) \<in> set (pend (m_coord (fst (shutdown e polls cancel_paused (m, fs))))). e_future en \<noteq> None"
    by (auto simp: c modify_def clear_timers_coord deny_pending_def cancel_all_def in_scope_def)
  ultimately show ?thesis by blast
qed

definition demo_row_spec :: pydict where
  "demo_row_spec = [(PStr ''prompt'', PStr ''go''), (PStr ''plugins'', PDict [(PStr ''profile'', PStr ''dev'')])]"

definition retry_mgr :: "event_body list mgr" where
  "retry_mgr = init_mgr 1 (snd (create_session ''a'' demo_row_spec None ''inprocess'' [] 7 (Some ''alice'') None None
     \<lparr>fk = True, sessions = [], frames = [], traces = [], hitl_requests = []\<rparr>)) (init_coord True) []"

lemma retry_uses_retrier_witness:
  "\<exists>m'. retry (strict_env\<lparr>require_per_user_credentials := False\<rparr>) ''n'' 9 ''a'' (Some ''bob'') None (retry_mgr, []) = (Inr ''n'', (m', []))
     \<and> map_of (task_credentials m') ''n'' = Some [(''ANTHROPIC_API_KEY'', PStr ''kb'')]"
proof -
  let ?e = "strict_env\<lparr>require_per_user_credentials := False\<rparr>"
  have f: "accepting ?e" "accepting_new retry_mgr" "''n'' \<notin> set (map s_id (sessions (m_db retry_mgr)))" "\<not> require_per_user_credentials ?e"
    by (simp_all add: accepting_def strict_env_def demo_env_def retry_mgr_def init_mgr_def create_session_def)
  obtain row where row: "get_session ''a'' (m_db retry_mgr) = Some row" "s_spec row = demo_row_spec"
    by (simp add: retry_mgr_def init_mgr_def create_session_def get_session_def find_row_def)
  obtain sp where sp: "retry_spec ?e (s_spec row) = Inr sp"
    by (simp add: row(2) demo_row_spec_def retry_spec_def retry_manifest_def str_or_def to_text_def dget_def py_or_def tuple_or_def
        manifest_from_json_def make_manifest_def)
  have "stored_credentials ?e (Some ''bob'') = [(''ANTHROPIC_API_KEY'', PStr ''kb'')]"
    by (simp add: stored_credentials_def strict_env_def)
  with retry_uses_retrier [OF f(1,2) row(1) sp f(3,4), of 9 "Some ''bob''" None] show ?thesis by auto
qed

lemma shutdown_settles_witness:
  "paused_timers (fst (shutdown demo_env 0 True (idle_mgr\<lparr>paused_timers := [(''a'', 30)], m_coord := demo_coord\<rparr>, []))) = []"
proof -
  have "accepting_new (idle_mgr\<lparr>paused_timers := [(''a'', 30)], m_coord := demo_coord\<rparr>)" by (simp add: idle_mgr_def init_mgr_def)
  then show ?thesis using shutdown_settles [of "idle_mgr\<lparr>paused_timers := [(''a'', 30)], m_coord := demo_coord\<rparr>"] by blast
qed

section \<open>What a frame leaves behind\<close>

definition frame_row_of :: "'b env \<Rightarrow> int \<Rightarrow> string \<Rightarrow> pydict \<Rightarrow> int \<Rightarrow> frame_row" where
  "frame_row_of e now sid f n =
     \<lparr>fr_session = sid, fr_seq = n, fr_ts = frame_ts e now f, fr_type = to_text e (dget_default f ''type'' (PStr ''unknown'')),
      fr_payload = PDict f\<rparr>"

text \<open>Frame tables and counters of one session, as the pipeline changes them.\<close>

definition tally :: "string \<Rightarrow> 'b mgr \<Rightarrow> frame_row list \<times> (nat \<times> nat) option" where
  "tally sid m = (frames (m_db m), map_option (\<lambda>r. (frames_persisted r, frames_dropped r)) (map_of (metrics m) sid))"

lemma tally_bus [simp]: "tally sid (m\<lparr>m_bus := b\<rparr>) = tally sid m"
  by (simp add: tally_def)

lemma assign_counts_tally:
  "frames_persisted (snd (assign_counts f r)) = frames_persisted r \<and> frames_dropped (snd (assign_counts f r)) = frames_dropped r"
proof -
  obtain i ou t where "end_counts f = (i, ou, t)" by (cases "end_counts f")
  then show ?thesis by (auto simp: assign_counts_def bind_res_def split: sum.splits)
qed

lemma harvest_tally: "tally sid (fst (snd (harvest_end sid f (m, fs)))) = tally sid m"
proof (cases "map_of (metrics m) sid")
  case None
  then show ?thesis by (simp add: harvest_end_def record_session_end_def)
next
  case (Some r)
  obtain res r1 where a: "assign_counts f r = (res, r1)" by (rule prod.exhaust)
  then have "frames_persisted r1 = frames_persisted r" "frames_dropped r1 = frames_dropped r"
    using assign_counts_tally [of f r] by auto
  then show ?thesis using Some a
    by (auto simp: harvest_end_def record_session_end_def tally_def on_metrics_def od_get_update split: sum.splits py_exn.splits)
qed

lemma trace_tally: "tally sid (fst (record_trace_frame e sid' f ts (m, []))) = tally sid m"
  by (auto simp: record_trace_frame_def tally_def record_trace_invocation_def split: pyval.splits sum.splits)

lemma publish_frame_tally: "tally sid (fst (snd (publish_frame e sid' f (m, [])))) = tally sid m"
  by (auto simp: publish_frame_def publish_event_def split: sum.splits option.splits prod.splits)

lemma pipeline_scripts:
  "snd (store_frame e sid f ts (m, [])) = []" "snd (snd (harvest_end sid f (m, []))) = []" "snd (record_trace_frame e sid f ts (m, [])) = []"
  by (auto simp: store_frame_def harvest_end_def record_trace_frame_def split: sum.splits prod.splits pyval.splits)

lemma persist_frame_tally:
  "tally sid (fst (snd (persist_frame e now sid frame (m, [])))) =
     tally sid (fst (store_frame e sid (redact_frame (redactor e) frame) (frame_ts e now (redact_frame (redactor e) frame)) (m, [])))"
proof -
  let ?f = "redact_frame (redactor e) frame"
  let ?ts = "frame_ts e now ?f"
  obtain m1 where m1: "store_frame e sid ?f ?ts (m, []) = (m1, [])"
    using pipeline_scripts(1) by (metis prod.collapse)
  obtain r m2 where h: "harvest_end sid ?f (m1, []) = (r, (m2, []))"
    using pipeline_scripts(2) by (metis prod.collapse)
  have t2: "tally sid m2 = tally sid m1" using harvest_tally [of sid ?f m1 "[]"] h by simp
  obtain m3 where m3: "record_trace_frame e sid ?f ?ts (m2, []) = (m3, [])"
    using pipeline_scripts(3) by (metis prod.collapse)
  have t3: "tally sid m3 = tally sid m2" using trace_tally [of sid e sid ?f ?ts m2] m3 by simp
  show ?thesis using m1 h m3 t2 t3 publish_frame_tally [of sid e sid ?f m3]
    by (cases r) (simp_all add: persist_frame_def Let_def)
qed

text \<open>
  every frame is accounted for: a frame of a tracked session is either appended to the
  frames table, redacted, under its own sequence number and counted as persisted, or (no
  sequence number, a duplicate, no session row) it changes no row and is counted as dropped;
  whatever the tracing and publishing steps do afterwards.
\<close>

lemma frame_accounted:
  assumes "map_of (metrics m) sid = Some r" and "f = redact_frame (redactor e) frame"
    and "m' = fst (snd (persist_frame e now sid frame (m, [])))"
  shows "\<exists>r'. map_of (metrics m') sid = Some r' \<and>
     (case py_int (dget_default f ''seq'' (PInt 0)) of
        Inr n \<Rightarrow>
          if (\<exists>w \<in> set (frames (m_db m)). fr_session w = sid \<and> fr_seq w = n) \<or> (fk (m_db m) \<and> get_session sid (m_db m) = None)
          then frames (m_db m') = frames (m_db m) \<and> (frames_persisted r', frames_dropped r') = (frames_persisted r, Suc (frames_dropped r))
          else frames (m_db m') = frames (m_db m) @ [frame_row_of e now sid f n] \<and> masked_dict (redactor e) f
             \<and> (frames_persisted r', frames_dropped r') = (Suc (frames_persisted r), frames_dropped r)
      | Inl _ \<Rightarrow> frames (m_db m') = frames (m_db m) \<and> (frames_persisted r', frames_dropped r') = (frames_persisted r, Suc (frames_dropped r)))"
proof -
  have mk: "masked_dict (redactor e) f" by (simp add: assms(2) redact_frame_def redaction_masks)
  have g: "get_session sid (m_db m) = None \<longleftrightarrow> sid \<notin> set (map s_id (sessions (m_db m)))"
    by (simp add: get_session_def find_row_None)
  have "tally sid m' = tally sid (fst (store_frame e sid f (frame_ts e now f) (m, [])))"
    using persist_frame_tally [of sid e now frame m] assms(2,3) by simp
  then show ?thesis using assms(1) mk g
    by (auto simp: tally_def store_frame_def append_frame_def on_metrics_def od_get_update count_persisted_def count_dropped_def frame_row_of_def
        split: sum.splits if_splits)
qed

lemma frame_accounted_witness:
  "\<exists>r'. map_of (metrics (fst (snd (persist_frame demo_env 9 ''a'' [(PStr ''seq'', PInt 4)] (demo_pair\<lparr>metrics := [(''a'', no_metrics)]\<rparr>, []))))) ''a'' = Some r'
     \<and> frames_persisted r' = 1 \<and> frames_dropped r' = 0"
proof -
  let ?m = "demo_pair\<lparr>metrics := [(''a'', no_metrics)]\<rparr>"
  have f: "redact_frame (redactor demo_env) [(PStr ''seq'', PInt 4)] = [(PStr ''seq'', PInt 4)]"
    by (simp add: redact_frame_def sensitive_key_def demo_env_def)
  have "map_of (metrics ?m) ''a'' = Some no_metrics" by simp
  from frame_accounted [OF this f [symmetric] refl, of 9] show ?thesis
    by (auto simp: dget_default_def demo_pair_def init_mgr_def demo_store_def create_session_def get_session_def find_row_def no_metrics_def)
qed

end
