(* ===== verification/Team_Store.thy ===== *)
theory Team_Store
  imports Session_Store
begin

text \<open>
  The collaboration tables of \<open>store/repository.py\<close>: the audit log with its cursor listing,
  comments with tombstones, favorites, and prompt templates. Rows are kept in insertion order;
  where SQL leaves the order of equal keys open they stay in that order. The id of a new row is
  chosen by the database: \<open>alloc\<close> maps the ids in use to the next one.
\<close>

section \<open>Tables\<close>

record audit_row =
  a_id :: nat
  a_ts :: int
  a_actor :: string
  a_action :: string
  a_target_type :: "string option"
  a_target_id :: "string option"
  a_metadata :: "pydict option"
  a_request_id :: "string option"

record comment_row =
  c_id :: nat
  c_session :: string
  c_author :: string
  c_markdown :: string
  c_html :: string
  c_created_at :: int
  c_updated_at :: int
  c_deleted_at :: "int option"

record favorite_row =
  f_id :: nat
  f_session :: string
  f_user :: string
  f_created_at :: int

record template_row =
  t_id :: nat
  t_name :: string
  t_creator :: string
  t_prompt :: string
  t_description :: "string option"
  t_shared :: bool
  t_tags :: "string option"
  t_created_at :: int
  t_updated_at :: int

record team =
  team_db :: store
  audit_log :: "audit_row list"
  comments :: "comment_row list"
  favorites :: "favorite_row list"
  templates :: "template_row list"

definition find_id :: "('r \<Rightarrow> nat) \<Rightarrow> nat \<Rightarrow> 'r list \<Rightarrow> 'r option" where
  "find_id pk k rows = find (\<lambda>r. pk r = k) rows"

text \<open>With foreign keys enforced, a row must point to a session that exists.\<close>

definition fk_holds :: "string \<Rightarrow> team \<Rightarrow> bool" where
  "fk_holds sid s \<longleftrightarrow> fk (team_db s) \<longrightarrow> get_session sid (team_db s) \<noteq> None"

section \<open>Audit log\<close>

definition record_audit ::
    "(nat list \<Rightarrow> nat) \<Rightarrow> int \<Rightarrow> string \<Rightarrow> string \<Rightarrow> string option \<Rightarrow> string option \<Rightarrow> pydict \<Rightarrow> string option \<Rightarrow> team \<Rightarrow> nat \<times> team" where
  "record_audit alloc ts actor action target_type target_id metadata request_id s =
     (let i = alloc (map a_id (audit_log s));
          r = \<lparr>a_id = i, a_ts = ts, a_actor = actor, a_action = action, a_target_type = target_type, a_target_id = target_id,
               a_metadata = (if metadata = [] then None else Some metadata), a_request_id = request_id\<rparr>
      in (i, s\<lparr>audit_log := audit_log s @ [r]\<rparr>))"

text \<open>The parts are sorted as text, which puts the four names into this order.\<close>

definition audit_filter_hash ::
    "codec \<Rightarrow> string option \<Rightarrow> string option \<Rightarrow> string option \<Rightarrow> string option \<Rightarrow> string" where
  "audit_filter_hash cd actor action target_type target_id =
     sha cd (''action='' @ or_star action @ ''|actor='' @ or_star actor @ ''|target_id='' @ or_star target_id @ ''|target_type='' @ or_star target_type)"

definition audit_cursor_obj :: "codec \<Rightarrow> int \<Rightarrow> nat \<Rightarrow> string \<Rightarrow> pyval" where
  "audit_cursor_obj cd ts i fh = PDict [(PStr ''ts'', PStr (iso cd ts)), (PStr ''id'', PInt (int i)), (PStr ''fh'', PStr fh)]"

definition encode_audit_cursor :: "codec \<Rightarrow> int \<Rightarrow> nat \<Rightarrow> string \<Rightarrow> string" where
  "encode_audit_cursor cd ts i fh = pack cd (audit_cursor_obj cd ts i fh)"

definition decode_audit_cursor :: "codec \<Rightarrow> string \<Rightarrow> string \<Rightarrow> store_exn + (int \<times> int)" where
  "decode_audit_cursor cd cursor fh = (case unpack cd cursor of
     Some (PDict d) \<Rightarrow>
       if map_of d (PStr ''ts'') = None \<or> map_of d (PStr ''id'') = None then Inl CursorInvalidError
       else if dget d ''fh'' \<noteq> PStr fh then Inl CursorFilterMismatchError
       else (case from_iso cd (dget d ''ts'') of
               None \<Rightarrow> Inl CursorInvalidError
             | Some ts \<Rightarrow> (case py_int (dget d ''id'') of
                   Inr i \<Rightarrow> Inr (ts, i)
                 | Inl e \<Rightarrow> Inl (if e = TypeError \<or> e = ValueError then CursorInvalidError else StoreError e)))
   | _ \<Rightarrow> Inl CursorInvalidError)"

definition audit_key :: "audit_row \<Rightarrow> int \<times> int" where
  "audit_key r = (a_ts r, int (a_id r))"

record audit_filter =
  af_actor :: "string option"
  af_action :: "string option"
  af_target_type :: "string option"
  af_target_id :: "string option"

text \<open>\<open>session_id\<close> stands for a target of type session, unless a target is given.\<close>

definition with_session :: "string option \<Rightarrow> audit_filter \<Rightarrow> audit_filter" where
  "with_session session_id af = (case session_id of
     None \<Rightarrow> af
   | Some sid \<Rightarrow> af\<lparr>af_target_type := (case af_target_type af of None \<Rightarrow> Some ''session'' | t \<Rightarrow> t),
                    af_target_id := (case af_target_id af of None \<Rightarrow> Some sid | t \<Rightarrow> t)\<rparr>)"

definition audit_selects :: "audit_filter \<Rightarrow> audit_row \<Rightarrow> bool" where
  "audit_selects af r \<longleftrightarrow> (case af_actor af of None \<Rightarrow> True | Some a \<Rightarrow> a_actor r = a)
     \<and> (case af_action af of None \<Rightarrow> True | Some a \<Rightarrow> a_action r = a)
     \<and> (case af_target_type af of None \<Rightarrow> True | Some t \<Rightarrow> a_target_type r = Some t)
     \<and> (case af_target_id af of None \<Rightarrow> True | Some t \<Rightarrow> a_target_id r = Some t)"

definition list_audit ::
    "codec \<Rightarrow> string option \<Rightarrow> audit_filter \<Rightarrow> string option \<Rightarrow> nat \<Rightarrow> team \<Rightarrow> store_exn + (audit_row list \<times> string option)" where
  "list_audit cd session_id af0 after limit s =
     (let af = with_session session_id af0;
          fh = audit_filter_hash cd (af_actor af) (af_action af) (af_target_type af) (af_target_id af)
      in case (case after of None \<Rightarrow> Inr None | Some c \<Rightarrow> map_sum id Some (decode_audit_cursor cd c fh)) of
           Inl e \<Rightarrow> Inl e
         | Inr anchor \<Rightarrow>
             (let (rows, next) = page audit_key (audit_selects af) limit anchor (audit_log s)
              in Inr (rows, map_option (\<lambda>(ts, i). encode_audit_cursor cd ts (nat i) fh) next)))"

section \<open>Comments\<close>

definition create_comment ::
    "(nat list \<Rightarrow> nat) \<Rightarrow> int \<Rightarrow> string \<Rightarrow> string \<Rightarrow> string \<Rightarrow> string \<Rightarrow> team \<Rightarrow> (py_exn + comment_row) \<times> team" where
  "create_comment alloc now sid author markdown html s =
     (if \<not> fk_holds sid s then (Inl IntegrityError, s)
      else (let r = \<lparr>c_id = alloc (map c_id (comments s)), c_session = sid, c_author = author, c_markdown = markdown, c_html = html,
                    c_created_at = now, c_updated_at = now, c_deleted_at = None\<rparr>
            in (Inr r, s\<lparr>comments := comments s @ [r]\<rparr>)))"

definition list_comments :: "string \<Rightarrow> bool \<Rightarrow> nat \<Rightarrow> team \<Rightarrow> comment_row list" where
  "list_comments sid include_deleted limit s =
     take limit (sort_key c_created_at (filter (\<lambda>r. c_session r = sid \<and> (include_deleted \<or> c_deleted_at r = None)) (comments s)))"

definition get_comment :: "nat \<Rightarrow> team \<Rightarrow> comment_row option" where
  "get_comment cid s = find_id c_id cid (comments s)"

definition live_comment :: "nat \<Rightarrow> comment_row \<Rightarrow> bool" where
  "live_comment cid r \<longleftrightarrow> c_id r = cid \<and> c_deleted_at r = None"

definition update_comment :: "int \<Rightarrow> nat \<Rightarrow> string \<Rightarrow> string \<Rightarrow> team \<Rightarrow> bool \<times> team" where
  "update_comment now cid markdown html s =
     (filter (live_comment cid) (comments s) \<noteq> [],
      s\<lparr>comments := update_where (live_comment cid) (\<lambda>r. r\<lparr>c_markdown := markdown, c_html := html, c_updated_at := now\<rparr>) (comments s)\<rparr>)"

definition soft_delete_comment :: "int \<Rightarrow> nat \<Rightarrow> team \<Rightarrow> bool \<times> team" where
  "soft_delete_comment now cid s =
     (filter (live_comment cid) (comments s) \<noteq> [],
      s\<lparr>comments := update_where (live_comment cid) (\<lambda>r. r\<lparr>c_deleted_at := Some now\<rparr>) (comments s)\<rparr>)"

section \<open>Favorites\<close>

definition is_favorited :: "string \<Rightarrow> string \<Rightarrow> team \<Rightarrow> bool" where
  "is_favorited sid user s \<longleftrightarrow> (\<exists>r \<in> set (favorites s). f_session r = sid \<and> f_user r = user)"

text \<open>Every violated constraint, the unique pair as well as a missing session, is reported as \<open>False\<close>.\<close>

definition add_favorite :: "(nat list \<Rightarrow> nat) \<Rightarrow> int \<Rightarrow> string \<Rightarrow> string \<Rightarrow> team \<Rightarrow> bool \<times> team" where
  "add_favorite alloc now sid user s =
     (if is_favorited sid user s \<or> \<not> fk_holds sid s then (False, s)
      else (True, s\<lparr>favorites := favorites s @ [\<lparr>f_id = alloc (map f_id (favorites s)), f_session = sid, f_user = user, f_created_at = now\<rparr>]\<rparr>))"

definition remove_favorite :: "string \<Rightarrow> string \<Rightarrow> team \<Rightarrow> bool \<times> team" where
  "remove_favorite sid user s =
     (is_favorited sid user s, s\<lparr>favorites := filter (\<lambda>r. \<not> (f_session r = sid \<and> f_user r = user)) (favorites s)\<rparr>)"

definition list_favorites :: "string \<Rightarrow> nat \<Rightarrow> team \<Rightarrow> (favorite_row \<times> session_row) list" where
  "list_favorites user limit s =
     List.map_filter (\<lambda>f. map_option (\<lambda>r. (f, r)) (get_session (f_session f) (team_db s)))
       (take limit (rev (sort_key f_created_at (rev (filter (\<lambda>f. f_user f = user) (favorites s))))))"

section \<open>Templates\<close>

datatype template_exn = TemplateConflictError

definition create_template ::
    "(nat list \<Rightarrow> nat) \<Rightarrow> int \<Rightarrow> string \<Rightarrow> string \<Rightarrow> string \<Rightarrow> string option \<Rightarrow> bool \<Rightarrow> string option \<Rightarrow> team
     \<Rightarrow> (template_exn + template_row) \<times> team" where
  "create_template alloc now name creator prompt description shared tags s =
     (if \<exists>r \<in> set (templates s). t_creator r = creator \<and> t_name r = name then (Inl TemplateConflictError, s)
      else (let r = \<lparr>t_id = alloc (map t_id (templates s)), t_name = name, t_creator = creator, t_prompt = prompt, t_description = description,
                    t_shared = shared, t_tags = tags, t_created_at = now, t_updated_at = now\<rparr>
            in (Inr r, s\<lparr>templates := templates s @ [r]\<rparr>)))"

definition get_template :: "nat \<Rightarrow> team \<Rightarrow> template_row option" where
  "get_template tid s = find_id t_id tid (templates s)"

text \<open>Ordered by \<open>shared DESC, name ASC\<close>.\<close>

definition list_templates :: "string \<Rightarrow> bool \<Rightarrow> bool \<Rightarrow> nat \<Rightarrow> team \<Rightarrow> template_row list" where
  "list_templates actor is_admin include_others limit s =
     take limit (sort_key (\<lambda>r. (\<not> t_shared r, t_name r))
       (filter (\<lambda>r. (is_admin \<and> include_others) \<or> t_creator r = actor \<or> t_shared r) (templates s)))"

definition update_template ::
    "int \<Rightarrow> nat \<Rightarrow> string option \<Rightarrow> string option \<Rightarrow> bool option \<Rightarrow> string option \<Rightarrow> team \<Rightarrow> bool \<times> team" where
  "update_template now tid prompt description shared tags s =
     (get_template tid s \<noteq> None,
      s\<lparr>templates := update_where (\<lambda>r. t_id r = tid)
         (\<lambda>r. r\<lparr>t_updated_at := now,
               t_prompt := (case prompt of None \<Rightarrow> t_prompt r | Some p \<Rightarrow> p),
               t_description := keep_or (t_description r) description,
               t_shared := (case shared of None \<Rightarrow> t_shared r | Some b \<Rightarrow> b),
               t_tags := keep_or (t_tags r) tags\<rparr>) (templates s)\<rparr>)"

definition delete_template :: "nat \<Rightarrow> team \<Rightarrow> bool \<times> team" where
  "delete_template tid s = (get_template tid s \<noteq> None, s\<lparr>templates := filter (\<lambda>r. t_id r \<noteq> tid) (templates s)\<rparr>)"

section \<open>The audit trail can be read in full\<close>

definition audit_ok :: "team \<Rightarrow> bool" where
  "audit_ok s \<longleftrightarrow> distinct (map a_id (audit_log s))"

text \<open>An audit write only appends: nothing recorded before is lost or changed.\<close>

lemma record_audit_appends:
  assumes "audit_ok s" and "alloc (map a_id (audit_log s)) \<notin> set (map a_id (audit_log s))"
    and "record_audit alloc ts actor action tt ti meta rid s = (i, s')"
  shows "audit_ok s' \<and> (\<exists>r. audit_log s' = audit_log s @ [r] \<and> a_id r = i \<and> a_actor r = actor \<and> a_action r = action)
     \<and> comments s' = comments s \<and> favorites s' = favorites s \<and> templates s' = templates s \<and> team_db s' = team_db s"
  using assms by (auto simp: record_audit_def audit_ok_def Let_def)

text \<open>The documented behaviour of the codec on the cursors of the audit rows.\<close>

definition audit_codec_ok :: "codec \<Rightarrow> string \<Rightarrow> team \<Rightarrow> bool" where
  "audit_codec_ok cd fh s \<longleftrightarrow> (\<forall>r \<in> set (audit_log s).
     unpack cd (pack cd (audit_cursor_obj cd (a_ts r) (a_id r) fh)) = Some (audit_cursor_obj cd (a_ts r) (a_id r) fh)
     \<and> from_iso cd (PStr (iso cd (a_ts r))) = Some (a_ts r))"

definition hash_of :: "codec \<Rightarrow> audit_filter \<Rightarrow> string" where
  "hash_of cd af = audit_filter_hash cd (af_actor af) (af_action af) (af_target_type af) (af_target_id af)"

definition encode_audit_key :: "codec \<Rightarrow> string \<Rightarrow> int \<times> int \<Rightarrow> string" where
  "encode_audit_key cd fh = (\<lambda>(ts, i). encode_audit_cursor cd ts (nat i) fh)"

lemma audit_decode_encode:
  assumes "audit_codec_ok cd fh s" and "r \<in> set (audit_log s)"
  shows "decode_audit_cursor cd (encode_audit_key cd fh (audit_key r)) fh = Inr (audit_key r)"
  using assms
  by (auto simp: audit_codec_ok_def decode_audit_cursor_def encode_audit_key_def encode_audit_cursor_def audit_cursor_obj_def audit_key_def)

text \<open>
  an auditor who pages through \<open>list_audit\<close> from the start, passing each returned cursor back, ends
  after at most one request per row plus one and has seen every entry that matches the filter exactly
  once, newest first.
\<close>

lemma audit_listing_complete:
  assumes "audit_ok s" and "0 < limit" and "audit_codec_ok cd (hash_of cd (with_session sid af)) s"
  shows "\<exists>pages. follow_pages (Suc (length (audit_log s))) (\<lambda>a. list_audit cd sid af a limit s) None = Some (Inr pages)
     \<and> concat pages = filter (audit_selects (with_session sid af)) (ordered_desc audit_key (audit_log s))
     \<and> (\<forall>ys \<in> set pages. length ys \<le> limit)"
proof (rule follow_complete [where enc = "encode_audit_key cd (hash_of cd (with_session sid af))"])
  show "distinct (map audit_key (audit_log s))"
    using assms(1) by (auto simp: audit_ok_def distinct_map inj_on_def audit_key_def)
  show "list_audit cd sid af (map_option (encode_audit_key cd (hash_of cd (with_session sid af))) after) limit s =
     Inr (fst (page audit_key (audit_selects (with_session sid af)) limit after (audit_log s)),
          map_option (encode_audit_key cd (hash_of cd (with_session sid af)))
            (snd (page audit_key (audit_selects (with_session sid af)) limit after (audit_log s))))"
    if "\<forall>k. after = Some k \<longrightarrow> k \<in> audit_key ` set (audit_log s)" for after
    using that audit_decode_encode [OF assms(3)]
    by (cases after) (auto simp: list_audit_def hash_of_def [symmetric] encode_audit_key_def [symmetric] Let_def split: prod.splits)
qed (rule assms)

definition demo_team :: team where
  "demo_team = snd (record_audit (\<lambda>ids. Suc (length ids)) 7 ''bob'' ''session_cancel'' (Some ''session'') (Some ''a'') [] None
     (snd (record_audit (\<lambda>ids. Suc (length ids)) 7 ''ann'' ''session_create'' (Some ''session'') (Some ''a'') [] None
        \<lparr>team_db = demo_store, audit_log = [], comments = [], favorites = [], templates = []\<rparr>)))"

definition audit_codec :: codec where
  "audit_codec = \<lparr>pack = (\<lambda>v. case v of PDict d \<Rightarrow> (if dget d ''id'' = PInt 1 then ''x'' else ''y'') | _ \<Rightarrow> []),
     unpack = (\<lambda>s. Some (PDict [(PStr ''ts'', PStr ''7''), (PStr ''id'', PInt (if s = ''x'' then 1 else 2)), (PStr ''fh'', PStr ''f'')])),
     iso = (\<lambda>_. ''7''), from_iso = (\<lambda>_. Some 7), sha = (\<lambda>_. ''f''), show_val = (\<lambda>_. [])\<rparr>"

lemma audit_listing_complete_witness:
  "\<exists>pages. follow_pages 3 (\<lambda>a. list_audit audit_codec (Some ''a'') \<lparr>af_actor = None, af_action = None, af_target_type = None, af_target_id = None\<rparr> a 1 demo_team) None
       = Some (Inr pages) \<and> map a_actor (concat pages) = [''bob'', ''ann'']"
proof -
  let ?af = "\<lparr>af_actor = None, af_action = None, af_target_type = None, af_target_id = None\<rparr>"
  have ok: "audit_ok demo_team" by (simp add: audit_ok_def demo_team_def record_audit_def Let_def)
  have cd: "audit_codec_ok audit_codec (hash_of audit_codec (with_session (Some ''a'') ?af)) demo_team"
    by (simp add: audit_codec_ok_def demo_team_def record_audit_def Let_def audit_codec_def audit_cursor_obj_def hash_of_def audit_filter_hash_def dget_def)
  have n: "Suc (length (audit_log demo_team)) = 3" by (simp add: demo_team_def record_audit_def Let_def)
  have "map a_actor (filter (audit_selects (with_session (Some ''a'') ?af)) (ordered_desc audit_key (audit_log demo_team))) = [''bob'', ''ann'']"
    by code_simp
  with audit_listing_complete [OF ok zero_less_one cd] n show ?thesis by auto
qed

section \<open>Comments, favorites and templates\<close>

text \<open>A tombstone is final: no later edit or deletion changes the row.\<close>

lemma tombstone_final:
  assumes "r \<in> set (comments s)" and "c_deleted_at r = Some t"
  shows "r \<in> set (comments (snd (update_comment now cid md html s)))" and "r \<in> set (comments (snd (soft_delete_comment now cid s)))"
  using assms by (force simp: update_comment_def soft_delete_comment_def update_where_def live_comment_def image_iff)+

lemma deleted_comment_hidden:
  assumes "soft_delete_comment now cid s = (ok, s')"
  shows "\<forall>r \<in> set (list_comments sid False limit s'). c_id r \<noteq> cid"
proof
  fix r
  assume "r \<in> set (list_comments sid False limit s')"
  then have "r \<in> set (sort_key c_created_at (filter (\<lambda>r. c_session r = sid \<and> (False \<or> c_deleted_at r = None)) (comments s')))"
    unfolding list_comments_def by (rule in_set_takeD)
  then have r: "r \<in> set (comments s')" "c_deleted_at r = None" by auto
  have "comments s' = update_where (live_comment cid) (\<lambda>r. r\<lparr>c_deleted_at := Some now\<rparr>) (comments s)"
    using assms by (auto simp: soft_delete_comment_def)
  with r(1) have "r \<in> (\<lambda>r0. if live_comment cid r0 then r0\<lparr>c_deleted_at := Some now\<rparr> else r0) ` set (comments s)"
    by (simp add: update_where_def)
  then obtain r0 where "r = (if live_comment cid r0 then r0\<lparr>c_deleted_at := Some now\<rparr> else r0)" by blast
  with r(2) show "c_id r \<noteq> cid" by (auto simp: live_comment_def split: if_splits)
qed

text \<open>Starring and un-starring are idempotent and undo each other.\<close>

lemma favorite_toggle:
  assumes "fk_holds sid s"
  shows "is_favorited sid u (snd (add_favorite alloc now sid u s))"
    and "\<not> fst (add_favorite alloc now sid u (snd (add_favorite alloc now sid u s)))"
    and "\<not> is_favorited sid u (snd (remove_favorite sid u s))"
    and "\<not> is_favorited sid u s \<Longrightarrow> snd (remove_favorite sid u (snd (add_favorite alloc now sid u s))) = s"
proof -
  show "is_favorited sid u (snd (add_favorite alloc now sid u s))" using assms by (auto simp: add_favorite_def is_favorited_def)
  then show "\<not> fst (add_favorite alloc now sid u (snd (add_favorite alloc now sid u s)))" by (simp add: add_favorite_def [of _ _ _ _ "snd _"])
  show "\<not> is_favorited sid u (snd (remove_favorite sid u s))" by (auto simp: remove_favorite_def is_favorited_def)
  show "snd (remove_favorite sid u (snd (add_favorite alloc now sid u s))) = s" if "\<not> is_favorited sid u s"
  proof -
    have "filter (\<lambda>r. \<not> (f_session r = sid \<and> f_user r = u)) (favorites s) = favorites s"
      using that by (auto simp: is_favorited_def filter_id_conv)
    then show ?thesis using that assms by (simp add: add_favorite_def remove_favorite_def)
  qed
qed

text \<open>A star on a missing session is reported like a star that is already there.\<close>

lemma star_of_missing_session:
  "fk (team_db s) \<Longrightarrow> get_session sid (team_db s) = None \<Longrightarrow> add_favorite alloc now sid u s = (False, s)"
  by (simp add: add_favorite_def fk_holds_def)

definition names_unique :: "team \<Rightarrow> bool" where
  "names_unique s \<longleftrightarrow> distinct (map (\<lambda>r. (t_creator r, t_name r)) (templates s))"

lemma names_unique_preserved:
  assumes "names_unique s"
  shows "names_unique (snd (create_template alloc now nm cr p d sh tg s))"
    and "names_unique (snd (update_template now tid p' d' sh' tg' s))"
    and "names_unique (snd (delete_template tid s))"
proof -
  show "names_unique (snd (create_template alloc now nm cr p d sh tg s))"
    using assms by (force simp: names_unique_def create_template_def Let_def)
  have "map (\<lambda>r. (t_creator r, t_name r)) (templates (snd (update_template now tid p' d' sh' tg' s))) = map (\<lambda>r. (t_creator r, t_name r)) (templates s)"
    by (simp add: update_template_def update_where_def)
  then show "names_unique (snd (update_template now tid p' d' sh' tg' s))" using assms by (simp add: names_unique_def)
  show "names_unique (snd (delete_template tid s))" using assms by (simp add: names_unique_def delete_template_def distinct_map_filter)
qed

end
