(* ===== verification/Api_Keys.thy ===== *)
theory Api_Keys
  imports Team_Store
begin

text \<open>
  Who a request is from and what it may do: the key table (\<open>auth/store.py\<close>), the caching
  resolver (\<open>auth/db_resolver.py\<close>), the import of environment keys (\<open>auth/env_resolver.py\<close>), the
  two authentication middlewares (\<open>api/middleware/api_key_auth.py\<close>, \<open>dashboard_cookie.py\<close>), the
  role checks (\<open>api/dependencies/require_role.py\<close>), the key administration endpoints
  (\<open>api/routers/admin_keys.py\<close>) and the dashboard keys (\<open>store/dashboard_keys.py\<close>).
  \<open>H\<close> is SHA-256 in hex. The TTL cache is the \<open>cachetools\<close> package: a parameter, with its
  documented behaviour stated as \<open>ttl_laws\<close>. One clock stands for the monotonic and the wall
  clock.
\<close>

section \<open>The key table\<close>

record key_row =
  k_label :: string
  k_hash :: string
  k_role :: string
  k_created_at :: int
  k_created_by :: "string option"
  k_expires_at :: "int option"
  k_revoked_at :: "int option"
  k_last_used_at :: "int option"
  k_notes :: "string option"

datatype key_exn = ApiKeyConflictError

definition create_key ::
    "(string \<Rightarrow> string) \<Rightarrow> int \<Rightarrow> string \<Rightarrow> string \<Rightarrow> string \<Rightarrow> string option \<Rightarrow> int option \<Rightarrow> string option
     \<Rightarrow> key_row list \<Rightarrow> (key_exn + key_row) \<times> key_row list" where
  "create_key H now label raw role created_by expires_at notes rows =
     (if label \<in> set (map k_label rows) then (Inl ApiKeyConflictError, rows)
      else (let r = \<lparr>k_label = label, k_hash = H raw, k_role = role, k_created_at = now, k_created_by = created_by,
                    k_expires_at = expires_at, k_revoked_at = None, k_last_used_at = None, k_notes = notes\<rparr>
            in (Inr r, rows @ [r])))"

definition get_by_hash :: "string \<Rightarrow> key_row list \<Rightarrow> key_row option" where
  "get_by_hash kh rows = find (\<lambda>r. k_hash r = kh) rows"

definition get_by_label :: "string \<Rightarrow> key_row list \<Rightarrow> key_row option" where
  "get_by_label label rows = find (\<lambda>r. k_label r = label) rows"

definition list_keys :: "bool \<Rightarrow> nat \<Rightarrow> key_row list \<Rightarrow> key_row list" where
  "list_keys include_revoked limit rows =
     take limit (rev (sort_key k_created_at (rev (filter (\<lambda>r. include_revoked \<or> k_revoked_at r = None) rows))))"

definition active_label :: "string \<Rightarrow> key_row \<Rightarrow> bool" where
  "active_label label r \<longleftrightarrow> k_label r = label \<and> k_revoked_at r = None"

definition revoke_key :: "int \<Rightarrow> string \<Rightarrow> key_row list \<Rightarrow> bool \<times> key_row list" where
  "revoke_key now label rows =
     (filter (active_label label) rows \<noteq> [], update_where (active_label label) (\<lambda>r. r\<lparr>k_revoked_at := Some now\<rparr>) rows)"

definition touch_last_used :: "int \<Rightarrow> string \<Rightarrow> key_row list \<Rightarrow> key_row list" where
  "touch_last_used now kh rows = update_where (\<lambda>r. k_hash r = kh) (\<lambda>r. r\<lparr>k_last_used_at := Some now\<rparr>) rows"

definition is_active_admin :: "key_row \<Rightarrow> bool" where
  "is_active_admin r \<longleftrightarrow> k_role r = ''admin'' \<and> k_revoked_at r = None"

definition count_active_admins :: "key_row list \<Rightarrow> nat" where
  "count_active_admins rows = length (filter is_active_admin rows)"

section \<open>The caching resolver\<close>

record resolved_key =
  rk_label :: string
  rk_role :: string
  rk_expires_at :: "int option"
  rk_notes :: "string option"

text \<open>\<open>cachetools.TTLCache\<close>: \<open>get\<close> with a sentinel default, item assignment, \<open>pop\<close> and \<open>clear\<close>.\<close>

record 'c cache_ops =
  c_get :: "'c \<Rightarrow> string \<Rightarrow> int \<Rightarrow> resolved_key option option"
  c_put :: "string \<Rightarrow> resolved_key option \<Rightarrow> int \<Rightarrow> 'c \<Rightarrow> 'c"
  c_pop :: "string \<Rightarrow> 'c \<Rightarrow> 'c"
  c_clear :: "'c \<Rightarrow> 'c"

text \<open>
  \<open>inflight\<close> holds a future per hash being looked up; with it what the lookup has read of the
  table so far and when, its local variable.
\<close>

record 'c resolver =
  rcache :: 'c
  last_touch :: "(string, int) od"
  inflight :: "(string, (key_row option \<times> int) option) od"

record resolver_cfg =
  override_mode :: string
  role_mapping :: "(string, string) od"
  touch_throttle :: int

datatype begun = Hit "resolved_key option" | Join | Miss

definition schedule_touch :: "resolver_cfg \<Rightarrow> string \<Rightarrow> int \<Rightarrow> 'c resolver \<Rightarrow> bool \<times> 'c resolver" where
  "schedule_touch cf kh now r =
     (let lst = (case map_of (last_touch r) kh of None \<Rightarrow> 0 | Some t \<Rightarrow> t)
      in if now - lst < touch_throttle cf then (False, r)
         else (True, r\<lparr>last_touch := AList.update kh now (last_touch r)\<rparr>))"

text \<open>The part of \<open>resolve\<close> before the database is asked.\<close>

definition resolve_begin :: "'c cache_ops \<Rightarrow> resolver_cfg \<Rightarrow> string \<Rightarrow> int \<Rightarrow> 'c resolver \<Rightarrow> begun \<times> 'c resolver" where
  "resolve_begin ops cf kh now r = (case c_get ops (rcache r) kh now of
     Some None \<Rightarrow> (Hit None, r)
   | Some (Some k) \<Rightarrow> (Hit (Some k), snd (schedule_touch cf kh now r))
   | None \<Rightarrow> if map_of (inflight r) kh \<noteq> None then (Join, r)
             else (Miss, r\<lparr>inflight := AList.update kh None (inflight r)\<rparr>))"

definition lookup_row :: "resolver_cfg \<Rightarrow> key_row option \<Rightarrow> int \<Rightarrow> resolved_key option" where
  "lookup_row cf row now = (case row of
     None \<Rightarrow> None
   | Some r \<Rightarrow>
       if k_revoked_at r \<noteq> None then None
       else if (case k_expires_at r of None \<Rightarrow> False | Some e \<Rightarrow> e < now) then None
       else (let role = (if override_mode cf = ''config''
                         then (case map_of (role_mapping cf) (k_label r) of
                                 None \<Rightarrow> k_role r
                               | Some ov \<Rightarrow> if ov = [] then k_role r else ov)
                         else k_role r)
             in Some \<lparr>rk_label = k_label r, rk_role = role, rk_expires_at = k_expires_at r, rk_notes = k_notes r\<rparr>))"

text \<open>The part after it: fill the cache, answer the waiters, forget the future.\<close>

definition resolve_end :: "'c cache_ops \<Rightarrow> resolver_cfg \<Rightarrow> string \<Rightarrow> resolved_key option \<Rightarrow> int \<Rightarrow> 'c resolver \<Rightarrow> 'c resolver" where
  "resolve_end ops cf kh resolved now r =
     (let r1 = r\<lparr>rcache := c_put ops kh resolved now (rcache r)\<rparr>;
          r2 = (if resolved = None then r1 else snd (schedule_touch cf kh now r1))
      in r2\<lparr>inflight := AList.delete kh (inflight r2)\<rparr>)"

definition resolve_fail :: "string \<Rightarrow> 'c resolver \<Rightarrow> 'c resolver" where
  "resolve_fail kh r = r\<lparr>inflight := AList.delete kh (inflight r)\<rparr>"

definition drop_hash :: "'c cache_ops \<Rightarrow> string \<Rightarrow> 'c resolver \<Rightarrow> 'c resolver" where
  "drop_hash ops kh r = r\<lparr>rcache := c_pop ops kh (rcache r), last_touch := AList.delete kh (last_touch r)\<rparr>"

definition invalidate_cache ::
    "'c cache_ops \<Rightarrow> string option \<Rightarrow> string option \<Rightarrow> key_row list \<Rightarrow> 'c resolver \<Rightarrow> 'c resolver" where
  "invalidate_cache ops key_hash label rows r = (case key_hash of
     Some kh \<Rightarrow> drop_hash ops kh r
   | None \<Rightarrow> (case label of
       Some l \<Rightarrow> (case get_by_label l rows of None \<Rightarrow> r | Some row \<Rightarrow> drop_hash ops (k_hash row) r)
     | None \<Rightarrow> r\<lparr>rcache := c_clear ops (rcache r), last_touch := []\<rparr>))"

text \<open>\<open>resolve\<close> when nothing else runs while it waits for the database.\<close>

definition resolve_key :: "'c cache_ops \<Rightarrow> resolver_cfg \<Rightarrow> (string \<Rightarrow> string) \<Rightarrow> string \<Rightarrow> int \<Rightarrow> key_row list \<Rightarrow> 'c resolver
    \<Rightarrow> resolved_key option \<times> 'c resolver" where
  "resolve_key ops cf H raw now rows r =
     (let kh = H raw in
      case resolve_begin ops cf kh now r of
        (Hit v, r1) \<Rightarrow> (v, r1)
      | (_, r1) \<Rightarrow> (let v = lookup_row cf (get_by_hash kh rows) now in (v, resolve_end ops cf kh v now r1)))"

section \<open>Import of the environment keys\<close>

record sync_report =
  created :: nat
  skipped :: nat

definition sync_one :: "(string \<Rightarrow> string) \<Rightarrow> (string, string) od \<Rightarrow> string \<Rightarrow> int \<Rightarrow> string \<times> string
    \<Rightarrow> (key_exn + sync_report) \<times> key_row list \<Rightarrow> (key_exn + sync_report) \<times> key_row list" where
  "sync_one H mapping default_role now p st = (case st of
     (Inl e, rows) \<Rightarrow> (Inl e, rows)
   | (Inr rep, rows) \<Rightarrow>
       (case get_by_label (snd p) rows of
          Some _ \<Rightarrow> (Inr (rep\<lparr>skipped := skipped rep + 1\<rparr>), rows)
        | None \<Rightarrow>
            (let role = (case map_of mapping (snd p) of None \<Rightarrow> default_role | Some ro \<Rightarrow> ro) in
             case create_key H now (snd p) (fst p) role (Some ''env_bootstrap'') None (Some ''Auto-imported from RELAY_API_KEYS_RAW env'') rows of
               (Inl e, rows') \<Rightarrow> (Inl e, rows')
             | (Inr _, rows') \<Rightarrow> (Inr (rep\<lparr>created := created rep + 1\<rparr>), rows'))))"

definition sync_to_db :: "(string \<Rightarrow> string) \<Rightarrow> (string, string) od \<Rightarrow> (string, string) od \<Rightarrow> string \<Rightarrow> int \<Rightarrow> key_row list
    \<Rightarrow> (key_exn + sync_report) \<times> key_row list" where
  "sync_to_db H env_keys mapping default_role now rows =
     fold (sync_one H mapping default_role now) env_keys (Inr \<lparr>created = 0, skipped = 0\<rparr>, rows)"

section \<open>Requests and the middlewares in front of the routes\<close>

text \<open>
  The parts of a Starlette request that the middlewares read and write: path, headers, the
  signed session (\<open>None\<close> when the session middleware did not run), and \<open>request.state\<close>.
\<close>

record request =
  rq_path :: string
  rq_headers :: "(string \<times> string) list"
  rq_session :: "(string \<times> pyval) list option"
  rq_dashboard_user :: "string option"
  rq_key_id :: "string option"
  rq_key_hash :: "string option"
  rq_label :: "string option"
  rq_key_role :: "string option"
  rq_role :: "string option"

definition get_header :: "string \<Rightarrow> request \<Rightarrow> string option" where
  "get_header name rq = map_option snd (find (\<lambda>(n, v). str_lower n = name) (rq_headers rq))"

definition API_PREFIX :: string where
  "API_PREFIX = ''/api/v1/''"

definition SESSION_KEY :: string where
  "SESSION_KEY = ''dashboard_user''"

definition inject_synthetic_key :: "string \<Rightarrow> request \<Rightarrow> request" where
  "inject_synthetic_key key rq =
     rq\<lparr>rq_headers := filter (\<lambda>(n, v). str_lower n \<noteq> ''x-api-key'') (rq_headers rq) @ [(''x-api-key'', key)]\<rparr>"

text \<open>\<open>keys\<close> is \<open>app.state.dashboard_internal_keys\<close>, empty when it is not set.\<close>

definition cookie_dispatch :: "(string, string) od \<Rightarrow> request \<Rightarrow> request" where
  "cookie_dispatch keys rq =
     (let session = (case rq_session rq of None \<Rightarrow> [] | Some d \<Rightarrow> d) in
      case map_of session SESSION_KEY of
        Some (PStr user) \<Rightarrow>
          (if user = [] then rq
           else (case map_of keys user of
                   None \<Rightarrow> rq
                 | Some key \<Rightarrow>
                     (let rq1 = rq\<lparr>rq_dashboard_user := Some user\<rparr>
                      in if starts_with API_PREFIX (rq_path rq) then inject_synthetic_key key rq1 else rq1)))
      | _ \<Rightarrow> rq)"

definition WEBHOOK_EXEMPT_PREFIXES :: "string list" where
  "WEBHOOK_EXEMPT_PREFIXES = [''/api/v1/webhooks/'', ''/im/'']"

datatype auth_answer = Pass request | InvalidKey

record auth_cfg =
  keys_with_labels :: "(string, string) od"
  protected_prefix :: string
  allow_no_keys :: bool

text \<open>\<open>resolver\<close> is \<open>app.state.key_resolver.resolve\<close>, if one is attached: what awaiting it gives for a key.\<close>

definition auth_dispatch ::
    "(string \<Rightarrow> string) \<Rightarrow> auth_cfg \<Rightarrow> (string \<Rightarrow> resolved_key option) option \<Rightarrow> request \<Rightarrow> auth_answer" where
  "auth_dispatch H ac resolver rq =
     (if \<exists>p \<in> set WEBHOOK_EXEMPT_PREFIXES. starts_with p (rq_path rq) then Pass rq
      else if \<not> starts_with (protected_prefix ac) (rq_path rq) then Pass rq
      else (case resolver of
          Some resolve \<Rightarrow>
            (case get_header ''x-api-key'' rq of
               None \<Rightarrow> InvalidKey
             | Some h \<Rightarrow>
                 if h = [] then InvalidKey
                 else (case resolve h of
                         None \<Rightarrow> InvalidKey
                       | Some k \<Rightarrow> Pass (rq\<lparr>rq_key_id := Some (take 16 (H h)), rq_key_hash := Some (H h),
                                            rq_label := Some (rk_label k), rq_key_role := Some (rk_role k)\<rparr>)))
        | None \<Rightarrow>
            if allow_no_keys ac \<and> keys_with_labels ac = [] then Pass rq
            else (case get_header ''x-api-key'' rq of
                    None \<Rightarrow> InvalidKey
                  | Some h \<Rightarrow>
                      if h = [] then InvalidKey
                      else (case map_of (keys_with_labels ac) h of
                              None \<Rightarrow> InvalidKey
                            | Some label \<Rightarrow> Pass (rq\<lparr>rq_key_id := Some (take 16 (H h)), rq_key_hash := Some (H h), rq_label := Some label\<rparr>)))))"

section \<open>Roles\<close>

definition ROLE_HIERARCHY :: "(string, nat) od" where
  "ROLE_HIERARCHY = [(''viewer'', 0), (''submitter'', 1), (''admin'', 2)]"

definition rank :: "string \<Rightarrow> nat" where
  "rank role = (case map_of ROLE_HIERARCHY role of None \<Rightarrow> 0 | Some n \<Rightarrow> n)"

text \<open>\<open>cfg\<close> is \<open>app.state.config\<close>, if set. The role is left on the request for later readers.\<close>

definition resolve_role :: "resolver_cfg option \<Rightarrow> request \<Rightarrow> string \<times> request" where
  "resolve_role cfg rq = (case rq_label rq of
     None \<Rightarrow> (''viewer'', rq)
   | Some label \<Rightarrow> (case cfg of
       None \<Rightarrow> (''viewer'', rq)
     | Some cf \<Rightarrow>
         (case (if override_mode cf = ''db'' then rq_key_role rq else None) of
            Some ro \<Rightarrow>
              if ro \<noteq> [] then (ro, rq\<lparr>rq_role := Some ro\<rparr>)
              else (let r = (case map_of (role_mapping cf) label of None \<Rightarrow> ''viewer'' | Some m \<Rightarrow> m) in (r, rq\<lparr>rq_role := Some r\<rparr>))
          | None \<Rightarrow> (let r = (case map_of (role_mapping cf) label of None \<Rightarrow> ''viewer'' | Some m \<Rightarrow> m) in (r, rq\<lparr>rq_role := Some r\<rparr>)))))"

text \<open>A refusal: status, code, and the session's owner where the code reports it.\<close>

datatype refusal = Refused nat string "string option"

definition require_role :: "string \<Rightarrow> py_exn + (resolver_cfg option \<Rightarrow> request \<Rightarrow> (refusal + string) \<times> request)" where
  "require_role min_role =
     (if map_of ROLE_HIERARCHY min_role = None then Inl ValueError
      else Inr (\<lambda>cfg rq. let (role, rq1) = resolve_role cfg rq
                         in if rank role < rank min_role then (Inl (Refused 403 ''insufficient_role'' None), rq1) else (Inr role, rq1)))"

text \<open>
  \<open>get\<close> is the store's \<open>get_session\<close>, if a store is attached: \<open>Inl\<close> when the query fails, else
  the owner of the session found.
\<close>

definition require_role_or_own_session ::
    "string \<Rightarrow> py_exn + (resolver_cfg option \<Rightarrow> (string \<Rightarrow> py_exn + string option option) option \<Rightarrow> string \<Rightarrow> request \<Rightarrow> (refusal + string) \<times> request)" where
  "require_role_or_own_session min_role = (case require_role min_role of
     Inl e \<Rightarrow> Inl e
   | Inr role_check \<Rightarrow> Inr (\<lambda>cfg get sid rq. case role_check cfg rq of
       (Inr role, rq1) \<Rightarrow> (Inr role, rq1)
     | (Inl _, rq1) \<Rightarrow>
         (case (get, rq_label rq1) of
            (Some g, Some label) \<Rightarrow>
              (case g sid of
                 Inl _ \<Rightarrow> (Inl (Refused 403 ''ownership_check_error'' None), snd (resolve_role cfg rq1))
               | Inr None \<Rightarrow> (Inl (Refused 404 ''session_not_found'' None), rq1)
               | Inr (Some owner) \<Rightarrow>
                   if owner \<noteq> Some label then (Inl (Refused 403 ''not_owner'' owner), snd (resolve_role cfg rq1))
                   else (Inr min_role, rq1\<lparr>rq_role := Some min_role\<rparr>))
          | _ \<Rightarrow> (Inl (Refused 403 ''no_ownership_check_possible'' None), snd (resolve_role cfg rq1)))))"

section \<open>Key administration endpoints\<close>

record 'c auth =
  key_rows :: "key_row list"
  res :: "'c resolver"
  team_of :: team
  clock :: int

text \<open>The surroundings of the endpoints: hash, cache, configuration, id allocation of the audit log.\<close>

record 'c admin_env =
  e_hash :: "string \<Rightarrow> string"
  e_ops :: "'c cache_ops"
  e_cfg :: resolver_cfg
  e_alloc :: "nat list \<Rightarrow> nat"
  e_iso :: "int \<Rightarrow> string"

definition audit :: "'c admin_env \<Rightarrow> string \<Rightarrow> string \<Rightarrow> string \<Rightarrow> pydict \<Rightarrow> 'c auth \<Rightarrow> 'c auth" where
  "audit e actor action target metadata s =
     s\<lparr>team_of := snd (record_audit (e_alloc e) (clock s) actor action (Some ''api_key'') (Some target) metadata None (team_of s))\<rparr>"

definition caller_label :: "request \<Rightarrow> string" where
  "caller_label rq = (case rq_label rq of None \<Rightarrow> ''anon'' | Some l \<Rightarrow> l)"

definition day :: int where
  "day = 86400000000"

text \<open>The response of a creation carries the only copy of the new key.\<close>

definition create_api_key ::
    "'c admin_env \<Rightarrow> string \<Rightarrow> request \<Rightarrow> string \<Rightarrow> string \<Rightarrow> string option \<Rightarrow> int option \<Rightarrow> 'c auth \<Rightarrow> (refusal + (key_row \<times> string)) \<times> 'c auth" where
  "create_api_key e token rq label role notes expires_in_days s =
     (let raw_key = ''rk_'' @ token;
          expires_at = map_option (\<lambda>d. clock s + d * day) expires_in_days
      in case create_key (e_hash e) (clock s) label raw_key role (Some (caller_label rq)) expires_at notes (key_rows s) of
           (Inl _, _) \<Rightarrow> (Inl (Refused 409 ''api_key_label_conflict'' None), s)
         | (Inr row, rows) \<Rightarrow>
             (let s1 = audit e (caller_label rq) ''key_create'' label
                         [(PStr ''role'', PStr role), (PStr ''expires_at'', case expires_at of None \<Rightarrow> PNone | Some t \<Rightarrow> PStr (e_iso e t))]
                         (s\<lparr>key_rows := rows\<rparr>)
              in (Inr (row, raw_key), s1\<lparr>res := invalidate_cache (e_ops e) None (Some label) rows (res s1)\<rparr>)))"

definition list_api_keys :: "bool \<Rightarrow> 'c auth \<Rightarrow> (key_row \<times> bool) list" where
  "list_api_keys include_revoked s = map (\<lambda>r. (r\<lparr>k_hash := []\<rparr>, k_revoked_at r = None)) (list_keys include_revoked 200 (key_rows s))"

definition revoke_guard :: "request \<Rightarrow> string \<Rightarrow> key_row list \<Rightarrow> refusal + key_row" where
  "revoke_guard rq label rows = (case get_by_label label rows of
     None \<Rightarrow> Inl (Refused 404 ''api_key_not_found'' None)
   | Some target \<Rightarrow>
       if k_revoked_at target \<noteq> None then Inl (Refused 404 ''api_key_not_found'' None)
       else if label = caller_label rq then Inl (Refused 400 ''self_revoke_forbidden'' None)
       else if k_role target = ''admin'' \<and> count_active_admins rows \<le> 1 then Inl (Refused 400 ''last_admin_revoke_forbidden'' None)
       else Inr target)"

definition revoke_commit :: "'c admin_env \<Rightarrow> request \<Rightarrow> string \<Rightarrow> key_row \<Rightarrow> 'c auth \<Rightarrow> 'c auth" where
  "revoke_commit e rq label target s =
     (let rows = snd (revoke_key (clock s) label (key_rows s));
          s1 = audit e (caller_label rq) ''key_revoke'' label [(PStr ''victim_role'', PStr (k_role target))] (s\<lparr>key_rows := rows\<rparr>)
      in s1\<lparr>res := invalidate_cache (e_ops e) (Some (k_hash target)) (Some label) rows (res s1)\<rparr>)"

definition revoke_api_key :: "'c admin_env \<Rightarrow> request \<Rightarrow> string \<Rightarrow> 'c auth \<Rightarrow> (refusal + unit) \<times> 'c auth" where
  "revoke_api_key e rq label s = (case revoke_guard rq label (key_rows s) of
     Inl f \<Rightarrow> (Inl f, s)
   | Inr target \<Rightarrow> (Inr (), revoke_commit e rq label target s))"

section \<open>Dashboard keys\<close>

record dash_row =
  d_user :: string
  d_raw_key :: string
  d_created_at :: int
  d_rotated_at :: int

definition dash_get :: "string \<Rightarrow> dash_row list \<Rightarrow> string option" where
  "dash_get user rows = map_option d_raw_key (find (\<lambda>r. d_user r = user) rows)"

definition dash_list_all :: "dash_row list \<Rightarrow> (string, string) od" where
  "dash_list_all rows = map (\<lambda>r. (d_user r, d_raw_key r)) rows"

text \<open>\<open>INSERT ... ON CONFLICT DO NOTHING\<close> and the read in one transaction; \<open>token\<close> is the random key.\<close>

definition dash_get_or_create :: "string \<Rightarrow> int \<Rightarrow> string \<Rightarrow> dash_row list \<Rightarrow> string option \<times> dash_row list" where
  "dash_get_or_create token now user rows =
     (let rows' = (if user \<in> set (map d_user rows) then rows
                   else rows @ [\<lparr>d_user = user, d_raw_key = take 43 token, d_created_at = now, d_rotated_at = now\<rparr>])
      in (dash_get user rows', rows'))"

definition dash_rotate :: "string \<Rightarrow> int \<Rightarrow> string \<Rightarrow> dash_row list \<Rightarrow> string \<times> dash_row list" where
  "dash_rotate token now user rows =
     (take 43 token, update_where (\<lambda>r. d_user r = user) (\<lambda>r. r\<lparr>d_raw_key := take 43 token, d_rotated_at := now\<rparr>) rows)"

definition dash_delete :: "string \<Rightarrow> dash_row list \<Rightarrow> dash_row list" where
  "dash_delete user rows = filter (\<lambda>r. d_user r \<noteq> user) rows"

text \<open>What \<open>KeyInvalidateSubscriber\<close> does for one event: reload the whole mapping, keep the old one on failure.\<close>

definition key_invalidated :: "bool \<Rightarrow> dash_row list \<Rightarrow> (string, string) od \<Rightarrow> (string, string) od" where
  "key_invalidated reload_ok rows keys = (if reload_ok then dash_list_all rows else keys)"

end
