(* ===== verification/Access_Control.thy ===== *)
theory Access_Control
  imports Api_Keys
begin

text \<open>
  What the access layer guarantees: an admin key always remains, a route is reached exactly with
  a live key of sufficient role, the cookie identity wins over a header, a revoked key is refused
  after a bounded time under every interleaving of requests, lookups and administration, and
  the import of environment keys is idempotent.
\<close>

section \<open>The table keeps its admins\<close>

definition keys_ok :: "key_row list \<Rightarrow> bool" where
  "keys_ok rows \<longleftrightarrow> distinct (map k_label rows)"

lemma get_by_label_SomeD: "get_by_label l rows = Some r \<Longrightarrow> r \<in> set rows \<and> k_label r = l"
  by (auto simp: get_by_label_def find_Some_iff)

lemma get_by_label_None: "get_by_label l rows = None \<longleftrightarrow> l \<notin> set (map k_label rows)"
  by (auto simp: get_by_label_def find_None_iff)

lemma keys_ok_create: "keys_ok rows \<Longrightarrow> keys_ok (snd (create_key H now l raw role by ex notes rows))"
  by (simp add: create_key_def keys_ok_def Let_def)

lemma admins_create:
  "count_active_admins rows \<le> count_active_admins (snd (create_key H now l raw role by ex notes rows))"
  by (simp add: create_key_def count_active_admins_def Let_def)

lemma labels_update: "(\<And>r. k_label (f r) = k_label r) \<Longrightarrow> map k_label (update_where P f rows) = map k_label rows"
  by (induction rows) (simp_all add: update_where_def)

lemma touch_keeps:
  "keys_ok (touch_last_used now kh rows) = keys_ok rows" "count_active_admins (touch_last_used now kh rows) = count_active_admins rows"
proof -
  show "keys_ok (touch_last_used now kh rows) = keys_ok rows" by (simp add: keys_ok_def touch_last_used_def labels_update)
  show "count_active_admins (touch_last_used now kh rows) = count_active_admins rows"
    by (induction rows) (auto simp: count_active_admins_def touch_last_used_def update_where_def is_active_admin_def)
qed

text \<open>A revocation takes away one admin at most: the row with the label.\<close>

lemma revoke_count:
  assumes "keys_ok rows" and "get_by_label label rows = Some target" and "k_revoked_at target = None"
  shows "count_active_admins (snd (revoke_key now label rows)) + (if k_role target = ''admin'' then 1 else 0) = count_active_admins rows"
  using assms
proof (induction rows)
  case Nil
  then show ?case by (simp add: get_by_label_def)
next
  case (Cons r rows)
  show ?case
  proof (cases "k_label r = label")
    case True
    then have t: "target = r" using Cons.prems(2) by (simp add: get_by_label_def)
    have "label \<notin> set (map k_label rows)" using Cons.prems(1) True by (auto simp: keys_ok_def)
    then have "update_where (active_label label) (\<lambda>r. r\<lparr>k_revoked_at := Some now\<rparr>) rows = rows"
      unfolding update_where_def by (intro map_idI) (auto simp: active_label_def)
    then show ?thesis using True t Cons.prems(3)
      by (auto simp: revoke_key_def count_active_admins_def update_where_def active_label_def is_active_admin_def)
  next
    case False
    then have "count_active_admins (snd (revoke_key now label rows)) + (if k_role target = ''admin'' then 1 else 0) = count_active_admins rows"
      using Cons by (simp add: keys_ok_def get_by_label_def)
    then show ?thesis using False
      by (auto simp: revoke_key_def count_active_admins_def update_where_def active_label_def)
  qed
qed

lemma keys_ok_revoke: "keys_ok (snd (revoke_key now label rows)) = keys_ok rows"
  by (simp add: keys_ok_def revoke_key_def labels_update)

lemma revoke_endpoint_rows:
  "key_rows (snd (revoke_api_key e rq label s)) =
     (case revoke_guard rq label (key_rows s) of Inl _ \<Rightarrow> key_rows s | Inr _ \<Rightarrow> snd (revoke_key (clock s) label (key_rows s)))"
  by (simp add: revoke_api_key_def revoke_commit_def audit_def Let_def split: sum.splits)

lemma create_endpoint_rows:
  "key_rows (snd (create_api_key e token rq label role notes days s)) =
     snd (create_key (e_hash e) (clock s) label (''rk_'' @ token) role (Some (caller_label rq)) (map_option (\<lambda>d. clock s + d * day) days) notes (key_rows s))"
  by (auto simp: create_api_key_def create_key_def audit_def Let_def)

lemma sync_one_keeps:
  assumes "keys_ok (snd st)"
  shows "keys_ok (snd (sync_one H mapping dr now p st)) \<and> count_active_admins (snd st) \<le> count_active_admins (snd (sync_one H mapping dr now p st))"
proof -
  obtain x rows where st: "st = (x, rows)" by (cases st)
  show ?thesis
    using assms keys_ok_create [of rows] admins_create [of rows]
    by (auto simp: sync_one_def st Let_def split: sum.splits option.splits prod.splits) (metis snd_conv)+
qed

lemma sync_keeps:
  assumes "keys_ok rows"
  shows "keys_ok (snd (sync_to_db H env mapping dr now rows)) \<and> count_active_admins rows \<le> count_active_admins (snd (sync_to_db H env mapping dr now rows))"
proof -
  have "keys_ok (snd (fold (sync_one H mapping dr now) env st)) \<and> count_active_admins (snd st) \<le> count_active_admins (snd (fold (sync_one H mapping dr now) env st))"
    if "keys_ok (snd st)" for st
    using that
  proof (induction env arbitrary: st)
    case (Cons p env)
    show ?case using sync_one_keeps [OF Cons.prems, of H mapping dr now p] Cons.IH [of "sync_one H mapping dr now p st"] by force
  qed simp
  from this [of "(Inr \<lparr>created = 0, skipped = 0\<rparr>, rows)"] show ?thesis using assms by (simp add: sync_to_db_def)
qed

text \<open>The operations of the key administration, each run to its end.\<close>

datatype admin_op =
    CreateKey string request string string "string option" "int option"
  | RevokeKey request string
  | SyncEnv "(string, string) od" "(string, string) od" string
  | TouchKey string
  | Wait nat

fun admin_exec :: "'c admin_env \<Rightarrow> 'c auth \<Rightarrow> admin_op \<Rightarrow> 'c auth" where
  "admin_exec e s (CreateKey token rq label role notes days) = snd (create_api_key e token rq label role notes days s)"
| "admin_exec e s (RevokeKey rq label) = snd (revoke_api_key e rq label s)"
| "admin_exec e s (SyncEnv env mapping dr) = s\<lparr>key_rows := snd (sync_to_db (e_hash e) env mapping dr (clock s) (key_rows s))\<rparr>"
| "admin_exec e s (TouchKey kh) = s\<lparr>key_rows := touch_last_used (clock s) kh (key_rows s)\<rparr>"
| "admin_exec e s (Wait n) = s\<lparr>clock := clock s + int n\<rparr>"

lemma admin_exec_keeps:
  assumes "keys_ok (key_rows s)" and "1 \<le> count_active_admins (key_rows s)"
  shows "keys_ok (key_rows (admin_exec e s a)) \<and> 1 \<le> count_active_admins (key_rows (admin_exec e s a))"
proof (cases a)
  case (CreateKey token rq label role nts days)
  show ?thesis unfolding CreateKey admin_exec.simps create_endpoint_rows
    by (intro conjI keys_ok_create [OF assms(1)] order_trans [OF assms(2) admins_create])
next
  case (RevokeKey rq label)
  show ?thesis
  proof (cases "revoke_guard rq label (key_rows s)")
    case (Inl f)
    then show ?thesis using RevokeKey assms by (simp add: revoke_endpoint_rows)
  next
    case (Inr target)
    then have t: "get_by_label label (key_rows s) = Some target" "k_revoked_at target = None"
        "\<not> (k_role target = ''admin'' \<and> count_active_admins (key_rows s) \<le> 1)"
      by (auto simp: revoke_guard_def split: option.splits if_splits)
    have "1 \<le> count_active_admins (snd (revoke_key (clock s) label (key_rows s)))"
      using revoke_count [OF assms(1) t(1,2), of "clock s"] t(3) assms(2) by (auto split: if_splits)
    then show ?thesis using Inr RevokeKey assms(1) by (simp add: revoke_endpoint_rows keys_ok_revoke)
  qed
next
  case (SyncEnv env mapping dr)
  then show ?thesis using sync_keeps [OF assms(1), of "e_hash e" env mapping dr "clock s"] assms(2) by simp
qed (use assms in \<open>simp_all add: touch_keeps\<close>)

text \<open>C32: Whatever the administrators do through the endpoints, one request after the other, labels stay
  unique and at least one admin key that is not revoked remains.\<close>

theorem admins_never_lost:
  assumes "keys_ok (key_rows s)" and "1 \<le> count_active_admins (key_rows s)"
  shows "keys_ok (key_rows (foldl (admin_exec e) s ops)) \<and> 1 \<le> count_active_admins (key_rows (foldl (admin_exec e) s ops))"
  using assms
proof (induction ops arbitrary: s)
  case (Cons a ops)
  then show ?case using admin_exec_keeps [OF Cons.prems, of e a] by simp
qed simp

definition demo_key :: "string \<Rightarrow> string \<Rightarrow> key_row" where
  "demo_key label role = \<lparr>k_label = label, k_hash = ''h'' @ label, k_role = role, k_created_at = 0, k_created_by = None, k_expires_at = None,
     k_revoked_at = None, k_last_used_at = None, k_notes = None\<rparr>"

text \<open>A cache that forgets: every entry with its value and the end of its life.\<close>

definition list_cache :: "int \<Rightarrow> (string \<times> resolved_key option \<times> int) list cache_ops" where
  "list_cache ttl_s = \<lparr>c_get = (\<lambda>c k t. case map_of c k of None \<Rightarrow> None | Some (v, ex) \<Rightarrow> if t < ex then Some v else None),
     c_put = (\<lambda>k v t c. AList.update k (v, t + ttl_s) c), c_pop = AList.delete, c_clear = (\<lambda>_. [])\<rparr>"

definition demo_env :: "(string \<times> resolved_key option \<times> int) list admin_env" where
  "demo_env = \<lparr>e_hash = (\<lambda>raw. ''h'' @ raw), e_ops = list_cache 10, e_cfg = \<lparr>override_mode = ''db'', role_mapping = [], touch_throttle = 60\<rparr>,
     e_alloc = Suc \<circ> length, e_iso = (\<lambda>_. [])\<rparr>"

definition demo_auth :: "(string \<times> resolved_key option \<times> int) list auth" where
  "demo_auth = \<lparr>key_rows = [demo_key ''ann'' ''admin'', demo_key ''bob'' ''admin''],
     res = \<lparr>rcache = [], last_touch = [], inflight = []\<rparr>, team_of = demo_team, clock = 100\<rparr>"

definition demo_request :: "string \<Rightarrow> request" where
  "demo_request label = \<lparr>rq_path = ''/api/v1/admin/keys'', rq_headers = [(''X-API-Key'', label)], rq_session = None, rq_dashboard_user = None,
     rq_key_id = None, rq_key_hash = None, rq_label = Some label, rq_key_role = None, rq_role = None\<rparr>"

theorem admins_never_lost_witness:
  "1 \<le> count_active_admins (key_rows (foldl (admin_exec demo_env) demo_auth [RevokeKey (demo_request ''ann'') ''bob'', Wait 1, RevokeKey (demo_request ''bob'') ''ann'']))"
proof -
  have "keys_ok (key_rows demo_auth) \<and> 1 \<le> count_active_admins (key_rows demo_auth)" by code_simp
  then show ?thesis using admins_never_lost by blast
qed

text \<open>
  The guard counts before two more awaits: when two administrators revoke each other at the same time
  both guards pass, and no admin is left.
\<close>

lemma concurrent_revokes_lose_all_admins:
  "\<exists>ra rb. revoke_guard (demo_request ''ann'') ''bob'' (key_rows demo_auth) = Inr rb
     \<and> revoke_guard (demo_request ''bob'') ''ann'' (key_rows demo_auth) = Inr ra
     \<and> count_active_admins (key_rows (revoke_commit demo_env (demo_request ''bob'') ''ann'' ra
          (revoke_commit demo_env (demo_request ''ann'') ''bob'' rb demo_auth))) = 0"
  by (intro exI [of _ "demo_key ''ann'' ''admin''"] exI [of _ "demo_key ''bob'' ''admin''"]) code_simp

section \<open>Who reaches a route\<close>

text \<open>The middlewares and the role check in the order of the application, with a lookup that goes to the table.\<close>

definition gate :: "(string \<Rightarrow> string) \<Rightarrow> auth_cfg \<Rightarrow> resolver_cfg \<Rightarrow> string \<Rightarrow> (string, string) od \<Rightarrow> int \<Rightarrow> key_row list \<Rightarrow> request
    \<Rightarrow> refusal + request" where
  "gate H ac cf min_role dash now rows rq =
     (case auth_dispatch H ac (Some (\<lambda>h. lookup_row cf (get_by_hash (H h) rows) now)) (cookie_dispatch dash rq) of
        InvalidKey \<Rightarrow> Inl (Refused 401 ''invalid_api_key'' None)
      | Pass rq1 \<Rightarrow> (case require_role min_role of
            Inl _ \<Rightarrow> Inl (Refused 500 ''internal_error'' None)
          | Inr check \<Rightarrow> (case check (Some cf) rq1 of (Inl f, _) \<Rightarrow> Inl f | (Inr _, rq2) \<Rightarrow> Inr rq2)))"

definition cookie_user :: "(string, string) od \<Rightarrow> request \<Rightarrow> string option" where
  "cookie_user dash rq = (case rq_session rq of
     Some d \<Rightarrow> (case map_of d SESSION_KEY of Some (PStr u) \<Rightarrow> if u \<noteq> [] then map_of dash u else None | _ \<Rightarrow> None)
   | None \<Rightarrow> None)"

lemma find_append_unless: "(\<And>x. x \<in> set xs \<Longrightarrow> \<not> P x) \<Longrightarrow> find P (xs @ ys) = find P ys"
  by (induction xs) auto

lemma lower_x_api_key: "str_lower ''x-api-key'' = ''x-api-key''"
  by code_simp

lemma injected_header: "get_header ''x-api-key'' (inject_synthetic_key key rq) = Some key"
proof -
  have "find (\<lambda>(n, v). str_lower n = ''x-api-key'') (filter (\<lambda>(n, v). str_lower n \<noteq> ''x-api-key'') (rq_headers rq) @ [(''x-api-key'', key)])
      = find (\<lambda>(n, v). str_lower n = ''x-api-key'') [(''x-api-key'', key)]"
    by (rule find_append_unless) auto
  then show ?thesis by (simp add: get_header_def inject_synthetic_key_def lower_x_api_key)
qed

text \<open>The cookie identity replaces whatever key the client sent, and only it does.\<close>

lemma cookie_identity_wins:
  assumes "starts_with API_PREFIX (rq_path rq)"
  shows "get_header ''x-api-key'' (cookie_dispatch dash rq) =
     (case cookie_user dash rq of Some key \<Rightarrow> Some key | None \<Rightarrow> get_header ''x-api-key'' rq)"
proof -
  have h: "get_header n (rq\<lparr>rq_dashboard_user := d\<rparr>) = get_header n rq" for n d by (simp add: get_header_def)
  show ?thesis using assms
    by (auto simp: cookie_dispatch_def cookie_user_def Let_def injected_header h
        split: option.splits pyval.splits)
qed

lemma cookie_keeps_path: "rq_path (cookie_dispatch dash rq) = rq_path rq"
  by (auto simp: cookie_dispatch_def inject_synthetic_key_def Let_def split: option.splits pyval.splits)

text \<open>The role that counts for a row: its own, or the one the configuration maps its label to.\<close>

definition effective_role :: "resolver_cfg \<Rightarrow> key_row \<Rightarrow> string" where
  "effective_role cf r =
     (if override_mode cf = ''db'' then k_role r
      else case map_of (role_mapping cf) (k_label r) of None \<Rightarrow> ''viewer'' | Some m \<Rightarrow> m)"

definition live_key :: "int \<Rightarrow> key_row \<Rightarrow> bool" where
  "live_key now r \<longleftrightarrow> k_revoked_at r = None \<and> (case k_expires_at r of None \<Rightarrow> True | Some e \<Rightarrow> now \<le> e)"

lemma lookup_live:
  "lookup_row cf (get_by_hash kh rows) now = Some k \<longleftrightarrow>
     (\<exists>r. get_by_hash kh rows = Some r \<and> live_key now r \<and> lookup_row cf (Some r) now = Some k)"
proof (cases "get_by_hash kh rows")
  case None
  then show ?thesis by (simp add: lookup_row_def)
next
  case (Some r)
  have "live_key now r" if "lookup_row cf (Some r) now = Some k"
    using that by (cases "k_expires_at r") (auto simp: lookup_row_def live_key_def split: if_splits)
  with Some show ?thesis by auto
qed

lemma lookup_fields:
  "lookup_row cf (Some r) now = Some k \<Longrightarrow> rk_label k = k_label r \<and> (override_mode cf = ''db'' \<longrightarrow> rk_role k = k_role r)"
  by (auto simp: lookup_row_def Let_def split: if_splits)

lemma lookup_total: "live_key now r \<Longrightarrow> \<exists>k. lookup_row cf (Some r) now = Some k"
  by (cases "k_expires_at r") (simp_all add: lookup_row_def live_key_def Let_def)

lemma role_of_key:
  assumes "lookup_row cf (Some r) now = Some k" and "k_role r \<noteq> []"
  shows "fst (resolve_role (Some cf) (rq\<lparr>rq_key_id := a, rq_key_hash := b, rq_label := Some (rk_label k), rq_key_role := Some (rk_role k)\<rparr>)) = effective_role cf r"
proof (cases "override_mode cf = ''db''")
  case True
  then show ?thesis using lookup_fields [OF assms(1)] assms(2) by (simp add: resolve_role_def effective_role_def)
next
  case False
  then show ?thesis using lookup_fields [OF assms(1)] by (simp add: resolve_role_def effective_role_def Let_def)
qed



section \<open>Revocation under interleaving\<close>

text \<open>
  What the code relies on of the TTL cache: an entry is seen for less than the time to live after it
  was put, as the value put last, and never after it was popped; the cache may forget entries
  early.
\<close>

definition ttl_laws :: "'c cache_ops \<Rightarrow> int \<Rightarrow> bool" where
  "ttl_laws ops ttl_s \<longleftrightarrow>
     (\<forall>c k v t j t' w. t \<le> t' \<longrightarrow> c_get ops (c_put ops k v t c) j t' = Some w \<longrightarrow>
        (if j = k then w = v \<and> t' < t + ttl_s else c_get ops c j t' = Some w))
   \<and> (\<forall>c k j t w. c_get ops (c_pop ops k c) j t = Some w \<longrightarrow> j \<noteq> k \<and> c_get ops c j t = Some w)
   \<and> (\<forall>c j t. c_get ops (c_clear ops c) j t = None)"

lemma ttl_put:
  "ttl_laws ops ttl_s \<Longrightarrow> t \<le> t' \<Longrightarrow> c_get ops (c_put ops k v t c) j t' = Some w \<Longrightarrow>
     (if j = k then w = v \<and> t' < t + ttl_s else c_get ops c j t' = Some w)"
  unfolding ttl_laws_def by blast

lemma ttl_pop: "ttl_laws ops ttl_s \<Longrightarrow> c_get ops (c_pop ops k c) j t = Some w \<Longrightarrow> j \<noteq> k \<and> c_get ops c j t = Some w"
  unfolding ttl_laws_def by blast

lemma ttl_clear: "ttl_laws ops ttl_s \<Longrightarrow> c_get ops (c_clear ops c) j t = None"
  unfolding ttl_laws_def by blast

text \<open>
  The moments at which something happens: time passes; a request asks for a key and finds the cache, a
  lookup in flight, or starts one; a lookup reads its row; it ends, at most \<open>lat\<close> after the read; it
  fails; the cache is invalidated; a row is touched, created or revoked.
\<close>

datatype auth_event =
    Tick int
  | Ask string
  | ReadRow string
  | EndLookup string
  | FailLookup string
  | Invalidate "string option" "string option"
  | Touch string
  | Create string string string "int option"
  | Revoke string

inductive auth_step :: "'c admin_env \<Rightarrow> int \<Rightarrow> auth_event \<Rightarrow> 'c auth \<Rightarrow> 'c auth \<Rightarrow> bool" for e lat where
  tick: "clock s \<le> t \<Longrightarrow> auth_step e lat (Tick t) s (s\<lparr>clock := t\<rparr>)"
| ask: "auth_step e lat (Ask kh) s (s\<lparr>res := snd (resolve_begin (e_ops e) (e_cfg e) kh (clock s) (res s))\<rparr>)"
| readrow: "map_of (inflight (res s)) kh = Some None \<Longrightarrow>
     auth_step e lat (ReadRow kh) s (s\<lparr>res := (res s)\<lparr>inflight := AList.update kh (Some (get_by_hash kh (key_rows s), clock s)) (inflight (res s))\<rparr>\<rparr>)"
| endlookup: "map_of (inflight (res s)) kh = Some (Some (row, t0)) \<Longrightarrow> clock s - t0 \<le> lat \<Longrightarrow>
     auth_step e lat (EndLookup kh) s (s\<lparr>res := resolve_end (e_ops e) (e_cfg e) kh (lookup_row (e_cfg e) row (clock s)) (clock s) (res s)\<rparr>)"
| faillookup: "auth_step e lat (FailLookup kh) s (s\<lparr>res := resolve_fail kh (res s)\<rparr>)"
| invalidate: "auth_step e lat (Invalidate kh l) s (s\<lparr>res := invalidate_cache (e_ops e) kh l (key_rows s) (res s)\<rparr>)"
| touch: "auth_step e lat (Touch kh) s (s\<lparr>key_rows := touch_last_used (clock s) kh (key_rows s)\<rparr>)"
| create: "auth_step e lat (Create l raw role ex) s (s\<lparr>key_rows := snd (create_key (e_hash e) (clock s) l raw role None ex None (key_rows s))\<rparr>)"
| revoke: "auth_step e lat (Revoke l) s (s\<lparr>key_rows := snd (revoke_key (clock s) l (key_rows s))\<rparr>)"

inductive auth_run :: "'c admin_env \<Rightarrow> int \<Rightarrow> auth_event list \<Rightarrow> 'c auth \<Rightarrow> 'c auth \<Rightarrow> bool" for e lat where
  stay: "auth_run e lat [] s s"
| more: "auth_run e lat es s s' \<Longrightarrow> auth_step e lat ev s' s'' \<Longrightarrow> auth_run e lat (es @ [ev]) s s''"

text \<open>A key is accepted when the cache answers with it, or a lookup that may end now does.\<close>

definition accepted :: "'c admin_env \<Rightarrow> int \<Rightarrow> string \<Rightarrow> 'c auth \<Rightarrow> bool" where
  "accepted e lat kh s \<longleftrightarrow> (\<exists>k. c_get (e_ops e) (rcache (res s)) kh (clock s) = Some (Some k))
     \<or> (\<exists>row t0. map_of (inflight (res s)) kh = Some (Some (row, t0)) \<and> clock s - t0 \<le> lat \<and> lookup_row (e_cfg e) row (clock s) \<noteq> None)"

text \<open>Entries die within the time to live; no lookup has read in the future.\<close>

definition fresh :: "'c admin_env \<Rightarrow> int \<Rightarrow> 'c auth \<Rightarrow> bool" where
  "fresh e ttl_s s \<longleftrightarrow>
     (\<forall>k w t. clock s \<le> t \<longrightarrow> c_get (e_ops e) (rcache (res s)) k t = Some w \<longrightarrow> t < clock s + ttl_s)
   \<and> (\<forall>kh row t0. map_of (inflight (res s)) kh = Some (Some (row, t0)) \<longrightarrow> t0 \<le> clock s)"

text \<open>\<open>dead e lat ttl kh tr s\<close>: the key of hash \<open>kh\<close> was revoked by time \<open>tr\<close>.\<close>

definition dead :: "'c admin_env \<Rightarrow> int \<Rightarrow> int \<Rightarrow> string \<Rightarrow> int \<Rightarrow> 'c auth \<Rightarrow> bool" where
  "dead e lat ttl_s kh tr s \<longleftrightarrow> (\<forall>r \<in> set (key_rows s). k_hash r = kh \<longrightarrow> k_revoked_at r \<noteq> None)
   \<and> (\<forall>r t0. map_of (inflight (res s)) kh = Some (Some (Some r, t0)) \<longrightarrow> k_revoked_at r = None \<longrightarrow> t0 \<le> tr)
   \<and> (\<forall>k t. clock s \<le> t \<longrightarrow> c_get (e_ops e) (rcache (res s)) kh t = Some (Some k) \<longrightarrow> t < tr + lat + ttl_s)"

text \<open>What the steps do to the cache and the lookups.\<close>

lemma schedule_touch_keeps:
  "rcache (snd (schedule_touch cf kh now r)) = rcache r" "inflight (snd (schedule_touch cf kh now r)) = inflight r"
  by (simp_all add: schedule_touch_def Let_def)

lemma begin_keeps:
  "rcache (snd (resolve_begin ops cf kh now r)) = rcache r"
  "map_of (inflight (snd (resolve_begin ops cf kh now r))) j = Some (Some x) \<Longrightarrow> map_of (inflight r) j = Some (Some x)"
  by (auto simp: resolve_begin_def schedule_touch_keeps od_get_update split: option.splits if_splits)

lemma end_keeps:
  "rcache (resolve_end ops cf kh v now r) = c_put ops kh v now (rcache r)"
  "map_of (inflight (resolve_end ops cf kh v now r)) j = Some x \<Longrightarrow> map_of (inflight r) j = Some x"
  by (auto simp: resolve_end_def schedule_touch_keeps od_get_delete Let_def split: if_splits)

lemma invalidate_keeps:
  assumes "ttl_laws ops ttl_s"
  shows "c_get ops (rcache (invalidate_cache ops kh l rows r)) j t = Some w \<Longrightarrow> c_get ops (rcache r) j t = Some w"
    and "inflight (invalidate_cache ops kh l rows r) = inflight r"
proof -
  show "c_get ops (rcache (invalidate_cache ops kh l rows r)) j t = Some w \<Longrightarrow> c_get ops (rcache r) j t = Some w"
    by (cases kh; cases l; cases "get_by_label (the l) rows")
       (auto simp: invalidate_cache_def drop_hash_def ttl_clear [OF assms] dest: ttl_pop [OF assms])
  show "inflight (invalidate_cache ops kh l rows r) = inflight r"
    by (simp add: invalidate_cache_def drop_hash_def split: option.split)
qed

lemma revoke_rows: "r \<in> set (snd (revoke_key now l rows)) \<Longrightarrow> \<exists>r0 \<in> set rows. k_hash r0 = k_hash r \<and> (k_revoked_at r0 \<noteq> None \<longrightarrow> k_revoked_at r \<noteq> None)"
  by (auto simp: revoke_key_def update_where_def image_iff)

lemma touch_rows: "r \<in> set (touch_last_used now kh rows) \<Longrightarrow> \<exists>r0 \<in> set rows. k_hash r0 = k_hash r \<and> (k_revoked_at r0 \<noteq> None \<longrightarrow> k_revoked_at r \<noteq> None)"
  by (auto simp: touch_last_used_def update_where_def image_iff)

lemma create_rows: "r \<in> set (snd (create_key H now l raw role cb ex nt rows)) \<Longrightarrow> r \<in> set rows \<or> k_hash r = H raw"
  by (auto simp: create_key_def Let_def split: if_splits)

lemma freshD:
  assumes "fresh e ttl_s s"
  shows "clock s \<le> t \<Longrightarrow> c_get (e_ops e) (rcache (res s)) k t = Some w \<Longrightarrow> t < clock s + ttl_s"
    and "map_of (inflight (res s)) kh = Some (Some (row, t0)) \<Longrightarrow> t0 \<le> clock s"
  using assms unfolding fresh_def by blast+

lemma freshI:
  assumes "\<And>k w t. clock s \<le> t \<Longrightarrow> c_get (e_ops e) (rcache (res s)) k t = Some w \<Longrightarrow> t < clock s + ttl_s"
    and "\<And>kh row t0. map_of (inflight (res s)) kh = Some (Some (row, t0)) \<Longrightarrow> t0 \<le> clock s"
  shows "fresh e ttl_s s"
  using assms unfolding fresh_def by blast

lemma deadD:
  assumes "dead e lat ttl_s kh tr s"
  shows "r \<in> set (key_rows s) \<Longrightarrow> k_hash r = kh \<Longrightarrow> k_revoked_at r \<noteq> None"
    and "map_of (inflight (res s)) kh = Some (Some (Some r, t0)) \<Longrightarrow> k_revoked_at r = None \<Longrightarrow> t0 \<le> tr"
    and "clock s \<le> t \<Longrightarrow> c_get (e_ops e) (rcache (res s)) kh t = Some (Some k) \<Longrightarrow> t < tr + lat + ttl_s"
  using assms unfolding dead_def by blast+

lemma deadI:
  assumes "\<And>r. r \<in> set (key_rows s) \<Longrightarrow> k_hash r = kh \<Longrightarrow> k_revoked_at r \<noteq> None"
    and "\<And>r t0. map_of (inflight (res s)) kh = Some (Some (Some r, t0)) \<Longrightarrow> k_revoked_at r = None \<Longrightarrow> t0 \<le> tr"
    and "\<And>k t. clock s \<le> t \<Longrightarrow> c_get (e_ops e) (rcache (res s)) kh t = Some (Some k) \<Longrightarrow> t < tr + lat + ttl_s"
  shows "dead e lat ttl_s kh tr s"
  using assms unfolding dead_def by blast

lemma fresh_step:
  assumes "auth_step e lat ev s s'" and "ttl_laws (e_ops e) ttl_s" and "fresh e ttl_s s"
  shows "fresh e ttl_s s' \<and> clock s \<le> clock s'"
proof -
  note f = freshD [OF assms(3)]
  have "fresh e ttl_s s'"
    using assms(1)
  proof cases
    case (tick t)
    show ?thesis
    proof (rule freshI)
      fix k w t'
      assume "clock s' \<le> t'" "c_get (e_ops e) (rcache (res s')) k t' = Some w"
      then show "t' < clock s' + ttl_s" using f(1) [of t' k w] tick by simp
    next
      fix kh row t0
      assume "map_of (inflight (res s')) kh = Some (Some (row, t0))"
      then show "t0 \<le> clock s'" using f(2) [of kh row t0] tick by simp
    qed
  next
    case (ask kh)
    then show ?thesis using f begin_keeps(2) by (intro freshI) (simp_all add: begin_keeps(1), blast+)
  next
    case (readrow kh)
    then show ?thesis using f by (intro freshI) (auto simp: od_get_update split: if_splits)
  next
    case (endlookup kh row t0)
    show ?thesis
    proof (rule freshI)
      fix k w t'
      assume "clock s' \<le> t'" "c_get (e_ops e) (rcache (res s')) k t' = Some w"
      then show "t' < clock s' + ttl_s"
        using ttl_put [OF assms(2), of "clock s" t' kh "lookup_row (e_cfg e) row (clock s)" "rcache (res s)" k w] f(1) [of t' k w] endlookup
        by (auto simp: end_keeps(1) split: if_splits)
    next
      fix j row' t1
      assume "map_of (inflight (res s')) j = Some (Some (row', t1))"
      then show "t1 \<le> clock s'" using f(2) [of j row' t1] endlookup end_keeps(2) by force
    qed
  next
    case (faillookup kh)
    then show ?thesis using f by (intro freshI) (auto simp: od_get_delete resolve_fail_def split: if_splits)
  next
    case (invalidate kh l)
    then have e': "res s' = invalidate_cache (e_ops e) kh l (key_rows s) (res s)" by simp
    have c: "c_get (e_ops e) (rcache (res s')) j t = Some w \<Longrightarrow> c_get (e_ops e) (rcache (res s)) j t = Some w" for j t w
      unfolding e' by (rule invalidate_keeps(1) [OF assms(2)])
    have i: "inflight (res s') = inflight (res s)" "clock s' = clock s" using invalidate invalidate_keeps(2) [OF assms(2)] by simp_all
    show ?thesis by (rule freshI) (auto simp: i intro: f(1) [OF _ c] f(2))
  qed (use f in \<open>auto intro!: freshI\<close>)
  moreover have "clock s \<le> clock s'" using assms(1) by cases auto
  ultimately show ?thesis by simp
qed

lemma dead_step:
  assumes "auth_step e lat ev s s'" and "ttl_laws (e_ops e) ttl_s" and "dead e lat ttl_s kh tr s"
    and "\<And>l raw role ex. ev = Create l raw role ex \<Longrightarrow> e_hash e raw \<noteq> kh"
  shows "dead e lat ttl_s kh tr s'"
proof -
  note d = deadD [OF assms(3)]
  show ?thesis
    using assms(1)
  proof cases
    case (tick t)
    then show ?thesis using d by (intro deadI) auto
  next
    case (ask j)
    then show ?thesis using d begin_keeps(2) by (intro deadI) (simp_all add: begin_keeps(1), blast+)
  next
    case (readrow j)
    have "k_revoked_at r \<noteq> None" if "get_by_hash kh (key_rows s) = Some r" for r
      using that d(1) [of r] by (auto simp: get_by_hash_def find_Some_iff)
    then show ?thesis using d readrow by (intro deadI) (auto simp: od_get_update split: if_splits)
  next
    case (endlookup j row t0)
    show ?thesis
    proof (rule deadI)
      fix k t
      assume a: "clock s' \<le> t" "c_get (e_ops e) (rcache (res s')) kh t = Some (Some k)"
      then have p: "if kh = j then Some k = lookup_row (e_cfg e) row (clock s) \<and> t < clock s + ttl_s else c_get (e_ops e) (rcache (res s)) kh t = Some (Some k)"
        using ttl_put [OF assms(2), of "clock s" t j "lookup_row (e_cfg e) row (clock s)" "rcache (res s)" kh "Some k"] endlookup
        by (simp add: end_keeps(1))
      show "t < tr + lat + ttl_s"
      proof (cases "kh = j")
        case False
        then show ?thesis using p d(3) [of t k] a(1) endlookup by simp
      next
        case True
        then obtain r where "row = Some r" "k_revoked_at r = None" using p by (auto simp: lookup_row_def split: option.splits if_splits)
        then have "t0 \<le> tr" using d(2) [of r t0] endlookup True by simp
        then show ?thesis using p True endlookup by simp
      qed
    next
      fix r t1
      assume "map_of (inflight (res s')) kh = Some (Some (Some r, t1))" "k_revoked_at r = None"
      then show "t1 \<le> tr" using d(2) [of r t1] endlookup end_keeps(2) by force
    qed (use d(1) endlookup in auto)
  next
    case (faillookup j)
    then show ?thesis using d by (intro deadI) (auto simp: resolve_fail_def od_get_delete split: if_splits)
  next
    case (invalidate j l)
    then have e': "res s' = invalidate_cache (e_ops e) j l (key_rows s) (res s)" by simp
    have c: "c_get (e_ops e) (rcache (res s')) kh t = Some w \<Longrightarrow> c_get (e_ops e) (rcache (res s)) kh t = Some w" for t w
      unfolding e' by (rule invalidate_keeps(1) [OF assms(2)])
    have i: "inflight (res s') = inflight (res s)" "clock s' = clock s" "key_rows s' = key_rows s"
      using invalidate invalidate_keeps(2) [OF assms(2)] by simp_all
    show ?thesis by (rule deadI) (use d(1,2) d(3) [OF _ c] in \<open>simp_all add: i\<close>)
  next
    case (touch j)
    have "k_revoked_at r \<noteq> None" if "r \<in> set (touch_last_used (clock s) j (key_rows s))" "k_hash r = kh" for r
      using touch_rows [OF that(1)] that(2) d(1) by blast
    then show ?thesis using d touch by (intro deadI) simp_all
  next
    case (create l raw role ex)
    have "k_revoked_at r \<noteq> None" if "r \<in> set (key_rows s')" "k_hash r = kh" for r
      using create_rows [of r "e_hash e" "clock s" l raw role None ex None "key_rows s"] that d(1) [of r] assms(4) [of l raw role ex] create by auto
    then show ?thesis using d create by (intro deadI) simp_all
  next
    case (revoke l)
    have "k_revoked_at r \<noteq> None" if "r \<in> set (snd (revoke_key (clock s) l (key_rows s)))" "k_hash r = kh" for r
      using revoke_rows [OF that(1)] that(2) d(1) by blast
    then show ?thesis using d revoke by (intro deadI) simp_all
  qed
qed

definition starts :: "'c admin_env \<Rightarrow> 'c auth \<Rightarrow> bool" where
  "starts e s \<longleftrightarrow> (\<forall>k t. c_get (e_ops e) (rcache (res s)) k t = None) \<and> inflight (res s) = []"

lemma fresh_run:
  assumes "auth_run e lat es s s'" and "ttl_laws (e_ops e) ttl_s" and "fresh e ttl_s s"
  shows "fresh e ttl_s s' \<and> clock s \<le> clock s'"
  using assms(1,3)
proof (induction rule: auth_run.induct)
  case (more es s s' ev s'')
  then show ?case using fresh_step [OF _ assms(2)] by (meson order_trans)
qed simp

lemma dead_run:
  assumes "auth_run e lat es s s'" and "ttl_laws (e_ops e) ttl_s" and "dead e lat ttl_s kh tr s"
    and "\<forall>l raw role ex. Create l raw role ex \<in> set es \<longrightarrow> e_hash e raw \<noteq> kh"
  shows "dead e lat ttl_s kh tr s'"
  using assms(1,3,4)
proof (induction rule: auth_run.induct)
  case (more es s s' ev s'')
  have "dead e lat ttl_s kh tr s'" using more.prems by (intro more.IH) auto
  then show ?case using more.prems(2) by (intro dead_step [OF more.hyps(2) assms(2)]) auto
qed

text \<open>C30: A revoked key is refused at latest the cache's time to live plus the duration of a lookup after its
  revocation: neither the cache nor any lookup accepts it, whatever requests, lookups, invalidations and
  administration are interleaved, before and after, and on every worker, whether told or not.\<close>

theorem revocation_takes_effect:
  assumes "ttl_laws (e_ops e) ttl_s" and "0 < ttl_s" and "0 \<le> lat"
    and "starts e s0" and "auth_run e lat before s0 s1" and "\<forall>r \<in> set (key_rows s1). k_hash r = kh \<longrightarrow> k_revoked_at r \<noteq> None"
    and "auth_run e lat after s1 s2" and "\<forall>l raw role ex. Create l raw role ex \<in> set after \<longrightarrow> e_hash e raw \<noteq> kh"
    and "clock s1 + lat + ttl_s \<le> clock s2"
  shows "\<not> accepted e lat kh s2"
proof -
  have "fresh e ttl_s s0" using assms(4) by (intro freshI) (simp_all add: starts_def)
  then have f: "fresh e ttl_s s1" using fresh_run [OF assms(5,1)] by simp
  have "dead e lat ttl_s kh (clock s1) s1"
  proof (rule deadI)
    fix k t
    assume "clock s1 \<le> t" "c_get (e_ops e) (rcache (res s1)) kh t = Some (Some k)"
    then show "t < clock s1 + lat + ttl_s" using freshD(1) [OF f] assms(3) by fastforce
  qed (use assms(6) freshD(2) [OF f] in blast)+
  then have d: "dead e lat ttl_s kh (clock s1) s2" using dead_run [OF assms(7,1)] assms(8) by blast
  have "c_get (e_ops e) (rcache (res s2)) kh (clock s2) \<noteq> Some (Some k)" for k
    using deadD(3) [OF d, of "clock s2" k] assms(9) by auto
  moreover have "lookup_row (e_cfg e) row (clock s2) = None"
    if "map_of (inflight (res s2)) kh = Some (Some (row, t0))" "clock s2 - t0 \<le> lat" for row t0
  proof (rule ccontr)
    assume "lookup_row (e_cfg e) row (clock s2) \<noteq> None"
    then obtain r where "row = Some r" "k_revoked_at r = None" by (auto simp: lookup_row_def split: option.splits if_splits)
    then have "t0 \<le> clock s1" using deadD(2) [OF d] that(1) by simp
    then show False using that(2) assms(2,9) by simp
  qed
  ultimately show ?thesis by (auto simp: accepted_def)
qed

lemma list_cache_laws: "ttl_laws (list_cache ttl_s) ttl_s"
  by (auto simp: ttl_laws_def list_cache_def od_get_update od_get_delete split: option.splits if_splits)

text \<open>
  A lookup that read the row before it was revoked ends after the invalidation and caches the old answer:
  even in the same process the key is accepted again until the entry expires.
\<close>

lemma auth_run_append: "auth_run e lat es' s' s'' \<Longrightarrow> auth_run e lat es s s' \<Longrightarrow> auth_run e lat (es @ es') s s''"
proof (induction rule: auth_run.induct)
  case (more es' s1 s2 ev s3)
  then show ?case using auth_run.more [of e lat "es @ es'" s s2 ev s3] by simp
qed simp

lemma auth_run_Cons: "auth_step e lat ev s s' \<Longrightarrow> auth_run e lat es s' s'' \<Longrightarrow> auth_run e lat (ev # es) s s''"
  using auth_run_append [of e lat es s' s'' "[ev]" s] auth_run.more [OF auth_run.stay, of e lat ev s s'] by simp

lemma revocation_race:
  "\<exists>s. auth_run demo_env 5 [Ask ''hbob'', ReadRow ''hbob'', Revoke ''bob'', Invalidate (Some ''hbob'') None, EndLookup ''hbob''] demo_auth s
     \<and> (\<forall>r \<in> set (key_rows s). k_hash r = ''hbob'' \<longrightarrow> k_revoked_at r \<noteq> None) \<and> accepted demo_env 5 ''hbob'' s"
proof -
  let ?r1 = "\<lparr>rcache = [], last_touch = [], inflight = [(''hbob'', None)]\<rparr>"
  let ?r2 = "\<lparr>rcache = [], last_touch = [], inflight = [(''hbob'', Some (Some (demo_key ''bob'' ''admin''), 100))]\<rparr>"
  let ?rows = "snd (revoke_key 100 ''bob'' (key_rows demo_auth))"
  let ?k = "\<lparr>rk_label = ''bob'', rk_role = ''admin'', rk_expires_at = None, rk_notes = None\<rparr>"
  let ?r3 = "\<lparr>rcache = [(''hbob'', (Some ?k, 110))], last_touch = [(''hbob'', 100)], inflight = []\<rparr>"
  have c: "clock demo_auth = 100" "res demo_auth = \<lparr>rcache = [], last_touch = [], inflight = []\<rparr>" by (simp_all add: demo_auth_def)
  have a: "auth_step demo_env 5 (Ask ''hbob'') demo_auth (demo_auth\<lparr>res := ?r1\<rparr>)"
    by (rule back_subst [of "auth_step demo_env 5 _ _", OF auth_step.ask]) (simp add: c resolve_begin_def demo_env_def list_cache_def)
  have b: "auth_step demo_env 5 (ReadRow ''hbob'') (demo_auth\<lparr>res := ?r1\<rparr>) (demo_auth\<lparr>res := ?r2\<rparr>)"
    by (rule back_subst [of "auth_step demo_env 5 _ _", OF auth_step.readrow]) (simp_all add: c get_by_hash_def demo_auth_def demo_key_def)
  have r: "auth_step demo_env 5 (Revoke ''bob'') (demo_auth\<lparr>res := ?r2\<rparr>) (demo_auth\<lparr>res := ?r2, key_rows := ?rows\<rparr>)"
    using auth_step.revoke [of demo_env 5 "''bob''" "demo_auth\<lparr>res := ?r2\<rparr>"] by (simp add: c)
  have i: "auth_step demo_env 5 (Invalidate (Some ''hbob'') None) (demo_auth\<lparr>res := ?r2, key_rows := ?rows\<rparr>) (demo_auth\<lparr>res := ?r2, key_rows := ?rows\<rparr>)"
    by (rule back_subst [of "auth_step demo_env 5 _ _", OF auth_step.invalidate])
       (simp add: invalidate_cache_def drop_hash_def demo_env_def list_cache_def)
  have l: "auth_step demo_env 5 (EndLookup ''hbob'') (demo_auth\<lparr>res := ?r2, key_rows := ?rows\<rparr>) (demo_auth\<lparr>res := ?r3, key_rows := ?rows\<rparr>)"
    by (rule back_subst [of "auth_step demo_env 5 _ _", OF auth_step.endlookup [where row = "Some (demo_key ''bob'' ''admin'')" and ?t0.0 = 100]])
       (simp_all add: c resolve_end_def lookup_row_def demo_env_def list_cache_def schedule_touch_def demo_key_def Let_def)
  have "accepted demo_env 5 ''hbob'' (demo_auth\<lparr>res := ?r3, key_rows := ?rows\<rparr>)"
    by (simp add: accepted_def demo_env_def list_cache_def c)
  moreover have "\<forall>r \<in> set ?rows. k_hash r = ''hbob'' \<longrightarrow> k_revoked_at r \<noteq> None" by code_simp
  moreover have "auth_run demo_env 5 [Ask ''hbob'', ReadRow ''hbob'', Revoke ''bob'', Invalidate (Some ''hbob'') None, EndLookup ''hbob''] demo_auth
      (demo_auth\<lparr>res := ?r3, key_rows := ?rows\<rparr>)"
    by (rule auth_run_Cons [OF a auth_run_Cons [OF b auth_run_Cons [OF r auth_run_Cons [OF i auth_run_Cons [OF l auth_run.stay]]]]])
  ultimately show ?thesis by (intro exI [of _ "demo_auth\<lparr>res := ?r3, key_rows := ?rows\<rparr>"]) simp
qed

theorem revocation_takes_effect_witness:
  "\<not> accepted demo_env 5 ''hbob'' (demo_auth\<lparr>key_rows := snd (revoke_key 100 ''bob'' (key_rows demo_auth)), clock := 115\<rparr>)"
proof -
  let ?s1 = "demo_auth\<lparr>key_rows := snd (revoke_key 100 ''bob'' (key_rows demo_auth))\<rparr>"
  have c: "clock demo_auth = 100" by (simp add: demo_auth_def)
  have "auth_step demo_env 5 (Revoke ''bob'') demo_auth ?s1" using auth_step.revoke [of demo_env 5 "''bob''" demo_auth] by (simp add: c)
  then have r: "auth_run demo_env 5 [Revoke ''bob''] demo_auth ?s1" by (rule auth_run_Cons [OF _ auth_run.stay])
  have "auth_step demo_env 5 (Tick 115) ?s1 (?s1\<lparr>clock := 115\<rparr>)" by (rule auth_step.tick) (simp add: c)
  then have t: "auth_run demo_env 5 [Tick 115] ?s1 (?s1\<lparr>clock := 115\<rparr>)" by (rule auth_run_Cons [OF _ auth_run.stay])
  have st: "starts demo_env demo_auth" by (simp add: starts_def demo_auth_def demo_env_def list_cache_def)
  have rv: "\<forall>r \<in> set (key_rows ?s1). k_hash r = ''hbob'' \<longrightarrow> k_revoked_at r \<noteq> None" by code_simp
  have lw: "ttl_laws (e_ops demo_env) 10" by (simp add: demo_env_def list_cache_laws)
  show ?thesis using revocation_takes_effect [OF lw _ _ st r rv t] c by simp
qed

section \<open>Environment keys and dashboard keys\<close>

lemma create_key_new:
  "label \<notin> set (map k_label rows) \<Longrightarrow> \<exists>r. create_key H now label raw role cb ex nt rows = (Inr r, rows @ [r]) \<and> k_label r = label \<and> k_hash r = H raw"
  by (simp add: create_key_def Let_def)

lemma sync_fold:
  "\<exists>rep' new. fold (sync_one H mapping dr now) env (Inr rep, rows) = (Inr rep', rows @ new)
     \<and> created rep' = created rep + length new \<and> created rep' + skipped rep' = created rep + skipped rep + length env
     \<and> set (map snd env) \<subseteq> set (map k_label (rows @ new))
     \<and> (\<forall>r \<in> set new. \<exists>raw. (raw, k_label r) \<in> set env \<and> k_hash r = H raw)"
proof (induction env arbitrary: rep rows)
  case (Cons p env)
  show ?case
  proof (cases "get_by_label (snd p) rows")
    case (Some r0)
    then have "snd p \<in> set (map k_label rows)" using get_by_label_None [of "snd p" rows] by auto
    moreover from Cons [of "rep\<lparr>skipped := skipped rep + 1\<rparr>" rows] obtain rep' new where
      "fold (sync_one H mapping dr now) env (Inr (rep\<lparr>skipped := skipped rep + 1\<rparr>), rows) = (Inr rep', rows @ new)"
      "created rep' = created rep + length new" "created rep' + skipped rep' = created rep + (skipped rep + 1) + length env"
      "set (map snd env) \<subseteq> set (map k_label (rows @ new))" "\<forall>r \<in> set new. \<exists>raw. (raw, k_label r) \<in> set env \<and> k_hash r = H raw"
      by auto
    moreover have "sync_one H mapping dr now p (Inr rep, rows) = (Inr (rep\<lparr>skipped := skipped rep + 1\<rparr>), rows)"
      using Some by (simp add: sync_one_def)
    ultimately show ?thesis by (intro exI [of _ rep'] exI [of _ new]) auto
  next
    case None
    then have n: "snd p \<notin> set (map k_label rows)" by (simp add: get_by_label_None)
    obtain r where r: "create_key H now (snd p) (fst p) (case map_of mapping (snd p) of None \<Rightarrow> dr | Some ro \<Rightarrow> ro) (Some ''env_bootstrap'') None
          (Some ''Auto-imported from RELAY_API_KEYS_RAW env'') rows = (Inr r, rows @ [r])" "k_label r = snd p" "k_hash r = H (fst p)"
      using create_key_new [OF n] by blast
    from Cons [of "rep\<lparr>created := created rep + 1\<rparr>" "rows @ [r]"] obtain rep' new where
      "fold (sync_one H mapping dr now) env (Inr (rep\<lparr>created := created rep + 1\<rparr>), rows @ [r]) = (Inr rep', (rows @ [r]) @ new)"
      "created rep' = created rep + 1 + length new" "created rep' + skipped rep' = created rep + 1 + skipped rep + length env"
      "set (map snd env) \<subseteq> set (map k_label ((rows @ [r]) @ new))" "\<forall>r \<in> set new. \<exists>raw. (raw, k_label r) \<in> set env \<and> k_hash r = H raw"
      by auto
    moreover have "sync_one H mapping dr now p (Inr rep, rows) = (Inr (rep\<lparr>created := created rep + 1\<rparr>), rows @ [r])"
      using None r(1) by (simp add: sync_one_def Let_def)
    moreover have "\<exists>raw. ((raw, snd p) = p \<or> (raw, snd p) \<in> set env) \<and> H (fst p) = H raw" by (intro exI [of _ "fst p"]) simp
    ultimately show ?thesis using r(2,3) by (intro exI [of _ rep'] exI [of _ "r # new"]) auto
  qed
qed simp

lemma sync_fold_known:
  assumes "set (map snd env) \<subseteq> set (map k_label rows)"
  shows "fold (sync_one H mapping dr now) env (Inr rep, rows) = (Inr (rep\<lparr>skipped := skipped rep + length env\<rparr>), rows)"
  using assms
proof (induction env arbitrary: rep)
  case (Cons p env)
  then obtain r where "get_by_label (snd p) rows = Some r" using get_by_label_None [of "snd p" rows] by (cases "get_by_label (snd p) rows") auto
  then have "sync_one H mapping dr now p (Inr rep, rows) = (Inr (rep\<lparr>skipped := skipped rep + 1\<rparr>), rows)" by (simp add: sync_one_def)
  then show ?case using Cons by simp
qed simp

text \<open>Importing the environment keys never fails and never touches a row that is there: it appends a row for
  each label that is new, with the hash of its key. Afterwards every label of the environment has a row,
  and importing again changes nothing.\<close>

lemma env_sync_idempotent:
  "\<exists>rep new. sync_to_db H env mapping dr now rows = (Inr rep, rows @ new) \<and> created rep = length new \<and> created rep + skipped rep = length env
     \<and> (\<forall>r \<in> set new. \<exists>raw. (raw, k_label r) \<in> set env \<and> k_hash r = H raw) \<and> set (map snd env) \<subseteq> set (map k_label (rows @ new))
     \<and> sync_to_db H env mapping' dr' now' (rows @ new) = (Inr \<lparr>created = 0, skipped = length env\<rparr>, rows @ new)"
proof -
  obtain rep new where s: "fold (sync_one H mapping dr now) env (Inr \<lparr>created = 0, skipped = 0\<rparr>, rows) = (Inr rep, rows @ new)"
      "created rep = length new" "created rep + skipped rep = length env" "set (map snd env) \<subseteq> set (map k_label (rows @ new))"
      "\<forall>r \<in> set new. \<exists>raw. (raw, k_label r) \<in> set env \<and> k_hash r = H raw"
    using sync_fold [of H mapping dr now env "\<lparr>created = 0, skipped = 0\<rparr>" rows] by auto
  then show ?thesis using sync_fold_known [OF s(4)] by (intro exI [of _ rep] exI [of _ new]) (simp add: sync_to_db_def)
qed

lemma env_sync_idempotent_witness:
  "\<exists>rep new. sync_to_db (\<lambda>raw. ''h'' @ raw) [(''k1'', ''ann''), (''k2'', ''bob'')] [] ''submitter'' 7 [demo_key ''ann'' ''admin''] = (Inr rep, [demo_key ''ann'' ''admin''] @ new)
     \<and> created rep = length new \<and> created rep + skipped rep = length [(''k1'', ''ann''), (''k2'', ''bob'')]"
  using env_sync_idempotent [of "\<lambda>raw. ''h'' @ raw" "[(''k1'', ''ann''), (''k2'', ''bob'')]" "[]" "''submitter''" 7 "[demo_key ''ann'' ''admin'']" "[]" "[]" 0] by blast

text \<open>Workers that start at the same time: each asks for the keys of its users with a key of its own at hand.\<close>

fun dash_requests :: "(string \<times> int \<times> string) list \<Rightarrow> dash_row list \<Rightarrow> (string \<times> string option) list \<times> dash_row list" where
  "dash_requests [] rows = ([], rows)"
| "dash_requests ((token, now, user) # qs) rows =
     (let (k, rows1) = dash_get_or_create token now user rows; (ks, rows2) = dash_requests qs rows1 in ((user, k) # ks, rows2))"

lemma find_append: "find P (xs @ ys) = (case find P xs of None \<Rightarrow> find P ys | Some x \<Rightarrow> Some x)"
  by (induction xs) auto

lemma get_or_create_stable:
  assumes "dash_get user rows = Some k"
  shows "dash_get user (snd (dash_get_or_create token now u rows)) = Some k"
  using assms by (auto simp: dash_get_or_create_def dash_get_def Let_def find_append split: option.splits)

lemma get_or_create_gets:
  "\<exists>k. fst (dash_get_or_create token now user rows) = Some k \<and> dash_get user (snd (dash_get_or_create token now user rows)) = Some k"
proof -
  have "find (\<lambda>r. d_user r = user) (snd (dash_get_or_create token now user rows)) \<noteq> None"
    by (auto simp: dash_get_or_create_def Let_def find_None_iff)
  then show ?thesis by (auto simp: dash_get_or_create_def dash_get_def Let_def)
qed

text \<open>All requests for a user's dashboard key get the same key, whoever came first.\<close>

lemma dash_requests_stable:
  "dash_get user rows = Some k \<Longrightarrow> dash_get user (snd (dash_requests qs rows)) = Some k \<and> (\<forall>v. (user, v) \<in> set (fst (dash_requests qs rows)) \<longrightarrow> v = Some k)"
proof (induction qs rows rule: dash_requests.induct)
  case (2 token now u qs rows)
  obtain v rows1 where v: "dash_get_or_create token now u rows = (v, rows1)" by (cases "dash_get_or_create token now u rows")
  obtain ks rows2 where ks: "dash_requests qs rows1 = (ks, rows2)" by (cases "dash_requests qs rows1")
  have s: "dash_get user rows1 = Some k" using get_or_create_stable [OF "2.prems", of token now u] v by simp
  have "v = Some k" if "u = user" using get_or_create_gets [of token now u rows] v s that by auto
  then show ?case using "2.IH" [OF v [symmetric] refl s] v ks by auto
qed simp

lemma dashboard_key_shared:
  "(user, v) \<in> set (fst (dash_requests qs rows)) \<Longrightarrow> v = dash_get user (snd (dash_requests qs rows)) \<and> v \<noteq> None"
proof (induction qs rows rule: dash_requests.induct)
  case (2 token now u qs rows)
  obtain w rows1 where w: "dash_get_or_create token now u rows = (w, rows1)" by (cases "dash_get_or_create token now u rows")
  obtain ks rows2 where ks: "dash_requests qs rows1 = (ks, rows2)" by (cases "dash_requests qs rows1")
  show ?case
  proof (cases "(user, v) \<in> set ks")
    case True
    then show ?thesis using "2.IH" [OF w [symmetric] refl] w ks by auto
  next
    case False
    then have uv: "user = u" "v = w" using "2.prems" w ks by auto
    obtain k where "w = Some k" "dash_get u rows1 = Some k" using get_or_create_gets [of token now u rows] w by auto
    then show ?thesis using dash_requests_stable [of u rows1 k qs] uv w ks by simp
  qed
qed simp

text \<open>Rotating the key of a user without a row returns a key that is stored nowhere.\<close>

lemma rotate_unknown_user:
  "user \<notin> set (map d_user rows) \<Longrightarrow> dash_rotate token now user rows = (take 43 token, rows)"
  by (induction rows) (auto simp: dash_rotate_def update_where_def)

text \<open>After a reload the middleware works with exactly the keys of the table.\<close>

lemma reload_gets: "map_of (key_invalidated True rows keys) user = dash_get user rows"
  by (induction rows) (auto simp: key_invalidated_def dash_list_all_def dash_get_def)

end
