(* ===== verification/Team_Api.thy ===== *)
theory Team_Api
  imports Access_Control
begin

text \<open>
  The collaboration endpoints: comments (\<open>api/routers/comments.py\<close>), prompt templates
  (\<open>api/routers/templates.py\<close>) and favorites (\<open>api/routers/sessions.py\<close>), over the tables of
  \<open>Team_Store\<close>. A handler runs in a configuration: the tables, and a script with one entry per
  awaited call, which is what other requests did to the tables before it ran. The Markdown
  renderer with its sanitiser is a parameter, as is the outcome of an audit write.
\<close>

section \<open>Answers and surroundings\<close>

datatype 'a answer =
    Answer nat 'a
  | Refusal refusal
  | HttpError nat pyval "(string \<times> string) list"
  | Crash py_exn

definition failure :: "nat \<Rightarrow> string \<Rightarrow> string \<Rightarrow> pydict \<Rightarrow> 'a answer" where
  "failure st err code extra = HttpError st (PDict [(PStr ''detail'', PDict ([(PStr ''error'', PStr err), (PStr ''code'', PStr code)] @ extra))]) []"

definition unprocessable :: "'a answer" where
  "unprocessable = HttpError 422 PNone []"

text \<open>\<open>te_audit\<close>: no audit service, or one whose writes succeed or raise.\<close>

record team_env =
  te_alloc :: "nat list \<Rightarrow> nat"
  te_now :: int
  te_iso :: "int \<Rightarrow> string"
  te_render :: "string \<Rightarrow> string"
  te_audit :: "bool option"
  te_request_id :: "string option"
  te_config :: "resolver_cfg option"

type_synonym tcfg = "team \<times> (team \<Rightarrow> team) list"

definition await :: "(team \<Rightarrow> 'r \<times> team) \<Rightarrow> tcfg \<Rightarrow> 'r \<times> tcfg" where
  "await f c = (let (s, fs) = (case snd c of [] \<Rightarrow> c | g # gs \<Rightarrow> (g (fst c), gs)); (r, s1) = f s in (r, (s1, fs)))"

definition reading :: "(team \<Rightarrow> 'r) \<Rightarrow> tcfg \<Rightarrow> 'r \<times> tcfg" where
  "reading f = await (\<lambda>s. (f s, s))"

text \<open>\<open>audit.record\<close>: whether it returned.\<close>

definition put_audit :: "team_env \<Rightarrow> string \<Rightarrow> string \<Rightarrow> string \<Rightarrow> string \<Rightarrow> string option \<Rightarrow> pydict \<Rightarrow> tcfg \<Rightarrow> bool \<times> tcfg" where
  "put_audit e actor action target_type target_id request_id meta c =
     (if te_audit e \<noteq> Some True then (False, c)
      else await (\<lambda>s. (True, snd (record_audit (te_alloc e) (te_now e) actor action (Some target_type) (Some target_id) meta request_id s))) c)"

definition caller :: "request \<Rightarrow> string" where
  "caller rq = (case rq_label rq of Some l \<Rightarrow> if l = [] then ''anon'' else l | None \<Rightarrow> ''anon'')"

definition caller_role :: "team_env \<Rightarrow> request \<Rightarrow> string" where
  "caller_role e rq = fst (resolve_role (te_config e) rq)"

definition is_admin :: "team_env \<Rightarrow> request \<Rightarrow> bool" where
  "is_admin e rq \<longleftrightarrow> rank (caller_role e rq) \<ge> rank ''admin''"

text \<open>\<open>Depends(require_role(...))\<close> in front of a handler.\<close>

definition with_role :: "string \<Rightarrow> resolver_cfg option \<Rightarrow> request \<Rightarrow> 's \<Rightarrow> ('s \<Rightarrow> 'a answer \<times> 's) \<Rightarrow> 'a answer \<times> 's" where
  "with_role min_role cfg rq c handler = (case require_role min_role of
     Inl x \<Rightarrow> (Crash x, c)
   | Inr check \<Rightarrow> (case fst (check cfg rq) of Inl r \<Rightarrow> (Refusal r, c) | Inr _ \<Rightarrow> handler c))"

definition not_found :: "string \<Rightarrow> 'a answer" where
  "not_found what = failure 404 (what @ '' not found'') (what @ ''_not_found'') []"

section \<open>Comments\<close>

definition BODY_MIN_LEN :: nat where
  "BODY_MIN_LEN = 1"

definition BODY_MAX_LEN :: nat where
  "BODY_MAX_LEN = 8000"

definition body_ok :: "string \<Rightarrow> bool" where
  "body_ok b \<longleftrightarrow> BODY_MIN_LEN \<le> length b \<and> length b \<le> BODY_MAX_LEN"

definition serialize_comment :: "team_env \<Rightarrow> comment_row \<Rightarrow> pydict" where
  "serialize_comment e r =
     [(PStr ''id'', PInt (int (c_id r))), (PStr ''session_id'', PStr (c_session r)), (PStr ''author'', PStr (c_author r)),
      (PStr ''body_markdown'', PStr (c_markdown r)), (PStr ''body_html'', PStr (c_html r)),
      (PStr ''created_at'', PStr (te_iso e (c_created_at r))), (PStr ''updated_at'', PStr (te_iso e (c_updated_at r)))]"

definition post_comment :: "team_env \<Rightarrow> request \<Rightarrow> string \<Rightarrow> string \<Rightarrow> tcfg \<Rightarrow> pydict answer \<times> tcfg" where
  "post_comment e rq sid txt0 c = with_role ''submitter'' (te_config e) rq c (\<lambda>c.
     if \<not> body_ok txt0 then (unprocessable, c)
     else (case reading (\<lambda>s. get_session sid (team_db s)) c of
       (None, c1) \<Rightarrow> (not_found ''session'', c1)
     | (Some _, c1) \<Rightarrow>
         (case await (create_comment (te_alloc e) (te_now e) sid (caller rq) txt0 (te_render e txt0)) c1 of
            (Inl x, c2) \<Rightarrow> (Crash x, c2)
          | (Inr r, c2) \<Rightarrow>
              (case put_audit e (caller rq) ''comment_create'' ''comment'' (str_nat (c_id r)) (te_request_id e)
                      [(PStr ''session_id'', PStr sid), (PStr ''body_len'', PInt (int (length txt0)))] c2 of
                 (False, c3) \<Rightarrow> (Crash RuntimeError, c3)
               | (True, c3) \<Rightarrow> (Answer 201 (serialize_comment e r), c3)))))"

definition get_comments :: "team_env \<Rightarrow> string \<Rightarrow> nat \<Rightarrow> tcfg \<Rightarrow> pydict list answer \<times> tcfg" where
  "get_comments e sid limit c = (case reading (\<lambda>s. get_session sid (team_db s)) c of
     (None, c1) \<Rightarrow> (not_found ''session'', c1)
   | (Some _, c1) \<Rightarrow> (case reading (list_comments sid False limit) c1 of (rows, c2) \<Rightarrow> (Answer 200 (map (serialize_comment e) rows), c2)))"

definition gone :: "comment_row option \<Rightarrow> bool" where
  "gone r \<longleftrightarrow> (case r of None \<Rightarrow> True | Some x \<Rightarrow> c_deleted_at x \<noteq> None)"

definition patch_comment :: "team_env \<Rightarrow> request \<Rightarrow> nat \<Rightarrow> string \<Rightarrow> tcfg \<Rightarrow> pydict answer \<times> tcfg" where
  "patch_comment e rq cid txt0 c =
     (if \<not> body_ok txt0 then (unprocessable, c)
      else (case reading (get_comment cid) c of (existing, c1) \<Rightarrow>
        if gone existing then (not_found ''comment'', c1)
        else (let row = the existing in
          if c_author row \<noteq> caller rq then
            (failure 403 ''only author may edit'' ''forbidden_comment_edit''
               [(PStr ''comment_author'', PStr (c_author row)), (PStr ''current_actor'', PStr (caller rq))], c1)
          else (case await (update_comment (te_now e) cid txt0 (te_render e txt0)) c1 of
              (False, c2) \<Rightarrow> (failure 409 ''comment update failed (concurrent delete?)'' ''comment_update_failed'' [], c2)
            | (True, c2) \<Rightarrow>
                (case put_audit e (caller rq) ''comment_update'' ''comment'' (str_nat cid) (te_request_id e)
                        [(PStr ''session_id'', PStr (c_session row)), (PStr ''body_len'', PInt (int (length txt0)))] c2 of
                   (False, c3) \<Rightarrow> (Crash RuntimeError, c3)
                 | (True, c3) \<Rightarrow> (case reading (get_comment cid) c3 of
                     (None, c4) \<Rightarrow> (Crash RuntimeError, c4)
                   | (Some updated, c4) \<Rightarrow> (Answer 200 (serialize_comment e updated), c4)))))))"

definition delete_comment :: "team_env \<Rightarrow> request \<Rightarrow> nat \<Rightarrow> tcfg \<Rightarrow> unit answer \<times> tcfg" where
  "delete_comment e rq cid c = (case reading (get_comment cid) c of (existing, c1) \<Rightarrow>
     if gone existing then (not_found ''comment'', c1)
     else (let row = the existing in
       if \<not> (c_author row = caller rq \<or> is_admin e rq) then
         (failure 403 ''only author or admin may delete'' ''forbidden_comment_delete''
            [(PStr ''comment_author'', PStr (c_author row)), (PStr ''current_actor'', PStr (caller rq)),
             (PStr ''current_role'', PStr (caller_role e rq))], c1)
       else (case await (soft_delete_comment (te_now e) cid) c1 of
           (False, c2) \<Rightarrow> (not_found ''comment'', c2)
         | (True, c2) \<Rightarrow>
             (case put_audit e (caller rq) ''comment_delete'' ''comment'' (str_nat cid) (te_request_id e)
                     [(PStr ''session_id'', PStr (c_session row))] c2 of
                (False, c3) \<Rightarrow> (Crash RuntimeError, c3)
              | (True, c3) \<Rightarrow> (Answer 204 (), c3)))))"

section \<open>Templates\<close>

record template_in =
  ti_name :: string
  ti_prompt :: string
  ti_description :: "string option"
  ti_shared :: bool
  ti_tags :: "string option"

definition text_within :: "nat \<Rightarrow> nat \<Rightarrow> string option \<Rightarrow> bool" where
  "text_within lo hi s \<longleftrightarrow> (case s of None \<Rightarrow> True | Some t \<Rightarrow> lo \<le> length t \<and> length t \<le> hi)"

definition template_ok :: "template_in \<Rightarrow> bool" where
  "template_ok t \<longleftrightarrow> text_within 1 128 (Some (ti_name t)) \<and> text_within 1 20000 (Some (ti_prompt t))
     \<and> text_within 0 500 (ti_description t) \<and> text_within 0 500 (ti_tags t)"

text \<open>Templates write their audit row only when a service is there, and ignore its failures.\<close>

definition try_audit :: "team_env \<Rightarrow> string \<Rightarrow> string \<Rightarrow> string \<Rightarrow> string \<Rightarrow> string option \<Rightarrow> pydict \<Rightarrow> tcfg \<Rightarrow> tcfg" where
  "try_audit e actor action target_type target_id request_id meta c =
     (if te_audit e = None then c else snd (put_audit e actor action target_type target_id request_id meta c))"

text \<open>\<open>repr\<close> of a text without quotes or control characters.\<close>

definition quoted :: "string \<Rightarrow> string" where
  "quoted s = [CHR 0x27] @ s @ [CHR 0x27]"

definition conflict_text :: "string \<Rightarrow> string \<Rightarrow> string" where
  "conflict_text creator name = ''template name '' @ quoted name @ '' already exists for creator '' @ quoted creator"

definition serialize_template :: "team_env \<Rightarrow> template_row \<Rightarrow> pydict" where
  "serialize_template e r =
     [(PStr ''id'', PInt (int (t_id r))), (PStr ''name'', PStr (t_name r)), (PStr ''creator'', PStr (t_creator r)),
      (PStr ''prompt'', PStr (t_prompt r)), (PStr ''description'', case t_description r of None \<Rightarrow> PNone | Some d \<Rightarrow> PStr d),
      (PStr ''shared'', PBool (t_shared r)), (PStr ''tags'', case t_tags r of None \<Rightarrow> PNone | Some d \<Rightarrow> PStr d),
      (PStr ''created_at'', PStr (te_iso e (t_created_at r))), (PStr ''updated_at'', PStr (te_iso e (t_updated_at r)))]"

definition post_template :: "team_env \<Rightarrow> request \<Rightarrow> template_in \<Rightarrow> tcfg \<Rightarrow> pydict answer \<times> tcfg" where
  "post_template e rq t c = with_role ''submitter'' (te_config e) rq c (\<lambda>c.
     if \<not> template_ok t then (unprocessable, c)
     else (case await (create_template (te_alloc e) (te_now e) (ti_name t) (caller rq) (ti_prompt t) (ti_description t) (ti_shared t) (ti_tags t)) c of
       (Inl TemplateConflictError, c1) \<Rightarrow> (failure 409 (conflict_text (caller rq) (ti_name t)) ''template_name_conflict'' [], c1)
     | (Inr r, c1) \<Rightarrow>
         (Answer 201 (serialize_template e r), try_audit e (caller rq) ''template_create'' ''template'' (str_nat (t_id r)) (te_request_id e)
            [(PStr ''name'', PStr (ti_name t)), (PStr ''shared'', PBool (ti_shared t))] c1)))"

definition get_templates :: "team_env \<Rightarrow> request \<Rightarrow> bool \<Rightarrow> nat \<Rightarrow> tcfg \<Rightarrow> pydict list answer \<times> tcfg" where
  "get_templates e rq include_others limit c =
     (if limit < 1 \<or> limit > 500 then (unprocessable, c)
      else (case reading (list_templates (caller rq) (is_admin e rq) include_others limit) c of (rows, c1) \<Rightarrow> (Answer 200 (map (serialize_template e) rows), c1)))"

definition view_template :: "team_env \<Rightarrow> request \<Rightarrow> nat \<Rightarrow> tcfg \<Rightarrow> pydict answer \<times> tcfg" where
  "view_template e rq tid c = (case reading (get_template tid) c of
     (None, c1) \<Rightarrow> (not_found ''template'', c1)
   | (Some r, c1) \<Rightarrow>
       if \<not> t_shared r \<and> t_creator r \<noteq> caller rq \<and> \<not> is_admin e rq
       then (failure 403 ''private template not visible'' ''forbidden_template_view'' [], c1)
       else (Answer 200 (serialize_template e r), c1))"

record template_edit =
  te_prompt :: "string option"
  te_description :: "string option"
  te_shared :: "bool option"
  te_tags :: "string option"

definition edit_ok :: "template_edit \<Rightarrow> bool" where
  "edit_ok t \<longleftrightarrow> text_within 1 20000 (te_prompt t) \<and> text_within 0 500 (te_description t) \<and> text_within 0 500 (te_tags t)"

definition patch_template :: "team_env \<Rightarrow> request \<Rightarrow> nat \<Rightarrow> template_edit \<Rightarrow> tcfg \<Rightarrow> pydict answer \<times> tcfg" where
  "patch_template e rq tid t c =
     (if \<not> edit_ok t then (unprocessable, c)
      else (case reading (get_template tid) c of
        (None, c1) \<Rightarrow> (not_found ''template'', c1)
      | (Some row, c1) \<Rightarrow>
          if t_creator row \<noteq> caller rq \<and> \<not> is_admin e rq then
            (failure 403 ''only creator or admin may edit'' ''forbidden_template_edit''
               [(PStr ''template_creator'', PStr (t_creator row)), (PStr ''current_actor'', PStr (caller rq))], c1)
          else (case await (update_template (te_now e) tid (te_prompt t) (te_description t) (te_shared t) (te_tags t)) c1 of
              (False, c2) \<Rightarrow> (not_found ''template'', c2)
            | (True, c2) \<Rightarrow>
                (case reading (get_template tid)
                        (try_audit e (caller rq) ''template_update'' ''template'' (str_nat tid) (te_request_id e) [(PStr ''name'', PStr (t_name row))] c2) of
                   (None, c3) \<Rightarrow> (Crash RuntimeError, c3)
                 | (Some r, c3) \<Rightarrow> (Answer 200 (serialize_template e r), c3)))))"

definition remove_template :: "team_env \<Rightarrow> request \<Rightarrow> nat \<Rightarrow> tcfg \<Rightarrow> unit answer \<times> tcfg" where
  "remove_template e rq tid c = (case reading (get_template tid) c of
     (None, c1) \<Rightarrow> (not_found ''template'', c1)
   | (Some row, c1) \<Rightarrow>
       if t_creator row \<noteq> caller rq \<and> \<not> is_admin e rq then
         (failure 403 ''only creator or admin may delete'' ''forbidden_template_delete''
            [(PStr ''template_creator'', PStr (t_creator row)), (PStr ''current_actor'', PStr (caller rq))], c1)
       else (case await (delete_template tid) c1 of
           (False, c2) \<Rightarrow> (not_found ''template'', c2)
         | (True, c2) \<Rightarrow>
             (Answer 204 (), try_audit e (caller rq) ''template_delete'' ''template'' (str_nat tid) (te_request_id e) [(PStr ''name'', PStr (t_name row))] c2)))"

section \<open>Favorites\<close>

definition star_session :: "team_env \<Rightarrow> request \<Rightarrow> string \<Rightarrow> tcfg \<Rightarrow> unit answer \<times> tcfg" where
  "star_session e rq sid c = with_role ''submitter'' (te_config e) rq c (\<lambda>c.
     case reading (\<lambda>s. get_session sid (team_db s)) c of
       (None, c1) \<Rightarrow> (not_found ''session'', c1)
     | (Some _, c1) \<Rightarrow> (case await (add_favorite (te_alloc e) (te_now e) sid (caller rq)) c1 of
         (added, c2) \<Rightarrow> (Answer 204 (), if added then try_audit e (caller rq) ''session_star'' ''session'' sid None [] c2 else c2)))"

definition unstar_session :: "team_env \<Rightarrow> request \<Rightarrow> string \<Rightarrow> tcfg \<Rightarrow> unit answer \<times> tcfg" where
  "unstar_session e rq sid c = with_role ''submitter'' (te_config e) rq c (\<lambda>c.
     case await (remove_favorite sid (caller rq)) c of
       (removed, c1) \<Rightarrow> (Answer 204 (), if removed then try_audit e (caller rq) ''session_unstar'' ''session'' sid None [] c1 else c1))"

definition favorites_target :: "team_env \<Rightarrow> request \<Rightarrow> string option \<Rightarrow> string" where
  "favorites_target e rq user = (case user of
     Some u \<Rightarrow> if u \<noteq> [] \<and> is_admin e rq then u else caller rq
   | None \<Rightarrow> caller rq)"

definition list_my_favorites ::
    "team_env \<Rightarrow> request \<Rightarrow> string option \<Rightarrow> nat \<Rightarrow> tcfg \<Rightarrow> (string \<times> (favorite_row \<times> session_row) list) answer \<times> tcfg" where
  "list_my_favorites e rq user limit c =
     (if limit < 1 \<or> limit > 200 \<or> \<not> text_within 0 64 user then (unprocessable, c)
      else (case reading (list_favorites (favorites_target e rq user) limit) c of
        (rows, c1) \<Rightarrow> (Answer 200 (favorites_target e rq user, rows), c1)))"

section \<open>Steps between which others may act\<close>

text \<open>
  A handler is a sequence of awaited steps. If what others do keeps an invariant \<open>I\<close> and relates
  the tables before and after by \<open>R\<close>, and every step of the handler does too, so does the whole handler.
\<close>

locale stable =
  fixes I :: "team \<Rightarrow> bool" and R :: "team \<Rightarrow> team \<Rightarrow> bool"
  assumes R_refl: "I s \<Longrightarrow> R s s"
    and R_trans: "R s t \<Longrightarrow> R t u \<Longrightarrow> R s u"
    and R_audit: "I s \<Longrightarrow> I (s\<lparr>audit_log := l\<rparr>) \<and> R s (s\<lparr>audit_log := l\<rparr>)"
begin

definition cfg_ok :: "tcfg \<Rightarrow> bool" where
  "cfg_ok c \<longleftrightarrow> I (fst c) \<and> (\<forall>f \<in> set (snd c). \<forall>s. I s \<longrightarrow> I (f s) \<and> R s (f s))"

definition follows :: "tcfg \<Rightarrow> tcfg \<Rightarrow> bool" where
  "follows c c' \<longleftrightarrow> cfg_ok c' \<and> R (fst c) (fst c')"

lemma follows_refl: "cfg_ok c \<Longrightarrow> follows c c"
  by (simp add: follows_def cfg_ok_def R_refl)

lemma follows_trans: "follows c c1 \<Longrightarrow> follows c1 c2 \<Longrightarrow> follows c c2"
  using R_trans by (auto simp: follows_def)

lemma follows_ok: "follows c c' \<Longrightarrow> cfg_ok c'"
  by (simp add: follows_def)

lemma await_step:
  assumes ok: "cfg_ok c" and step: "await f c = (r, c')"
    and keeps: "\<And>s. I s \<Longrightarrow> R (fst c) s \<Longrightarrow> I (snd (f s)) \<and> R s (snd (f s))"
  shows "follows c c' \<and> (\<exists>s. I s \<and> R (fst c) s \<and> f s = (r, fst c'))"
proof -
  obtain s fs where c: "(case snd c of [] \<Rightarrow> c | g # gs \<Rightarrow> (g (fst c), gs)) = (s, fs)"
    by (cases "case snd c of [] \<Rightarrow> c | g # gs \<Rightarrow> (g (fst c), gs)")
  have s: "I s \<and> R (fst c) s \<and> set fs \<subseteq> set (snd c)"
    using ok c by (cases c; cases "snd c") (auto simp: cfg_ok_def R_refl)
  have f: "f s = (r, fst c')" and fs: "snd c' = fs"
    using step c by (auto simp: await_def split: prod.splits)
  have k: "I (snd (f s)) \<and> R s (snd (f s))" using keeps s by blast
  then have "R (fst c) (fst c')" using s f R_trans by fastforce
  moreover have "cfg_ok c'" using ok s f fs k by (auto simp: cfg_ok_def)
  ultimately show ?thesis using s f by (auto simp: follows_def)
qed

lemma reading_step:
  assumes "cfg_ok c" and "reading f c = (r, c')"
  shows "follows c c' \<and> r = f (fst c')"
  using await_step [of c "\<lambda>s. (f s, s)" r c'] assms R_refl by (auto simp: reading_def)

lemma put_audit_step:
  assumes "cfg_ok c" and "put_audit e actor action ty tid rid meta c = (r, c')"
  shows "follows c c'"
proof (cases "te_audit e = Some True")
  case True
  have "I (snd (record_audit al ts actor action (Some ty) (Some tid) meta rid s)) \<and> R s (snd (record_audit al ts actor action (Some ty) (Some tid) meta rid s))"
    if "I s" for s al ts
    using R_audit [OF that] by (simp add: record_audit_def Let_def)
  then show ?thesis
    using await_step [of c "\<lambda>s. (True, snd (record_audit (te_alloc e) (te_now e) actor action (Some ty) (Some tid) meta rid s))" r c'] assms True
    by (auto simp: put_audit_def)
next
  case False
  then show ?thesis using assms follows_refl by (auto simp: put_audit_def)
qed

lemma try_audit_step: "cfg_ok c \<Longrightarrow> follows c (try_audit e actor action ty tid rid meta c)"
  using put_audit_step [of c e actor action ty tid rid meta] follows_refl
  by (cases "put_audit e actor action ty tid rid meta c") (auto simp: try_audit_def)

end

section \<open>Comments keep their authors\<close>

text \<open>\<open>W\<close> is who wrote which text, \<open>K\<close> who deleted, and whether as administrator.\<close>

definition authentic :: "(string \<Rightarrow> string) \<Rightarrow> (string \<times> string) set \<Rightarrow> (string \<times> bool) set \<Rightarrow> team \<Rightarrow> bool" where
  "authentic render W K s \<longleftrightarrow> distinct (map c_id (comments s))
     \<and> (\<forall>r \<in> set (comments s). (c_author r, c_markdown r) \<in> W \<and> c_html r = render (c_markdown r)
          \<and> (c_deleted_at r = None \<or> (\<exists>(who, adm) \<in> K. who = c_author r \<or> adm)))"

definition comments_grow :: "team \<Rightarrow> team \<Rightarrow> bool" where
  "comments_grow s s' \<longleftrightarrow> (\<forall>r \<in> set (comments s). \<exists>r' \<in> set (comments s').
     c_id r' = c_id r \<and> c_author r' = c_author r \<and> c_session r' = c_session r
     \<and> (c_deleted_at r \<noteq> None \<longrightarrow> r' = r))"

lemma comments_grow_trans: "comments_grow s t \<Longrightarrow> comments_grow t u \<Longrightarrow> comments_grow s u"
  unfolding comments_grow_def by metis

interpretation thread: stable "authentic render W K" comments_grow for render W K
proof
  show "authentic render W K s \<Longrightarrow> comments_grow s s" for s
    unfolding comments_grow_def by blast
  show "comments_grow s t \<Longrightarrow> comments_grow t u \<Longrightarrow> comments_grow s u" for s t u
    by (rule comments_grow_trans)
  show "authentic render W K s \<Longrightarrow> authentic render W K (s\<lparr>audit_log := l\<rparr>) \<and> comments_grow s (s\<lparr>audit_log := l\<rparr>)" for s l
    by (auto simp: authentic_def comments_grow_def)
qed

lemma find_id_Some: "find_id pk k rows = Some r \<Longrightarrow> r \<in> set rows \<and> pk r = k"
  by (auto simp: find_id_def find_Some_iff)

lemma find_id_distinct: "distinct (map pk rows) \<Longrightarrow> r \<in> set rows \<Longrightarrow> find_id pk (pk r) rows = Some r"
  by (induction rows) (auto simp: find_id_def image_iff)

lemma grown_author:
  assumes "authentic render W K s" "authentic render W K t" "comments_grow s t" "get_comment cid s = Some r"
    and "x \<in> set (comments t)" "c_id x = cid"
  shows "c_author x = c_author r"
proof -
  obtain r' where r': "r' \<in> set (comments t)" "c_id r' = cid" "c_author r' = c_author r"
    using assms(3,4) by (auto simp: get_comment_def comments_grow_def dest!: find_id_Some)
  have "distinct (map c_id (comments t))" using assms(2) by (simp add: authentic_def)
  then have "r' = x" using r' assms(5,6) by (metis distinct_map inj_onD)
  then show ?thesis using r'(3) by simp
qed

lemma grow_map:
  assumes "\<And>r. c_id (f r) = c_id r \<and> c_author (f r) = c_author r \<and> c_session (f r) = c_session r \<and> (c_deleted_at r \<noteq> None \<longrightarrow> f r = r)"
  shows "comments_grow s (s\<lparr>comments := map f (comments s)\<rparr>)"
  unfolding comments_grow_def using assms by auto

lemma authentic_map:
  assumes "authentic render W K s" and "\<forall>r \<in> set (comments s). c_id (f r) = c_id r"
    and "\<forall>r \<in> set (comments s). (c_author (f r), c_markdown (f r)) \<in> W \<and> c_html (f r) = render (c_markdown (f r))
      \<and> (c_deleted_at (f r) = None \<or> (\<exists>(who, adm) \<in> K. who = c_author (f r) \<or> adm))"
  shows "authentic render W K (s\<lparr>comments := map f (comments s)\<rparr>)"
proof -
  have "map c_id (map f (comments s)) = map c_id (comments s)"
    using assms(2) by simp
  then have "distinct (map c_id (map f (comments s)))"
    using assms(1) by (simp add: authentic_def del: map_map)
  then show ?thesis using assms(3) unfolding authentic_def by auto
qed

lemma create_keeps:
  assumes "authentic render W K s" and "\<And>ids. alloc ids \<notin> set ids" and "(author, t) \<in> W"
  shows "authentic render W K (snd (create_comment alloc now sid author t (render t) s))
       \<and> comments_grow s (snd (create_comment alloc now sid author t (render t) s))"
proof -
  have new: "alloc (map c_id (comments s)) \<notin> c_id ` set (comments s)"
    using assms(2) [of "map c_id (comments s)"] by simp
  have "comments_grow s (s\<lparr>comments := comments s @ [r]\<rparr>)" for r
    unfolding comments_grow_def by (auto intro: bexI)
  moreover have "comments_grow s s" unfolding comments_grow_def by blast
  ultimately show ?thesis using assms(1,3) new by (auto simp: create_comment_def authentic_def Let_def)
qed

lemma update_keeps:
  assumes "authentic render W K s" and "\<forall>x \<in> set (comments s). c_id x = cid \<longrightarrow> (c_author x, t) \<in> W"
  shows "authentic render W K (snd (update_comment now cid t (render t) s)) \<and> comments_grow s (snd (update_comment now cid t (render t) s))"
proof
  show "comments_grow s (snd (update_comment now cid t (render t) s))"
    unfolding update_comment_def update_where_def snd_conv by (rule grow_map) (auto simp: live_comment_def)
  show "authentic render W K (snd (update_comment now cid t (render t) s))"
    unfolding update_comment_def update_where_def snd_conv using assms
    by (intro authentic_map) (auto simp: live_comment_def authentic_def)
qed

lemma delete_keeps:
  assumes "authentic render W K s"
    and "\<forall>x \<in> set (comments s). c_id x = cid \<longrightarrow> (\<exists>(who, adm) \<in> K. who = c_author x \<or> adm)"
  shows "authentic render W K (snd (soft_delete_comment now cid s)) \<and> comments_grow s (snd (soft_delete_comment now cid s))"
proof
  show "comments_grow s (snd (soft_delete_comment now cid s))"
    unfolding soft_delete_comment_def update_where_def snd_conv by (rule grow_map) (auto simp: live_comment_def)
  show "authentic render W K (snd (soft_delete_comment now cid s))"
    unfolding soft_delete_comment_def update_where_def snd_conv using assms
    by (intro authentic_map) (auto simp: live_comment_def authentic_def)
qed

datatype comment_op =
    PostComment request string string
  | PatchComment request nat string
  | DeleteComment request nat

fun comment_exec :: "team_env \<Rightarrow> comment_op \<Rightarrow> tcfg \<Rightarrow> tcfg" where
  "comment_exec e (PostComment rq sid t) c = snd (post_comment e rq sid t c)"
| "comment_exec e (PatchComment rq cid t) c = snd (patch_comment e rq cid t c)"
| "comment_exec e (DeleteComment rq cid) c = snd (delete_comment e rq cid c)"

fun wrote :: "comment_op \<Rightarrow> (string \<times> string) set" where
  "wrote (PostComment rq sid t) = {(caller rq, t)}"
| "wrote (PatchComment rq cid t) = {(caller rq, t)}"
| "wrote (DeleteComment rq cid) = {}"

fun deleted_by :: "team_env \<Rightarrow> comment_op \<Rightarrow> (string \<times> bool) set" where
  "deleted_by e (DeleteComment rq cid) = {(caller rq, is_admin e rq)}"
| "deleted_by e _ = {}"

lemma post_comment_follows:
  assumes ok: "thread.cfg_ok (te_render e) W K c" and fresh: "\<And>ids. te_alloc e ids \<notin> set ids" and w: "(caller rq, t) \<in> W"
  shows "thread.follows (te_render e) W K c (snd (post_comment e rq sid t c))"
proof -
  note [intro] = thread.follows_refl [OF ok]
  obtain ro c1 where r: "reading (\<lambda>s. get_session sid (team_db s)) c = (ro, c1)" by (rule prod.exhaust)
  have f1: "thread.follows (te_render e) W K c c1" using thread.reading_step [OF ok r] by blast
  obtain res c2 where cr: "await (create_comment (te_alloc e) (te_now e) sid (caller rq) t (te_render e t)) c1 = (res, c2)" by (rule prod.exhaust)
  have f2: "thread.follows (te_render e) W K c1 c2"
    using thread.await_step [OF thread.follows_ok [OF f1] cr] create_keeps fresh w by blast
  obtain b c3 where p: "put_audit e (caller rq) ''comment_create'' ''comment'' (str_nat (c_id (projr res))) (te_request_id e)
      [(PStr ''session_id'', PStr sid), (PStr ''body_len'', PInt (int (length t)))] c2 = (b, c3)" by (rule prod.exhaust)
  have f3: "thread.follows (te_render e) W K c2 c3" using thread.put_audit_step [OF thread.follows_ok [OF f2] p] .
  show ?thesis
    using f1 thread.follows_trans [OF f1 f2] thread.follows_trans [OF thread.follows_trans [OF f1 f2] f3] r cr p
    by (auto simp: post_comment_def with_role_def split: sum.splits option.splits bool.splits)
qed

lemma patch_comment_follows:
  assumes ok: "thread.cfg_ok (te_render e) W K c" and w: "(caller rq, t) \<in> W"
  shows "thread.follows (te_render e) W K c (snd (patch_comment e rq cid t c))"
proof -
  obtain ro c1 where r: "reading (get_comment cid) c = (ro, c1)" by (rule prod.exhaust)
  have f1: "thread.follows (te_render e) W K c c1" and ro: "ro = get_comment cid (fst c1)" using thread.reading_step [OF ok r] by blast+
  show ?thesis
  proof (cases "\<not> body_ok t \<or> gone ro \<or> c_author (the ro) \<noteq> caller rq")
    case True
    then show ?thesis using f1 thread.follows_refl [OF ok] r by (auto simp: patch_comment_def Let_def)
  next
    case False
    then obtain row where row: "ro = Some row" "c_author row = caller rq" by (auto simp: gone_def split: option.splits)
    note ok1 = thread.follows_ok [OF f1]
    obtain b c2 where u: "await (update_comment (te_now e) cid t (te_render e t)) c1 = (b, c2)" by (rule prod.exhaust)
    have keep: "\<forall>x \<in> set (comments s). c_id x = cid \<longrightarrow> (c_author x, t) \<in> W"
      if "authentic (te_render e) W K s" "comments_grow (fst c1) s" for s
      using grown_author [OF _ that(1,2)] ok1 ro row w unfolding thread.cfg_ok_def by metis
    have f2: "thread.follows (te_render e) W K c1 c2"
      using thread.await_step [OF ok1 u] update_keeps keep by blast
    obtain b' c3 where p: "put_audit e (caller rq) ''comment_update'' ''comment'' (str_nat cid) (te_request_id e)
        [(PStr ''session_id'', PStr (c_session row)), (PStr ''body_len'', PInt (int (length t)))] c2 = (b', c3)" by (rule prod.exhaust)
    have f3: "thread.follows (te_render e) W K c2 c3" using thread.put_audit_step [OF thread.follows_ok [OF f2] p] .
    obtain up c4 where g: "reading (get_comment cid) c3 = (up, c4)" by (rule prod.exhaust)
    have f4: "thread.follows (te_render e) W K c3 c4" using thread.reading_step [OF thread.follows_ok [OF f3] g] by blast
    note f12 = thread.follows_trans [OF f1 f2]
    note f13 = thread.follows_trans [OF f12 f3]
    show ?thesis
      using f12 f13 thread.follows_trans [OF f13 f4] False r row u p g
      by (auto simp: patch_comment_def Let_def split: option.splits bool.splits)
  qed
qed

lemma delete_comment_follows:
  assumes ok: "thread.cfg_ok (te_render e) W K c" and k: "(caller rq, is_admin e rq) \<in> K"
  shows "thread.follows (te_render e) W K c (snd (delete_comment e rq cid c))"
proof -
  obtain ro c1 where r: "reading (get_comment cid) c = (ro, c1)" by (rule prod.exhaust)
  have f1: "thread.follows (te_render e) W K c c1" and ro: "ro = get_comment cid (fst c1)" using thread.reading_step [OF ok r] by blast+
  show ?thesis
  proof (cases "gone ro \<or> \<not> (c_author (the ro) = caller rq \<or> is_admin e rq)")
    case True
    then show ?thesis using f1 r by (auto simp: delete_comment_def Let_def)
  next
    case False
    then obtain row where row: "ro = Some row" "c_author row = caller rq \<or> is_admin e rq" by (auto simp: gone_def split: option.splits)
    note ok1 = thread.follows_ok [OF f1]
    obtain b c2 where u: "await (soft_delete_comment (te_now e) cid) c1 = (b, c2)" by (rule prod.exhaust)
    have keep: "\<forall>x \<in> set (comments s). c_id x = cid \<longrightarrow> (\<exists>(who, adm) \<in> K. who = c_author x \<or> adm)"
      if "authentic (te_render e) W K s" "comments_grow (fst c1) s" for s
      using grown_author [OF _ that(1,2)] ok1 ro row k unfolding thread.cfg_ok_def by fastforce
    have f2: "thread.follows (te_render e) W K c1 c2"
      using thread.await_step [OF ok1 u] delete_keeps keep by blast
    obtain b' c3 where p: "put_audit e (caller rq) ''comment_delete'' ''comment'' (str_nat cid) (te_request_id e)
        [(PStr ''session_id'', PStr (c_session row))] c2 = (b', c3)" by (rule prod.exhaust)
    have f3: "thread.follows (te_render e) W K c2 c3" using thread.put_audit_step [OF thread.follows_ok [OF f2] p] .
    note f12 = thread.follows_trans [OF f1 f2]
    show ?thesis
      using f12 thread.follows_trans [OF f12 f3] False r row u p
      by (auto simp: delete_comment_def Let_def split: bool.splits)
  qed
qed

lemma comment_exec_follows:
  assumes "thread.cfg_ok (te_render e) W K c" and "\<And>ids. te_alloc e ids \<notin> set ids" and "wrote opr \<subseteq> W" and "deleted_by e opr \<subseteq> K"
  shows "thread.follows (te_render e) W K c (comment_exec e opr c)"
  using assms by (cases opr) (auto intro!: post_comment_follows patch_comment_follows delete_comment_follows)

fun history :: "(team_env \<times> comment_op \<times> (team \<Rightarrow> team) list) list \<Rightarrow> team \<Rightarrow> team" where
  "history [] s = s"
| "history ((e, opr, fs) # h) s = history h (fst (comment_exec e opr (s, fs)))"

text \<open>
  C24: take any sequence of requests that create, edit and delete comments, each interrupted between its awaited calls
  by arbitrary other changes that keep the same promise (as the requests themselves do). Every comment then shows text that its recorded
  author submitted, with the HTML rendered from that text, ids stay unique, no comment vanishes or changes its author or session, a
  tombstone stays as it is, and a comment is only deleted by its author or an administrator.
\<close>
theorem comments_authentic:
  assumes "authentic render W K s"
    and "\<forall>(e, opr, fs) \<in> set h. te_render e = render \<and> (\<forall>ids. te_alloc e ids \<notin> set ids) \<and> wrote opr \<subseteq> W \<and> deleted_by e opr \<subseteq> K
          \<and> (\<forall>f \<in> set fs. \<forall>s. authentic render W K s \<longrightarrow> authentic render W K (f s) \<and> comments_grow s (f s))"
  shows "authentic render W K (history h s) \<and> comments_grow s (history h s)"
  using assms
proof (induction h arbitrary: s)
  case Nil
  then show ?case using thread.R_refl by simp
next
  case (Cons x h)
  obtain e opr fs where x: "x = (e, opr, fs)" by (cases x)
  have "thread.cfg_ok (te_render e) W K (s, fs)" using Cons.prems x by (simp add: thread.cfg_ok_def)
  then have "thread.follows (te_render e) W K (s, fs) (comment_exec e opr (s, fs))"
    using Cons.prems x by (intro comment_exec_follows) auto
  then have f: "authentic render W K (fst (comment_exec e opr (s, fs)))" "comments_grow s (fst (comment_exec e opr (s, fs)))"
    using Cons.prems x by (auto simp: thread.follows_def thread.cfg_ok_def)
  show ?case
    using Cons.IH [OF f(1)] Cons.prems comments_grow_trans [OF f(2)] x by simp
qed

definition demo_caller :: "string \<Rightarrow> request" where
  "demo_caller who = \<lparr>rq_path = ''/api/v1/'', rq_headers = [], rq_session = None, rq_dashboard_user = None, rq_key_id = None,
     rq_key_hash = None, rq_label = Some who, rq_key_role = None, rq_role = None\<rparr>"

definition demo_team_env :: team_env where
  "demo_team_env = \<lparr>te_alloc = (\<lambda>ids. Suc (sum_list ids)), te_now = 7, te_iso = (\<lambda>_. []), te_render = id, te_audit = Some True,
     te_request_id = None,
     te_config = Some \<lparr>override_mode = ''env'', role_mapping = [(''alice'', ''submitter''), (''bob'', ''submitter''), (''root'', ''admin'')],
       touch_throttle = 60\<rparr>\<rparr>"

definition demo_tables :: team where
  "demo_tables = \<lparr>team_db = demo_store, audit_log = [], comments = [], favorites = [], templates = []\<rparr>"

lemma demo_alloc: "te_alloc demo_team_env ids \<notin> set ids"
  using member_le_sum_list [of "Suc (sum_list ids)" ids] by (auto simp: demo_team_env_def)

definition demo_history :: "(team_env \<times> comment_op \<times> (team \<Rightarrow> team) list) list" where
  "demo_history =
     [(demo_team_env, PostComment (demo_caller ''alice'') (s_id (hd (sessions demo_store))) ''hi'', []),
      (demo_team_env, PatchComment (demo_caller ''bob'') 1 ''no'', []),
      (demo_team_env, DeleteComment (demo_caller ''root'') 1, [])]"

theorem comments_authentic_witness:
  "authentic id {(''alice'', ''hi''), (''bob'', ''no'')} {(''root'', True)} (history demo_history demo_tables)
   \<and> map (\<lambda>r. (c_author r, c_markdown r, c_deleted_at r)) (comments (history demo_history demo_tables)) = [(''alice'', ''hi'', Some 7)]"
proof
  have "caller (demo_caller who) = who" if "who \<noteq> []" for who
    using that by (simp add: caller_def demo_caller_def)
  moreover have "is_admin demo_team_env (demo_caller ''root'')" by code_simp
  moreover have "te_render demo_team_env = id" by (simp add: demo_team_env_def)
  ultimately show "authentic id {(''alice'', ''hi''), (''bob'', ''no'')} {(''root'', True)} (history demo_history demo_tables)"
    using comments_authentic [of id "{(''alice'', ''hi''), (''bob'', ''no'')}" "{(''root'', True)}" demo_tables demo_history] demo_alloc
    by (simp add: demo_history_def demo_tables_def authentic_def)
  show "map (\<lambda>r. (c_author r, c_markdown r, c_deleted_at r)) (comments (history demo_history demo_tables)) = [(''alice'', ''hi'', Some 7)]"
    by code_simp
qed

section \<open>Templates\<close>

text \<open>A template is served on its own exactly when it is part of the caller's unlimited listing.\<close>

lemma template_listed_iff_viewable:
  assumes "distinct (map t_id (templates s))" and "r \<in> set (templates s)" and "length (templates s) \<le> limit"
  shows "fst (view_template e rq (t_id r) (s, [])) = Answer 200 (serialize_template e r)
     \<longleftrightarrow> r \<in> set (list_templates (caller rq) (is_admin e rq) True limit s)"
proof -
  have g: "get_template (t_id r) s = Some r"
    using find_id_distinct [OF assms(1,2)] by (simp add: get_template_def)
  have "length (filter P (templates s)) \<le> limit" for P
    using assms(3) length_filter_le [of P "templates s"] by linarith
  then have "set (list_templates (caller rq) (is_admin e rq) True limit s)
      = {r \<in> set (templates s). is_admin e rq \<or> t_creator r = caller rq \<or> t_shared r}"
    by (simp add: list_templates_def)
  then show ?thesis
    using assms(2) g by (auto simp: view_template_def reading_def await_def failure_def)
qed

text \<open>
  Ids of deleted templates are given again on SQLite. A request that checked the old row edits the new one, which
  belongs to somebody else.
\<close>

definition other_template :: "team \<Rightarrow> team" where
  "other_template s = snd (create_template (te_alloc demo_team_env) 8 ''t'' ''bob'' ''original'' None False None (snd (delete_template 1 s)))"

lemma template_edit_race:
  "map (\<lambda>r. (t_creator r, t_prompt r)) (templates (fst (snd (patch_template demo_team_env (demo_caller ''alice'') 1
       \<lparr>te_prompt = Some ''changed'', te_description = None, te_shared = None, te_tags = None\<rparr>
       (snd (create_template (te_alloc demo_team_env) 7 ''t'' ''alice'' ''mine'' None False None demo_tables), [id, other_template])))))
   = [(''bob'', ''changed'')]"
  by code_simp

end
