(* ===== verification/Sessions_Api.thy ===== *)
theory Sessions_Api
  imports Manager_Life Team_Api
begin

text \<open>
  The session endpoints of \<open>api/routers/sessions.py\<close> with the request models of \<open>api/schemas.py\<close> and
  the manager's \<open>get\<close> and \<open>list\<close>: the role check in front of each route, validation of the body, the
  call of the manager, and the HTTP answer for its result or exception. As in \<open>Session_Manager\<close>, a
  call runs in a configuration with a script of what other tasks do at its suspensions.
\<close>

section \<open>Request and response models\<close>

record spec_in =
  si_prompt :: string
  si_cwd :: string
  si_profile :: "string option"
  si_modules :: "string list"
  si_skills :: "string list"
  si_with :: "string list"
  si_without :: "string list"
  si_extra_env :: "(string \<times> string) list"
  si_pre_run :: "string list list"
  si_executor :: string
  si_timeout :: int
  si_tags :: "string list"

record submit_in =
  su_spec :: spec_in
  su_credentials :: "(string, string) od"
  su_trace_id :: "string option"
  su_owner :: "string option"
  su_description :: "string option"

definition PRE_RUN_CMDS_MAX_COUNT :: nat where "PRE_RUN_CMDS_MAX_COUNT = 20"

definition PRE_RUN_CMDS_MAX_ARGV_LEN :: nat where "PRE_RUN_CMDS_MAX_ARGV_LEN = 32"

definition PRE_RUN_CMDS_MAX_TOKEN_LEN :: nat where "PRE_RUN_CMDS_MAX_TOKEN_LEN = 200"

definition validate_pre_run_cmds :: "string list list \<Rightarrow> bool" where
  "validate_pre_run_cmds cmds \<longleftrightarrow> length cmds \<le> PRE_RUN_CMDS_MAX_COUNT
     \<and> (\<forall>cmd \<in> set cmds. cmd \<noteq> [] \<and> length cmd \<le> PRE_RUN_CMDS_MAX_ARGV_LEN
          \<and> (\<forall>t \<in> set cmd. length t \<le> PRE_RUN_CMDS_MAX_TOKEN_LEN \<and> CHR 0x00 \<notin> set t))"

definition PROFILES :: "string list" where
  "PROFILES = [''minimal'', ''core'', ''go'', ''python'', ''full'']"

definition enforce_pre_run_executor :: "spec_in \<Rightarrow> bool" where
  "enforce_pre_run_executor s \<longleftrightarrow> si_executor s \<in> {''docker'', ''k8s_job''} \<or> si_pre_run s = []"

definition valid_submit :: "submit_in \<Rightarrow> bool" where
  "valid_submit b \<longleftrightarrow> (case si_profile (su_spec b) of None \<Rightarrow> True | Some p \<Rightarrow> p \<in> set PROFILES)
     \<and> validate_pre_run_cmds (si_pre_run (su_spec b))
     \<and> si_executor (su_spec b) \<in> {''docker'', ''inprocess'', ''k8s_job''}
     \<and> enforce_pre_run_executor (su_spec b)
     \<and> text_within 0 512 (su_description b)"

definition ALLOWED_ENV_NAMES :: "string list" where
  "ALLOWED_ENV_NAMES = [''ANTHROPIC_API_KEY'', ''ANTHROPIC_BASE_URL'', ''ANTHROPIC_AUTH_TOKEN'', ''AWS_ACCESS_KEY_ID'',
     ''AWS_SECRET_ACCESS_KEY'', ''AWS_SESSION_TOKEN'', ''AWS_REGION'', ''GOOGLE_APPLICATION_CREDENTIALS'', ''CLOUD_ML_REGION'',
     ''ANTHROPIC_VERTEX_PROJECT_ID'']"

text \<open>The offending names, sorted.\<close>

definition validate_body_credentials :: "(string, string) od \<Rightarrow> string list" where
  "validate_body_credentials creds = sort (filter (\<lambda>k. k \<notin> set ALLOWED_ENV_NAMES) (od_keys creds))"

definition build_spec :: "(string \<Rightarrow> string) \<Rightarrow> spec_in \<Rightarrow> py_exn + session_spec" where
  "build_spec path s =
     bind_sum (make_manifest
       \<lparr>profile = (case si_profile s of None \<Rightarrow> PNone | Some p \<Rightarrow> PStr p), modules = map PStr (si_modules s), skills = map PStr (si_skills s),
        with_components = map PStr (si_with s), without_components = map PStr (si_without s),
        extra_env = map (\<lambda>(k, v). (PStr k, PStr v)) (si_extra_env s), pre_run_cmds = map (map PStr) (si_pre_run s)\<rparr>)
     (\<lambda>pm. Inr \<lparr>prompt = PStr (si_prompt s), cwd = path (si_cwd s), plugins = pm, executor = PStr (si_executor s),
                timeout_s = si_timeout s, metadata = [], tags = map PStr (si_tags s)\<rparr>)"

section \<open>The manager's readers\<close>

record session_detail =
  d_row :: session_row
  d_state :: session_state
  d_frames :: "frame_row list"

definition manager_get :: "string \<Rightarrow> nat \<Rightarrow> nat \<Rightarrow> 'b cfg \<Rightarrow> (mgr_exn + session_detail) \<times> 'b cfg" where
  "manager_get sid frames_limit frames_offset c = (case read_session sid c of
     (None, c1) \<Rightarrow> (Inl SessionNotFound, c1)
   | (Some row, c1) \<Rightarrow> (case on_db (\<lambda>db. (list_frames sid frames_limit frames_offset db, db)) c1 of
        (rows, c2) \<Rightarrow> (case parse_state (s_status row) of
            Inl x \<Rightarrow> (Inl (PyError x), c2)
          | Inr st \<Rightarrow> (Inr \<lparr>d_row = row, d_state = st, d_frames = rows\<rparr>, c2))))"

fun summaries :: "session_row list \<Rightarrow> py_exn + (session_row \<times> session_state) list" where
  "summaries [] = Inr []"
| "summaries (r # rs) = bind_sum (parse_state (s_status r)) (\<lambda>st. bind_sum (summaries rs) (\<lambda>ss. Inr ((r, st) # ss)))"

definition manager_list :: "codec \<Rightarrow> session_state option \<Rightarrow> string option \<Rightarrow> nat \<Rightarrow> string option \<Rightarrow> 'b cfg
    \<Rightarrow> (mgr_exn + (session_row \<times> session_state) list \<times> string option) \<times> 'b cfg" where
  "manager_list cd status tag limit after c =
     (case on_db (\<lambda>db. (list_sessions cd (map_option state_value status) tag limit after db, db)) c of
        (Inl x, c1) \<Rightarrow> (Inl (StoreFailed x), c1)
      | (Inr (rows, next), c1) \<Rightarrow> (case summaries rows of
           Inl x \<Rightarrow> (Inl (PyError x), c1)
         | Inr ss \<Rightarrow> (Inr (ss, next), c1)))"

section \<open>Answers\<close>

record session_out =
  so_id :: string
  so_status :: string
  so_spec :: pydict
  so_tags :: "string list"
  so_submitted_at :: int
  so_started_at :: "int option"
  so_ended_at :: "int option"
  so_end_reason :: "string option"
  so_backend :: string
  so_trace_id :: "string option"
  so_owner :: "string option"
  so_description :: "string option"

definition detail_out :: "session_detail \<Rightarrow> session_out" where
  "detail_out d = (let r = d_row d in
     \<lparr>so_id = s_id r, so_status = state_value (d_state d), so_spec = s_spec r, so_tags = s_tags r, so_submitted_at = s_submitted_at r,
      so_started_at = s_started_at r, so_ended_at = s_ended_at r, so_end_reason = s_end_reason r, so_backend = s_backend r,
      so_trace_id = s_trace_id r, so_owner = s_owner r, so_description = s_description r\<rparr>)"

text \<open>The listing leaves out the spec, the trace id, the owner and the description.\<close>

definition summary_out :: "session_row \<times> session_state \<Rightarrow> session_out" where
  "summary_out x = (detail_out \<lparr>d_row = fst x, d_state = snd x, d_frames = []\<rparr>)
     \<lparr>so_spec := [], so_trace_id := None, so_owner := None, so_description := None\<rparr>"

text \<open>An exception nothing catches becomes a plain 500.\<close>

definition server_error :: "'a answer" where
  "server_error = HttpError 500 (PStr ''Internal Server Error'') []"

definition detail :: "nat \<Rightarrow> string \<Rightarrow> 'a answer" where
  "detail st t = HttpError st (PDict [(PStr ''detail'', PStr t)]) []"

definition coded :: "nat \<Rightarrow> string \<Rightarrow> string \<Rightarrow> (string \<times> string) list \<Rightarrow> 'a answer" where
  "coded st t code hs = HttpError st (PDict [(PStr ''detail'', PStr t), (PStr ''code'', PStr code)]) hs"

definition exn_text :: "'b env \<Rightarrow> mgr_exn \<Rightarrow> string" where
  "exn_text e x = raised_message (show_exn e x)"

text \<open>
  \<open>Depends(require_role_or_own_session(...))\<close>: the session is read for the ownership check, and other tasks
  run before the handler.
\<close>

definition with_own_session ::
    "string \<Rightarrow> resolver_cfg option \<Rightarrow> request \<Rightarrow> string \<Rightarrow> 'b cfg \<Rightarrow> ('b cfg \<Rightarrow> 'a answer \<times> 'b cfg) \<Rightarrow> 'a answer \<times> 'b cfg" where
  "with_own_session min_role cf rq sid c handler = (case require_role_or_own_session min_role of
     Inl x \<Rightarrow> (Crash x, c)
   | Inr check \<Rightarrow>
       (case fst (check cf (Some (\<lambda>s. Inr (map_option s_owner (get_session s (m_db (fst c)))))) sid rq) of
          Inl r \<Rightarrow> (Refusal r, c)
        | Inr _ \<Rightarrow> handler (suspend c)))"

section \<open>Submitting\<close>

definition DESCRIPTION_MAX_LEN :: nat where "DESCRIPTION_MAX_LEN = 512"

definition truncated :: "string option \<Rightarrow> bool" where
  "truncated d \<longleftrightarrow> (case d of None \<Rightarrow> False | Some t \<Rightarrow> length t > DESCRIPTION_MAX_LEN)"

definition submit_owner :: "submit_in \<Rightarrow> request \<Rightarrow> string" where
  "submit_owner b rq = owner_or_anon (truthy_or (su_owner b) (rq_label rq))"

definition submit_args_of :: "resolver_cfg option \<Rightarrow> request \<Rightarrow> submit_in \<Rightarrow> submit_args" where
  "submit_args_of cf rq b =
     \<lparr>sa_credentials = map (\<lambda>(k, v). (k, PStr v)) (su_credentials b), sa_trace_id = (case su_trace_id b of None \<Rightarrow> [] | Some t \<Rightarrow> t),
      sa_api_key_id = rq_key_id rq, sa_owner = Some (submit_owner b rq), sa_actor_label = rq_label rq,
      sa_actor_role = Some (fst (resolve_role cf rq)), sa_description = map_option (take DESCRIPTION_MAX_LEN) (su_description b), sa_parent = None\<rparr>"

definition unsupported_keys :: "string list \<Rightarrow> 'a answer" where
  "unsupported_keys bad = HttpError 400 (PDict [(PStr ''detail'', PDict
     [(PStr ''code'', PStr ''unsupported_credential_key''), (PStr ''error'', PStr ''credential_key_not_allowed''),
      (PStr ''rejected_keys'', PList (map PStr bad)), (PStr ''allowed'', PList (map PStr (sort ALLOWED_ENV_NAMES)))])]) []"

definition missing_credentials :: "submit_args \<Rightarrow> 'a answer" where
  "missing_credentials a = HttpError 400 (PDict [(PStr ''detail'', PDict
     [(PStr ''code'', PStr ''missing_credentials''), (PStr ''error'', PStr ''per_user_credentials_required''),
      (PStr ''actor_label'', opt_text (sa_actor_label a)), (PStr ''actor_role'', opt_text (sa_actor_role a))])]) []"

definition lookup_unavailable :: "submit_args \<Rightarrow> 'a answer" where
  "lookup_unavailable a = HttpError 503 (PDict [(PStr ''detail'', PDict
     [(PStr ''code'', PStr ''credential_lookup_unavailable''), (PStr ''error'', PStr ''credentials_store_transient_failure''),
      (PStr ''actor_label'', opt_text (sa_actor_label a))])]) [(''Retry-After'', ''5'')]"

definition reject_missing :: "'b env \<Rightarrow> string \<Rightarrow> string option \<Rightarrow> string \<Rightarrow> pydict \<Rightarrow> 'b cfg \<Rightarrow> 'b cfg" where
  "reject_missing e actor role target via c = audit_record e actor ''session_reject_missing_credentials'' target
     ([(PStr ''role'', opt_text role), (PStr ''reason'', PStr ''no_per_user_credentials'')] @ via) c"

definition reject_unavailable :: "'b env \<Rightarrow> string \<Rightarrow> string \<Rightarrow> pydict \<Rightarrow> 'b cfg \<Rightarrow> 'b cfg" where
  "reject_unavailable e actor target via c = audit_record e actor ''session_reject_lookup_unavailable'' target
     ([(PStr ''reason'', PStr ''credentials_store_unavailable'')] @ via) c"

text \<open>
  The prose of the messages is left out. Of the exceptions of \<open>submit\<close>, the one for a manager that shuts down is
  a \<open>RuntimeError\<close>; a dropped durable event and a failed write are not.
\<close>

definition submit_session ::
    "'b env \<Rightarrow> resolver_cfg option \<Rightarrow> request \<Rightarrow> string \<Rightarrow> int \<Rightarrow> submit_in \<Rightarrow> 'b cfg
     \<Rightarrow> (session_out \<times> (string \<times> string) list) answer \<times> 'b cfg" where
  "submit_session e cf rq sid now b c = with_role ''submitter'' cf rq c (\<lambda>c.
     if \<not> valid_submit b then (unprocessable, c)
     else if validate_body_credentials (su_credentials b) \<noteq> [] then (unsupported_keys (validate_body_credentials (su_credentials b)), c)
     else (case build_spec (path_text e) (su_spec b) of
         Inl x \<Rightarrow> (server_error, c)
       | Inr sp \<Rightarrow>
           (let a = submit_args_of cf rq b in
            case submit e sid now sp a c of
              (Inl MissingCredentialsError, c1) \<Rightarrow>
                (missing_credentials a, reject_missing e (owner_or_anon (rq_label rq)) (sa_actor_role a) ''-'' [] c1)
            | (Inl CredentialsLookupUnavailable, c1) \<Rightarrow>
                (lookup_unavailable a, reject_unavailable e (owner_or_anon (rq_label rq)) ''-'' [] c1)
            | (Inl ShuttingDown, c1) \<Rightarrow> (detail 503 (exn_text e ShuttingDown), c1)
            | (Inl _, c1) \<Rightarrow> (server_error, c1)
            | (Inr s, c1) \<Rightarrow> (case manager_get s 100 0 c1 of
                  (Inl _, c2) \<Rightarrow> (server_error, c2)
                | (Inr d, c2) \<Rightarrow>
                    (Answer 202 (detail_out d, if truncated (su_description b) then [(''X-Description-Truncated'', ''true'')] else []), c2)))))"

section \<open>Reading\<close>

definition list_sessions_route ::
    "'b env \<Rightarrow> codec \<Rightarrow> string option \<Rightarrow> string option \<Rightarrow> nat \<Rightarrow> string option \<Rightarrow> 'b cfg
     \<Rightarrow> (session_out list \<times> string option) answer \<times> 'b cfg" where
  "list_sessions_route e cd status tag limit after c =
     (if limit < 1 \<or> limit > 100 then (unprocessable, c)
      else (case (case or_none (case status of None \<Rightarrow> [] | Some s \<Rightarrow> s) of None \<Rightarrow> Inr None | Some s \<Rightarrow> map_sum id Some (parse_state s)) of
        Inl _ \<Rightarrow> (coded 400 (''invalid status: '' @ quoted (the status)) ''invalid_status'' [], c)
      | Inr st \<Rightarrow> (case manager_list cd st tag limit after c of
          (Inl (StoreFailed CursorFilterMismatchError), c1) \<Rightarrow>
            (coded 400 (exn_text e (StoreFailed CursorFilterMismatchError)) ''cursor_filter_mismatch'' [], c1)
        | (Inl (StoreFailed CursorInvalidError), c1) \<Rightarrow> (coded 400 (exn_text e (StoreFailed CursorInvalidError)) ''cursor_invalid'' [], c1)
        | (Inl _, c1) \<Rightarrow> (server_error, c1)
        | (Inr (rows, next), c1) \<Rightarrow> (Answer 200 (map summary_out rows, next), c1))))"

text \<open>The store's search with its database text functions.\<close>

record search_env =
  se_codec :: codec
  se_hash :: "search_filter \<Rightarrow> string"
  se_ci :: bool
  se_spec_text :: "pydict \<Rightarrow> string"
  se_tags_text :: "string list \<Rightarrow> string"

record search_item =
  it_id :: string
  it_prompt :: string
  it_owner :: "string option"
  it_description :: "string option"
  it_status :: string
  it_tags :: "string list"
  it_submitted_at :: int
  it_ended_at :: "int option"

definition search_item_of :: "'b env \<Rightarrow> session_row \<Rightarrow> search_item" where
  "search_item_of e r =
     \<lparr>it_id = s_id r, it_prompt = str_or e (dget (s_spec r) ''prompt'') [], it_owner = s_owner r, it_description = s_description r,
      it_status = s_status r, it_tags = s_tags r, it_submitted_at = s_submitted_at r, it_ended_at = s_ended_at r\<rparr>"

definition admin_rank :: "resolver_cfg option \<Rightarrow> request \<Rightarrow> bool" where
  "admin_rank cf rq \<longleftrightarrow> rank (fst (resolve_role cf rq)) \<ge> rank ''admin''"

definition forbidden_owner :: "string \<Rightarrow> 'a answer" where
  "forbidden_owner role = failure 403 ''cannot search by other owner'' ''forbidden_search_owner''
     [(PStr ''required_role'', PStr ''admin''), (PStr ''current_role'', PStr role)]"

definition search_sessions_route ::
    "'b env \<Rightarrow> search_env \<Rightarrow> resolver_cfg option \<Rightarrow> request \<Rightarrow> search_filter \<Rightarrow> string option \<Rightarrow> nat \<Rightarrow> 'b cfg
     \<Rightarrow> (search_item list \<times> string option) answer \<times> 'b cfg" where
  "search_sessions_route e se cf rq f after limit c =
     (if \<not> (text_within 1 200 (q_text f) \<and> text_within 0 64 (q_owner f) \<and> text_within 0 512 after \<and> 1 \<le> limit \<and> limit \<le> 200) then (unprocessable, c)
      else if \<not> admin_rank cf rq \<and> q_owner f \<noteq> None \<and> q_owner f \<noteq> rq_label rq then (forbidden_owner (fst (resolve_role cf rq)), c)
      else (let f1 = (if admin_rank cf rq then f else f\<lparr>q_owner := rq_label rq\<rparr>) in
        case on_db (\<lambda>db. (search_sessions (se_codec se) (se_hash se) (se_ci se) (se_spec_text se) (se_tags_text se) f1 limit after db, db)) c of
          (Inl CursorFilterMismatchError, c1) \<Rightarrow> (failure 400 (exn_text e (StoreFailed CursorFilterMismatchError)) ''cursor_filter_mismatch'' [], c1)
        | (Inl CursorInvalidError, c1) \<Rightarrow> (failure 400 (exn_text e (StoreFailed CursorInvalidError)) ''cursor_invalid'' [], c1)
        | (Inl _, c1) \<Rightarrow> (server_error, c1)
        | (Inr (rows, next), c1) \<Rightarrow> (Answer 200 (map (search_item_of e) rows, next), c1)))"

definition list_session_trace ::
    "resolver_cfg option \<Rightarrow> request \<Rightarrow> string \<Rightarrow> nat \<Rightarrow> 'b cfg \<Rightarrow> trace_row list answer \<times> 'b cfg" where
  "list_session_trace cf rq sid limit c = with_own_session ''admin'' cf rq sid c (\<lambda>c.
     if limit < 1 \<or> limit > 500 then (unprocessable, c)
     else (case read_session sid c of
         (None, c1) \<Rightarrow> (not_found ''session'', c1)
       | (Some _, c1) \<Rightarrow> (case on_db (\<lambda>db. (list_trace_invocations sid limit db, db)) c1 of (rows, c2) \<Rightarrow> (Answer 200 rows, c2))))"

definition get_session_route :: "string \<Rightarrow> nat \<Rightarrow> nat \<Rightarrow> 'b cfg \<Rightarrow> (session_out \<times> string option \<times> frame_row list) answer \<times> 'b cfg" where
  "get_session_route sid limit offset c =
     (if limit < 1 \<or> limit > 1000 then (unprocessable, c)
      else (case manager_get sid limit offset c of
          (Inl SessionNotFound, c1) \<Rightarrow> (detail 404 ''session not found'', c1)
        | (Inl _, c1) \<Rightarrow> (server_error, c1)
        | (Inr d, c1) \<Rightarrow> (Answer 200 (detail_out d, s_runtime_id (d_row d), d_frames d), c1)))"

section \<open>Controlling\<close>

definition RETRY_AFTER_DEFAULT_S :: string where "RETRY_AFTER_DEFAULT_S = ''5''"

definition cancel_session ::
    "'b env \<Rightarrow> resolver_cfg option \<Rightarrow> request \<Rightarrow> string \<Rightarrow> string option \<Rightarrow> 'b cfg \<Rightarrow> (string \<times> string) answer \<times> 'b cfg" where
  "cancel_session e cf rq sid reason0 c = with_own_session ''admin'' cf rq sid c (\<lambda>c.
     let reason = (case reason0 of None \<Rightarrow> ''user_request'' | Some r \<Rightarrow> r) in
     case manager_get sid 100 0 c of
       (Inl SessionNotFound, c1) \<Rightarrow> (detail 404 ''session not found'', c1)
     | (Inl _, c1) \<Rightarrow> (server_error, c1)
     | (Inr _, c1) \<Rightarrow> (Answer 202 (''cancelled'', reason), cancel e sid reason c1))"

definition conflict_answer :: "'a answer" where
  "conflict_answer = coded 409 ''session state changed, please refresh'' ''session_version_mismatch'' []"

text \<open>The mapping of the exceptions of \<open>pause\<close> and \<open>resume\<close>.\<close>

definition control_error :: "'b env \<Rightarrow> mgr_exn \<Rightarrow> 'a answer" where
  "control_error e x = (case x of
     SessionNotFound \<Rightarrow> detail 404 ''session not found''
   | SessionNotRunning \<Rightarrow> detail 409 (exn_text e x)
   | SessionNotPaused \<Rightarrow> detail 409 (exn_text e x)
   | MaxPausedExceeded \<Rightarrow> coded 429 (exn_text e x) ''max_paused_exceeded'' [(''Retry-After'', RETRY_AFTER_DEFAULT_S)]
   | ResumeQueueTimeout \<Rightarrow> coded 429 (exn_text e x) ''resume_queue_timeout'' [(''Retry-After'', RETRY_AFTER_DEFAULT_S)]
   | BridgeAckTimeout \<Rightarrow> detail 504 (exn_text e x)
   | VersionConflict _ _ \<Rightarrow> conflict_answer
   | _ \<Rightarrow> server_error)"

definition pause_session ::
    "'b env \<Rightarrow> resolver_cfg option \<Rightarrow> ack \<Rightarrow> int \<Rightarrow> request \<Rightarrow> string \<Rightarrow> string option \<Rightarrow> 'b cfg \<Rightarrow> (string \<times> string) answer \<times> 'b cfg" where
  "pause_session e cf a now rq sid reason c = with_own_session ''submitter'' cf rq sid c (\<lambda>c.
     case pause e a now sid reason c of
       (Inl x, c1) \<Rightarrow> (control_error e x, c1)
     | (Inr _, c1) \<Rightarrow> (Answer 202 (''paused'', case reason of None \<Rightarrow> [] | Some r \<Rightarrow> r), c1))"

definition resume_session ::
    "'b env \<Rightarrow> resolver_cfg option \<Rightarrow> ack \<Rightarrow> request \<Rightarrow> string \<Rightarrow> string option \<Rightarrow> 'b cfg \<Rightarrow> (string \<times> string) answer \<times> 'b cfg" where
  "resume_session e cf a rq sid hint c = with_own_session ''submitter'' cf rq sid c (\<lambda>c.
     case resume e a sid hint c of
       (Inl x, c1) \<Rightarrow> (control_error e x, c1)
     | (Inr _, c1) \<Rightarrow> (Answer 202 (''running'', case hint of None \<Rightarrow> [] | Some r \<Rightarrow> r), c1))"

definition delete_session_route ::
    "'b env \<Rightarrow> resolver_cfg option \<Rightarrow> request \<Rightarrow> string \<Rightarrow> 'b cfg \<Rightarrow> (string \<times> string) answer \<times> 'b cfg" where
  "delete_session_route e cf rq sid c = with_own_session ''admin'' cf rq sid c (\<lambda>c.
     (Answer 202 (''cancelled'', ''delete''), cancel e sid ''delete'' c))"

section \<open>Batches\<close>

record session_item =
  xi_id :: string
  xi_ok :: bool
  xi_error_code :: "string option"
  xi_error_message :: "string option"
  xi_new_session :: "string option"

definition item_ok :: "string \<Rightarrow> string option \<Rightarrow> session_item" where
  "item_ok sid new = \<lparr>xi_id = sid, xi_ok = True, xi_error_code = None, xi_error_message = None, xi_new_session = new\<rparr>"

definition item_error :: "string \<Rightarrow> string \<Rightarrow> string \<Rightarrow> session_item" where
  "item_error sid code msg = \<lparr>xi_id = sid, xi_ok = False, xi_error_code = Some code, xi_error_message = Some msg, xi_new_session = None\<rparr>"

definition item_missing :: "string \<Rightarrow> session_item" where
  "item_missing sid = item_error sid ''session_not_found'' (''session '' @ sid @ '' not found'')"

definition batch_cancel_one ::
    "'b env \<Rightarrow> resolver_cfg option \<Rightarrow> request \<Rightarrow> string option \<Rightarrow> nat \<Rightarrow> string \<Rightarrow> session_row \<Rightarrow> 'b cfg \<Rightarrow> session_item \<times> 'b cfg" where
  "batch_cancel_one e cf rq reason bsize sid row c =
     (if \<not> admin_rank cf rq \<and> s_owner row \<noteq> Some (caller rq)
      then (item_error sid ''forbidden_cancel'' ''not session owner; admin role required for cross-owner cancel'', c)
      else (item_ok sid None,
            audit_record e (caller rq) ''session_batch_cancel'' sid [(PStr ''reason'', opt_text reason), (PStr ''batch_size'', PInt (int bsize))]
              (cancel e sid (the (truthy_or reason (Some ''batch_cancel''))) c)))"

definition batch_retry_one ::
    "'b env \<Rightarrow> resolver_cfg option \<Rightarrow> request \<Rightarrow> int \<Rightarrow> string \<Rightarrow> string \<Rightarrow> 'b cfg \<Rightarrow> session_item \<times> 'b cfg" where
  "batch_retry_one e cf rq now sid new_sid c =
     (let role = fst (resolve_role cf rq); via = [(PStr ''via'', PStr ''batch_retry'')] in
      case retry e new_sid now sid (Some (caller rq)) (Some role) c of
        (Inl MissingCredentialsError, c1) \<Rightarrow>
          (item_error sid ''missing_credentials'' ''Per-user credentials required for retry; configure at /dashboard/me/credentials.'',
           reject_missing e (caller rq) (Some role) sid via c1)
      | (Inl CredentialsLookupUnavailable, c1) \<Rightarrow>
          (item_error sid ''credential_lookup_unavailable'' ''Credentials store transient failure; retry shortly.'',
           reject_unavailable e (caller rq) sid via c1)
      | (Inl SessionNotFound, c1) \<Rightarrow> (item_missing sid, c1)
      | (Inl RetryConfigError, c1) \<Rightarrow> (item_error sid ''retry_config_error'' (exn_text e RetryConfigError), c1)
      | (Inl x, c1) \<Rightarrow> (item_error sid ''internal_error'' (exn_text e x), c1)
      | (Inr ns, c1) \<Rightarrow> (item_ok sid (Some ns), c1))"

datatype batch_action = BatchCancel | BatchRetry

text \<open>\<open>new_sid\<close> gives the fresh id for the retry of an entry.\<close>

fun batch_items ::
    "'b env \<Rightarrow> resolver_cfg option \<Rightarrow> request \<Rightarrow> batch_action \<Rightarrow> string option \<Rightarrow> nat \<Rightarrow> int \<Rightarrow> (string \<times> string) list \<Rightarrow> 'b cfg
     \<Rightarrow> session_item list \<times> 'b cfg" where
  "batch_items e cf rq act reason bsize now [] c = ([], c)"
| "batch_items e cf rq act reason bsize now ((sid, new_sid) # ids) c =
     (let (it, c1) = (case read_session sid c of
            (None, c1) \<Rightarrow> (item_missing sid, c1)
          | (Some row, c1) \<Rightarrow> (case act of
                BatchCancel \<Rightarrow> batch_cancel_one e cf rq reason bsize sid row c1
              | BatchRetry \<Rightarrow> batch_retry_one e cf rq now sid new_sid c1));
          (its, c2) = batch_items e cf rq act reason bsize now ids c1
      in (it # its, c2))"

definition batch_sessions ::
    "'b env \<Rightarrow> resolver_cfg option \<Rightarrow> request \<Rightarrow> batch_action \<Rightarrow> string option \<Rightarrow> int \<Rightarrow> (string \<times> string) list \<Rightarrow> 'b cfg
     \<Rightarrow> (session_item list \<times> nat \<times> nat) answer \<times> 'b cfg" where
  "batch_sessions e cf rq act reason now ids c = with_role ''submitter'' cf rq c (\<lambda>c.
     if length ids < 1 \<or> length ids > 100 \<or> \<not> text_within 0 200 reason then (unprocessable, c)
     else (case batch_items e cf rq act reason (length ids) now ids c of
         (items, c1) \<Rightarrow> (Answer 200 (items, length (filter xi_ok items), length (filter (\<lambda>i. \<not> xi_ok i) items)), c1)))"

section \<open>Submission through the API\<close>

lemma load_Nil: "\<exists>r. load_credentials e a (m, []) = (r, (m, []))"
  by (auto simp: load_credentials_def split: option.splits)

lemma persist_Nil_Inl: "persist_new e sid now sp red a (m, []) = (Inl x, c) \<Longrightarrow> c = (m, [])"
  by (auto simp: persist_new_def create_session_def split: if_splits)

text \<open>A refused submission leaves the manager as it was.\<close>

lemma submit_Inl_Nil:
  assumes "accepting e" and "submit e sid now sp a (m, []) = (Inl x, c')"
  shows "c' = (m, [])"
proof -
  obtain r where l: "load_credentials e a (m, []) = (r, (m, []))" using load_Nil by blast
  let ?red = "redact_dict (redactor e) (to_json_safe sp)"
  obtain r1 c1 where p: "persist_new e sid now sp ?red a (m, []) = (r1, c1)" by (rule prod.exhaust)
  show ?thesis
  proof (cases r1)
    case (Inl y)
    with p have "c1 = (m, [])" using persist_Nil_Inl by blast
    then show ?thesis using assms(2) l p Inl by (cases r) (auto simp: submit_def Let_def split: if_splits)
  next
    case (Inr u)
    then obtain m1 where c1: "c1 = (m1, [])" using p by (auto simp: persist_new_def create_session_def split: if_splits)
    obtain as where as: "audit_record e (owner_or_anon (sa_owner a)) ''session_create'' sid (create_metadata e sp ?red a) (m1, [])
      = (m1\<lparr>m_audits := as\<rparr>, [])" using audit_Nil by blast
    show ?thesis
      using assms(2) l p Inr c1 as publish_Nil [OF assms(1)] by (cases r) (auto simp: submit_def Let_def split: if_splits)
  qed
qed

lemma submit_Inr_Nil:
  assumes "accepting e" and "submit e sid now sp a (m, []) = (Inr s, c')"
  shows "\<exists>m' row. s = sid \<and> c' = (m', []) \<and> sessions (m_db m') = sessions (m_db m) @ [row] \<and> get_session sid (m_db m') = Some row
     \<and> s_id row = sid \<and> s_status row = ''queued'' \<and> s_owner row = sa_owner a \<and> s_description row = sa_description a
     \<and> running_tasks m' = add_new sid (running_tasks m)"
proof -
  obtain creds where l: "load_credentials e a (m, []) = (Inr creds, (m, []))" and an: "accepting_new m"
    using assms(2) load_Nil [of e a m] by (fastforce simp: submit_def bind_res_Inr_iff split: if_splits)
  let ?red = "redact_dict (redactor e) (to_json_safe sp)"
  let ?crd = "credential_bundle_is_complete creds \<or> sa_actor_role a = Some ''admin'' \<or> \<not> require_per_user_credentials e"
  have ok: ?crd and s: "s = sid"
    using assms(2) l by (auto simp: submit_def bind_res_Inr_iff Let_def split: if_splits)
  have fresh: "sid \<notin> set (map s_id (sessions (m_db m)))"
    using assms(2) l by (auto simp: submit_def bind_res_Inr_iff Let_def persist_new_def create_session_def split: if_splits)
  obtain db' where db: "create_session sid ?red (or_none (sa_trace_id a)) (to_text e (executor sp)) (map (to_text e) (tags sp))
                    now (sa_owner a) (sa_description a) (sa_parent a) (m_db m) = (Inr (), db')"
    using fresh by (simp add: create_session_def)
  obtain row where row: "sessions db' = sessions (m_db m) @ [row]" "get_session sid db' = Some row" "s_id row = sid"
      "s_status row = ''queued''" "s_owner row = sa_owner a" "s_description row = sa_description a"
    using db get_session_created [OF db] fresh by (auto simp: create_session_def)
  have p: "persist_new e sid now sp ?red a (m, []) = (Inr (), (m\<lparr>m_db := db'\<rparr>, []))" using db by (simp add: persist_new_def)
  obtain as where as: "audit_record e (owner_or_anon (sa_owner a)) ''session_create'' sid (create_metadata e sp ?red a) (m\<lparr>m_db := db'\<rparr>, [])
      = (m\<lparr>m_db := db', m_audits := as\<rparr>, [])" using audit_Nil by fastforce
  show ?thesis
    using assms(2) l an ok p as publish_Nil [OF assms(1)] s row
    by (auto simp: submit_def Let_def track_session_def)
qed

definition http_code :: "'a answer \<Rightarrow> nat" where
  "http_code r = (case r of Answer st _ \<Rightarrow> st | Refusal (Refused st _ _) \<Rightarrow> st | HttpError st _ _ \<Rightarrow> st | Crash _ \<Rightarrow> 500)"

lemmas answer_defs = http_code_def unprocessable_def unsupported_keys_def server_error_def detail_def missing_credentials_def
  lookup_unavailable_def coded_def failure_def not_found_def conflict_answer_def

lemma require_submitter: "with_role ''submitter'' cf rq c handler =
    (if rank (fst (resolve_role cf rq)) < rank ''submitter'' then (Refusal (Refused 403 ''insufficient_role'' None), c) else handler c)"
  by (simp add: with_role_def require_role_def ROLE_HIERARCHY_def Let_def split: prod.splits)

lemma reject_Nil:
  "\<exists>as. reject_missing e actor role target via (m, []) = (m\<lparr>m_audits := as\<rparr>, [])"
  "\<exists>as. reject_unavailable e actor target via (m, []) = (m\<lparr>m_audits := as\<rparr>, [])"
  unfolding reject_missing_def reject_unavailable_def by (rule audit_Nil)+

lemma refused_keeps:
  assumes "accepting e" and "submit e sid now sp a (m, []) = (Inl x, c1)"
    and "(case x of MissingCredentialsError \<Rightarrow> (missing_credentials a, reject_missing e ac ro ''-'' [] c1)
          | CredentialsLookupUnavailable \<Rightarrow> (lookup_unavailable a, reject_unavailable e ac ''-'' [] c1)
          | ShuttingDown \<Rightarrow> (detail 503 t, c1)
          | _ \<Rightarrow> (server_error, c1)) = (r, (m', fs))"
  shows "http_code r \<in> {400, 500, 503} \<and> (\<exists>as. m' = m\<lparr>m_audits := as\<rparr>)"
proof -
  have c1: "c1 = (m, [])" using submit_Inl_Nil assms(1,2) by blast
  have "\<exists>as. m = m\<lparr>m_audits := as\<rparr>" by (rule exI [of _ "m_audits m"]) simp
  then show ?thesis
    using assms(3) reject_Nil(1) [of e ac ro "''-''" "[]" m] reject_Nil(2) [of e ac "''-''" "[]" m] unfolding c1
    by (cases x) (auto simp: answer_defs)
qed

lemma submitted_described:
  assumes "accepting e" and "submit e sid now sp a (m, []) = (Inr s, c1)"
  obtains m1 row frs where "s = sid" "c1 = (m1, [])" "sessions (m_db m1) = sessions (m_db m) @ [row]" "s_id row = sid" "s_status row = ''queued''"
    "s_owner row = sa_owner a" "s_description row = sa_description a" "running_tasks m1 = add_new sid (running_tasks m)"
    "manager_get sid 100 0 (m1, []) = (Inr \<lparr>d_row = row, d_state = QUEUED, d_frames = frs\<rparr>, (m1, []))"
proof -
  obtain m1 row where g: "s = sid" "c1 = (m1, [])" "sessions (m_db m1) = sessions (m_db m) @ [row]" "get_session sid (m_db m1) = Some row"
      "s_id row = sid" "s_status row = ''queued''" "s_owner row = sa_owner a" "s_description row = sa_description a"
      "running_tasks m1 = add_new sid (running_tasks m)"
    using submit_Inr_Nil [OF assms] by blast
  moreover have "parse_state ''queued'' = Inr QUEUED" using parse_state_value [of QUEUED] by simp
  ultimately have "manager_get sid 100 0 (m1, []) = (Inr \<lparr>d_row = row, d_state = QUEUED, d_frames = list_frames sid 100 0 (m_db m1)\<rparr>, (m1, []))"
    by (simp add: manager_get_def)
  with g show thesis by (intro that)
qed

lemma valid_description:
  "valid_submit b \<Longrightarrow> map_option (take DESCRIPTION_MAX_LEN) (su_description b) = su_description b"
  "valid_submit b \<Longrightarrow> \<not> truncated (su_description b)"
  by (auto simp: valid_submit_def text_within_def DESCRIPTION_MAX_LEN_def truncated_def split: option.splits)

text \<open>
  C9: a submission over HTTP, with no other task in between and a bus that accepts, is all or nothing. Either the answer is 202,
  then the caller is at least a submitter, the body is valid (so an in-process session has no commands to run before it), every credential name is on the
  allow list, and exactly one queued row was added, owned by the owner the body names, else the caller's label, else anon, which the answer describes and which is
  handed to a task; or the answer is one of 400, 403, 422, 500, 503 and nothing but the audit log changed.
\<close>
theorem submit_all_or_nothing:
  assumes "accepting e" and "submit_session e cf rq sid now b (m, []) = (r, (m', fs))"
  shows "(\<exists>row frs. r = Answer 202 (detail_out \<lparr>d_row = row, d_state = QUEUED, d_frames = frs\<rparr>, [])
          \<and> rank (fst (resolve_role cf rq)) \<ge> rank ''submitter'' \<and> valid_submit b
          \<and> set (od_keys (su_credentials b)) \<subseteq> set ALLOWED_ENV_NAMES
          \<and> sessions (m_db m') = sessions (m_db m) @ [row] \<and> s_id row = sid \<and> s_status row = ''queued''
          \<and> s_owner row = Some (submit_owner b rq) \<and> s_description row = su_description b
          \<and> running_tasks m' = add_new sid (running_tasks m))
       \<or> (http_code r \<in> {400, 403, 422, 500, 503} \<and> (\<exists>as. m' = m\<lparr>m_audits := as\<rparr>))"
proof -
  let ?role = "rank (fst (resolve_role cf rq))"
  have same: "\<exists>as. m = m\<lparr>m_audits := as\<rparr>" by (rule exI [of _ "m_audits m"]) simp
  consider (role) "?role < rank ''submitter''" | (bad) "?role \<ge> rank ''submitter''" "\<not> valid_submit b"
    | (keys) "?role \<ge> rank ''submitter''" "valid_submit b" "validate_body_credentials (su_credentials b) \<noteq> []"
    | (fine) "?role \<ge> rank ''submitter''" "valid_submit b" "validate_body_credentials (su_credentials b) = []"
    by linarith
  then show ?thesis
  proof cases
    case fine
    define a where "a = submit_args_of cf rq b"
    have ks: "set (od_keys (su_credentials b)) \<subseteq> set ALLOWED_ENV_NAMES"
      using arg_cong [where f = set, OF fine(3)] by (auto simp: validate_body_credentials_def)
    show ?thesis
    proof (cases "build_spec (path_text e) (su_spec b)")
      case (Inl x)
      then show ?thesis using assms(2) fine same by (auto simp: submit_session_def require_submitter answer_defs)
    next
      case (Inr sp)
      obtain res c1 where su: "submit e sid now sp a (m, []) = (res, c1)" by (rule prod.exhaust)
      show ?thesis
      proof (cases res)
        case (Inl x)
        have "(case x of MissingCredentialsError \<Rightarrow> (missing_credentials a, reject_missing e (owner_or_anon (rq_label rq)) (sa_actor_role a) ''-'' [] c1)
          | CredentialsLookupUnavailable \<Rightarrow> (lookup_unavailable a, reject_unavailable e (owner_or_anon (rq_label rq)) ''-'' [] c1)
          | ShuttingDown \<Rightarrow> (detail 503 (exn_text e ShuttingDown), c1)
          | _ \<Rightarrow> (server_error, c1)) = (r, (m', fs))"
          using assms(2) fine Inr su Inl by (cases x) (simp_all add: submit_session_def require_submitter a_def [symmetric] Let_def)
        then have "http_code r \<in> {400, 500, 503} \<and> (\<exists>as. m' = m\<lparr>m_audits := as\<rparr>)"
          by (rule refused_keeps [OF assms(1) su [unfolded Inl]])
        then show ?thesis by blast
      next
        case (Inr s)
        then obtain m1 row frs where g: "s = sid" "c1 = (m1, [])" "sessions (m_db m1) = sessions (m_db m) @ [row]" "s_id row = sid" "s_status row = ''queued''"
            "s_owner row = sa_owner a" "s_description row = sa_description a" "running_tasks m1 = add_new sid (running_tasks m)"
            "manager_get sid 100 0 (m1, []) = (Inr \<lparr>d_row = row, d_state = QUEUED, d_frames = frs\<rparr>, (m1, []))"
          using submitted_described [OF assms(1)] su by metis
        have ad: "sa_owner a = Some (submit_owner b rq)" "sa_description a = su_description b"
          using valid_description(1) [OF fine(2)] by (simp_all add: a_def submit_args_of_def)
        have "r = Answer 202 (detail_out \<lparr>d_row = row, d_state = QUEUED, d_frames = frs\<rparr>, [])" "m' = m1"
          using assms(2) fine \<open>build_spec (path_text e) (su_spec b) = Inr sp\<close> su Inr g(1,2,9) valid_description(2)
          by (auto simp: submit_session_def require_submitter a_def [symmetric] Let_def)
        then show ?thesis using fine ks g ad by auto
      qed
    qed
  qed (use assms(2) same in \<open>auto simp: submit_session_def require_submitter answer_defs\<close>)
qed

definition demo_body :: submit_in where
  "demo_body = \<lparr>su_spec = \<lparr>si_prompt = ''p'', si_cwd = ''/w'', si_profile = Some ''core'', si_modules = [], si_skills = [], si_with = [], si_without = [],
       si_extra_env = [], si_pre_run = [], si_executor = ''inprocess'', si_timeout = 60, si_tags = []\<rparr>,
     su_credentials = [], su_trace_id = None, su_owner = None, su_description = None\<rparr>"

theorem submit_all_or_nothing_witness:
  "\<exists>r m' fs row. submit_session Manager_Calls.demo_env (te_config demo_team_env) (demo_caller ''alice'') ''n'' 3 demo_body
        (init_mgr 1 demo_store (init_coord True) [], []) = (r, (m', fs))
     \<and> http_code r = 202 \<and> sessions (m_db m') = sessions demo_store @ [row] \<and> s_owner row = Some ''alice''"
proof -
  let ?m = "init_mgr 1 demo_store (init_coord True) []"
  obtain r m' fs where s: "submit_session Manager_Calls.demo_env (te_config demo_team_env) (demo_caller ''alice'') ''n'' 3 demo_body (?m, []) = (r, (m', fs))"
    by (metis surj_pair)
  have acc: "accepting Manager_Calls.demo_env" by (simp add: accepting_def Manager_Calls.demo_env_def)
  have code: "http_code (fst (submit_session Manager_Calls.demo_env (te_config demo_team_env) (demo_caller ''alice'') ''n'' 3 demo_body (?m, []))) = 202"
    by code_simp
  have "submit_owner demo_body (demo_caller ''alice'') = ''alice''" by code_simp
  then show ?thesis
    using submit_all_or_nothing [OF acc s] s code by (auto simp: init_mgr_def)
qed

text \<open>
  The check of the body's credential names is meant to stop a body that only redirects the API host; the name it
  is about is on the list.
\<close>

lemma base_url_passes: "validate_body_credentials [(''ANTHROPIC_BASE_URL'', v)] = []"
  by (simp add: validate_body_credentials_def ALLOWED_ENV_NAMES_def)

text \<open>A manifest that names nothing passes the schema and is answered 500.\<close>

lemma empty_manifest_500:
  "http_code (fst (submit_session e (te_config demo_team_env) (demo_caller ''alice'') sid now
     (demo_body\<lparr>su_spec := (su_spec demo_body)\<lparr>si_profile := None\<rparr>\<rparr>) c)) = 500"
proof -
  have "rank ''submitter'' \<le> rank (fst (resolve_role (te_config demo_team_env) (demo_caller ''alice'')))" by code_simp
  then show ?thesis
    by (simp add: submit_session_def require_submitter demo_body_def valid_submit_def validate_pre_run_cmds_def enforce_pre_run_executor_def
        text_within_def validate_body_credentials_def build_spec_def make_manifest_def bind_sum_def answer_defs)
qed

text \<open>When the bus drops the creation event the answer is 500, but the row stays queued and no task will run it.\<close>

lemma dropped_event_orphans:
  "let (r, c') = submit_session (Manager_Calls.demo_env\<lparr>pub := (\<lambda>ev b. (False, b))\<rparr>) (te_config demo_team_env) (demo_caller ''alice'') ''n'' 3 demo_body
        (init_mgr 1 demo_store (init_coord True) [], [])
   in http_code r = 500 \<and> map_option s_status (get_session ''n'' (m_db (fst c'))) = Some ''queued'' \<and> running_tasks (fst c') = []"
  by code_simp

section \<open>Search and batches stay with the caller's own sessions\<close>

lemma cursor_page_rows:
  assumes "cursor_page cd fh sel limit after db = Inr (rows, next)"
  shows "set rows \<subseteq> {r \<in> set (sessions db). sel r} \<and> length rows \<le> limit"
proof -
  obtain anchor nx where "page session_key sel limit anchor (sessions db) = (rows, nx)"
    using assms by (auto simp: cursor_page_def Let_def split: sum.splits prod.splits)
  then show ?thesis by (auto simp: page_def Let_def dest!: in_set_takeD)
qed

text \<open>
  C16: a caller below admin who carries a label finds, whatever the filter, only sessions of the table that are owned under that label and match
  the filter, at most the limit; a filter for another owner is answered 403.
\<close>
theorem search_scoped:
  assumes "rq_label rq = Some l" and "\<not> admin_rank cf rq"
    and "search_sessions_route e se cf rq f after limit (m, []) = (r, c')"
  shows "(\<forall>items next. r = Answer 200 (items, next) \<longrightarrow> length items \<le> limit \<and>
            (\<forall>it \<in> set items. it_owner it = Some l \<and>
               (\<exists>row \<in> set (sessions (m_db m)). it = search_item_of e row \<and> s_owner row = Some l
                  \<and> search_selects (se_ci se) (se_spec_text se) (se_tags_text se) f row)))
     \<and> (q_owner f \<notin> {None, Some l} \<longrightarrow> http_code r \<in> {403, 422}) \<and> m_db (fst c') = m_db m"
proof -
  have db: "m_db (fst c') = m_db m"
    using assms(3) by (auto simp: search_sessions_route_def Let_def split: if_splits sum.splits prod.splits store_exn.splits)
  have no: "q_owner f \<notin> {None, Some l} \<longrightarrow> http_code r \<in> {403, 422}"
    using assms by (auto simp: search_sessions_route_def answer_defs forbidden_owner_def split: if_splits)
  have "length items \<le> limit \<and> (\<forall>it \<in> set items. it_owner it = Some l \<and>
      (\<exists>row \<in> set (sessions (m_db m)). it = search_item_of e row \<and> s_owner row = Some l
         \<and> search_selects (se_ci se) (se_spec_text se) (se_tags_text se) f row))"
    if r: "r = Answer 200 (items, next)" for items "next"
  proof -
    obtain rows where rows: "search_sessions (se_codec se) (se_hash se) (se_ci se) (se_spec_text se) (se_tags_text se) (f\<lparr>q_owner := Some l\<rparr>) limit after (m_db m)
        = Inr (rows, next)" "items = map (search_item_of e) rows"
      using assms r by (auto simp: search_sessions_route_def Let_def answer_defs forbidden_owner_def split: if_splits sum.splits prod.splits store_exn.splits)
    have own: "q_owner f = None \<or> q_owner f = Some l"
      using assms r by (auto simp: search_sessions_route_def answer_defs forbidden_owner_def split: if_splits)
    have sel: "search_selects ci st tt (f\<lparr>q_owner := Some l\<rparr>) row \<longleftrightarrow> s_owner row = Some l \<and> search_selects ci st tt f row" for ci st tt row
      using own by (auto simp: search_selects_def)
    show ?thesis
      using cursor_page_rows [OF rows(1) [unfolded search_sessions_def]] rows(2) by (auto simp: sel search_item_of_def)
  qed
  then show ?thesis using db no by blast
qed

text \<open>Without a label the forced filter is empty, and the caller sees everything.\<close>

lemma search_without_label:
  assumes "rq_label rq = None" "q_owner f = None" "admin_rank cf boss"
  shows "search_sessions_route e se cf rq f after limit c = search_sessions_route e se cf boss f after limit c"
proof -
  have eq: "f\<lparr>q_owner := None\<rparr> = f" using assms(2) by (cases f) simp
  show ?thesis using assms by (simp add: search_sessions_route_def Let_def eq)
qed

text \<open>What a batch of cancellations reports for an id.\<close>

definition cancel_item :: "resolver_cfg option \<Rightarrow> request \<Rightarrow> store \<Rightarrow> string \<Rightarrow> session_item" where
  "cancel_item cf rq db sid = (case get_session sid db of
     None \<Rightarrow> item_missing sid
   | Some row \<Rightarrow> if \<not> admin_rank cf rq \<and> s_owner row \<noteq> Some (caller rq)
       then item_error sid ''forbidden_cancel'' ''not session owner; admin role required for cross-owner cancel'' else item_ok sid None)"

lemma cancel_Nil:
  "\<exists>m'. cancel e sid reason (m, []) = (m', []) \<and> m_db m' = m_db m \<and> running_tasks m' = running_tasks m
     \<and> cancel_requested m' = (if sid \<in> set (running_tasks m) then add_new sid (cancel_requested m) else cancel_requested m)
     \<and> paused_set m' = discard sid (paused_set m)"
proof -
  obtain as where as: "audit_record e (owner_of sid m) ''session_cancel'' sid [(PStr ''reason'', PStr reason)] (m, []) = (m\<lparr>m_audits := as\<rparr>, [])"
    using audit_Nil by blast
  have "discard sid (paused_set m) = paused_set m" if "sid \<notin> set (paused_set m)"
    using that by (auto simp: discard_def filter_id_conv)
  then show ?thesis
    by (auto simp: cancel_def as modify_def cancel_bookkeeping_def request_cancel_def deny_pending_def cancel_paused_timer_def
        release_pause_bookkeeping_def Let_def split: option.splits)
qed

lemma add_new_set [simp]: "set (add_new x xs) = insert x (set xs)"
  by (auto simp: add_new_def)

lemma batch_cancel_items:
  "\<exists>m'. batch_items e cf rq BatchCancel reason n now ids (m, []) = (map (cancel_item cf rq (m_db m)) (map fst ids), (m', []))
     \<and> m_db m' = m_db m \<and> running_tasks m' = running_tasks m
     \<and> set (cancel_requested m') = set (cancel_requested m)
          \<union> {sid \<in> fst ` set ids. sid \<in> set (running_tasks m) \<and> xi_ok (cancel_item cf rq (m_db m) sid)}
     \<and> set (paused_set m') = set (paused_set m) - {sid \<in> fst ` set ids. xi_ok (cancel_item cf rq (m_db m) sid)}"
proof (induction ids arbitrary: m)
  case Nil
  show ?case by simp
next
  case (Cons x ids)
  obtain sid ns where x: "x = (sid, ns)" by (cases x)
  show ?case
  proof (cases "xi_ok (cancel_item cf rq (m_db m) sid)")
    case False
    have "batch_items e cf rq BatchCancel reason n now (x # ids) (m, [])
        = apfst ((#) (cancel_item cf rq (m_db m) sid)) (batch_items e cf rq BatchCancel reason n now ids (m, []))"
      using False x by (cases "get_session sid (m_db m)")
        (auto simp: cancel_item_def batch_cancel_one_def item_ok_def split: prod.splits if_splits)
    then show ?thesis
      using Cons.IH [of m] False x by auto
  next
    case True
    then obtain row where row: "get_session sid (m_db m) = Some row" "cancel_item cf rq (m_db m) sid = item_ok sid None"
        "admin_rank cf rq \<or> s_owner row = Some (caller rq)"
      by (auto simp: cancel_item_def item_missing_def item_error_def split: option.splits if_splits)
    obtain m1 where m1: "cancel e sid (the (truthy_or reason (Some ''batch_cancel''))) (m, []) = (m1, [])" "m_db m1 = m_db m" "running_tasks m1 = running_tasks m"
        "cancel_requested m1 = (if sid \<in> set (running_tasks m) then add_new sid (cancel_requested m) else cancel_requested m)"
        "paused_set m1 = discard sid (paused_set m)"
      using cancel_Nil by metis
    obtain as where as: "audit_record e (caller rq) ''session_batch_cancel'' sid [(PStr ''reason'', opt_text reason), (PStr ''batch_size'', PInt (int n))] (m1, [])
        = (m1\<lparr>m_audits := as\<rparr>, [])" using audit_Nil by blast
    have one: "batch_cancel_one e cf rq reason n sid row (m, []) = (item_ok sid None, (m1\<lparr>m_audits := as\<rparr>, []))"
      using row(3) m1(1) as by (auto simp: batch_cancel_one_def)
    have "batch_items e cf rq BatchCancel reason n now (x # ids) (m, [])
        = apfst ((#) (cancel_item cf rq (m_db m) sid)) (batch_items e cf rq BatchCancel reason n now ids (m1\<lparr>m_audits := as\<rparr>, []))"
      using x one row by (simp split: prod.splits)
    then show ?thesis
      using Cons.IH [of "m1\<lparr>m_audits := as\<rparr>"] x m1(2-5) True by (auto simp: discard_def)
  qed
qed

text \<open>
  C17: a batch of cancellations by a submitter or admin, with no other task in between, answers 200 with one entry per id in the order given: not found, forbidden for a
  session somebody else owns unless the caller is admin, else ok; the two counts add up to the number of ids. Exactly the running
  sessions with an ok entry are asked to stop and exactly those entries leave the paused set; no row of the store changes.
\<close>
theorem batch_cancel_exact:
  assumes "rank (fst (resolve_role cf rq)) \<ge> rank ''submitter''" and "ids \<noteq> []" and "length ids \<le> 100" and "text_within 0 200 reason"
  shows "\<exists>m' ok err. batch_sessions e cf rq BatchCancel reason now ids (m, [])
      = (Answer 200 (map (cancel_item cf rq (m_db m)) (map fst ids), ok, err), (m', []))
     \<and> ok + err = length ids \<and> m_db m' = m_db m
     \<and> set (cancel_requested m') = set (cancel_requested m) \<union> {sid \<in> fst ` set ids. sid \<in> set (running_tasks m)
          \<and> (\<exists>row. get_session sid (m_db m) = Some row \<and> (admin_rank cf rq \<or> s_owner row = Some (caller rq)))}
     \<and> set (paused_set m') = set (paused_set m) - {sid \<in> fst ` set ids.
          \<exists>row. get_session sid (m_db m) = Some row \<and> (admin_rank cf rq \<or> s_owner row = Some (caller rq))}"
proof -
  let ?items = "map (cancel_item cf rq (m_db m)) (map fst ids)"
  obtain m' where m': "batch_items e cf rq BatchCancel reason (length ids) now ids (m, []) = (?items, (m', []))" "m_db m' = m_db m"
      "set (cancel_requested m') = set (cancel_requested m)
          \<union> {sid \<in> fst ` set ids. sid \<in> set (running_tasks m) \<and> xi_ok (cancel_item cf rq (m_db m) sid)}"
      "set (paused_set m') = set (paused_set m) - {sid \<in> fst ` set ids. xi_ok (cancel_item cf rq (m_db m) sid)}"
    using batch_cancel_items [of e cf rq reason "length ids" now ids m] by blast
  have ok: "xi_ok (cancel_item cf rq (m_db m) sid)
      \<longleftrightarrow> (\<exists>row. get_session sid (m_db m) = Some row \<and> (admin_rank cf rq \<or> s_owner row = Some (caller rq)))" for sid
    by (auto simp: cancel_item_def item_missing_def item_error_def item_ok_def split: option.splits)
  have sum: "length (filter xi_ok its) + length (filter (\<lambda>i. \<not> xi_ok i) its) = length its" for its
    using sum_length_filter_compl [of xi_ok its] by simp
  have "batch_sessions e cf rq BatchCancel reason now ids (m, [])
      = (Answer 200 (?items, length (filter xi_ok ?items), length (filter (\<lambda>i. \<not> xi_ok i) ?items)), (m', []))"
    using assms m'(1) by (simp add: batch_sessions_def require_submitter Suc_le_eq)
  moreover have "length (filter xi_ok ?items) + length (filter (\<lambda>i. \<not> xi_ok i) ?items) = length ids"
    using sum [of ?items] by simp
  ultimately show ?thesis using m'(2-4) unfolding ok by blast
qed

definition demo_search :: search_env where
  "demo_search = \<lparr>se_codec = demo_codec, se_hash = (\<lambda>_. []), se_ci = True, se_spec_text = (\<lambda>_. []), se_tags_text = (\<lambda>_. [])\<rparr>"

definition any_filter :: search_filter where
  "any_filter = \<lparr>q_text = None, q_owner = None, q_tags = [], q_status = [], q_after_ts = None, q_before_ts = None\<rparr>"

theorem search_scoped_witness:
  "\<exists>items next c'. search_sessions_route Manager_Calls.demo_env demo_search (te_config demo_team_env) (demo_caller ''ann'') any_filter None 10
        (init_mgr 1 demo_store (init_coord True) [], []) = (Answer 200 (items, next), c')
     \<and> list_all (\<lambda>it. it_owner it = Some ''ann'') items \<and> map it_id items = [''b'']"
proof -
  let ?r = "search_sessions_route Manager_Calls.demo_env demo_search (te_config demo_team_env) (demo_caller ''ann'') any_filter None 10
        (init_mgr 1 demo_store (init_coord True) [], [])"
  have ev: "(case ?r of (Answer st (items, next), c') \<Rightarrow> st = 200 \<and> map it_id items = [''b''] | _ \<Rightarrow> False)" by code_simp
  obtain items "next" c' where r: "?r = (Answer 200 (items, next), c')" and ids: "map it_id items = [''b'']"
    using ev by (auto split: prod.splits answer.splits)
  have a: "rq_label (demo_caller ''ann'') = Some ''ann''" by (simp add: demo_caller_def)
  have n: "\<not> admin_rank (te_config demo_team_env) (demo_caller ''ann'')" by code_simp
  show ?thesis
    using search_scoped [OF a n r] r ids by (auto simp: list_all_iff)
qed

theorem batch_cancel_exact_witness:
  "\<exists>m' ok err. batch_sessions Manager_Calls.demo_env (te_config demo_team_env) (demo_caller ''alice'') BatchCancel None 9 [(''b'', []), (''zz'', [])]
        (init_mgr 1 demo_store (init_coord True) [], [])
      = (Answer 200 ([item_error ''b'' ''forbidden_cancel'' ''not session owner; admin role required for cross-owner cancel'', item_missing ''zz''], ok, err), (m', []))
     \<and> ok + err = 2 \<and> m_db m' = demo_store"
proof -
  have "rank (fst (resolve_role (te_config demo_team_env) (demo_caller ''alice''))) \<ge> rank ''submitter''" by code_simp
  moreover have "map (cancel_item (te_config demo_team_env) (demo_caller ''alice'') demo_store) [''b'', ''zz'']
      = [item_error ''b'' ''forbidden_cancel'' ''not session owner; admin role required for cross-owner cancel'', item_missing ''zz'']" by code_simp
  ultimately show ?thesis
    using batch_cancel_exact [of "te_config demo_team_env" "demo_caller ''alice''" "[(''b'', []), (''zz'', [])]" None Manager_Calls.demo_env 9
        "init_mgr 1 demo_store (init_coord True) []"]
    by (auto simp: text_within_def init_mgr_def)
qed

text \<open>
  Deleting an unknown session is documented to answer 202 always; for a caller who is not an admin the ownership check
  answers 404 first.
\<close>

lemma delete_unknown_refused:
  assumes "get_session sid (m_db (fst c)) = None" and "rq_label rq = Some l" and "\<not> admin_rank cf rq"
  shows "http_code (fst (delete_session_route e cf rq sid c)) = 404"
proof -
  have "rank (fst (resolve_role cf rq)) < rank ''admin''" using assms(3) by (simp add: admin_rank_def)
  moreover have "rq_label (snd (resolve_role cf rq)) = Some l"
    using assms(2) by (auto simp: resolve_role_def Let_def split: option.splits)
  ultimately show ?thesis
    using assms(1) by (auto simp: delete_session_route_def with_own_session_def require_role_or_own_session_def require_role_def
        ROLE_HIERARCHY_def http_code_def Let_def split: prod.splits)
qed

text \<open>The 409 of a session that is not running carries no code, and a refusal by the runner is answered 500.\<close>

lemma pause_answers:
  "control_error e SessionNotRunning = HttpError 409 (PDict [(PStr ''detail'', PStr (exn_text e SessionNotRunning))]) []"
  "http_code (control_error e ControlRefused) = 500"
  by (simp_all add: control_error_def answer_defs)

end
