(* ===== verification/User_Credentials.thy ===== *)
theory User_Credentials
  imports Sessions_Api
begin

text \<open>
  Per-user upstream credentials: the encrypted table of \<open>store/user_credentials.py\<close> and the endpoints of
  \<open>api/routers/user_credentials.py\<close>. Fernet is a parameter: an encryption, a decryption that may
  fail, and the fingerprint of the key. Masked text is a list of bullets and plain characters.
\<close>

section \<open>The table\<close>

record cred_row =
  cr_id :: nat
  cr_user :: string
  cr_env :: string
  cr_value :: string
  cr_fp :: string
  cr_created_at :: int
  cr_updated_at :: int
  cr_by :: string
  cr_notes :: "string option"

record cipher =
  fingerprint :: string
  encrypt :: "string \<Rightarrow> string"
  decrypt :: "string \<Rightarrow> string option"

text \<open>The fingerprint is the start of the key's digest.\<close>

definition compute_key_fingerprint :: "(string \<Rightarrow> string) \<Rightarrow> string \<Rightarrow> string" where
  "compute_key_fingerprint sha256_hex key = take 16 (sha256_hex key)"

definition build_fernet_from_key ::
    "(string \<Rightarrow> ((string \<Rightarrow> string) \<times> (string \<Rightarrow> string option)) option) \<Rightarrow> (string \<Rightarrow> string) \<Rightarrow> string option \<Rightarrow> py_exn + cipher option" where
  "build_fernet_from_key fernet sha256_hex raw = (case raw of
     None \<Rightarrow> Inr None
   | Some key \<Rightarrow> if key = [] then Inr None
       else (case fernet key of
               None \<Rightarrow> Inl ValueError
             | Some (en, de) \<Rightarrow> Inr (Some \<lparr>fingerprint = compute_key_fingerprint sha256_hex key, encrypt = en, decrypt = de\<rparr>)))"

definition row_of :: "string \<Rightarrow> string \<Rightarrow> cred_row \<Rightarrow> bool" where
  "row_of user env r \<longleftrightarrow> cr_user r = user \<and> cr_env r = env"

definition readable :: "cipher \<Rightarrow> cred_row \<Rightarrow> string option" where
  "readable k r = (if cr_fp r \<noteq> fingerprint k then None else decrypt k (cr_value r))"

text \<open>Rows that cannot be read are skipped; the rest is returned in the order of the table.\<close>

definition get_for_user :: "cipher option \<Rightarrow> string \<Rightarrow> cred_row list \<Rightarrow> (string, string) od" where
  "get_for_user ko label rows = (case ko of
     None \<Rightarrow> []
   | Some k \<Rightarrow> if label = [] then []
       else foldl (\<lambda>d r. case readable k r of None \<Rightarrow> d | Some v \<Rightarrow> AList.update (cr_env r) v d) [] (filter (\<lambda>r. cr_user r = label) rows))"

definition list_for_user :: "string \<Rightarrow> cred_row list \<Rightarrow> cred_row list" where
  "list_for_user label rows = sort_key cr_env (filter (\<lambda>r. cr_user r = label) rows)"

definition list_all_rows :: "cred_row list \<Rightarrow> cred_row list" where
  "list_all_rows rows = sort_key (\<lambda>r. (cr_user r, cr_env r)) rows"

definition list_bricked :: "cipher option \<Rightarrow> cred_row list \<Rightarrow> cred_row list" where
  "list_bricked ko rows = sort_key (\<lambda>r. (cr_user r, cr_env r))
     (case ko of None \<Rightarrow> rows | Some k \<Rightarrow> filter (\<lambda>r. cr_fp r \<noteq> fingerprint k) rows)"

text \<open>
  \<open>upsert\<close>: a new row, or the old one with its id and creation time kept. The caller gets the row read back.
\<close>

definition upsert ::
    "cipher \<Rightarrow> (nat list \<Rightarrow> nat) \<Rightarrow> int \<Rightarrow> string \<Rightarrow> string \<Rightarrow> string \<Rightarrow> string \<Rightarrow> string option \<Rightarrow> cred_row list \<Rightarrow> cred_row option \<times> cred_row list" where
  "upsert k alloc now user env value actor comment rows =
     (let rows1 = (if \<exists>r \<in> set rows. row_of user env r
          then update_where (row_of user env)
                 (\<lambda>r. r\<lparr>cr_value := encrypt k value, cr_fp := fingerprint k, cr_updated_at := now, cr_by := actor, cr_notes := comment\<rparr>) rows
          else rows @ [\<lparr>cr_id = alloc (map cr_id rows), cr_user = user, cr_env = env, cr_value = encrypt k value, cr_fp = fingerprint k,
                        cr_created_at = now, cr_updated_at = now, cr_by = actor, cr_notes = comment\<rparr>])
      in (find (row_of user env) rows1, rows1))"

definition delete_row :: "string \<Rightarrow> string \<Rightarrow> cred_row list \<Rightarrow> bool \<times> cred_row list" where
  "delete_row user env rows = ((\<exists>r \<in> set rows. row_of user env r), filter (\<lambda>r. \<not> row_of user env r) rows)"

section \<open>Masking\<close>

datatype glyph = Bullet | Plain char

definition MASK_VISIBLE_TAIL :: nat where "MASK_VISIBLE_TAIL = 4"

definition MASK_PREFIX_DOTS :: nat where "MASK_PREFIX_DOTS = 8"

definition mask_credential_value :: "string option \<Rightarrow> glyph list" where
  "mask_credential_value v = (case v of
     None \<Rightarrow> []
   | Some s \<Rightarrow> if length s \<le> MASK_VISIBLE_TAIL then replicate (length s) Bullet
       else replicate MASK_PREFIX_DOTS Bullet @ map Plain (drop (length s - MASK_VISIBLE_TAIL) s))"

definition length_class :: "string \<Rightarrow> string" where
  "length_class v = (let n = length v in
     if n \<le> 32 then ''short'' else if n \<le> 128 then ''medium'' else if n \<le> 1024 then ''long'' else ''huge'')"

section \<open>Endpoints\<close>

record cred_env =
  ce_cipher :: "cipher option"
  ce_alloc :: "nat list \<Rightarrow> nat"
  ce_now :: int
  ce_iso :: "int \<Rightarrow> string"
  ce_audit :: "bool option"
  ce_config :: "resolver_cfg option"

record cred_world =
  cw_rows :: "cred_row list"
  cw_team :: team

definition project_metadata :: "cred_env \<Rightarrow> cred_row \<Rightarrow> pydict" where
  "project_metadata e r =
     [(PStr ''id'', PInt (int (cr_id r))), (PStr ''user_label'', PStr (cr_user r)), (PStr ''env_name'', PStr (cr_env r)),
      (PStr ''key_fingerprint'', PStr (cr_fp r)), (PStr ''created_at'', PStr (ce_iso e (cr_created_at r))),
      (PStr ''updated_at'', PStr (ce_iso e (cr_updated_at r))), (PStr ''created_by_label'', PStr (cr_by r)),
      (PStr ''notes'', opt_text (cr_notes r))]"

definition project_bricked :: "cred_env \<Rightarrow> cred_row \<Rightarrow> pydict" where
  "project_bricked e r =
     [(PStr ''id'', PInt (int (cr_id r))), (PStr ''user_label'', PStr (cr_user r)), (PStr ''env_name'', PStr (cr_env r)),
      (PStr ''key_fingerprint'', PStr (cr_fp r)), (PStr ''updated_at'', PStr (ce_iso e (cr_updated_at r)))]"

definition env_name_refused :: "string \<Rightarrow> 'a answer" where
  "env_name_refused env = failure 400
     (''env_name '' @ quoted env @ '' is not in the allowed list; runtime env-var injection is rejected to prevent PATH/LD_PRELOAD smuggling attacks'')
     ''env_name_not_allowed'' [(PStr ''allowed'', PList (map PStr (sort ALLOWED_ENV_NAMES)))]"

definition feature_disabled :: "'a answer" where
  "feature_disabled = failure 503
     ''per-user upstream credentials feature is disabled; set RELAY_CREDENTIALS_ENCRYPTION_KEY to enable'' ''user_credentials_disabled'' []"

text \<open>The audit write is not guarded: when it raises, the answer is 500.\<close>

definition then_audit ::
    "cred_env \<Rightarrow> string \<Rightarrow> string \<Rightarrow> string \<Rightarrow> pydict \<Rightarrow> 'a answer \<Rightarrow> cred_world \<Rightarrow> 'a answer \<times> cred_world" where
  "then_audit e actor action target meta ans w = (case ce_audit e of
     None \<Rightarrow> (ans, w)
   | Some False \<Rightarrow> (Crash RuntimeError, w)
   | Some True \<Rightarrow> (ans, w\<lparr>cw_team := snd (record_audit (ce_alloc e) (ce_now e) actor action (Some ''user_credential'') (Some target) meta None (cw_team w))\<rparr>))"

definition upsert_route ::
    "cred_env \<Rightarrow> bool \<Rightarrow> string \<Rightarrow> string \<Rightarrow> string \<Rightarrow> string \<Rightarrow> string option \<Rightarrow> cred_world \<Rightarrow> pydict answer \<times> cred_world" where
  "upsert_route e self actor user env value comment w =
     (if \<not> (text_within 1 4096 (Some value) \<and> text_within 0 512 comment) then (unprocessable, w)
      else if env \<notin> set ALLOWED_ENV_NAMES then (env_name_refused env, w)
      else (case ce_cipher e of
          None \<Rightarrow> (feature_disabled, w)
        | Some k \<Rightarrow>
            (case upsert k (ce_alloc e) (ce_now e) user env value actor comment (cw_rows w) of (row, rows1) \<Rightarrow>
               then_audit e actor (if self then ''user_credential_upsert'' else ''user_credential_admin_upsert'') (user @ ''/'' @ env)
                 ([(PStr ''env_name'', PStr env), (PStr ''value_length_class'', PStr (length_class value)), (PStr ''self_service'', PBool self)]
                    @ (if self then [] else [(PStr ''victim_label'', PStr user)]))
                 (Answer 200 (case row of None \<Rightarrow> [] | Some r \<Rightarrow> project_metadata e r)) (w\<lparr>cw_rows := rows1\<rparr>))))"

definition delete_route :: "cred_env \<Rightarrow> bool \<Rightarrow> string \<Rightarrow> string \<Rightarrow> string \<Rightarrow> cred_world \<Rightarrow> pydict answer \<times> cred_world" where
  "delete_route e self actor user env w =
     (if env \<notin> set ALLOWED_ENV_NAMES then (env_name_refused env, w)
      else if ce_cipher e = None then (feature_disabled, w)
      else (case delete_row user env (cw_rows w) of (removed, rows1) \<Rightarrow>
        then_audit e actor (if self then ''user_credential_delete'' else ''user_credential_admin_delete'') (user @ ''/'' @ env)
          ([(PStr ''env_name'', PStr env), (PStr ''row_removed'', PBool removed), (PStr ''self_service'', PBool self)]
             @ (if self then [] else [(PStr ''victim_label'', PStr user)]))
          (Answer 204 []) (w\<lparr>cw_rows := rows1\<rparr>)))"

definition admin_label :: "request \<Rightarrow> string" where
  "admin_label rq = (case rq_label rq of Some l \<Rightarrow> if l = [] then ''admin'' else l | None \<Rightarrow> ''admin'')"

definition list_my_credentials :: "cred_env \<Rightarrow> request \<Rightarrow> cred_world \<Rightarrow> (string \<times> pydict list) answer \<times> cred_world" where
  "list_my_credentials e rq w = with_role ''submitter'' (ce_config e) rq w (\<lambda>w.
     if ce_cipher e = None then (feature_disabled, w)
     else (Answer 200 (caller rq, map (project_metadata e) (list_for_user (caller rq) (cw_rows w))), w))"

definition upsert_my_credential ::
    "cred_env \<Rightarrow> request \<Rightarrow> string \<Rightarrow> string \<Rightarrow> string option \<Rightarrow> cred_world \<Rightarrow> pydict answer \<times> cred_world" where
  "upsert_my_credential e rq env value comment w = with_role ''submitter'' (ce_config e) rq w
     (upsert_route e True (caller rq) (caller rq) env value comment)"

definition delete_my_credential :: "cred_env \<Rightarrow> request \<Rightarrow> string \<Rightarrow> cred_world \<Rightarrow> pydict answer \<times> cred_world" where
  "delete_my_credential e rq env w = with_role ''submitter'' (ce_config e) rq w (delete_route e True (caller rq) (caller rq) env)"

definition list_all_credentials :: "cred_env \<Rightarrow> request \<Rightarrow> cred_world \<Rightarrow> pydict list answer \<times> cred_world" where
  "list_all_credentials e rq w = with_role ''admin'' (ce_config e) rq w (\<lambda>w.
     if ce_cipher e = None then (feature_disabled, w) else (Answer 200 (map (project_metadata e) (list_all_rows (cw_rows w))), w))"

definition list_bricked_credentials :: "cred_env \<Rightarrow> request \<Rightarrow> cred_world \<Rightarrow> pydict list answer \<times> cred_world" where
  "list_bricked_credentials e rq w = with_role ''admin'' (ce_config e) rq w (\<lambda>w.
     if ce_cipher e = None then (feature_disabled, w) else (Answer 200 (map (project_bricked e) (list_bricked (ce_cipher e) (cw_rows w))), w))"

definition upsert_user_credential ::
    "cred_env \<Rightarrow> request \<Rightarrow> string \<Rightarrow> string \<Rightarrow> string \<Rightarrow> string option \<Rightarrow> cred_world \<Rightarrow> pydict answer \<times> cred_world" where
  "upsert_user_credential e rq user env value comment w = with_role ''admin'' (ce_config e) rq w
     (upsert_route e False (admin_label rq) user env value comment)"

definition delete_user_credential :: "cred_env \<Rightarrow> request \<Rightarrow> string \<Rightarrow> string \<Rightarrow> cred_world \<Rightarrow> pydict answer \<times> cred_world" where
  "delete_user_credential e rq user env w = with_role ''admin'' (ce_config e) rq w (delete_route e False (admin_label rq) user env)"

section \<open>The table is a map from users and names to values\<close>

definition unique_rows :: "cred_row list \<Rightarrow> bool" where
  "unique_rows rows \<longleftrightarrow> distinct (map (\<lambda>r. (cr_user r, cr_env r)) rows)"

definition vault :: "cipher \<Rightarrow> cred_row list \<Rightarrow> string \<times> string \<Rightarrow> string option" where
  "vault k rows = (\<lambda>(user, env). Option.bind (find (row_of user env) rows) (readable k))"

lemma vault_Nil [simp]: "vault k [] ue = None"
  by (cases ue) (simp add: vault_def)

lemma vault_Cons: "vault k (r # rows) ue = (if (cr_user r, cr_env r) = ue then readable k r else vault k rows ue)"
  by (cases ue) (auto simp: vault_def row_of_def)

lemma vault_append:
  "vault k (rows @ rows') ue = (if ue \<in> (\<lambda>r. (cr_user r, cr_env r)) ` set rows then vault k rows ue else vault k rows' ue)"
  by (induction rows) (auto simp: vault_Cons)

lemma vault_absent: "ue \<notin> (\<lambda>r. (cr_user r, cr_env r)) ` set rows \<Longrightarrow> vault k rows ue = None"
  by (induction rows) (auto simp: vault_Cons)

lemma fold_readable:
  assumes "distinct (map cr_env rows)"
  shows "map_of (foldl (\<lambda>d r. case readable k r of None \<Rightarrow> d | Some v \<Rightarrow> AList.update (cr_env r) v d) d rows) env
    = (case find (\<lambda>r. cr_env r = env) rows of
         None \<Rightarrow> map_of d env
       | Some r \<Rightarrow> (case readable k r of None \<Rightarrow> map_of d env | Some v \<Rightarrow> Some v))"
  using assms
proof (induction rows arbitrary: d)
  case (Cons r rows)
  have none: "find (\<lambda>x. cr_env x = cr_env r) rows = None"
    using Cons.prems by (auto simp: find_None_iff image_iff)
  have IH: "map_of (foldl (\<lambda>d r. case readable k r of None \<Rightarrow> d | Some v \<Rightarrow> AList.update (cr_env r) v d) d' rows) env
    = (case find (\<lambda>r. cr_env r = env) rows of
         None \<Rightarrow> map_of d' env
       | Some r \<Rightarrow> (case readable k r of None \<Rightarrow> map_of d' env | Some v \<Rightarrow> Some v))" for d'
    using Cons.IH Cons.prems by simp
  show ?case
    using none by (cases "readable k r"; cases "cr_env r = env") (auto simp: IH update_conv' split: option.splits)
qed simp

lemma get_for_user_vault:
  assumes "unique_rows rows" and "label \<noteq> []"
  shows "map_of (get_for_user (Some k) label rows) env = vault k rows (label, env)"
proof -
  have d: "distinct (map cr_env (filter (\<lambda>r. cr_user r = label) rows))"
    using assms(1) by (induction rows) (auto simp: unique_rows_def image_iff)
  have "find (\<lambda>r. cr_env r = env) (filter (\<lambda>r. cr_user r = label) rows) = find (row_of label env) rows"
    by (induction rows) (auto simp: row_of_def)
  then show ?thesis
    using assms(2) by (auto simp: get_for_user_def fold_readable [OF d] vault_def split: option.splits)
qed

lemma upsert_vault:
  assumes "unique_rows rows" and "\<And>v. decrypt k (encrypt k v) = Some v"
  shows "vault k (snd (upsert k alloc now user env value actor comment rows)) = (vault k rows)((user, env) := Some value)
     \<and> unique_rows (snd (upsert k alloc now user env value actor comment rows))"
proof (cases "\<exists>r \<in> set rows. row_of user env r")
  case True
  let ?f = "\<lambda>r. r\<lparr>cr_value := encrypt k value, cr_fp := fingerprint k, cr_updated_at := now, cr_by := actor, cr_notes := comment\<rparr>"
  let ?rows = "update_where (row_of user env) ?f rows"
  have keys: "map (\<lambda>r. (cr_user r, cr_env r)) ?rows = map (\<lambda>r. (cr_user r, cr_env r)) rows"
    by (simp add: update_where_def)
  have other: "vault k ?rows ue = vault k rows ue" if "ue \<noteq> (user, env)" for ue
    using that by (induction rows) (auto simp: vault_Cons update_where_def row_of_def)
  have "vault k ?rows (user, env) = Some value"
    using True assms(2) by (induction rows) (auto simp: vault_Cons update_where_def row_of_def readable_def)
  then have "vault k ?rows = (vault k rows)((user, env) := Some value)" using other by auto
  moreover have "unique_rows ?rows" using assms(1) keys by (simp add: unique_rows_def)
  ultimately show ?thesis using True by (simp add: upsert_def Let_def)
next
  case False
  let ?r = "\<lparr>cr_id = alloc (map cr_id rows), cr_user = user, cr_env = env, cr_value = encrypt k value, cr_fp = fingerprint k,
    cr_created_at = now, cr_updated_at = now, cr_by = actor, cr_notes = comment\<rparr>"
  have app: "vault k (rows @ [?r]) ue = (if ue = (user, env) then Some value else vault k rows ue)" for ue
    using False assms(2) by (auto simp: vault_append vault_Cons row_of_def readable_def vault_absent)
  have "unique_rows (rows @ [?r])" using assms(1) False by (auto simp: unique_rows_def row_of_def)
  then show ?thesis using False app by (auto simp: upsert_def Let_def)
qed

lemma delete_vault:
  assumes "unique_rows rows"
  shows "vault k (snd (delete_row user env rows)) = (vault k rows)((user, env) := None) \<and> unique_rows (snd (delete_row user env rows))"
proof -
  have "vault k (filter (\<lambda>r. \<not> row_of user env r) rows) ue = (if ue = (user, env) then None else vault k rows ue)" for ue
    by (induction rows) (auto simp: vault_Cons row_of_def)
  moreover have "unique_rows (filter (\<lambda>r. \<not> row_of user env r) rows)"
    using assms by (simp add: unique_rows_def distinct_map_filter)
  ultimately show ?thesis by (auto simp: delete_row_def)
qed

section \<open>Requests\<close>

datatype cred_op =
    MyPut request string string "string option"
  | MyDelete request string
  | MyList request
  | AdminPut request string string string "string option"
  | AdminDelete request string string
  | AdminList request
  | AdminBricked request

fun cred_exec :: "cred_env \<Rightarrow> cred_op \<Rightarrow> cred_world \<Rightarrow> pydict list answer \<times> cred_world" where
  "cred_exec e (MyPut rq env v comment) w = map_prod (map_answer (\<lambda>d. [d])) id (upsert_my_credential e rq env v comment w)"
| "cred_exec e (MyDelete rq env) w = map_prod (map_answer (\<lambda>d. [d])) id (delete_my_credential e rq env w)"
| "cred_exec e (MyList rq) w = map_prod (map_answer snd) id (list_my_credentials e rq w)"
| "cred_exec e (AdminPut rq user env v comment) w = map_prod (map_answer (\<lambda>d. [d])) id (upsert_user_credential e rq user env v comment w)"
| "cred_exec e (AdminDelete rq user env) w = map_prod (map_answer (\<lambda>d. [d])) id (delete_user_credential e rq user env w)"
| "cred_exec e (AdminList rq) w = list_all_credentials e rq w"
| "cred_exec e (AdminBricked rq) w = list_bricked_credentials e rq w"

fun cred_run :: "cred_env \<Rightarrow> cred_op list \<Rightarrow> cred_world \<Rightarrow> pydict list answer list \<times> cred_world" where
  "cred_run e [] w = ([], w)"
| "cred_run e (opr # ops) w = (let (a, w1) = cred_exec e opr w; (as, w2) = cred_run e ops w1 in (a # as, w2))"

definition accepted_put :: "string \<Rightarrow> string \<Rightarrow> string option \<Rightarrow> bool" where
  "accepted_put env v comment \<longleftrightarrow> text_within 1 4096 (Some v) \<and> text_within 0 512 comment \<and> env \<in> set ALLOWED_ENV_NAMES"

definition has_role :: "cred_env \<Rightarrow> string \<Rightarrow> request \<Rightarrow> bool" where
  "has_role e role rq \<longleftrightarrow> rank role \<le> rank (fst (resolve_role (ce_config e) rq))"

text \<open>What a request does to the values, as a map from users and names.\<close>

fun cred_spec :: "cred_env \<Rightarrow> cred_op \<Rightarrow> (string \<times> string \<Rightarrow> string option) \<Rightarrow> (string \<times> string \<Rightarrow> string option)" where
  "cred_spec e (MyPut rq env v comment) M = (if has_role e ''submitter'' rq \<and> accepted_put env v comment then M((caller rq, env) := Some v) else M)"
| "cred_spec e (MyDelete rq env) M = (if has_role e ''submitter'' rq \<and> env \<in> set ALLOWED_ENV_NAMES then M((caller rq, env) := None) else M)"
| "cred_spec e (AdminPut rq user env v comment) M = (if has_role e ''admin'' rq \<and> accepted_put env v comment then M((user, env) := Some v) else M)"
| "cred_spec e (AdminDelete rq user env) M = (if has_role e ''admin'' rq \<and> env \<in> set ALLOWED_ENV_NAMES then M((user, env) := None) else M)"
| "cred_spec e _ M = M"

lemma role_admin: "with_role ''admin'' cf rq c handler =
    (if rank (fst (resolve_role cf rq)) < rank ''admin'' then (Refusal (Refused 403 ''insufficient_role'' None), c) else handler c)"
  by (simp add: with_role_def require_role_def ROLE_HIERARCHY_def Let_def split: prod.splits)

lemma then_audit_rows [simp]: "cw_rows (snd (then_audit e actor action target meta ans w)) = cw_rows w"
  by (simp add: then_audit_def split: option.splits bool.splits)

lemma upsert_route_rows:
  "ce_cipher e = Some k \<Longrightarrow> cw_rows (snd (upsert_route e self actor user env v comment w)) =
    (if accepted_put env v comment then snd (upsert k (ce_alloc e) (ce_now e) user env v actor comment (cw_rows w)) else cw_rows w)"
  by (auto simp: upsert_route_def accepted_put_def split: prod.splits)

lemma delete_route_rows:
  "ce_cipher e = Some k \<Longrightarrow> cw_rows (snd (delete_route e self actor user env w)) =
    (if env \<in> set ALLOWED_ENV_NAMES then snd (delete_row user env (cw_rows w)) else cw_rows w)"
  by (auto simp: delete_route_def split: prod.splits)

lemmas cred_route_defs = upsert_my_credential_def delete_my_credential_def list_my_credentials_def upsert_user_credential_def
  delete_user_credential_def list_all_credentials_def list_bricked_credentials_def require_submitter role_admin

lemma cred_exec_vault:
  assumes "ce_cipher e = Some k" and "unique_rows (cw_rows w)" and "\<And>v. decrypt k (encrypt k v) = Some v"
  shows "vault k (cw_rows (snd (cred_exec e opr w))) = cred_spec e opr (vault k (cw_rows w)) \<and> unique_rows (cw_rows (snd (cred_exec e opr w)))"
  using assms upsert_vault [OF assms(2,3)] delete_vault [OF assms(2)]
  by (cases opr) (auto simp: cred_route_defs has_role_def upsert_route_rows [OF assms(1)] delete_route_rows [OF assms(1)])

lemma cred_run_vault:
  assumes "ce_cipher e = Some k" and "\<And>v. decrypt k (encrypt k v) = Some v" and "unique_rows (cw_rows w)"
  shows "vault k (cw_rows (snd (cred_run e ops w))) = fold (cred_spec e) ops (vault k (cw_rows w)) \<and> unique_rows (cw_rows (snd (cred_run e ops w)))"
  using assms(3)
proof (induction ops arbitrary: w)
  case (Cons opr ops)
  show ?case
    using Cons.IH [of "snd (cred_exec e opr w)"] cred_exec_vault [OF assms(1) Cons.prems assms(2), of opr] by (auto split: prod.splits)
qed simp

text \<open>A request that may change the values of \<open>user\<close>: the user's own, or an administrator's about that user.\<close>

fun touches :: "cred_env \<Rightarrow> string \<Rightarrow> cred_op \<Rightarrow> bool" where
  "touches e user (MyPut rq env v comment) \<longleftrightarrow> caller rq = user"
| "touches e user (MyDelete rq env) \<longleftrightarrow> caller rq = user"
| "touches e user (AdminPut rq u env v comment) \<longleftrightarrow> u = user \<and> has_role e ''admin'' rq"
| "touches e user (AdminDelete rq u env) \<longleftrightarrow> u = user \<and> has_role e ''admin'' rq"
| "touches e user _ \<longleftrightarrow> False"

lemma spec_isolated: "list_all (\<lambda>opr. \<not> touches e user opr) ops \<Longrightarrow> fold (cred_spec e) ops M (user, env) = M (user, env)"
proof (induction ops arbitrary: M)
  case (Cons opr ops)
  have "cred_spec e opr M (user, env) = M (user, env)" using Cons.prems by (cases opr) auto
  then show ?case using Cons by simp
qed simp

text \<open>
  C14: with a key under which encrypted values decrypt to themselves, the encrypted table behaves after any sequence of credential requests as a plain map from users and
  names to values: what \<open>get_for_user\<close> hands to the manager is what the accepted requests wrote last (a put of an allowed name by a submitter for
  the caller, by an admin for anyone), and without a request by the user or by an administrator about the user nothing changes for that user.
\<close>
theorem credentials_refine:
  assumes "ce_cipher e = Some k" and "\<forall>v. decrypt k (encrypt k v) = Some v" and "unique_rows (cw_rows w)" and "user \<noteq> []"
  shows "map_of (get_for_user (ce_cipher e) user (cw_rows (snd (cred_run e ops w)))) env = fold (cred_spec e) ops (vault k (cw_rows w)) (user, env)
    \<and> (list_all (\<lambda>opr. \<not> touches e user opr) ops \<longrightarrow>
         map_of (get_for_user (ce_cipher e) user (cw_rows (snd (cred_run e ops w)))) env = map_of (get_for_user (ce_cipher e) user (cw_rows w)) env)"
proof -
  have v: "vault k (cw_rows (snd (cred_run e ops w))) = fold (cred_spec e) ops (vault k (cw_rows w))" "unique_rows (cw_rows (snd (cred_run e ops w)))"
    using cred_run_vault [OF assms(1) _ assms(3), of ops] assms(2) by auto
  then show ?thesis
    using get_for_user_vault [OF v(2) assms(4)] get_for_user_vault [OF assms(3,4)] spec_isolated [of e user ops] assms(1) by simp
qed

definition demo_cipher :: cipher where
  "demo_cipher = \<lparr>fingerprint = ''f'', encrypt = rev, decrypt = (\<lambda>s. Some (rev s))\<rparr>"

definition demo_cred_env :: cred_env where
  "demo_cred_env = \<lparr>ce_cipher = Some demo_cipher, ce_alloc = (\<lambda>ids. Suc (length ids)), ce_now = 5, ce_iso = (\<lambda>_. []), ce_audit = Some True,
     ce_config = te_config demo_team_env\<rparr>"

definition demo_cred_world :: cred_world where
  "demo_cred_world = \<lparr>cw_rows = [], cw_team = demo_tables\<rparr>"

theorem credentials_refine_witness:
  "map_of (get_for_user (ce_cipher demo_cred_env) ''alice''
      (cw_rows (snd (cred_run demo_cred_env [MyPut (demo_caller ''alice'') ''AWS_REGION'' ''eu'' None, AdminPut (demo_caller ''bob'') ''alice'' ''AWS_REGION'' ''us'' None] demo_cred_world))))
      ''AWS_REGION'' = Some ''eu''"
proof -
  have "ce_cipher demo_cred_env = Some demo_cipher" "\<forall>v. decrypt demo_cipher (encrypt demo_cipher v) = Some v"
      "unique_rows (cw_rows demo_cred_world)"
    by (simp_all add: demo_cred_env_def demo_cipher_def demo_cred_world_def unique_rows_def)
  moreover have "has_role demo_cred_env ''submitter'' (demo_caller ''alice'')" "\<not> has_role demo_cred_env ''admin'' (demo_caller ''bob'')"
    by code_simp+
  moreover have "accepted_put ''AWS_REGION'' ''eu'' None"
    by (simp add: accepted_put_def text_within_def ALLOWED_ENV_NAMES_def)
  moreover have "caller (demo_caller ''alice'') = ''alice''" by (simp add: caller_def demo_caller_def)
  ultimately show ?thesis
    using credentials_refine [of demo_cred_env demo_cipher demo_cred_world "''alice''"] by (simp del: cred_run.simps)
qed

section \<open>Values are not disclosed\<close>

definition hides :: "cred_world \<Rightarrow> cred_world \<Rightarrow> bool" where
  "hides w w' \<longleftrightarrow> cw_team w = cw_team w' \<and> map (\<lambda>r. r\<lparr>cr_value := []\<rparr>) (cw_rows w) = map (\<lambda>r. r\<lparr>cr_value := []\<rparr>) (cw_rows w')"

text \<open>The same request but for the value, whose length falls into the same class and is as acceptable.\<close>

fun alike :: "cred_op \<Rightarrow> cred_op \<Rightarrow> bool" where
  "alike (MyPut rq env v comment) opr \<longleftrightarrow> (\<exists>v'. opr = MyPut rq env v' comment \<and> length_class v = length_class v'
     \<and> text_within 1 4096 (Some v) = text_within 1 4096 (Some v'))"
| "alike (AdminPut rq user env v comment) opr \<longleftrightarrow> (\<exists>v'. opr = AdminPut rq user env v' comment \<and> length_class v = length_class v'
     \<and> text_within 1 4096 (Some v) = text_within 1 4096 (Some v'))"
| "alike opr opr' \<longleftrightarrow> opr' = opr"

abbreviation blank :: "cred_row \<Rightarrow> cred_row" where
  "blank r \<equiv> r\<lparr>cr_value := []\<rparr>"

lemma map_insort: "(\<And>x. f (g x) = f x) \<Longrightarrow> map g (insort_key f x xs) = insort_key f (g x) (map g xs)"
  by (induction xs) auto

lemma map_sort: "(\<And>x. f (g x) = f x) \<Longrightarrow> map g (sort_key f xs) = sort_key f (map g xs)"
  by (induction xs) (auto simp: map_insort)

lemma map_filter_same: "(\<And>x. P (g x) = P x) \<Longrightarrow> map g (filter P xs) = filter P (map g xs)"
  by (induction xs) auto

lemma find_map_same: "(\<And>x. P (g x) = P x) \<Longrightarrow> map_option g (find P xs) = find P (map g xs)"
  by (induction xs) auto

lemma blank_row_of [simp]: "row_of user env (blank r) = row_of user env r"
  by (simp add: row_of_def)

lemma blank_projection [simp]: "project_metadata e (blank r) = project_metadata e r" "project_bricked e (blank r) = project_bricked e r"
  by (simp_all add: project_metadata_def project_bricked_def)

lemma blank_project_map:
  assumes "map blank xs = map blank ys"
  shows "map (project_metadata e) xs = map (project_metadata e) ys" "map (project_bricked e) xs = map (project_bricked e) ys"
  using arg_cong [where f = "map (project_metadata e)", OF assms] arg_cong [where f = "map (project_bricked e)", OF assms] by (simp_all add: comp_def)

lemma blank_lists:
  assumes "map blank xs = map blank ys"
  shows "map blank (list_for_user l xs) = map blank (list_for_user l ys)"
    and "map blank (list_all_rows xs) = map blank (list_all_rows ys)"
    and "map blank (list_bricked ko xs) = map blank (list_bricked ko ys)"
  using assms by (simp_all add: list_for_user_def list_all_rows_def list_bricked_def map_sort map_filter_same split: option.splits)

lemma blank_upsert:
  assumes "map blank xs = map blank ys"
  shows "map blank (snd (upsert k al now user env v actor comment xs)) = map blank (snd (upsert k al now user env v' actor comment ys))
    \<and> map_option blank (fst (upsert k al now user env v actor comment xs)) = map_option blank (fst (upsert k al now user env v' actor comment ys))"
proof -
  have ex: "(\<exists>r \<in> set xs. row_of user env r) = (\<exists>r \<in> set ys. row_of user env r)"
    using arg_cong [where f = "\<lambda>zs. \<exists>r \<in> set zs. row_of user env r", OF assms] by simp
  have ids: "map cr_id xs = map cr_id ys"
    using arg_cong [where f = "map cr_id", OF assms] by (simp add: comp_def)
  have upd: "map blank (update_where (row_of user env) (\<lambda>r. r\<lparr>cr_value := c, cr_fp := fp, cr_updated_at := now, cr_by := actor, cr_notes := comment\<rparr>) zs)
      = update_where (row_of user env) (\<lambda>r. r\<lparr>cr_value := [], cr_fp := fp, cr_updated_at := now, cr_by := actor, cr_notes := comment\<rparr>) (map blank zs)" for c fp zs
    by (simp add: update_where_def)
  have rows: "map blank (snd (upsert k al now user env v actor comment xs)) = map blank (snd (upsert k al now user env v' actor comment ys))"
  proof (cases "\<exists>r \<in> set ys. row_of user env r")
    case True
    then show ?thesis using assms ex unfolding upsert_def Let_def snd_conv by (simp only: if_True upd)
  next
    case False
    then show ?thesis using assms ex ids unfolding upsert_def Let_def snd_conv by (simp only: if_False map_append list.map) simp
  qed
  have "fst (upsert k al now user env x actor comment zs) = find (row_of user env) (snd (upsert k al now user env x actor comment zs))" for x zs
    by (simp add: upsert_def Let_def)
  then show ?thesis
    using rows find_map_same [where P = "row_of user env" and g = blank] by simp
qed

lemma blank_delete:
  assumes "map blank xs = map blank ys"
  shows "fst (delete_row user env xs) = fst (delete_row user env ys) \<and> map blank (snd (delete_row user env xs)) = map blank (snd (delete_row user env ys))"
proof -
  have ex: "(\<exists>r \<in> set zs. row_of user env r) \<longleftrightarrow> (\<exists>r \<in> set (map blank zs). row_of user env r)" for zs by auto
  show ?thesis using assms ex [of xs] ex [of ys] by (simp add: delete_row_def map_filter_same del: set_map)
qed

lemma then_audit_hides:
  assumes "hides w w'"
  shows "fst (then_audit e actor action target meta ans w) = fst (then_audit e actor action target meta ans w')
    \<and> hides (snd (then_audit e actor action target meta ans w)) (snd (then_audit e actor action target meta ans w'))"
  using assms by (auto simp: then_audit_def hides_def split: option.splits bool.splits)

lemma upsert_route_hides:
  assumes h: "hides w w'" and len: "length_class v = length_class v'" "text_within 1 4096 (Some v) = text_within 1 4096 (Some v')"
  shows "fst (upsert_route e self actor user env v comment w) = fst (upsert_route e self actor user env v' comment w')
    \<and> hides (snd (upsert_route e self actor user env v comment w)) (snd (upsert_route e self actor user env v' comment w'))"
proof (cases "ce_cipher e")
  case None
  then show ?thesis using assms by (simp add: upsert_route_def)
next
  case (Some k)
  have b: "map blank (cw_rows w) = map blank (cw_rows w')" using h by (simp add: hides_def)
  obtain ro rs where u: "upsert k (ce_alloc e) (ce_now e) user env v actor comment (cw_rows w) = (ro, rs)" by (rule prod.exhaust)
  obtain ro' rs' where u': "upsert k (ce_alloc e) (ce_now e) user env v' actor comment (cw_rows w') = (ro', rs')" by (rule prod.exhaust)
  have same: "map blank rs = map blank rs'" "map_option blank ro = map_option blank ro'"
    using blank_upsert [OF b, of k "ce_alloc e" "ce_now e" user env v actor comment v'] u u' by simp_all
  have "(case ro of None \<Rightarrow> [] | Some r \<Rightarrow> project_metadata e r) = (case ro' of None \<Rightarrow> [] | Some r \<Rightarrow> project_metadata e r)"
    using arg_cong [where f = "\<lambda>x. case x of None \<Rightarrow> [] | Some r \<Rightarrow> project_metadata e r", OF same(2)] by (simp split: option.splits)
  moreover have "hides (w\<lparr>cw_rows := rs\<rparr>) (w'\<lparr>cw_rows := rs'\<rparr>)" using same(1) h by (simp add: hides_def)
  ultimately show ?thesis
    using assms Some u u' by (auto simp: upsert_route_def intro: then_audit_hides [THEN conjunct1] then_audit_hides [THEN conjunct2])
qed

lemma delete_route_hides:
  assumes "hides w w'"
  shows "fst (delete_route e self actor user env w) = fst (delete_route e self actor user env w')
    \<and> hides (snd (delete_route e self actor user env w)) (snd (delete_route e self actor user env w'))"
proof -
  have b: "map blank (cw_rows w) = map blank (cw_rows w')" using assms by (simp add: hides_def)
  obtain x rs where d: "delete_row user env (cw_rows w) = (x, rs)" by (rule prod.exhaust)
  obtain x' rs' where d': "delete_row user env (cw_rows w') = (x', rs')" by (rule prod.exhaust)
  have "x = x'" "hides (w\<lparr>cw_rows := rs\<rparr>) (w'\<lparr>cw_rows := rs'\<rparr>)"
    using blank_delete [OF b, of user env] d d' assms by (simp_all add: hides_def)
  then show ?thesis
    using assms d d' by (auto simp: delete_route_def intro: then_audit_hides [THEN conjunct1] then_audit_hides [THEN conjunct2])
qed

lemma cred_exec_hides:
  assumes "hides w w'" and "alike opr opr'"
  shows "fst (cred_exec e opr w) = fst (cred_exec e opr' w') \<and> hides (snd (cred_exec e opr w)) (snd (cred_exec e opr' w'))"
proof -
  have b: "map blank (cw_rows w) = map blank (cw_rows w')" using assms(1) by (simp add: hides_def)
  note lists = blank_project_map(1) [OF blank_lists(1) [OF b]] blank_project_map(1) [OF blank_lists(2) [OF b]] blank_project_map(2) [OF blank_lists(3) [OF b]]
  show ?thesis
  proof (cases opr)
    case (MyPut rq env v comment)
    then obtain v' where "opr' = MyPut rq env v' comment" "length_class v = length_class v'" "text_within 1 4096 (Some v) = text_within 1 4096 (Some v')"
      using assms(2) by auto
    then show ?thesis using MyPut assms(1) upsert_route_hides [OF assms(1), of v v'] by (simp add: cred_route_defs)
  next
    case (AdminPut rq user env v comment)
    then obtain v' where "opr' = AdminPut rq user env v' comment" "length_class v = length_class v'" "text_within 1 4096 (Some v) = text_within 1 4096 (Some v')"
      using assms(2) by auto
    then show ?thesis using AdminPut assms(1) upsert_route_hides [OF assms(1), of v v'] by (simp add: cred_route_defs)
  qed (use assms delete_route_hides [OF assms(1)] lists in \<open>simp_all add: cred_route_defs\<close>)
qed

text \<open>
  C15: two sequences of credential requests that differ only in the submitted values (of the same length class) cannot be told apart: every answer, of puts,
  deletes and all listings, is the same, so are the audit log and the rows but for the ciphertext.
\<close>
theorem values_not_disclosed:
  assumes "list_all2 alike ops ops'" and "hides w w'"
  shows "fst (cred_run e ops w) = fst (cred_run e ops' w') \<and> hides (snd (cred_run e ops w)) (snd (cred_run e ops' w'))"
  using assms
proof (induction ops ops' arbitrary: w w' rule: list_all2_induct)
  case (Cons opr ops opr' ops')
  obtain a w1 where x: "cred_exec e opr w = (a, w1)" by (rule prod.exhaust)
  obtain a' w1' where x': "cred_exec e opr' w' = (a', w1')" by (rule prod.exhaust)
  have "a = a' \<and> hides w1 w1'" using cred_exec_hides [OF Cons.prems Cons.hyps(1), of e] x x' by simp
  then show ?case using Cons.IH [of w1 w1'] x x' by (auto split: prod.splits)
qed simp

theorem values_not_disclosed_witness:
  "fst (cred_run demo_cred_env [MyPut (demo_caller ''alice'') ''AWS_REGION'' ''eu'' None, AdminList (demo_caller ''root'')] demo_cred_world)
   = fst (cred_run demo_cred_env [MyPut (demo_caller ''alice'') ''AWS_REGION'' ''us-east'' None, AdminList (demo_caller ''root'')] demo_cred_world)"
proof -
  have "list_all2 alike [MyPut (demo_caller ''alice'') ''AWS_REGION'' ''eu'' None, AdminList (demo_caller ''root'')]
      [MyPut (demo_caller ''alice'') ''AWS_REGION'' ''us-east'' None, AdminList (demo_caller ''root'')]"
    by (simp add: length_class_def text_within_def)
  moreover have "hides demo_cred_world demo_cred_world" by (simp add: hides_def)
  ultimately show ?thesis using values_not_disclosed by blast
qed

section \<open>From the table to the run\<close>

lemma merge_nothing [simp]: "merge_dict d [] = d"
  by (simp add: merge_dict_def)

lemma map_of_texts: "map_of (map (\<lambda>(k, v). (k, PStr v)) d) x = map_option PStr (map_of d x)"
  by (induction d) auto

lemma submit_answered:
  assumes "submit_session e cf rq sid now b c = (Answer 202 out, c')"
  shows "\<exists>sp s c1. submit e sid now sp (submit_args_of cf rq b) c = (Inr s, c1) \<and> c' = snd (manager_get s 100 0 c1)"
proof -
  obtain sp where sp: "build_spec (path_text e) (su_spec b) = Inr sp"
    using assms by (auto simp: submit_session_def require_submitter answer_defs split: if_splits sum.splits)
  obtain r c1 where su: "submit e sid now sp (submit_args_of cf rq b) c = (r, c1)" by (rule prod.exhaust)
  show ?thesis
  proof (cases r)
    case (Inl x)
    then show ?thesis using assms sp su by (cases x) (auto simp: submit_session_def require_submitter answer_defs Let_def split: if_splits)
  next
    case (Inr s)
    obtain d c2 where g: "manager_get s 100 0 c1 = (d, c2)" by (rule prod.exhaust)
    then have "c' = c2"
      using assms sp su Inr by (cases d) (auto simp: submit_session_def require_submitter answer_defs Let_def split: if_splits)
    then show ?thesis using su Inr g by (metis snd_conv)
  qed
qed

text \<open>
  a key that a submitter stored over the API is the key the submitter's next session runs with: after a successful put of \<open>env\<close>, a submission by the same caller
  without credentials in the body, against a manager whose credentials store reads this table, starts a task whose credentials bind \<open>env\<close> to the stored value.
\<close>
lemma stored_key_used:
  assumes "ce_cipher e = Some k" and "\<forall>v. decrypt k (encrypt k v) = Some v" and "unique_rows (cw_rows w)"
    and "rq_label rq = Some label" and "label \<noteq> []"
    and "upsert_my_credential e rq env v comment w = (Answer 200 d, w')"
    and "user_credentials me = Some (\<lambda>l. Some (map (\<lambda>(x, t). (x, PStr t)) (get_for_user (ce_cipher e) l (cw_rows w'))))"
    and "su_credentials b = []"
    and "accepting me" and "submit_session me cf rq sid now b (m, []) = (Answer 202 out, (m', fs))"
  shows "Option.bind (map_of (task_credentials m') sid) (\<lambda>creds. map_of creds env) = Some (PStr v)"
proof -
  have who: "caller rq = label" using assms(4,5) by (simp add: caller_def)
  have acc: "accepted_put env v comment" "rank ''submitter'' \<le> rank (fst (resolve_role (ce_config e) rq))"
    using assms(6) by (auto simp: upsert_my_credential_def require_submitter upsert_route_def accepted_put_def assms(1) answer_defs
        env_name_refused_def feature_disabled_def split: if_splits)
  have "cw_rows w' = snd (upsert k (ce_alloc e) (ce_now e) label env v label comment (cw_rows w))"
    using arg_cong [where f = "cw_rows \<circ> snd", OF assms(6)] acc who
    by (simp add: upsert_my_credential_def require_submitter upsert_route_rows [OF assms(1)])
  then have "map_of (get_for_user (ce_cipher e) label (cw_rows w')) env = Some v"
    using upsert_vault [OF assms(3), of k] get_for_user_vault [of "cw_rows w'" label k env] assms(1,2,5) by simp
  then have stored: "map_of (map (\<lambda>(x, t). (x, PStr t)) (get_for_user (ce_cipher e) label (cw_rows w'))) env = Some (PStr v)"
    by (simp add: map_of_texts)
  obtain sp s c1 where su: "submit me sid now sp (submit_args_of cf rq b) (m, []) = (Inr s, c1)" "(m', fs) = snd (manager_get s 100 0 c1)"
    using submit_answered [OF assms(10)] by blast
  obtain m1 where m1: "s = sid" "c1 = (m1, [])" using submit_Inr_Nil [OF assms(9) su(1)] by blast
  have m': "m' = m1"
    using su(2) m1 by (auto simp: manager_get_def split: option.splits sum.splits)
  obtain creds c2 where cr: "load_credentials me (submit_args_of cf rq b) (m, []) = (Inr creds, c2)" "map_of (task_credentials m1) sid = Some creds"
    using submit_Inr [OF su(1)] m1 by (metis fst_conv)
  have "map_of creds env = Some (PStr v)"
    using cr(1) stored assms(4,5,7,8) by (auto simp: load_credentials_def submit_args_of_def split: if_splits)
  then show ?thesis using cr(2) m' by simp
qed

definition demo_stored :: cred_world where
  "demo_stored = snd (upsert_my_credential demo_cred_env (demo_caller ''alice'') ''ANTHROPIC_API_KEY'' ''k'' None demo_cred_world)"

definition demo_reader :: "event_body list env" where
  "demo_reader = Manager_Calls.demo_env\<lparr>user_credentials :=
     Some (\<lambda>l. Some (map (\<lambda>(x, t). (x, PStr t)) (get_for_user (ce_cipher demo_cred_env) l (cw_rows demo_stored))))\<rparr>"

lemma stored_key_used_witness:
  "\<exists>out m' fs. submit_session demo_reader (te_config demo_team_env) (demo_caller ''alice'') ''n'' 3 demo_body
        (init_mgr 1 demo_store (init_coord True) [], []) = (Answer 202 out, (m', fs))
     \<and> Option.bind (map_of (task_credentials m') ''n'') (\<lambda>creds. map_of creds ''ANTHROPIC_API_KEY'') = Some (PStr ''k'')"
proof -
  let ?s = "submit_session demo_reader (te_config demo_team_env) (demo_caller ''alice'') ''n'' 3 demo_body (init_mgr 1 demo_store (init_coord True) [], [])"
  let ?u = "upsert_my_credential demo_cred_env (demo_caller ''alice'') ''ANTHROPIC_API_KEY'' ''k'' None demo_cred_world"
  have "(case fst ?s of Answer st out \<Rightarrow> st = 202 | _ \<Rightarrow> False)" by code_simp
  then obtain out m' fs where s: "?s = (Answer 202 out, (m', fs))" by (cases ?s) (auto split: answer.splits)
  have "(case fst ?u of Answer st d \<Rightarrow> st = 200 | _ \<Rightarrow> False)" by code_simp
  then obtain d where u: "?u = (Answer 200 d, demo_stored)" by (cases ?u) (auto simp: demo_stored_def split: answer.splits)
  have l: "ce_cipher demo_cred_env = Some demo_cipher" "\<forall>v. decrypt demo_cipher (encrypt demo_cipher v) = Some v"
      "unique_rows (cw_rows demo_cred_world)" "rq_label (demo_caller ''alice'') = Some ''alice''" "su_credentials demo_body = []"
    by (simp_all add: demo_cred_env_def demo_cipher_def demo_cred_world_def unique_rows_def demo_caller_def demo_body_def)
  have "accepting demo_reader" by (simp add: accepting_def demo_reader_def Manager_Calls.demo_env_def)
  moreover have "user_credentials demo_reader = Some (\<lambda>l. Some (map (\<lambda>(x, t). (x, PStr t)) (get_for_user (ce_cipher demo_cred_env) l (cw_rows demo_stored))))"
    by (simp add: demo_reader_def)
  ultimately show ?thesis
    using stored_key_used [OF l(1-4) _ u _ l(5) _ s] s by auto
qed

section \<open>What the mask shows\<close>

lemma mask_shows_four: "length (filter (\<lambda>g. g \<noteq> Bullet) (mask_credential_value v)) \<le> 4"
  by (simp add: mask_credential_value_def MASK_VISIBLE_TAIL_def split: option.splits)

text \<open>A value of five characters shows all but one; a shorter one shows its length.\<close>

lemma mask_of_short_values:
  "length s = 5 \<Longrightarrow> mask_credential_value (Some s) = replicate 8 Bullet @ map Plain (tl s)"
  "length s \<le> 4 \<Longrightarrow> length (mask_credential_value (Some s)) = length s"
  by (simp_all add: mask_credential_value_def MASK_VISIBLE_TAIL_def MASK_PREFIX_DOTS_def drop_Suc)

end
