(* ===== verification/Executors.thy ===== *)
theory Executors
  imports Json_Text Session_Spec
begin

text \<open>
  The executor backends of \<open>session/executor/\<close>: containers (\<open>docker.py\<close>), Kubernetes jobs
  (\<open>k8s_job.py\<close>, with the cascade of \<open>k8s_client.py\<close>) and tasks of the same process
  (\<open>inprocess.py\<close>). A backend's state holds its own tables and what exists outside because of it:
  bound sockets and running containers, secrets and jobs, running tasks. Every call to the outside
  succeeds, raises, or is cancelled while it waits; which, is part of the description of a call.
\<close>

section \<open>Calls and their outcome\<close>

datatype fate = Works | Fails | Cancelled

datatype exec_exn = Raised py_exn | CallFailed | AcceptTimeout | CancelledError | QueueFull

type_synonym env_dict = "(pyval, pyval) od"

definition to_env :: "string \<Rightarrow> string option \<Rightarrow> env_dict \<Rightarrow> env_dict" where
  "to_env k v d = (case v of None \<Rightarrow> d | Some s \<Rightarrow> if s = [] then d else AList.update (PStr k) (PStr s) d)"

definition put_all :: "(pyval \<times> pyval) list \<Rightarrow> env_dict \<Rightarrow> env_dict" where
  "put_all ps d = foldl (\<lambda>d (k, v). AList.update k v d) d ps"

definition spec_to_json :: "(pyfloat \<Rightarrow> string) \<Rightarrow> session_spec \<Rightarrow> py_exn + string" where
  "spec_to_json fr sp = json_dumps fr [] (PDict (to_json_safe sp))"

section \<open>Containers: configuration\<close>

record docker_cfg =
  x_image :: string
  x_socket_root :: string
  x_proxy_url :: "string option"
  x_mem :: string
  x_nano_cpus :: int
  x_pids_limit :: int
  x_extra_hosts :: "(string, string) od"
  x_model :: "string option"
  x_subagent_model :: "string option"
  x_setting_sources :: "string option"

definition SIZE_UNITS :: "(char, int) od" where
  "SIZE_UNITS = [(CHR ''k'', 1024), (CHR ''m'', 1024 ^ 2), (CHR ''g'', 1024 ^ 3)]"

definition parse_size :: "string \<Rightarrow> py_exn + int" where
  "parse_size s =
     (if s = [] then Inl ValueError
      else (case map_of SIZE_UNITS (char_lower (last s)) of
              Some n \<Rightarrow> map_sum id (\<lambda>i. i * n) (int_of_str (butlast s))
            | None \<Rightarrow> int_of_str s))"

definition docker_build_env ::
    "(pyfloat \<Rightarrow> string) \<Rightarrow> docker_cfg \<Rightarrow> session_spec \<Rightarrow> (string, pyval) od \<Rightarrow> string \<Rightarrow> string \<Rightarrow> py_exn + env_dict" where
  "docker_build_env fr cf sp creds trace_id rid = bind_sum (spec_to_json fr sp) (\<lambda>js.
     let base = [(PStr ''GG_RELAY_SPEC_JSON'', PStr js), (PStr ''GG_RELAY_SOCKET'', PStr (''/var/run/gg-relay/'' @ rid @ ''.sock'')),
                 (PStr ''RELAY_TRACE_ID'', PStr trace_id), (PStr ''RELAY_SESSION_ID'', PStr rid)];
         prox = (case x_proxy_url cf of
                    None \<Rightarrow> base
                  | Some u \<Rightarrow> if u = [] then base
                      else put_all [(PStr ''HTTPS_PROXY'', PStr u), (PStr ''HTTP_PROXY'', PStr u), (PStr ''NO_PROXY'', PStr ''localhost,127.0.0.1'')] base);
         mods = to_env ''CLAUDE_SETTING_SOURCES'' (x_setting_sources cf)
                  (to_env ''CLAUDE_CODE_SUBAGENT_MODEL'' (x_subagent_model cf) (to_env ''CLAUDE_MODEL'' (x_model cf) prox))
     in Inr (put_all (extra_env (plugins sp)) (put_all (map (\<lambda>(k, v). (PStr k, v)) creds) mods)))"

definition env_text :: "(pyval \<Rightarrow> string) \<Rightarrow> pyval \<Rightarrow> string" where
  "env_text shw v = (case v of PStr s \<Rightarrow> s | _ \<Rightarrow> shw v)"

definition build_container_config :: "(pyval \<Rightarrow> string) \<Rightarrow> docker_cfg \<Rightarrow> session_spec \<Rightarrow> env_dict \<Rightarrow> py_exn + pydict" where
  "build_container_config shw cf sp env = bind_sum (parse_size (x_mem cf)) (\<lambda>mem.
     Inr [(PStr ''Image'', PStr (x_image cf)),
          (PStr ''Env'', PList (map (\<lambda>(k, v). PStr (env_text shw k @ ''='' @ env_text shw v)) env)),
          (PStr ''HostConfig'', PDict
             [(PStr ''NetworkMode'', PStr ''bridge''), (PStr ''AutoRemove'', PBool True), (PStr ''Memory'', PInt mem),
              (PStr ''NanoCpus'', PInt (x_nano_cpus cf)), (PStr ''PidsLimit'', PInt (x_pids_limit cf)),
              (PStr ''Binds'', PList [PStr (x_socket_root cf @ '':/var/run/gg-relay:rw,z''), PStr (cwd sp @ '':/workspace:rw,z'')]),
              (PStr ''ExtraHosts'', PList (map (\<lambda>(h, i). PStr (h @ '':'' @ i)) (x_extra_hosts cf)))])])"

section \<open>Containers: life cycle\<close>

record docker_state =
  servers :: "string list"
  containers :: "string list"
  listening :: "string list"
  alive :: "string list"

record docker_call =
  dc_spec :: session_spec
  dc_credentials :: "(string, pyval) od"
  dc_trace :: string
  dc_listen :: fate
  dc_client :: fate
  dc_run :: fate
  dc_accept :: fate
  dc_kill :: bool

record docker_env =
  de_cfg :: docker_cfg
  de_float :: "pyfloat \<Rightarrow> string"
  de_show :: "pyval \<Rightarrow> string"

definition drop_key :: "string \<Rightarrow> string list \<Rightarrow> string list" where
  "drop_key x xs = filter (\<lambda>y. y \<noteq> x) xs"

definition close_server :: "string \<Rightarrow> docker_state \<Rightarrow> docker_state" where
  "close_server rid s = s\<lparr>listening := drop_key rid (listening s)\<rparr>"

text \<open>
  Only a failing \<open>run\<close> and a timeout of \<open>accept\<close> have a handler; building the configuration, the client and
  every cancellation leave the tables as they are.
\<close>

definition docker_start :: "docker_env \<Rightarrow> docker_call \<Rightarrow> string \<Rightarrow> docker_state \<Rightarrow> (exec_exn + unit) \<times> docker_state" where
  "docker_start e c rid s = (case dc_listen c of
     Cancelled \<Rightarrow> (Inl CancelledError, s)
   | Fails \<Rightarrow> (Inl CallFailed, s)
   | Works \<Rightarrow>
       (let s1 = s\<lparr>servers := servers s @ [rid], listening := listening s @ [rid]\<rparr> in
        case bind_sum (docker_build_env (de_float e) (de_cfg e) (dc_spec c) (dc_credentials c) (dc_trace c) rid)
               (build_container_config (de_show e) (de_cfg e) (dc_spec c)) of
          Inl x \<Rightarrow> (Inl (Raised x), s1)
        | Inr _ \<Rightarrow> (case dc_client c of
            Cancelled \<Rightarrow> (Inl CancelledError, s1)
          | Fails \<Rightarrow> (Inl CallFailed, s1)
          | Works \<Rightarrow> (case dc_run c of
              Cancelled \<Rightarrow> (Inl CancelledError, s1)
            | Fails \<Rightarrow> (Inl CallFailed, (close_server rid s1)\<lparr>servers := drop_key rid (servers s1)\<rparr>)
            | Works \<Rightarrow>
                (let s2 = s1\<lparr>containers := containers s1 @ [rid], alive := alive s1 @ [rid]\<rparr> in
                 case dc_accept c of
                   Cancelled \<Rightarrow> (Inl CancelledError, s2)
                 | Fails \<Rightarrow>
                     (Inl AcceptTimeout,
                      (close_server rid s2)\<lparr>alive := (if dc_kill c then drop_key rid (alive s2) else alive s2),
                        containers := drop_key rid (containers s2), servers := drop_key rid (servers s2)\<rparr>)
                 | Works \<Rightarrow> (Inr (), s2))))))"

text \<open>A container that exits within the grace period, or is killed, is gone: it runs with \<open>AutoRemove\<close>.\<close>

record docker_stop_call =
  ds_exits :: bool
  ds_kill :: bool

definition docker_stop :: "docker_stop_call \<Rightarrow> string \<Rightarrow> docker_state \<Rightarrow> docker_state" where
  "docker_stop c rid s =
     (let s1 = s\<lparr>containers := drop_key rid (containers s), servers := drop_key rid (servers s)\<rparr>;
          s2 = (if rid \<in> set (containers s) \<and> (ds_exits c \<or> ds_kill c) then s1\<lparr>alive := drop_key rid (alive s1)\<rparr> else s1)
      in if rid \<in> set (servers s) then close_server rid s2 else s2)"

text \<open>\<open>show\<close> gives the daemon's status of the container, if it answers.\<close>

definition docker_health :: "(string \<Rightarrow> string option) \<Rightarrow> bool \<Rightarrow> string \<Rightarrow> docker_state \<Rightarrow> bool" where
  "docker_health show_status transport_alive rid s \<longleftrightarrow>
     rid \<in> set (containers s) \<and> show_status rid = Some ''running'' \<and> transport_alive"

section \<open>Kubernetes jobs\<close>

record k8s_cfg =
  k_namespace :: string
  k_image :: string
  k_port :: nat
  k_max_jobs :: nat
  k_model :: "string option"
  k_subagent_model :: "string option"
  k_setting_sources :: "string option"

record k8s_state =
  inflight :: "string list"
  secrets :: "string list"
  jobs :: "string list"

datatype connect_fate = Connected | Refused | OtherError | ConnectCancelled

record k8s_call =
  kc_spec :: session_spec
  kc_credentials :: "(string, pyval) od"
  kc_trace :: string
  kc_secret :: fate
  kc_job :: fate
  kc_pod :: fate
  kc_connect :: connect_fate
  kc_delete :: bool

definition k8s_build_env :: "(pyfloat \<Rightarrow> string) \<Rightarrow> (pyval \<Rightarrow> string) \<Rightarrow> k8s_cfg \<Rightarrow> session_spec \<Rightarrow> (string, pyval) od \<Rightarrow> string \<Rightarrow> py_exn + env_dict" where
  "k8s_build_env fr shw cf sp creds trace_id = bind_sum (spec_to_json fr sp) (\<lambda>js.
     let base = [(PStr ''GG_RELAY_SPEC_JSON'', PStr js), (PStr ''GG_RELAY_TCP_LISTEN'', PStr (''0.0.0.0:'' @ str_nat (k_port cf)))];
         mods = to_env ''CLAUDE_SETTING_SOURCES'' (k_setting_sources cf)
                  (to_env ''CLAUDE_CODE_SUBAGENT_MODEL'' (k_subagent_model cf) (to_env ''CLAUDE_MODEL'' (k_model cf) base));
         crds = put_all (map (\<lambda>(k, v). (PStr k, PStr (env_text shw v))) (filter (\<lambda>(k, v). v \<noteq> PNone) creds)) mods
     in Inr (to_env ''RELAY_TRACE_ID'' (Some trace_id) (put_all (extra_env (plugins sp)) crds)))"

text \<open>Deleting the secret takes the job that it owns with it.\<close>

definition delete_secret :: "bool \<Rightarrow> string \<Rightarrow> k8s_state \<Rightarrow> k8s_state" where
  "delete_secret works rid s = (if works then s\<lparr>secrets := drop_key rid (secrets s), jobs := drop_key rid (jobs s)\<rparr> else s)"

definition k8s_admit :: "k8s_cfg \<Rightarrow> k8s_state \<Rightarrow> bool" where
  "k8s_admit cf s \<longleftrightarrow> length (inflight s) < k_max_jobs cf"

definition k8s_submit ::
    "(pyfloat \<Rightarrow> string) \<Rightarrow> (pyval \<Rightarrow> string) \<Rightarrow> k8s_cfg \<Rightarrow> k8s_call \<Rightarrow> string \<Rightarrow> k8s_state \<Rightarrow> (exec_exn + unit) \<times> k8s_state" where
  "k8s_submit fr shw cf c rid s = (case kc_secret c of
     Cancelled \<Rightarrow> (Inl CancelledError, s)
   | Fails \<Rightarrow> (Inl CallFailed, s)
   | Works \<Rightarrow>
       (let s1 = s\<lparr>secrets := secrets s @ [rid]\<rparr> in
        case k8s_build_env fr shw cf (kc_spec c) (kc_credentials c) (kc_trace c) of
          Inl x \<Rightarrow> (Inl (Raised x), s1)
        | Inr _ \<Rightarrow> (case kc_job c of
            Cancelled \<Rightarrow> (Inl CancelledError, s1)
          | Fails \<Rightarrow> (Inl CallFailed, delete_secret (kc_delete c) rid s1)
          | Works \<Rightarrow>
              (let s2 = s1\<lparr>jobs := jobs s1 @ [rid]\<rparr> in
               case kc_pod c of
                 Cancelled \<Rightarrow> (Inl CancelledError, s2)
               | Fails \<Rightarrow> (Inl CallFailed, delete_secret (kc_delete c) rid s2)
               | Works \<Rightarrow> (case kc_connect c of
                     ConnectCancelled \<Rightarrow> (Inl CancelledError, s2)
                   | OtherError \<Rightarrow> (Inl CallFailed, s2)
                   | Refused \<Rightarrow> (Inl CallFailed, delete_secret (kc_delete c) rid s2)
                   | Connected \<Rightarrow> (Inr (), s2\<lparr>inflight := inflight s2 @ [rid]\<rparr>))))))"

text \<open>\<open>meanwhile\<close> is what other calls did between the admission check and the first request to the API server.\<close>

definition k8s_start ::
    "(pyfloat \<Rightarrow> string) \<Rightarrow> (pyval \<Rightarrow> string) \<Rightarrow> k8s_cfg \<Rightarrow> (k8s_state \<Rightarrow> k8s_state) \<Rightarrow> k8s_call \<Rightarrow> string \<Rightarrow> k8s_state
     \<Rightarrow> (exec_exn + unit) \<times> k8s_state" where
  "k8s_start fr shw cf meanwhile c rid s = (if \<not> k8s_admit cf s then (Inl QueueFull, s) else k8s_submit fr shw cf c rid (meanwhile s))"

definition k8s_stop :: "bool \<Rightarrow> string \<Rightarrow> k8s_state \<Rightarrow> k8s_state" where
  "k8s_stop works rid s = delete_secret works rid (s\<lparr>inflight := drop_key rid (inflight s)\<rparr>)"

definition k8s_health :: "bool \<Rightarrow> string \<Rightarrow> k8s_state \<Rightarrow> bool" where
  "k8s_health transport_alive rid s \<longleftrightarrow> rid \<in> set (inflight s) \<and> transport_alive"

section \<open>Tasks of the same process\<close>

record local_state =
  tasks :: "string list"
  running :: "string list"

definition local_start :: "unit \<Rightarrow> string \<Rightarrow> local_state \<Rightarrow> (exec_exn + unit) \<times> local_state" where
  "local_start c rid s = (Inr (), s\<lparr>tasks := tasks s @ [rid], running := running s @ [rid]\<rparr>)"

text \<open>A task ends on its own, which drops its entry, or because \<open>stop\<close> cancels it; a runner that never awaits does not end.\<close>

datatype local_end = RunnerDone | StopCall bool

definition local_stop :: "local_end \<Rightarrow> string \<Rightarrow> local_state \<Rightarrow> local_state" where
  "local_stop c rid s = s\<lparr>tasks := drop_key rid (tasks s),
     running := (if c = StopCall False then running s else drop_key rid (running s))\<rparr>"

section \<open>The contract of a backend\<close>

datatype ('c, 'd) exec_op = Start 'c string | Stop 'd string

fun started :: "('c, 'd) exec_op list \<Rightarrow> string list" where
  "started [] = []"
| "started (Start c rid # ops) = rid # started ops"
| "started (Stop d rid # ops) = started ops"

text \<open>A run of calls, with the set of handles that were returned and not yet stopped.\<close>

fun backend_run ::
    "('c \<Rightarrow> string \<Rightarrow> 's \<Rightarrow> (exec_exn + unit) \<times> 's) \<Rightarrow> ('d \<Rightarrow> string \<Rightarrow> 's \<Rightarrow> 's) \<Rightarrow> ('c, 'd) exec_op list \<Rightarrow> 's \<Rightarrow> string set \<Rightarrow> 's \<times> string set" where
  "backend_run start stop [] s live = (s, live)"
| "backend_run start stop (Start c rid # ops) s live = (case start c rid s of
     (Inl _, s1) \<Rightarrow> backend_run start stop ops s1 live
   | (Inr _, s1) \<Rightarrow> backend_run start stop ops s1 (insert rid live))"
| "backend_run start stop (Stop d rid # ops) s live = backend_run start stop ops (stop d rid s) (live - {rid})"

text \<open>
  \<open>tracked\<close> is what the backend's tables name, \<open>held\<close> what exists outside. A start either adds its id to both or changes
  neither, a stop removes it from both; \<open>fair\<close> excludes what the code has no answer to.
\<close>

locale executor_backend =
  fixes start :: "'c \<Rightarrow> string \<Rightarrow> 's \<Rightarrow> (exec_exn + unit) \<times> 's" and stop :: "'d \<Rightarrow> string \<Rightarrow> 's \<Rightarrow> 's"
    and fair :: "('c, 'd) exec_op \<Rightarrow> bool" and tracked :: "'s \<Rightarrow> string set" and held :: "'s \<Rightarrow> string set" and sound :: "'s \<Rightarrow> bool"
  assumes start_law: "fair (Start c rid) \<Longrightarrow> sound s \<Longrightarrow> rid \<notin> tracked s \<Longrightarrow> start c rid s = (r, s1) \<Longrightarrow>
      sound s1 \<and> tracked s1 = (case r of Inl _ \<Rightarrow> tracked s | Inr _ \<Rightarrow> insert rid (tracked s))"
    and stop_law: "fair (Stop d rid) \<Longrightarrow> sound s \<Longrightarrow> sound (stop d rid s) \<and> tracked (stop d rid s) = tracked s - {rid}"
    and sound_held: "sound s \<Longrightarrow> held s = tracked s"
begin

lemma no_leaks:
  assumes "list_all fair ops" and "sound s" and "distinct (started ops)" and "set (started ops) \<inter> tracked s = {}"
    and "backend_run start stop ops s (tracked s) = (s1, live)"
  shows "sound s1 \<and> held s1 = live \<and> tracked s1 = live"
  using assms
proof (induction ops arbitrary: s)
  case Nil
  then show ?case using sound_held by auto
next
  case (Cons x ops)
  show ?case
  proof (cases x)
    case (Start c rid)
    obtain r s2 where st: "start c rid s = (r, s2)" by (rule prod.exhaust)
    have l: "sound s2 \<and> tracked s2 = (case r of Inl _ \<Rightarrow> tracked s | Inr _ \<Rightarrow> insert rid (tracked s))"
      using Cons.prems Start st by (intro start_law) auto
    then have "set (started ops) \<inter> tracked s2 = {}" using Cons.prems Start by (auto split: sum.splits)
    then show ?thesis using Cons.IH [of s2] Cons.prems Start st l by (auto split: sum.splits)
  next
    case (Stop d rid)
    have l: "sound (stop d rid s) \<and> tracked (stop d rid s) = tracked s - {rid}"
      using Cons.prems Stop by (intro stop_law) auto
    then show ?thesis using Cons.IH [of "stop d rid s"] Cons.prems Stop by auto
  qed
qed

end

lemma set_drop_key [simp]: "set (drop_key x xs) = set xs - {x}"
  by (auto simp: drop_key_def)

section \<open>The backends keep it\<close>

definition docker_sound :: "docker_state \<Rightarrow> bool" where
  "docker_sound s \<longleftrightarrow> set (containers s) = set (servers s) \<and> set (listening s) = set (servers s) \<and> set (alive s) = set (servers s)"

definition docker_fair :: "docker_env \<Rightarrow> (docker_call, docker_stop_call) exec_op \<Rightarrow> bool" where
  "docker_fair e x = (case x of
     Start c rid \<Rightarrow> Cancelled \<notin> {dc_listen c, dc_run c, dc_accept c} \<and> dc_client c = Works \<and> dc_kill c
       \<and> keys_ok (PDict (to_json_safe (dc_spec c))) \<and> (\<exists>n. parse_size (x_mem (de_cfg e)) = Inr n)
   | Stop d rid \<Rightarrow> ds_exits d \<or> ds_kill d)"

lemma docker_config_ok:
  assumes "keys_ok (PDict (to_json_safe sp))" and "parse_size (x_mem cf) = Inr n"
  shows "\<exists>d. bind_sum (docker_build_env fr cf sp creds tr rid) (build_container_config shw cf sp) = Inr d"
  using assms by (simp add: docker_build_env_def spec_to_json_def json_dumps_def build_container_config_def Let_def)

interpretation docker: executor_backend "docker_start e" docker_stop "docker_fair e" "\<lambda>s. set (containers s)"
  "\<lambda>s. set (alive s) \<union> set (listening s)" docker_sound for e
proof
  fix c rid s r s1
  assume f: "docker_fair e (Start c rid)" and ok: "docker_sound s" and new: "rid \<notin> set (containers s)" and st: "docker_start e c rid s = (r, s1)"
  obtain d where "bind_sum (docker_build_env (de_float e) (de_cfg e) (dc_spec c) (dc_credentials c) (dc_trace c) rid)
      (build_container_config (de_show e) (de_cfg e) (dc_spec c)) = Inr d"
    using docker_config_ok [of "dc_spec c" "de_cfg e"] f unfolding docker_fair_def exec_op.case by blast
  then show "docker_sound s1 \<and> set (containers s1) = (case r of Inl _ \<Rightarrow> set (containers s) | Inr _ \<Rightarrow> insert rid (set (containers s)))"
    using f ok new st
    by (auto simp: docker_start_def docker_fair_def docker_sound_def close_server_def Let_def split: fate.splits if_splits)
next
  fix d rid s
  assume "docker_fair e (Stop d rid)" and "docker_sound s"
  then show "docker_sound (docker_stop d rid s) \<and> set (containers (docker_stop d rid s)) = set (containers s) - {rid}"
    by (auto simp: docker_stop_def docker_fair_def docker_sound_def close_server_def Let_def)
next
  fix s
  assume "docker_sound s"
  then show "set (alive s) \<union> set (listening s) = set (containers s)" by (auto simp: docker_sound_def)
qed

definition k8s_sound :: "k8s_cfg \<Rightarrow> k8s_state \<Rightarrow> bool" where
  "k8s_sound cf s \<longleftrightarrow> set (secrets s) = set (inflight s) \<and> set (jobs s) = set (inflight s) \<and> distinct (inflight s) \<and> length (inflight s) \<le> k_max_jobs cf"

definition k8s_fair :: "(k8s_call, bool) exec_op \<Rightarrow> bool" where
  "k8s_fair x = (case x of
     Start c rid \<Rightarrow> Cancelled \<notin> {kc_secret c, kc_job c, kc_pod c} \<and> kc_connect c \<in> {Connected, Refused} \<and> kc_delete c
       \<and> keys_ok (PDict (to_json_safe (kc_spec c)))
   | Stop d rid \<Rightarrow> d)"

lemma drop_key_absent: "x \<notin> set xs \<Longrightarrow> drop_key x (xs @ [x]) = xs" "x \<notin> set xs \<Longrightarrow> drop_key x xs = xs"
  by (auto simp: drop_key_def filter_id_conv)

lemma k8s_submit_fair:
  assumes "k8s_fair (Start c rid)" and "k8s_submit fr shw cf c rid s = (r, s1)" and "rid \<notin> set (secrets s)" and "rid \<notin> set (jobs s)"
  shows "(\<exists>x. r = Inl x \<and> s1 = s) \<or> (r = Inr () \<and> s1 = s\<lparr>secrets := secrets s @ [rid], jobs := jobs s @ [rid], inflight := inflight s @ [rid]\<rparr>)"
proof -
  obtain d where d: "k8s_build_env fr shw cf (kc_spec c) (kc_credentials c) (kc_trace c) = Inr d"
    using assms(1) by (auto simp: k8s_fair_def k8s_build_env_def spec_to_json_def json_dumps_def Let_def)
  have undone: "delete_secret True rid (s\<lparr>secrets := secrets s @ [rid]\<rparr>) = s"
    "delete_secret True rid (s\<lparr>secrets := secrets s @ [rid], jobs := jobs s @ [rid]\<rparr>) = s"
    using assms(3,4) by (simp_all add: delete_secret_def drop_key_absent)
  show ?thesis
    using assms(1,2) undone by (auto simp: k8s_submit_def d k8s_fair_def Let_def split: fate.splits connect_fate.splits)
qed

interpretation k8s: executor_backend "k8s_start fr shw cf id" k8s_stop k8s_fair "\<lambda>s. set (inflight s)"
  "\<lambda>s. set (secrets s) \<union> set (jobs s)" "k8s_sound cf" for fr shw cf
proof
  fix c rid s r s1
  assume f: "k8s_fair (Start c rid)" and ok: "k8s_sound cf s" and new: "rid \<notin> set (inflight s)" and st: "k8s_start fr shw cf id c rid s = (r, s1)"
  consider "r = Inl QueueFull" "s1 = s" | "k8s_admit cf s" "k8s_submit fr shw cf c rid s = (r, s1)"
    using st by (auto simp: k8s_start_def split: if_splits)
  then show "k8s_sound cf s1 \<and> set (inflight s1) = (case r of Inl _ \<Rightarrow> set (inflight s) | Inr _ \<Rightarrow> insert rid (set (inflight s)))"
  proof cases
    case 1
    then show ?thesis using ok by simp
  next
    case 2
    have new': "rid \<notin> set (secrets s)" "rid \<notin> set (jobs s)" using ok new by (simp_all add: k8s_sound_def)
    from k8s_submit_fair [OF f 2(2) new'] show ?thesis
    proof
      assume "\<exists>x. r = Inl x \<and> s1 = s"
      then show ?thesis using ok by auto
    next
      assume "r = Inr () \<and> s1 = s\<lparr>secrets := secrets s @ [rid], jobs := jobs s @ [rid], inflight := inflight s @ [rid]\<rparr>"
      then show ?thesis using ok new 2(1) by (simp add: k8s_sound_def k8s_admit_def)
    qed
  qed
next
  fix d rid s
  assume "k8s_fair (Stop d rid)" and "k8s_sound cf s"
  moreover have "length (drop_key rid (inflight s)) \<le> length (inflight s)" by (simp add: drop_key_def)
  moreover have "distinct (inflight s) \<Longrightarrow> distinct (drop_key rid (inflight s))" by (simp add: drop_key_def)
  ultimately show "k8s_sound cf (k8s_stop d rid s) \<and> set (inflight (k8s_stop d rid s)) = set (inflight s) - {rid}"
    by (auto simp: k8s_stop_def k8s_fair_def k8s_sound_def delete_secret_def)
next
  fix s
  assume "k8s_sound cf s"
  then show "set (secrets s) \<union> set (jobs s) = set (inflight s)" by (auto simp: k8s_sound_def)
qed

definition local_fair :: "(unit, local_end) exec_op \<Rightarrow> bool" where
  "local_fair x = (case x of Start c rid \<Rightarrow> True | Stop d rid \<Rightarrow> d \<noteq> StopCall False)"

interpretation local: executor_backend local_start local_stop local_fair "\<lambda>s. set (tasks s)" "\<lambda>s. set (running s)" "\<lambda>s. set (running s) = set (tasks s)"
proof
  show "set (running s1) = set (tasks s1) \<and> set (tasks s1) = (case r of Inl _ \<Rightarrow> set (tasks s) | Inr _ \<Rightarrow> insert rid (set (tasks s)))"
    if "set (running s) = set (tasks s)" "local_start c rid s = (r, s1)" for c rid s r s1
    using that by (auto simp: local_start_def)
  show "set (running (local_stop d rid s)) = set (tasks (local_stop d rid s)) \<and> set (tasks (local_stop d rid s)) = set (tasks s) - {rid}"
    if "local_fair (Stop d rid)" "set (running s) = set (tasks s)" for d rid s
    using that by (simp add: local_stop_def local_fair_def)
qed

section \<open>What holds of the backends\<close>

text \<open>
  C11: over any sequence of starts and stops of containers, in which each outside call works or raises and nothing is cancelled mid-call, the running containers and
  bound sockets are exactly those of the handles returned and not yet stopped, and so are the executor's tables: a failed start cleans up behind itself and a stop leaves nothing.
\<close>
theorem docker_no_leaks:
  assumes "list_all (docker_fair e) ops" and "distinct (started ops)"
    and "backend_run (docker_start e) docker_stop ops \<lparr>servers = [], containers = [], listening = [], alive = []\<rparr> {} = (s, live)"
  shows "set (alive s) = live \<and> set (listening s) = live \<and> set (containers s) = live \<and> set (servers s) = live"
proof -
  let ?s = "\<lparr>servers = [], containers = [], listening = [], alive = []\<rparr>"
  have "docker_sound ?s" by (simp add: docker_sound_def)
  then have "docker_sound s \<and> set (alive s) \<union> set (listening s) = live \<and> set (containers s) = live"
    using docker.no_leaks [of e ops ?s s live] assms by simp
  then show ?thesis by (auto simp: docker_sound_def)
qed

definition demo_docker :: docker_env where
  "demo_docker = \<lparr>de_cfg = \<lparr>x_image = ''i'', x_socket_root = ''/s'', x_proxy_url = Some ''p'', x_mem = ''2g'', x_nano_cpus = 2, x_pids_limit = 5, x_extra_hosts = [],
     x_model = None, x_subagent_model = None, x_setting_sources = None\<rparr>, de_float = (\<lambda>_. ''0.0''), de_show = (\<lambda>_. [])\<rparr>"

definition demo_start :: "fate \<Rightarrow> docker_call" where
  "demo_start acc = \<lparr>dc_spec = demo_spec, dc_credentials = [], dc_trace = [], dc_listen = Works, dc_client = Works, dc_run = Works, dc_accept = acc, dc_kill = True\<rparr>"

lemma demo_mem: "parse_size ''2g'' = Inr (2 * 1024 ^ 3)"
proof -
  have "int_of_str ''2'' = Inr 2" by code_simp
  then show ?thesis by (simp add: parse_size_def SIZE_UNITS_def char_lower_def)
qed

lemma demo_fair: "docker_fair demo_docker (Start (demo_start Works) rid)" "docker_fair demo_docker (Start (demo_start Fails) rid)"
  by (simp_all add: docker_fair_def demo_docker_def demo_start_def demo_mem demo_spec_def to_json_safe_def manifest_json_def pair_list_def)

theorem docker_no_leaks_witness:
  "\<exists>s live. backend_run (docker_start demo_docker) docker_stop
        [Start (demo_start Works) ''a'', Start (demo_start Fails) ''b'', Stop \<lparr>ds_exits = False, ds_kill = True\<rparr> ''a'']
        \<lparr>servers = [], containers = [], listening = [], alive = []\<rparr> {} = (s, live)
     \<and> set (alive s) = live \<and> set (listening s) = live"
proof -
  let ?ops = "[Start (demo_start Works) ''a'', Start (demo_start Fails) ''b'', Stop \<lparr>ds_exits = False, ds_kill = True\<rparr> ''a'']"
  obtain s live where r: "backend_run (docker_start demo_docker) docker_stop ?ops \<lparr>servers = [], containers = [], listening = [], alive = []\<rparr> {} = (s, live)"
    by (rule prod.exhaust)
  have "list_all (docker_fair demo_docker) ?ops" using demo_fair by (simp add: docker_fair_def [of _ "Stop _ _"])
  then show ?thesis using docker_no_leaks [OF _ _ r] r by auto
qed


definition demo_k8s :: k8s_cfg where
  "demo_k8s = \<lparr>k_namespace = ''gg'', k_image = ''i'', k_port = 9001, k_max_jobs = 1, k_model = None, k_subagent_model = None, k_setting_sources = None\<rparr>"

definition demo_job :: "connect_fate \<Rightarrow> k8s_call" where
  "demo_job cn = \<lparr>kc_spec = demo_spec, kc_credentials = [], kc_trace = [], kc_secret = Works, kc_job = Works, kc_pod = Works, kc_connect = cn, kc_delete = True\<rparr>"

lemma demo_job_spec: "keys_ok (PDict (to_json_safe demo_spec))"
  by (simp add: demo_spec_def to_json_safe_def manifest_json_def pair_list_def)


text \<open>
  The admission check counts only finished starts: two starts that overlap are both admitted under a limit of one.
\<close>

lemma k8s_overlap_exceeds_limit:
  "length (inflight (snd (k8s_start (\<lambda>_. ''0.0'') (\<lambda>_. []) demo_k8s
      (\<lambda>s. snd (k8s_start (\<lambda>_. ''0.0'') (\<lambda>_. []) demo_k8s id (demo_job Connected) ''a'' s)) (demo_job Connected) ''b'' \<lparr>inflight = [], secrets = [], jobs = []\<rparr>))) = 2"
  using demo_job_spec
  by (simp add: k8s_start_def k8s_submit_def k8s_admit_def demo_k8s_def demo_job_def k8s_build_env_def spec_to_json_def json_dumps_def Let_def)

text \<open>A start that is cancelled, or whose connection fails in another way than the two handled, leaves the secret and the job behind.\<close>

lemma k8s_unhandled_leaks:
  assumes "cn = ConnectCancelled \<or> cn = OtherError"
  shows "snd (k8s_start (\<lambda>_. ''0.0'') (\<lambda>_. []) demo_k8s id (demo_job cn) rid \<lparr>inflight = [], secrets = [], jobs = []\<rparr>)
    = \<lparr>inflight = [], secrets = [rid], jobs = [rid]\<rparr>"
  using demo_job_spec assms
  by (auto simp: k8s_start_def k8s_submit_def k8s_admit_def demo_k8s_def demo_job_def k8s_build_env_def spec_to_json_def json_dumps_def Let_def)

text \<open>The same of containers: cancelled while the runner connects, the container runs on; a size that does not parse leaves the socket bound.\<close>

lemma docker_cancelled_leaks:
  "snd (docker_start demo_docker (demo_start Cancelled) rid \<lparr>servers = [], containers = [], listening = [], alive = []\<rparr>)
    = \<lparr>servers = [rid], containers = [rid], listening = [rid], alive = [rid]\<rparr>"
proof -
  obtain d where "bind_sum (docker_build_env (de_float demo_docker) (de_cfg demo_docker) demo_spec [] [] rid)
      (build_container_config (de_show demo_docker) (de_cfg demo_docker) demo_spec) = Inr d"
    using docker_config_ok [OF demo_job_spec, of "de_cfg demo_docker" "2 * 1024 ^ 3"] demo_mem by (metis demo_docker_def docker_cfg.select_convs(4) docker_env.select_convs(1))
  then show ?thesis by (simp add: docker_start_def demo_start_def)
qed

lemma docker_bad_size_leaks:
  assumes "parse_size (x_mem (de_cfg e)) = Inl x" and "dc_listen c = Works" and "keys_ok (PDict (to_json_safe (dc_spec c)))"
  shows "docker_start e c rid \<lparr>servers = [], containers = [], listening = [], alive = []\<rparr>
    = (Inl (Raised x), \<lparr>servers = [rid], containers = [], listening = [rid], alive = []\<rparr>)"
  using assms by (simp add: docker_start_def docker_build_env_def spec_to_json_def json_dumps_def build_container_config_def Let_def)

section \<open>What the runner finds in its environment\<close>

lemma env_put_get: "map_of (put_all ps d) k = (case map_of (rev ps) k of Some v \<Rightarrow> Some v | None \<Rightarrow> map_of d k)"
proof (induction ps arbitrary: d)
  case (Cons p ps)
  then show ?case by (cases p) (auto simp: put_all_def update_conv' map_add_def split: option.splits)
qed (simp add: put_all_def)

lemma put_all_skips: "k \<notin> fst ` set ps \<Longrightarrow> map_of (put_all ps d) k = map_of d k"
  using map_of_eq_None_iff [of "rev ps" k] by (simp add: env_put_get)

lemma to_env_skips: "k \<noteq> PStr n \<Longrightarrow> map_of (to_env n v d) k = map_of d k"
  by (auto simp: to_env_def update_conv' split: option.splits)

lemma spec_text_read_back:
  assumes "json_spec sp" and "floats_ok fr fp (PDict (to_json_safe sp))" and "path (cwd sp) = cwd sp" and "make_manifest (plugins sp) = Inr (plugins sp)"
    and "spec_to_json fr sp = Inr js"
  shows "map_option (from_json path) (json_loads fp js) = Some (Inr sp)"
proof -
  have "js = json_text fr [] (PDict (to_json_safe sp)) @ []" using assms(5) by (simp add: spec_to_json_def json_dumps_def split: if_splits)
  then have "json_loads fp js = Some (PDict (to_json_safe sp))"
    using loads_text [of "[]" "PDict (to_json_safe sp)" fr fp "[]"] to_json_safe_clean [OF assms(1)] assms(2) by simp
  then show ?thesis using from_json_to_json [of path sp] assms(3,4) by simp
qed

text \<open>
  C25: the runner reads back the spec of the session: unless a credential or an extra variable takes the name, the variable \<open>GG_RELAY_SPEC_JSON\<close> of a container and
  of a Kubernetes job holds JSON text that parses to the spec that was submitted (for a spec of JSON values with a valid manifest).
\<close>
theorem runner_reads_spec:
  assumes "json_spec sp" and "floats_ok fr fp (PDict (to_json_safe sp))" and "path (cwd sp) = cwd sp" and "make_manifest (plugins sp) = Inr (plugins sp)"
    and "PStr ''GG_RELAY_SPEC_JSON'' \<notin> fst ` set (extra_env (plugins sp))" and "''GG_RELAY_SPEC_JSON'' \<notin> fst ` set creds"
    and "docker_build_env fr cf sp creds tr rid = Inr env" and "k8s_build_env fr shw kf sp creds tr = Inr env'"
  shows "\<exists>js. map_of env (PStr ''GG_RELAY_SPEC_JSON'') = Some (PStr js) \<and> map_of env' (PStr ''GG_RELAY_SPEC_JSON'') = Some (PStr js)
     \<and> map_option (from_json path) (json_loads fp js) = Some (Inr sp)"
proof -
  obtain js where js: "spec_to_json fr sp = Inr js" using assms(7) by (cases "spec_to_json fr sp") (auto simp: docker_build_env_def)
  have c: "PStr ''GG_RELAY_SPEC_JSON'' \<notin> fst ` set (map (\<lambda>(k, v). (PStr k, v)) creds)"
    "PStr ''GG_RELAY_SPEC_JSON'' \<notin> fst ` set (map (\<lambda>(k, v). (PStr k, PStr (env_text shw v))) (filter (\<lambda>(k, v). v \<noteq> PNone) creds))"
    using assms(6) by force+
  have "map_of env (PStr ''GG_RELAY_SPEC_JSON'') = Some (PStr js)"
    using assms(7) js
    by (auto simp: docker_build_env_def Let_def put_all_skips [OF assms(5)] put_all_skips [OF c(1)] to_env_skips put_all_skips split: option.splits)
  moreover have "map_of env' (PStr ''GG_RELAY_SPEC_JSON'') = Some (PStr js)"
    using assms(8) js
    by (auto simp: k8s_build_env_def Let_def put_all_skips [OF assms(5)] put_all_skips [OF c(2)] to_env_skips)
  ultimately show ?thesis using spec_text_read_back [of sp fr fp path js] assms(1-4) js by blast
qed

text \<open>The extra variables of a spec win over everything, the proxy included: the confinement to the proxy is the caller's choice.\<close>

lemma extra_env_wins:
  assumes "docker_build_env fr cf sp creds tr rid = Inr env" and "map_of (rev (extra_env (plugins sp))) k = Some v"
  shows "map_of env k = Some v"
  using assms by (cases "spec_to_json fr sp") (auto simp: docker_build_env_def Let_def env_put_get)

theorem runner_reads_spec_witness:
  "\<exists>env env' js. docker_build_env (\<lambda>_. ''0.0'') (de_cfg demo_docker) demo_spec [] [] ''r'' = Inr env
     \<and> k8s_build_env (\<lambda>_. ''0.0'') (\<lambda>_. []) demo_k8s demo_spec [] [] = Inr env'
     \<and> map_of env (PStr ''GG_RELAY_SPEC_JSON'') = Some (PStr js) \<and> map_option (from_json id) (json_loads (\<lambda>_. Fin 0) js) = Some (Inr demo_spec)"
proof -
  obtain env where d: "docker_build_env (\<lambda>_. ''0.0'') (de_cfg demo_docker) demo_spec [] [] ''r'' = Inr env"
    using demo_job_spec by (auto simp: docker_build_env_def spec_to_json_def json_dumps_def Let_def)
  obtain env' where k: "k8s_build_env (\<lambda>_. ''0.0'') (\<lambda>_. []) demo_k8s demo_spec [] [] = Inr env'"
    using demo_job_spec by (auto simp: k8s_build_env_def spec_to_json_def json_dumps_def Let_def)
  have "json_spec demo_spec" "floats_ok (\<lambda>_. ''0.0'') (\<lambda>_. Fin 0) (PDict (to_json_safe demo_spec))" "id (cwd demo_spec) = cwd demo_spec"
      "make_manifest (plugins demo_spec) = Inr (plugins demo_spec)" "PStr ''GG_RELAY_SPEC_JSON'' \<notin> fst ` set (extra_env (plugins demo_spec))"
    by (simp_all add: demo_spec_def json_spec_def clean_pairs_def make_manifest_def to_json_safe_def manifest_json_def pair_list_def)
  then show ?thesis using runner_reads_spec [of demo_spec "\<lambda>_. ''0.0''" "\<lambda>_. Fin 0" id "[]", OF _ _ _ _ _ _ d k] d k by auto
qed

end
