(* ===== verification/Im_Notify.thy ===== *)
theory Im_Notify
  imports Transports Sessions_Api
begin

text \<open>
  Chat notifications and approvals: the cards of \<open>im/card.py\<close> as \<open>FeishuCardBuilder\<close> renders them and
  the Feishu transport with its token cache and signature check (\<open>im/backends/feishu.py\<close>), the subscriber
  that turns events into cards (\<open>im/subscriber.py\<close>), and the webhook through which a pressed button
  decides a pending tool request (\<open>im/router.py\<close>). The HMAC is a parameter \<open>sign\<close>, from the signing key
  to the signature in base64; an HTTP call to Feishu enters by what came back.
\<close>

section \<open>Cards\<close>

record card_action =
  ca_label :: string
  ca_payload :: pydict
  ca_style :: string

record card =
  payload :: pydict
  channel :: "string option"
  actions :: "card_action list"
  metadata :: pydict

abbreviation linefeed :: string where
  "linefeed \<equiv> [CHR 0x0A]"

abbreviation field :: "string \<Rightarrow> string \<Rightarrow> pyval \<times> pyval" where
  "field k v \<equiv> (PStr k, PStr v)"

definition str_of :: "(pyval \<Rightarrow> string) \<Rightarrow> pyval \<Rightarrow> string" where
  "str_of shw v = (case v of PStr s \<Rightarrow> s | _ \<Rightarrow> shw v)"

text \<open>\<open>json.dumps(args, sort_keys=True)\<close> for printable texts; keys that are not texts fall back to \<open>repr\<close>.\<close>

definition key_str :: "pyval \<times> pyval \<Rightarrow> string" where
  "key_str kv = (case fst kv of PStr s \<Rightarrow> s | _ \<Rightarrow> [])"

fun json_sorted :: "pyval \<Rightarrow> pyval"
and sorted_items :: "pyval list \<Rightarrow> pyval list"
and sorted_pairs :: "pydict \<Rightarrow> pydict" where
  "json_sorted (PList xs) = PList (sorted_items xs)"
| "json_sorted (PTuple xs) = PTuple (sorted_items xs)"
| "json_sorted (PDict d) = PDict (sort_key key_str (sorted_pairs d))"
| "json_sorted v = v"
| "sorted_items [] = []"
| "sorted_items (x # xs) = json_sorted x # sorted_items xs"
| "sorted_pairs [] = []"
| "sorted_pairs ((k, v) # d) = (k, json_sorted v) # sorted_pairs d"

fun text_keys :: "pyval \<Rightarrow> bool"
and text_keys_list :: "pyval list \<Rightarrow> bool"
and text_keys_dict :: "pydict \<Rightarrow> bool" where
  "text_keys (PList xs) = text_keys_list xs"
| "text_keys (PTuple xs) = text_keys_list xs"
| "text_keys (PDict d) = text_keys_dict d"
| "text_keys _ = True"
| "text_keys_list [] = True"
| "text_keys_list (x # xs) = (text_keys x \<and> text_keys_list xs)"
| "text_keys_dict [] = True"
| "text_keys_dict ((k, v) # d) = (as_str k \<noteq> None \<and> text_keys v \<and> text_keys_dict d)"

record texts =
  tx_float :: "pyfloat \<Rightarrow> string"
  tx_show :: "pyval \<Rightarrow> string"
  tx_money :: "pyfloat \<Rightarrow> string"

definition summarise_args :: "texts \<Rightarrow> pydict \<Rightarrow> string" where
  "summarise_args tx args =
     (if text_keys (PDict args) then json_text (tx_float tx) '' '' (json_sorted (PDict args)) else tx_show tx (PDict args))"

definition plain_text :: "string \<Rightarrow> pyval" where
  "plain_text t = PDict [field ''tag'' ''plain_text'', field ''content'' t]"

definition interactive :: "string \<Rightarrow> string \<Rightarrow> string \<Rightarrow> pyval list \<Rightarrow> pydict" where
  "interactive title template content buttons =
     [(PStr ''config'', PDict [(PStr ''wide_screen_mode'', PBool True)]),
      (PStr ''header'', PDict [(PStr ''title'', plain_text title), field ''template'' template]),
      (PStr ''elements'', PList
         [PDict [field ''tag'' ''markdown'', field ''content'' content],
          PDict [field ''tag'' ''action'', (PStr ''actions'', PList buttons)]])]"

definition text_card :: "string \<Rightarrow> card" where
  "text_card t = \<lparr>payload = [field ''text'' t], channel = None, actions = [], metadata = [field ''msg_type'' ''text'']\<rparr>"

definition decision_value :: "string \<Rightarrow> string \<Rightarrow> string \<Rightarrow> pydict" where
  "decision_value sid rid decision = [field ''session_id'' sid, field ''req_id'' rid, field ''decision'' decision]"

definition decision_button :: "string \<Rightarrow> string \<Rightarrow> string \<Rightarrow> string \<Rightarrow> string \<Rightarrow> pyval" where
  "decision_button sid rid label style decision =
     PDict [field ''tag'' ''button'', (PStr ''text'', plain_text label), field ''type'' style,
            (PStr ''value'', PDict (decision_value sid rid decision))]"

definition hitl_content :: "string \<Rightarrow> string \<Rightarrow> string \<Rightarrow> string" where
  "hitl_content sid rid summary =
     ''**Session**: `'' @ sid @ ''`'' @ linefeed @ ''**req_id**: `'' @ rid @ ''`'' @ linefeed @
     ''**Args**:'' @ linefeed @ ''```'' @ linefeed @ take 512 summary @ linefeed @ ''```''"

definition build_hitl_card :: "texts \<Rightarrow> string \<Rightarrow> string \<Rightarrow> string \<Rightarrow> pydict \<Rightarrow> card" where
  "build_hitl_card tx sid rid tool args =
     \<lparr>payload = interactive (''HITL: '' @ tool) ''yellow'' (hitl_content sid rid (summarise_args tx args))
        [decision_button sid rid ''Approve'' ''primary'' ''accept'', decision_button sid rid ''Deny'' ''danger'' ''deny''],
      channel = None,
      actions = [\<lparr>ca_label = ''Approve'', ca_payload = decision_value sid rid ''accept'', ca_style = ''primary''\<rparr>,
                 \<lparr>ca_label = ''Deny'', ca_payload = decision_value sid rid ''deny'', ca_style = ''danger''\<rparr>],
      metadata = [field ''msg_type'' ''interactive'']\<rparr>"

definition build_session_end_card :: "texts \<Rightarrow> string \<Rightarrow> string \<Rightarrow> pyfloat \<Rightarrow> card" where
  "build_session_end_card tx sid status cost =
     text_card (''['' @ status @ ''] '' @ sid @ (if py_truthy (PFloat cost) then '' ($'' @ tx_money tx cost @ '')'' else []))"

text \<open>The arrow of the text is written in ASCII.\<close>

definition build_session_state_card :: "string \<Rightarrow> string \<Rightarrow> string \<Rightarrow> string option \<Rightarrow> card" where
  "build_session_state_card sid from_state to_state reason =
     text_card (''`'' @ sid @ ''` -> '' @ to_state @ '' (from '' @ from_state @ '')'' @
       (case reason of None \<Rightarrow> [] | Some r \<Rightarrow> if r = [] then [] else '' ('' @ r @ '')''))"

definition build_install_error_card :: "string \<Rightarrow> string \<Rightarrow> string \<Rightarrow> card" where
  "build_install_error_card sid code message = text_card (''[error:'' @ code @ ''] '' @ sid @ '' '' @ take 300 message)"

definition ALERT_TITLES :: "(string \<times> string) list" where
  "ALERT_TITLES = [(''session_failed'', ''[ALERT] Session failed''), (''session_cancelled'', ''[WARN] Session cancelled''),
     (''session_completed'', ''[OK] Session completed'')]"

definition ALERT_TEMPLATES :: "(string \<times> string) list" where
  "ALERT_TEMPLATES = [(''session_failed'', ''red''), (''session_cancelled'', ''orange''), (''session_completed'', ''green'')]"

fun lines_of :: "string list \<Rightarrow> string" where
  "lines_of [] = []"
| "lines_of [l] = l"
| "lines_of (l # ls) = l @ linefeed @ lines_of ls"

definition or_text :: "string \<Rightarrow> string option \<Rightarrow> string" where
  "or_text d s = (case s of None \<Rightarrow> d | Some t \<Rightarrow> if t = [] then d else t)"

definition build_alert_card :: "string \<Rightarrow> string \<Rightarrow> string option \<Rightarrow> string \<Rightarrow> string option \<Rightarrow> card" where
  "build_alert_card event_type sid owner why mention =
     \<lparr>payload = interactive (case map_of ALERT_TITLES event_type of Some t \<Rightarrow> t | None \<Rightarrow> ''[NOTE] Session event'')
        (case map_of ALERT_TEMPLATES event_type of Some t \<Rightarrow> t | None \<Rightarrow> ''blue'')
        (lines_of ((if or_text [] mention = [] then [] else [''<at id='' @ [CHR 0x22] @ or_text [] mention @ [CHR 0x22] @ ''></at>''])
          @ [''**Session:** `'' @ sid @ ''`'', ''**Owner:** '' @ or_text ''anon'' owner, ''**Reason:** '' @ why]))
        [PDict [field ''tag'' ''button'', (PStr ''text'', plain_text ''View''), field ''type'' ''primary'',
                field ''url'' (''/dashboard/sessions/'' @ sid)]],
      channel = None, actions = [],
      metadata = [field ''msg_type'' ''interactive'', field ''alert_event_type'' event_type, field ''mention_open_id'' (or_text [] mention)]\<rparr>"

section \<open>The subscriber\<close>

datatype method_kind = Absent | Sync | Async

definition post_init :: "bool \<Rightarrow> method_kind \<Rightarrow> py_exn + unit" where
  "post_init has_send verify = (if \<not> has_send \<or> verify \<noteq> Async then Inl TypeError else Inr ())"

text \<open>\<open>_DISPATCH\<close>: one consumer per class, each with its builder function.\<close>

definition DISPATCH :: "string list" where
  "DISPATCH = [''HITLRequested'', ''SessionCompleted'', ''SessionStateChanged'', ''InstallError'']"

fun build_card :: "texts \<Rightarrow> event_body \<Rightarrow> card option" where
  "build_card tx (HITLRequested sid rid tool args) = Some (build_hitl_card tx sid rid tool args)"
| "build_card tx (SessionCompleted sid status _ cost) = Some (build_session_end_card tx sid status cost)"
| "build_card tx (SessionStateChanged sid f t reason) = Some (build_session_state_card sid f t reason)"
| "build_card tx (InstallError sid _ code message _) = Some (build_install_error_card sid code message)"
| "build_card tx _ = None"

text \<open>A resolver that raises is logged and ignored.\<close>

definition route_card :: "(event_body \<Rightarrow> py_exn + string option) option \<Rightarrow> string option \<Rightarrow> event_body \<Rightarrow> card \<Rightarrow> card" where
  "route_card resolver dflt ev cd =
     (let r0 = (case resolver of None \<Rightarrow> None | Some f \<Rightarrow> (case f ev of Inr r \<Rightarrow> r | Inl _ \<Rightarrow> None));
          r1 = (if r0 = None then channel cd else r0);
          r2 = (if r1 = None then dflt else r1)
      in cd\<lparr>channel := r2\<rparr>)"

text \<open>
  \<open>_consume_loop\<close> over the events of one class, for any builder: an event whose card cannot be built is skipped,
  and so is a card the backend \<open>send\<close> fails on.
\<close>

fun consume_loop ::
    "(event_body \<Rightarrow> py_exn + card option) \<Rightarrow> (event_body \<Rightarrow> py_exn + string option) option \<Rightarrow> string option \<Rightarrow> (card \<Rightarrow> 's \<Rightarrow> bool \<times> 's)
     \<Rightarrow> event_body list \<Rightarrow> 's \<Rightarrow> 's" where
  "consume_loop build resolver dflt send [] s = s"
| "consume_loop build resolver dflt send (ev # evs) s = (case build ev of
     Inl _ \<Rightarrow> consume_loop build resolver dflt send evs s
   | Inr None \<Rightarrow> consume_loop build resolver dflt send evs s
   | Inr (Some cd) \<Rightarrow> consume_loop build resolver dflt send evs (snd (send (route_card resolver dflt ev cd) s)))"

section \<open>The Feishu transport\<close>

record feishu_cfg =
  fc_app_id :: "string option"
  fc_app_secret :: "string option"
  fc_webhook_secret :: "string option"
  fc_target_chat :: "string option"

record token_cache =
  token :: string
  expires_at :: rat

definition no_token :: token_cache where
  "no_token = \<lparr>token = [], expires_at = 0\<rparr>"

datatype im_exn = Raises py_exn | HttpFails

record feishu_post =
  p_token :: string
  p_receive_id :: string
  p_msg_type :: string
  p_content :: string

text \<open>
  \<open>_tenant_token\<close>. The answer of the token endpoint is \<open>None\<close> when the request or \<open>raise_for_status\<close> fails, else its JSON.
\<close>

definition tenant_token :: "feishu_cfg \<Rightarrow> rat \<Rightarrow> pyval option \<Rightarrow> token_cache \<Rightarrow> (im_exn + string) \<times> token_cache" where
  "tenant_token cf now reply tc =
     (if token tc \<noteq> [] \<and> expires_at tc > now + 60 then (Inr (token tc), tc)
      else if or_text [] (fc_app_id cf) = [] \<or> or_text [] (fc_app_secret cf) = [] then (Inl (Raises RuntimeError), tc)
      else (case reply of
          None \<Rightarrow> (Inl HttpFails, tc)
        | Some (PDict d) \<Rightarrow>
            if \<not> key_eq (dget d ''code'') (PInt 0) then (Inl (Raises RuntimeError), tc)
            else (case map_of d (PStr ''tenant_access_token'') of
                None \<Rightarrow> (Inl (Raises KeyError), tc)
              | Some v \<Rightarrow> (case num_value (dget_default d ''expire'' (PInt 7200)) of
                    None \<Rightarrow> (Inl (Raises TypeError), tc)
                  | Some secs \<Rightarrow> (Inr (str_of (\<lambda>_. []) v), \<lparr>token = str_of (\<lambda>_. []) v, expires_at = now + secs\<rparr>)))
        | Some _ \<Rightarrow> (Inl (Raises AttributeError), tc)))"

text \<open>What the transport keeps: its token and the messages posted. \<open>reaches\<close>: the final request went out; its answer is not looked at.\<close>

record feishu =
  fs_token :: token_cache
  fs_posts :: "feishu_post list"

definition post_message :: "feishu_cfg \<Rightarrow> rat \<Rightarrow> pyval option \<Rightarrow> bool \<Rightarrow> (string \<Rightarrow> py_exn + feishu_post) \<Rightarrow> feishu \<Rightarrow> (im_exn + unit) \<times> feishu" where
  "post_message cf now reply reaches mk s = (case tenant_token cf now reply (fs_token s) of
     (Inl e, tc) \<Rightarrow> (Inl e, s\<lparr>fs_token := tc\<rparr>)
   | (Inr t, tc) \<Rightarrow>
       (case mk t of
          Inl x \<Rightarrow> (Inl (Raises x), s\<lparr>fs_token := tc\<rparr>)
        | Inr p \<Rightarrow> if reaches then (Inr (), s\<lparr>fs_token := tc, fs_posts := fs_posts s @ [p]\<rparr>) else (Inl HttpFails, s\<lparr>fs_token := tc\<rparr>)))"

definition message_of :: "texts \<Rightarrow> feishu_cfg \<Rightarrow> card \<Rightarrow> string \<Rightarrow> py_exn + feishu_post" where
  "message_of tx cf cd t = (case json_dumps (tx_float tx) '' '' (PDict (payload cd)) of
     Inl x \<Rightarrow> Inl x
   | Inr content \<Rightarrow> Inr \<lparr>p_token = t, p_receive_id = or_text (or_text [] (fc_target_chat cf)) (channel cd),
       p_msg_type = str_of (tx_show tx) (py_or (dget (metadata cd) ''msg_type'') (PStr ''interactive'')), p_content = content\<rparr>)"

definition send_card :: "texts \<Rightarrow> feishu_cfg \<Rightarrow> rat \<Rightarrow> pyval option \<Rightarrow> bool \<Rightarrow> card \<Rightarrow> feishu \<Rightarrow> (im_exn + unit) \<times> feishu" where
  "send_card tx cf now reply reaches cd = post_message cf now reply reaches (message_of tx cf cd)"

text \<open>The legacy wrappers: the card of a summary text, its markdown body rewritten, and the closing message.\<close>

definition rewrite_markdown :: "string \<Rightarrow> pyval \<Rightarrow> pyval" where
  "rewrite_markdown content el = (case el of
     PDict d \<Rightarrow> if dget d ''tag'' = PStr ''markdown'' then PDict (dict_put (PStr ''content'') (PStr content) d) else el
   | _ \<Rightarrow> el)"

definition legacy_hitl_card :: "texts \<Rightarrow> string \<Rightarrow> string \<Rightarrow> string \<Rightarrow> string \<Rightarrow> pydict" where
  "legacy_hitl_card tx sid rid tool summary =
     (let d = payload (build_hitl_card tx sid rid tool [field ''_summary'' summary])
      in case dget d ''elements'' of
           PList els \<Rightarrow> dict_put (PStr ''elements'') (PList (map (rewrite_markdown (hitl_content sid rid summary)) els)) d
         | _ \<Rightarrow> d)"

definition notify_hitl_pending ::
    "texts \<Rightarrow> feishu_cfg \<Rightarrow> rat \<Rightarrow> pyval option \<Rightarrow> bool \<Rightarrow> string \<Rightarrow> string \<Rightarrow> string \<Rightarrow> string \<Rightarrow> feishu \<Rightarrow> (im_exn + unit) \<times> feishu" where
  "notify_hitl_pending tx cf now reply reaches sid rid tool summary =
     post_message cf now reply reaches (\<lambda>t. map_sum id (\<lambda>content.
       \<lparr>p_token = t, p_receive_id = or_text [] (fc_target_chat cf), p_msg_type = ''interactive'', p_content = content\<rparr>)
         (json_dumps (tx_float tx) '' '' (PDict (legacy_hitl_card tx sid rid tool summary))))"

definition notify_session_end ::
    "texts \<Rightarrow> feishu_cfg \<Rightarrow> rat \<Rightarrow> pyval option \<Rightarrow> bool \<Rightarrow> string \<Rightarrow> string \<Rightarrow> string \<Rightarrow> feishu \<Rightarrow> (im_exn + unit) \<times> feishu" where
  "notify_session_end tx cf now reply reaches sid status summary =
     post_message cf now reply reaches (\<lambda>t. map_sum id (\<lambda>content.
       \<lparr>p_token = t, p_receive_id = or_text [] (fc_target_chat cf), p_msg_type = ''text'', p_content = content\<rparr>)
         (json_dumps (tx_float tx) '' '' (PDict [field ''text'' (''['' @ status @ ''] '' @ sid @ linefeed @ take 512 summary)])))"

section \<open>The webhook\<close>

definition verify_feishu_signature :: "(string \<Rightarrow> string) \<Rightarrow> string \<Rightarrow> string \<Rightarrow> string option \<Rightarrow> bool" where
  "verify_feishu_signature sign timestamp secret received =
     (or_text [] received \<noteq> [] \<and> received = Some (sign (timestamp @ linefeed @ secret)))"

text \<open>Header names are compared without case.\<close>

definition header :: "(string \<times> string) list \<Rightarrow> string \<Rightarrow> string option" where
  "header hs name = map_option snd (find (\<lambda>(k, v). str_lower k = str_lower name) hs)"

definition verify_webhook :: "(string \<Rightarrow> string) \<Rightarrow> feishu_cfg \<Rightarrow> (string \<times> string) list \<Rightarrow> string \<Rightarrow> bool" where
  "verify_webhook sign cf hs bytes =
     (let secret = or_text [] (fc_webhook_secret cf)
      in secret \<noteq> [] \<and>
         verify_feishu_signature sign (case header hs ''X-Lark-Request-Timestamp'' of None \<Rightarrow> [] | Some t \<Rightarrow> t) secret (header hs ''X-Lark-Signature''))"

text \<open>\<open>":" in rid\<close>.\<close>

definition has_colon :: "pyval \<Rightarrow> py_exn + bool" where
  "has_colon v = (case v of
     PStr s \<Rightarrow> Inr (CHR '':'' \<in> set s)
   | PList xs \<Rightarrow> Inr (PStr '':'' \<in> set xs)
   | PTuple xs \<Rightarrow> Inr (PStr '':'' \<in> set xs)
   | PDict d \<Rightarrow> Inr (PStr '':'' \<in> fst ` set d)
   | _ \<Rightarrow> Inl TypeError)"

definition toast :: "string \<Rightarrow> string \<Rightarrow> pyval" where
  "toast kind content = PDict [(PStr ''toast'', PDict [field ''type'' kind, field ''content'' content])]"

text \<open>
  The end of \<open>_process_feishu_callback\<close>, from the fields of the pressed button on. A key that is a list cannot be
  looked up; \<open>HITLAlreadyResolved\<close> is not a \<open>HITLNotPending\<close> and goes through to the server (shown as \<open>RuntimeError\<close>).
\<close>

definition decide_from_chat ::
    "(pyval \<Rightarrow> string) \<Rightarrow> store \<Rightarrow> pyval \<Rightarrow> pyval \<Rightarrow> string \<Rightarrow> pyval \<Rightarrow> coord \<Rightarrow> pyval answer \<times> coord" where
  "decide_from_chat shw db sid rid decision user c = (case has_colon rid of
     Inl x \<Rightarrow> (Crash x, c)
   | Inr b \<Rightarrow>
       if b \<and> as_str rid = None then (Crash TypeError, c)
       else (case Hitl_Coordinator.resolve (if b then str_of shw rid else str_of shw sid @ '':'' @ str_of shw rid) decision
                (Some (''im_approval:feishu:'' @ str_of shw user)) db c of
           (Inr _, c1) \<Rightarrow> (Answer 200 (toast ''success'' (decision @ '' recorded'')), c1)
         | (Inl (HITLAlreadyResolved _), c1) \<Rightarrow> (Crash RuntimeError, c1)
         | (Inl _, c1) \<Rightarrow> (Answer 200 (toast ''info'' ''already resolved''), c1)))"

definition pressed :: "(pyval \<Rightarrow> string) \<Rightarrow> store \<Rightarrow> pydict \<Rightarrow> coord \<Rightarrow> pyval answer \<times> coord" where
  "pressed shw db p c = (case py_or (dget p ''action'') (PDict []) of
     PDict a \<Rightarrow> (case py_or (dget a ''value'') (PDict []) of
         PDict v \<Rightarrow>
           (let sid = dget v ''session_id''; rid = dget v ''req_id''; raw = dget v ''decision'' in
            if \<not> py_truthy sid \<or> \<not> py_truthy rid then (detail 400 ''missing action fields'', c)
            else if \<not> hashable raw then (Crash TypeError, c)
            else if raw \<notin> {PStr ''accept'', PStr ''deny''} then (detail 400 ''missing action fields'', c)
            else (case dget_default p ''operator'' (PDict []) of
                PDict o1 \<Rightarrow> decide_from_chat shw db sid rid (str_of shw raw) (dget_default o1 ''open_id'' (PStr ''unknown'')) c
              | _ \<Rightarrow> (Crash AttributeError, c)))
       | _ \<Rightarrow> (Crash AttributeError, c))
   | _ \<Rightarrow> (Crash AttributeError, c))"

definition process_feishu_callback ::
    "(string \<Rightarrow> string) \<Rightarrow> (string \<Rightarrow> pyfloat) \<Rightarrow> (pyval \<Rightarrow> string) \<Rightarrow> feishu_cfg \<Rightarrow> (string \<times> string) list \<Rightarrow> string \<Rightarrow> store \<Rightarrow> coord
     \<Rightarrow> pyval answer \<times> coord" where
  "process_feishu_callback sign fp shw cf hs bytes db c =
     (if \<not> verify_webhook sign cf hs bytes then (detail 401 ''bad signature'', c)
      else (case utf8 bytes of
          None \<Rightarrow> (Crash ValueError, c)
        | Some t \<Rightarrow> (case json_loads fp t of
            None \<Rightarrow> (detail 400 ''malformed payload'', c)
          | Some (PDict p) \<Rightarrow>
              if dget p ''type'' = PStr ''url_verification''
              then (Answer 200 (PDict [(PStr ''challenge'', dget_default p ''challenge'' (PStr []))]), c)
              else pressed shw db p c
          | Some _ \<Rightarrow> (Crash AttributeError, c))))"

text \<open>Both routes; the answer of the alias carries the deprecation headers, unless nothing caught the error.\<close>

definition webhook_canonical ::
    "(string \<Rightarrow> string) \<Rightarrow> (string \<Rightarrow> pyfloat) \<Rightarrow> (pyval \<Rightarrow> string) \<Rightarrow> feishu_cfg option \<Rightarrow> (string \<times> string) list \<Rightarrow> string \<Rightarrow> store \<Rightarrow> coord
     \<Rightarrow> pyval answer \<times> coord" where
  "webhook_canonical sign fp shw backend hs bytes db c = (case backend of
     None \<Rightarrow> (detail 503 ''im backend not configured'', c)
   | Some cf \<Rightarrow> process_feishu_callback sign fp shw cf hs bytes db c)"

definition ALIAS_DEPRECATION_HEADERS :: "(string \<times> string) list" where
  "ALIAS_DEPRECATION_HEADERS = [(''Deprecation'', ''true''), (''Link'', ''</api/v1/webhooks/feishu>; rel='' @ [CHR 0x22] @ ''successor-version'' @ [CHR 0x22])]"

definition webhook_alias ::
    "(string \<Rightarrow> string) \<Rightarrow> (string \<Rightarrow> pyfloat) \<Rightarrow> (pyval \<Rightarrow> string) \<Rightarrow> feishu_cfg option \<Rightarrow> (string \<times> string) list \<Rightarrow> string \<Rightarrow> store \<Rightarrow> coord
     \<Rightarrow> (pyval \<times> (string \<times> string) list) answer \<times> coord" where
  "webhook_alias sign fp shw backend hs bytes db c = (case backend of
     None \<Rightarrow> (detail 503 ''im backend not configured'', c)
   | Some cf \<Rightarrow> (case process_feishu_callback sign fp shw cf hs bytes db c of
        (Answer st v, c1) \<Rightarrow> (Answer st (v, ALIAS_DEPRECATION_HEADERS), c1)
      | (HttpError st d h, c1) \<Rightarrow> (HttpError st d (h @ ALIAS_DEPRECATION_HEADERS), c1)
      | (Refusal r, c1) \<Rightarrow> (Refusal r, c1)
      | (Crash x, c1) \<Rightarrow> (Crash x, c1)))"

section \<open>Decisions taken in the chat\<close>

text \<open>What a reader of a posted message finds: the labelled buttons of the card with the value each sends back.\<close>

definition button_of :: "pyval \<Rightarrow> (string \<times> pydict) option" where
  "button_of b = (case b of
     PDict bd \<Rightarrow> (case dget bd ''text'' of
         PDict t \<Rightarrow> (case dget t ''content'' of
             PStr label \<Rightarrow> (case dget bd ''value'' of PDict v \<Rightarrow> Some (label, v) | _ \<Rightarrow> None)
           | _ \<Rightarrow> None)
       | _ \<Rightarrow> None)
   | _ \<Rightarrow> None)"

definition buttons_in :: "pyval \<Rightarrow> (string \<times> pydict) list" where
  "buttons_in el = (case el of
     PDict d \<Rightarrow> (case dget d ''actions'' of PList bs \<Rightarrow> List.map_filter button_of bs | _ \<Rightarrow> [])
   | _ \<Rightarrow> [])"

definition buttons :: "pyval \<Rightarrow> (string \<times> pydict) list" where
  "buttons shown = (case shown of
     PDict d \<Rightarrow> (case dget d ''elements'' of PList els \<Rightarrow> concat (map buttons_in els) | _ \<Rightarrow> [])
   | _ \<Rightarrow> [])"

lemmas card_defs = build_hitl_card_def interactive_def plain_text_def decision_button_def decision_value_def

lemma hitl_buttons:
  "buttons (PDict (payload (build_hitl_card tx sid rid tool args))) =
     [(''Approve'', decision_value sid rid ''accept''), (''Deny'', decision_value sid rid ''deny'')]"
  by (simp add: card_defs buttons_def buttons_in_def button_of_def dget_def List.map_filter_def)

lemma hitl_card_clean: "json_clean (PDict (payload (build_hitl_card tx sid rid tool args)))"
  and hitl_card_floats: "floats_ok fr fp (PDict (payload (build_hitl_card tx sid rid tool args)))"
  by (simp_all add: card_defs)

text \<open>A message that went out is the JSON of the card.\<close>

lemma send_card_posts:
  assumes "send_card tx cf now reply reaches cd s = (Inr (), s')"
  obtains p where "fs_posts s' = fs_posts s @ [p]" "p_content p = json_text (tx_float tx) '' '' (PDict (payload cd))"
  using assms by (auto simp: send_card_def post_message_def message_of_def json_dumps_def split: sum.splits prod.splits if_splits)

lemma posted_card_read:
  assumes "send_card tx cf now reply reaches (build_hitl_card tx sid rid tool args) s = (Inr (), s')" "fs_posts s' = fs_posts s @ [p]"
  shows "json_loads fp (p_content p) = Some (PDict (payload (build_hitl_card tx sid rid tool args)))"
proof -
  obtain p1 where "fs_posts s' = fs_posts s @ [p1]"
      "p_content p1 = json_text (tx_float tx) '' '' (PDict (payload (build_hitl_card tx sid rid tool args)))"
    by (rule send_card_posts [OF assms(1)])
  then show ?thesis
    using loads_text [of "'' ''" "PDict (payload (build_hitl_card tx sid rid tool args))" "tx_float tx" fp "[]"] hitl_card_clean hitl_card_floats assms(2)
    by (simp add: json_space_def)
qed

lemma decision_fields:
  "dget (decision_value sid rid d) ''session_id'' = PStr sid" "dget (decision_value sid rid d) ''req_id'' = PStr rid"
  "dget (decision_value sid rid d) ''decision'' = PStr d"
  by (simp_all add: decision_value_def dget_def)

lemma full_id: "(if CHR '':'' \<in> set rid then rid else sid @ '':'' @ rid) = full_req_id sid rid"
  by (simp add: full_req_id_def)

lemma pressed_decides:
  assumes "dget b ''action'' = PDict a" "dget a ''value'' = PDict (decision_value sid rid d)" "d \<in> {''accept'', ''deny''}"
    and "dget_default b ''operator'' (PDict []) = PDict o1" "dget_default o1 ''open_id'' (PStr ''unknown'') = PStr u" "sid \<noteq> []" "rid \<noteq> []"
  shows "pressed shw db b c = decide_from_chat shw db (PStr sid) (PStr rid) d (PStr u) c"
proof -
  have "a \<noteq> []" using assms(2) by (auto simp: dget_def)
  then show ?thesis
    using assms by (auto simp: pressed_def py_or_def decision_fields str_of_def Let_def) (auto simp: decision_value_def)
qed

text \<open>No decision on the request has been written to the table the coordinator consults.\<close>

definition undecided :: "string \<Rightarrow> store \<Rightarrow> coord \<Rightarrow> bool" where
  "undecided rid db c = (store_attached c \<longrightarrow> (case get_hitl rid db of None \<Rightarrow> True | Some row \<Rightarrow> h_status row = ''pending''))"

definition decided_by_chat :: "string \<Rightarrow> string \<Rightarrow> string \<Rightarrow> pending_entry \<Rightarrow> coord \<Rightarrow> coord" where
  "decided_by_chat rid d u e c = c\<lparr>pend := AList.update rid (e\<lparr>e_future := Some (d, Some (''im_approval:feishu:'' @ u))\<rparr>) (pend c)\<rparr>"

lemma fire_Inr:
  "fire k d w c = (Inr x, c1) \<longleftrightarrow>
     (\<exists>e. map_of (pend c) k = Some e \<and> e_future e = None \<and> c1 = c\<lparr>pend := AList.update k (e\<lparr>e_future := Some (d, w)\<rparr>) (pend c)\<rparr>)"
  unfolding fire_def by (cases "map_of (pend c) k"; cases "e_future (the (map_of (pend c) k))") auto

lemma resolve_Inr:
  "Hitl_Coordinator.resolve k d w db c = (Inr x, c1) \<longleftrightarrow> undecided k db c \<and> fire k d w c = (Inr x, c1)"
  unfolding Hitl_Coordinator.resolve_def undecided_def by (cases "store_attached c"; cases "get_hitl k db") auto

lemma resolve_Inl: "Hitl_Coordinator.resolve k d w db c = (Inl x, c1) \<Longrightarrow> c1 = c"
  by (auto simp: Hitl_Coordinator.resolve_def fire_def split: option.splits if_splits)

lemma decide_from_chat_text:
  "decide_from_chat shw db (PStr sid) (PStr rid) d (PStr u) c =
     (case Hitl_Coordinator.resolve (full_req_id sid rid) d (Some (''im_approval:feishu:'' @ u)) db c of
        (Inr _, c1) \<Rightarrow> (Answer 200 (toast ''success'' (d @ '' recorded'')), c1)
      | (Inl (HITLAlreadyResolved _), c1) \<Rightarrow> (Crash RuntimeError, c1)
      | (Inl _, c1) \<Rightarrow> (Answer 200 (toast ''info'' ''already resolved''), c1))"
  by (simp add: decide_from_chat_def has_colon_def str_of_def full_req_id_def)

lemma decide_fires:
  assumes "map_of (pend c) (full_req_id sid rid) = Some e" "e_future e = None" "undecided (full_req_id sid rid) db c"
  shows "decide_from_chat shw db (PStr sid) (PStr rid) d (PStr u) c
    = (Answer 200 (toast ''success'' (d @ '' recorded'')), decided_by_chat (full_req_id sid rid) d u e c)"
proof -
  have "Hitl_Coordinator.resolve (full_req_id sid rid) d (Some (''im_approval:feishu:'' @ u)) db c = (Inr (), decided_by_chat (full_req_id sid rid) d u e c)"
    using assms unfolding resolve_Inr fire_Inr decided_by_chat_def by blast
  then show ?thesis unfolding decide_from_chat_text by simp
qed

text \<open>
  C18: a decision makes the round trip through the chat. The message posted for a pending tool request shows two buttons, Approve and Deny; when the platform sends
  back the value of the pressed one unchanged in a callback with a valid signature, exactly that request gets exactly that decision, with the
  operator in the reason, and nothing else pending changes.
\<close>
theorem approval_round_trip:
  assumes "send_card tx cf now reply reaches (build_hitl_card tx sid rid tool args) s = (Inr (), s')" and "fs_posts s' = fs_posts s @ [p]"
    and "json_loads fp (p_content p) = Some shown" and "(label, v) \<in> set (buttons shown)"
    and "verify_webhook sign cf hs bytes" and "utf8 bytes = Some t" and "json_loads fp t = Some (PDict b)"
    and "dget b ''type'' \<noteq> PStr ''url_verification''" and "dget b ''action'' = PDict a" and "dget a ''value'' = PDict v"
    and "dget_default b ''operator'' (PDict []) = PDict o1" and "dget_default o1 ''open_id'' (PStr ''unknown'') = PStr u"
    and "sid \<noteq> []" and "rid \<noteq> []"
    and "map_of (pend c) (full_req_id sid rid) = Some e" and "e_future e = None" and "undecided (full_req_id sid rid) db c"
  shows "\<exists>d. (label, d) \<in> {(''Approve'', ''accept''), (''Deny'', ''deny'')}
    \<and> process_feishu_callback sign fp shw cf hs bytes db c
      = (Answer 200 (toast ''success'' (d @ '' recorded'')), decided_by_chat (full_req_id sid rid) d u e c)"
proof -
  obtain d where d: "(label, d) \<in> {(''Approve'', ''accept''), (''Deny'', ''deny'')}" "v = decision_value sid rid d"
    using assms(3,4) posted_card_read [OF assms(1,2), of fp] by (auto simp: hitl_buttons)
  have "pressed shw db b c = decide_from_chat shw db (PStr sid) (PStr rid) d (PStr u) c"
    using pressed_decides [OF assms(9)] assms(10-14) d by auto
  then show ?thesis
    using d(1) assms(5-8) decide_fires [OF assms(15-17)] by (auto simp: process_feishu_callback_def)
qed

definition chat_step :: "store \<Rightarrow> coord \<Rightarrow> pyval answer \<Rightarrow> coord \<Rightarrow> bool" where
  "chat_step db c r c' \<longleftrightarrow>
     (\<exists>k e d u. d \<in> {''accept'', ''deny''} \<and> map_of (pend c) k = Some e \<and> e_future e = None \<and> undecided k db c
        \<and> r = Answer 200 (toast ''success'' (d @ '' recorded'')) \<and> c' = decided_by_chat k d u e c)
     \<or> (c' = c \<and> (\<forall>t. r \<noteq> Answer 200 (toast ''success'' t)))"

lemma chat_step_same:
  "chat_step db c (detail st t) c" "chat_step db c (Crash x) c" "chat_step db c (Answer 200 (toast ''info'' t)) c"
  "chat_step db c (Answer 200 (PDict [(PStr ''challenge'', v)])) c"
  by (auto simp: chat_step_def detail_def toast_def)

lemma decide_step:
  assumes "d \<in> {''accept'', ''deny''}"
  shows "case decide_from_chat shw db sid rid d w c of (r, c') \<Rightarrow> chat_step db c r c'"
proof (cases "has_colon rid")
  case (Inr b)
  let ?k = "if b then str_of shw rid else str_of shw sid @ '':'' @ str_of shw rid"
  obtain x c1 where x: "Hitl_Coordinator.resolve ?k d (Some (''im_approval:feishu:'' @ str_of shw w)) db c = (x, c1)" by (rule prod.exhaust)
  show ?thesis
  proof (cases "b \<and> as_str rid = None")
    case no: False
    show ?thesis
    proof (cases x)
      case (Inl y)
      then have "c1 = c" using x resolve_Inl by blast
      then show ?thesis
        using no Inr x Inl by (cases y) (simp_all add: decide_from_chat_def chat_step_same del: append.simps)
    next
      case ok: (Inr y)
      then have "\<exists>e. map_of (pend c) ?k = Some e \<and> e_future e = None \<and> undecided ?k db c \<and> c1 = decided_by_chat ?k d (str_of shw w) e c"
        using x unfolding ok resolve_Inr fire_Inr decided_by_chat_def by blast
      then have "chat_step db c (Answer 200 (toast ''success'' (d @ '' recorded''))) c1"
        using assms unfolding chat_step_def by blast
      then show ?thesis
        using no Inr x ok by (auto simp add: decide_from_chat_def simp del: append.simps)
    qed
  qed (use Inr chat_step_same in \<open>auto simp: decide_from_chat_def\<close>)
qed (use chat_step_same in \<open>auto simp: decide_from_chat_def\<close>)

lemma pressed_step: "case pressed shw db b c of (r, c') \<Rightarrow> chat_step db c r c'"
  unfolding pressed_def Let_def
  by (simp add: chat_step_same split: pyval.split) (use decide_step [where shw = shw and db = db and c = c] in \<open>auto simp: str_of_def\<close>)

lemma callback_step: "case process_feishu_callback sign fp shw cf hs bytes db c of (r, c') \<Rightarrow> chat_step db c r c'"
  unfolding process_feishu_callback_def using pressed_step by (simp add: chat_step_same split: pyval.split option.split)


definition demo_feishu :: feishu_cfg where
  "demo_feishu = \<lparr>fc_app_id = Some ''a'', fc_app_secret = Some ''b'', fc_webhook_secret = Some ''k'', fc_target_chat = Some ''ops''\<rparr>"

definition demo_texts :: texts where
  "demo_texts = \<lparr>tx_float = (\<lambda>_. ''0.0''), tx_show = (\<lambda>_. []), tx_money = (\<lambda>_. ''0.0000'')\<rparr>"

definition demo_press :: pydict where
  "demo_press = [(PStr ''operator'', PDict [field ''open_id'' ''ou_1'']),
     (PStr ''action'', PDict [(PStr ''value'', PDict (decision_value ''s1'' ''s1:r'' ''accept''))])]"

definition demo_pending :: coord where
  "demo_pending = \<lparr>pend = [(''s1:r'', \<lparr>e_tool = ''Bash'', e_args = [], e_future = None, e_session = ''s1''\<rparr>)], store_attached = False\<rparr>"

definition demo_headers :: "(string \<times> string) list" where
  "demo_headers = [(''x-lark-request-timestamp'', ''7''), (''x-lark-signature'', ''7'' @ linefeed @ ''k'')]"

definition demo_sent :: feishu where
  "demo_sent = \<lparr>fs_token = \<lparr>token = ''t'', expires_at = 100\<rparr>, fs_posts = []\<rparr>"

definition demo_bytes :: string where
  "demo_bytes = json_text (\<lambda>_. ''0.0'') [] (PDict demo_press)"

lemma demo_press_read:
  "utf8 demo_bytes = Some demo_bytes"
  "json_loads fp demo_bytes = Some (PDict demo_press)"
proof -
  have c: "json_clean (PDict demo_press)" "floats_ok (\<lambda>_. ''0.0'') fp (PDict demo_press)" for fp
    by (simp_all add: demo_press_def decision_value_def)
  then show "utf8 demo_bytes = Some demo_bytes"
    unfolding demo_bytes_def using text_printable(1) [of "[]" "\<lambda>_. ''0.0''" _ "PDict demo_press"] by (intro utf8_ascii) (auto simp: list_all_iff printable_def)
  show "json_loads fp demo_bytes = Some (PDict demo_press)"
    unfolding demo_bytes_def using loads_text [of "[]" "PDict demo_press" "\<lambda>_. ''0.0''" fp "[]"] c by simp
qed

lemma demo_signed: "verify_webhook id demo_feishu demo_headers bytes"
proof -
  have "header demo_headers ''X-Lark-Signature'' = Some (''7'' @ linefeed @ ''k'')" "header demo_headers ''X-Lark-Request-Timestamp'' = Some ''7''"
    by code_simp+
  then show ?thesis by (simp add: verify_webhook_def verify_feishu_signature_def demo_feishu_def or_text_def)
qed

lemma demo_facts:
  "dget demo_press ''type'' = PNone" "dget demo_press ''action'' = PDict [(PStr ''value'', PDict (decision_value ''s1'' ''s1:r'' ''accept''))]"
  "dget [(PStr ''value'', x)] ''value'' = x" "dget_default demo_press ''operator'' y = PDict [field ''open_id'' ''ou_1'']"
  "dget_default [field ''open_id'' ''ou_1''] ''open_id'' y = PStr ''ou_1''" "full_req_id ''s1'' ''s1:r'' = ''s1:r''"
  "map_of (pend demo_pending) ''s1:r'' = Some \<lparr>e_tool = ''Bash'', e_args = [], e_future = None, e_session = ''s1''\<rparr>" "undecided k db demo_pending"
  by (simp_all add: demo_press_def dget_def dget_default_def full_req_id_def demo_pending_def undecided_def)

theorem approval_round_trip_witness:
  "process_feishu_callback id (\<lambda>_. NaN) (\<lambda>_. []) demo_feishu demo_headers demo_bytes
      \<lparr>fk = True, sessions = [], frames = [], traces = [], hitl_requests = []\<rparr> demo_pending
   = (Answer 200 (toast ''success'' ''accept recorded''),
      decided_by_chat ''s1:r'' ''accept'' ''ou_1'' \<lparr>e_tool = ''Bash'', e_args = [], e_future = None, e_session = ''s1''\<rparr> demo_pending)"
proof -
  let ?cd = "build_hitl_card demo_texts ''s1'' ''s1:r'' ''Bash'' []"
  obtain s' where s: "send_card demo_texts demo_feishu 0 None True ?cd demo_sent = (Inr (), s')"
    by (simp add: send_card_def post_message_def message_of_def tenant_token_def demo_sent_def json_dumps_def card_defs)
  obtain p where p: "fs_posts s' = fs_posts demo_sent @ [p]" by (rule send_card_posts [OF s])
  show ?thesis
    using approval_round_trip [OF s p posted_card_read [OF s p, of "\<lambda>_. NaN"], where label = "''Approve''" and v = "decision_value ''s1'' ''s1:r'' ''accept''"
        and sign = id and hs = demo_headers and bytes = demo_bytes and b = demo_press
        and a = "[(PStr ''value'', PDict (decision_value ''s1'' ''s1:r'' ''accept''))]" and ?o1.0 = "[field ''open_id'' ''ou_1'']" and u = "''ou_1''"
        and c = demo_pending and e = "\<lparr>e_tool = ''Bash'', e_args = [], e_future = None, e_session = ''s1''\<rparr>"
        and db = "\<lparr>fk = True, sessions = [], frames = [], traces = [], hitl_requests = []\<rparr>" and shw = "\<lambda>_. []"]
    by (simp add: hitl_buttons demo_signed demo_press_read demo_facts)
qed


text \<open>
  The signature covers the time stamp and the secret only, and the time stamp is not compared with any clock: one observed pair of
  headers authenticates every later body.
\<close>

lemma signature_ignores_body: "verify_webhook sign cf hs b1 \<Longrightarrow> verify_webhook sign cf hs b2"
  by (simp add: verify_webhook_def)

text \<open>A button pressed after the decision was written through the API does not tell the operator so but fails.\<close>

lemma late_click_fails:
  assumes "store_attached c" "get_hitl (full_req_id sid rid) db = Some row" "h_status row \<noteq> ''pending''"
  shows "decide_from_chat shw db (PStr sid) (PStr rid) d (PStr u) c = (Crash RuntimeError, c)"
  unfolding decide_from_chat_text using assms by (simp add: Hitl_Coordinator.resolve_def)

text \<open>
  A runner in a container has no session id and registers its requests as \<open>r-...\<close>. Both the chat and the endpoint look for
  the id with the session in front: the request stays pending, whatever is decided.
\<close>

lemma bare_request_unreachable:
  assumes "CHR '':'' \<notin> set rid" "map_of (pend c) (sid @ '':'' @ rid) = None" "undecided (sid @ '':'' @ rid) db c"
  shows "decide_from_chat shw db (PStr sid) (PStr rid) d (PStr u) c = (Answer 200 (toast ''info'' ''already resolved''), c)"
    and "resolve_endpoint sid rid d reason resolver now (\<lparr>w_db = db, w_coord = c, w_audit = a, w_audits = as\<rparr>, [])
         = (Conflict (sid @ '':'' @ rid) (map_option decision_from_row (get_hitl (sid @ '':'' @ rid) db)), \<lparr>w_db = db, w_coord = c, w_audit = a, w_audits = as\<rparr>)"
proof -
  have f: "full_req_id sid rid = sid @ '':'' @ rid" using assms(1) by (simp add: full_req_id_def)
  have r: "Hitl_Coordinator.resolve (sid @ '':'' @ rid) d w db c = (Inl HITLNotPending, c)" for w
    using assms(2,3) by (auto simp: Hitl_Coordinator.resolve_def fire_def undecided_def split: option.splits)
  show "decide_from_chat shw db (PStr sid) (PStr rid) d (PStr u) c = (Answer 200 (toast ''info'' ''already resolved''), c)"
    unfolding decide_from_chat_text f r by simp
  show "resolve_endpoint sid rid d reason resolver now (\<lparr>w_db = db, w_coord = c, w_audit = a, w_audits = as\<rparr>, [])
         = (Conflict (sid @ '':'' @ rid) (map_option decision_from_row (get_hitl (sid @ '':'' @ rid) db)), \<lparr>w_db = db, w_coord = c, w_audit = a, w_audits = as\<rparr>)"
    unfolding resolve_endpoint_def f Let_def by (simp add: Hitl_Coordinator.await_def r [simplified] conflict_response_def)
qed

text \<open>No frame of a runner becomes a \<open>HITLRequested\<close> event, and nothing else creates one: the approval card is never sent.\<close>

lemma hitl_never_announced: "frame_to_event sid f = Inr (Some ev) \<Longrightarrow> ev \<noteq> HITLRequested s rid tool args"
  by (auto simp: frame_to_event_def FRAME_TO_EVENT_def factory_defs split: pyval.splits option.splits sum.splits if_splits)

text \<open>The cards of one class go out in the order of their events, each to the channel of the resolver, else of the card, else the default.\<close>

lemma cards_in_order:
  "consume_loop build resolver dflt (\<lambda>cd s. (ok cd, s @ [cd])) evs s =
     s @ List.map_filter (\<lambda>ev. case build ev of Inr (Some cd) \<Rightarrow> Some (route_card resolver dflt ev cd) | _ \<Rightarrow> None) evs"
  by (induction evs arbitrary: s) (auto simp: List.map_filter_def split: sum.splits option.splits)

text \<open>A token handed out is never within a minute of its expiry when it comes from the cache.\<close>

lemma cached_token_fresh:
  assumes "tenant_token cf now None tc = (Inr t, tc')"
  shows "tc' = tc \<and> t = token tc \<and> expires_at tc > now + 60"
  using assms by (auto simp: tenant_token_def split: if_splits)

end
