(* ===== verification/Alerts.thy ===== *)
theory Alerts
  imports Im_Notify
begin

text \<open>
  Alerts about ended sessions: the subscriber that filters terminal transitions and looks up owner and tags
  (\<open>subscribers/failure_subscriber.py\<close>) and the router that matches rules, keeps a cooldown per kind of alert and
  sends the card (\<open>subscribers/alert_router.py\<close>). The monotonic clock is an argument of each alert.
\<close>

section \<open>The router\<close>

type_synonym alert_key = "string \<times> string \<times> string"

record alert_router =
  rules :: "(string, string list) od"
  user_mapping :: "(string \<times> string) list"
  wired :: bool
  default_channel :: "string option"
  cooldown_s :: rat
  last_alert :: "(alert_key, rat) od"

definition DEFAULT_RULES :: "(string, string list) od" where
  "DEFAULT_RULES = [(''fail'', [''always'']), (''cancel'', [''timeout'', ''timeout_recovered'', ''paused_timeout'']), (''complete'', [''tag=notify''])]"

definition LRU_CAP :: nat where
  "LRU_CAP = 1000"

definition RULE_KEYS :: "(string \<times> string) list" where
  "RULE_KEYS = [(''session_failed'', ''fail''), (''session_cancelled'', ''cancel''), (''session_completed'', ''complete'')]"

definition new_router :: "(string, string list) od option \<Rightarrow> (string \<times> string) list \<Rightarrow> bool \<Rightarrow> string option \<Rightarrow> rat \<Rightarrow> alert_router" where
  "new_router overrides mapping w dflt cool =
     \<lparr>rules = fold (\<lambda>(k, vs). AList.update k vs) (case overrides of None \<Rightarrow> [] | Some o1 \<Rightarrow> o1) DEFAULT_RULES,
      user_mapping = mapping, wired = w, default_channel = dflt, cooldown_s = cool, last_alert = []\<rparr>"

fun cond_holds :: "string \<Rightarrow> string list \<Rightarrow> string \<Rightarrow> bool" where
  "cond_holds why tgs cond =
     (if cond = ''always'' then True
      else if starts_with ''tag='' cond then (let wanted = str_strip (drop 4 cond) in wanted \<noteq> [] \<and> wanted \<in> set tgs)
      else cond = why)"

definition matches :: "alert_router \<Rightarrow> string \<Rightarrow> string \<Rightarrow> string list \<Rightarrow> bool" where
  "matches r event_type why tgs = (case map_of RULE_KEYS event_type of
     None \<Rightarrow> False
   | Some k \<Rightarrow> list_ex (cond_holds why tgs) (case map_of (rules r) k of None \<Rightarrow> [] | Some cs \<Rightarrow> cs))"

text \<open>\<open>_cooldown_check\<close>, atomic under its lock.\<close>

definition cooldown_check :: "rat \<Rightarrow> alert_key \<Rightarrow> alert_router \<Rightarrow> bool \<times> alert_router" where
  "cooldown_check now key r =
     (let d = last_alert r in
      if (case map_of d key of None \<Rightarrow> False | Some t \<Rightarrow> now - t < cooldown_s r) then (False, r)
      else (let d1 = (if key \<notin> set (od_keys d) \<and> length d \<ge> LRU_CAP then tl d else d)
            in (True, r\<lparr>last_alert := od_move_to_end key (AList.update key now d1)\<rparr>)))"

definition resolve_mention :: "alert_router \<Rightarrow> string option \<Rightarrow> string option" where
  "resolve_mention r owner = (if or_text [] owner = [] then None else map_of (user_mapping r) (or_text [] owner))"

record alert =
  al_now :: rat
  al_type :: string
  al_session :: string
  al_owner :: "string option"
  al_tags :: "string list"
  al_reason :: string
  al_delivered :: bool

definition alert_key_of :: "alert \<Rightarrow> alert_key" where
  "alert_key_of a = (al_type a, or_text ''anon'' (al_owner a), al_reason a)"

definition alert_card :: "alert_router \<Rightarrow> alert \<Rightarrow> card" where
  "alert_card r a =
     (let cd = build_alert_card (al_type a) (al_session a) (al_owner a) (al_reason a) (resolve_mention r (al_owner a))
      in if channel cd = None \<and> or_text [] (default_channel r) \<noteq> [] then cd\<lparr>channel := default_channel r\<rparr> else cd)"

text \<open>The verdict, the cards given to the backend (\<open>al_delivered\<close>: whether it took them), the router.\<close>

definition dispatch :: "alert \<Rightarrow> alert_router \<Rightarrow> (bool \<times> card list) \<times> alert_router" where
  "dispatch a r =
     (if \<not> matches r (al_type a) (al_reason a) (al_tags a) then ((False, []), r)
      else (case cooldown_check (al_now a) (alert_key_of a) r of
          (False, r1) \<Rightarrow> ((False, []), r1)
        | (True, r1) \<Rightarrow>
            if \<not> wired r1 then ((False, []), r1)
            else ((al_delivered a, [alert_card r1 a]), r1)))"

section \<open>The subscriber\<close>

definition TERMINAL_TO_EVENT_TYPE :: "(string \<times> string) list" where
  "TERMINAL_TO_EVENT_TYPE = [(''failed'', ''session_failed''), (''cancelled'', ''session_cancelled''), (''completed'', ''session_completed'')]"

definition USER_INITIATED_CANCEL_REASONS :: "string list" where
  "USER_INITIATED_CANCEL_REASONS = [''user_cancel'', ''user_request'']"

text \<open>
  \<open>_resolve_meta\<close> for a typed event, which has neither owner nor tags: no store, a store that raises (\<open>Inl\<close>), or its row.
\<close>

definition resolve_meta :: "(string \<Rightarrow> py_exn + session_row option) option \<Rightarrow> string \<Rightarrow> string option \<times> string list" where
  "resolve_meta st sid = (case st of
     None \<Rightarrow> (None, [])
   | Some f \<Rightarrow> (case f sid of Inr (Some row) \<Rightarrow> (s_owner row, s_tags row) | _ \<Rightarrow> (None, [])))"

definition handle_event :: "(string \<Rightarrow> py_exn + session_row option) option \<Rightarrow> rat \<Rightarrow> bool \<Rightarrow> event_body \<Rightarrow> alert_router \<Rightarrow> (bool \<times> card list) \<times> alert_router" where
  "handle_event st now delivered ev r = (case ev of
     SessionStateChanged sid from_state to_state reason \<Rightarrow>
       (case map_of TERMINAL_TO_EVENT_TYPE to_state of
          None \<Rightarrow> ((False, []), r)
        | Some event_type \<Rightarrow>
            (let why = or_text ''unknown'' reason in
             if event_type = ''session_cancelled'' \<and> why \<in> set USER_INITIATED_CANCEL_REASONS then ((False, []), r)
             else (case resolve_meta st sid of (owner, tgs) \<Rightarrow>
               dispatch \<lparr>al_now = now, al_type = event_type, al_session = sid, al_owner = owner, al_tags = tgs, al_reason = why, al_delivered = delivered\<rparr> r)))
   | _ \<Rightarrow> ((False, []), r))"

section \<open>Cooldown\<close>

fun alert_run :: "alert list \<Rightarrow> alert_router \<Rightarrow> (bool \<times> card list) list" where
  "alert_run [] r = []"
| "alert_run (a # as) r = (case dispatch a r of (v, r1) \<Rightarrow> v # alert_run as r1)"

text \<open>The reference: every alert let through so far, with its time.\<close>

fun alert_spec :: "alert_router \<Rightarrow> (alert_key \<times> rat) list \<Rightarrow> alert list \<Rightarrow> (bool \<times> card list) list" where
  "alert_spec r h [] = []"
| "alert_spec r h (a # as) =
     (if matches r (al_type a) (al_reason a) (al_tags a) \<and> (\<forall>(k, t) \<in> set h. k = alert_key_of a \<longrightarrow> al_now a - t \<ge> cooldown_s r)
      then (if wired r then (al_delivered a, [alert_card r a]) else (False, [])) # alert_spec r ((alert_key_of a, al_now a) # h) as
      else (False, []) # alert_spec r h as)"

lemma config_kept [simp]:
  "matches (r\<lparr>last_alert := d\<rparr>) = matches r" "alert_card (r\<lparr>last_alert := d\<rparr>) = alert_card r"
  by (auto simp: fun_eq_iff matches_def alert_card_def resolve_mention_def Let_def split: option.split)

text \<open>What the table knows of the history, as long as nothing is evicted.\<close>

definition recalls :: "('k, rat) od \<Rightarrow> ('k \<times> rat) list \<Rightarrow> bool" where
  "recalls d h \<longleftrightarrow> od_wf d \<and> (\<forall>k. case map_of d k of
     None \<Rightarrow> \<forall>t. (k, t) \<notin> set h
   | Some t \<Rightarrow> (k, t) \<in> set h \<and> (\<forall>t'. (k, t') \<in> set h \<longrightarrow> t' \<le> t))"

lemma recalls_cool:
  assumes "recalls d h"
  shows "(case map_of d k of None \<Rightarrow> False | Some t \<Rightarrow> now - t < c) \<longleftrightarrow> \<not> (\<forall>(k', t) \<in> set h. k' = k \<longrightarrow> now - t \<ge> c)"
proof (cases "map_of d k")
  case None
  then have "(k, t) \<notin> set h" for t using spec [OF conjunct2 [OF assms [unfolded recalls_def]], of k] by simp
  then show ?thesis using None by auto
next
  case (Some t)
  then have "(k, t) \<in> set h" "\<forall>t'. (k, t') \<in> set h \<longrightarrow> t' \<le> t" using assms by (auto simp: recalls_def split: option.splits)
  then show ?thesis using Some by fastforce
qed

lemma recalls_record:
  assumes "recalls d h" "\<forall>(k, t) \<in> set h. t \<le> now"
  shows "recalls (od_move_to_end k (AList.update k now d)) ((k, now) # h)"
  using assms by (auto simp: recalls_def od_simps split: option.splits)

lemma recalls_room:
  assumes "recalls d h" "finite K" "card K \<le> LRU_CAP" "set (od_keys d) \<subseteq> K" "k \<in> K" "k \<notin> set (od_keys d)"
  shows "length d < LRU_CAP"
proof -
  have "card (set (od_keys d)) < card K" using assms by (intro psubset_card_mono) auto
  moreover have "card (set (od_keys d)) = length d"
    using assms(1) distinct_card [of "od_keys d"] by (simp add: recalls_def od_wf_def)
  ultimately show ?thesis using assms(3) by simp
qed

lemma dispatch_spec:
  assumes "recalls d h" "finite K" "card K \<le> LRU_CAP" "set (od_keys d) \<subseteq> K" "alert_key_of a \<in> K" "\<forall>(k, t) \<in> set h. t \<le> al_now a"
  shows "\<exists>v d' h'. dispatch a (r\<lparr>last_alert := d\<rparr>) = (v, r\<lparr>last_alert := d'\<rparr>) \<and> recalls d' h' \<and> set (od_keys d') \<subseteq> K
    \<and> set h' \<subseteq> insert (alert_key_of a, al_now a) (set h) \<and> (\<forall>as. alert_spec r h (a # as) = v # alert_spec r h' as)"
proof -
  let ?go = "matches r (al_type a) (al_reason a) (al_tags a)"
  let ?cool = "case map_of d (alert_key_of a) of None \<Rightarrow> False | Some t \<Rightarrow> al_now a - t < cooldown_s r"
  show ?thesis
  proof (cases "?go \<and> \<not> ?cool")
    case True
    let ?d = "od_move_to_end (alert_key_of a) (AList.update (alert_key_of a) (al_now a) d)"
    have "\<not> (alert_key_of a \<notin> set (od_keys d) \<and> length d \<ge> LRU_CAP)" using recalls_room [OF assms(1-5)] by auto
    then have "cooldown_check (al_now a) (alert_key_of a) (r\<lparr>last_alert := d\<rparr>) = (True, r\<lparr>last_alert := ?d\<rparr>)"
      using True by (auto simp: cooldown_check_def Let_def split: option.splits)
    then have "dispatch a (r\<lparr>last_alert := d\<rparr>) = (if wired r then (al_delivered a, [alert_card r a]) else (False, []), r\<lparr>last_alert := ?d\<rparr>)"
      using True by (simp add: dispatch_def)
    moreover have "set (od_keys ?d) \<subseteq> K" using assms(4,5) by (auto simp: od_simps)
    moreover have "alert_spec r h (a # as) = (if wired r then (al_delivered a, [alert_card r a]) else (False, [])) # alert_spec r ((alert_key_of a, al_now a) # h) as" for as
      using True recalls_cool [OF assms(1), where k = "alert_key_of a" and now = "al_now a" and c = "cooldown_s r"] by simp
    ultimately show ?thesis using recalls_record [OF assms(1,6), of "alert_key_of a"]
      by (intro exI [of _ "if wired r then (al_delivered a, [alert_card r a]) else (False, [])"] exI [of _ ?d] exI [of _ "(alert_key_of a, al_now a) # h"]) simp
  next
    case False
    then have "dispatch a (r\<lparr>last_alert := d\<rparr>) = ((False, []), r\<lparr>last_alert := d\<rparr>)"
      by (auto simp: dispatch_def cooldown_check_def Let_def split: option.splits)
    moreover have "alert_spec r h (a # as) = (False, []) # alert_spec r h as" for as
      using False recalls_cool [OF assms(1), where k = "alert_key_of a" and now = "al_now a" and c = "cooldown_s r"] by auto
    ultimately show ?thesis using assms(1,4) by (intro exI [of _ "(False, [])"] exI [of _ d] exI [of _ h]) auto
  qed
qed

lemma alert_run_spec:
  assumes "recalls d h" "finite K" "card K \<le> LRU_CAP" "set (od_keys d) \<subseteq> K" "alert_key_of ` set as \<subseteq> K"
    and "sorted (map al_now as)" "\<forall>a \<in> set as. \<forall>(k, t) \<in> set h. t \<le> al_now a"
  shows "alert_run as (r\<lparr>last_alert := d\<rparr>) = alert_spec r h as"
  using assms
proof (induction as arbitrary: d h)
  case (Cons a as)
  obtain v d' h' where s: "dispatch a (r\<lparr>last_alert := d\<rparr>) = (v, r\<lparr>last_alert := d'\<rparr>)" "recalls d' h'" "set (od_keys d') \<subseteq> K"
      "set h' \<subseteq> insert (alert_key_of a, al_now a) (set h)" "\<forall>as. alert_spec r h (a # as) = v # alert_spec r h' as"
    using dispatch_spec [OF Cons.prems(1-4), of a r] Cons.prems(5,7) by fastforce
  have "\<forall>b \<in> set as. \<forall>(k, t) \<in> set h'. t \<le> al_now b" using s(4) Cons.prems(6,7) by fastforce
  then show ?case using Cons.IH [OF s(2) Cons.prems(2,3) s(3)] Cons.prems(5,6) s(1,5) by auto
qed simp


definition demo_alert :: "rat \<Rightarrow> bool \<Rightarrow> alert" where
  "demo_alert now dl = \<lparr>al_now = now, al_type = ''session_failed'', al_session = ''s'', al_owner = Some ''alice'', al_tags = [], al_reason = ''timeout:504'', al_delivered = dl\<rparr>"


text \<open>Beyond that the table stays bounded: the oldest kind is forgotten.\<close>

lemma length_move_update: "length (od_move_to_end k (AList.update k v d)) \<le> (if k \<in> set (od_keys d) then length d else Suc (length d))" if "od_wf d"
proof -
  have "length (od_keys (od_move_to_end k (AList.update k v d))) \<le> (if k \<in> set (od_keys d) then length d else Suc (length d))"
    using that length_filter_neq [of "od_keys d" k] by (auto simp: od_simps od_wf_def dest: length_pos_if_in_set)
  then show ?thesis by simp
qed

lemma alert_table_bounded:
  assumes "od_wf (last_alert r)" "length (last_alert r) \<le> LRU_CAP"
  shows "od_wf (last_alert (snd (dispatch a r))) \<and> length (last_alert (snd (dispatch a r))) \<le> LRU_CAP"
proof -
  have wf: "od_wf (tl (last_alert r))" using assms(1) by (cases "last_alert r") (auto simp: od_wf_def)
  have tl: "set (od_keys (tl (last_alert r))) \<subseteq> set (od_keys (last_alert r))" by (cases "last_alert r") auto
  have "length (last_alert r) > 0" if "LRU_CAP \<le> length (last_alert r)" using that by (cases "last_alert r") (simp_all add: LRU_CAP_def)
  then show ?thesis
    using assms wf tl length_move_update [OF assms(1), of "alert_key_of a" "al_now a"] length_move_update [OF wf, of "alert_key_of a" "al_now a"]
    by (auto simp: dispatch_def cooldown_check_def Let_def split: option.splits if_splits)
qed

section \<open>What the manager reports\<close>

text \<open>
  The reason of a cancellation is lost on its way: a run ends as \<open>cancelled\<close> whatever \<open>cancel\<close> was called with, so no end of a run carries
  \<open>paused_timeout\<close> or \<open>timeout_recovered\<close>, for which the default rules ask, nor \<open>user_request\<close>, which the subscriber filters.
\<close>

lemma cancel_reason_lost: "end_reason en \<notin> {Some ''paused_timeout'', Some ''timeout_recovered'', Some ''user_request'', Some ''user_cancel''}"
proof (cases en)
  case (Crashed x)
  have "CHR '':'' \<in> set (category_name (error_category x) @ '':'' @ str_nat (http_status (error_category x)))" by simp
  then show ?thesis using Crashed by (auto simp del: set_append dest: arg_cong [of _ _ set])
qed auto

lemma cancelled_never_alerts:
  "handle_event st now dl (SessionStateChanged sid f (end_status Cancelled) (end_reason Cancelled)) (new_router None mapping w dflt cool)
   = ((False, []), new_router None mapping w dflt cool)"
  by (simp add: handle_event_def TERMINAL_TO_EVENT_TYPE_def or_text_def USER_INITIATED_CANCEL_REASONS_def dispatch_def matches_def RULE_KEYS_def
      new_router_def DEFAULT_RULES_def starts_with_def split: prod.splits)

text \<open>A card the backend could not take starts the cooldown all the same: the next failure of the kind is not reported either.\<close>

lemma failed_send_silences: "map fst (alert_run [demo_alert 0 False, demo_alert 10 True] (new_router None [] True None 300)) = [False, False]"
  by (simp add: demo_alert_def new_router_def DEFAULT_RULES_def dispatch_def matches_def RULE_KEYS_def alert_key_of_def or_text_def cooldown_check_def
      LRU_CAP_def od_move_to_end_def)

end
