(* ===== verification/Startup_Recovery.thy ===== *)
theory Startup_Recovery
  imports Alerts
begin

text \<open>
  What a restart does with the sessions the last process left behind (\<open>session/recovery.py\<close>): running and stale queued rows are
  marked interrupted and announced on the bus, paused rows get their watchdog back or are cancelled.
\<close>

section \<open>Rows\<close>

record report =
  interrupted_count :: nat
  interrupted_ids :: "string list"

definition report_of :: "string list \<Rightarrow> report" where
  "report_of ids = \<lparr>interrupted_count = length ids, interrupted_ids = ids\<rparr>"

definition recover_on_startup :: "int \<Rightarrow> store \<Rightarrow> report \<times> store" where
  "recover_on_startup now db = (case mark_in_flight_as_interrupted now db of (ids, db1) \<Rightarrow> (report_of ids, db1))"

text \<open>One event per id; an event the bus refuses is logged and skipped.\<close>

fun announce :: "(event_body \<Rightarrow> 'b \<Rightarrow> bool \<times> 'b) \<Rightarrow> (string \<Rightarrow> event_body) \<Rightarrow> string list \<Rightarrow> 'b \<Rightarrow> 'b" where
  "announce publ ev [] b = b"
| "announce publ ev (sid # ids) b = announce publ ev ids (snd (publ (ev sid) b))"

definition was_running :: "string \<Rightarrow> event_body" where
  "was_running sid = SessionStateChanged sid ''running'' ''interrupted'' (Some ''interrupted_on_startup'')"

definition was_queued :: "string \<Rightarrow> event_body" where
  "was_queued sid = SessionStateChanged sid ''queued'' ''interrupted'' (Some ''queued_interrupted_on_startup'')"

definition recover_on_startup_with_events :: "(event_body \<Rightarrow> 'b \<Rightarrow> bool \<times> 'b) \<Rightarrow> int \<Rightarrow> store \<times> 'b \<Rightarrow> report \<times> store \<times> 'b" where
  "recover_on_startup_with_events publ now s =
     (case recover_on_startup now (fst s) of (rep, db) \<Rightarrow> (rep, (db, announce publ was_running (interrupted_ids rep) (snd s))))"

definition recover_queued_rows :: "(event_body \<Rightarrow> 'b \<Rightarrow> bool \<times> 'b) \<Rightarrow> int \<Rightarrow> int \<Rightarrow> store \<times> 'b \<Rightarrow> report \<times> store \<times> 'b" where
  "recover_queued_rows publ now cutoff s =
     (case mark_queued_as_interrupted now cutoff (fst s) of (ids, db) \<Rightarrow> (report_of ids, (db, announce publ was_queued ids (snd s))))"

text \<open>The two calls of the lifespan (\<open>api/main.py\<close>), with the time the process started as the cutoff.\<close>

definition recover_rows :: "(event_body \<Rightarrow> 'b \<Rightarrow> bool \<times> 'b) \<Rightarrow> int \<Rightarrow> int \<Rightarrow> store \<times> 'b \<Rightarrow> (report \<times> report) \<times> store \<times> 'b" where
  "recover_rows publ now started s =
     (case recover_on_startup_with_events publ now s of (r1, s1) \<Rightarrow>
      case recover_queued_rows publ now started s1 of (r2, s2) \<Rightarrow> ((r1, r2), s2))"

section \<open>Watchdogs\<close>

definition elapsed_s :: "int \<Rightarrow> int \<Rightarrow> rat" where
  "elapsed_s now since = of_int (now - since) / 1000000"

definition recover_paused_row :: "'b env \<Rightarrow> rat \<Rightarrow> int \<Rightarrow> session_row \<Rightarrow> (nat \<times> nat) \<times> 'b cfg \<Rightarrow> (nat \<times> nat) \<times> 'b cfg" where
  "recover_paused_row e limit_s now row s = (case (s, s_paused_at row) of
     (_, None) \<Rightarrow> s
   | (((rearmed, cancelled), c), Some since) \<Rightarrow>
       (let remaining = limit_s - elapsed_s now since in
        if remaining \<le> 0 then ((rearmed, Suc cancelled), cancel e (s_id row) ''paused_timeout_recovered'' c)
        else ((Suc rearmed, cancelled), modify (arm_paused_timer e (s_id row) (Some remaining)) c)))"

definition recover_paused_timers :: "'b env \<Rightarrow> rat \<Rightarrow> int \<Rightarrow> 'b cfg \<Rightarrow> (nat \<times> nat) \<times> 'b cfg" where
  "recover_paused_timers e limit_s now c =
     (case on_db (\<lambda>db. (list_paused db, db)) c of (rows, c1) \<Rightarrow> fold (recover_paused_row e limit_s now) rows ((0, 0), c1))"

section \<open>What a restart achieves\<close>

lemma announce_log: "announce (\<lambda>ev es. (ok ev, es @ [ev])) ev ids es = es @ map ev ids"
  by (induction ids arbitrary: es) auto

definition stale :: "int \<Rightarrow> session_row \<Rightarrow> bool" where
  "stale started r = (s_status r = ''queued'' \<and> s_submitted_at r < started)"

definition settled_row :: "int \<Rightarrow> int \<Rightarrow> session_row \<Rightarrow> session_row" where
  "settled_row now started r =
     (if s_status r = ''running'' then interrupt_row now ''interrupted_on_startup'' r
      else if stale started r then interrupt_row now ''queued_interrupted_on_startup'' r else r)"

lemma sweeps:
  "mark_in_flight_as_interrupted now db =
     (map s_id (filter (\<lambda>r. s_status r = ''running'') (sessions db)),
      db\<lparr>sessions := update_where (\<lambda>r. s_status r = ''running'') (interrupt_row now ''interrupted_on_startup'') (sessions db)\<rparr>)"
  "mark_queued_as_interrupted now started
      (db\<lparr>sessions := update_where (\<lambda>r. s_status r = ''running'') (interrupt_row now ''interrupted_on_startup'') (sessions db)\<rparr>) =
     (map s_id (filter (stale started) (sessions db)), db\<lparr>sessions := map (settled_row now started) (sessions db)\<rparr>)"
proof -
  show "mark_in_flight_as_interrupted now db =
     (map s_id (filter (\<lambda>r. s_status r = ''running'') (sessions db)),
      db\<lparr>sessions := update_where (\<lambda>r. s_status r = ''running'') (interrupt_row now ''interrupted_on_startup'') (sessions db)\<rparr>)"
    by (simp add: mark_in_flight_as_interrupted_def)
  have "map s_id (filter (stale started) (update_where (\<lambda>r. s_status r = ''running'') (interrupt_row now ''interrupted_on_startup'') rows)) = map s_id (filter (stale started) rows)"
    "update_where (stale started) (interrupt_row now ''queued_interrupted_on_startup'') (update_where (\<lambda>r. s_status r = ''running'') (interrupt_row now ''interrupted_on_startup'') rows)
     = map (settled_row now started) rows" for rows
    by (induction rows) (auto simp: update_where_def stale_def settled_row_def interrupt_row_def)
  then show "mark_queued_as_interrupted now started
      (db\<lparr>sessions := update_where (\<lambda>r. s_status r = ''running'') (interrupt_row now ''interrupted_on_startup'') (sessions db)\<rparr>) =
     (map s_id (filter (stale started) (sessions db)), db\<lparr>sessions := map (settled_row now started) (sessions db)\<rparr>)"
    by (simp add: mark_queued_as_interrupted_def Let_def stale_def [abs_def])
qed

lemma recover_rows_general:
  "recover_rows publ now started (db, b) =
     (let run = map s_id (filter (\<lambda>r. s_status r = ''running'') (sessions db)); que = map s_id (filter (stale started) (sessions db))
      in ((report_of run, report_of que),
          (db\<lparr>sessions := map (settled_row now started) (sessions db)\<rparr>, announce publ was_queued que (announce publ was_running run b))))"
  by (simp add: recover_rows_def recover_on_startup_with_events_def recover_on_startup_def recover_queued_rows_def sweeps Let_def report_of_def)

lemma settled_rows_idle:
  "filter (\<lambda>r. s_status r = ''running'') (map (settled_row now started) rows) = []"
  "filter (stale started) (map (settled_row now started) rows) = []"
  "map (settled_row now' started) (map (settled_row now started) rows) = map (settled_row now started) rows"
  by (auto simp: filter_empty_conv settled_row_def stale_def interrupt_row_def)

text \<open>
  C21: a restart settles exactly what no process works on any more. Every running row and every row queued before the process started becomes interrupted, at that time and
  with its reason, every other row is untouched; each of them is announced, running ones first, in table order and whether or not the bus took an earlier one;
  the reports count them; and a second pass, under any bus and at any later time, finds nothing and changes nothing.
\<close>
theorem restart_settles_rows:
  "recover_rows (\<lambda>ev es. (ok ev, es @ [ev])) now started (db, es) =
     ((report_of (map s_id (filter (\<lambda>r. s_status r = ''running'') (sessions db))), report_of (map s_id (filter (stale started) (sessions db)))),
      (db\<lparr>sessions := map (settled_row now started) (sessions db)\<rparr>,
       es @ map was_running (map s_id (filter (\<lambda>r. s_status r = ''running'') (sessions db))) @ map was_queued (map s_id (filter (stale started) (sessions db)))))
   \<and> recover_rows publ now' started (fst (snd (recover_rows publ now started (db, b))), b') =
     ((report_of [], report_of []), (fst (snd (recover_rows publ now started (db, b))), b'))"
  unfolding recover_rows_general Let_def
  by (simp add: announce_log settled_rows_idle [unfolded map_map comp_def] settled_rows_idle(1,2) comp_def)
section \<open>What becomes of paused sessions\<close>

text \<open>The time a paused session has left, as the watchdog would be set.\<close>

definition left_s :: "rat \<Rightarrow> int \<Rightarrow> session_row \<Rightarrow> rat option" where
  "left_s limit_s now row =
     (case s_paused_at row of None \<Rightarrow> None | Some since \<Rightarrow> if limit_s - elapsed_s now since \<le> 0 then None else Some (limit_s - elapsed_s now since))"

lemma recover_paused_row_quiet:
  assumes "s_paused_at row \<noteq> None"
  shows "\<exists>m' n'. recover_paused_row e limit_s now row (n, (m, [])) = (n', (m', [])) \<and> fst n' + snd n' = Suc (fst n + snd n)
    \<and> m_db m' = m_db m \<and> set (paused_set m') \<subseteq> set (paused_set m) \<and> running_tasks m' = running_tasks m
    \<and> map_of (paused_timers m') = (map_of (paused_timers m))(s_id row := left_s limit_s now row)"
proof -
  obtain since where since: "s_paused_at row = Some since" using assms by auto
  obtain rearmed cancelled where n: "n = (rearmed, cancelled)" by (rule prod.exhaust)
  show ?thesis
  proof (cases "limit_s - elapsed_s now since \<le> 0")
    case True
    obtain as where as: "audit_record e (owner_of (s_id row) m) ''session_cancel'' (s_id row) [(PStr ''reason'', PStr ''paused_timeout_recovered'')] (m, []) = (m\<lparr>m_audits := as\<rparr>, [])"
      using audit_Nil by blast
    have "cancel e (s_id row) ''paused_timeout_recovered'' (m, []) =
        (deny_pending ''cancel:paused_timeout_recovered'' (Some (s_id row)) (cancel_bookkeeping (s_id row) (m\<lparr>m_audits := as\<rparr>)), [])"
      by (simp add: cancel_def as modify_def suspend_def)
    then show ?thesis
      using True since n
      by (auto simp: recover_paused_row_def left_s_def cancel_bookkeeping_def request_cancel_def deny_pending_def cancel_paused_timer_def
          release_pause_bookkeeping_def discard_def Let_def od_get_delete split: option.splits)
  next
    case False
    then show ?thesis
      using since n by (auto simp: recover_paused_row_def left_s_def modify_def arm_paused_timer_def cancel_paused_timer_def Let_def od_get_update od_get_delete fun_eq_iff)
  qed
qed

lemma recover_paused_rows_quiet:
  assumes "\<forall>row \<in> set rows. s_paused_at row \<noteq> None" "distinct (map s_id rows)"
  shows "\<exists>m' n'. fold (recover_paused_row e limit_s now) rows (n, (m, [])) = (n', (m', [])) \<and> fst n' + snd n' = length rows + (fst n + snd n)
    \<and> m_db m' = m_db m \<and> set (paused_set m') \<subseteq> set (paused_set m) \<and> running_tasks m' = running_tasks m
    \<and> (\<forall>row \<in> set rows. map_of (paused_timers m') (s_id row) = left_s limit_s now row)
    \<and> (\<forall>sid. sid \<notin> s_id ` set rows \<longrightarrow> map_of (paused_timers m') sid = map_of (paused_timers m) sid)"
  using assms
proof (induction rows arbitrary: n m)
  case (Cons row rows)
  obtain m1 n1 where one: "recover_paused_row e limit_s now row (n, (m, [])) = (n1, (m1, []))" "fst n1 + snd n1 = Suc (fst n + snd n)"
      "m_db m1 = m_db m" "set (paused_set m1) \<subseteq> set (paused_set m)" "running_tasks m1 = running_tasks m"
      "map_of (paused_timers m1) = (map_of (paused_timers m))(s_id row := left_s limit_s now row)"
    using recover_paused_row_quiet [of row e limit_s now n m] Cons.prems(1) by auto
  obtain m' n' where "fold (recover_paused_row e limit_s now) rows (n1, (m1, [])) = (n', (m', []))" "fst n' + snd n' = length rows + (fst n1 + snd n1)"
      "m_db m' = m_db m1" "set (paused_set m') \<subseteq> set (paused_set m1)" "running_tasks m' = running_tasks m1"
      "\<forall>row \<in> set rows. map_of (paused_timers m') (s_id row) = left_s limit_s now row"
      "\<forall>sid. sid \<notin> s_id ` set rows \<longrightarrow> map_of (paused_timers m') sid = map_of (paused_timers m1) sid"
    using Cons.IH [of n1 m1] Cons.prems by auto
  then show ?case using one Cons.prems(2) by auto
qed simp

lemma on_db_quiet: "on_db (\<lambda>db. (f db, db)) (m, []) = (f (m_db m), (m, []))"
  by (simp add: on_db_def suspend_def Let_def)

text \<open>
  With no other task in between every paused session with time left gets a watchdog for exactly that time, an expired one loses its watchdog, the two
  counts add up, and no row changes.
\<close>

lemma paused_watchdogs_rearmed:
  assumes "distinct (map s_id (sessions (m_db m)))"
  shows "\<exists>m' n1 n2. recover_paused_timers e limit_s now (m, []) = ((n1, n2), (m', [])) \<and> n1 + n2 = length (list_paused (m_db m)) \<and> m_db m' = m_db m
    \<and> set (paused_set m') \<subseteq> set (paused_set m) \<and> (\<forall>row \<in> set (list_paused (m_db m)). map_of (paused_timers m') (s_id row) = left_s limit_s now row)"
proof -
  let ?rows = "list_paused (m_db m)"
  have "distinct (map s_id (filter P (sessions (m_db m))))" for P using assms by (rule distinct_map_filter)
  then have "distinct (map s_id ?rows)"
    by (auto simp: list_paused_def distinct_map intro: inj_on_subset)
  moreover have "\<forall>row \<in> set ?rows. s_paused_at row \<noteq> None" by (auto simp: list_paused_def)
  ultimately obtain m' n' where "fold (recover_paused_row e limit_s now) ?rows ((0, 0), (m, [])) = (n', (m', []))" "fst n' + snd n' = length ?rows"
      "m_db m' = m_db m" "set (paused_set m') \<subseteq> set (paused_set m)" "\<forall>row \<in> set ?rows. map_of (paused_timers m') (s_id row) = left_s limit_s now row"
    using recover_paused_rows_quiet [of ?rows e limit_s now "(0, 0)" m] by auto
  then show ?thesis
    by (cases n') (auto simp: recover_paused_timers_def on_db_quiet)
qed

text \<open>
  But neither branch reaches the row. A new process has an empty set of paused sessions, which the watchdog consults before it cancels, and no task that a
  cancellation could stop: a session that was paused when the process stopped stays paused for good, and every later pass counts it again.
\<close>

lemma recovered_pause_stays:
  assumes "distinct (map s_id (sessions db))" "recover_paused_timers e limit_s now (init_mgr k db co b, []) = (n, (m, []))"
  shows "paused_timeout_watchdog e sid (m, []) = (m, []) \<and> m_db m = db"
proof -
  have "paused_set m = [] \<and> m_db m = db"
    using paused_watchdogs_rearmed [of "init_mgr k db co b" e limit_s now] assms by (auto simp: init_mgr_def)
  then show ?thesis by (simp add: paused_timeout_watchdog_def)
qed

end
