(* ===== verification/Redis_Bus.thy ===== *)
theory Redis_Bus
  imports Startup_Recovery Durable_Store
begin

text \<open>
  The bus of a cluster: events as entries of one Redis stream (\<open>cluster/wire.py\<close>) and the bus over it with its local queues and
  its pump (\<open>cluster/redis_bus.py\<close>). The stream is the list of its entries in the order of their ids; \<open>XREAD\<close> answers the
  entries behind a cursor. ISO time stamps, UUID parsing, the clock and fresh ids are parameters.
\<close>

section \<open>Wire format\<close>

definition SCHEMA_VERSION :: nat where
  "SCHEMA_VERSION = 1"

datatype wire_exn = UnsupportedWireVersionError | MissingField

type_synonym wire_entry = "(string, string) od"

record wire_env =
  we_float :: "pyfloat \<Rightarrow> string"
  we_parse :: "string \<Rightarrow> pyfloat"
  we_iso :: "int \<Rightarrow> string"
  we_from_iso :: "string \<Rightarrow> int option"
  we_uuid :: "string \<Rightarrow> string option"
  we_fresh :: string
  we_now :: int

definition encode_event :: "wire_env \<Rightarrow> relay_event \<Rightarrow> py_exn + wire_entry" where
  "encode_event e ev = (case json_dumps (we_float e) '' '' (PDict (event_payload ev)) of
     Inl x \<Rightarrow> Inl x
   | Inr js \<Rightarrow> Inr
      [(''v'', str_nat SCHEMA_VERSION), (''type'', class_name (body ev)), (''event_id'', event_id ev), (''ts'', we_iso e (occurred_at ev)),
       (''session_id'', event_session (body ev)), (''tier'', tier_value (delivery_tier ev)), (''payload'', js)])"

definition entry_text :: "wire_entry \<Rightarrow> string \<Rightarrow> string" where
  "entry_text en k = (case map_of en k of None \<Rightarrow> [] | Some t \<Rightarrow> t)"

definition decode_payload :: "wire_env \<Rightarrow> wire_entry \<Rightarrow> pydict" where
  "decode_payload e en =
     (case json_loads (we_parse e) (if entry_text en ''payload'' = [] then ''{}'' else entry_text en ''payload'') of
        Some (PDict d) \<Rightarrow> d
      | _ \<Rightarrow> [])"

definition decode_event :: "wire_env \<Rightarrow> wire_entry \<Rightarrow> wire_exn + replayed" where
  "decode_event e en = (case map_of en ''v'' of
     None \<Rightarrow> Inl UnsupportedWireVersionError
   | Some raw \<Rightarrow> (case int_of_str raw of
       Inl _ \<Rightarrow> Inl UnsupportedWireVersionError
     | Inr n \<Rightarrow>
         if n \<noteq> int SCHEMA_VERSION then Inl UnsupportedWireVersionError
         else (case map_of en ''ts'' of
             None \<Rightarrow> Inl MissingField
           | Some ts \<Rightarrow> (case map_of en ''type'' of
               None \<Rightarrow> Inl MissingField
             | Some ty \<Rightarrow> Inr
                \<lparr>rep_event_id = (case we_uuid e (entry_text en ''event_id'') of None \<Rightarrow> we_fresh e | Some u \<Rightarrow> u),
                 rep_occurred_at = (case we_from_iso e ts of None \<Rightarrow> we_now e | Some t \<Rightarrow> t),
                 rep_tier = (if entry_text en ''tier'' \<in> {''lossy'', ''durable''} then entry_text en ''tier'' else ''durable''),
                 type_name = ty, rep_session_id = entry_text en ''session_id'', rep_payload = decode_payload e en, rep_seq = 0\<rparr>))))"

section \<open>Local queues\<close>

text \<open>What a subscriber asked for: everything, a class, or a class by its name.\<close>

datatype redis_topic = Star | Cls string | Named string

record local_deque =
  q_topic :: redis_topic
  q_max :: nat
  q_items :: "replayed list"
  q_closed :: bool

text \<open>Every event off the stream is a \<open>ReplayedEvent\<close>, which is a \<open>RelayEvent\<close>.\<close>

fun topic_matches :: "redis_topic \<Rightarrow> replayed \<Rightarrow> bool" where
  "topic_matches Star ev = True"
| "topic_matches (Cls c) ev = (c \<in> {''RelayEvent'', ''ReplayedEvent''} \<or> type_name ev = c)"
| "topic_matches (Named c) ev = (c = ''*'' \<or> c = ''ReplayedEvent'' \<or> type_name ev = c)"

definition offer :: "replayed \<Rightarrow> local_deque \<Rightarrow> local_deque" where
  "offer ev d =
     (if q_closed d then d
      else if q_max d > 0 \<and> length (q_items d) \<ge> q_max d then d
      else d\<lparr>q_items := q_items d @ [ev]\<rparr>)"

datatype next_item = StopIteration | Wait | Item replayed

definition anext :: "local_deque \<Rightarrow> next_item \<times> local_deque" where
  "anext d = (case q_items d of
     [] \<Rightarrow> (if q_closed d then StopIteration else Wait, d)
   | ev # evs \<Rightarrow> (Item ev, d\<lparr>q_items := evs\<rparr>))"

definition aclose :: "local_deque \<Rightarrow> local_deque" where
  "aclose d = d\<lparr>q_closed := True\<rparr>"

section \<open>The bus\<close>

type_synonym stream_id = "nat \<times> nat"

record redis_stream =
  st_entries :: "(stream_id \<times> wire_entry) list"
  st_last :: stream_id

definition id_less :: "stream_id \<Rightarrow> stream_id \<Rightarrow> bool" where
  "id_less a b \<longleftrightarrow> fst a < fst b \<or> fst a = fst b \<and> snd a < snd b"

text \<open>\<open>XADD *\<close> at time \<open>ms\<close>, trimming all but the newest \<open>keep\<close> entries.\<close>

definition xadd :: "nat \<Rightarrow> nat \<Rightarrow> wire_entry \<Rightarrow> redis_stream \<Rightarrow> redis_stream" where
  "xadd ms keep en s =
     (let i = (if ms > fst (st_last s) then (ms, 0) else (fst (st_last s), Suc (snd (st_last s))));
          es = st_entries s @ [(i, en)]
      in \<lparr>st_entries = drop (length es - keep) es, st_last = i\<rparr>)"

definition behind_id :: "stream_id \<Rightarrow> redis_stream \<Rightarrow> (stream_id \<times> wire_entry) list" where
  "behind_id i s = filter (\<lambda>(j, _). id_less i j) (st_entries s)"

text \<open>
  \<open>XREAD\<close> with a block: \<open>s0\<close> is the stream when it is called and \<open>s1\<close> when it returns. The cursor \<open>None\<close> is \<open>$\<close>,
  the last id at the time of the call; entries that are there are returned at once.
\<close>

definition xread :: "nat \<Rightarrow> stream_id option \<Rightarrow> redis_stream \<Rightarrow> redis_stream \<Rightarrow> (stream_id \<times> wire_entry) list" where
  "xread n cur s0 s1 =
     (let i = (case cur of None \<Rightarrow> st_last s0 | Some i \<Rightarrow> i); here = behind_id i s0
      in take n (if here = [] then behind_id i s1 else here))"

record redis_bus =
  rb_subs :: "local_deque list"
  rb_cursor :: "stream_id option"
  rb_closed :: bool

definition new_redis_bus :: redis_bus where
  "new_redis_bus = \<lparr>rb_subs = [], rb_cursor = None, rb_closed = False\<rparr>"

definition redis_publish :: "wire_env \<Rightarrow> nat \<Rightarrow> nat \<Rightarrow> relay_event + string \<times> pyval \<Rightarrow> redis_stream \<Rightarrow> (py_exn + unit) \<times> redis_stream" where
  "redis_publish e ms keep what s = (case what of
     Inr _ \<Rightarrow> (Inr (), s)
   | Inl ev \<Rightarrow> (case encode_event e ev of Inl x \<Rightarrow> (Inl x, s) | Inr en \<Rightarrow> (Inr (), xadd ms keep en s)))"

definition redis_subscribe :: "redis_topic \<Rightarrow> nat \<Rightarrow> redis_bus \<Rightarrow> redis_bus" where
  "redis_subscribe t mx b = b\<lparr>rb_subs := rb_subs b @ [\<lparr>q_topic = t, q_max = mx, q_items = [], q_closed = False\<rparr>]\<rparr>"

definition fanout :: "replayed \<Rightarrow> redis_bus \<Rightarrow> redis_bus" where
  "fanout ev b = b\<lparr>rb_subs := map (\<lambda>d. if topic_matches (q_topic d) ev then offer ev d else d) (rb_subs b)\<rparr>"

definition pump_entry :: "wire_env \<Rightarrow> stream_id \<times> wire_entry \<Rightarrow> redis_bus \<Rightarrow> redis_bus" where
  "pump_entry e x b =
     (let b1 = b\<lparr>rb_cursor := Some (fst x)\<rparr>
      in case decode_event e (snd x) of Inl _ \<Rightarrow> b1 | Inr ev \<Rightarrow> fanout ev b1)"

text \<open>One round of \<open>_pump_loop\<close>.\<close>

definition pump_round :: "wire_env \<Rightarrow> redis_stream \<Rightarrow> redis_stream \<Rightarrow> redis_bus \<Rightarrow> redis_bus" where
  "pump_round e s0 s1 b = (if rb_closed b then b else fold (pump_entry e) (xread 100 (rb_cursor b) s0 s1) b)"

definition redis_close :: "redis_bus \<Rightarrow> redis_bus" where
  "redis_close b = b\<lparr>rb_closed := True, rb_subs := map aclose (rb_subs b)\<rparr>"

text \<open>
  \<open>subscribe_all\<close> with a cursor, on a stream nobody writes to meanwhile: pages of at most 100 until \<open>limit\<close> events are out or a
  read comes back empty. The seq becomes the id \<open>0-seq\<close>. \<open>fuel\<close> bounds the pages.
\<close>

fun take_page :: "wire_env \<Rightarrow> nat \<Rightarrow> stream_id \<Rightarrow> (stream_id \<times> wire_entry) list \<Rightarrow> replayed list \<times> stream_id" where
  "take_page e limit i [] = ([], i)"
| "take_page e limit i ((j, en) # es) =
     (if limit = 0 then ([], i)
      else (case decode_event e en of
          Inl _ \<Rightarrow> take_page e limit j es
        | Inr ev \<Rightarrow> apfst ((#) ev) (take_page e (limit - 1) j es)))"

fun replay_pages :: "wire_env \<Rightarrow> nat \<Rightarrow> nat \<Rightarrow> stream_id \<Rightarrow> redis_stream \<Rightarrow> replayed list" where
  "replay_pages e 0 limit i s = []"
| "replay_pages e (Suc fuel) limit i s =
     (if limit = 0 then []
      else (let es = xread (min 100 limit) (Some i) s s in
            if es = [] then []
            else (case take_page e limit i es of (evs, j) \<Rightarrow> evs @ replay_pages e fuel (limit - length evs) j s)))"

definition redis_subscribe_all :: "wire_env \<Rightarrow> nat \<Rightarrow> nat \<Rightarrow> redis_stream \<Rightarrow> replayed list" where
  "redis_subscribe_all e after_seq limit s = replay_pages e (Suc (length (st_entries s))) limit (0, after_seq) s"

section \<open>Stream and table carry the same events\<close>

text \<open>JSON has no tuples.\<close>

fun listed :: "pyval \<Rightarrow> pyval"
and listed_items :: "pyval list \<Rightarrow> pyval list"
and listed_pairs :: "pydict \<Rightarrow> pydict" where
  "listed (PTuple xs) = PList (listed_items xs)"
| "listed (PList xs) = PList (listed_items xs)"
| "listed (PDict d) = PDict (listed_pairs d)"
| "listed v = v"
| "listed_items [] = []"
| "listed_items (x # xs) = listed x # listed_items xs"
| "listed_pairs [] = []"
| "listed_pairs ((k, v) # d) = (k, listed v) # listed_pairs d"

lemma listed_Nil [simp]: "listed_items xs = [] \<longleftrightarrow> xs = []" "listed_pairs d = [] \<longleftrightarrow> d = []"
  by (cases xs; simp) (cases d; auto)

lemma listed_keys [simp]: "map fst (listed_pairs d) = map fst d"
  by (induction d) auto

lemma listed_text:
  "json_text fr sp (listed v) = json_text fr sp v"
  "json_items fr sp (listed_items xs) = json_items fr sp xs"
  "json_pairs fr sp (listed_pairs d) = json_pairs fr sp d"
  by (induction v and xs and d rule: listed_listed_items_listed_pairs.induct) auto

lemma clean_keys_ok:
  "json_clean (listed v) \<Longrightarrow> Json_Text.keys_ok v"
  "json_clean_list (listed_items xs) \<Longrightarrow> keys_ok_list xs"
  "json_clean_dict (listed_pairs d) \<Longrightarrow> keys_ok_dict d"
  by (induction v and xs and d rule: listed_listed_items_listed_pairs.induct) auto

lemma listed_norm:
  "json_clean (listed v) \<Longrightarrow> json_norm fr v = Inr (listed v)"
  "json_clean_list (listed_items xs) \<Longrightarrow> json_norm_list fr xs = Inr (listed_items xs)"
  "json_clean_dict (listed_pairs d) \<Longrightarrow> distinct (map fst (acc @ d)) \<Longrightarrow> \<forall>k \<in> set (map fst acc). \<exists>t. k = PStr t
     \<Longrightarrow> json_norm_dict fr acc d = Inr (acc @ listed_pairs d)"
proof (induction v and xs and d arbitrary: and and acc rule: listed_listed_items_listed_pairs.induct)
  case (8 k v d)
  then obtain s where k: "k = PStr s" by auto
  have "dict_put k (listed v) acc = acc @ [(k, listed v)]" using 8 k by (auto intro!: dict_put_new)
  moreover have "json_norm_dict fr (acc @ [(k, listed v)]) d = Inr ((acc @ [(k, listed v)]) @ listed_pairs d)"
    using "8.IH"(2) [of "acc @ [(k, listed v)]"] "8.prems" k by auto
  ultimately show ?case using 8 k by simp
qed auto

text \<open>Payloads that are JSON objects once tuples are lists; every event of the relay has one when its dictionaries do.\<close>

definition wire_clean :: "wire_env \<Rightarrow> relay_event \<Rightarrow> bool" where
  "wire_clean e ev \<longleftrightarrow> json_clean (listed (PDict (event_payload ev))) \<and> floats_ok (we_float e) (we_parse e) (listed (PDict (event_payload ev)))"

lemma payload_read_back:
  assumes "wire_clean e ev" "en = [(''v'', a), (''type'', b), (''event_id'', c), (''ts'', d), (''session_id'', f), (''tier'', g),
     (''payload'', json_text (we_float e) '' '' (PDict (event_payload ev)))]"
  shows "decode_payload e en = listed_pairs (event_payload ev)"
proof -
  let ?t = "json_text (we_float e) '' '' (PDict (event_payload ev))"
  have "json_loads (we_parse e) ?t = Some (listed (PDict (event_payload ev)))"
    using loads_text [of "'' ''" "listed (PDict (event_payload ev))" "we_float e" "we_parse e" "[]"] assms(1)
    by (simp add: wire_clean_def json_space_def listed_text del: listed.simps json_text.simps)
  moreover have "?t \<noteq> []" by simp
  ultimately show ?thesis using assms(2) by (simp add: decode_payload_def entry_text_def del: json_text.simps)
qed

lemma version_read: "int_of_str (str_nat SCHEMA_VERSION) = Inr (int SCHEMA_VERSION)"
proof -
  have "str_nat SCHEMA_VERSION = ''1''" by code_simp
  then show ?thesis using int_of_str_str_nat [of SCHEMA_VERSION] by simp
qed

text \<open>
  C22: the two ways an event outlives its process agree. An event whose payload is JSON and that the events table takes can be put on the stream, and what another worker
  decodes from the stream is what replaying the new row gives (type, session, time, tier and payload), under the original id and without a
  sequence number.
\<close>
theorem wire_agrees_with_table:
  assumes "sql_inv db" and "sql_persist (we_float e) ev db = (Inr n, db')" and "wire_clean e ev"
    and "we_from_iso e (we_iso e (occurred_at ev)) = Some (occurred_at ev)" and "we_uuid e (event_id ev) = Some (event_id ev)"
  shows "\<exists>en row. encode_event e ev = Inr en \<and> event_rows db' = event_rows db @ [row]
    \<and> decode_event e en = Inr ((row_to_replayed fid row)\<lparr>rep_event_id := event_id ev, rep_seq := 0\<rparr>)"
proof -
  have norm: "json_norm (we_float e) (PDict (event_payload ev)) = Inr (PDict (listed_pairs (event_payload ev)))"
    using listed_norm(1) [of "PDict (event_payload ev)" "we_float e"] assms(3) by (simp add: wire_clean_def)
  have row: "event_rows db' = event_rows db @ [make_row ev (listed_pairs (event_payload ev)) n]"
    using assms(2) norm by (cases rule: sql_persist_cases [OF assms(1), of "we_float e" ev]) auto
  let ?en = "[(''v'', str_nat SCHEMA_VERSION), (''type'', class_name (body ev)), (''event_id'', event_id ev), (''ts'', we_iso e (occurred_at ev)),
       (''session_id'', event_session (body ev)), (''tier'', tier_value (delivery_tier ev)), (''payload'', json_text (we_float e) '' '' (PDict (event_payload ev)))]"
  have enc: "encode_event e ev = Inr ?en"
    using clean_keys_ok(1) [of "PDict (event_payload ev)"] assms(3) by (simp add: encode_event_def json_dumps_def wire_clean_def del: json_text.simps)
  have "dget (listed_pairs (event_payload ev)) ''delivery_tier'' = PStr (tier_value (delivery_tier ev))"
    by (simp add: event_payload_def dget_def)
  then have "decode_event e ?en = Inr ((row_to_replayed fid (make_row ev (listed_pairs (event_payload ev)) n))\<lparr>rep_event_id := event_id ev, rep_seq := 0\<rparr>)"
    using payload_read_back [OF assms(3) refl, of "str_nat SCHEMA_VERSION" "class_name (body ev)" "event_id ev" "we_iso e (occurred_at ev)" "event_session (body ev)" "tier_value (delivery_tier ev)"]
      assms(4,5) version_read
    by (cases "delivery_tier ev") (simp_all add: decode_event_def entry_text_def row_to_replayed_def make_row_def Let_def del: json_text.simps str_nat.simps)
  then show ?thesis using enc row by blast
qed

section \<open>What the pump delivers\<close>

lemma id_less_order:
  "\<not> id_less a a" "id_less a b \<Longrightarrow> id_less b c \<Longrightarrow> id_less a c" "\<not> id_less a b \<Longrightarrow> \<not> id_less b a \<Longrightarrow> a = b"
  by (auto simp: id_less_def prod_eq_iff)

lemma id_less_asym: "id_less a b \<Longrightarrow> \<not> id_less b a"
  by (auto simp: id_less_def)

text \<open>Ids grow along the stream and none is above the last one given.\<close>

definition stream_ok :: "redis_stream \<Rightarrow> bool" where
  "stream_ok s \<longleftrightarrow> sorted_wrt (\<lambda>x y. id_less (fst x) (fst y)) (st_entries s) \<and> (\<forall>x \<in> set (st_entries s). \<not> id_less (st_last s) (fst x))"

definition gen_id :: "nat \<Rightarrow> redis_stream \<Rightarrow> stream_id" where
  "gen_id ms s = (if ms > fst (st_last s) then (ms, 0) else (fst (st_last s), Suc (snd (st_last s))))"

lemma gen_id_above: "id_less (st_last s) (gen_id ms s)"
  by (auto simp: gen_id_def id_less_def)

lemma xadd_roomy: "length (st_entries s) < keep \<Longrightarrow> xadd ms keep en s = \<lparr>st_entries = st_entries s @ [(gen_id ms s, en)], st_last = gen_id ms s\<rparr>"
  by (simp add: xadd_def gen_id_def Let_def)

lemma not_above_trans: "\<not> id_less b i \<Longrightarrow> id_less b n \<Longrightarrow> id_less i n"
  by (auto simp: id_less_def)

lemma stream_ok_xadd:
  assumes "stream_ok s"
  shows "stream_ok (xadd ms keep en s)"
proof -
  let ?es = "st_entries s @ [(gen_id ms s, en)]"
  have eq: "xadd ms keep en s = \<lparr>st_entries = drop (length ?es - keep) ?es, st_last = gen_id ms s\<rparr>"
    by (simp add: xadd_def gen_id_def Let_def)
  have below: "id_less (fst x) (gen_id ms s)" if "x \<in> set (st_entries s)" for x
    using that assms by (intro not_above_trans [OF _ gen_id_above]) (auto simp: stream_ok_def)
  then have "sorted_wrt (\<lambda>x y. id_less (fst x) (fst y)) ?es" using assms by (auto simp: stream_ok_def sorted_wrt_append)
  then have "sorted_wrt (\<lambda>x y. id_less (fst x) (fst y)) (drop (length ?es - keep) ?es)" by (rule sorted_wrt_drop)
  moreover have "\<not> id_less (gen_id ms s) (fst x)" if "x \<in> set ?es" for x
    using that below [of x] id_less_asym [of "fst x" "gen_id ms s"] id_less_order(1) [of "gen_id ms s"] by (auto simp del: split_paired_All)
  ultimately show ?thesis using set_drop_subset [of "length ?es - keep" ?es] unfolding eq stream_ok_def by (auto simp del: set_append)
qed

definition decoded :: "wire_env \<Rightarrow> (stream_id \<times> wire_entry) list \<Rightarrow> replayed list" where
  "decoded e es = List.map_filter (\<lambda>x. case decode_event e (snd x) of Inr ev \<Rightarrow> Some ev | Inl _ \<Rightarrow> None) es"

lemma decoded_append [simp]: "decoded e (es @ fs) = decoded e es @ decoded e fs"
  by (simp add: decoded_def List.map_filter_def)

definition offer_if :: "replayed \<Rightarrow> local_deque \<Rightarrow> local_deque" where
  "offer_if ev d = (if topic_matches (q_topic d) ev then offer ev d else d)"

definition feed :: "replayed list \<Rightarrow> local_deque list \<Rightarrow> local_deque list" where
  "feed evs qs = map (fold offer_if evs) qs"

lemma feed_simps [simp]: "feed [] qs = qs" "feed (evs @ evs1) qs = feed evs1 (feed evs qs)"
  by (simp_all add: feed_def)

lemma pump_entries:
  "fold (pump_entry e) es b = b\<lparr>rb_cursor := (if es = [] then rb_cursor b else Some (fst (last es))), rb_subs := feed (decoded e es) (rb_subs b)\<rparr>"
proof (induction es arbitrary: b)
  case (Cons x es)
  have "pump_entry e x b = b\<lparr>rb_cursor := Some (fst x), rb_subs := feed (decoded e [x]) (rb_subs b)\<rparr>"
    by (cases "decode_event e (snd x)")
       (simp_all add: pump_entry_def decoded_def List.map_filter_def fanout_def feed_def offer_if_def Let_def)
  then show ?case using Cons.IH [of "pump_entry e x b"] decoded_append [of e "[x]" es] by (auto simp del: decoded_append)
qed (simp add: decoded_def List.map_filter_def)

lemma sorted_tail:
  assumes "sorted_wrt (\<lambda>x y. id_less (fst x) (fst y)) (xs @ y # zs)"
  shows "filter (\<lambda>x. id_less (fst y) (fst x)) (xs @ y # zs) = zs"
proof -
  have "filter (\<lambda>x. id_less (fst y) (fst x)) xs = []" using assms id_less_asym by (auto simp: sorted_wrt_append filter_empty_conv simp del: split_paired_All)
  moreover have "filter (\<lambda>x. id_less (fst y) (fst x)) zs = zs" using assms by (simp add: sorted_wrt_append filter_id_conv del: split_paired_All)
  ultimately show ?thesis using id_less_order(1) [of "fst y"] by simp
qed

lemma behind_behind: "id_less c l \<Longrightarrow> filter (\<lambda>x. id_less l (fst x)) (behind_id c s) = behind_id l s"
  using id_less_order(2) [of c l] by (auto simp: behind_id_def case_prod_beta intro!: filter_cong)

text \<open>Reading a prefix of what is behind the cursor leaves the rest behind the new one.\<close>

lemma behind_rest:
  assumes "stream_ok s" "0 < n" "behind_id c s \<noteq> []"
  shows "behind_id (fst (last (take n (behind_id c s)))) s = drop n (behind_id c s)"
proof -
  let ?B = "behind_id c s" and ?y = "last (take n (behind_id c s))"
  have so: "sorted_wrt (\<lambda>x y. id_less (fst x) (fst y)) ?B"
    using assms(1) by (auto simp: stream_ok_def behind_id_def intro: sorted_wrt_filter)
  have "take n ?B \<noteq> []" using assms(2,3) by simp
  then have split: "?B = butlast (take n ?B) @ ?y # drop n ?B"
    using append_butlast_last_id [of "take n ?B"] append_take_drop_id [of n ?B] by (metis append_Cons append_Nil append_assoc)
  then have "?y \<in> set ?B" by (metis in_set_conv_decomp)
  then have "id_less c (fst ?y)" unfolding behind_id_def by auto
  then have "behind_id (fst ?y) s = filter (\<lambda>x. id_less (fst ?y) (fst x)) ?B" by (simp add: behind_behind)
  also have "\<dots> = drop n ?B"
    using sorted_tail [of "butlast (take n ?B)" ?y "drop n ?B"] so unfolding split [symmetric] by simp
  finally show ?thesis .
qed

text \<open>\<open>Publish\<close>: another worker adds an entry; \<open>Round\<close>: one read of the pump, while the listed entries are added.\<close>

datatype rstep = Publish nat wire_entry | Round "(nat \<times> wire_entry) list"

definition add_all :: "nat \<Rightarrow> (nat \<times> wire_entry) list \<Rightarrow> redis_stream \<Rightarrow> redis_stream" where
  "add_all keep ps s = fold (\<lambda>(ms, en). xadd ms keep en) ps s"

fun redis_run :: "wire_env \<Rightarrow> nat \<Rightarrow> rstep list \<Rightarrow> redis_stream \<times> redis_bus \<Rightarrow> redis_stream \<times> redis_bus" where
  "redis_run e keep [] st = st"
| "redis_run e keep (Publish ms en # xs) (s, b) = redis_run e keep xs (xadd ms keep en s, b)"
| "redis_run e keep (Round ps # xs) (s, b) = redis_run e keep xs (add_all keep ps s, pump_round e s (add_all keep ps s) b)"

fun published :: "rstep list \<Rightarrow> wire_entry list" where
  "published [] = []"
| "published (Publish ms en # xs) = en # published xs"
| "published (Round ps # xs) = map snd ps @ published xs"

text \<open>The stream only grows, and what is added is behind every cursor read so far.\<close>

definition grows :: "wire_entry list \<Rightarrow> redis_stream \<Rightarrow> redis_stream \<Rightarrow> bool" where
  "grows ens s s' \<longleftrightarrow> (\<exists>es. st_entries s' = st_entries s @ es \<and> map snd es = ens \<and> (\<forall>x \<in> set es. id_less (st_last s) (fst x)) \<and> \<not> id_less (st_last s') (st_last s))"

lemma add_all_grows:
  assumes "stream_ok s" "length (st_entries s) + length ps \<le> keep"
  shows "stream_ok (add_all keep ps s) \<and> grows (map snd ps) s (add_all keep ps s) \<and> length (st_entries (add_all keep ps s)) = length (st_entries s) + length ps"
  using assms
proof (induction ps arbitrary: s)
  case Nil
  then show ?case using id_less_order(1) by (simp add: add_all_def grows_def)
next
  case (Cons p ps)
  obtain ms en where p: "p = (ms, en)" by (rule prod.exhaust)
  let ?s = "xadd ms keep en s"
  have s: "?s = \<lparr>st_entries = st_entries s @ [(gen_id ms s, en)], st_last = gen_id ms s\<rparr>" using Cons.prems(2) by (intro xadd_roomy) simp
  have ok: "stream_ok ?s" using Cons.prems(1) by (rule stream_ok_xadd)
  have len: "length (st_entries ?s) = Suc (length (st_entries s))" unfolding s by simp
  have ih: "stream_ok (add_all keep ps ?s)" "grows (map snd ps) ?s (add_all keep ps ?s)" "length (st_entries (add_all keep ps ?s)) = length (st_entries ?s) + length ps"
    using Cons.IH [OF ok] Cons.prems(2) len by auto
  obtain es where es: "st_entries (add_all keep ps ?s) = st_entries ?s @ es" "map snd es = map snd ps" "\<forall>x \<in> set es. id_less (gen_id ms s) (fst x)"
      "\<not> id_less (st_last (add_all keep ps ?s)) (gen_id ms s)"
    using ih(2) by (auto simp: grows_def s)
  have "\<forall>x \<in> set es. id_less (st_last s) (fst x)" using es(3) id_less_order(2) [OF gen_id_above] by blast
  moreover have "\<not> id_less (st_last (add_all keep ps ?s)) (st_last s)" using es(4) gen_id_above id_less_order(2) by blast
  ultimately have "grows (en # map snd ps) s (add_all keep ps ?s)"
    using es(1,2) gen_id_above by (auto simp: grows_def s intro!: exI [of _ "(gen_id ms s, en) # es"])
  then show ?case using ih(1,3) p len by (simp add: add_all_def)
qed

lemma grows_behind:
  assumes "grows ens s s'"
  obtains es where "map snd es = ens" "\<And>c. \<not> id_less (st_last s) c \<Longrightarrow> behind_id c s' = behind_id c s @ es"
proof -
  obtain es where es: "st_entries s' = st_entries s @ es" "\<forall>x \<in> set es. id_less (st_last s) (fst x)" "map snd es = ens" using assms by (auto simp: grows_def)
  have "behind_id c s' = behind_id c s @ es" if "\<not> id_less (st_last s) c" for c
  proof -
    have "filter (\<lambda>(j, _). id_less c j) es = es" using es(2) not_above_trans [OF that] by (simp add: filter_id_conv case_prod_beta)
    then show ?thesis by (simp add: behind_id_def es(1))
  qed
  then show ?thesis using that es(3) by blast
qed

lemma grows_last: "grows ens s s' \<Longrightarrow> \<not> id_less (st_last s) c \<Longrightarrow> \<not> id_less (st_last s') c"
  by (auto simp: grows_def id_less_def)

lemma grows_trans:
  assumes "grows ens s s1" "grows fns s1 s2"
  shows "grows (ens @ fns) s s2"
proof -
  obtain es where es: "st_entries s1 = st_entries s @ es" "\<forall>x \<in> set es. id_less (st_last s) (fst x)" "\<not> id_less (st_last s1) (st_last s)" "map snd es = ens"
    using assms(1) by (auto simp: grows_def)
  obtain fs where fs: "st_entries s2 = st_entries s1 @ fs" "\<forall>x \<in> set fs. id_less (st_last s1) (fst x)" "\<not> id_less (st_last s2) (st_last s1)" "map snd fs = fns"
    using assms(2) by (auto simp: grows_def)
  have "\<forall>x \<in> set fs. id_less (st_last s) (fst x)" using fs(2) not_above_trans [OF es(3)] by blast
  then have "\<forall>x \<in> set (es @ fs). id_less (st_last s) (fst x)" using es(2) by auto
  moreover have "\<not> id_less (st_last s2) (st_last s)" using es(3) fs(3) by (auto simp: id_less_def)
  moreover have "st_entries s2 = st_entries s @ (es @ fs)" using es(1) fs(1) by simp
  ultimately show ?thesis unfolding grows_def using es(4) fs(4) by (intro exI [of _ "es @ fs"]) simp
qed

lemma pump_round_reads:
  assumes "stream_ok s'" "grows ens s s'" "rb_cursor b = Some c" "\<not> rb_closed b" "\<not> id_less (st_last s) c"
  shows "\<exists>c' n. pump_round e s s' b = b\<lparr>rb_cursor := Some c', rb_subs := feed (decoded e (take n (behind_id c s'))) (rb_subs b)\<rparr>
    \<and> behind_id c' s' = drop n (behind_id c s') \<and> \<not> id_less (st_last s') c' \<and> (behind_id c s' \<noteq> [] \<longrightarrow> 0 < n)"
proof -
  obtain es where es: "behind_id c s' = behind_id c s @ es" using grows_behind [OF assms(2)] assms(5) by metis
  define n where "n = (if behind_id c s = [] then 100 else min 100 (length (behind_id c s)))"
  have x: "xread 100 (Some c) s s' = take n (behind_id c s')"
  proof (cases "behind_id c s = []")
    case False
    have "take 100 (behind_id c s) = take (min 100 (length (behind_id c s))) (behind_id c s')"
      by (cases "length (behind_id c s) \<le> 100") (simp_all add: es min_def)
    then show ?thesis using False by (simp add: xread_def n_def)
  qed (simp add: xread_def n_def)
  have n: "0 < n" by (simp add: n_def)
  have run: "pump_round e s s' b = fold (pump_entry e) (take n (behind_id c s')) b" using assms(3,4) by (simp add: pump_round_def x)
  show ?thesis
  proof (cases "behind_id c s' = []")
    case True
    then show ?thesis unfolding run using assms(3) grows_last [OF assms(2,5)] n
      by (intro exI [of _ c] exI [of _ n]) (simp add: decoded_def List.map_filter_def)
  next
    case False
    let ?l = "fst (last (take n (behind_id c s')))"
    have "last (take n (behind_id c s')) \<in> set (take n (behind_id c s'))" using False n by (intro last_in_set) simp
    then have "last (take n (behind_id c s')) \<in> set (st_entries s')" by (auto simp: behind_id_def dest: in_set_takeD)
    then have "\<not> id_less (st_last s') ?l" using assms(1) by (auto simp: stream_ok_def)
    then show ?thesis
      unfolding run pump_entries using False n behind_rest [OF assms(1) n False]
      by (intro exI [of _ ?l] exI [of _ n]) simp
  qed
qed

lemma redis_run_feeds:
  assumes "stream_ok s" "rb_cursor b = Some c" "\<not> rb_closed b" "\<not> id_less (st_last s) c" "length (st_entries s) + length (published steps) \<le> keep"
    and "redis_run e keep steps (s, b) = (s', b')"
  shows "\<exists>c' evs. b' = b\<lparr>rb_cursor := Some c', rb_subs := feed evs (rb_subs b)\<rparr> \<and> stream_ok s' \<and> \<not> id_less (st_last s') c' \<and> grows (published steps) s s'
    \<and> decoded e (behind_id c s') = evs @ decoded e (behind_id c' s') \<and> length (st_entries s') = length (st_entries s) + length (published steps)"
  using assms
proof (induction steps arbitrary: s b c)
  case Nil
  have "grows [] s s" using add_all_grows [of s "[]" keep] Nil.prems by (simp add: add_all_def)
  moreover have "b = b\<lparr>rb_cursor := Some c, rb_subs := feed [] (rb_subs b)\<rparr>" using Nil.prems(2) by (cases b) simp
  ultimately show ?case using Nil.prems by (intro exI [of _ c] exI [of _ "[]"]) (simp del: feed_simps)
next
  case (Cons x steps)
  show ?case
  proof (cases x)
    case (Publish ms en)
    let ?s = "add_all keep [(ms, en)] s"
    have g: "stream_ok ?s" "grows [en] s ?s" "length (st_entries ?s) = Suc (length (st_entries s))"
      using add_all_grows [OF Cons.prems(1), of "[(ms, en)]" keep] Cons.prems(5) Publish by auto
    moreover have "redis_run e keep steps (?s, b) = (s', b')" using Cons.prems(6) Publish by (simp add: add_all_def)
    ultimately show ?thesis
      using Cons.IH [OF g(1) Cons.prems(2,3) grows_last [OF g(2) Cons.prems(4)]] Cons.prems(5) Publish grows_trans [OF g(2)] by fastforce
  next
    case (Round ps)
    let ?s = "add_all keep ps s"
    have g: "stream_ok ?s" "grows (map snd ps) s ?s" "length (st_entries ?s) = length (st_entries s) + length ps"
      using add_all_grows [OF Cons.prems(1), of ps keep] Cons.prems(5) Round by auto
    obtain c1 n where r: "pump_round e s ?s b = b\<lparr>rb_cursor := Some c1, rb_subs := feed (decoded e (take n (behind_id c ?s))) (rb_subs b)\<rparr>"
        "behind_id c1 ?s = drop n (behind_id c ?s)" "\<not> id_less (st_last ?s) c1"
      using pump_round_reads [OF g(1,2) Cons.prems(2,3,4)] by blast
    let ?b = "b\<lparr>rb_cursor := Some c1, rb_subs := feed (decoded e (take n (behind_id c ?s))) (rb_subs b)\<rparr>"
    have "redis_run e keep steps (?s, ?b) = (s', b')" using Cons.prems(6) Round r(1) by simp
    then obtain c' evs where ih: "b' = ?b\<lparr>rb_cursor := Some c', rb_subs := feed evs (rb_subs ?b)\<rparr>" "stream_ok s'" "\<not> id_less (st_last s') c'" "grows (published steps) ?s s'"
        "decoded e (behind_id c1 s') = evs @ decoded e (behind_id c' s')" "length (st_entries s') = length (st_entries ?s) + length (published steps)"
      using Cons.IH [of ?s ?b c1] g r(3) Cons.prems(3,5) Round by auto
    obtain es where es: "\<And>c. \<not> id_less (st_last ?s) c \<Longrightarrow> behind_id c s' = behind_id c ?s @ es" using grows_behind [OF ih(4)] by blast
    then have "behind_id c s' = take n (behind_id c ?s) @ behind_id c1 s'"
      using es [of c] es [of c1] r(2,3) grows_last [OF g(2) Cons.prems(4)] by simp
    then have "decoded e (behind_id c s') = (decoded e (take n (behind_id c ?s)) @ evs) @ decoded e (behind_id c' s')" using ih(5) by simp
    then show ?thesis using ih g grows_trans [OF g(2) ih(4)] Round
      by (intro exI [of _ c'] exI [of _ "decoded e (take n (behind_id c ?s)) @ evs"]) simp
  qed
qed


lemma redis_run_append: "redis_run e keep (xs @ ys) st = redis_run e keep ys (redis_run e keep xs st)"
  by (induction e keep xs st rule: redis_run.induct) simp_all

lemma idle_rounds_drain:
  assumes "stream_ok s" "rb_cursor b = Some c" "\<not> rb_closed b" "\<not> id_less (st_last s) c" "length (behind_id c s) \<le> m"
  shows "\<exists>c'. redis_run e keep (replicate m (Round [])) (s, b) = (s, b\<lparr>rb_cursor := Some c', rb_subs := feed (decoded e (behind_id c s)) (rb_subs b)\<rparr>)"
  using assms
proof (induction m arbitrary: b c)
  case 0
  have "b = b\<lparr>rb_cursor := Some c, rb_subs := feed [] (rb_subs b)\<rparr>" using "0.prems"(2) by (cases b) simp
  then show ?case using "0.prems" by (intro exI [of _ c]) (simp add: decoded_def del: feed_simps)
next
  case (Suc m)
  have "grows [] s s" using id_less_order(1) by (simp add: grows_def)
  then obtain c1 n where r: "pump_round e s s b = b\<lparr>rb_cursor := Some c1, rb_subs := feed (decoded e (take n (behind_id c s))) (rb_subs b)\<rparr>"
      "behind_id c1 s = drop n (behind_id c s)" "\<not> id_less (st_last s) c1" "behind_id c s \<noteq> [] \<longrightarrow> 0 < n"
    using pump_round_reads [OF Suc.prems(1) _ Suc.prems(2,3,4), of "[]" e] by blast
  let ?b = "b\<lparr>rb_cursor := Some c1, rb_subs := feed (decoded e (take n (behind_id c s))) (rb_subs b)\<rparr>"
  have "length (behind_id c1 s) \<le> m" using r(2,4) Suc.prems(5) by (cases "behind_id c s = []") auto
  then obtain c' where "redis_run e keep (replicate m (Round [])) (s, ?b) = (s, ?b\<lparr>rb_cursor := Some c', rb_subs := feed (decoded e (behind_id c1 s)) (rb_subs ?b)\<rparr>)"
    using Suc.IH [of ?b c1] Suc.prems(1,3) r(3) by auto
  moreover have "decoded e (behind_id c s) = decoded e (take n (behind_id c s)) @ decoded e (behind_id c1 s)"
    unfolding r(2) decoded_append [symmetric] by simp
  ultimately show ?case using r(1) by (intro exI [of _ c']) (simp add: add_all_def)
qed

text \<open>An open queue with room takes every event it asked for, in order.\<close>

lemma roomy_queue:
  assumes "\<not> q_closed d" "q_max d = 0 \<or> length (q_items d) + length (filter (topic_matches (q_topic d)) evs) \<le> q_max d"
  shows "fold offer_if evs d = d\<lparr>q_items := q_items d @ filter (topic_matches (q_topic d)) evs\<rparr>"
  using assms
proof (induction evs arbitrary: d)
  case (Cons ev evs)
  show ?case
  proof (cases "topic_matches (q_topic d) ev")
    case True
    then have "offer_if ev d = d\<lparr>q_items := q_items d @ [ev]\<rparr>" using Cons.prems by (auto simp: offer_if_def offer_def)
    then show ?thesis using Cons.IH [of "d\<lparr>q_items := q_items d @ [ev]\<rparr>"] Cons.prems True by simp
  qed (use Cons in \<open>simp add: offer_if_def\<close>)
qed simp

definition events_of :: "wire_env \<Rightarrow> wire_entry list \<Rightarrow> replayed list" where
  "events_of e ens = List.map_filter (\<lambda>en. case decode_event e en of Inr ev \<Rightarrow> Some ev | Inl _ \<Rightarrow> None) ens"

lemma decoded_events_of: "decoded e es = events_of e (map snd es)"
  by (simp add: decoded_def events_of_def List.map_filter_def filter_map comp_def)

text \<open>
  C23: the pump neither loses nor repeats nor reorders. However the entries other workers publish fall between and inside its reads, once the
  pump has had enough quiet reads every open queue with room has received exactly the entries behind the cursor and the published ones
  that decode and match its topic, in the order of the stream.
\<close>
theorem pump_exact:
  assumes "stream_ok s" "rb_cursor b = Some c" "\<not> rb_closed b" "\<not> id_less (st_last s) c"
    and "length (st_entries s) + length (published steps) \<le> keep" "length (st_entries s) + length (published steps) \<le> m"
    and "redis_run e keep (steps @ replicate m (Round [])) (s, b) = (s', b')"
    and "evs = events_of e (map snd (behind_id c s) @ published steps)"
    and "i < length (rb_subs b)" "rb_subs b ! i = d" "\<not> q_closed d"
    and "q_max d = 0 \<or> length (q_items d) + length (filter (topic_matches (q_topic d)) evs) \<le> q_max d"
  shows "rb_subs b' ! i = d\<lparr>q_items := q_items d @ filter (topic_matches (q_topic d)) evs\<rparr>"
proof -
  obtain s1 b1 where one: "redis_run e keep steps (s, b) = (s1, b1)" by fastforce
  then have two: "redis_run e keep (replicate m (Round [])) (s1, b1) = (s', b')" using assms(7) by (simp add: redis_run_append)
  obtain c1 evs1 where r: "b1 = b\<lparr>rb_cursor := Some c1, rb_subs := feed evs1 (rb_subs b)\<rparr>" "stream_ok s1" "\<not> id_less (st_last s1) c1"
      "grows (published steps) s s1" "decoded e (behind_id c s1) = evs1 @ decoded e (behind_id c1 s1)"
      "length (st_entries s1) = length (st_entries s) + length (published steps)"
    using redis_run_feeds [OF assms(1-5) one] by blast
  have "length (behind_id c1 s1) \<le> m"
    using r(6) assms(6) by (auto simp: behind_id_def intro: le_trans [OF length_filter_le])
  then obtain c2 where "(s', b') = (s1, b1\<lparr>rb_cursor := Some c2, rb_subs := feed (decoded e (behind_id c1 s1)) (rb_subs b1)\<rparr>)"
    using idle_rounds_drain [OF r(2) _ _ r(3), of b1 m e keep] two r(1) assms(3) by auto
  then have subs: "rb_subs b' = feed (decoded e (behind_id c s1)) (rb_subs b)" using r(1,5) by simp
  obtain es where "map snd es = published steps" "behind_id c s1 = behind_id c s @ es"
    using grows_behind [OF r(4)] assms(4) by metis
  then have "decoded e (behind_id c s1) = evs" using assms(8) by (simp add: decoded_events_of)
  then show ?thesis using subs assms(9,10) roomy_queue [OF assms(11,12)] by (simp add: feed_def)
qed


section \<open>What the code leaves open\<close>

text \<open>
  While nothing has been read the cursor is \<open>$\<close>, which Redis resolves anew at every read: an entry published between two reads is
  behind the first and before the second, and no subscriber ever gets it.
\<close>

lemma last_id_behind_nothing: "stream_ok s \<Longrightarrow> behind_id (st_last s) s = []"
  by (auto simp: stream_ok_def behind_id_def filter_empty_conv)

lemma dollar_skips:
  assumes "stream_ok s" "rb_cursor b = None"
  shows "snd (redis_run e keep [Round [], Publish ms en, Round []] (s, b)) = b"
proof -
  have "pump_round e t t b = b" if "stream_ok t" for t
    using last_id_behind_nothing [OF that] assms(2) by (simp add: pump_round_def xread_def)
  then show ?thesis using assms(1) stream_ok_xadd [OF assms(1)] by (simp add: add_all_def)
qed

text \<open>A full queue silently loses the newest event; nothing waits for its reader.\<close>

lemma full_queue_drops: "0 < q_max d \<Longrightarrow> q_max d \<le> length (q_items d) \<Longrightarrow> offer ev d = d"
  by (simp add: offer_def)

text \<open>Redis ids begin with a time, the cursor \<open>0-seq\<close> is below all of them: a replay starts at the beginning whatever \<open>after_seq\<close> says.\<close>

lemma take_page_start: "0 < limit \<Longrightarrow> es \<noteq> [] \<Longrightarrow> take_page e limit i es = take_page e limit i1 es"
  by (cases es) auto

lemma replay_ignores_cursor:
  assumes "\<forall>x \<in> set (st_entries s). 0 < fst (fst x)"
  shows "redis_subscribe_all e after_seq limit s = redis_subscribe_all e 0 limit s"
proof -
  have "behind_id (0, n) s = st_entries s" for n using assms by (auto simp: behind_id_def id_less_def filter_id_conv)
  then have same: "xread k (Some (0, n)) s s = xread k (Some (0, 0)) s s" for k n by (simp add: xread_def)
  show ?thesis unfolding redis_subscribe_all_def replay_pages.simps same [of _ after_seq]
    using take_page_start [of limit "xread (min 100 limit) (Some (0, 0)) s s" e "(0, after_seq)" "(0, 0)"]
    by (simp add: Let_def)
qed

section \<open>Witnesses\<close>

definition demo_wire :: wire_env where
  "demo_wire = \<lparr>we_float = (\<lambda>_. ''0.0''), we_parse = (\<lambda>_. Fin 0), we_iso = (\<lambda>t. str_nat (nat t)),
     we_from_iso = (\<lambda>t. case int_of_str t of Inl _ \<Rightarrow> None | Inr n \<Rightarrow> Some n), we_uuid = Some, we_fresh = ''u'', we_now = 0\<rparr>"

definition demo_entry :: "string \<Rightarrow> wire_entry" where
  "demo_entry ty = [(''v'', ''1''), (''type'', ty), (''event_id'', ''e''), (''ts'', ''7''), (''session_id'', ''s''), (''tier'', ''durable''), (''payload'', ''{}'')]"

theorem wire_agrees_with_table_witness:
  "\<exists>en row. encode_event demo_wire (demo_event ''e1'') = Inr en
    \<and> event_rows (snd (sql_persist (we_float demo_wire) (demo_event ''e1'') (empty_events ''sqlite''))) = [row]
    \<and> decode_event demo_wire en = Inr ((row_to_replayed ''x'' row)\<lparr>rep_event_id := event_id (demo_event ''e1''), rep_seq := 0\<rparr>)"
proof -
  let ?p = "sql_persist (we_float demo_wire) (demo_event ''e1'') (empty_events ''sqlite'')"
  have "fst ?p = Inr 1" by code_simp
  then have p: "?p = (Inr 1, snd ?p)" by (metis prod.collapse)
  have "wire_clean demo_wire (demo_event ''e1'')"
    by (simp add: wire_clean_def demo_wire_def demo_event_def new_event_def event_payload_def)
  moreover have "we_from_iso demo_wire (we_iso demo_wire (occurred_at (demo_event ''e1''))) = Some (occurred_at (demo_event ''e1''))"
    "we_uuid demo_wire (event_id (demo_event ''e1'')) = Some (event_id (demo_event ''e1''))" by code_simp+
  moreover have "event_rows (empty_events ''sqlite'') = []" by (simp add: empty_events_def)
  ultimately show ?thesis using wire_agrees_with_table [OF sql_inv_empty p] by (metis append_Nil)
qed

theorem pump_exact_witness:
  "map type_name (q_items (rb_subs (snd (redis_run demo_wire 10
      ([Publish 5 (demo_entry ''A''), Round [(5, demo_entry ''B''), (6, demo_entry ''A'')]] @ replicate 3 (Round []))
      (\<lparr>st_entries = [], st_last = (0, 0)\<rparr>, (redis_subscribe (Cls ''A'') 2 new_redis_bus)\<lparr>rb_cursor := Some (0, 0)\<rparr>))) ! 0)) = [''A'', ''A'']"
proof -
  let ?s = "\<lparr>st_entries = [], st_last = (0, 0)\<rparr>" and ?b = "(redis_subscribe (Cls ''A'') 2 new_redis_bus)\<lparr>rb_cursor := Some (0, 0)\<rparr>"
  let ?steps = "[Publish 5 (demo_entry ''A''), Round [(5, demo_entry ''B''), (6, demo_entry ''A'')]]"
  let ?r = "redis_run demo_wire 10 (?steps @ replicate 3 (Round [])) (?s, ?b)"
  let ?evs = "events_of demo_wire (map snd (behind_id (0, 0) ?s) @ published ?steps)"
  have "stream_ok ?s" "\<not> id_less (st_last ?s) (0, 0)" by (simp_all add: stream_ok_def id_less_def)
  moreover have "map type_name (filter (topic_matches (Cls ''A'')) ?evs) = [''A'', ''A'']" by code_simp
  moreover from this have "length (filter (topic_matches (Cls ''A'')) ?evs) = 2" using arg_cong [of _ _ length] by fastforce
  ultimately show ?thesis
    using pump_exact [of ?s ?b "(0, 0)" ?steps 10 3 demo_wire "fst ?r" "snd ?r" ?evs 0 "rb_subs ?b ! 0"]
    by (simp add: redis_subscribe_def new_redis_bus_def)
qed

end
