(* ===== verification/Reports.thy ===== *)
theory Reports
  imports Team_Api Durable_Store
begin

text \<open>
  The endpoints over the tables of the others: cost reports (\<open>api/routers/cost.py\<close>, with the store's \<open>summary_for_user\<close>), the audit log
  (\<open>api/routers/audit.py\<close>), tool patterns (\<open>trace.py\<close>), the probes and the drain switch (\<open>health.py\<close>, \<open>admin_drain.py\<close>), and the
  fallback audit of the middleware (\<open>api/middleware/audit.py\<close>, \<open>api/audit_service.py\<close>). As in \<open>Team_Api\<close> a handler runs with a script of
  what other tasks do at its suspensions. The summary cache is the \<open>cachetools\<close> package: a parameter.
\<close>

section \<open>Days and months\<close>

text \<open>Time stamps are microseconds since 1970; \<open>day_of_month\<close> is the calendar day of a day number (proleptic Gregorian).\<close>

definition day_number :: "int \<Rightarrow> int" where
  "day_number t = t div day"

definition day_of_month :: "int \<Rightarrow> int" where
  "day_of_month n =
     (let z = n + 719468; doe = z mod 146097;
          yoe = (doe - doe div 1460 + doe div 36524 - doe div 146096) div 365;
          doy = doe - (365 * yoe + yoe div 4 - yoe div 100); mp = (5 * doy + 2) div 153
      in doy - (153 * mp + 2) div 5 + 1)"

definition midnight :: "int \<Rightarrow> int" where
  "midnight t = day_number t * day"

definition month_start :: "int \<Rightarrow> int" where
  "month_start t = (day_number t - (day_of_month (day_number t) - 1)) * day"

section \<open>Cost\<close>

record user_totals =
  ut_from :: int
  ut_count :: nat
  ut_cost :: rat

definition period_start :: "string \<Rightarrow> int \<Rightarrow> int" where
  "period_start period now =
     (if period = ''today'' then midnight now else if period = ''this_month'' then month_start now else now - 30 * day)"

definition summary_for_user :: "string \<Rightarrow> string \<Rightarrow> int \<Rightarrow> store \<Rightarrow> user_totals" where
  "summary_for_user label period now db =
     (let t = period_start period now; rs = filter (\<lambda>r. s_owner r = Some label \<and> s_submitted_at r \<ge> t) (sessions db)
      in \<lparr>ut_from = t, ut_count = length rs, ut_cost = sum_list (map s_cost rs)\<rparr>)"

definition cost_order_of :: "string \<Rightarrow> cost_order option" where
  "cost_order_of s = map_of [(''cost'', ByCost), (''sessions'', BySessions), (''owner'', ByOwner)] s"

definition forbidden_cost :: "team_env \<Rightarrow> request \<Rightarrow> string \<Rightarrow> string \<Rightarrow> 'a answer" where
  "forbidden_cost e rq err code = failure 403 err code [(PStr ''required_role'', PStr ''admin''), (PStr ''current_role'', PStr (caller_role e rq))]"

definition limit_ok :: "nat \<Rightarrow> bool" where
  "limit_ok n \<longleftrightarrow> 1 \<le> n \<and> n \<le> 200"

definition cost_per_owner ::
    "team_env \<Rightarrow> request \<Rightarrow> string option \<Rightarrow> int option \<Rightarrow> int option \<Rightarrow> nat \<Rightarrow> string \<Rightarrow> tcfg
     \<Rightarrow> ((string option \<times> nat \<times> rat) list \<times> int option \<times> int option) answer \<times> tcfg" where
  "cost_per_owner e rq owner from_ts to_ts limit order_by c = (case cost_order_of order_by of
     None \<Rightarrow> (unprocessable, c)
   | Some ord \<Rightarrow>
       if \<not> (text_within 0 64 owner \<and> limit_ok limit) then (unprocessable, c)
       else if \<not> is_admin e rq \<and> owner \<noteq> None \<and> owner \<noteq> Some (caller rq) then (forbidden_cost e rq ''cannot view other owners' cost'' ''forbidden_cost_view'', c)
       else (let w = (if is_admin e rq then owner else Some (caller rq)) in
         case reading (\<lambda>s. aggregate_cost_by_owner from_ts to_ts limit ord (team_db s)) c of
           (rows, c1) \<Rightarrow> (Answer 200 (if w = None then rows else filter (\<lambda>(o', _). o' = w) rows, from_ts, to_ts), c1)))"

record session_cost =
  sx_id :: string
  sx_owner :: "string option"
  sx_status :: string
  sx_submitted_at :: int
  sx_ended_at :: "int option"
  sx_cost :: rat

definition session_cost_of :: "session_row \<Rightarrow> session_cost" where
  "session_cost_of r = \<lparr>sx_id = s_id r, sx_owner = s_owner r, sx_status = s_status r, sx_submitted_at = s_submitted_at r,
     sx_ended_at = s_ended_at r, sx_cost = s_cost r\<rparr>"

definition cost_per_session ::
    "team_env \<Rightarrow> request \<Rightarrow> string option \<Rightarrow> int option \<Rightarrow> int option \<Rightarrow> nat \<Rightarrow> tcfg \<Rightarrow> session_cost list answer \<times> tcfg" where
  "cost_per_session e rq owner from_ts to_ts limit c =
     (if \<not> (text_within 0 64 owner \<and> limit_ok limit) then (unprocessable, c)
      else if \<not> is_admin e rq \<and> owner \<noteq> None \<and> owner \<noteq> Some (caller rq) then (forbidden_cost e rq ''cannot view other owners' sessions'' ''forbidden_cost_view'', c)
      else (let w = (if is_admin e rq then owner else Some (caller rq)) in
        case reading (\<lambda>s. list_sessions_with_cost w from_ts to_ts limit (team_db s)) c of
          (rows, c1) \<Rightarrow> (Answer 200 (map session_cost_of rows), c1)))"

record user_summary =
  us_user :: string
  us_role :: string
  us_period :: string
  us_totals :: user_totals
  us_team_total :: "rat option"

type_synonym summary_key = "string \<times> string \<times> bool"

record 'k summary_ops =
  sc_get :: "'k \<Rightarrow> summary_key \<Rightarrow> int \<Rightarrow> user_summary option"
  sc_put :: "summary_key \<Rightarrow> user_summary \<Rightarrow> int \<Rightarrow> 'k \<Rightarrow> 'k"

type_synonym 'k scfg = "(team \<times> 'k) \<times> (team \<times> 'k \<Rightarrow> team \<times> 'k) list"

definition team_read :: "(team \<Rightarrow> 'r) \<Rightarrow> 'k scfg \<Rightarrow> 'r \<times> 'k scfg" where
  "team_read f c = (case snd c of [] \<Rightarrow> (f (fst (fst c)), c) | g # gs \<Rightarrow> (let s = g (fst c) in (f (fst s), (s, gs))))"

definition team_total :: "store \<Rightarrow> rat" where
  "team_total db = sum_list (map (\<lambda>(_, _, x). x) (aggregate_cost_by_owner None None 1000 ByCost db))"

text \<open>\<open>t0\<close> and \<open>t1\<close>: the cache's clock when it is asked and when the summary is put in.\<close>

definition cost_summary :: "team_env \<Rightarrow> 'k summary_ops \<Rightarrow> int \<Rightarrow> int \<Rightarrow> request \<Rightarrow> string \<Rightarrow> 'k scfg \<Rightarrow> user_summary answer \<times> 'k scfg" where
  "cost_summary e ops t0 t1 rq period c =
     (if period \<notin> {''today'', ''this_month'', ''last_30d''} then (unprocessable, c)
      else (let key = (caller rq, period, is_admin e rq) in
        case sc_get ops (snd (fst c)) key t0 of
          Some v \<Rightarrow> (Answer 200 v, c)
        | None \<Rightarrow>
            (case team_read (\<lambda>s. summary_for_user (caller rq) period (te_now e) (team_db s)) c of (own, c1) \<Rightarrow>
             case (if is_admin e rq then map_prod Some id (team_read (\<lambda>s. team_total (team_db s)) c1) else (None, c1)) of (tot, c2) \<Rightarrow>
               (let v = \<lparr>us_user = caller rq, us_role = caller_role e rq, us_period = period, us_totals = own, us_team_total = tot\<rparr>
                in (Answer 200 v, ((fst (fst c2), sc_put ops key v t1 (snd (fst c2))), snd c2))))))"

subsection \<open>CSV\<close>

text \<open>The excel dialect of \<open>csv.writer\<close>, minimal quoting, for records of more than one field.\<close>

definition carriage :: char where "carriage = CHR 0x0D"

definition newline_c :: char where "newline_c = CHR 0x0A"

definition quote_c :: char where "quote_c = CHR 0x22"

definition needs_quotes :: "string \<Rightarrow> bool" where
  "needs_quotes s \<longleftrightarrow> list_ex (\<lambda>ch. ch \<in> {CHR '','', quote_c, carriage, newline_c}) s"

definition doubled :: "string \<Rightarrow> string" where
  "doubled s = concat (map (\<lambda>ch. if ch = quote_c then [quote_c, quote_c] else [ch]) s)"

definition csv_field :: "string \<Rightarrow> string" where
  "csv_field s = (if needs_quotes s then [quote_c] @ doubled s @ [quote_c] else s)"

fun writerow :: "string list \<Rightarrow> string" where
  "writerow [] = [carriage, newline_c]"
| "writerow [f] = csv_field f @ [carriage, newline_c]"
| "writerow (f # fs) = csv_field f @ '','' @ writerow fs"

text \<open>The dash that stands for no owner, in UTF-8.\<close>

definition em_dash :: string where
  "em_dash = [CHR 0xE2, CHR 0x80, CHR 0x94]"

definition csv_record :: "(rat \<Rightarrow> string) \<Rightarrow> string option \<times> nat \<times> rat \<Rightarrow> string list" where
  "csv_record fl r = (case r of (w, n, x) \<Rightarrow> [case w of Some (ch # cs) \<Rightarrow> ch # cs | _ \<Rightarrow> em_dash, str_nat n, fl x])"

definition csv_text :: "(rat \<Rightarrow> string) \<Rightarrow> (string option \<times> nat \<times> rat) list \<Rightarrow> string" where
  "csv_text fl rows = concat (map writerow ([''owner'', ''session_count'', ''total_cost_usd''] # map (csv_record fl) rows))"

definition window_text :: "team_env \<Rightarrow> int option \<Rightarrow> int option \<Rightarrow> string" where
  "window_text e from_ts to_ts =
     (case from_ts of None \<Rightarrow> ''*'' | Some t \<Rightarrow> te_iso e t) @ ''_to_'' @ (case to_ts of None \<Rightarrow> ''*'' | Some t \<Rightarrow> te_iso e t)"

definition cost_export_csv ::
    "team_env \<Rightarrow> (rat \<Rightarrow> string) \<Rightarrow> (int \<Rightarrow> string) \<Rightarrow> request \<Rightarrow> int option \<Rightarrow> int option \<Rightarrow> tcfg \<Rightarrow> (string \<times> string) answer \<times> tcfg" where
  "cost_export_csv e fl date_text rq from_ts to_ts c =
     (if \<not> is_admin e rq then (forbidden_cost e rq ''admin required for csv export'' ''forbidden_export'', c)
      else (case reading (\<lambda>s. aggregate_cost_by_owner from_ts to_ts 1000 ByCost (team_db s)) c of (rows, c1) \<Rightarrow>
        (Answer 200 (csv_text fl rows, ''cost_export_'' @ date_text (te_now e) @ ''.csv''),
         try_audit e (caller rq) ''cost_export'' ''date_range'' (window_text e from_ts to_ts) (te_request_id e)
           [(PStr ''row_count'', PInt (int (length rows)))] c1)))"

section \<open>Audit log\<close>

definition audit_view :: "team_env \<Rightarrow> audit_row \<Rightarrow> pydict" where
  "audit_view e r =
     [(PStr ''id'', PInt (int (a_id r))), (PStr ''ts'', PStr (te_iso e (a_ts r))), (PStr ''actor'', PStr (a_actor r)), (PStr ''action'', PStr (a_action r)),
      (PStr ''target_type'', opt_str (a_target_type r)), (PStr ''target_id'', opt_str (a_target_id r)),
      (PStr ''metadata'', PDict (case a_metadata r of None \<Rightarrow> [] | Some m \<Rightarrow> m)), (PStr ''request_id'', opt_str (a_request_id r))]"

definition audit_query_ok :: "string option \<Rightarrow> audit_filter \<Rightarrow> string option \<Rightarrow> nat \<Rightarrow> bool" where
  "audit_query_ok session_id af after limit \<longleftrightarrow> text_within 0 64 session_id \<and> text_within 0 64 (af_actor af) \<and> text_within 0 64 (af_action af)
     \<and> text_within 0 32 (af_target_type af) \<and> text_within 0 128 (af_target_id af) \<and> text_within 0 512 after \<and> limit_ok limit"

text \<open>What a caller below admin may ask for: the filter to use, or a refusal.\<close>

definition audit_scope :: "team_env \<Rightarrow> request \<Rightarrow> string option \<Rightarrow> audit_filter \<Rightarrow> tcfg \<Rightarrow> ('a answer + audit_filter) \<times> tcfg" where
  "audit_scope e rq session_id af c =
     (if is_admin e rq then (Inr af, c)
      else (case session_id of
          Some sid \<Rightarrow> (case reading (\<lambda>s. get_session sid (team_db s)) c of
              (None, c1) \<Rightarrow> (Inl (not_found ''session''), c1)
            | (Some row, c1) \<Rightarrow>
                if s_owner row \<noteq> rq_label rq then
                  (Inl (failure 403 ''forbidden'' ''forbidden_audit_view''
                     [(PStr ''required_role'', PStr ''admin''), (PStr ''current_role'', PStr (caller_role e rq)), (PStr ''session_owner'', opt_str (s_owner row))]), c1)
                else (Inr af, c1))
        | None \<Rightarrow>
            if af_actor af \<noteq> None \<and> af_actor af \<noteq> rq_label rq then
              (Inl (failure 403 ''cannot filter by other actor'' ''forbidden_audit_filter''
                 [(PStr ''required_role'', PStr ''admin''), (PStr ''current_role'', PStr (caller_role e rq))]), c)
            else (Inr (af\<lparr>af_actor := rq_label rq\<rparr>), c)))"

definition list_audit_events ::
    "team_env \<Rightarrow> codec \<Rightarrow> (store_exn \<Rightarrow> string) \<Rightarrow> request \<Rightarrow> string option \<Rightarrow> audit_filter \<Rightarrow> string option \<Rightarrow> nat \<Rightarrow> tcfg
     \<Rightarrow> (pydict list \<times> string option \<times> bool) answer \<times> tcfg" where
  "list_audit_events e cd exn_txt rq session_id af after limit c =
     (if \<not> audit_query_ok session_id af after limit then (unprocessable, c)
      else (case audit_scope e rq session_id af c of
          (Inl r, c1) \<Rightarrow> (r, c1)
        | (Inr af1, c1) \<Rightarrow> (case reading (list_audit cd session_id af1 after limit) c1 of
              (Inl (StoreError x), c2) \<Rightarrow> (Crash x, c2)
            | (Inl x, c2) \<Rightarrow> (if x \<in> {CursorInvalidError, CursorFilterMismatchError} then failure 400 (exn_txt x) ''cursor_invalid'' [] else Crash RuntimeError, c2)
            | (Inr (rows, nxt), c2) \<Rightarrow> (Answer 200 (map (audit_view e) rows, nxt, nxt \<noteq> None), c2))))"

section \<open>Tool patterns, probes and drain\<close>

definition trace_patterns :: "team_env \<Rightarrow> request \<Rightarrow> int option \<Rightarrow> nat \<Rightarrow> tcfg \<Rightarrow> ((string option \<times> string option) \<times> nat) list answer \<times> tcfg" where
  "trace_patterns e rq since limit c = with_role ''admin'' (te_config e) rq c (\<lambda>c.
     if \<not> limit_ok limit then (unprocessable, c)
     else (case reading (\<lambda>s. aggregate_tool_patterns since limit (team_db s)) c of (rows, c1) \<Rightarrow> (Answer 200 rows, c1)))"

record app_state =
  as_drained :: bool
  as_since :: "int option"

definition drain :: "team_env \<Rightarrow> request \<Rightarrow> app_state \<Rightarrow> pydict answer \<times> app_state" where
  "drain e rq s = with_role ''admin'' (te_config e) rq s (\<lambda>s.
     let s1 = (if as_drained s then s else \<lparr>as_drained = True, as_since = Some (te_now e)\<rparr>)
     in (case as_since s1 of
           None \<Rightarrow> (Crash AttributeError, s1)
         | Some t \<Rightarrow> (Answer 200 [(PStr ''drained'', PBool True), (PStr ''drain_started_at'', PStr (te_iso e t))], s1)))"

definition undrain :: "team_env \<Rightarrow> request \<Rightarrow> app_state \<Rightarrow> pydict answer \<times> app_state" where
  "undrain e rq s = with_role ''admin'' (te_config e) rq s (\<lambda>s.
     (Answer 200 [(PStr ''drained'', PBool False)], if as_drained s then \<lparr>as_drained = False, as_since = None\<rparr> else s))"

definition healthz :: "string answer" where
  "healthz = Answer 200 ''ok''"

definition unready :: "string \<Rightarrow> string answer" where
  "unready t = HttpError 503 (PDict [(PStr ''detail'', PStr t)]) []"

text \<open>The manager, if wired, and whether it accepts; the engine, if there is one, and what \<open>SELECT 1\<close> raised.\<close>

definition readyz :: "bool option \<Rightarrow> app_state \<Rightarrow> string option option \<Rightarrow> string answer" where
  "readyz manager s engine = (case manager of
     None \<Rightarrow> unready ''starting''
   | Some open_now \<Rightarrow>
       if as_drained s then unready ''drained''
       else if \<not> open_now then unready ''manager_draining''
       else (case engine of Some (Some x) \<Rightarrow> unready (''db_unreachable: '' @ x) | _ \<Rightarrow> Answer 200 ''ready''))"

section \<open>Fallback audit\<close>

definition AUDIT_METHODS :: "string list" where
  "AUDIT_METHODS = [''POST'', ''DELETE'', ''PATCH'', ''PUT'']"

definition EXEMPT_PATH_PREFIXES :: "string list" where
  "EXEMPT_PATH_PREFIXES = [''/api/v1/webhooks/'', ''/dashboard/'', ''/im/'']"

definition AUDITED_PREFIX :: string where "AUDITED_PREFIX = ''/api/v1/''"

definition is_exempt :: "string \<Rightarrow> bool" where
  "is_exempt path \<longleftrightarrow> list_ex (\<lambda>p. starts_with p path) EXEMPT_PATH_PREFIXES
     \<or> starts_with ''/api/v1/sessions/'' path \<and> starts_with (rev ''/events'') (rev path)"

record reply =
  rp_status :: nat
  rp_request_id :: "string option"

record audit_task =
  at_actor :: string
  at_method :: string
  at_path :: string
  at_status :: nat
  at_request_id :: "string option"

text \<open>\<open>service\<close>: whether an audit service is wired and its writes succeed.\<close>

definition fallback_task :: "bool option \<Rightarrow> string \<Rightarrow> request \<Rightarrow> string option \<Rightarrow> reply \<Rightarrow> audit_task option" where
  "fallback_task service meth rq rid rep =
     (if meth \<in> set AUDIT_METHODS \<and> starts_with AUDITED_PREFIX (rq_path rq) \<and> \<not> is_exempt (rq_path rq) \<and> service \<noteq> None
      then Some \<lparr>at_actor = caller rq, at_method = meth, at_path = rq_path rq, at_status = rp_status rep,
                 at_request_id = (case rp_request_id rep of Some (ch # cs) \<Rightarrow> Some (ch # cs) | _ \<Rightarrow> rid)\<rparr>
      else None)"

definition task_row :: "audit_task \<Rightarrow> string \<times> string option \<times> pydict \<times> string option" where
  "task_row t = (at_actor t, Some (at_method t @ '' '' @ at_path t),
     [(PStr ''status'', PInt (int (at_status t))), (PStr ''via'', PStr ''audit_fallback_middleware'')], at_request_id t)"

definition safe_record :: "(nat list \<Rightarrow> nat) \<Rightarrow> int \<Rightarrow> bool \<Rightarrow> audit_task \<Rightarrow> team \<Rightarrow> team" where
  "safe_record alloc now works t s =
     (if \<not> works then s
      else (case task_row t of (actor, target, meta, rid) \<Rightarrow>
        snd (record_audit alloc now actor ''unknown_mutation'' (Some ''endpoint'') target meta rid s)))"


section \<open>Reading the export back\<close>

datatype csv_mode = Bare | Quoted | Closing | LineEnd

fun csv_scan :: "csv_mode \<Rightarrow> string \<Rightarrow> string list \<Rightarrow> string \<Rightarrow> string list list" where
  "csv_scan m f row [] = (if row = [] \<and> f = [] then [] else [row @ [f]])"
| "csv_scan Quoted f row (ch # cs) = (if ch = quote_c then csv_scan Closing f row cs else csv_scan Quoted (f @ [ch]) row cs)"
| "csv_scan Closing f row (ch # cs) =
     (if ch = quote_c then csv_scan Quoted (f @ [quote_c]) row cs
      else if ch = CHR '','' then csv_scan Bare [] (row @ [f]) cs
      else if ch = carriage then (row @ [f]) # csv_scan LineEnd [] [] cs
      else csv_scan Bare (f @ [ch]) row cs)"
| "csv_scan LineEnd f row (ch # cs) = (if ch = newline_c then csv_scan Bare [] [] cs else csv_scan Bare [ch] [] cs)"
| "csv_scan Bare f row (ch # cs) =
     (if ch = quote_c \<and> f = [] then csv_scan Quoted [] row cs
      else if ch = CHR '','' then csv_scan Bare [] (row @ [f]) cs
      else if ch = carriage then (row @ [f]) # csv_scan LineEnd [] [] cs
      else csv_scan Bare (f @ [ch]) row cs)"

definition csv_read :: "string \<Rightarrow> string list list" where
  "csv_read s = csv_scan Bare [] [] s"

lemmas csv_chars = carriage_def newline_c_def quote_c_def

lemma scan_bare: "\<not> needs_quotes s \<Longrightarrow> csv_scan Bare f row (s @ rest) = csv_scan Bare (f @ s) row rest"
  by (induction s arbitrary: f) (auto simp: needs_quotes_def)

lemma scan_quoted: "csv_scan Quoted f row (doubled s @ quote_c # rest) = csv_scan Closing (f @ s) row rest"
proof (induction s arbitrary: f)
  case (Cons ch s)
  then show ?case by (cases "ch = quote_c") (simp_all add: doubled_def)
qed (simp add: doubled_def)

lemma scan_field:
  "csv_scan Bare [] row (csv_field s @ CHR '','' # rest) = csv_scan Bare [] (row @ [s]) rest"
  "csv_scan Bare [] row (csv_field s @ carriage # newline_c # rest) = (row @ [s]) # csv_scan Bare [] [] rest"
  using scan_bare [of s "[]" row] scan_quoted [of "[]" row s] by (auto simp: csv_field_def csv_chars)

lemma scan_row: "fs \<noteq> [] \<Longrightarrow> csv_scan Bare [] row (writerow fs @ rest) = (row @ fs) # csv_scan Bare [] [] rest"
  by (induction fs arbitrary: row rule: writerow.induct) (simp_all add: scan_field)

lemma csv_read_back: "\<forall>fs \<in> set rows. fs \<noteq> [] \<Longrightarrow> csv_read (concat (map writerow rows)) = rows"
  by (induction rows) (auto simp: csv_read_def scan_row)

text \<open>What a spreadsheet reads is what was reported, whatever the owner labels contain.\<close>

lemma csv_round_trip:
  "csv_read (csv_text fl rows) = [''owner'', ''session_count'', ''total_cost_usd''] # map (csv_record fl) rows"
  unfolding csv_text_def by (rule csv_read_back) (auto simp: csv_record_def split: prod.splits)

section \<open>Who sees what\<close>

lemma reading_cases:
  obtains s c1 where "reading f c = (f s, c1)"
  by (cases c; cases "snd c") (auto simp: reading_def await_def Let_def split: prod.splits)



text \<open>A cached summary belongs to its key; the cache gives back what was put in and may forget.\<close>

definition fits :: "summary_key \<Rightarrow> user_summary \<Rightarrow> bool" where
  "fits key v \<longleftrightarrow> us_user v = fst key \<and> us_period v = fst (snd key) \<and> (us_team_total v \<noteq> None \<longleftrightarrow> snd (snd key))"

definition honest :: "'k summary_ops \<Rightarrow> 'k \<Rightarrow> bool" where
  "honest ops k \<longleftrightarrow> (\<forall>key t v. sc_get ops k key t = Some v \<longrightarrow> fits key v)"

definition summary_laws :: "'k summary_ops \<Rightarrow> bool" where
  "summary_laws ops \<longleftrightarrow> (\<forall>k key v t key' t' w. sc_get ops (sc_put ops key v t k) key' t' = Some w \<longrightarrow> key' = key \<and> w = v \<or> sc_get ops k key' t' = Some w)"

lemma honest_put: "summary_laws ops \<Longrightarrow> honest ops k \<Longrightarrow> fits key v \<Longrightarrow> honest ops (sc_put ops key v t k)"
  unfolding summary_laws_def honest_def by blast

definition honest_cfg :: "'k summary_ops \<Rightarrow> 'k scfg \<Rightarrow> bool" where
  "honest_cfg ops c \<longleftrightarrow> honest ops (snd (fst c)) \<and> (\<forall>g \<in> set (snd c). \<forall>s. honest ops (snd s) \<longrightarrow> honest ops (snd (g s)))"

lemma team_read_honest: "honest_cfg ops c \<Longrightarrow> team_read f c = (r, c1) \<Longrightarrow> honest_cfg ops c1"
  by (cases "snd c") (auto simp: honest_cfg_def team_read_def Let_def simp del: split_paired_All)

lemma summary_fits:
  assumes "summary_laws ops" "honest_cfg ops c" "cost_summary e ops t0 t1 rq period c = (Answer 200 v, c')"
  shows "fits (caller rq, period, is_admin e rq) v \<and> honest_cfg ops c'"
proof (cases "sc_get ops (snd (fst c)) (caller rq, period, is_admin e rq) t0")
  case (Some w)
  then show ?thesis using assms by (auto simp: cost_summary_def unprocessable_def honest_cfg_def honest_def split: if_splits)
next
  case None
  obtain own c1 where own: "team_read (\<lambda>s. summary_for_user (caller rq) period (te_now e) (team_db s)) c = (own, c1)" by (rule prod.exhaust)
  obtain tot c2 where tot: "(if is_admin e rq then map_prod Some id (team_read (\<lambda>s. team_total (team_db s)) c1) else (None, c1)) = (tot, c2)" by (rule prod.exhaust)
  have v: "v = \<lparr>us_user = caller rq, us_role = caller_role e rq, us_period = period, us_totals = own, us_team_total = tot\<rparr>"
      "c' = ((fst (fst c2), sc_put ops (caller rq, period, is_admin e rq) v t1 (snd (fst c2))), snd c2)"
    using assms(3) None own tot by (auto simp: cost_summary_def unprocessable_def Let_def split: if_splits)
  have f: "fits (caller rq, period, is_admin e rq) v"
    using tot by (cases "team_read (\<lambda>s. team_total (team_db s)) c1") (auto simp: fits_def v(1) split: if_splits)
  have "honest_cfg ops c2"
    using tot team_read_honest [OF assms(2) own] team_read_honest [of ops c1] by (cases "team_read (\<lambda>s. team_total (team_db s)) c1") (auto split: if_splits)
  then show ?thesis using honest_put [OF assms(1) _ f, of "snd (fst c2)" t1] f v(2) by (auto simp: honest_cfg_def)
qed


lemmas report_answers = unprocessable_def failure_def forbidden_cost_def not_found_def

lemma per_owner_own:
  assumes "\<not> is_admin e rq" "fst (cost_per_owner e rq owner from_ts to_ts limit ord c) = Answer 200 (rows, x)"
  shows "\<forall>r \<in> set rows. fst r = Some (caller rq)"
  using assms by (auto simp: cost_per_owner_def report_answers split: option.splits if_splits prod.splits)

lemma list_with_cost_owner: "r \<in> set (list_sessions_with_cost (Some w) from_ts to_ts limit db) \<Longrightarrow> s_owner r = Some w"
  by (auto simp: list_sessions_with_cost_def ordered_desc_def dest!: in_set_takeD)

lemma per_session_own:
  assumes "\<not> is_admin e rq" "fst (cost_per_session e rq owner from_ts to_ts limit c) = Answer 200 rows"
  shows "\<forall>r \<in> set rows. sx_owner r = Some (caller rq)"
proof -
  define f where "f = (\<lambda>s :: team. list_sessions_with_cost (Some (caller rq)) from_ts to_ts limit (team_db s))"
  obtain s c1 where "reading f c = (f s, c1)" by (rule reading_cases)
  then have "rows = map session_cost_of (list_sessions_with_cost (Some (caller rq)) from_ts to_ts limit (team_db s))"
    using assms by (simp add: cost_per_session_def report_answers f_def split: if_splits)
  then show ?thesis using list_with_cost_owner [of _ "caller rq"] by (simp add: session_cost_of_def)
qed

lemma page_in: "page key sel limit anchor rows = (out, nxt) \<Longrightarrow> r \<in> set out \<Longrightarrow> r \<in> set rows \<and> sel r"
  by (auto simp: page_def Let_def dest!: in_set_takeD)

lemma listed_audit_selected: "list_audit cd sid af after limit s = Inr (rows, nxt) \<Longrightarrow> r \<in> set rows \<Longrightarrow> audit_selects (with_session sid af) r"
  by (auto simp: list_audit_def Let_def dest: page_in split: sum.splits prod.splits)

lemma audit_answer:
  assumes "fst (list_audit_events e cd ex rq sid af after limit c) = Answer 200 (shown, x)"
  shows "\<exists>af1 c1 rows. audit_scope e rq sid af c = (Inr af1 :: (pydict list \<times> string option \<times> bool) answer + audit_filter, c1) \<and> shown = map (audit_view e) rows \<and> (\<forall>r \<in> set rows. audit_selects (with_session sid af1) r)"
proof -
  obtain r c1 where sc: "(audit_scope e rq sid af c :: ((pydict list \<times> string option \<times> bool) answer + audit_filter) \<times> tcfg) = (r, c1)" by (rule prod.exhaust)
  show ?thesis
  proof (cases r)
    case (Inl a)
    then show ?thesis using assms sc by (auto simp: list_audit_events_def audit_scope_def report_answers split: if_splits option.splits prod.splits)
  next
    case (Inr af1)
    obtain s c2 where rd: "reading (list_audit cd sid af1 after limit) c1 = (list_audit cd sid af1 after limit s, c2)" by (rule reading_cases)
    obtain rows nxt where l: "list_audit cd sid af1 after limit s = Inr (rows, nxt)" "shown = map (audit_view e) rows"
      using assms sc Inr rd by (auto simp: list_audit_events_def report_answers split: if_splits sum.splits store_exn.splits prod.splits)
    then show ?thesis using sc Inr listed_audit_selected [OF l(1)] by blast
  qed
qed



section \<open>Every mutation leaves a trace\<close>

text \<open>
  \<open>Served\<close>: the middleware passes a response on and may start a task; \<open>RunTask i\<close>: the i-th task not yet run does its write; \<open>Inline\<close>:
  anything else that happens to the tables.
\<close>

datatype served = Served string request "string option" reply | RunTask nat int | Inline "team \<Rightarrow> team"

fun fallback_step :: "bool option \<Rightarrow> (nat list \<Rightarrow> nat) \<Rightarrow> served \<Rightarrow> audit_task list \<times> team \<Rightarrow> audit_task list \<times> team" where
  "fallback_step service alloc (Served meth rq rid rep) (ts, s) =
     (case fallback_task service meth rq rid rep of None \<Rightarrow> (ts, s) | Some t \<Rightarrow> (ts @ [t], s))"
| "fallback_step service alloc (RunTask i now) (ts, s) =
     (if i < length ts then (take i ts @ drop (Suc i) ts, safe_record alloc now (service = Some True) (ts ! i) s) else (ts, s))"
| "fallback_step service alloc (Inline g) (ts, s) = (ts, g s)"

definition fallback_rows :: "team \<Rightarrow> (string \<times> string option \<times> pydict \<times> string option) multiset" where
  "fallback_rows s = mset (map (\<lambda>r. (a_actor r, a_target_id r, case a_metadata r of None \<Rightarrow> [] | Some m \<Rightarrow> m, a_request_id r))
     (filter (\<lambda>r. a_action r = ''unknown_mutation'') (audit_log s)))"

fun mutations :: "served list \<Rightarrow> audit_task list" where
  "mutations [] = []"
| "mutations (Served meth rq rid rep # xs) =
     (case fallback_task (Some True) meth rq rid rep of None \<Rightarrow> mutations xs | Some t \<Rightarrow> t # mutations xs)"
| "mutations (x # xs) = mutations xs"

lemma safe_record_rows: "fallback_rows (safe_record alloc now True t s) = add_mset (task_row t) (fallback_rows s)"
  by (simp add: safe_record_def task_row_def record_audit_def fallback_rows_def Let_def)

lemma mset_without: "i < length ts \<Longrightarrow> mset (map f ts) = add_mset (f (ts ! i)) (mset (map f (take i ts @ drop (Suc i) ts)))"
  by (metis (no_types, lifting) id_take_nth_drop list.simps(9) map_append mset.simps(2) mset_append union_mset_add_mset_right)

lemma fallback_run_rows:
  assumes "\<forall>g. Inline g \<in> set xs \<longrightarrow> (\<forall>s. fallback_rows (g s) = fallback_rows s)"
    and "fold (fallback_step (Some True) alloc) xs (ts, s) = (ts', s')"
  shows "fallback_rows s' + mset (map task_row ts') = fallback_rows s + mset (map task_row ts) + mset (map task_row (mutations xs))"
  using assms
proof (induction xs arbitrary: ts s)
  case (Cons x xs)
  have ih: "fold (fallback_step (Some True) alloc) xs (ts1, s1) = (ts', s') \<Longrightarrow>
      fallback_rows s' + mset (map task_row ts') = fallback_rows s1 + mset (map task_row ts1) + mset (map task_row (mutations xs))" for ts1 s1
    using Cons.IH Cons.prems(1) by auto
  show ?case
  proof (cases x)
    case (Served meth rq rid rep)
    then show ?thesis using Cons.prems(2) ih by (auto split: option.splits)
  next
    case (RunTask i now)
    then show ?thesis
      using Cons.prems(2) ih [of "take i ts @ drop (Suc i) ts" "safe_record alloc now True (ts ! i) s"] ih [of ts s] mset_without [of i ts task_row]
      by (auto simp: safe_record_rows split: if_splits)
  next
    case (Inline g)
    then show ?thesis using Cons.prems ih [of ts "g s"] by auto
  qed
qed simp

text \<open>
  once its tasks have run, the fallback has written exactly one row per mutation of the API, with its method, path, status, caller and
  request id, and none for anything else, whatever the order of requests, tasks and other writes.
\<close>
lemma fallback_exact:
  assumes "\<forall>g. Inline g \<in> set xs \<longrightarrow> (\<forall>s. fallback_rows (g s) = fallback_rows s)"
    and "fold (fallback_step (Some True) alloc) xs ([], s) = ([], s')"
  shows "fallback_rows s' = fallback_rows s + mset (map task_row (mutations xs))"
  using fallback_run_rows [OF assms] by simp


section \<open>What the code leaves open\<close>

lemma scope_admin: "is_admin e rq \<Longrightarrow> audit_scope e rq sid af c = (Inr af, c)"
  by (simp add: audit_scope_def)

lemma scope_owner: "get_session sid (team_db s) = Some row \<Longrightarrow> s_owner row = rq_label rq \<Longrightarrow> audit_scope e rq (Some sid) af (s, []) = (Inr af, (s, []))"
  by (simp add: audit_scope_def reading_def await_def)

lemma scope_unlabelled: "rq_label rq = None \<Longrightarrow> af_actor af = None \<Longrightarrow> audit_scope e rq None af c = (Inr af, c)"
  by (cases af) (simp add: audit_scope_def)

text \<open>The owner of any session may combine its id with another target: the explicit target wins and the actor is not restricted.\<close>

lemma audit_filter_bypass:
  assumes "get_session sid (team_db s) = Some row" "s_owner row = rq_label rq" "af_target_type af = Some ty" "af_target_id af = Some tid"
    and "audit_query_ok (Some sid) af after limit" "audit_query_ok None af after limit" "is_admin e adm"
  shows "fst (list_audit_events e cd ex rq (Some sid) af after limit (s, [])) = fst (list_audit_events e cd ex adm None af after limit (s, []))"
proof -
  have "with_session (Some sid) af = with_session None af" using assms(3,4) by (cases af) (simp add: with_session_def)
  then have same: "list_audit cd (Some sid) af after limit s = list_audit cd None af after limit s" by (simp add: list_audit_def)
  show ?thesis using assms(5,6) same by (simp add: list_audit_events_def scope_owner [OF assms(1,2)] scope_admin [OF assms(7)] reading_def await_def)
qed

text \<open>A caller without a label is scoped to actor \<open>None\<close>, which filters nothing.\<close>

lemma audit_without_label:
  assumes "rq_label rq = None" "af_actor af = None" "audit_query_ok None af after limit" "is_admin e adm"
  shows "list_audit_events e cd ex rq None af after limit c = list_audit_events e cd ex adm None af after limit c"
  by (simp only: list_audit_events_def scope_unlabelled [OF assms(1,2)] scope_admin [OF assms(4)] assms(3))

definition cost_tables :: team where
  "cost_tables = demo_tables\<lparr>team_db := demo_store\<lparr>sessions :=
     [(hd (sessions demo_store))\<lparr>s_id := ''x'', s_owner := Some ''alice'', s_cost := 9, s_submitted_at := 5\<rparr>,
      (hd (sessions demo_store))\<lparr>s_id := ''y'', s_owner := Some ''bob'', s_cost := 5, s_submitted_at := 6\<rparr>]\<rparr>\<rparr>"

text \<open>The limit is applied before the caller's own group is picked: whoever is not among the first gets nothing.\<close>

lemma limit_hides_own:
  "fst (cost_per_owner demo_team_env (demo_caller ''bob'') None None None 1 ''cost'' (cost_tables, [])) = Answer 200 ([], None, None)"
  by code_simp

text \<open>The team total of a period is that of all time.\<close>

lemma team_total_ignores_period:
  "us_team_total v = Some (team_total (team_db s))" if "is_admin e rq" "fst (cost_summary e ops t0 t1 rq period ((s, k), [])) = Answer 200 v"
    "sc_get ops k (caller rq, period, True) t0 = None"
  using that by (auto simp: cost_summary_def team_read_def Let_def unprocessable_def split: if_splits)

text \<open>A handler that records its own audit row gets an \<open>unknown_mutation\<close> row all the same.\<close>

lemma recorded_anyway:
  assumes "meth \<in> set AUDIT_METHODS" "starts_with AUDITED_PREFIX (rq_path rq)" "\<not> is_exempt (rq_path rq)" "\<forall>s. fallback_rows (g s) = fallback_rows s"
  shows "\<exists>s'. fold (fallback_step (Some True) alloc) [Inline g, Served meth rq rid rep, RunTask 0 now] ([], s) = ([], s')
    \<and> size (fallback_rows s') = Suc (size (fallback_rows s))"
  using assms by (simp add: fallback_task_def safe_record_rows)

section \<open>Witnesses\<close>

definition no_cache :: "unit summary_ops" where
  "no_cache = \<lparr>sc_get = (\<lambda>_ _ _. None), sc_put = (\<lambda>_ _ _ k. k)\<rparr>"


definition demo_served :: "served list" where
  "demo_served = [Served ''POST'' ((demo_caller ''bob'')\<lparr>rq_path := ''/api/v1/sessions''\<rparr>) None \<lparr>rp_status = 202, rp_request_id = Some ''r1''\<rparr>,
     Served ''GET'' (demo_caller ''bob'') None \<lparr>rp_status = 200, rp_request_id = None\<rparr>, RunTask 0 3]"

lemma fallback_exact_witness:
  "fallback_rows (snd (fold (fallback_step (Some True) length) demo_served ([], demo_tables)))
     = {#(''bob'', Some ''POST /api/v1/sessions'', [(PStr ''status'', PInt 202), (PStr ''via'', PStr ''audit_fallback_middleware'')], Some ''r1'')#}"
proof -
  have "fst (fold (fallback_step (Some True) length) demo_served ([], demo_tables)) = []" by code_simp
  then have run: "fold (fallback_step (Some True) length) demo_served ([], demo_tables) = ([], snd (fold (fallback_step (Some True) length) demo_served ([], demo_tables)))"
    by (metis prod.collapse)
  have "map task_row (mutations demo_served)
     = [(''bob'', Some ''POST /api/v1/sessions'', [(PStr ''status'', PInt 202), (PStr ''via'', PStr ''audit_fallback_middleware'')], Some ''r1'')]" by code_simp
  moreover have "\<forall>g. Inline g \<in> set demo_served \<longrightarrow> (\<forall>s. fallback_rows (g s) = fallback_rows s)" by (simp add: demo_served_def)
  moreover have "fallback_rows demo_tables = {#}" by (simp add: fallback_rows_def demo_tables_def)
  ultimately show ?thesis using fallback_exact [OF _ run] by simp
qed

end
