(* ===== verification/Boot.thy ===== *)
theory Boot
  imports User_Credentials Redaction Rate_Limit Durable_Store Json_Text Access_Control
begin

text \<open>
  From the environment to a running process: the parsers and checks of \<open>config.py\<close>, the deployment check and the choice of backends
  (\<open>cluster/boot_check.py\<close>, \<open>cluster/factory.py\<close>), what \<open>create_app\<close> and \<open>lifespan\<close> of \<open>api/main.py\<close> derive from them, the reload of the
  dashboard keys (\<open>cluster/key_invalidate.py\<close>), the commands of \<open>cli.py\<close> and the whole retention run. Pydantic reads the environment; a
  \<open>config\<close> is the record of the fields used here. SHA-256 and random keys are parameters.
\<close>

section \<open>Reading settings\<close>

text \<open>\<open>str.split\<close> with one character, and at its first occurrence.\<close>

fun split_at :: "char \<Rightarrow> string \<Rightarrow> string list" where
  "split_at c [] = [[]]"
| "split_at c (x # xs) = (if x = c then [] # split_at c xs
     else (case split_at c xs of [] \<Rightarrow> [[x]] | y # ys \<Rightarrow> (x # y) # ys))"

definition comma :: char where "comma = CHR 0x2C"

definition equals :: char where "equals = CHR 0x3D"

definition colon_c :: char where "colon_c = CHR 0x3A"

definition split_csv :: "string \<Rightarrow> string list" where
  "split_csv value = map str_strip (filter (\<lambda>v. str_strip v \<noteq> []) (split_at comma value))"

definition label_char :: "char \<Rightarrow> bool" where
  "label_char c \<longleftrightarrow> (let n = of_char c :: nat in 65 \<le> n \<and> n \<le> 90 \<or> 97 \<le> n \<and> n \<le> 122 \<or> 48 \<le> n \<and> n \<le> 57 \<or> n = 95 \<or> n = 45)"

text \<open>\<open>_LABEL_TOKEN\<close>: two non-empty runs of label characters around one separator.\<close>

definition label_token :: "string \<Rightarrow> (string \<times> char \<times> string) option" where
  "label_token tok = (let a = takeWhile label_char tok in
     case dropWhile label_char tok of
       [] \<Rightarrow> None
     | s # b \<Rightarrow> if a \<noteq> [] \<and> s \<in> {colon_c, equals} \<and> b \<noteq> [] \<and> list_all label_char b then Some (a, s, b) else None)"

text \<open>The key and the label of a token; a token of another form is a bare key.\<close>

definition key_and_label :: "(string \<Rightarrow> string) \<Rightarrow> string \<Rightarrow> string \<times> string" where
  "key_and_label sh tok = (case label_token tok of
     Some (a, s, b) \<Rightarrow> if s = colon_c then (a, b) else (b, a)
   | None \<Rightarrow> (tok, ''key-'' @ take 8 (sh tok)))"

definition parse_keys_with_labels :: "(string \<Rightarrow> string) \<Rightarrow> string \<Rightarrow> (string, string) od" where
  "parse_keys_with_labels sh raw = fold (\<lambda>tok m. case key_and_label sh tok of (k, lbl) \<Rightarrow> AList.update k lbl m) (split_csv raw) []"

text \<open>The tokens \<open>a=b\<close> of the other settings, split at the first equals sign.\<close>

definition assignment :: "string \<Rightarrow> (string \<times> string) option" where
  "assignment tok = (if equals \<notin> set tok then None
     else Some (str_strip (takeWhile (\<lambda>c. c \<noteq> equals) tok), str_strip (tl (dropWhile (\<lambda>c. c \<noteq> equals) tok))))"

definition parse_assignments :: "(string \<Rightarrow> string \<Rightarrow> bool) \<Rightarrow> string \<Rightarrow> (string, string) od" where
  "parse_assignments ok raw = fold (\<lambda>tok m. case assignment tok of
     Some (k, v) \<Rightarrow> if ok k v then AList.update k v m else m
   | None \<Rightarrow> m) (split_csv raw) []"

definition VALID_ROLES :: "string list" where
  "VALID_ROLES = [''viewer'', ''submitter'', ''admin'']"

definition parse_role_mapping :: "string \<Rightarrow> (string, string) od" where
  "parse_role_mapping raw = parse_assignments (\<lambda>label role. label \<noteq> [] \<and> role \<in> set VALID_ROLES) raw"

definition parse_dashboard_users :: "string \<Rightarrow> (string, string) od" where
  "parse_dashboard_users raw = parse_assignments (\<lambda>user hash. user \<noteq> [] \<and> hash \<noteq> []) raw"

definition parse_feishu_user_mapping :: "string \<Rightarrow> (string, string) od" where
  "parse_feishu_user_mapping raw = parse_assignments (\<lambda>label open_id. label \<noteq> [] \<and> open_id \<noteq> []) raw"

definition rule_of :: "pyval \<times> pyval \<Rightarrow> (string \<times> string list) option" where
  "rule_of kv = (case kv of
     (PStr rule, PList conds) \<Rightarrow> if list_all (\<lambda>c. case c of PStr _ \<Rightarrow> True | _ \<Rightarrow> False) conds
        then Some (rule, map (\<lambda>c. case c of PStr s \<Rightarrow> s | _ \<Rightarrow> []) conds) else None
   | _ \<Rightarrow> None)"

definition parse_alert_rules_json :: "(string \<Rightarrow> pyfloat) \<Rightarrow> string \<Rightarrow> (string, string list) od" where
  "parse_alert_rules_json fp raw =
     (if str_strip raw = [] then []
      else (case json_loads fp (str_strip raw) of
          Some (PDict d) \<Rightarrow> List.map_filter rule_of d
        | _ \<Rightarrow> []))"

section \<open>Settings and their checks\<close>

record config =
  api_keys_raw :: string
  production_mode :: bool
  role_mapping_raw :: string
  feishu_app_id :: "string option"
  feishu_app_secret :: "string option"
  feishu_webhook_secret :: "string option"
  database_url :: string
  dashboard_users_raw :: string
  dashboard_admin_password :: "string option"
  dashboard_session_secret :: "string option"
  public_base_url :: "string option"
  redaction_keys_raw :: string
  redaction_patterns_raw :: string
  deployment_mode :: string
  event_bus_backend :: string
  rate_limit_backend :: string
  rate_limit_enabled :: bool
  redis_url :: "string option"
  strict_backend :: bool
  disable_user_credentials :: bool
  credentials_encryption_key :: "string option"

definition DEFAULT_SQLITE_URL :: string where
  "DEFAULT_SQLITE_URL = ''sqlite+aiosqlite:///./relay.db''"

definition is_set :: "string option \<Rightarrow> bool" where
  "is_set s \<longleftrightarrow> (case s of Some (_ # _) \<Rightarrow> True | _ \<Rightarrow> False)"

definition feishu_fields :: "config \<Rightarrow> (string \<times> string option) list" where
  "feishu_fields cf = [(''feishu_app_id'', feishu_app_id cf), (''feishu_app_secret'', feishu_app_secret cf), (''feishu_webhook_secret'', feishu_webhook_secret cf)]"

definition feishu_configured :: "config \<Rightarrow> bool" where
  "feishu_configured cf \<longleftrightarrow> list_ex (\<lambda>(_, v). is_set v) (feishu_fields cf)"

definition secret_problems :: "config \<Rightarrow> string list" where
  "secret_problems cf =
     (if api_keys_raw cf = [] then [''RELAY_API_KEYS_RAW required in production''] else [])
     @ (if feishu_configured cf then map (\<lambda>(f, _). f @ '' required when Feishu is configured'') (filter (\<lambda>(_, v). \<not> is_set v) (feishu_fields cf)) else [])
     @ (if database_url cf = DEFAULT_SQLITE_URL then [''Postgres/MySQL URL required in production (RELAY_DATABASE_URL)''] else [])"

definition validate_required_secrets :: "config \<Rightarrow> string list + unit" where
  "validate_required_secrets cf = (if \<not> production_mode cf \<or> secret_problems cf = [] then Inr () else Inl (secret_problems cf))"

definition missing_required :: "(string \<Rightarrow> string) \<Rightarrow> config \<Rightarrow> string list" where
  "missing_required sh cf =
     (if parse_keys_with_labels sh (api_keys_raw cf) = [] then [''api_keys''] else [])
     @ (if (case public_base_url cf of None \<Rightarrow> True | Some u \<Rightarrow> str_strip u = []) then [''public_base_url''] else [])
     @ (if is_set (dashboard_admin_password cf) then [] else [''dashboard_admin_password''])
     @ (if is_set (dashboard_session_secret cf) then [] else [''dashboard_session_secret''])"

section \<open>Backends\<close>

definition MULTI_WORKER_SAFE_BACKENDS :: "string list" where
  "MULTI_WORKER_SAFE_BACKENDS = [''redis'']"

datatype violation = UnsafeBus string | UnsafeLimiter string | NoRedisUrl

definition validate_deployment_mode :: "config \<Rightarrow> violation list + unit" where
  "validate_deployment_mode cf =
     (if deployment_mode cf \<noteq> ''multi_worker'' then Inr ()
      else (let vs = (if event_bus_backend cf \<in> set MULTI_WORKER_SAFE_BACKENDS then [] else [UnsafeBus (event_bus_backend cf)])
          @ (if rate_limit_backend cf \<in> set MULTI_WORKER_SAFE_BACKENDS then [] else [UnsafeLimiter (rate_limit_backend cf)])
          @ (if (event_bus_backend cf = ''redis'' \<or> rate_limit_backend cf = ''redis'') \<and> \<not> is_set (redis_url cf) then [NoRedisUrl] else [])
        in if vs = [] then Inr () else Inl vs))"

text \<open>What trying to reach Redis gives: the package is missing, the ping fails, or it answers.\<close>

datatype reach = NoPackage | PingFails | Pings

datatype boot_exn = MissingSecrets "string list" | DeploymentModeError "violation list" | RedisUnavailableError | BootFails py_exn

definition build_redis_client :: "config \<Rightarrow> reach \<Rightarrow> boot_exn + bool" where
  "build_redis_client cf r =
     (if \<not> is_set (redis_url cf) then Inr False
      else if r = Pings then Inr True
      else if strict_backend cf then Inl RedisUnavailableError else Inr False)"

datatype bus_kind = InProcessBus bool | RedisBus

datatype limiter_kind = TokenBucket | RedisStore

text \<open>\<open>given\<close>: a client is passed in. The in-process bus gets the durable store (\<open>True\<close>), the other one does not take it.\<close>

definition build_event_bus :: "config \<Rightarrow> bool \<Rightarrow> reach \<Rightarrow> boot_exn + bus_kind \<times> bool" where
  "build_event_bus cf given r =
     (if event_bus_backend cf \<noteq> ''redis'' then Inr (InProcessBus True, False)
      else (case (if given then Inr True else build_redis_client cf r) of
          Inl x \<Rightarrow> Inl x
        | Inr client \<Rightarrow> Inr (if client then (RedisBus, True) else (InProcessBus True, False))))"

definition build_rate_limit_store :: "config \<Rightarrow> bool \<Rightarrow> reach \<Rightarrow> boot_exn + limiter_kind \<times> bool" where
  "build_rate_limit_store cf given r =
     (if rate_limit_backend cf \<noteq> ''redis'' then Inr (TokenBucket, False)
      else (case (if given then Inr True else build_redis_client cf r) of
          Inl x \<Rightarrow> Inl x
        | Inr client \<Rightarrow> Inr (if client then (RedisStore, True) else (TokenBucket, False))))"

section \<open>Start-up\<close>

text \<open>The limiter of \<open>create_app\<close>, replaced in \<open>lifespan\<close> unless building the other one fails; \<open>start_sweep\<close> exists on the token bucket only.\<close>

definition swap_limiter :: "config \<Rightarrow> bool \<Rightarrow> reach \<Rightarrow> limiter_kind option" where
  "swap_limiter cf client r =
     (if \<not> rate_limit_enabled cf then None
      else if rate_limit_backend cf = ''redis'' then
        (case build_rate_limit_store cf client r of Inl _ \<Rightarrow> Some TokenBucket | Inr (k, _) \<Rightarrow> Some k)
      else Some TokenBucket)"

definition start_sweep :: "limiter_kind option \<Rightarrow> boot_exn + unit" where
  "start_sweep l = (if l = Some RedisStore then Inl (BootFails AttributeError) else Inr ())"

record booted =
  bt_bus :: bus_kind
  bt_limiter :: "limiter_kind option"
  bt_credentials :: "cipher option"
  bt_send_cards :: bool
  bt_webhook :: bool

definition user_credentials_cipher ::
    "(string \<Rightarrow> ((string \<Rightarrow> string) \<times> (string \<Rightarrow> string option)) option) \<Rightarrow> (string \<Rightarrow> string) \<Rightarrow> config \<Rightarrow> py_exn + cipher option" where
  "user_credentials_cipher fernet sh cf =
     (if disable_user_credentials cf then Inr None
      else (case credentials_encryption_key cf of None \<Rightarrow> Inr None | Some raw \<Rightarrow> build_fernet_from_key fernet sh (Some raw)))"

text \<open>The steps of \<open>lifespan\<close> that can stop it, in their order; \<open>r0\<close> and \<open>r1\<close> are the two attempts at Redis.\<close>

definition boot ::
    "(string \<Rightarrow> ((string \<Rightarrow> string) \<times> (string \<Rightarrow> string option)) option) \<Rightarrow> (string \<Rightarrow> string) \<Rightarrow> config \<Rightarrow> reach \<Rightarrow> reach \<Rightarrow> boot_exn + booted" where
  "boot fernet sh cf r0 r1 = (case validate_required_secrets cf of Inl ps \<Rightarrow> Inl (MissingSecrets ps)
   | Inr _ \<Rightarrow> (case validate_deployment_mode cf of Inl vs \<Rightarrow> Inl (DeploymentModeError vs)
   | Inr _ \<Rightarrow> (case build_event_bus cf False r0 of Inl x \<Rightarrow> Inl x
   | Inr (bus, client) \<Rightarrow> (let l = swap_limiter cf client r1 in
       case user_credentials_cipher fernet sh cf of Inl x \<Rightarrow> Inl (BootFails x)
     | Inr cipher \<Rightarrow> (case start_sweep l of Inl x \<Rightarrow> Inl x
     | Inr _ \<Rightarrow> Inr \<lparr>bt_bus = bus, bt_limiter = l, bt_credentials = cipher,
         bt_send_cards = (is_set (feishu_app_id cf) \<and> is_set (feishu_app_secret cf)), bt_webhook = is_set (feishu_webhook_secret cf)\<rparr>)))))"

subsection \<open>Keys of the dashboard users\<close>

definition dash_label :: "string \<Rightarrow> string" where
  "dash_label user = ''dashboard-'' @ user"

definition users_to_mint :: "config \<Rightarrow> (string \<times> string) list" where
  "users_to_mint cf =
     (let users = od_keys (parse_dashboard_users (dashboard_users_raw cf)); roles = parse_role_mapping (role_mapping_raw cf)
      in map (\<lambda>u. (u, case map_of roles (dash_label u) of None \<Rightarrow> ''submitter'' | Some r \<Rightarrow> r)) users
         @ (if dashboard_admin_password cf \<noteq> None \<and> ''admin'' \<notin> set users then [(''admin'', ''admin'')] else []))"

record mint_state =
  mt_dash :: "dash_row list"
  mt_keys :: "key_row list"
  mt_map :: "(string, string) od"

definition mint_key :: "(string \<Rightarrow> string) \<Rightarrow> int \<Rightarrow> string \<Rightarrow> string \<Rightarrow> string \<Rightarrow> key_row list \<Rightarrow> (key_exn + key_row) \<times> key_row list" where
  "mint_key H now label raw role rows =
     create_key H now label raw role (Some ''lifespan_bootstrap'') None (Some ''DB-stored internal key for dashboard cookie auth (Plan 9 D9.10)'') rows"

text \<open>One user of the loop; an exception is logged and the loop goes on.\<close>

definition mint_user :: "(string \<Rightarrow> string) \<Rightarrow> int \<Rightarrow> string \<times> string \<times> string \<Rightarrow> mint_state \<Rightarrow> mint_state" where
  "mint_user H now utr s = (case utr of (user, role, token) \<Rightarrow>
     (case dash_get_or_create token now user (mt_dash s) of
        (None, dash) \<Rightarrow> s\<lparr>mt_dash := dash\<rparr>
      | (Some raw, dash) \<Rightarrow>
          (let s1 = s\<lparr>mt_dash := dash, mt_map := AList.update user raw (mt_map s)\<rparr>;
               fill = (\<lambda>rows. s1\<lparr>mt_keys := snd (mint_key H now (dash_label user) raw role rows)\<rparr>)
           in case get_by_label (dash_label user) (mt_keys s) of
                None \<Rightarrow> fill (mt_keys s)
              | Some row \<Rightarrow>
                  if k_revoked_at row \<noteq> None then fill (mt_keys s)
                  else if k_hash row \<noteq> H raw then fill (snd (revoke_key now (dash_label user) (mt_keys s)))
                  else s1)))"

definition derive_dashboard_internal_keys :: "(string \<Rightarrow> string) \<Rightarrow> config \<Rightarrow> (string \<Rightarrow> string) \<Rightarrow> (string, string) od \<times> (string, string) od" where
  "derive_dashboard_internal_keys sh cf token =
     (let users = od_keys (parse_dashboard_users (dashboard_users_raw cf))
      in (map (\<lambda>u. (u, token u)) users, fold (\<lambda>u m. AList.update (token u) (dash_label u) m) users (parse_keys_with_labels sh (api_keys_raw cf))))"

definition app_auth :: "(string \<Rightarrow> string) \<Rightarrow> config \<Rightarrow> (string \<Rightarrow> string) \<Rightarrow> auth_cfg" where
  "app_auth sh cf token = (let ks = snd (derive_dashboard_internal_keys sh cf token)
     in \<lparr>keys_with_labels = ks, protected_prefix = ''/api/v1'', allow_no_keys = (ks = [])\<rparr>)"

text \<open>\<open>given\<close>: the configuration was passed to \<open>create_app\<close>, not read by it.\<close>

definition session_secret :: "bool \<Rightarrow> config \<Rightarrow> string" where
  "session_secret given cf = (case dashboard_session_secret cf of
     Some s \<Rightarrow> if given then s else ''dev-only-session-secret-do-not-use''
   | None \<Rightarrow> ''dev-only-session-secret-do-not-use'')"

text \<open>The class has no attribute \<open>_keys\<close>, so the list that is meant to extend the defaults starts empty.\<close>

definition app_redactor :: "config \<Rightarrow> engine" where
  "app_redactor cf = make_engine DEFAULT_PATTERNS
     (split_csv (redaction_keys_raw cf) @ [''api_key'', ''token'', ''secret'', ''password'', ''credentials''])"

datatype executor_kind = DockerCached | K8sCached | InProcessNew

record factory_state =
  fa_docker :: bool
  fa_k8s :: bool
  fa_cleanups :: "string list"

definition executor_for :: "string \<Rightarrow> factory_state \<Rightarrow> executor_kind \<times> factory_state" where
  "executor_for kind s =
     (if kind = ''docker'' then (DockerCached, if fa_docker s then s else s\<lparr>fa_docker := True, fa_cleanups := fa_cleanups s @ [''docker'']\<rparr>)
      else if kind = ''k8s_job'' then (K8sCached, if fa_k8s s then s else s\<lparr>fa_k8s := True, fa_cleanups := fa_cleanups s @ [''k8s_job'']\<rparr>)
      else (InProcessNew, s))"

section \<open>Reload of the dashboard keys\<close>

text \<open>A live \<open>KeyInvalidated\<close> carries its names; from the stream they are in the payload.\<close>

definition extract_usernames :: "(pyval \<Rightarrow> string) \<Rightarrow> string list + pydict option \<Rightarrow> string list" where
  "extract_usernames show_py ev = (case ev of
     Inl names \<Rightarrow> names
   | Inr (Some p) \<Rightarrow> (case dget_default p ''usernames'' (PTuple []) of PList xs \<Rightarrow> map show_py xs | PTuple xs \<Rightarrow> map show_py xs | _ \<Rightarrow> [])
   | Inr None \<Rightarrow> [])"

section \<open>Commands\<close>

definition unit_us :: "char \<Rightarrow> int option" where
  "unit_us u = map_of [(CHR ''d'', 86400000000), (CHR ''h'', 3600000000), (CHR ''m'', 60000000), (CHR ''s'', 1000000)] u"

datatype cli_exn = BadParameter | Exit nat | CliRaises py_exn

text \<open>Microseconds; a \<open>timedelta\<close> holds less than 1000000000 days.\<close>

definition parse_duration :: "string \<Rightarrow> cli_exn + int" where
  "parse_duration spec =
     (let s = dropWhile is_space spec; ds = takeWhile is_digit s; rest = dropWhile is_space (dropWhile is_digit s) in
      if ds = [] then Inl BadParameter
      else (case rest of
          [] \<Rightarrow> Inl BadParameter
        | u # more' \<Rightarrow> (case unit_us u of
            None \<Rightarrow> Inl BadParameter
          | Some f \<Rightarrow> if \<not> list_all is_space more' then Inl BadParameter
              else if int (digits_value ds) * f \<ge> 1000000000 * 86400000000 then Inl (CliRaises OverflowError)
              else Inr (int (digits_value ds) * f))))"

text \<open>The first moment of the year 1, before which a \<open>datetime\<close> does not go.\<close>

definition FIRST_INSTANT :: int where "FIRST_INSTANT = - 62135596800000000"

definition prune :: "string \<Rightarrow> bool \<Rightarrow> int \<Rightarrow> store \<Rightarrow> (cli_exn + nat) \<times> store" where
  "prune older_than dry_run now db = (case parse_duration older_than of
     Inl x \<Rightarrow> (Inl x, db)
   | Inr d \<Rightarrow> if now - d < FIRST_INSTANT then (Inl (CliRaises OverflowError), db)
       else if dry_run then (Inr 0, db) else apfst Inr (prune_frames_older_than (now - d) db))"

definition check_secrets :: "(string \<Rightarrow> string) \<Rightarrow> config \<Rightarrow> cli_exn + unit" where
  "check_secrets sh cf = (if missing_required sh cf \<noteq> [] then Inl (Exit 1) else Inr ())"

definition bootstrap_admin :: "(string \<Rightarrow> string) \<Rightarrow> int \<Rightarrow> string \<Rightarrow> string \<Rightarrow> bool \<Rightarrow> key_row list \<Rightarrow> (cli_exn + string) \<times> key_row list" where
  "bootstrap_admin H now label token print_only rows =
     (let raw = ''rk_'' @ take 43 token in
      if print_only then (Inr raw, rows)
      else (case create_key H now label raw ''admin'' (Some ''bootstrap-admin-cli'') None (Some ''Bootstrap admin created via CLI'') rows of
          (Inl _, rows1) \<Rightarrow> (Inl (Exit 1), rows1)
        | (Inr _, rows1) \<Rightarrow> (Inr raw, rows1)))"

definition env_line :: "string \<Rightarrow> (string \<times> string) option" where
  "env_line raw = (let line = str_strip raw in
     if line = [] \<or> hd line = CHR 0x23 then None
     else (let l1 = (if starts_with ''export '' line then str_strip (drop 7 line) else line) in
       if equals \<notin> set l1 then None
       else (let key = str_strip (takeWhile (\<lambda>c. c \<noteq> equals) l1)
             in if key = [] then None else Some (key, str_strip (tl (dropWhile (\<lambda>c. c \<noteq> equals) l1))))))"

definition overlay_cwd_dotenv :: "string list option \<Rightarrow> (string, string) od \<Rightarrow> (string, string) od" where
  "overlay_cwd_dotenv file env = (case file of
     None \<Rightarrow> env
   | Some ls \<Rightarrow> fold (\<lambda>raw m. case env_line raw of None \<Rightarrow> m | Some (k, v) \<Rightarrow> AList.update k v m) ls env)"

text \<open>The three tables of a retention run.\<close>

record tables =
  tb_events :: sql_events
  tb_team :: team

definition run_retention :: "int \<Rightarrow> int \<Rightarrow> int \<Rightarrow> int \<Rightarrow> nat \<Rightarrow> bool \<Rightarrow> tables \<Rightarrow> (summary list \<times> nat) \<times> tables" where
  "run_retention now events_days audit_days hitl_days batch_size dry_run t =
     (case prune_events (now - events_days * day) batch_size dry_run (tb_events t) of (s1, ev) \<Rightarrow>
      case delete_in_batches a_id (\<lambda>r. Some (a_ts r)) (\<lambda>_. True) (now - audit_days * day) batch_size dry_run (audit_log (tb_team t)) of (s2, log1) \<Rightarrow>
      case delete_in_batches h_id h_resolved_at (\<lambda>r. h_resolved_at r \<noteq> None) (now - hitl_days * day) batch_size dry_run
             (hitl_requests (team_db (tb_team t))) of (s3, hs) \<Rightarrow>
        (([s1, s2, s3], rows_deleted s1 + rows_deleted s2 + rows_deleted s3),
         \<lparr>tb_events = ev, tb_team = (tb_team t)\<lparr>audit_log := log1, team_db := (team_db (tb_team t))\<lparr>hitl_requests := hs\<rparr>\<rparr>\<rparr>))"


section \<open>Settings written and read\<close>

fun joined :: "string list \<Rightarrow> string" where
  "joined [] = []"
| "joined [t] = t"
| "joined (t # ts) = t @ comma # joined ts"

lemma split_at_absent: "c \<notin> set s \<Longrightarrow> split_at c s = [s]"
  by (induction s) auto

lemma split_at_append: "c \<notin> set s \<Longrightarrow> split_at c (s @ c # r) = s # split_at c r"
  by (induction s) auto

lemma split_joined: "ts \<noteq> [] \<Longrightarrow> \<forall>t \<in> set ts. comma \<notin> set t \<Longrightarrow> split_at comma (joined ts) = ts"
  by (induction ts rule: joined.induct) (auto simp: split_at_append split_at_absent)

lemma dropWhile_unchanged: "xs = [] \<or> \<not> P (hd xs) \<Longrightarrow> dropWhile P xs = xs"
  by (cases xs) auto

lemma strip_clean: "s \<noteq> [] \<Longrightarrow> \<not> is_space (hd s) \<Longrightarrow> \<not> is_space (last s) \<Longrightarrow> str_strip s = s"
  by (simp add: str_strip_def dropWhile_unchanged hd_rev)

definition clean :: "string \<Rightarrow> bool" where
  "clean s \<longleftrightarrow> s \<noteq> [] \<and> comma \<notin> set s \<and> \<not> is_space (hd s) \<and> \<not> is_space (last s)"

lemma clean_strip: "clean s \<Longrightarrow> str_strip s = s"
  by (simp add: clean_def strip_clean)

lemma csv_joined: "\<forall>t \<in> set ts. clean t \<Longrightarrow> split_csv (joined ts) = ts"
proof (cases "ts = []")
  case False
  moreover assume "\<forall>t \<in> set ts. clean t"
  moreover from this have "filter (\<lambda>v. str_strip v \<noteq> []) ts = ts" "map str_strip ts = ts"
    by (auto simp: filter_id_conv clean_strip clean_def intro: map_idI)
  ultimately show ?thesis using split_joined [of ts] by (simp add: split_csv_def clean_def)
qed (simp add: split_csv_def str_strip_def)

lemma clean_append: "clean a \<Longrightarrow> clean b \<Longrightarrow> ch \<noteq> comma \<Longrightarrow> clean (a @ ch # b)"
  by (auto simp: clean_def)

lemma fold_update_distinct:
  "distinct (map fst kvs) \<Longrightarrow> set (map fst kvs) \<inter> set (od_keys m) = {} \<Longrightarrow> fold (\<lambda>(k, v). AList.update k v) kvs m = m @ kvs"
proof (induction kvs arbitrary: m)
  case (Cons kv kvs)
  then have "AList.update (fst kv) (snd kv) m = m @ [kv]" by (auto simp: od_update_new)
  then show ?case using Cons by (auto simp: case_prod_beta)
qed simp

lemma until_sep: "c \<notin> set a \<Longrightarrow> takeWhile (\<lambda>x. x \<noteq> c) (a @ c # b) = a \<and> dropWhile (\<lambda>x. x \<noteq> c) (a @ c # b) = c # b"
  by (induction a) auto

lemma assignment_text: "clean k \<Longrightarrow> clean v \<Longrightarrow> equals \<notin> set k \<Longrightarrow> assignment (k @ equals # v) = Some (k, v)"
  by (simp add: assignment_def clean_strip until_sep)

lemma assignments_read:
  assumes "\<forall>(k, v) \<in> set m. clean k \<and> clean v \<and> equals \<notin> set k \<and> ok k v" "distinct (map fst m)"
  shows "parse_assignments ok (joined (map (\<lambda>(k, v). k @ equals # v) m)) = m"
proof -
  have "\<forall>t \<in> set (map (\<lambda>(k, v). k @ equals # v) m). clean t"
    using assms(1) by (auto simp: equals_def comma_def intro!: clean_append)
  then have "parse_assignments ok (joined (map (\<lambda>(k, v). k @ equals # v) m))
      = fold (\<lambda>tok m. case assignment tok of Some (k, v) \<Rightarrow> if ok k v then AList.update k v m else m | None \<Rightarrow> m) (map (\<lambda>(k, v). k @ equals # v) m) []"
    by (simp add: parse_assignments_def csv_joined)
  also have "\<dots> = fold (\<lambda>(k, v). AList.update k v) m []"
    unfolding fold_map using assms(1) by (intro fold_cong refl) (auto simp: assignment_text fun_eq_iff)
  finally show ?thesis using fold_update_distinct [OF assms(2), of "[]"] by simp
qed

lemma label_text: "a \<noteq> [] \<Longrightarrow> b \<noteq> [] \<Longrightarrow> list_all label_char a \<Longrightarrow> list_all label_char b \<Longrightarrow> s \<in> {colon_c, equals} \<Longrightarrow> label_token (a @ s # b) = Some (a, s, b)"
  by (auto simp: label_token_def label_char_def colon_c_def equals_def list_all_iff Let_def takeWhile_append2 dropWhile_append2)

lemma label_char_plain: "label_char c \<Longrightarrow> \<not> is_space c \<and> c \<noteq> comma \<and> c \<noteq> equals"
  by (auto simp: label_char_def is_space_def comma_def equals_def Let_def)

lemma label_clean: "a \<noteq> [] \<Longrightarrow> list_all label_char a \<Longrightarrow> clean a"
  using label_char_plain hd_in_set [of a] last_in_set [of a] by (auto simp: clean_def list_all_iff)

text \<open>
  what an operator writes into the settings is what the relay reads: keys with labels in either notation, roles, dashboard users and
  chat ids come back as the mapping that was written, in its order.
\<close>
lemma settings_round_trip:
  assumes "distinct (map fst m)"
    and "\<forall>(k, v) \<in> set m. k \<noteq> [] \<and> v \<noteq> [] \<and> list_all label_char k \<and> list_all label_char v"
  shows "parse_keys_with_labels sh (joined (map (\<lambda>(k, l). k @ colon_c # l) m)) = m
    \<and> parse_keys_with_labels sh (joined (map (\<lambda>(k, l). l @ equals # k) m)) = m
    \<and> parse_dashboard_users (joined (map (\<lambda>(k, v). k @ equals # v) m)) = m
    \<and> parse_feishu_user_mapping (joined (map (\<lambda>(k, v). k @ equals # v) m)) = m
    \<and> (list_all (\<lambda>(k, v). v \<in> set VALID_ROLES) m \<longrightarrow> parse_role_mapping (joined (map (\<lambda>(k, v). k @ equals # v) m)) = m)"
proof -
  have cl: "clean k \<and> clean v \<and> k \<noteq> [] \<and> v \<noteq> [] \<and> list_all label_char k \<and> list_all label_char v" if "(k, v) \<in> set m" for k v
    using assms(2) that label_clean by fastforce
  have sep: "colon_c \<noteq> comma" "equals \<noteq> comma" by (simp_all add: colon_c_def equals_def comma_def)
  have noeq: "equals \<notin> set k" if "list_all label_char k" for k
    using that label_char_plain by (auto simp: list_all_iff)
  have run: "parse_keys_with_labels sh (joined (map f m)) = m"
    if f: "\<And>k v. (k, v) \<in> set m \<Longrightarrow> key_and_label sh (f (k, v)) = (k, v) \<and> clean (f (k, v))" for f
  proof -
    have "split_csv (joined (map f m)) = map f m" using f by (intro csv_joined) auto
    then have "parse_keys_with_labels sh (joined (map f m)) = fold (\<lambda>kv. case key_and_label sh (f kv) of (k, lbl) \<Rightarrow> AList.update k lbl) m []"
      by (simp add: parse_keys_with_labels_def fold_map comp_def case_prod_beta)
    also have "\<dots> = fold (\<lambda>(k, v). AList.update k v) m []" using f by (intro fold_cong refl) auto
    finally show ?thesis using fold_update_distinct [OF assms(1), of "[]"] by simp
  qed
  have "parse_keys_with_labels sh (joined (map (\<lambda>(k, l). k @ colon_c # l) m)) = m"
    using cl sep by (intro run) (auto simp: key_and_label_def label_text intro!: clean_append)
  moreover have "parse_keys_with_labels sh (joined (map (\<lambda>(k, l). l @ equals # k) m)) = m"
    using cl sep by (intro run) (auto simp: key_and_label_def label_text colon_c_def equals_def intro!: clean_append)
  moreover have "parse_dashboard_users (joined (map (\<lambda>(k, v). k @ equals # v) m)) = m"
    unfolding parse_dashboard_users_def using assms(1) cl noeq by (intro assignments_read) auto
  moreover have "parse_feishu_user_mapping (joined (map (\<lambda>(k, v). k @ equals # v) m)) = m"
    unfolding parse_feishu_user_mapping_def using assms(1) cl noeq by (intro assignments_read) auto
  moreover have "parse_role_mapping (joined (map (\<lambda>(k, v). k @ equals # v) m)) = m" if "list_all (\<lambda>(k, v). v \<in> set VALID_ROLES) m"
    unfolding parse_role_mapping_def using assms(1) cl noeq that by (intro assignments_read) (auto simp: list_all_iff)
  ultimately show ?thesis by blast
qed


section \<open>What starts\<close>

definition redis_up :: "config \<Rightarrow> reach \<Rightarrow> bool" where
  "redis_up cf r \<longleftrightarrow> is_set (redis_url cf) \<and> r = Pings"

lemma bus_built:
  "build_event_bus cf False r =
     (if event_bus_backend cf = ''redis'' \<and> is_set (redis_url cf) \<and> r \<noteq> Pings \<and> strict_backend cf then Inl RedisUnavailableError
      else if event_bus_backend cf = ''redis'' \<and> redis_up cf r then Inr (RedisBus, True) else Inr (InProcessBus True, False))"
  by (auto simp: build_event_bus_def build_redis_client_def redis_up_def)

lemma limiter_swapped:
  "swap_limiter cf client r = (if \<not> rate_limit_enabled cf then None
     else if rate_limit_backend cf = ''redis'' \<and> (client \<or> redis_up cf r) then Some RedisStore else Some TokenBucket)"
  by (auto simp: swap_limiter_def build_rate_limit_store_def build_redis_client_def redis_up_def)

lemma boot_starts:
  "(\<exists>b. boot fernet sh cf r0 r1 = Inr b) \<longleftrightarrow>
     (production_mode cf \<longrightarrow> api_keys_raw cf \<noteq> [] \<and> database_url cf \<noteq> DEFAULT_SQLITE_URL
        \<and> (is_set (feishu_app_id cf) \<longleftrightarrow> is_set (feishu_app_secret cf)) \<and> (is_set (feishu_app_id cf) \<longleftrightarrow> is_set (feishu_webhook_secret cf)))
   \<and> (deployment_mode cf = ''multi_worker'' \<longrightarrow> event_bus_backend cf = ''redis'' \<and> rate_limit_backend cf = ''redis'' \<and> is_set (redis_url cf))
   \<and> (event_bus_backend cf = ''redis'' \<and> is_set (redis_url cf) \<and> strict_backend cf \<longrightarrow> r0 = Pings)
   \<and> (\<exists>c. user_credentials_cipher fernet sh cf = Inr c)
   \<and> \<not> (rate_limit_enabled cf \<and> rate_limit_backend cf = ''redis'' \<and> (event_bus_backend cf = ''redis'' \<and> redis_up cf r0 \<or> redis_up cf r1))"
  (is "?lhs \<longleftrightarrow> ?secrets \<and> ?mode \<and> ?reach \<and> ?cipher \<and> ?sweep")
proof -
  have secrets: "validate_required_secrets cf = Inr () \<longleftrightarrow> ?secrets"
    by (auto simp: validate_required_secrets_def secret_problems_def feishu_configured_def feishu_fields_def)
  have mode: "validate_deployment_mode cf = Inr () \<longleftrightarrow> ?mode"
    by (auto simp: validate_deployment_mode_def MULTI_WORKER_SAFE_BACKENDS_def Let_def)
  have "?lhs \<longleftrightarrow> validate_required_secrets cf = Inr () \<and> validate_deployment_mode cf = Inr () \<and> ?reach \<and> ?cipher \<and> ?sweep"
    by (auto simp: boot_def bus_built limiter_swapped start_sweep_def Let_def split: sum.splits)
  then show ?thesis using secrets mode by simp
qed


text \<open>A deployment of several workers that reaches its Redis does not start while rate limiting is on.\<close>

lemma multi_worker_never_starts:
  assumes "deployment_mode cf = ''multi_worker''" "rate_limit_enabled cf" "r0 = Pings"
  shows "\<exists>x. boot fernet sh cf r0 r1 = Inl x"
proof -
  have "\<nexists>b. boot fernet sh cf r0 r1 = Inr b" using assms unfolding boot_starts redis_up_def by blast
  then show ?thesis by (cases "boot fernet sh cf r0 r1") auto
qed

text \<open>One that does not reach it starts with a bus of its own in every worker, unless told to be strict.\<close>

lemma unreachable_redis_splits_cluster:
  assumes "\<not> strict_backend cf" "r0 \<noteq> Pings" "boot fernet sh cf r0 r1 = Inr b"
  shows "bt_bus b = InProcessBus True"
  using assms by (auto simp: boot_def bus_built redis_up_def Let_def split: sum.splits)

text \<open>Production checks neither the secret of the signed cookies nor that the key setting names a key.\<close>

lemma production_with_public_secret:
  "validate_required_secrets (cf\<lparr>dashboard_session_secret := None\<rparr>) = validate_required_secrets cf
   \<and> session_secret g (cf\<lparr>dashboard_session_secret := None\<rparr>) = ''dev-only-session-secret-do-not-use''"
  by (simp add: validate_required_secrets_def secret_problems_def feishu_configured_def feishu_fields_def session_secret_def)

lemma secret_of_environment_ignored: "session_secret False cf = ''dev-only-session-secret-do-not-use''"
  by (simp add: session_secret_def split: option.split)

lemma blank_keys_accepted: "secret_problems (cf\<lparr>api_keys_raw := '',''\<rparr>) = secret_problems (cf\<lparr>api_keys_raw := ''k''\<rparr>) \<and> parse_keys_with_labels sh '','' = []"
proof -
  have "split_csv '','' = []" by code_simp
  then show ?thesis by (simp add: parse_keys_with_labels_def secret_problems_def feishu_configured_def feishu_fields_def)
qed

text \<open>Extra patterns are read and never used; extra keys replace the default key names.\<close>

lemma patterns_ignored: "app_redactor (cf\<lparr>redaction_patterns_raw := x\<rparr>) = app_redactor cf"
  by (simp add: app_redactor_def)

lemma default_names_dropped:
  assumes "redaction_keys_raw cf = []"
  shows "sensitive_key default_engine (PStr ''authorization'') \<and> \<not> sensitive_key (app_redactor cf) (PStr ''authorization'')"
proof -
  have "split_csv [] = []" by code_simp
  moreover have "sensitive_key default_engine (PStr ''authorization'')" by code_simp
  moreover have "\<not> sensitive_key (make_engine DEFAULT_PATTERNS [''api_key'', ''token'', ''secret'', ''password'', ''credentials'']) (PStr ''authorization'')"
    by code_simp
  ultimately show ?thesis using assms by (simp add: app_redactor_def)
qed

text \<open>Two keys under one label are both accepted; the message says the later one wins.\<close>

lemma shared_label_keeps_both: "parse_keys_with_labels sh ''a:x,b:x'' = [(''a'', ''x''), (''b'', ''x'')]"
proof -
  have "split_csv ''a:x,b:x'' = [''a:x'', ''b:x'']" "label_token ''a:x'' = Some (''a'', colon_c, ''x'')" "label_token ''b:x'' = Some (''b'', colon_c, ''x'')"
    by code_simp+
  then show ?thesis by (simp add: parse_keys_with_labels_def key_and_label_def)
qed


section \<open>Dashboard users after a start\<close>

definition live_key :: "string \<Rightarrow> string \<Rightarrow> key_row list \<Rightarrow> bool" where
  "live_key label kh ks \<longleftrightarrow> (\<exists>row \<in> set ks. k_label row = label \<and> k_hash row = kh \<and> k_revoked_at row = None)"

definition rows_of :: "string \<Rightarrow> key_row list \<Rightarrow> key_row list" where
  "rows_of label ks = filter (\<lambda>r. k_label r = label) ks"

lemma live_rows_of: "live_key label kh ks \<longleftrightarrow> (\<exists>row \<in> set (rows_of label ks). k_hash row = kh \<and> k_revoked_at row = None)"
  by (auto simp: live_key_def rows_of_def)

lemma rows_of_unique:
  assumes "Access_Control.keys_ok ks"
  shows "rows_of label ks = (case get_by_label label ks of None \<Rightarrow> [] | Some r \<Rightarrow> [r])"
  using assms
proof (induction ks)
  case (Cons r ks)
  show ?case
  proof (cases "k_label r = label")
    case True
    moreover have "k_label r \<notin> k_label ` set ks" using Cons.prems by (simp add: Access_Control.keys_ok_def)
    ultimately have "rows_of label ks = []" unfolding rows_of_def filter_empty_conv by (metis imageI)
    then show ?thesis using True by (simp add: rows_of_def get_by_label_def)
  next
    case False
    then show ?thesis using Cons by (simp add: rows_of_def get_by_label_def Access_Control.keys_ok_def)
  qed
qed (simp add: rows_of_def get_by_label_def)

lemma dash_label_inj [simp]: "dash_label u = dash_label v \<longleftrightarrow> u = v"
  by (simp add: dash_label_def)

lemma mint_key_known: "label \<in> set (map k_label ks) \<Longrightarrow> snd (mint_key H now label raw role ks) = ks"
  by (simp add: mint_key_def create_key_def)

lemma mint_key_fresh:
  assumes "label \<notin> set (map k_label ks)"
  shows "\<exists>r. k_label r = label \<and> k_hash r = H raw \<and> k_role r = role \<and> k_revoked_at r = None \<and> snd (mint_key H now label raw role ks) = ks @ [r]"
  using assms by (simp add: mint_key_def create_key_def Let_def)

lemma revoke_labels: "map k_label (snd (revoke_key now label ks)) = map k_label ks"
  by (simp add: revoke_key_def update_where_def comp_def if_distrib cong: if_cong)

lemma revoke_rows_of: "rows_of l (snd (revoke_key now label ks)) = (if l = label then map (\<lambda>r. if k_revoked_at r = None then r\<lparr>k_revoked_at := Some now\<rparr> else r) (rows_of l ks) else rows_of l ks)"
  by (induction ks) (auto simp: revoke_key_def update_where_def rows_of_def active_label_def)

lemma mint_user_step:
  assumes "Access_Control.keys_ok (mt_keys s)"
  obtains raw where "map_of (mt_map (mint_user H now (user, role, token) s)) user = Some raw"
    "live_key (dash_label user) (H raw) (mt_keys (mint_user H now (user, role, token) s))
       \<longleftrightarrow> get_by_label (dash_label user) (mt_keys s) = None \<or> live_key (dash_label user) (H raw) (mt_keys s)"
    "Access_Control.keys_ok (mt_keys (mint_user H now (user, role, token) s))"
    "\<And>v. v \<noteq> user \<Longrightarrow> map_of (mt_map (mint_user H now (user, role, token) s)) v = map_of (mt_map s) v"
    "\<And>v. v \<noteq> user \<Longrightarrow> rows_of (dash_label v) (mt_keys (mint_user H now (user, role, token) s)) = rows_of (dash_label v) (mt_keys s)"
proof -
  obtain raw where raw: "fst (dash_get_or_create token now user (mt_dash s)) = Some raw" using get_or_create_gets by metis
  then obtain dash where d: "dash_get_or_create token now user (mt_dash s) = (Some raw, dash)" by (cases "dash_get_or_create token now user (mt_dash s)") auto
  let ?l = "dash_label user" and ?rows = "mt_keys s" and ?s = "mint_user H now (user, role, token) s"
  have map: "mt_map ?s = AList.update user raw (mt_map s)" by (simp add: mint_user_def d Let_def split: option.split)
  have keys: "mt_keys ?s = (case get_by_label ?l ?rows of
       None \<Rightarrow> snd (mint_key H now ?l raw role ?rows)
     | Some row \<Rightarrow> if k_revoked_at row = None \<and> k_hash row \<noteq> H raw then snd (revoke_key now ?l ?rows) else ?rows)"
  proof (cases "get_by_label ?l ?rows")
    case (Some row)
    then have "?l \<in> set (map k_label ?rows)" by (force dest: get_by_label_SomeD)
    then show ?thesis using Some revoke_labels [of now ?l ?rows] by (simp add: mint_user_def d Let_def mint_key_known)
  qed (simp add: mint_user_def d Let_def)
  have "(live_key ?l (H raw) (mt_keys ?s) \<longleftrightarrow> get_by_label ?l ?rows = None \<or> live_key ?l (H raw) ?rows) \<and> Access_Control.keys_ok (mt_keys ?s)
     \<and> (\<forall>v. v \<noteq> user \<longrightarrow> rows_of (dash_label v) (mt_keys ?s) = rows_of (dash_label v) ?rows)"
  proof (cases "get_by_label ?l ?rows")
    case None
    then obtain r where "k_label r = ?l" "k_hash r = H raw" "k_revoked_at r = None" "mt_keys ?s = ?rows @ [r]"
      using mint_key_fresh [of ?l ?rows H raw role now] get_by_label_None [of ?l ?rows] keys by auto
    then show ?thesis using None assms get_by_label_None [of ?l ?rows] by (auto simp: live_key_def Access_Control.keys_ok_def rows_of_def)
  next
    case (Some row)
    have only: "rows_of ?l ?rows = [row]" using rows_of_unique [OF assms, of ?l] Some by simp
    show ?thesis
    proof (cases "k_revoked_at row = None \<and> k_hash row \<noteq> H raw")
      case True
      then have eq: "mt_keys ?s = snd (revoke_key now ?l ?rows)" using keys Some by simp
      have "Access_Control.keys_ok (mt_keys ?s)" using assms revoke_labels [of now ?l ?rows] unfolding eq Access_Control.keys_ok_def by simp
      then show ?thesis using only True Some by (simp add: eq live_rows_of revoke_rows_of)
    next
      case False
      then have "mt_keys ?s = ?rows" using keys Some by (simp only: option.case if_False if_not_P)
      then show ?thesis using assms Some by simp
    qed
  qed
  then show ?thesis using map by (intro that [of raw]) (auto simp: od_simps)
qed

text \<open>
  after a start every configured dashboard user has a key in the map of the cookie middleware, and the API accepts it exactly when its
  label was free or already belonged to that very key; other keys are left alone.
\<close>
lemma minted_keys_live:
  assumes "Access_Control.keys_ok (mt_keys s)" "distinct (map fst utrs)" "u \<in> set (map fst utrs)"
    and "s' = fold (mint_user H now) utrs s"
  shows "\<exists>raw. map_of (mt_map s') u = Some raw
    \<and> (live_key (dash_label u) (H raw) (mt_keys s') \<longleftrightarrow> get_by_label (dash_label u) (mt_keys s) = None \<or> live_key (dash_label u) (H raw) (mt_keys s))"
  using assms
proof (induction utrs arbitrary: s)
  case (Cons x utrs)
  obtain v role token where x: "x = (v, role, token)" by (rule prod_cases3)
  let ?s = "mint_user H now x s"
  obtain raw where r: "map_of (mt_map ?s) v = Some raw"
      "live_key (dash_label v) (H raw) (mt_keys ?s) \<longleftrightarrow> get_by_label (dash_label v) (mt_keys s) = None \<or> live_key (dash_label v) (H raw) (mt_keys s)"
      "Access_Control.keys_ok (mt_keys ?s)"
      "\<And>w. w \<noteq> v \<Longrightarrow> map_of (mt_map ?s) w = map_of (mt_map s) w" "\<And>w. w \<noteq> v \<Longrightarrow> rows_of (dash_label w) (mt_keys ?s) = rows_of (dash_label w) (mt_keys s)"
    using mint_user_step [OF Cons.prems(1), of H now v role token] unfolding x by blast
  have keep: "map_of (mt_map (fold (mint_user H now) ys t)) w = map_of (mt_map t) w
      \<and> rows_of (dash_label w) (mt_keys (fold (mint_user H now) ys t)) = rows_of (dash_label w) (mt_keys t)"
    if "Access_Control.keys_ok (mt_keys t)" "w \<notin> set (map fst ys)" for ys t w
    using that
  proof (induction ys arbitrary: t)
    case (Cons y ys)
    obtain v1 role1 token1 where y: "y = (v1, role1, token1)" by (rule prod_cases3)
    show ?case using Cons.IH [of "mint_user H now y t"] Cons.prems mint_user_step [OF Cons.prems(1), of H now v1 role1 token1] unfolding y by fastforce
  qed simp
  show ?case
  proof (cases "u = v")
    case True
    then have "u \<notin> set (map fst utrs)" using Cons.prems(2) x by auto
    then show ?thesis using keep [OF r(3)] r(1,2) True Cons.prems(4) by (auto simp: live_rows_of)
  next
    case False
    then obtain raw1 where i: "map_of (mt_map s') u = Some raw1"
        "live_key (dash_label u) (H raw1) (mt_keys s') \<longleftrightarrow> get_by_label (dash_label u) (mt_keys ?s) = None \<or> live_key (dash_label u) (H raw1) (mt_keys ?s)"
      using Cons.IH [of ?s] Cons.prems x r(3) by auto
    have "get_by_label (dash_label u) (mt_keys ?s) = None \<longleftrightarrow> get_by_label (dash_label u) (mt_keys s) = None"
      using r(5) [OF False] rows_of_unique [OF r(3), of "dash_label u"] rows_of_unique [OF Cons.prems(1), of "dash_label u"] by (auto split: option.splits)
    then show ?thesis using i r(5) [OF False] by (auto simp: live_rows_of)
  qed
qed simp


text \<open>A rotated key is revoked at the next start and not created again, since its label is taken: the user stays locked out.\<close>

lemma restart_locks_out:
  assumes "Access_Control.keys_ok (mt_keys s)" "get_by_label (dash_label user) (mt_keys s) = Some row" "k_hash row \<noteq> H raw"
    and "mint_user H now (user, role, token) s = s'" "map_of (mt_map s') user = Some raw"
  shows "\<not> live_key (dash_label user) (H raw) (mt_keys s')"
proof -
  have "\<not> live_key (dash_label user) (H raw) (mt_keys s)"
    using rows_of_unique [OF assms(1), of "dash_label user"] assms(2,3) by (simp add: live_rows_of)
  moreover obtain raw1 where "map_of (mt_map s') user = Some raw1"
      "live_key (dash_label user) (H raw1) (mt_keys s') \<longleftrightarrow> get_by_label (dash_label user) (mt_keys s) = None \<or> live_key (dash_label user) (H raw1) (mt_keys s)"
    using mint_user_step [OF assms(1), of H now user role token] assms(4) by metis
  ultimately show ?thesis using assms(2,5) by simp
qed

section \<open>Durations, executors, retention\<close>

lemma digits_then: "\<not> is_digit u \<Longrightarrow> list_all is_digit ds \<Longrightarrow> takeWhile is_digit (ds @ u # r) = ds \<and> dropWhile is_digit (ds @ u # r) = u # r"
  by (induction ds) auto

lemma duration_read:
  assumes "unit_us u = Some f" "int n * f < 1000000000 * 86400000000"
  shows "parse_duration (str_nat n @ [u]) = Inr (int n * f)"
proof -
  have u: "\<not> is_digit u" "\<not> is_space u"
    using assms(1) by (auto simp: unit_us_def is_digit_def is_space_def Let_def split: if_splits)
  have d: "list_all is_digit (str_nat n)" using str_nat_digits [of n] by (auto simp: list_all_iff)
  obtain c cs where c: "str_nat n = c # cs" using str_nat_nonempty [of n] by (cases "str_nat n") auto
  have "\<not> is_space c" using d digit_not_space [of c] unfolding c by simp
  then have "dropWhile is_space (str_nat n @ [u]) = str_nat n @ [u]" unfolding c by simp
  then show ?thesis
    using digits_then [OF u(1) d, of "[]"] u(2) assms str_nat_nonempty [of n] str_nat_value [of n] by (simp add: parse_duration_def Let_def)
qed

text \<open>One Docker and one Kubernetes executor per process, each closed once.\<close>

lemma executors_cached:
  assumes "fa_cleanups s = (if fa_docker s then [''docker''] else []) @ (if fa_k8s s then [''k8s_job''] else []) \<or>
           fa_cleanups s = (if fa_k8s s then [''k8s_job''] else []) @ (if fa_docker s then [''docker''] else [])"
    and "executor_for kind s = (x, s')"
  shows "distinct (fa_cleanups s') \<and> (set (fa_cleanups s') = {k. k = ''docker'' \<and> fa_docker s' \<or> k = ''k8s_job'' \<and> fa_k8s s'})"
  using assms by (auto simp: executor_for_def split: if_splits)

text \<open>
  C28: a retention run removes exactly what is older than its three horizons and reports how much that was; decisions still pending stay.
\<close>
theorem retention_run_exact:
  assumes "distinct (map row_event_id (event_rows (tb_events t)))" "distinct (map a_id (audit_log (tb_team t)))"
    and "distinct (map h_id (hitl_requests (team_db (tb_team t))))" "0 < batch_size"
    and "run_retention now ed ad hld batch_size False t = ((ss, removed), t')"
  shows "event_rows (tb_events t') = filter (\<lambda>r. row_ts r \<ge> now - ed * day) (event_rows (tb_events t))
    \<and> audit_log (tb_team t') = filter (\<lambda>r. a_ts r \<ge> now - ad * day) (audit_log (tb_team t))
    \<and> hitl_requests (team_db (tb_team t')) = filter (\<lambda>r. case h_resolved_at r of None \<Rightarrow> True | Some x \<Rightarrow> x \<ge> now - hld * day) (hitl_requests (team_db (tb_team t)))
    \<and> removed + length (event_rows (tb_events t')) + length (audit_log (tb_team t')) + length (hitl_requests (team_db (tb_team t')))
        = length (event_rows (tb_events t)) + length (audit_log (tb_team t)) + length (hitl_requests (team_db (tb_team t)))"
proof -
  let ?he = "\<lambda>r. expired (\<lambda>r. Some (row_ts r)) (now - ed * day) (\<lambda>_. True) r"
  let ?ha = "\<lambda>r. expired (\<lambda>r. Some (a_ts r)) (now - ad * day) (\<lambda>_. True) r"
  let ?hh = "\<lambda>r. expired h_resolved_at (now - hld * day) (\<lambda>r. h_resolved_at r \<noteq> None) r"
  have ev: "event_rows (tb_events t') = filter (\<lambda>r. \<not> ?he r) (event_rows (tb_events t))"
    and au: "audit_log (tb_team t') = filter (\<lambda>r. \<not> ?ha r) (audit_log (tb_team t))"
    and hi: "hitl_requests (team_db (tb_team t')) = filter (\<lambda>r. \<not> ?hh r) (hitl_requests (team_db (tb_team t)))"
    and rm: "removed = length (filter ?he (event_rows (tb_events t))) + length (filter ?ha (audit_log (tb_team t)))
        + length (filter ?hh (hitl_requests (team_db (tb_team t))))"
    using assms by (auto simp: run_retention_def prune_events_def delete_in_batches_def batch_loop_exact)
  have sum: "removed + length (event_rows (tb_events t')) + length (audit_log (tb_team t')) + length (hitl_requests (team_db (tb_team t')))
        = length (event_rows (tb_events t)) + length (audit_log (tb_team t)) + length (hitl_requests (team_db (tb_team t)))"
    unfolding ev au hi rm
    using length_split_filter [of "event_rows (tb_events t)" ?he] length_split_filter [of "audit_log (tb_team t)" ?ha]
      length_split_filter [of "hitl_requests (team_db (tb_team t))" ?hh] by linarith
  have "filter (\<lambda>r. \<not> ?he r) xs = filter (\<lambda>r. row_ts r \<ge> now - ed * day) xs" for xs by (rule filter_cong) (auto simp: expired_def)
  moreover have "filter (\<lambda>r. \<not> ?ha r) xs = filter (\<lambda>r. a_ts r \<ge> now - ad * day) xs" for xs by (rule filter_cong) (auto simp: expired_def)
  moreover have "filter (\<lambda>r. \<not> ?hh r) xs = filter (\<lambda>r. case h_resolved_at r of None \<Rightarrow> True | Some x \<Rightarrow> x \<ge> now - hld * day) xs" for xs
    by (rule filter_cong) (auto simp: expired_def split: option.splits)
  ultimately show ?thesis using ev au hi sum by metis
qed

section \<open>Witnesses\<close>

lemma settings_round_trip_witness:
  "parse_keys_with_labels id ''k1:ann,k2:bob'' = [(''k1'', ''ann''), (''k2'', ''bob'')]
   \<and> parse_role_mapping ''ann=admin,bob=viewer'' = [(''ann'', ''admin''), (''bob'', ''viewer'')]"
proof -
  have "list_all (\<lambda>(k, v). k \<noteq> [] \<and> v \<noteq> [] \<and> list_all label_char k \<and> list_all label_char v) [(''k1'', ''ann''), (''k2'', ''bob'')]"
    "list_all (\<lambda>(k, v). k \<noteq> [] \<and> v \<noteq> [] \<and> list_all label_char k \<and> list_all label_char v \<and> v \<in> set VALID_ROLES) [(''ann'', ''admin''), (''bob'', ''viewer'')]"
    by code_simp+
  then show ?thesis
    using settings_round_trip [of "[(''k1'', ''ann''), (''k2'', ''bob'')]" id] settings_round_trip [of "[(''ann'', ''admin''), (''bob'', ''viewer'')]" id]
    by (simp add: list_all_iff colon_c_def equals_def comma_def)
qed

definition demo_config :: config where
  "demo_config = \<lparr>api_keys_raw = ''k1:ann'', production_mode = True, role_mapping_raw = [], feishu_app_id = None, feishu_app_secret = None,
     feishu_webhook_secret = None, database_url = ''postgresql://db/relay'', dashboard_users_raw = [], dashboard_admin_password = None,
     dashboard_session_secret = None, public_base_url = None, redaction_keys_raw = [], redaction_patterns_raw = [], deployment_mode = ''multi_worker'',
     event_bus_backend = ''redis'', rate_limit_backend = ''redis'', rate_limit_enabled = False, redis_url = Some ''redis://r'', strict_backend = True,
     disable_user_credentials = True, credentials_encryption_key = None\<rparr>"


definition demo_mint :: mint_state where
  "demo_mint = \<lparr>mt_dash = [], mt_keys = [], mt_map = []\<rparr>"

lemma minted_keys_live_witness:
  "\<exists>raw. map_of (mt_map (fold (mint_user id 5) [(''ann'', ''submitter'', ''t1''), (''admin'', ''admin'', ''t2'')] demo_mint)) ''ann'' = Some raw
     \<and> live_key ''dashboard-ann'' raw (mt_keys (fold (mint_user id 5) [(''ann'', ''submitter'', ''t1''), (''admin'', ''admin'', ''t2'')] demo_mint))"
proof -
  have "Access_Control.keys_ok (mt_keys demo_mint)" by (simp add: Access_Control.keys_ok_def demo_mint_def)
  then show ?thesis
    using minted_keys_live [of demo_mint "[(''ann'', ''submitter'', ''t1''), (''admin'', ''admin'', ''t2'')]" "''ann''" _ id 5]
    by (simp add: dash_label_def get_by_label_def demo_mint_def)
qed

theorem retention_run_exact_witness:
  "audit_log (tb_team (snd (run_retention (100 * day) 30 90 30 2 False
     \<lparr>tb_events = empty_events ''sqlite'', tb_team = demo_tables\<lparr>audit_log :=
        [\<lparr>a_id = 1, a_ts = 9 * day, a_actor = ''ann'', a_action = ''x'', a_target_type = None, a_target_id = None, a_metadata = None, a_request_id = None\<rparr>,
         \<lparr>a_id = 2, a_ts = 11 * day, a_actor = ''bob'', a_action = ''y'', a_target_type = None, a_target_id = None, a_metadata = None, a_request_id = None\<rparr>]\<rparr>\<rparr>)))
   = [\<lparr>a_id = 2, a_ts = 11 * day, a_actor = ''bob'', a_action = ''y'', a_target_type = None, a_target_id = None, a_metadata = None, a_request_id = None\<rparr>]"
proof -
  let ?t = "\<lparr>tb_events = empty_events ''sqlite'', tb_team = demo_tables\<lparr>audit_log :=
        [\<lparr>a_id = 1, a_ts = 9 * day, a_actor = ''ann'', a_action = ''x'', a_target_type = None, a_target_id = None, a_metadata = None, a_request_id = None\<rparr>,
         \<lparr>a_id = 2, a_ts = 11 * day, a_actor = ''bob'', a_action = ''y'', a_target_type = None, a_target_id = None, a_metadata = None, a_request_id = None\<rparr>]\<rparr>\<rparr>"
  have "distinct (map row_event_id (event_rows (tb_events ?t)))" "distinct (map h_id (hitl_requests (team_db (tb_team ?t))))"
    by (simp_all add: empty_events_def demo_tables_def demo_store_def create_session_def)
  then show ?thesis
    using retention_run_exact [of ?t 2 "100 * day" 30 90 30] by (cases "run_retention (100 * day) 30 90 30 2 False ?t") (auto simp: day_def)
qed

end
