(* ===== verification/Telemetry.thy ===== *)
theory Telemetry
  imports Durable_Store Session_Spec
begin

text \<open>
  What the relay tells others about its sessions: the span tree of \<open>tracing/subscriber.py\<close>, the counters of
  \<open>tracing/metrics_subscriber.py\<close> and \<open>subscribers/cost_metric_subscriber.py\<close>, the task trace of \<open>tracing/task_trace.py\<close>. A tracer is the list of
  the spans it has started, a span being named by its place; a counter is a number. Each handler treats one event; the bus gives each class of
  events in order and the classes in any interleaving, so a run is any list of events.
\<close>

section \<open>Spans\<close>

record span =
  sp_name :: string
  sp_parent :: "nat option"
  sp_attrs :: "(string, string) od"
  sp_notes :: "(string, string) od list"
  sp_ends :: nat

record otel =
  spans :: "span list"
  roots :: "(string, nat) od"
  roots_started :: "(string, rat) od"
  runs :: "(string, nat) od"
  tools :: "(string, nat) od"

definition new_otel :: otel where
  "new_otel = \<lparr>spans = [], roots = [], roots_started = [], runs = [], tools = []\<rparr>"

definition start_span :: "string \<Rightarrow> nat option \<Rightarrow> (string, string) od \<Rightarrow> otel \<Rightarrow> nat \<times> otel" where
  "start_span name parent attrs s =
     (length (spans s), s\<lparr>spans := spans s @ [\<lparr>sp_name = name, sp_parent = parent, sp_attrs = attrs, sp_notes = [], sp_ends = 0\<rparr>]\<rparr>)"

definition on_span :: "nat \<Rightarrow> (span \<Rightarrow> span) \<Rightarrow> otel \<Rightarrow> otel" where
  "on_span i f s = s\<lparr>spans := (spans s)[i := f (spans s ! i)]\<rparr>"

definition set_attribute :: "string \<Rightarrow> string \<Rightarrow> span \<Rightarrow> span" where
  "set_attribute k v sp = sp\<lparr>sp_attrs := AList.update k v (sp_attrs sp)\<rparr>"

definition end_span :: "span \<Rightarrow> span" where
  "end_span sp = sp\<lparr>sp_ends := Suc (sp_ends sp)\<rparr>"

definition add_note :: "(string, string) od \<Rightarrow> span \<Rightarrow> span" where
  "add_note attrs sp = sp\<lparr>sp_notes := sp_notes sp @ [attrs]\<rparr>"

text \<open>Attributes are written twice, under the new and the old name.\<close>

definition twice :: "string \<Rightarrow> string \<Rightarrow> span \<Rightarrow> span" where
  "twice k v sp = set_attribute (''gg_relay.'' @ k) v (set_attribute k v sp)"

definition session_attrs :: "string \<Rightarrow> (string, string) od" where
  "session_attrs sid = [(''session.id'', sid), (''gg_relay.session_id'', sid)]"

definition TRACE_TERMINAL :: "string list" where
  "TRACE_TERMINAL = [''completed'', ''failed'', ''cancelled'', ''interrupted'']"

definition open_or_resume_run :: "rat \<Rightarrow> string \<Rightarrow> otel \<Rightarrow> otel" where
  "open_or_resume_run now sid s =
     (let s1 = (case map_of (roots s) sid of
          Some _ \<Rightarrow> s
        | None \<Rightarrow> (case start_span ''relay.session'' None (session_attrs sid) s of
            (i, s1) \<Rightarrow> s1\<lparr>roots := AList.update sid i (roots s1), roots_started := AList.update sid now (roots_started s1)\<rparr>))
      in (case map_of (runs s1) sid of
          Some _ \<Rightarrow> s1
        | None \<Rightarrow> (case start_span ''relay.session.run'' (map_of (roots s1) sid) (session_attrs sid) s1 of
            (i, s2) \<Rightarrow> s2\<lparr>runs := AList.update sid i (runs s2)\<rparr>)))"

definition close_run :: "string \<Rightarrow> string option \<Rightarrow> otel \<Rightarrow> otel" where
  "close_run sid end_why s = (case map_of (runs s) sid of
     None \<Rightarrow> s
   | Some i \<Rightarrow> on_span i (\<lambda>sp. end_span (case end_why of Some (c # cs) \<Rightarrow> twice ''end_reason'' (c # cs) sp | _ \<Rightarrow> sp)) (s\<lparr>runs := AList.delete sid (runs s)\<rparr>))"

text \<open>The attributes of the closing spans: the status, and the reason if there is one.\<close>

definition closing :: "string \<Rightarrow> string option \<Rightarrow> span \<Rightarrow> span" where
  "closing to_state reason sp =
     end_span (let sp1 = twice ''end_status'' to_state sp in case reason of Some (c # cs) \<Rightarrow> twice ''end_reason'' (c # cs) sp1 | _ \<Rightarrow> sp1)"

definition belongs :: "string \<Rightarrow> span \<Rightarrow> bool" where
  "belongs sid sp \<longleftrightarrow> map_of (sp_attrs sp) ''session.id'' = Some sid \<or> map_of (sp_attrs sp) ''gg_relay.session_id'' = Some sid"

definition drop_tool :: "string \<Rightarrow> string \<times> nat \<Rightarrow> otel \<Rightarrow> otel" where
  "drop_tool sid t s =
     (if belongs sid (spans s ! snd t)
      then on_span (snd t) (\<lambda>sp. end_span (set_attribute ''gg_relay.tool_status'' ''unresolved'' sp)) (s\<lparr>tools := AList.delete (fst t) (tools s)\<rparr>)
      else s)"

definition terminate :: "string \<Rightarrow> string \<Rightarrow> string option \<Rightarrow> otel \<Rightarrow> otel" where
  "terminate sid to_state reason s =
     (let s1 = fold (drop_tool sid) (tools s) s;
          s2 = (case map_of (runs s1) sid of None \<Rightarrow> s1 | Some i \<Rightarrow> on_span i (closing to_state reason) (s1\<lparr>runs := AList.delete sid (runs s1)\<rparr>))
      in (case map_of (roots s2) sid of
          None \<Rightarrow> s2\<lparr>roots_started := AList.delete sid (roots_started s2)\<rparr>
        | Some r \<Rightarrow>
            (case start_span ''relay.session.finalize'' (Some r) (session_attrs sid @ [(''end_status'', to_state), (''gg_relay.end_status'', to_state)]) s2 of
               (i, s3) \<Rightarrow> on_span r (closing to_state reason)
                 ((on_span i (\<lambda>sp. end_span (case reason of Some (c # cs) \<Rightarrow> twice ''end_reason'' (c # cs) sp | _ \<Rightarrow> sp)) s3)
                    \<lparr>roots := AList.delete sid (roots s3), roots_started := AList.delete sid (roots_started s3)\<rparr>))))"

definition on_state :: "rat \<Rightarrow> string \<Rightarrow> string \<Rightarrow> string option \<Rightarrow> otel \<Rightarrow> otel" where
  "on_state now sid to_state reason s =
     (if sid = [] \<or> to_state = [] then s
      else if to_state = ''running'' then open_or_resume_run now sid s
      else if to_state = ''paused'' then close_run sid (Some ''paused'') s
      else if to_state \<in> set TRACE_TERMINAL then terminate sid to_state reason s
      else s)"

definition parent_of :: "string \<Rightarrow> otel \<Rightarrow> nat option" where
  "parent_of sid s = (case map_of (runs s) sid of Some i \<Rightarrow> Some i | None \<Rightarrow> map_of (roots s) sid)"

definition on_tool_request :: "string \<Rightarrow> string \<Rightarrow> string \<Rightarrow> otel \<Rightarrow> otel" where
  "on_tool_request sid rid tool s =
     (if rid = [] then s
      else (case start_span ''relay.tool_call'' (parent_of sid s)
               (session_attrs sid @ [(''gg_relay.req_id'', rid), (''gg_relay.tool'', tool), (''gen_ai.tool.name'', tool)]) s of
          (i, s1) \<Rightarrow> s1\<lparr>tools := AList.update rid i (tools s1)\<rparr>))"

definition on_tool_result :: "string \<Rightarrow> bool \<Rightarrow> string option \<Rightarrow> otel \<Rightarrow> otel" where
  "on_tool_result rid okay err s = (case map_of (tools s) rid of
     None \<Rightarrow> s
   | Some i \<Rightarrow> on_span i (\<lambda>sp. end_span (let sp1 = set_attribute ''gg_relay.tool_status'' (if okay then ''ok'' else ''error'') sp in
         case err of Some (c # cs) \<Rightarrow> set_attribute ''gg_relay.tool_error'' (take 512 (c # cs)) sp1 | _ \<Rightarrow> sp1)) (s\<lparr>tools := AList.delete rid (tools s)\<rparr>))"

definition note_error :: "string \<Rightarrow> string \<Rightarrow> string \<Rightarrow> otel \<Rightarrow> otel" where
  "note_error sid code message s = (case parent_of sid s of
     None \<Rightarrow> s
   | Some i \<Rightarrow> on_span i (add_note [(''code'', code), (''message'', take 512 message)]) s)"

definition on_install_error :: "string \<Rightarrow> string \<Rightarrow> string \<Rightarrow> otel \<Rightarrow> otel" where
  "on_install_error sid code message s = note_error sid code message s"

definition on_legacy_frame :: "(pyval \<Rightarrow> string) \<Rightarrow> pydict \<Rightarrow> otel \<Rightarrow> otel" where
  "on_legacy_frame show_py d s = (case (dget d ''session_id'', dget d ''type'') of
     (PStr sid, PStr ty) \<Rightarrow> if ty = ''error'' then note_error sid (show_py (dget_default d ''code'' (PStr []))) (show_py (dget_default d ''message'' (PStr []))) s else s
   | _ \<Rightarrow> s)"

text \<open>What reaches the subscriber: a typed event at a moment of the clock, or a frame of the untyped topic.\<close>

datatype seen = Event rat event_body | Frame pydict

fun otel_event :: "(pyval \<Rightarrow> string) \<Rightarrow> seen \<Rightarrow> otel \<Rightarrow> otel" where
  "otel_event show_py (Event now (SessionStateChanged sid f t reason)) s = on_state now sid t reason s"
| "otel_event show_py (Event now (ToolRequested sid n rid tool args)) s = on_tool_request sid rid tool s"
| "otel_event show_py (Event now (ToolResolved sid n rid okay res err)) s = on_tool_result rid okay err s"
| "otel_event show_py (Event now (InstallError sid n code message tb)) s = on_install_error sid code message s"
| "otel_event show_py (Event now b) s = s"
| "otel_event show_py (Frame d) s = on_legacy_frame show_py d s"

text \<open>The \<open>finally\<close> block of \<open>run\<close>.\<close>

definition end_all :: "(string, nat) od \<Rightarrow> otel \<Rightarrow> otel" where
  "end_all d s = fold (\<lambda>(_, i). on_span i end_span) d s"

definition shutdown_spans :: "otel \<Rightarrow> otel" where
  "shutdown_spans s =
     (let s1 = (end_all (tools s) s)\<lparr>tools := []\<rparr>; s2 = (end_all (runs s1) s1)\<lparr>runs := []\<rparr>
      in (end_all (roots s2) s2)\<lparr>roots := [], roots_started := []\<rparr>)"

section \<open>Counters\<close>

record meters =
  mt_total :: nat
  mt_by_status :: "(string, nat) od"
  mt_active :: int
  mt_changes :: "(string, nat) od"
  mt_hitl :: nat
  mt_decisions :: "(string, nat) od"
  mt_in :: int
  mt_out :: int
  mt_cost :: "pyfloat list"
  mt_durations :: "rat list"
  mt_errors :: "(string, nat) od"
  mt_started :: "(string, rat) od"

definition new_meters :: meters where
  "new_meters = \<lparr>mt_total = 0, mt_by_status = [], mt_active = 0, mt_changes = [], mt_hitl = 0, mt_decisions = [], mt_in = 0, mt_out = 0,
     mt_cost = [], mt_durations = [], mt_errors = [], mt_started = []\<rparr>"

definition bump :: "string \<Rightarrow> (string, nat) od \<Rightarrow> (string, nat) od" where
  "bump k d = AList.update k (Suc (case map_of d k of None \<Rightarrow> 0 | Some n \<Rightarrow> n)) d"

definition meter_state :: "rat \<Rightarrow> string \<Rightarrow> string \<Rightarrow> string \<Rightarrow> meters \<Rightarrow> meters" where
  "meter_state now sid from_state to_state m =
     (let m1 = m\<lparr>mt_changes := bump to_state (mt_changes m)\<rparr> in
      if to_state = ''running'' then
        (let m2 = m1\<lparr>mt_active := mt_active m1 + 1\<rparr>
         in if sid \<noteq> [] \<and> map_of (mt_started m2) sid = None then m2\<lparr>mt_started := AList.update sid now (mt_started m2)\<rparr> else m2)
      else if to_state \<in> set TRACE_TERMINAL then
        (let m2 = (if from_state = ''running'' then m1\<lparr>mt_active := mt_active m1 - 1\<rparr> else m1)
         in if sid = [] then m2
            else (case map_of (mt_started m2) sid of
                None \<Rightarrow> m2
              | Some t \<Rightarrow> m2\<lparr>mt_durations := mt_durations m2 @ [now - t], mt_started := AList.delete sid (mt_started m2)\<rparr>))
      else m1)"

definition first_present :: "(string, pyval) od \<Rightarrow> string list \<Rightarrow> pyval" where
  "first_present attrs names = (case find (\<lambda>n. case map_of attrs n of None \<Rightarrow> False | Some v \<Rightarrow> py_truthy v) names of
     None \<Rightarrow> PNone
   | Some n \<Rightarrow> (case map_of attrs n of None \<Rightarrow> PNone | Some v \<Rightarrow> v))"

text \<open>\<open>safe_count\<close> is the \<open>_safe_int\<close> of this module, which treats \<open>None\<close> first.\<close>

definition safe_count :: "pyval \<Rightarrow> py_exn + int" where
  "safe_count v = (if v = PNone then Inr 0 else safe_int v)"

definition token_count :: "(string, pyval) od \<Rightarrow> string list \<Rightarrow> string \<Rightarrow> string \<Rightarrow> pyval" where
  "token_count attrs names k1 k2 =
     (let v = first_present attrs names in
      case map_of attrs ''tokens'' of
        Some (PDict d) \<Rightarrow> if v = PNone then py_or (dget d k1) (dget d k2) else v
      | _ \<Rightarrow> v)"

text \<open>
  A handler that raises has done its increments up to there, and ends its task: the second component is the exception. A Prometheus
  counter refuses a negative increment.
\<close>

definition inc_cost :: "(string, pyval) od \<Rightarrow> meters \<Rightarrow> meters \<times> py_exn option" where
  "inc_cost attrs m =
     (let cost = (case map_of attrs ''cost_usd'' of Some v \<Rightarrow> py_or v (PFloat (Fin 0)) | None \<Rightarrow> PFloat (Fin 0)) in
      if \<not> py_truthy cost then (m, None)
      else (case py_float cost of
          Inl e \<Rightarrow> (m, Some e)
        | Inr x \<Rightarrow> if (case x of Fin r \<Rightarrow> r < 0 | NegInf \<Rightarrow> True | _ \<Rightarrow> False) then (m, Some ValueError) else (m\<lparr>mt_cost := mt_cost m @ [x]\<rparr>, None)))"

definition on_aggregates :: "(string, pyval) od \<Rightarrow> meters \<Rightarrow> meters \<times> py_exn option" where
  "on_aggregates attrs m =
     (case safe_count (token_count attrs [''input_tokens'', ''input'', ''in_''] ''in'' ''input_tokens'') of
        Inl e \<Rightarrow> (m, Some e)
      | Inr i \<Rightarrow> (case safe_count (token_count attrs [''output_tokens'', ''output'', ''out''] ''out'' ''output_tokens'') of
          Inl e \<Rightarrow> (m, Some e)
        | Inr j \<Rightarrow>
            if i < 0 then (m, Some ValueError)
            else (let m1 = m\<lparr>mt_in := mt_in m + i\<rparr>
                  in if j < 0 then (m1, Some ValueError) else inc_cost attrs (m1\<lparr>mt_out := mt_out m1 + j\<rparr>))))"

fun meter_event :: "rat \<Rightarrow> event_body \<Rightarrow> meters \<Rightarrow> meters \<times> py_exn option" where
  "meter_event now (SessionCreated _ _ _) m = (m\<lparr>mt_total := Suc (mt_total m)\<rparr>, None)"
| "meter_event now (SessionStateChanged sid f t reason) m = (meter_state now sid f t m, None)"
| "meter_event now (SessionCompleted sid st tok cost) m =
     on_aggregates (body_fields (SessionCompleted sid st tok cost)) (m\<lparr>mt_by_status := bump st (mt_by_status m)\<rparr>)"
| "meter_event now (HITLRequested _ _ _ _) m = (m\<lparr>mt_hitl := Suc (mt_hitl m)\<rparr>, None)"
| "meter_event now (HITLResolved sid rid d why who) m = (m\<lparr>mt_decisions := bump d (mt_decisions m)\<rparr>, None)"
| "meter_event now (InstallError sid n code message tb) m = (m\<lparr>mt_errors := bump code (mt_errors m)\<rparr>, None)"
| "meter_event now b m = (m, None)"

text \<open>The stub of the counters per owner: the attributes of the event, \<open>None\<close> when one is absent.\<close>

definition or_unknown :: "string option \<Rightarrow> string" where
  "or_unknown s = (case s of Some (c # cs) \<Rightarrow> c # cs | _ \<Rightarrow> ''unknown'')"

definition on_session_end ::
    "string option \<Rightarrow> string option \<Rightarrow> rat \<Rightarrow> ((string \<times> string) \<times> nat) list \<times> ((string \<times> string) \<times> rat) list \<Rightarrow> ((string \<times> string) \<times> nat) list \<times> ((string \<times> string) \<times> rat) list" where
  "on_session_end owner to_state cost c =
     (let k = (or_unknown owner, or_unknown to_state)
      in (AList.update k (Suc (case map_of (fst c) k of None \<Rightarrow> 0 | Some n \<Rightarrow> n)) (fst c),
          if cost = 0 then snd c else AList.update k ((case map_of (snd c) k of None \<Rightarrow> 0 | Some x \<Rightarrow> x) + cost) (snd c)))"

section \<open>Task trace\<close>

definition TASK_TRACE_VERSION :: string where "TASK_TRACE_VERSION = ''gg.task-trace.v1''"

definition base_record :: "(int \<Rightarrow> string) \<Rightarrow> relay_event \<Rightarrow> string \<Rightarrow> pydict" where
  "base_record iso_of ev ty =
     [(PStr ''schemaVersion'', PStr TASK_TRACE_VERSION), (PStr ''eventType'', PStr ty), (PStr ''traceId'', PStr (event_session (body ev))),
      (PStr ''timestamp'', PStr (iso_of (occurred_at ev))), (PStr ''source'', PStr ''gg-relay'')]"

definition with_reason :: "string option \<Rightarrow> pydict" where
  "with_reason r = (case r of None \<Rightarrow> [] | Some t \<Rightarrow> [(PStr ''reason'', PStr t)])"

definition render :: "(int \<Rightarrow> string) \<Rightarrow> relay_event \<Rightarrow> pydict option" where
  "render iso_of ev = (case body ev of
     SessionCreated sid p labels \<Rightarrow> Some (base_record iso_of ev ''session.created'' @ [(PStr ''tags'', PList (map PStr labels)), (PStr ''prompt_redacted'', PStr p)])
   | SessionStateChanged sid f t r \<Rightarrow> Some (base_record iso_of ev (''session.state.'' @ t) @ [(PStr ''from_state'', PStr f), (PStr ''to_state'', PStr t)] @ with_reason r)
   | SessionCompleted sid st tok c \<Rightarrow> Some (base_record iso_of ev ''session.completed''
       @ [(PStr ''status'', PStr st), (PStr ''tokens'', PDict (map (\<lambda>(k, v). (PStr k, PInt v)) tok)), (PStr ''cost_usd'', PFloat c)])
   | HITLRequested sid rid tool args \<Rightarrow> Some (base_record iso_of ev ''hitl.requested'' @ [(PStr ''req_id'', PStr rid), (PStr ''tool'', PStr tool)])
   | HITLResolved sid rid d why who \<Rightarrow> Some (base_record iso_of ev ''hitl.resolved'' @ [(PStr ''req_id'', PStr rid), (PStr ''decision'', PStr d)] @ with_reason why)
   | ToolRequested sid n rid tool args \<Rightarrow> Some (base_record iso_of ev ''tool.requested'' @ [(PStr ''req_id'', PStr rid), (PStr ''tool'', PStr tool)])
   | ToolResolved sid n rid okay res err \<Rightarrow> Some (base_record iso_of ev ''tool.resolved'' @ [(PStr ''req_id'', PStr rid), (PStr ''ok'', PBool okay)])
   | InstallError sid n code message tb \<Rightarrow> Some (base_record iso_of ev ''error'' @ [(PStr ''code'', PStr code), (PStr ''message'', PStr message)])
   | _ \<Rightarrow> None)"

text \<open>\<open>file\<close>: the lines written, or \<open>None\<close> when the writer is disabled.\<close>

definition write_event :: "(pydict \<Rightarrow> string) \<Rightarrow> (int \<Rightarrow> string) \<Rightarrow> relay_event \<Rightarrow> string list option \<Rightarrow> string list option" where
  "write_event dump iso_of ev file = (case file of
     None \<Rightarrow> None
   | Some ls \<Rightarrow> (case render iso_of ev of None \<Rightarrow> Some ls | Some rec \<Rightarrow> Some (ls @ [dump rec])))"

section \<open>Every span ends once\<close>

text \<open>
  The ledger of the subscriber: for each place, the number of its entries in the three maps and the number of times the span has been
  ended make one. Each handler moves a place from the first count to the second.
\<close>

definition open_spans :: "otel \<Rightarrow> nat multiset" where
  "open_spans s = mset (map snd (tools s)) + mset (map snd (runs s)) + mset (map snd (roots s))"

definition ends_of :: "otel \<Rightarrow> nat \<Rightarrow> nat" where
  "ends_of s i = (if i < length (spans s) then sp_ends (spans s ! i) else 0)"

definition keyed :: "otel \<Rightarrow> bool" where
  "keyed s \<longleftrightarrow> distinct (map fst (tools s)) \<and> distinct (map fst (runs s)) \<and> distinct (map fst (roots s))"

definition balanced :: "nat multiset \<Rightarrow> otel \<Rightarrow> bool" where
  "balanced extra s \<longleftrightarrow> keyed s \<and> (\<forall>i. Multiset.count (extra + open_spans s) i + ends_of s i = of_bool (i < length (spans s)))"

lemma update_absent: "map_of d k = None \<Longrightarrow> AList.update k v d = d @ [(k, v)]"
  by (induction d) (auto split: if_splits)

lemma delete_present:
  "distinct (map fst d) \<Longrightarrow> map_of d k = Some i \<Longrightarrow> mset (map snd d) = add_mset i (mset (map snd (AList.delete k d)))"
proof (induction d)
  case Nil
  then show ?case by simp
next
  case (Cons a d)
  show ?case
  proof (cases "fst a = k")
    case True
    with Cons.prems have "AList.delete k d = d" by (auto simp: image_iff intro!: AList.delete_id)
    with True Cons.prems show ?thesis by (cases a) auto
  next
    case False
    with Cons show ?thesis by (cases a) auto
  qed
qed

lemma keyed_delete [simp]: "distinct (map fst d) \<Longrightarrow> distinct (map fst (AList.delete k d))"
  by (rule distinct_delete)

lemma started:
  "balanced x s \<Longrightarrow> start_span name parent attrs s = (i, s1) \<Longrightarrow>
     balanced (add_mset i x) s1 \<and> tools s1 = tools s \<and> runs s1 = runs s \<and> roots s1 = roots s \<and> roots_started s1 = roots_started s \<and> i < length (spans s1)"
  by (auto simp: start_span_def balanced_def keyed_def open_spans_def ends_of_def nth_append less_Suc_eq split: if_splits)

lemma ended:
  assumes "balanced (add_mset i x) s" and "\<And>sp. sp_ends (f sp) = Suc (sp_ends sp)"
  shows "balanced x (on_span i f s)"
proof -
  have i: "Suc (Multiset.count (x + open_spans s) i) + ends_of s i = of_bool (i < length (spans s))"
    using assms(1) unfolding balanced_def by (metis add_mset_add_single count_add_mset union_mset_add_mset_left)
  then have len: "i < length (spans s)" by (cases "i < length (spans s)") auto
  have other: "Multiset.count (x + open_spans s) j + ends_of s j = of_bool (j < length (spans s))" if "j \<noteq> i" for j
    using assms(1) that unfolding balanced_def by (auto dest!: spec[of _ j])
  have "ends_of (on_span i f s) j = (if j = i then Suc (ends_of s i) else ends_of s j)" for j
    using len assms(2) by (simp add: ends_of_def on_span_def nth_list_update)
  moreover have "open_spans (on_span i f s) = open_spans s" "keyed (on_span i f s) = keyed s" "length (spans (on_span i f s)) = length (spans s)"
    by (simp_all add: on_span_def open_spans_def keyed_def)
  moreover have "keyed s" using assms(1) by (simp add: balanced_def)
  ultimately show ?thesis using i other unfolding balanced_def by auto
qed

lemma marked:
  assumes "balanced x s" and "\<And>sp. sp_ends (f sp) = sp_ends sp"
  shows "balanced x (on_span i f s)"
proof -
  have "ends_of (on_span i f s) j = ends_of s j" for j
    using assms(2) by (cases "j = i") (simp_all add: ends_of_def on_span_def)
  moreover have "open_spans (on_span i f s) = open_spans s" "keyed (on_span i f s) = keyed s" "length (spans (on_span i f s)) = length (spans s)"
    by (simp_all add: on_span_def open_spans_def keyed_def)
  ultimately show ?thesis using assms(1) unfolding balanced_def by simp
qed

lemma moved:
  assumes "balanced x s" and "keyed t" and "y + open_spans t = x + open_spans s" and "spans t = spans s"
  shows "balanced y t"
proof -
  have "ends_of t i = ends_of s i" for i using assms(4) by (simp add: ends_of_def)
  with assms show ?thesis by (simp only: balanced_def simp_thms)
qed

lemma balanced_keyed:
  "balanced x s \<Longrightarrow> distinct (map fst (tools s))" "balanced x s \<Longrightarrow> distinct (map fst (runs s))" "balanced x s \<Longrightarrow> distinct (map fst (roots s))"
  by (simp_all add: balanced_def keyed_def)

lemma take_tool: "balanced x s \<Longrightarrow> map_of (tools s) k = Some i \<Longrightarrow> balanced (add_mset i x) (s\<lparr>tools := AList.delete k (tools s)\<rparr>)"
  by (rule moved [of x s]) (simp_all add: open_spans_def keyed_def balanced_keyed delete_present [of "tools s" k i] del: mset_map)

lemma take_run: "balanced x s \<Longrightarrow> map_of (runs s) k = Some i \<Longrightarrow> balanced (add_mset i x) (s\<lparr>runs := AList.delete k (runs s)\<rparr>)"
  by (rule moved [of x s]) (simp_all add: open_spans_def keyed_def balanced_keyed delete_present [of "runs s" k i] del: mset_map)

lemma take_root:
  "balanced x s \<Longrightarrow> map_of (roots s) k = Some i \<Longrightarrow> balanced (add_mset i x) (s\<lparr>roots := AList.delete k (roots s), roots_started := d\<rparr>)"
  by (rule moved [of x s]) (simp_all add: open_spans_def keyed_def balanced_keyed delete_present [of "roots s" k i] del: mset_map)

lemma absent_key: "map_of d k = None \<Longrightarrow> k \<notin> fst ` set d"
  by (simp add: map_of_eq_None_iff)

lemma keep_tool: "balanced (add_mset i x) s \<Longrightarrow> map_of (tools s) k = None \<Longrightarrow> balanced x (s\<lparr>tools := AList.update k i (tools s)\<rparr>)"
  by (rule moved [of "add_mset i x" s]) (simp_all add: open_spans_def keyed_def balanced_keyed update_absent absent_key)

lemma keep_run: "balanced (add_mset i x) s \<Longrightarrow> map_of (runs s) k = None \<Longrightarrow> balanced x (s\<lparr>runs := AList.update k i (runs s)\<rparr>)"
  by (rule moved [of "add_mset i x" s]) (simp_all add: open_spans_def keyed_def balanced_keyed update_absent absent_key)

lemma keep_root:
  "balanced (add_mset i x) s \<Longrightarrow> map_of (roots s) k = None \<Longrightarrow> balanced x (s\<lparr>roots := AList.update k i (roots s), roots_started := d\<rparr>)"
  by (rule moved [of "add_mset i x" s]) (simp_all add: open_spans_def keyed_def balanced_keyed update_absent absent_key)

lemma clock_kept: "balanced x s \<Longrightarrow> balanced x (s\<lparr>roots_started := d\<rparr>)"
  by (rule moved [of x s]) (simp_all add: open_spans_def keyed_def balanced_keyed)

lemma attribute_ends [simp]:
  "sp_ends (set_attribute k v sp) = sp_ends sp" "sp_ends (twice k v sp) = sp_ends sp" "sp_ends (end_span sp) = Suc (sp_ends sp)"
  "sp_ends (add_note a sp) = sp_ends sp"
  by (simp_all add: set_attribute_def twice_def end_span_def add_note_def)

lemma closing_ends [simp]: "sp_ends (closing t r sp) = Suc (sp_ends sp)"
  by (simp add: closing_def Let_def split: option.splits list.splits)

lemma on_span_maps [simp]:
  "tools (on_span i f s) = tools s" "runs (on_span i f s) = runs s" "roots (on_span i f s) = roots s" "roots_started (on_span i f s) = roots_started s"
  "length (spans (on_span i f s)) = length (spans s)"
  by (simp_all add: on_span_def)

lemma start_span_maps [simp]:
  "tools (snd (start_span n p a s)) = tools s" "runs (snd (start_span n p a s)) = runs s" "roots (snd (start_span n p a s)) = roots s"
  by (simp_all add: start_span_def)

lemma start_balanced: "balanced x s \<Longrightarrow> balanced (add_mset (fst (start_span n p a s)) x) (snd (start_span n p a s))"
  using started [of x s n p a "fst (start_span n p a s)" "snd (start_span n p a s)"] by simp

lemma open_or_resume_balanced: "balanced x s \<Longrightarrow> balanced x (open_or_resume_run now sid s)"
proof -
  assume b: "balanced x s"
  define s1 where "s1 = (case map_of (roots s) sid of
          Some _ \<Rightarrow> s
        | None \<Rightarrow> (case start_span ''relay.session'' None (session_attrs sid) s of
            (i, s1) \<Rightarrow> s1\<lparr>roots := AList.update sid i (roots s1), roots_started := AList.update sid now (roots_started s1)\<rparr>))"
  have b1: "balanced x s1"
    using b by (auto simp: s1_def split: option.splits prod.splits intro!: keep_root dest: started)
  show ?thesis
    using b1 by (auto simp: open_or_resume_run_def s1_def[symmetric] split: option.splits prod.splits intro!: keep_run dest: started)
qed

lemma close_run_balanced: "balanced x s \<Longrightarrow> balanced x (close_run sid why s)"
  by (auto simp: close_run_def split: option.splits list.splits intro!: ended take_run)

lemma drop_tool_balanced: "balanced x s \<Longrightarrow> map_of (tools s) (fst t) = Some (snd t) \<Longrightarrow> balanced x (drop_tool sid t s)"
  by (auto simp: drop_tool_def intro!: ended take_tool)

lemma drop_tools_balanced:
  "balanced x s \<Longrightarrow> distinct (map fst ts) \<Longrightarrow> \<forall>t\<in>set ts. map_of (tools s) (fst t) = Some (snd t) \<Longrightarrow> balanced x (fold (drop_tool sid) ts s)"
proof (induction ts arbitrary: s)
  case Nil
  then show ?case by simp
next
  case (Cons t ts)
  have "map_of (tools (drop_tool sid t s)) (fst u) = Some (snd u)" if "u \<in> set ts" for u
  proof -
    have "fst u \<noteq> fst t" using Cons.prems(2) that by (cases u, cases t) (auto simp: image_iff)
    with that Cons.prems(3) show ?thesis by (simp add: drop_tool_def)
  qed
  with Cons show ?case by (simp add: drop_tool_balanced)
qed

lemma tools_read: "balanced x s \<Longrightarrow> t \<in> set (tools s) \<Longrightarrow> map_of (tools s) (fst t) = Some (snd t)"
  by (simp add: balanced_def keyed_def)

lemma terminate_balanced: "balanced x s \<Longrightarrow> balanced x (terminate sid t r s)"
proof -
  assume b: "balanced x s"
  define s1 where "s1 = fold (drop_tool sid) (tools s) s"
  define s2 where "s2 = (case map_of (runs s1) sid of None \<Rightarrow> s1 | Some i \<Rightarrow> on_span i (closing t r) (s1\<lparr>runs := AList.delete sid (runs s1)\<rparr>))"
  have "distinct (map fst (tools s))" using b by (simp add: balanced_def keyed_def)
  then have b1: "balanced x s1" unfolding s1_def using b tools_read by (blast intro: drop_tools_balanced)
  then have b2: "balanced x s2" by (auto simp: s2_def split: option.splits intro!: ended take_run)
  show ?thesis
  proof (cases "map_of (roots s2) sid")
    case None
    with b2 show ?thesis by (simp add: terminate_def Let_def s1_def[symmetric] s2_def[symmetric] clock_kept)
  next
    case (Some r0)
    define s3 where "s3 = start_span ''relay.session.finalize'' (Some r0) (session_attrs sid @ [(''end_status'', t), (''gg_relay.end_status'', t)]) s2"
    have b3: "balanced (add_mset (fst s3) x) (snd s3)" using b2 by (simp add: s3_def start_balanced)
    define s4 where "s4 = on_span (fst s3) (\<lambda>sp. end_span (case r of Some (c # cs) \<Rightarrow> twice ''end_reason'' (c # cs) sp | _ \<Rightarrow> sp)) (snd s3)"
    have b4: "balanced x s4" unfolding s4_def using b3 by (rule ended) (simp split: option.splits list.splits)
    have r4: "map_of (roots s4) sid = Some r0" using Some by (simp add: s4_def s3_def)
    have "balanced x (on_span r0 (closing t r) (s4\<lparr>roots := AList.delete sid (roots s4), roots_started := AList.delete sid (roots_started s4)\<rparr>))"
      using b4 r4 by (auto intro!: ended take_root)
    moreover have "terminate sid t r s = on_span r0 (closing t r) (s4\<lparr>roots := AList.delete sid (roots s4), roots_started := AList.delete sid (roots_started s4)\<rparr>)"
      using Some by (simp add: terminate_def Let_def s1_def[symmetric] s2_def[symmetric] s3_def[symmetric] s4_def split_beta)
    ultimately show ?thesis by simp
  qed
qed

lemma on_state_balanced: "balanced x s \<Longrightarrow> balanced x (on_state now sid t r s)"
  by (simp add: on_state_def open_or_resume_balanced close_run_balanced terminate_balanced)

lemma tool_request_balanced: "balanced x s \<Longrightarrow> map_of (tools s) rid = None \<Longrightarrow> balanced x (on_tool_request sid rid tool s)"
  by (auto simp: on_tool_request_def split: prod.splits intro!: keep_tool dest: started)

lemma tool_result_balanced: "balanced x s \<Longrightarrow> balanced x (on_tool_result rid okay err s)"
  by (auto simp: on_tool_result_def Let_def split: option.splits list.splits intro!: ended take_tool)

lemma note_error_balanced: "balanced x s \<Longrightarrow> balanced x (note_error sid code msg s)"
  by (auto simp: note_error_def split: option.splits intro!: marked)

text \<open>\<open>hear\<close>: the subscriber over a run of events. \<open>ids_free\<close>: no tool request carries the id of a tool call that is still open.\<close>

definition hear :: "(pyval \<Rightarrow> string) \<Rightarrow> seen list \<Rightarrow> otel \<Rightarrow> otel" where
  "hear show_py es s = fold (otel_event show_py) es s"

fun ids_free :: "(pyval \<Rightarrow> string) \<Rightarrow> seen list \<Rightarrow> otel \<Rightarrow> bool" where
  "ids_free show_py [] s = True"
| "ids_free show_py (e # es) s =
     ((case e of Event _ (ToolRequested _ _ rid _ _) \<Rightarrow> map_of (tools s) rid = None | _ \<Rightarrow> True) \<and> ids_free show_py es (otel_event show_py e s))"

lemma event_balanced:
  assumes "balanced x s"
    and "case e of Event _ (ToolRequested _ _ rid _ _) \<Rightarrow> map_of (tools s) rid = None | _ \<Rightarrow> True"
  shows "balanced x (otel_event show_py e s)"
proof (cases e)
  case (Event now b)
  with assms show ?thesis
    by (cases b) (simp_all add: on_state_balanced tool_request_balanced tool_result_balanced on_install_error_def note_error_balanced)
next
  case (Frame d)
  with assms show ?thesis
    by (simp add: on_legacy_frame_def note_error_balanced split: pyval.splits)
qed

lemma hear_balanced: "balanced x s \<Longrightarrow> ids_free show_py es s \<Longrightarrow> balanced x (hear show_py es s)"
proof (induction es arbitrary: s)
  case Nil
  then show ?case by (simp add: hear_def)
next
  case (Cons e es)
  then have "balanced x (otel_event show_py e s)" by (simp add: event_balanced)
  with Cons show ?case by (simp add: hear_def)
qed

lemma end_all_balanced: "balanced (mset (map snd d) + x) s \<Longrightarrow> balanced x (end_all d s)"
proof (induction d arbitrary: s)
  case Nil
  then show ?case by (simp add: end_all_def)
next
  case (Cons a d)
  have "balanced (mset (map snd d) + x) (on_span (snd a) end_span s)" using Cons.prems by (intro ended) simp_all
  with Cons.IH show ?case by (simp add: end_all_def split_beta)
qed

lemma end_all_maps [simp]:
  "tools (end_all d s) = tools s" "runs (end_all d s) = runs s" "roots (end_all d s) = roots s" "length (spans (end_all d s)) = length (spans s)"
  by (induction d arbitrary: s) (simp_all add: end_all_def split_beta)

lemma on_span_clear:
  "(on_span i f s)\<lparr>tools := a\<rparr> = on_span i f (s\<lparr>tools := a\<rparr>)" "(on_span i f s)\<lparr>runs := a\<rparr> = on_span i f (s\<lparr>runs := a\<rparr>)"
  "(on_span i f s)\<lparr>roots := a, roots_started := c\<rparr> = on_span i f (s\<lparr>roots := a, roots_started := c\<rparr>)"
  by (cases s; simp add: on_span_def)+

lemma end_all_clear:
  "(end_all d s)\<lparr>tools := a\<rparr> = end_all d (s\<lparr>tools := a\<rparr>)" "(end_all d s)\<lparr>runs := a\<rparr> = end_all d (s\<lparr>runs := a\<rparr>)"
  "(end_all d s)\<lparr>roots := a, roots_started := c\<rparr> = end_all d (s\<lparr>roots := a, roots_started := c\<rparr>)"
  by (induction d arbitrary: s) (simp_all add: end_all_def split_beta on_span_clear)

lemma shutdown_balanced: "balanced {#} s \<Longrightarrow> balanced {#} (shutdown_spans s)"
proof -
  have 1: "balanced {#} ((end_all (tools s) s)\<lparr>tools := []\<rparr>)" if "balanced {#} s" for s
    unfolding end_all_clear
    by (rule end_all_balanced, rule moved [OF that]) (use that in \<open>simp_all add: open_spans_def keyed_def balanced_keyed\<close>)
  have 2: "balanced {#} ((end_all (runs s) s)\<lparr>runs := []\<rparr>)" if "balanced {#} s" for s
    unfolding end_all_clear
    by (rule end_all_balanced, rule moved [OF that]) (use that in \<open>simp_all add: open_spans_def keyed_def balanced_keyed\<close>)
  have 3: "balanced {#} ((end_all (roots s) s)\<lparr>roots := [], roots_started := []\<rparr>)" if "balanced {#} s" for s
    unfolding end_all_clear
    by (rule end_all_balanced, rule moved [OF that]) (use that in \<open>simp_all add: open_spans_def keyed_def balanced_keyed\<close>)
  assume "balanced {#} s"
  then show ?thesis unfolding shutdown_spans_def Let_def by (intro 1 2 3)
qed

lemma new_balanced: "balanced {#} new_otel"
  by (simp add: balanced_def keyed_def open_spans_def ends_of_def new_otel_def)

lemma shutdown_empty: "open_spans (shutdown_spans s) = {#}"
  by (simp add: shutdown_spans_def Let_def open_spans_def)

text \<open>After a terminal state nothing of the session is open.\<close>

lemma on_span_nth: "spans (on_span i f s) ! j = (if j = i \<and> i < length (spans s) then f (spans s ! i) else spans s ! j)"
  by (cases "i < length (spans s)") (simp_all add: on_span_def nth_list_update list_update_beyond)

lemma drop_tool_belongs: "belongs sid (spans (drop_tool sid t s) ! i) = belongs sid (spans s ! i)"
  by (simp add: drop_tool_def on_span_nth) (simp add: belongs_def end_span_def set_attribute_def AList.update_conv')

lemma delete_member: "t \<in> set (AList.delete k d) \<Longrightarrow> t \<in> set d \<and> fst t \<noteq> k"
  by (auto simp: AList.delete_eq)

lemma drop_tools_left:
  "t \<in> set (tools (fold (drop_tool sid) ts s)) \<Longrightarrow> t \<in> set (tools s) \<and> (t \<in> set ts \<longrightarrow> \<not> belongs sid (spans s ! snd t))"
proof (induction ts arbitrary: s)
  case Nil
  then show ?case by simp
next
  case (Cons u ts)
  then have "t \<in> set (tools (drop_tool sid u s))" "t \<in> set ts \<longrightarrow> \<not> belongs sid (spans s ! snd t)"
    using Cons.IH [of "drop_tool sid u s"] by (simp_all add: drop_tool_belongs)
  moreover have "t \<in> set (tools s) \<and> (t = u \<longrightarrow> \<not> belongs sid (spans s ! snd u))"
    using calculation(1) delete_member [of t "fst u" "tools s"] by (auto simp: drop_tool_def split: if_splits)
  ultimately show ?case by (metis set_ConsD)
qed

lemma drop_tools_belongs: "belongs sid (spans (fold (drop_tool sid) ts s) ! i) = belongs sid (spans s ! i)"
  by (induction ts arbitrary: s) (simp_all add: drop_tool_belongs)

lemma span_at: "sp \<in> set (spans s) \<Longrightarrow> \<exists>i < length (spans s). ends_of s i = sp_ends sp"
  by (auto simp: in_set_conv_nth ends_of_def)

lemma terminal_closes:
  assumes "sid \<noteq> []" and "t \<in> set TRACE_TERMINAL"
  shows "map_of (roots (on_state now sid t r s)) sid = None" and "map_of (runs (on_state now sid t r s)) sid = None"
    and "\<And>u. u \<in> set (tools (on_state now sid t r s)) \<Longrightarrow> u \<in> set (tools s) \<and> \<not> belongs sid (spans s ! snd u)"
proof -
  have e: "on_state now sid t r s = terminate sid t r s"
    using assms by (auto simp: on_state_def TRACE_TERMINAL_def)
  show "map_of (roots (on_state now sid t r s)) sid = None" "map_of (runs (on_state now sid t r s)) sid = None"
    unfolding e by (auto simp: terminate_def Let_def AList.delete_conv split_beta split: option.splits)
  have "tools (terminate sid t r s) = tools (fold (drop_tool sid) (tools s) s)"
    by (auto simp: terminate_def Let_def split_beta split: option.splits)
  then show "\<And>u. u \<in> set (tools (on_state now sid t r s)) \<Longrightarrow> u \<in> set (tools s) \<and> \<not> belongs sid (spans s ! snd u)"
    unfolding e using drop_tools_left by metis
qed

text \<open>
  C34: Let the subscriber hear any events, in any order, such that no tool request reuses the id of a tool call that is open. Then no span has
  been ended twice, a terminal state of a session leaves no root, run or tool call of the session open, and when the subscriber has shut down
  every span it started has been ended exactly once.
\<close>

theorem spans_closed:
  assumes "ids_free show_py es new_otel"
  shows "(\<forall>sp\<in>set (spans (hear show_py es new_otel)). sp_ends sp \<le> 1) \<and>
    (\<forall>sp\<in>set (spans (shutdown_spans (hear show_py es new_otel))). sp_ends sp = 1) \<and>
    (\<forall>now sid t r. sid \<noteq> [] \<and> t \<in> set TRACE_TERMINAL \<longrightarrow>
       (let s = on_state now sid t r (hear show_py es new_otel)
        in map_of (roots s) sid = None \<and> map_of (runs s) sid = None \<and>
           (\<forall>u\<in>set (tools s). \<not> belongs sid (spans (hear show_py es new_otel) ! snd u))))"
proof -
  have b: "balanced {#} (hear show_py es new_otel)" using hear_balanced [OF new_balanced assms] .
  have once: "ends_of s i \<le> 1" if "balanced {#} s" for s i
  proof -
    have "Multiset.count (open_spans s) i + ends_of s i = of_bool (i < length (spans s))" using that by (simp add: balanced_def)
    then show ?thesis by (cases "i < length (spans s)") auto
  qed
  have one: "\<forall>sp\<in>set (spans (hear show_py es new_otel)). sp_ends sp \<le> 1"
    using once [OF b] span_at by metis
  have "balanced {#} (shutdown_spans (hear show_py es new_otel))" using b by (rule shutdown_balanced)
  then have "ends_of (shutdown_spans (hear show_py es new_otel)) i = of_bool (i < length (spans (shutdown_spans (hear show_py es new_otel))))" for i
    by (simp add: balanced_def shutdown_empty)
  then have two: "\<forall>sp\<in>set (spans (shutdown_spans (hear show_py es new_otel))). sp_ends sp = 1"
    by (metis span_at of_bool_eq(2))
  have three: "map_of (roots (on_state now sid t r s)) sid = None \<and> map_of (runs (on_state now sid t r s)) sid = None \<and>
      (\<forall>u\<in>set (tools (on_state now sid t r s)). \<not> belongs sid (spans s ! snd u))"
    if "sid \<noteq> [] \<and> t \<in> set TRACE_TERMINAL" for now sid t r s
    using terminal_closes [OF conjunct1 [OF that] conjunct2 [OF that]] by blast
  show ?thesis unfolding Let_def using one two three by blast
qed

definition heard_run :: "seen list" where
  "heard_run = [Event 1 (SessionStateChanged ''s'' ''queued'' ''running'' None), Event 2 (ToolRequested ''s'' 0 ''r1'' ''Bash'' []),
     Event 3 (SessionStateChanged ''s'' ''running'' ''paused'' None), Event 4 (SessionStateChanged ''s'' ''paused'' ''running'' None),
     Event 5 (ToolResolved ''s'' 1 ''r1'' True [] None), Event 6 (ToolRequested ''s'' 2 ''r2'' ''Read'' []),
     Event 7 (SessionStateChanged ''s'' ''running'' ''completed'' None), Event 8 (ToolRequested ''s'' 3 ''r3'' ''Late'' [])]"

lemma spans_closed_witness:
  "ids_free (\<lambda>_. []) heard_run new_otel \<and>
   map sp_ends (spans (hear (\<lambda>_. []) heard_run new_otel)) = [1, 1, 1, 1, 1, 1, 0] \<and>
   sp_ends ` set (spans (shutdown_spans (hear (\<lambda>_. []) heard_run new_otel))) \<subseteq> {1}"
proof -
  have f: "ids_free (\<lambda>_. []) heard_run new_otel" by code_simp
  have "map sp_ends (spans (hear (\<lambda>_. []) heard_run new_otel)) = [1, 1, 1, 1, 1, 1, 0]" by code_simp
  with f spans_closed [OF f] show ?thesis by blast
qed

section \<open>What the counters show\<close>

text \<open>Two events in a row, ignoring what a handler raises.\<close>

definition metered :: "event_body list \<Rightarrow> meters \<Rightarrow> meters" where
  "metered es m = fold (\<lambda>e m. fst (meter_event 0 e m)) es m"

text \<open>A session that is paused, resumed and completed leaves the gauge of active sessions one too high; one cancelled while it is paused, too.\<close>

lemma gauge_drifts:
  "mt_active (metered [SessionStateChanged s ''queued'' ''running'' None, SessionStateChanged s ''running'' ''paused'' None,
     SessionStateChanged s ''paused'' ''running'' None, SessionStateChanged s ''running'' ''completed'' None] new_meters) = 1"
  "mt_active (metered [SessionStateChanged s ''queued'' ''running'' None, SessionStateChanged s ''running'' ''paused'' None,
     SessionStateChanged s ''paused'' ''cancelled'' None] new_meters) = 1"
  by (simp_all add: metered_def meter_state_def new_meters_def TRACE_TERMINAL_def Let_def)

text \<open>A tool request heard after the terminal state of its session opens a span that only the shutdown ends.\<close>

lemma late_request_stays_open:
  "sid \<noteq> [] \<Longrightarrow> t \<in> set TRACE_TERMINAL \<Longrightarrow> rid \<noteq> [] \<Longrightarrow>
     (let s = hear show_py [Event now (SessionStateChanged sid f t None), Event now (ToolRequested sid n rid tool args)] new_otel
      in map_of (tools s) rid = Some 0 \<and> sp_parent (spans s ! 0) = None \<and> sp_ends (spans s ! 0) = 0)"
  by (auto simp: hear_def on_state_def terminate_def on_tool_request_def start_span_def new_otel_def parent_of_def TRACE_TERMINAL_def Let_def)

text \<open>A request that reuses the id of an open tool call loses the first span for good.\<close>

lemma reused_id_leaks:
  "map sp_ends (spans (shutdown_spans (hear (\<lambda>_. []) [Event 0 (ToolRequested s n ''r'' tool args), Event 0 (ToolRequested s n ''r'' tool args)] new_otel))) = [0, 1]"
  by (simp add: hear_def on_tool_request_def start_span_def new_otel_def shutdown_spans_def end_all_def on_span_def end_span_def Let_def)

end
