(* ===== verification/Dashboard.thy ===== *)
theory Dashboard
  imports Boot Reports
begin

text \<open>
  The pages of \<open>dashboard/router.py\<close>: login, who a cookie stands for, the event stream of the board, and for each route the data its template is
  rendered with; configuration texts handed on unchanged are left out. A template is
  its name; the HTML written by the templates is not modelled, the fragments the code builds itself are. A handler reads the tables with a
  script of what other tasks do at its suspensions, as in \<open>Team_Api\<close>. bcrypt, MD5, the clock's time zone and \<open>str\<close> of values that are not
  text are parameters; texts with characters outside ASCII are in UTF-8.
\<close>

section \<open>Answers\<close>

text \<open>\<open>Page\<close> is a template with its data, \<open>Fragment\<close> an HTML text of the code, \<open>Detail\<close> an HTTP exception, \<open>Raises\<close> and
  \<open>ServerError\<close> one that is not caught, of Python or of the packages.\<close>

datatype 'a shown =
    Page nat string 'a
  | Fragment nat string
  | Redirect nat string
  | Detail nat string
  | Unprocessable
  | Raises py_exn
  | ServerError

record page_env =
  pg_team :: team_env
  pg_search :: search_env
  pg_config :: config
  pg_size :: nat
  pg_executor :: string
  pg_str :: "pyval \<Rightarrow> string"
  pg_cursor_text :: "store_exn \<Rightarrow> string"

section \<open>Text for the templates\<close>

fun hex_value :: "string \<Rightarrow> nat \<Rightarrow> nat" where
  "hex_value [] acc = acc"
| "hex_value (c # cs) acc = (let n = of_char c :: nat in hex_value cs (16 * acc + (if n \<le> 57 then n - 48 else n - 87)))"

definition owner_color :: "(string \<Rightarrow> string) \<Rightarrow> string option \<Rightarrow> string" where
  "owner_color md5 owner = (case owner of
     Some (c # cs) \<Rightarrow> ''hsl('' @ str_nat (hex_value (take 8 (md5 (c # cs))) 0 mod 360) @ '', 55%, 45%)''
   | _ \<Rightarrow> ''hsl(0, 0%, 45%)'')"

text \<open>A time stamp, or the value of an older row; \<open>zoned\<close> and \<open>iso\<close> are \<open>datetime\<close>'s.\<close>

definition local_time :: "(int \<Rightarrow> string) \<Rightarrow> (pyval \<Rightarrow> string) \<Rightarrow> int + pyval \<Rightarrow> string" where
  "local_time zoned show_py v = (case v of Inl t \<Rightarrow> zoned t | Inr PNone \<Rightarrow> em_dash | Inr x \<Rightarrow> show_py x)"

definition html_datetime :: "(int \<Rightarrow> string) \<Rightarrow> (pyval \<Rightarrow> string) \<Rightarrow> int + pyval \<Rightarrow> string" where
  "html_datetime iso_of show_py v = (case v of Inl t \<Rightarrow> iso_of t | Inr x \<Rightarrow> show_py (py_or x (PStr [])))"

definition str_py :: "(pyval \<Rightarrow> string) \<Rightarrow> pyval \<Rightarrow> string" where
  "str_py show_py v = (case v of PStr s \<Rightarrow> s | _ \<Rightarrow> show_py v)"

fun joined_with :: "string \<Rightarrow> string list \<Rightarrow> string" where
  "joined_with sep [] = []"
| "joined_with sep [t] = t"
| "joined_with sep (t # ts) = t @ sep @ joined_with sep ts"

definition said_text :: "(pyval \<Rightarrow> string) \<Rightarrow> pyval \<Rightarrow> string list" where
  "said_text show_py b = (case b of
     PDict d \<Rightarrow> if dget d ''type'' = PStr ''text'' \<and> py_truthy (dget d ''text'') then [str_py show_py (dget d ''text'')] else []
   | _ \<Rightarrow> [])"

text \<open>The message of a frame: the \<open>data\<close> of its payload if that is a dict, else the payload.\<close>

definition frame_message :: "pyval \<Rightarrow> pyval" where
  "frame_message payload = (case payload of
     PDict d \<Rightarrow> (case dget d ''data'' of PDict m \<Rightarrow> PDict m | _ \<Rightarrow> payload)
   | _ \<Rightarrow> payload)"

fun extract_from :: "(pyval \<Rightarrow> string) \<Rightarrow> pyval list \<Rightarrow> string \<Rightarrow> py_exn + string" where
  "extract_from show_py [] latest = Inr latest"
| "extract_from show_py (p # ps) latest = (case frame_message p of
     PDict d \<Rightarrow>
       if dget d ''type'' \<noteq> PStr ''AssistantMessage'' then extract_from show_py ps latest
       else bind_sum (py_iter (py_or (dget d ''content'') (PList []))) (\<lambda>bs.
         let parts = concat (map (said_text show_py) bs)
         in extract_from show_py ps (if parts = [] then latest else joined_with [newline_c] parts))
   | _ \<Rightarrow> extract_from show_py ps latest)"

definition extract_assistant_text :: "(pyval \<Rightarrow> string) \<Rightarrow> frame_row list \<Rightarrow> py_exn + string" where
  "extract_assistant_text show_py rows = extract_from show_py (map fr_payload rows) []"

definition prompt_from_spec :: "(pyval \<Rightarrow> string) \<Rightarrow> pydict \<Rightarrow> string" where
  "prompt_from_spec show_py spec = str_py show_py (py_or (dget spec ''prompt'') (PStr []))"

text \<open>\<open>str.split()\<close>: the runs between white space.\<close>

fun words :: "string \<Rightarrow> string \<Rightarrow> string list" where
  "words [] cur = (if cur = [] then [] else [rev cur])"
| "words (c # cs) cur = (if is_space c then (if cur = [] then words cs [] else rev cur # words cs []) else words cs (c # cur))"

definition ellipsis :: string where
  "ellipsis = [CHR 0xE2, CHR 0x80, CHR 0xA6]"

definition rstrip :: "string \<Rightarrow> string" where
  "rstrip s = rev (dropWhile is_space (rev s))"

definition excerpt :: "nat \<Rightarrow> string \<Rightarrow> string" where
  "excerpt limit t = (let compact = joined_with '' '' (words t [])
     in if length compact \<le> limit then compact else rstrip (take (limit - 1) compact) @ ellipsis)"

text \<open>\<open>urllib.parse.quote\<close> with the characters left alone, \<open>quote_plus\<close>, \<open>urlencode\<close>; \<open>html.escape\<close>.\<close>

definition always_safe :: "char \<Rightarrow> bool" where
  "always_safe c \<longleftrightarrow> (let n = of_char c :: nat in
     65 \<le> n \<and> n \<le> 90 \<or> 97 \<le> n \<and> n \<le> 122 \<or> 48 \<le> n \<and> n \<le> 57 \<or> n \<in> {95, 46, 45, 126})"

definition upper_hex :: "nat \<Rightarrow> char" where
  "upper_hex n = char_of (if n < 10 then 48 + n else 55 + n)"

definition percent :: "char \<Rightarrow> string" where
  "percent c = (let n = of_char c :: nat in [CHR ''%'', upper_hex (n div 16), upper_hex (n mod 16)])"

definition url_quote :: "string \<Rightarrow> string \<Rightarrow> string" where
  "url_quote safe s = concat (map (\<lambda>c. if always_safe c \<or> c \<in> set safe then [c] else percent c) s)"

definition quote_plus :: "string \<Rightarrow> string" where
  "quote_plus s = concat (map (\<lambda>c. if c = CHR '' '' then ''+'' else if always_safe c then [c] else percent c) s)"

definition urlencode :: "(string \<times> string) list \<Rightarrow> string" where
  "urlencode kvs = joined_with ''&'' (map (\<lambda>(k, v). quote_plus k @ ''='' @ quote_plus v) kvs)"

definition html_escape :: "string \<Rightarrow> string" where
  "html_escape s = concat (map (\<lambda>c.
     if c = CHR ''&'' then ''&amp;'' else if c = CHR ''<'' then ''&lt;'' else if c = CHR ''>'' then ''&gt;''
     else if c = quote_c then ''&quot;'' else if c = CHR 0x27 then ''&#x27;'' else [c]) s)"

section \<open>Login\<close>

definition session_user :: "request \<Rightarrow> pyval" where
  "session_user rq = (case rq_session rq of None \<Rightarrow> PNone | Some d \<Rightarrow> (case map_of d SESSION_KEY of None \<Rightarrow> PNone | Some v \<Rightarrow> v))"

definition logged_in :: "request \<Rightarrow> bool" where
  "logged_in rq \<longleftrightarrow> py_truthy (session_user rq)"

text \<open>\<open>Depends(_require_session)\<close> in front of a handler.\<close>

definition require_session :: "request \<Rightarrow> 's \<Rightarrow> ('s \<Rightarrow> 'a shown \<times> 's) \<Rightarrow> 'a shown \<times> 's" where
  "require_session rq c handler = (if logged_in rq then handler c else (Redirect 303 ''/dashboard/login'', c))"

definition dashboard_users :: "config \<Rightarrow> (string, string) od" where
  "dashboard_users cf = parse_dashboard_users (dashboard_users_raw cf)"

text \<open>\<open>checkpw\<close> raises \<open>ValueError\<close> on a malformed hash: \<open>None\<close>.\<close>

definition verify_dashboard_user :: "(string \<Rightarrow> string \<Rightarrow> bool option) \<Rightarrow> config \<Rightarrow> string \<Rightarrow> string \<Rightarrow> bool" where
  "verify_dashboard_user checkpw cf username password = (case map_of (dashboard_users cf) username of
     Some (h # hs) \<Rightarrow> checkpw password (h # hs) = Some True
   | _ \<Rightarrow> False)"

definition ascii :: "string \<Rightarrow> bool" where
  "ascii s \<longleftrightarrow> list_all (\<lambda>c. of_char c < (128 :: nat)) s"

text \<open>\<open>secrets.compare_digest\<close> refuses texts outside ASCII.\<close>

definition verify_admin :: "config \<Rightarrow> string \<Rightarrow> string \<Rightarrow> py_exn + bool" where
  "verify_admin cf username password = (case dashboard_admin_password cf of
     None \<Rightarrow> Inr False
   | Some pw \<Rightarrow>
       if username \<noteq> ''admin'' then Inr False
       else if \<not> (ascii password \<and> ascii pw) then Inl TypeError
       else Inr (password = pw))"

definition login_post ::
    "(string \<Rightarrow> string \<Rightarrow> bool option) \<Rightarrow> config \<Rightarrow> string \<Rightarrow> string \<Rightarrow> (string \<times> pyval) list \<Rightarrow> string shown \<times> (string \<times> pyval) list" where
  "login_post checkpw cf username password session =
     (case (if verify_dashboard_user checkpw cf username password then Inr True else verify_admin cf username password) of
        Inl x \<Rightarrow> (Raises x, session)
      | Inr False \<Rightarrow> (Page 401 ''login.html'' ''invalid credentials'', session)
      | Inr True \<Rightarrow> (Redirect 303 ''/dashboard/sessions'', AList.update SESSION_KEY (PStr username) session))"

definition logout :: "(string \<times> pyval) list \<Rightarrow> string shown \<times> (string \<times> pyval) list" where
  "logout session = (Redirect 303 ''/dashboard/login'', AList.delete SESSION_KEY session)"

definition dashboard_username :: "request \<Rightarrow> string option" where
  "dashboard_username rq = (case rq_dashboard_user rq of
     Some (c # cs) \<Rightarrow> Some (c # cs)
   | _ \<Rightarrow> (case session_user rq of PStr (c # cs) \<Rightarrow> Some (c # cs) | _ \<Rightarrow> None))"

definition dashboard_label :: "request \<Rightarrow> string option" where
  "dashboard_label rq = map_option dash_label (dashboard_username rq)"

definition LEGACY_ADMIN_LABEL :: string where
  "LEGACY_ADMIN_LABEL = ''dashboard-admin''"

definition dashboard_role :: "config \<Rightarrow> request \<Rightarrow> string" where
  "dashboard_role cf rq = (case dashboard_label rq of
     None \<Rightarrow> ''viewer''
   | Some l \<Rightarrow> (case map_of (parse_role_mapping (role_mapping_raw cf)) l of
         Some r \<Rightarrow> r
       | None \<Rightarrow> if l = LEGACY_ADMIN_LABEL \<and> is_set (dashboard_admin_password cf) then ''admin'' else ''viewer''))"

definition dash_admin :: "page_env \<Rightarrow> request \<Rightarrow> bool" where
  "dash_admin e rq \<longleftrightarrow> rank (dashboard_role (pg_config e) rq) \<ge> rank ''admin''"

definition can_submit :: "page_env \<Rightarrow> request \<Rightarrow> bool" where
  "can_submit e rq \<longleftrightarrow> dashboard_role (pg_config e) rq \<in> {''submitter'', ''admin''}"

section \<open>Lists and boards\<close>

definition state_text :: "session_row \<times> session_state \<Rightarrow> string" where
  "state_text s = state_value (snd s)"

definition column_of :: "string \<Rightarrow> string" where
  "column_of st = (if st \<in> {''queued'', ''running'', ''paused''} then st else ''terminal'')"

definition kanban_columns :: "('s \<Rightarrow> string) \<Rightarrow> 's list \<Rightarrow> (string, 's list) od" where
  "kanban_columns status xs = map (\<lambda>c. (c, filter (\<lambda>s. column_of (status s) = c) xs)) [''queued'', ''running'', ''paused'', ''terminal'']"

record board_card =
  cd_summary :: "session_row \<times> session_state"
  cd_prompt :: string
  cd_prompt_excerpt :: string
  cd_output :: string
  cd_output_excerpt :: string
  cd_input_tokens :: int
  cd_output_tokens :: int
  cd_cost :: rat
  cd_turns :: int

definition kanban_card :: "page_env \<Rightarrow> session_row \<times> session_state \<Rightarrow> session_row option \<Rightarrow> string \<Rightarrow> board_card" where
  "kanban_card e s row output =
     (let prompt = (case row of None \<Rightarrow> [] | Some r \<Rightarrow> prompt_from_spec (pg_str e) (s_spec r));
          num = (\<lambda>f. case row of None \<Rightarrow> 0 | Some r \<Rightarrow> f r)
      in \<lparr>cd_summary = s, cd_prompt = prompt, cd_prompt_excerpt = excerpt 160 prompt, cd_output = output, cd_output_excerpt = excerpt 180 output,
          cd_input_tokens = num s_input_tokens, cd_output_tokens = num s_output_tokens,
          cd_cost = (case row of None \<Rightarrow> 0 | Some r \<Rightarrow> s_cost r), cd_turns = num s_turn_count\<rparr>)"

fun display_sessions :: "page_env \<Rightarrow> (session_row \<times> session_state) list \<Rightarrow> tcfg \<Rightarrow> (py_exn + board_card list) \<times> tcfg" where
  "display_sessions e [] c = (Inr [], c)"
| "display_sessions e (s # ss) c =
     (case reading (\<lambda>t. get_session (s_id (fst s)) (team_db t)) c of (row, c1) \<Rightarrow>
      case (if state_text s \<in> {''completed'', ''failed'', ''cancelled'', ''interrupted''}
            then reading (\<lambda>t. list_frames (s_id (fst s)) 200 0 (team_db t)) c1 else ([], c1)) of (fs, c2) \<Rightarrow>
      case extract_assistant_text (pg_str e) fs of
        Inl x \<Rightarrow> (Inl x, c2)
      | Inr output \<Rightarrow> (case display_sessions e ss c2 of
            (Inl x, c3) \<Rightarrow> (Inl x, c3)
          | (Inr cs, c3) \<Rightarrow> (Inr (kanban_card e s row output # cs), c3)))"

text \<open>\<open>SessionManager.list\<close> without a filter.\<close>

definition managed_list :: "page_env \<Rightarrow> nat \<Rightarrow> string option \<Rightarrow> tcfg \<Rightarrow> (store_exn + (session_row \<times> session_state) list \<times> string option) \<times> tcfg" where
  "managed_list e limit after c = (case reading (\<lambda>t. list_sessions (se_codec (pg_search e)) None None limit after (team_db t)) c of
     (Inl x, c1) \<Rightarrow> (Inl x, c1)
   | (Inr (rows, next), c1) \<Rightarrow> (case summaries rows of Inl x \<Rightarrow> (Inl (StoreError x), c1) | Inr ss \<Rightarrow> (Inr (ss, next), c1)))"

text \<open>What an exception of the store that no handler expects becomes.\<close>

definition uncaught :: "store_exn \<Rightarrow> 'a shown" where
  "uncaught x = (case x of StoreError y \<Rightarrow> Raises y | _ \<Rightarrow> ServerError)"

definition cursor_exn :: "store_exn \<Rightarrow> bool" where
  "cursor_exn x \<longleftrightarrow> x = CursorInvalidError \<or> x = CursorFilterMismatchError"

definition sessions_list :: "page_env \<Rightarrow> request \<Rightarrow> tcfg \<Rightarrow> (session_row \<times> session_state) list shown \<times> tcfg" where
  "sessions_list e rq c = require_session rq c (\<lambda>c. case managed_list e 200 None c of
     (Inl x, c1) \<Rightarrow> (uncaught x, c1)
   | (Inr (ss, _), c1) \<Rightarrow> (Page 200 (if is_set (get_header ''hx-request'' rq) then ''_sessions_table.html'' else ''sessions_list.html'') ss, c1))"

definition search_by ::
    "page_env \<Rightarrow> search_filter \<Rightarrow> nat \<Rightarrow> string option \<Rightarrow> tcfg \<Rightarrow> (store_exn + session_row list \<times> string option) \<times> tcfg" where
  "search_by e f limit after c = (let se = pg_search e in
     reading (\<lambda>t. search_sessions (se_codec se) (se_hash se) (se_ci se) (se_spec_text se) (se_tags_text se) f limit after (team_db t)) c)"

definition some_list :: "string option \<Rightarrow> string list" where
  "some_list s = (case s of Some (c # cs) \<Rightarrow> [c # cs] | _ \<Rightarrow> [])"

definition effective_owner :: "page_env \<Rightarrow> request \<Rightarrow> string option \<Rightarrow> string option" where
  "effective_owner e rq owner =
     (if \<not> dash_admin e rq \<and> dashboard_label rq \<noteq> None then dashboard_label rq else if owner = Some [] then None else owner)"

definition filtered_summaries ::
    "page_env \<Rightarrow> request \<Rightarrow> string option \<Rightarrow> string option \<Rightarrow> string option \<Rightarrow> nat \<Rightarrow> string option \<Rightarrow> tcfg
     \<Rightarrow> (store_exn + (session_row \<times> session_state) list \<times> string option) \<times> tcfg" where
  "filtered_summaries e rq owner status tag limit after c =
     (case search_by e \<lparr>q_text = None, q_owner = effective_owner e rq owner, q_tags = some_list tag, q_status = some_list status,
          q_after_ts = None, q_before_ts = None\<rparr> limit after c of
        (Inl x, c1) \<Rightarrow> (if cursor_exn x then Inr ([], None) else Inl x, c1)
      | (Inr (rows, next), c1) \<Rightarrow> (case summaries rows of Inl x \<Rightarrow> (Inl (StoreError x), c1) | Inr ss \<Rightarrow> (Inr (ss, next), c1)))"

record board =
  bd_columns :: "(string, board_card list) od"
  bd_next :: "string option"
  bd_owner :: "string option"
  bd_filtered :: bool

definition cards_of :: "(string, board_card list) od \<Rightarrow> board_card list" where
  "cards_of cols = concat (map snd cols)"

definition has_filter :: "string option \<Rightarrow> string option \<Rightarrow> string option \<Rightarrow> bool" where
  "has_filter owner status tag \<longleftrightarrow> is_set owner \<or> is_set status \<or> is_set tag"

definition show_board ::
    "page_env \<Rightarrow> string \<Rightarrow> string option \<Rightarrow> bool \<Rightarrow> (store_exn + (session_row \<times> session_state) list \<times> string option) \<times> tcfg \<Rightarrow> board shown \<times> tcfg" where
  "show_board e template owner filtered r = (case r of
     (Inl x, c1) \<Rightarrow> (uncaught x, c1)
   | (Inr (ss, next), c1) \<Rightarrow> (case display_sessions e ss c1 of
        (Inl x, c2) \<Rightarrow> (Raises x, c2)
      | (Inr cards, c2) \<Rightarrow> (Page 200 template \<lparr>bd_columns = kanban_columns (\<lambda>k. state_text (cd_summary k)) cards,
          bd_next = (if filtered then None else next), bd_owner = owner, bd_filtered = filtered\<rparr>, c2)))"

definition kanban_page :: "page_env \<Rightarrow> request \<Rightarrow> string option \<Rightarrow> string option \<Rightarrow> string option \<Rightarrow> tcfg \<Rightarrow> board shown \<times> tcfg" where
  "kanban_page e rq owner status tag c = require_session rq c (\<lambda>c.
     if \<not> (text_within 0 64 owner \<and> text_within 0 32 status \<and> text_within 0 64 tag) then (Unprocessable, c)
     else if has_filter owner status tag
     then show_board e ''kanban.html'' (effective_owner e rq owner) True (filtered_summaries e rq owner status tag (pg_size e) None c)
     else show_board e ''kanban.html'' owner False (managed_list e (pg_size e) None c))"

definition kanban_board_partial :: "page_env \<Rightarrow> request \<Rightarrow> string option \<Rightarrow> tcfg \<Rightarrow> board shown \<times> tcfg" where
  "kanban_board_partial e rq after c = require_session rq c (\<lambda>c. case managed_list e (pg_size e) after c of
     (Inl x, c1) \<Rightarrow> (if cursor_exn x then Detail 400 (pg_cursor_text e x) else uncaught x, c1)
   | (Inr r, c1) \<Rightarrow> show_board e ''_kanban_board.html'' None False (Inr r, c1))"

record list_item =
  li_id :: string
  li_owner :: "string option"
  li_status :: string
  li_submitted_at :: string
  li_tags :: "string list"
  li_backend :: string
  li_end_reason :: "string option"

definition list_item_of :: "page_env \<Rightarrow> session_row \<times> session_state \<Rightarrow> list_item" where
  "list_item_of e s = (let r = fst s in
     \<lparr>li_id = s_id r, li_owner = s_owner r, li_status = state_text s, li_submitted_at = te_iso (pg_team e) (s_submitted_at r), li_tags = s_tags r,
      li_backend = s_backend r, li_end_reason = s_end_reason r\<rparr>)"

definition query_pairs :: "(string \<times> string option) list \<Rightarrow> (string \<times> string) list" where
  "query_pairs kvs = List.map_filter (\<lambda>(k, v). case v of Some (c # cs) \<Rightarrow> Some (k, c # cs) | _ \<Rightarrow> None) kvs"

definition limit_text :: "nat \<Rightarrow> string option" where
  "limit_text limit = (if limit \<noteq> 50 then Some (str_nat limit) else None)"

definition sessions_list_view ::
    "page_env \<Rightarrow> request \<Rightarrow> string option \<Rightarrow> string option \<Rightarrow> string option \<Rightarrow> string option \<Rightarrow> nat \<Rightarrow> tcfg
     \<Rightarrow> (list_item list \<times> string option \<times> string \<times> string option) shown \<times> tcfg" where
  "sessions_list_view e rq owner status tag after limit c = require_session rq c (\<lambda>c.
     if \<not> (text_within 0 64 owner \<and> text_within 0 32 status \<and> text_within 0 64 tag \<and> text_within 0 512 after \<and> limit_ok limit) then (Unprocessable, c)
     else (case filtered_summaries e rq owner status tag limit after c of
         (Inl x, c1) \<Rightarrow> (uncaught x, c1)
       | (Inr (ss, next), c1) \<Rightarrow>
           (Page 200 (if get_header ''hx-request'' rq = Some ''true'' \<and> is_set after then ''_list_rows.html'' else ''list.html'')
              (map (list_item_of e) ss, next,
               urlencode (query_pairs [(''owner'', owner), (''status'', status), (''tag'', tag), (''limit'', limit_text limit)]),
               effective_owner e rq owner), c1)))"

section \<open>Search and the command palette\<close>

definition search_page :: "page_env \<Rightarrow> request \<Rightarrow> string option \<Rightarrow> string option \<Rightarrow> string option \<Rightarrow> string option
     \<Rightarrow> (string option \<times> string option \<times> string option \<times> string option \<times> bool) shown" where
  "search_page e rq qt owner tgs status = fst (require_session rq () (\<lambda>c.
     if \<not> (text_within 0 200 qt \<and> text_within 0 64 owner \<and> text_within 0 512 tgs \<and> text_within 0 32 status) then (Unprocessable, c)
     else (Page 200 ''search.html'' (qt, if dash_admin e rq then owner else None, tgs, status, dash_admin e rq), c)))"

record found =
  fo_id :: string
  fo_prompt :: string
  fo_owner :: "string option"
  fo_status :: string
  fo_tags :: "string list"
  fo_submitted_at :: string

definition found_of :: "page_env \<Rightarrow> session_row \<Rightarrow> found" where
  "found_of e r = \<lparr>fo_id = s_id r, fo_prompt = prompt_from_spec (pg_str e) (s_spec r), fo_owner = s_owner r, fo_status = s_status r,
     fo_tags = s_tags r, fo_submitted_at = te_iso (pg_team e) (s_submitted_at r)\<rparr>"

definition forced_owner :: "page_env \<Rightarrow> request \<Rightarrow> string option \<Rightarrow> string option" where
  "forced_owner e rq owner = (if \<not> dash_admin e rq then dashboard_label rq else if owner = Some [] then None else owner)"

definition search_results ::
    "page_env \<Rightarrow> request \<Rightarrow> string option \<Rightarrow> string option \<Rightarrow> string option \<Rightarrow> string option \<Rightarrow> string option \<Rightarrow> nat \<Rightarrow> tcfg
     \<Rightarrow> (found list \<times> string option \<times> string) shown \<times> tcfg" where
  "search_results e rq qt owner tgs status after limit c = require_session rq c (\<lambda>c.
     if \<not> (text_within 0 200 qt \<and> text_within 0 64 owner \<and> text_within 0 512 tgs \<and> text_within 0 32 status \<and> text_within 0 512 after \<and> limit_ok limit)
     then (Unprocessable, c)
     else (let w = forced_owner e rq owner in
       case search_by e \<lparr>q_text = (if is_set qt then qt else None), q_owner = w, q_tags = split_csv (case tgs of None \<Rightarrow> [] | Some t \<Rightarrow> t),
          q_status = some_list status, q_after_ts = None, q_before_ts = None\<rparr> limit after c of
         (Inl x, c1) \<Rightarrow> (if cursor_exn x then Fragment 400 ''<div class='error'>Invalid cursor.</div>'' else uncaught x, c1)
       | (Inr (rows, next), c1) \<Rightarrow> (Page 200 ''_search_results.html''
            (map (found_of e) rows, next,
             urlencode (query_pairs [(''q'', qt), (''owner'', w), (''tags'', tgs), (''status'', status), (''limit'', limit_text limit)])), c1)))"

type_synonym link = "string \<times> string \<times> string"

definition cmdk_pages :: "bool \<Rightarrow> bool \<Rightarrow> link list" where
  "cmdk_pages submitting admin =
     [(''/dashboard/overview'', ''Overview'', ''Operator dashboard''), (''/dashboard/kanban'', ''Kanban'', ''Lifecycle board''),
      (''/dashboard/list'', ''List'', ''Table view''), (''/dashboard/sessions'', ''Live feed'', ''Auto-refresh''),
      (''/dashboard/search'', ''Search'', ''Filter sessions''), (''/dashboard/favorites'', ''Favorites'', ''Starred sessions''),
      (''/dashboard/templates'', ''Templates'', ''Saved prompts''), (''/dashboard/cost'', ''Cost'', ''Per-owner spend'')]
     @ (if submitting then [(''/dashboard/me/credentials'', ''My credentials'', ''Per-user upstream keys'')] else [])
     @ (if admin then [(''/dashboard/admin/keys'', ''API keys'', ''Admin only''),
          (''/dashboard/admin/credentials'', ''Credentials'', ''Per-user upstream '' @ em_dash @ '' admin only'')] else [])"

definition cmdk_quick_actions :: "bool \<Rightarrow> link list" where
  "cmdk_quick_actions submitting = (if \<not> submitting then []
     else [(''/dashboard/new'', ''Submit new session'', ''Create from prompt or template''),
           (''/dashboard/templates'', ''Open templates'', ''Save or reuse a prompt'')])"

definition cmdk_recent_sessions ::
    "page_env \<Rightarrow> request \<Rightarrow> string option \<Rightarrow> nat \<Rightarrow> tcfg \<Rightarrow> (store_exn + (string \<times> string \<times> string option \<times> string) list) \<times> tcfg" where
  "cmdk_recent_sessions e rq qt limit c =
     (case search_by e \<lparr>q_text = (if is_set qt then qt else None), q_owner = (if dash_admin e rq then None else dashboard_label rq), q_tags = [],
          q_status = [], q_after_ts = None, q_before_ts = None\<rparr> limit None c of
        (Inl x, c1) \<Rightarrow> (if cursor_exn x then Inr [] else Inl x, c1)
      | (Inr (rows, _), c1) \<Rightarrow> (Inr (map (\<lambda>r. (s_id r, s_status r, s_owner r,
           str_strip (map (\<lambda>ch. if ch = newline_c then CHR '' '' else ch) (take 48 (prompt_from_spec (pg_str e) (s_spec r)))))) rows), c1))"

definition cmdk_shown ::
    "string \<Rightarrow> page_env \<Rightarrow> request \<Rightarrow> string option \<Rightarrow> tcfg
     \<Rightarrow> (string \<times> link list \<times> link list \<times> (string \<times> string \<times> string option \<times> string) list) shown \<times> tcfg" where
  "cmdk_shown template e rq qt c = require_session rq c (\<lambda>c.
     if \<not> text_within 0 200 qt then (Unprocessable, c)
     else (case cmdk_recent_sessions e rq qt 6 c of
         (Inl x, c1) \<Rightarrow> (uncaught x, c1)
       | (Inr recent, c1) \<Rightarrow> (Page 200 template (case qt of None \<Rightarrow> [] | Some t \<Rightarrow> t, cmdk_quick_actions (can_submit e rq),
            cmdk_pages (can_submit e rq) (dash_admin e rq), recent), c1)))"

definition cmdk_modal where "cmdk_modal = cmdk_shown ''_cmdk_modal.html''"

definition cmdk_results where "cmdk_results = cmdk_shown ''_cmdk_results.html''"

section \<open>One session\<close>

record detail_view =
  dv_row :: "session_row \<times> session_state"
  dv_frames :: "frame_row list"
  dv_prompt :: string
  dv_output :: string
  dv_numbers :: "int \<times> int \<times> rat \<times> int"
  dv_pending :: "(string \<times> string \<times> pydict) list"

definition numbers_of :: "session_row option \<Rightarrow> int \<times> int \<times> rat \<times> int" where
  "numbers_of row = (case row of None \<Rightarrow> (0, 0, 0, 0) | Some r \<Rightarrow> (s_input_tokens r, s_output_tokens r, s_cost r, s_turn_count r))"

definition session_detail_page :: "page_env \<Rightarrow> coord \<Rightarrow> request \<Rightarrow> string \<Rightarrow> tcfg \<Rightarrow> detail_view shown \<times> tcfg" where
  "session_detail_page e co rq sid c = require_session rq c (\<lambda>c. case reading (\<lambda>t. get_session sid (team_db t)) c of
     (None, c1) \<Rightarrow> (Detail 404 ''session not found'', c1)
   | (Some r, c1) \<Rightarrow> (case reading (\<lambda>t. list_frames sid 200 0 (team_db t)) c1 of (fs, c2) \<Rightarrow> (case parse_state (s_status r) of
        Inl x \<Rightarrow> (Raises x, c2)
      | Inr st \<Rightarrow> (case reading (\<lambda>t. get_session sid (team_db t)) c2 of (row, c3) \<Rightarrow> (case extract_assistant_text (pg_str e) fs of
            Inl x \<Rightarrow> (Raises x, c3)
          | Inr output \<Rightarrow> (Page 200 ''session_detail.html'' \<lparr>dv_row = (r, st), dv_frames = fs, dv_prompt = prompt_from_spec (pg_str e) (s_spec r),
                dv_output = output, dv_numbers = numbers_of row, dv_pending = map (\<lambda>(k, tl, args, _). (k, tl, args)) (pending_snapshot (Some sid) co)\<rparr>, c3))))))"

definition session_chart :: "request \<Rightarrow> string \<Rightarrow> tcfg \<Rightarrow> (string \<times> rat list) shown \<times> tcfg" where
  "session_chart rq sid c = require_session rq c (\<lambda>c. case reading (\<lambda>t. get_session sid (team_db t)) c of
     (None, c1) \<Rightarrow> (Detail 404 ''session not found'', c1)
   | (Some r, c1) \<Rightarrow> (Page 200 ''session_chart.html''
        (sid, [of_int (s_input_tokens r), of_int (s_output_tokens r), s_cost r * 1000, of_int (s_turn_count r)]), c1))"

definition session_trace_page :: "request \<Rightarrow> string \<Rightarrow> tcfg \<Rightarrow> (string \<times> string option) shown \<times> tcfg" where
  "session_trace_page rq sid c = require_session rq c (\<lambda>c. case reading (\<lambda>t. get_session sid (team_db t)) c of
     (None, c1) \<Rightarrow> (Detail 404 ''session not found'', c1)
   | (Some r, c1) \<Rightarrow> (Page 200 ''span_tree.html'' (sid, s_trace_id r), c1))"

record chart =
  ch_labels :: "string list"
  ch_input :: "int list"
  ch_output :: "int list"
  ch_cost :: "rat list"
  ch_sessions :: nat

definition kanban_chart :: "page_env \<Rightarrow> request \<Rightarrow> int \<Rightarrow> int \<Rightarrow> tcfg \<Rightarrow> chart shown \<times> tcfg" where
  "kanban_chart e rq window_s bucket_s c = require_session rq c (\<lambda>c.
     if \<not> (60 \<le> window_s \<and> window_s \<le> 86400 * 30 \<and> 15 \<le> bucket_s \<and> bucket_s \<le> 86400) then (Unprocessable, c)
     else (case reading (\<lambda>t. aggregate_tokens_by_bucket (te_now (pg_team e)) window_s bucket_s (team_db t)) c of (bs, c1) \<Rightarrow>
       (Page 200 [] \<lparr>ch_labels = map (\<lambda>b. te_iso (pg_team e) (b_start b)) bs, ch_input = map b_input bs, ch_output = map b_output bs,
          ch_cost = map (\<lambda>b. b_cost b * 1000) bs, ch_sessions = sum_list (map b_sessions bs)\<rparr>, c1)))"

definition audit_line :: "page_env \<Rightarrow> audit_row \<Rightarrow> pydict" where
  "audit_line e r = butlast (audit_view (pg_team e) r)"

definition session_audit_timeline ::
    "page_env \<Rightarrow> request \<Rightarrow> string \<Rightarrow> string option \<Rightarrow> nat \<Rightarrow> tcfg \<Rightarrow> (pydict list \<times> string option) shown \<times> tcfg" where
  "session_audit_timeline e rq sid after limit c = require_session rq c (\<lambda>c.
     if \<not> (text_within 0 512 after \<and> limit_ok limit) then (Unprocessable, c)
     else (case reading (\<lambda>t. get_session sid (team_db t)) c of
         (None, c1) \<Rightarrow> (Fragment 404 ''<div class='error'>Session not found.</div>'', c1)
       | (Some r, c1) \<Rightarrow>
           if \<not> dash_admin e rq \<and> s_owner r \<noteq> dashboard_label rq then (Fragment 403 ''<div class='error'>Forbidden.</div>'', c1)
           else (case reading (list_audit (se_codec (pg_search e)) (Some sid)
                   \<lparr>af_actor = None, af_action = None, af_target_type = None, af_target_id = None\<rparr> after limit) c1 of
               (Inl x, c2) \<Rightarrow> (if cursor_exn x then Fragment 400 ''<div class='error'>Invalid cursor.</div>'' else uncaught x, c2)
             | (Inr (rows, next), c2) \<Rightarrow> (Page 200 ''_session_audit_timeline.html'' (map (audit_line e) rows, next), c2))))"

definition session_comments_fragment ::
    "page_env \<Rightarrow> request \<Rightarrow> string \<Rightarrow> tcfg \<Rightarrow> (comment_row list \<times> string option \<times> string) shown \<times> tcfg" where
  "session_comments_fragment e rq sid c = require_session rq c (\<lambda>c. case reading (\<lambda>t. get_session sid (team_db t)) c of
     (None, c1) \<Rightarrow> (Fragment 404 ''<div class='error'>Session not found.</div>'', c1)
   | (Some _, c1) \<Rightarrow> (case reading (list_comments sid False 200) c1 of (rows, c2) \<Rightarrow>
        (Page 200 ''_session_comments.html'' (rows, dashboard_label rq, dashboard_role (pg_config e) rq), c2)))"

definition comment_edit_form :: "request \<Rightarrow> nat \<Rightarrow> tcfg \<Rightarrow> (nat \<times> string \<times> string) shown \<times> tcfg" where
  "comment_edit_form rq cid c = require_session rq c (\<lambda>c. case reading (get_comment cid) c of (found, c1) \<Rightarrow>
     (case found of
        Some r \<Rightarrow>
          if c_deleted_at r \<noteq> None then (Fragment 404 ''<li class='error'>Comment not found.</li>'', c1)
          else if Some (c_author r) \<noteq> dashboard_label rq then (Fragment 403 ''<li class='error'>Forbidden.</li>'', c1)
          else (Page 200 ''_comment_edit_form.html'' (c_id r, c_session r, c_markdown r), c1)
      | None \<Rightarrow> (Fragment 404 ''<li class='error'>Comment not found.</li>'', c1)))"

text \<open>The form of a pending decision. \<open>reply\<close> is what the coordinator made of it.\<close>

definition session_hitl_resolve ::
    "request \<Rightarrow> string \<Rightarrow> string \<Rightarrow> string \<Rightarrow> string option \<Rightarrow> store \<Rightarrow> coord \<Rightarrow> string shown \<times> coord" where
  "session_hitl_resolve rq sid req dec reason db co = require_session rq co (\<lambda>co.
     if dec \<notin> {''accept'', ''deny''} then (Detail 400 ''invalid decision'', co)
     else (case Hitl_Coordinator.resolve (full_req_id sid req) dec reason db co of
         (Inl HITLNotPending, co1) \<Rightarrow> (Detail 409 ''hitl already resolved'', co1)
       | (Inl _, co1) \<Rightarrow> (ServerError, co1)
       | (Inr _, co1) \<Rightarrow> (Fragment 200 (''<div class='hitl-resolved'>'' @ dec @ '' (req_id='' @ full_req_id sid req @ '')</div>''), co1)))"

section \<open>Own things\<close>

record favorite_view =
  fv_session :: string
  fv_prompt :: pyval
  fv_owner :: "string option"
  fv_status :: string
  fv_starred_at :: string

definition favorites_page :: "page_env \<Rightarrow> request \<Rightarrow> tcfg \<Rightarrow> (favorite_view list \<times> string option) shown \<times> tcfg" where
  "favorites_page e rq c = require_session rq c (\<lambda>c. case dashboard_label rq of
     None \<Rightarrow> (Page 200 ''favorites.html'' ([], None), c)
   | Some l \<Rightarrow> (case reading (list_favorites l 100) c of (rows, c1) \<Rightarrow>
       (Page 200 ''favorites.html'' (map (\<lambda>(f, r). \<lparr>fv_session = f_session f, fv_prompt = dget_default (s_spec r) ''prompt'' (PStr []),
          fv_owner = s_owner r, fv_status = s_status r, fv_starred_at = te_iso (pg_team e) (f_created_at f)\<rparr>) rows, Some l), c1)))"

record new_form =
  nf_prompt :: string
  nf_tags :: string
  nf_description :: string
  nf_template :: "template_row option"
  nf_error :: "string option"
  nf_choices :: "(nat \<times> string \<times> bool \<times> string) list"
  nf_actor :: "string option"
  nf_executor :: string

definition prefilled :: "string option \<Rightarrow> string option \<Rightarrow> string" where
  "prefilled given stored = (case given of Some (c # cs) \<Rightarrow> c # cs | _ \<Rightarrow> (case stored of None \<Rightarrow> [] | Some t \<Rightarrow> t))"

text \<open>What the form makes of the template asked for: a message, or the template.\<close>

definition usable_template :: "page_env \<Rightarrow> request \<Rightarrow> nat \<Rightarrow> template_row option \<Rightarrow> string + template_row" where
  "usable_template e rq tid found = (case found of
     None \<Rightarrow> Inl (''Template '' @ str_nat tid @ '' not found'')
   | Some t \<Rightarrow> if \<not> t_shared t \<and> Some (t_creator t) \<noteq> dashboard_label rq \<and> \<not> dash_admin e rq
       then Inl (''Template '' @ str_nat tid @ '' is private'') else Inr t)"

definition new_session_form ::
    "page_env \<Rightarrow> request \<Rightarrow> string option \<Rightarrow> string option \<Rightarrow> string option \<Rightarrow> nat option \<Rightarrow> tcfg \<Rightarrow> new_form shown \<times> tcfg" where
  "new_session_form e rq given tgs descr template c = require_session rq c (\<lambda>c.
     if \<not> (text_within 0 50000 given \<and> text_within 0 512 tgs \<and> text_within 0 512 descr \<and> template \<noteq> Some 0) then (Unprocessable, c)
     else (case (case template of
                   None \<Rightarrow> (Inl None, c)
                 | Some tid \<Rightarrow> (case reading (get_template tid) c of (found, c1) \<Rightarrow>
                     (case usable_template e rq tid found of Inl m \<Rightarrow> (Inl (Some m), c1) | Inr t \<Rightarrow> (Inr t, c1)))) of (tm, c1) \<Rightarrow>
       case (case dashboard_label rq of
               None \<Rightarrow> ([], c1)
             | Some l \<Rightarrow> reading (list_templates l (dash_admin e rq) False 200) c1) of (visible, c2) \<Rightarrow>
         (Page 200 ''new.html''
            \<lparr>nf_prompt = prefilled given (case tm of Inr t \<Rightarrow> Some (t_prompt t) | _ \<Rightarrow> None),
             nf_tags = prefilled tgs (case tm of Inr t \<Rightarrow> t_tags t | _ \<Rightarrow> None),
             nf_description = prefilled descr (case tm of Inr t \<Rightarrow> t_description t | _ \<Rightarrow> None),
             nf_template = (case tm of Inr t \<Rightarrow> Some t | _ \<Rightarrow> None), nf_error = (case tm of Inl m \<Rightarrow> m | _ \<Rightarrow> None),
             nf_choices = map (\<lambda>t. (t_id t, t_name t, t_shared t, t_creator t)) visible,
             nf_actor = dashboard_label rq, nf_executor = (if pg_executor e = ''inprocess'' then ''inprocess'' else ''docker'')\<rparr>, c2)))"

definition check_duplicate_prompt :: "page_env \<Rightarrow> request \<Rightarrow> string \<Rightarrow> tcfg \<Rightarrow> (string \<times> string \<times> string) list shown \<times> tcfg" where
  "check_duplicate_prompt e rq given c = require_session rq c (\<lambda>c.
     if length given > 50000 then (Unprocessable, c)
     else (case dashboard_label rq of
         None \<Rightarrow> (Fragment 200 [], c)
       | Some l \<Rightarrow>
           if length (str_strip given) < 5 then (Fragment 200 [], c)
           else (case reading (\<lambda>t. recent_same_prompt (te_now (pg_team e)) l (str_strip given) 10 (team_db t)) c of (rows, c1) \<Rightarrow>
             (if rows = [] then Fragment 200 []
              else Page 200 ''_duplicate_warning.html'' (map (\<lambda>r. (s_id r, s_status r, te_iso (pg_team e) (s_submitted_at r))) (take 3 rows)), c1))))"

definition dashboard_root :: "page_env \<Rightarrow> request \<Rightarrow> tcfg \<Rightarrow> board shown \<times> tcfg" where
  "dashboard_root e rq c = require_session rq c (\<lambda>c. case (dashboard_label rq, dash_admin e rq) of
     (Some l, False) \<Rightarrow> (Redirect 302 (''/dashboard/kanban?owner='' @ url_quote ''/'' l), c)
   | _ \<Rightarrow> kanban_page e rq None None None c)"

record overview =
  ov_live :: nat
  ov_all :: nat
  ov_input :: int
  ov_output :: int
  ov_cost :: rat
  ov_bucket_sessions :: nat
  ov_mix :: "(string, nat) od"
  ov_recent :: "(string \<times> string \<times> string option \<times> string \<times> string list) list"

definition column :: "string \<Rightarrow> (string, 's list) od \<Rightarrow> 's list" where
  "column k cols = (case map_of cols k of None \<Rightarrow> [] | Some xs \<Rightarrow> xs)"

definition status_mix :: "(session_row \<times> session_state) list \<Rightarrow> (string, nat) od" where
  "status_mix ss =
     (let cols = kanban_columns state_text ss
      in map (\<lambda>k. (k, length (column k cols))) [''queued'', ''running'', ''paused'']
         @ map (\<lambda>k. (k, length (filter (\<lambda>s. state_text s = k) (column ''terminal'' cols)))) [''completed'', ''failed'', ''cancelled'', ''interrupted''])"

definition recent_pool :: "page_env \<Rightarrow> request \<Rightarrow> (session_row \<times> session_state) list \<Rightarrow> (session_row \<times> session_state) list" where
  "recent_pool e rq ss =
     (if dash_admin e rq then ss
      else (case dashboard_label rq of None \<Rightarrow> [] | Some l \<Rightarrow> filter (\<lambda>s. s_owner (fst s) = Some l) ss))"

definition overview_page :: "page_env \<Rightarrow> request \<Rightarrow> tcfg \<Rightarrow> overview shown \<times> tcfg" where
  "overview_page e rq c = require_session rq c (\<lambda>c. case managed_list e 200 None c of
     (Inl x, c1) \<Rightarrow> (uncaught x, c1)
   | (Inr (ss, _), c1) \<Rightarrow> (case reading (\<lambda>t. aggregate_tokens_by_bucket (te_now (pg_team e)) 86400 3600 (team_db t)) c1 of (bs, c2) \<Rightarrow>
       (let cols = kanban_columns state_text ss in
        (Page 200 ''overview.html'' \<lparr>ov_live = length (column ''queued'' cols) + length (column ''running'' cols) + length (column ''paused'' cols),
           ov_all = length ss, ov_input = sum_list (map b_input bs), ov_output = sum_list (map b_output bs), ov_cost = sum_list (map b_cost bs),
           ov_bucket_sessions = sum_list (map b_sessions bs), ov_mix = status_mix ss,
           ov_recent = map (\<lambda>s. (s_id (fst s), state_text s, s_owner (fst s), te_iso (pg_team e) (s_submitted_at (fst s)), s_tags (fst s)))
             (take 5 (recent_pool e rq ss))\<rparr>, c2))))"

definition cost_page :: "page_env \<Rightarrow> request \<Rightarrow> tcfg \<Rightarrow> ((string option \<times> nat \<times> rat) list \<times> user_totals) shown \<times> tcfg" where
  "cost_page e rq c = require_session rq c (\<lambda>c. case dashboard_label rq of
     None \<Rightarrow> (Fragment 401 ''Login required'', c)
   | Some l \<Rightarrow> (case (if dash_admin e rq then reading (\<lambda>t. aggregate_cost_by_owner None None 10 ByCost (team_db t)) c
                     else apfst (filter (\<lambda>(w, _). w = Some l)) (reading (\<lambda>t. aggregate_cost_by_owner None None 200 ByCost (team_db t)) c)) of (rows, c1) \<Rightarrow>
       case reading (\<lambda>t. summary_for_user l ''this_month'' (te_now (pg_team e)) (team_db t)) c1 of (own, c2) \<Rightarrow>
         (Page 200 ''cost.html'' (rows, own), c2)))"

definition templates_page :: "page_env \<Rightarrow> request \<Rightarrow> tcfg \<Rightarrow> (template_row \<times> bool) list shown \<times> tcfg" where
  "templates_page e rq c = require_session rq c (\<lambda>c. case dashboard_label rq of
     None \<Rightarrow> (Fragment 401 ''Login required'', c)
   | Some l \<Rightarrow> (case reading (list_templates l (dash_admin e rq) False 200) c of (rows, c1) \<Rightarrow>
       (Page 200 ''templates.html'' (map (\<lambda>r. (r, t_creator r = l)) rows), c1)))"

section \<open>Keys and credentials\<close>

definition forbidden_mark :: "string \<Rightarrow> string \<Rightarrow> string" where
  "forbidden_mark tag who = ''<'' @ tag @ '' class='error'>Forbidden '' @ em_dash @ '' '' @ who @ '' only.</'' @ tag @ ''>''"

text \<open>\<open>keys\<close>: the key table, if the store is attached.\<close>

definition admin_keys_page :: "page_env \<Rightarrow> request \<Rightarrow> key_row list option \<Rightarrow> (key_row \<times> bool \<times> bool) list shown" where
  "admin_keys_page e rq keys = fst (require_session rq () (\<lambda>c. case dashboard_label rq of
     None \<Rightarrow> (Fragment 401 ''Login required'', c)
   | Some l \<Rightarrow>
       if \<not> dash_admin e rq then (Fragment 403 (forbidden_mark ''div'' ''admin''), c)
       else (Page 200 ''admin_keys.html'' (case keys of None \<Rightarrow> []
          | Some rows \<Rightarrow> map (\<lambda>r. (r, k_revoked_at r = None, k_label r = l)) (list_keys True 200 rows)), c)))"

definition glyph_text :: "glyph list \<Rightarrow> string" where
  "glyph_text gs = concat (map (\<lambda>g. case g of Bullet \<Rightarrow> [CHR 0xE2, CHR 0x80, CHR 0xA2] | Plain ch \<Rightarrow> [ch]) gs)"

record cred_view =
  cv_user :: string
  cv_env :: string
  cv_masked :: string
  cv_bricked :: bool
  cv_updated_at :: string
  cv_by :: string
  cv_notes :: "string option"

definition cred_view_of :: "cred_env \<Rightarrow> (string, string) od \<Rightarrow> cred_row \<Rightarrow> cred_view" where
  "cred_view_of ce values r = (let pt = map_of values (cr_env r) in
     \<lparr>cv_user = cr_user r, cv_env = cr_env r, cv_masked = (if pt = None then ''(bricked)'' else glyph_text (mask_credential_value pt)),
      cv_bricked = (pt = None), cv_updated_at = ce_iso ce (cr_updated_at r), cv_by = cr_by r, cv_notes = cr_notes r\<rparr>)"

text \<open>The rows and whether the feature is disabled. The two queries of a page are taken to read the same table.\<close>

definition me_credentials_page :: "page_env \<Rightarrow> cred_env \<Rightarrow> request \<Rightarrow> cred_row list \<Rightarrow> (cred_view list \<times> bool) shown" where
  "me_credentials_page e ce rq rows = fst (require_session rq () (\<lambda>c. case dashboard_label rq of
     None \<Rightarrow> (Fragment 401 ''Login required'', c)
   | Some l \<Rightarrow>
       if rank (dashboard_role (pg_config e) rq) < rank ''submitter'' then (Fragment 403 (forbidden_mark ''div'' ''submitter+''), c)
       else (Page 200 ''me_credentials.html''
          (if ce_cipher ce = None then [] else map (cred_view_of ce (get_for_user (ce_cipher ce) l rows)) (list_for_user l rows), ce_cipher ce = None), c)))"

record cred_admin =
  ca_rows :: "cred_view list"
  ca_bricked :: "(string \<times> string \<times> string \<times> string) list"
  ca_disabled :: bool
  ca_filter :: string
  ca_choices :: "string list"

definition label_choices :: "config \<Rightarrow> cred_row list \<Rightarrow> string list" where
  "label_choices cf rows = sort (remdups (map cr_user rows @ map dash_label (od_keys (dashboard_users cf))
     @ od_keys (parse_role_mapping (role_mapping_raw cf)) @ [LEGACY_ADMIN_LABEL]))"

definition admin_credentials_page :: "page_env \<Rightarrow> cred_env \<Rightarrow> request \<Rightarrow> string option \<Rightarrow> cred_row list \<Rightarrow> cred_admin shown" where
  "admin_credentials_page e ce rq user_label rows = fst (require_session rq () (\<lambda>c. case dashboard_label rq of
     None \<Rightarrow> (Fragment 401 ''Login required'', c)
   | Some l \<Rightarrow>
       if \<not> dash_admin e rq then (Fragment 403 (forbidden_mark ''div'' ''admin''), c)
       else (let f = str_strip (case user_label of None \<Rightarrow> [] | Some t \<Rightarrow> t); wanted = (\<lambda>r. f = [] \<or> cr_user r = f) in
         (Page 200 ''admin_credentials.html''
            (if ce_cipher ce = None then \<lparr>ca_rows = [], ca_bricked = [], ca_disabled = True, ca_filter = f, ca_choices = []\<rparr>
             else \<lparr>ca_rows = map (\<lambda>r. cred_view_of ce (get_for_user (ce_cipher ce) (cr_user r) rows) r) (filter wanted (list_all_rows rows)),
                ca_bricked = map (\<lambda>r. (cr_user r, cr_env r, cr_fp r, ce_iso ce (cr_updated_at r))) (filter wanted (list_bricked (ce_cipher ce) rows)),
                ca_disabled = False, ca_filter = f, ca_choices = label_choices (pg_config e) (list_all_rows rows)\<rparr>), c))))"

definition admin_creds_cell_guard :: "page_env \<Rightarrow> cred_env \<Rightarrow> request \<Rightarrow> string shown + string" where
  "admin_creds_cell_guard e ce rq = (case dashboard_label rq of
     None \<Rightarrow> Inl (Fragment 401 ''<span class='error'>Login required</span>'')
   | Some l \<Rightarrow>
       if \<not> dash_admin e rq then Inl (Fragment 403 (forbidden_mark ''span'' ''admin''))
       else if ce_cipher ce = None then Inl (Fragment 503 ''<span class='error'>Feature disabled.</span>'')
       else Inr l)"

definition cell_button :: "string \<Rightarrow> string \<Rightarrow> string \<Rightarrow> string \<Rightarrow> string \<Rightarrow> string \<Rightarrow> string" where
  "cell_button css action user env confirm caption =
     ''<button type='' @ [quote_c] @ ''button'' @ [quote_c] @ '' class='' @ [quote_c] @ css @ [quote_c]
     @ '' hx-get='' @ [quote_c] @ ''/dashboard/admin/credentials/cell/'' @ action @ ''?user='' @ url_quote [] user @ ''&env='' @ url_quote [] env @ [quote_c]
     @ '' hx-target='' @ [quote_c] @ ''closest td'' @ [quote_c] @ '' hx-swap='' @ [quote_c] @ ''innerHTML'' @ [quote_c] @ confirm @ ''>'' @ caption @ ''</button>''"

definition admin_creds_mask_button :: "string \<Rightarrow> string \<Rightarrow> string \<Rightarrow> string" where
  "admin_creds_mask_button user env shown_mask =
     ''<code class='' @ [quote_c] @ ''cred-mask'' @ [quote_c] @ '' title='' @ [quote_c] @ ''Last 4 chars only '' @ em_dash
     @ '' full value is never echoed back.'' @ [quote_c] @ ''>'' @ html_escape shown_mask @ ''</code> ''
     @ cell_button ''reveal-btn'' ''reveal'' user env ('' hx-confirm='' @ [quote_c] @ ''Reveal plaintext for '' @ html_escape user @ '' / '' @ html_escape env
         @ ''? This action is logged.'' @ [quote_c]) ''Reveal''"

definition reveal_meta :: "string \<Rightarrow> string \<Rightarrow> string \<Rightarrow> pydict" where
  "reveal_meta user env v =
     [(PStr ''env_name'', PStr env), (PStr ''value_length_class'', PStr (length_class v)), (PStr ''victim_label'', PStr user), (PStr ''self_service'', PBool False)]"

definition plaintext_cell :: "string \<Rightarrow> string \<Rightarrow> string \<Rightarrow> string" where
  "plaintext_cell user env v = ''<code class='' @ [quote_c] @ ''cred-plaintext'' @ [quote_c] @ ''>'' @ html_escape v @ ''</code> ''
     @ cell_button ''hide-btn'' ''mask'' user env [] ''Hide''"

definition admin_credentials_reveal_cell ::
    "page_env \<Rightarrow> cred_env \<Rightarrow> request \<Rightarrow> string \<Rightarrow> string \<Rightarrow> cred_world \<Rightarrow> string shown \<times> cred_world" where
  "admin_credentials_reveal_cell e ce rq user env w = require_session rq w (\<lambda>w. case admin_creds_cell_guard e ce rq of
     Inl r \<Rightarrow> (r, w)
   | Inr l \<Rightarrow>
       if env \<notin> set ALLOWED_ENV_NAMES then (Fragment 400 ''<span class='error'>env_name not allowed</span>'', w)
       else (case map_of (get_for_user (ce_cipher ce) user (cw_rows w)) env of
           None \<Rightarrow> (Fragment 404 ''<span class='error'>not found / bricked</span>'', w)
         | Some v \<Rightarrow>
             (case ce_audit ce of
                   None \<Rightarrow> (Fragment 200 (plaintext_cell user env v), w)
                 | Some works \<Rightarrow> if works
                     then (Fragment 200 (plaintext_cell user env v), w\<lparr>cw_team := snd (record_audit (ce_alloc ce) (ce_now ce) l ''user_credential_admin_reveal''
                       (Some ''user_credential'') (Some (user @ ''/'' @ env)) (reveal_meta user env v) None (cw_team w))\<rparr>)
                     else (ServerError, w))))"

definition bricked_badge :: string where
  "bricked_badge = ''<span class='' @ [quote_c] @ ''badge'' @ [quote_c] @ '' style='' @ [quote_c] @ ''background:#fef3c7;color:#b45309;'' @ [quote_c]
     @ '' title='' @ [quote_c] @ ''Encrypted with a previous RELAY_CREDENTIALS_ENCRYPTION_KEY; re-enter to fix.'' @ [quote_c] @ ''>bricked</span>''"

definition admin_credentials_mask_cell :: "page_env \<Rightarrow> cred_env \<Rightarrow> request \<Rightarrow> string \<Rightarrow> string \<Rightarrow> cred_row list \<Rightarrow> string shown" where
  "admin_credentials_mask_cell e ce rq user env rows = fst (require_session rq () (\<lambda>c. case admin_creds_cell_guard e ce rq of
     Inl r \<Rightarrow> (r, c)
   | Inr l \<Rightarrow>
       if env \<notin> set ALLOWED_ENV_NAMES then (Fragment 400 ''<span class='error'>env_name not allowed</span>'', c)
       else (case map_of (get_for_user (ce_cipher ce) user rows) env of
           None \<Rightarrow> (Fragment 200 bricked_badge, c)
         | Some v \<Rightarrow> (Fragment 200 (admin_creds_mask_button user env (glyph_text (mask_credential_value (Some v)))), c))))"

section \<open>The event stream of the board\<close>

text \<open>
  Three tasks move what the bus hands out for their topic into one queue; the generator takes from it, or says it is alive after five seconds with
  nothing to take. A task whose item does not fit holds it. \<open>ks_started\<close>: an asynchronous generator that never ran has no \<open>finally\<close> to run.
\<close>

record text_env =
  te_float :: "pyfloat \<Rightarrow> string"
  te_stamp :: "int \<Rightarrow> string"
  te_str :: "pyval \<Rightarrow> string"

definition STREAM_TOPICS :: "string list" where
  "STREAM_TOPICS = [''SessionCreated'', ''SessionStateChanged'', ''SessionCompleted'']"

definition stream_event :: "text_env \<Rightarrow> bus_item \<Rightarrow> string \<times> pyval" where
  "stream_event te x = (case x of
     Typed ev \<Rightarrow> (class_name (body ev), PDict ((PStr ''event_id'', PStr (event_id ev)) # (PStr ''occurred_at'', PStr (te_stamp te (occurred_at ev))) # event_payload ev))
   | Legacy (PDict d) \<Rightarrow> (''frame'', PDict d)
   | Legacy v \<Rightarrow> (''frame'', PDict [(PStr ''value'', PStr (str_py (te_str te) v))]))"

definition feed_chunk :: "text_env \<Rightarrow> bus_item \<Rightarrow> py_exn + string" where
  "feed_chunk te x = (case stream_event te x of (k, v) \<Rightarrow>
     map_sum id (\<lambda>t. ''event: kanban-update'' @ [newline_c] @ ''data: '' @ t @ [newline_c, newline_c])
       (json_dumps (te_float te) '' '' (PDict [(PStr ''class'', PStr k), (PStr ''event'', v)])))"

datatype stream_state = Streaming | Returned | Crashed py_exn

record kanban_feed =
  ks_ids :: "nat list"
  ks_started :: "nat \<Rightarrow> bool"
  ks_hand :: "nat \<Rightarrow> bus_item option"
  ks_queue :: "bus_item list"
  ks_out :: "string list"
  ks_max :: "nat option"
  ks_state :: stream_state

definition QUEUE_SIZE :: nat where
  "QUEUE_SIZE = 256"

definition emit_chunk :: "string \<Rightarrow> kanban_feed \<Rightarrow> kanban_feed" where
  "emit_chunk t s = (let s1 = s\<lparr>ks_out := ks_out s @ [t]\<rparr> in
     case ks_max s of
       Some n \<Rightarrow> if length (ks_out s1) \<ge> n then s1\<lparr>ks_state := Returned\<rparr> else s1
     | None \<Rightarrow> s1)"

text \<open>The \<open>finally\<close> block.\<close>

definition feed_closed :: "kanban_feed \<Rightarrow> 's bus \<Rightarrow> 's bus" where
  "feed_closed s b = fold (\<lambda>k. if ks_started s k then unsubscribe (STREAM_TOPICS ! k) (ks_ids s ! k) else id) [0, 1, 2] b"

definition settle_feed :: "kanban_feed \<times> 's bus \<Rightarrow> kanban_feed \<times> 's bus" where
  "settle_feed c = (if ks_state (fst c) = Streaming then c else (fst c, feed_closed (fst c) (snd c)))"

definition open_feed :: "nat option \<Rightarrow> 's bus \<Rightarrow> kanban_feed \<times> 's bus" where
  "open_feed mx b =
     (let (i, b1) = subscribe (STREAM_TOPICS ! 0) 1000 b; (j, b2) = subscribe (STREAM_TOPICS ! 1) 1000 b1; (k, b3) = subscribe (STREAM_TOPICS ! 2) 1000 b2
      in settle_feed (emit_chunk ('': kanban-stream-connected'' @ [newline_c, newline_c])
        \<lparr>ks_ids = [i, j, k], ks_started = (\<lambda>_. False), ks_hand = (\<lambda>_. None), ks_queue = [], ks_out = [], ks_max = mx, ks_state = Streaming\<rparr>, b3))"

datatype feed_move = Drain nat | Resume | Leave

definition put_item :: "nat \<Rightarrow> bus_item \<Rightarrow> kanban_feed \<Rightarrow> kanban_feed" where
  "put_item k x s = (if length (ks_queue s) < QUEUE_SIZE
     then s\<lparr>ks_queue := ks_queue s @ [x], ks_hand := (ks_hand s)(k := None)\<rparr>
     else s\<lparr>ks_hand := (ks_hand s)(k := Some x)\<rparr>)"

definition drain_feed :: "nat \<Rightarrow> kanban_feed \<times> 's bus \<Rightarrow> kanban_feed \<times> 's bus" where
  "drain_feed k c = (let s = (fst c)\<lparr>ks_started := (ks_started (fst c))(k := True)\<rparr> in
     case ks_hand s k of
       Some x \<Rightarrow> (put_item k x s, snd c)
     | None \<Rightarrow> (case iter_next (STREAM_TOPICS ! k) (ks_ids s ! k) (snd c) of
           (Yield x, b) \<Rightarrow> (put_item k x s, b)
         | (_, b) \<Rightarrow> (s, b)))"

definition next_chunk :: "text_env \<Rightarrow> kanban_feed \<Rightarrow> kanban_feed" where
  "next_chunk te s = (case ks_queue s of
     [] \<Rightarrow> emit_chunk ('': keep-alive'' @ [newline_c, newline_c]) s
   | x # xs \<Rightarrow> (case feed_chunk te x of
         Inl ex \<Rightarrow> s\<lparr>ks_queue := xs, ks_state := Crashed ex\<rparr>
       | Inr t \<Rightarrow> emit_chunk t (s\<lparr>ks_queue := xs\<rparr>)))"

fun feed_step :: "text_env \<Rightarrow> feed_move \<Rightarrow> kanban_feed \<times> 's bus \<Rightarrow> kanban_feed \<times> 's bus" where
  "feed_step te (Drain k) c = (if ks_state (fst c) = Streaming \<and> k < 3 then drain_feed k c else c)"
| "feed_step te Resume c = (if ks_state (fst c) = Streaming then settle_feed (next_chunk te (fst c), snd c) else c)"
| "feed_step te Leave c = (if ks_state (fst c) = Streaming then settle_feed ((fst c)\<lparr>ks_state := Returned\<rparr>, snd c) else c)"

definition feed_run :: "text_env \<Rightarrow> feed_move list \<Rightarrow> kanban_feed \<times> 's bus \<Rightarrow> kanban_feed \<times> 's bus" where
  "feed_run te = fold (feed_step te)"

definition chunk_limit :: "request \<Rightarrow> nat option" where
  "chunk_limit rq = (case get_header ''x-test-max-chunks'' rq of
     None \<Rightarrow> None
   | Some h \<Rightarrow> (case int_of_str h of Inl _ \<Rightarrow> None | Inr n \<Rightarrow> Some (nat (max 1 n))))"

definition kanban_stream :: "request \<Rightarrow> 's bus \<Rightarrow> kanban_feed shown \<times> 's bus" where
  "kanban_stream rq b = require_session rq b (\<lambda>b. case open_feed (chunk_limit rq) b of (s, b1) \<Rightarrow> (Page 200 ''text/event-stream'' s, b1))"

section \<open>Links, boards and excerpts\<close>

definition hex_up :: "char \<Rightarrow> nat" where
  "hex_up c = (let n = of_char c in if n \<le> 57 then n - 48 else n - 55)"

text \<open>What a browser reads from a quoted text.\<close>

fun unquote :: "string \<Rightarrow> string" where
  "unquote [] = []"
| "unquote [c] = [c]"
| "unquote [c, d] = [c, d]"
| "unquote (c # h # l # cs) = (if c = CHR ''%'' then char_of (16 * hex_up h + hex_up l) # unquote cs else c # unquote (h # l # cs))"

lemma unquote_plain: "c \<noteq> CHR ''%'' \<Longrightarrow> unquote (c # cs) = c # unquote cs"
  by (cases cs rule: unquote.cases) auto

lemma hex_up_upper: "k < 16 \<Longrightarrow> hex_up (upper_hex k) = k"
  by (auto simp: hex_up_def upper_hex_def Let_def)

lemma unquote_percent: "unquote (percent c @ cs) = c # unquote cs"
proof -
  have "of_char c < (256 :: nat)" by (rule nat_of_char_less_256)
  then have "(of_char c :: nat) div 16 < 16" by linarith
  then show ?thesis by (simp add: percent_def Let_def hex_up_upper)
qed

lemma unquote_quoted: "CHR ''%'' \<notin> set safe \<Longrightarrow> unquote (url_quote safe s) = s"
proof (induction s)
  case Nil
  then show ?case by (simp add: url_quote_def)
next
  case (Cons c s)
  have "\<not> always_safe (CHR ''%'')" by (simp add: always_safe_def)
  with Cons have "unquote ([c] @ url_quote safe s) = c # s" if "always_safe c \<or> c \<in> set safe"
    using that by (metis append_Cons append_Nil unquote_plain)
  with Cons show ?case by (auto simp: url_quote_def unquote_percent)
qed

text \<open>The landing page of a user below admin is the board with the own label as the owner typed in.\<close>

lemma root_links_own:
  "logged_in rq \<Longrightarrow> dashboard_label rq = Some l \<Longrightarrow> \<not> dash_admin e rq \<Longrightarrow>
     \<exists>t. dashboard_root e rq c = (Redirect 302 (''/dashboard/kanban?owner='' @ t), c) \<and> unquote t = l"
  by (intro exI [of _ "url_quote ''/'' l"]) (simp add: dashboard_root_def require_session_def unquote_quoted)

lemma column_of_cases: "column_of t \<in> {''queued'', ''running'', ''paused'', ''terminal''}"
  by (simp add: column_of_def)

text \<open>Every session stands in exactly one column, in the order of the list.\<close>

lemma columns_partition: "mset (concat (map snd (kanban_columns status xs))) = mset xs"
proof (induction xs)
  case Nil
  then show ?case by (simp add: kanban_columns_def)
next
  case (Cons x xs)
  then show ?case using column_of_cases [of "status x"] by (auto simp: kanban_columns_def)
qed

lemma cards_partition: "set (cards_of (kanban_columns status xs)) = set xs"
  unfolding cards_of_def by (metis columns_partition set_mset_mset)

lemma rstrip_length: "length (rstrip s) \<le> length s"
  using length_dropWhile_le [of is_space "rev s"] by (simp add: rstrip_def)

lemma excerpt_short: "length (excerpt (Suc n) t) \<le> n + 3"
  using rstrip_length [of "take n (joined_with '' '' (words t []))"] by (simp add: excerpt_def Let_def ellipsis_def)

section \<open>Who sees what\<close>

lemmas shown_defs = require_session_def uncaught_def

lemma summaries_rows: "summaries rows = Inr ss \<Longrightarrow> map fst ss = rows"
  by (induction rows arbitrary: ss) (auto simp: bind_sum_def split: sum.splits)

lemma reading_at: "\<exists>t c2. reading f c = (f t, c2)"
  by (rule reading_cases [of f c]) blast

lemma search_by_rows:
  assumes "search_by e f limit after c = (Inr (rows, next), c1)" "r \<in> set rows"
  shows "case q_owner f of None \<Rightarrow> True | Some w \<Rightarrow> s_owner r = Some w"
proof -
  let ?g = "\<lambda>t :: team. search_sessions (se_codec (pg_search e)) (se_hash (pg_search e)) (se_ci (pg_search e)) (se_spec_text (pg_search e))
      (se_tags_text (pg_search e)) f limit after (team_db t)"
  obtain t c2 where "reading ?g c = (?g t, c2)" using reading_at [of ?g c] by blast
  then have "?g t = Inr (rows, next)" using assms(1) by (simp add: search_by_def Let_def)
  then have "search_selects (se_ci (pg_search e)) (se_spec_text (pg_search e)) (se_tags_text (pg_search e)) f r"
    using cursor_page_rows assms(2) unfolding search_sessions_def by blast
  then show ?thesis by (simp add: search_selects_def split: option.splits)
qed

lemma filtered_own:
  assumes "filtered_summaries e rq owner status tag limit after c = (Inr (ss, next), c1)" "dashboard_label rq = Some l" "\<not> dash_admin e rq" "s \<in> set ss"
  shows "s_owner (fst s) = Some l"
proof -
  let ?f = "\<lparr>q_text = None, q_owner = Some l, q_tags = some_list tag, q_status = some_list status, q_after_ts = None, q_before_ts = None\<rparr>"
  have f: "effective_owner e rq owner = Some l" using assms(2,3) by (simp add: effective_owner_def)
  then obtain rows where r: "search_by e ?f limit after c = (Inr (rows, next), c1)" "summaries rows = Inr ss"
    using assms(1,4) by (auto simp: filtered_summaries_def split: prod.splits sum.splits if_splits)
  have "fst s \<in> set rows" using summaries_rows [OF r(2)] assms(4) by auto
  then show ?thesis using search_by_rows [OF r(1)] by simp
qed

lemma card_summary [simp]: "cd_summary (kanban_card e s row output) = s"
  by (simp add: kanban_card_def Let_def)

lemma displayed: "display_sessions e ss c = (Inr cards, c1) \<Longrightarrow> map cd_summary cards = ss"
proof (induction ss arbitrary: c cards c1)
  case Nil
  then show ?case by simp
next
  case (Cons s ss)
  obtain row c1' where a: "reading (\<lambda>t. get_session (s_id (fst s)) (team_db t)) c = (row, c1')" by (rule prod.exhaust)
  obtain fs c2 where b: "(if state_text s \<in> {''completed'', ''failed'', ''cancelled'', ''interrupted''}
      then reading (\<lambda>t. list_frames (s_id (fst s)) 200 0 (team_db t)) c1' else ([], c1')) = (fs, c2)" by (rule prod.exhaust)
  from Cons.prems obtain said cs where "display_sessions e ss c2 = (Inr cs, c1)" "cards = kanban_card e s row said # cs"
    unfolding display_sessions.simps a prod.case b by (auto split: prod.splits sum.splits)
  then show ?case using Cons.IH by simp
qed

lemma board_shows:
  assumes "fst (show_board e template owner filtered (Inr (ss, next), c)) = Page st t b"
  shows "cd_summary ` set (cards_of (bd_columns b)) = set ss"
proof -
  obtain cards c1 where d: "display_sessions e ss c = (Inr cards, c1)" and b: "bd_columns b = kanban_columns (\<lambda>k. state_text (cd_summary k)) cards"
    using assms by (auto simp: show_board_def split: prod.splits sum.splits)
  show ?thesis using displayed [OF d] b by (auto simp: cards_partition)
qed

lemma list_view_own:
  assumes "fst (sessions_list_view e rq owner status tag after limit c) = Page st t (its, x)" "dashboard_label rq = Some l" "\<not> dash_admin e rq"
    and "it \<in> set its"
  shows "li_owner it = Some l"
proof -
  obtain r c1 where f: "filtered_summaries e rq owner status tag limit after c = (r, c1)" by (rule prod.exhaust)
  then obtain ss "next" where r: "r = Inr (ss, next)" "its = map (list_item_of e) ss"
    using assms(1) by (cases r) (auto simp: sessions_list_view_def shown_defs split: if_splits store_exn.splits)
  then obtain s where s: "s \<in> set ss" "it = list_item_of e s" using assms(4) by auto
  have "s_owner (fst s) = Some l" using filtered_own [OF f [unfolded r(1)] assms(2,3) s(1)] .
  then show ?thesis using s(2) by (simp add: list_item_of_def Let_def split: prod.splits)
qed

lemma board_own:
  assumes "fst (kanban_page e rq owner status tag c) = Page st t b" "has_filter owner status tag" "dashboard_label rq = Some l" "\<not> dash_admin e rq"
    and "k \<in> set (cards_of (bd_columns b))"
  shows "s_owner (fst (cd_summary k)) = Some l"
proof -
  obtain r c1 where f: "filtered_summaries e rq owner status tag (pg_size e) None c = (r, c1)" by (rule prod.exhaust)
  have b: "fst (show_board e ''kanban.html'' (effective_owner e rq owner) True (r, c1)) = Page st t b"
    using assms(1,2) f by (auto simp: kanban_page_def shown_defs split: if_splits)
  then obtain ss "next" where r: "r = Inr (ss, next)" by (auto simp: show_board_def uncaught_def split: sum.splits store_exn.splits)
  then have "cd_summary k \<in> set ss" using board_shows [of e "''kanban.html''" "effective_owner e rq owner" True ss "next" c1 st t b] b assms(5) by auto
  then show ?thesis using filtered_own [OF f [unfolded r] assms(3,4)] by simp
qed

lemma results_own:
  assumes "fst (search_results e rq qt owner tgs status after limit c) = Page st t (its, x)" "dashboard_label rq = Some l" "\<not> dash_admin e rq"
    and "it \<in> set its"
  shows "fo_owner it = Some l"
proof -
  let ?f = "\<lparr>q_text = (if is_set qt then qt else None), q_owner = Some l, q_tags = split_csv (case tgs of None \<Rightarrow> [] | Some t \<Rightarrow> t),
          q_status = some_list status, q_after_ts = None, q_before_ts = None\<rparr>"
  have w: "forced_owner e rq owner = Some l" using assms(2,3) by (simp add: forced_owner_def)
  obtain r c1 where s: "search_by e ?f limit after c = (r, c1)" by (rule prod.exhaust)
  then obtain rows "next" where r: "r = Inr (rows, next)" "its = map (found_of e) rows"
    using assms(1) w by (auto simp: search_results_def shown_defs Let_def split: if_splits sum.splits store_exn.splits)
  then show ?thesis using search_by_rows [OF s [unfolded r(1)]] assms(4) by (auto simp: found_of_def)
qed

lemma palette_own:
  assumes "fst (cmdk_shown template e rq qt c) = Page st t (u, acts, links, recent)" "dashboard_label rq = Some l" "\<not> dash_admin e rq" "it \<in> set recent"
  shows "fst (snd (snd it)) = Some l"
proof -
  let ?f = "\<lparr>q_text = (if is_set qt then qt else None), q_owner = Some l, q_tags = [], q_status = [], q_after_ts = None, q_before_ts = None\<rparr>"
  obtain r c1 where s: "search_by e ?f 6 None c = (r, c1)" by (rule prod.exhaust)
  show ?thesis
  proof (cases r)
    case (Inl x)
    then show ?thesis using assms s by (auto simp: cmdk_shown_def cmdk_recent_sessions_def shown_defs split: if_splits store_exn.splits)
  next
    case (Inr p)
    obtain rows "next" where p: "p = (rows, next)" by (cases p)
    then show ?thesis using assms s Inr search_by_rows [OF s [unfolded Inr p]]
      by (auto simp: cmdk_shown_def cmdk_recent_sessions_def shown_defs split: if_splits)
  qed
qed

lemma overview_own:
  assumes "fst (overview_page e rq c) = Page st t v" "dashboard_label rq = Some l" "\<not> dash_admin e rq" "it \<in> set (ov_recent v)"
  shows "fst (snd (snd it)) = Some l"
  using assms by (auto simp: overview_page_def shown_defs Let_def recent_pool_def split: if_splits prod.splits sum.splits store_exn.splits dest!: in_set_takeD)

lemma cost_own:
  assumes "fst (cost_page e rq c) = Page st t (rows, own)" "dashboard_label rq = Some l" "\<not> dash_admin e rq" "r \<in> set rows"
  shows "fst r = Some l"
  using assms by (auto simp: cost_page_def shown_defs apfst_def map_prod_def split: if_splits prod.splits)

lemma templates_own:
  assumes "fst (templates_page e rq c) = Page st t rows" "dashboard_label rq = Some l" "\<not> dash_admin e rq" "r \<in> set rows"
  shows "t_creator (fst r) = l \<or> t_shared (fst r)"
  using assms by (auto simp: templates_page_def shown_defs list_templates_def reading_def await_def Let_def split: if_splits prod.splits list.splits dest!: in_set_takeD)

lemma admin_pages_refused:
  assumes "logged_in rq" "dashboard_label rq = Some l" "\<not> dash_admin e rq"
  shows "admin_keys_page e rq keys = Fragment 403 (forbidden_mark ''div'' ''admin'')"
    and "admin_credentials_page e ce rq ul rows = Fragment 403 (forbidden_mark ''div'' ''admin'')"
    and "admin_credentials_reveal_cell e ce rq user env w = (Fragment 403 (forbidden_mark ''span'' ''admin''), w)"
    and "admin_credentials_mask_cell e ce rq user env rows = Fragment 403 (forbidden_mark ''span'' ''admin'')"
  using assms by (simp_all add: admin_keys_page_def admin_credentials_page_def admin_credentials_reveal_cell_def admin_credentials_mask_cell_def
      admin_creds_cell_guard_def require_session_def)

lemma timeline_refused:
  assumes "logged_in rq" "dashboard_label rq = Some l" "\<not> dash_admin e rq" "get_session sid (team_db s) = Some r" "s_owner r \<noteq> Some l"
    and "text_within 0 512 after" "limit_ok limit"
  shows "session_audit_timeline e rq sid after limit (s, []) = (Fragment 403 ''<div class='error'>Forbidden.</div>'', (s, []))"
  using assms by (simp add: session_audit_timeline_def require_session_def reading_def await_def)

text \<open>
  C37: whatever a user below admin types, and whatever other tasks do in between, the list view, the filtered board, the search, the palette,
  the overview's recent sessions and the cost page show only rows owned by the user's label, the templates page only own and shared ones,
  and the pages of keys and stored credentials are refused without a change.
\<close>

theorem dashboard_scoped:
  assumes "logged_in rq" "dashboard_label rq = Some l" "\<not> dash_admin e rq"
  shows "(\<forall>st t its x. fst (sessions_list_view e rq owner status tag after limit c) = Page st t (its, x) \<longrightarrow> li_owner ` set its \<subseteq> {Some l})
    \<and> (\<forall>st t b. has_filter owner status tag \<longrightarrow> fst (kanban_page e rq owner status tag c) = Page st t b \<longrightarrow>
         (\<lambda>k. s_owner (fst (cd_summary k))) ` set (cards_of (bd_columns b)) \<subseteq> {Some l})
    \<and> (\<forall>st t its x. fst (search_results e rq qt owner tgs status after limit c) = Page st t (its, x) \<longrightarrow> fo_owner ` set its \<subseteq> {Some l})
    \<and> (\<forall>st t u acts links recent. fst (cmdk_shown template e rq qt c) = Page st t (u, acts, links, recent) \<longrightarrow>
         (\<lambda>it. fst (snd (snd it))) ` set recent \<subseteq> {Some l})
    \<and> (\<forall>st t v. fst (overview_page e rq c) = Page st t v \<longrightarrow> (\<lambda>it. fst (snd (snd it))) ` set (ov_recent v) \<subseteq> {Some l})
    \<and> (\<forall>st t rows own. fst (cost_page e rq c) = Page st t (rows, own) \<longrightarrow> fst ` set rows \<subseteq> {Some l})
    \<and> (\<forall>st t rows. fst (templates_page e rq c) = Page st t rows \<longrightarrow> (\<forall>r \<in> set rows. t_creator (fst r) = l \<or> t_shared (fst r)))
    \<and> admin_keys_page e rq keys = Fragment 403 (forbidden_mark ''div'' ''admin'')
    \<and> admin_credentials_page e ce rq ul crs = Fragment 403 (forbidden_mark ''div'' ''admin'')
    \<and> admin_credentials_reveal_cell e ce rq user env w = (Fragment 403 (forbidden_mark ''span'' ''admin''), w)
    \<and> admin_credentials_mask_cell e ce rq user env crs = Fragment 403 (forbidden_mark ''span'' ''admin'')"
proof (intro conjI allI impI)
  show "li_owner ` set its \<subseteq> {Some l}" if "fst (sessions_list_view e rq owner status tag after limit c) = Page st t (its, x)" for st t its x
    using list_view_own [OF that assms(2,3)] by blast
  show "(\<lambda>k. s_owner (fst (cd_summary k))) ` set (cards_of (bd_columns b)) \<subseteq> {Some l}"
    if "has_filter owner status tag" "fst (kanban_page e rq owner status tag c) = Page st t b" for st t b
    using board_own [OF that(2,1) assms(2,3)] by blast
  show "fo_owner ` set its \<subseteq> {Some l}" if "fst (search_results e rq qt owner tgs status after limit c) = Page st t (its, x)" for st t its x
    using results_own [OF that assms(2,3)] by blast
  show "(\<lambda>it. fst (snd (snd it))) ` set recent \<subseteq> {Some l}" if "fst (cmdk_shown template e rq qt c) = Page st t (u, acts, links, recent)" for st t u acts links recent
    using palette_own [OF that assms(2,3)] by blast
  show "(\<lambda>it. fst (snd (snd it))) ` set (ov_recent v) \<subseteq> {Some l}" if "fst (overview_page e rq c) = Page st t v" for st t v
    using overview_own [OF that assms(2,3)] by blast
  show "fst ` set rows \<subseteq> {Some l}" if "fst (cost_page e rq c) = Page st t (rows, own)" for st t rows own
    using cost_own [OF that assms(2,3)] by blast
  show "\<forall>r \<in> set rows. t_creator (fst r) = l \<or> t_shared (fst r)" if "fst (templates_page e rq c) = Page st t rows" for st t rows
    using templates_own [OF that assms(2,3)] by blast
qed (use admin_pages_refused [OF assms] in blast)+

section \<open>Revealing a credential\<close>

definition may_reveal :: "page_env \<Rightarrow> cred_env \<Rightarrow> request \<Rightarrow> string \<Rightarrow> bool" where
  "may_reveal e ce rq env \<longleftrightarrow> logged_in rq \<and> dashboard_label rq \<noteq> None \<and> dash_admin e rq \<and> ce_cipher ce \<noteq> None \<and> env \<in> set ALLOWED_ENV_NAMES"

definition asked :: "cred_env \<Rightarrow> string \<Rightarrow> string \<Rightarrow> cred_row list \<Rightarrow> string option" where
  "asked ce user env rows = map_of (get_for_user (ce_cipher ce) user rows) env"

lemma refused_cells:
  assumes "\<not> may_reveal e ce rq env"
  shows "snd (admin_credentials_reveal_cell e ce rq user env w) = w"
    and "fst (admin_credentials_reveal_cell e ce rq user env w) = fst (admin_credentials_reveal_cell e ce rq user env w2)"
    and "admin_credentials_mask_cell e ce rq user env rows = admin_credentials_mask_cell e ce rq user env rows2"
proof -
  have "\<not> logged_in rq \<or> (\<exists>r. admin_creds_cell_guard e ce rq = Inl r) \<or> env \<notin> set ALLOWED_ENV_NAMES"
    using assms by (cases "dashboard_label rq"; cases "ce_cipher ce") (auto simp: may_reveal_def admin_creds_cell_guard_def)
  then consider "\<not> logged_in rq" | r where "logged_in rq" "admin_creds_cell_guard e ce rq = Inl r"
    | l where "logged_in rq" "admin_creds_cell_guard e ce rq = Inr l" "env \<notin> set ALLOWED_ENV_NAMES"
    by (cases "admin_creds_cell_guard e ce rq") auto
  then show "snd (admin_credentials_reveal_cell e ce rq user env w) = w"
    "fst (admin_credentials_reveal_cell e ce rq user env w) = fst (admin_credentials_reveal_cell e ce rq user env w2)"
    "admin_credentials_mask_cell e ce rq user env rows = admin_credentials_mask_cell e ce rq user env rows2"
    by (cases; simp add: admin_credentials_reveal_cell_def admin_credentials_mask_cell_def require_session_def)+
qed


section \<open>What the pages leave open\<close>

text \<open>
  A pending tool call is decided by whoever is logged in, of whatever role, for whatever session: the answer and the effect do not depend on the
  user, and with a full request id not on the session of the address either. A decision made in the meantime is not caught.
\<close>

lemma any_user_decides:
  "logged_in rq \<Longrightarrow> logged_in rq2 \<Longrightarrow> session_hitl_resolve rq sid req dec reason db co = session_hitl_resolve rq2 sid req dec reason db co"
  by (simp add: session_hitl_resolve_def require_session_def)

lemma any_session_decided:
  "CHR '':'' \<in> set req \<Longrightarrow> session_hitl_resolve rq sid req dec reason db co = session_hitl_resolve rq sid2 req dec reason db co"
proof -
  assume "CHR '':'' \<in> set req"
  then have "full_req_id sid req = full_req_id sid2 req" by (simp add: full_req_id_def)
  then show ?thesis by (simp only: session_hitl_resolve_def)
qed

lemma late_decision_fails:
  assumes "logged_in rq" "dec \<in> {''accept'', ''deny''}" "store_attached co" "get_hitl (full_req_id sid req) db = Some row" "h_status row \<noteq> ''pending''"
  shows "session_hitl_resolve rq sid req dec reason db co = (ServerError, co)"
  using assms by (auto simp: session_hitl_resolve_def require_session_def Hitl_Coordinator.resolve_def)

text \<open>Without a filter the board shows every user the same cards: those of all owners.\<close>

lemma board_unscoped:
  "logged_in rq \<Longrightarrow> logged_in rq2 \<Longrightarrow> kanban_page e rq None None None c = kanban_page e rq2 None None None c"
  "logged_in rq \<Longrightarrow> logged_in rq2 \<Longrightarrow> kanban_board_partial e rq after c = kanban_board_partial e rq2 after c"
  "logged_in rq \<Longrightarrow> logged_in rq2 \<Longrightarrow> session_detail_page e co rq sid c = session_detail_page e co rq2 sid c"
  by (simp_all add: kanban_page_def kanban_board_partial_def session_detail_page_def require_session_def has_filter_def is_set_def text_within_def)

text \<open>A user without an entry in the role mapping gets a key of a submitter at the start, and the dashboard treats the same user as a viewer.\<close>

lemma roles_disagree:
  assumes "dashboard_username rq = Some u" "u \<in> set (od_keys (parse_dashboard_users (dashboard_users_raw cf)))" "u \<noteq> ''admin''"
    and "map_of (parse_role_mapping (role_mapping_raw cf)) (dash_label u) = None"
  shows "(u, ''submitter'') \<in> set (users_to_mint cf) \<and> dashboard_role cf rq = ''viewer''"
  using assms by (auto simp: users_to_mint_def Let_def dashboard_role_def dashboard_label_def LEGACY_ADMIN_LABEL_def dash_label_def)

text \<open>A password outside ASCII tried on the account of the administrator ends the request with an exception.\<close>

lemma password_outside_ascii:
  "map_of (dashboard_users cf) ''admin'' = None \<Longrightarrow> dashboard_admin_password cf = Some pw \<Longrightarrow> \<not> ascii password \<Longrightarrow>
     login_post checkpw cf ''admin'' password session = (Raises TypeError, session)"
  by (simp add: login_post_def verify_dashboard_user_def verify_admin_def)

text \<open>The templates page never asks for the templates of others, so an administrator sees no more than a user.\<close>

lemma administrator_sees_no_private:
  "dashboard_label rq = Some l \<Longrightarrow> fst (templates_page e rq (s, [])) = Page st t rows \<Longrightarrow> r \<in> set rows \<Longrightarrow> t_creator (fst r) = l \<or> t_shared (fst r)"
  by (auto simp: templates_page_def shown_defs list_templates_def reading_def await_def split: if_splits dest!: in_set_takeD)

section \<open>Who gets in\<close>

text \<open>A login sets the cookie exactly for the right password, and after a logout no page but the login is shown.\<close>

lemma login_exact:
  "dashboard_admin_password cf = Some pw \<Longrightarrow> ascii pw \<Longrightarrow> ascii password \<Longrightarrow>
     map_of (snd (login_post checkpw cf u password session)) SESSION_KEY =
       (if verify_dashboard_user checkpw cf u password \<or> u = ''admin'' \<and> password = pw then Some (PStr u) else map_of session SESSION_KEY)"
  by (auto simp: login_post_def verify_admin_def AList.update_conv')

lemma logout_closes:
  "rq_session rq = Some (snd (logout session)) \<Longrightarrow> require_session rq c handler = (Redirect 303 ''/dashboard/login'', c)"
  by (simp add: logout_def require_session_def logged_in_def session_user_def AList.delete_conv)

section \<open>The stream\<close>

text \<open>Whatever the tasks, the bus and the client do, the queue stays within its size and no more chunks go out than were asked for.\<close>

definition feed_ok :: "kanban_feed \<Rightarrow> bool" where
  "feed_ok s \<longleftrightarrow> length (ks_queue s) \<le> QUEUE_SIZE
     \<and> (case ks_max s of None \<Rightarrow> True | Some n \<Rightarrow> length (ks_out s) \<le> n \<and> (ks_state s = Streaming \<longrightarrow> length (ks_out s) < n))"

lemma emit_ok: "feed_ok s \<Longrightarrow> ks_state s = Streaming \<Longrightarrow> feed_ok (emit_chunk t s)"
  by (auto simp: feed_ok_def emit_chunk_def Let_def split: option.splits)

lemma settle_fst [simp]: "fst (settle_feed c) = fst c"
  by (simp add: settle_feed_def)

lemma put_ok: "feed_ok s \<Longrightarrow> feed_ok (put_item k x s)"
  by (auto simp: feed_ok_def put_item_def split: option.splits)

lemma drain_ok:
  assumes "feed_ok (fst c)"
  shows "feed_ok (fst (drain_feed k c))"
proof -
  have "feed_ok ((fst c)\<lparr>ks_started := (ks_started (fst c))(k := True)\<rparr>)" using assms by (auto simp: feed_ok_def split: option.splits)
  then show ?thesis by (auto simp: drain_feed_def Let_def put_ok split: option.split prod.split iter_out.split)
qed

lemma next_ok:
  assumes "feed_ok s" "ks_state s = Streaming"
  shows "feed_ok (next_chunk te s)"
proof (cases "ks_queue s")
  case Nil
  then show ?thesis using emit_ok [OF assms] by (simp add: next_chunk_def)
next
  case (Cons x xs)
  then have "feed_ok (s\<lparr>ks_queue := xs\<rparr>)" "ks_state (s\<lparr>ks_queue := xs\<rparr>) = Streaming" using assms by (auto simp: feed_ok_def split: option.splits)
  moreover have "feed_ok (s\<lparr>ks_queue := xs, ks_state := Crashed e\<rparr>)" for e using assms Cons by (auto simp: feed_ok_def split: option.splits)
  ultimately show ?thesis using Cons by (auto simp: next_chunk_def emit_ok split: sum.split)
qed

lemma left_ok: "feed_ok s \<Longrightarrow> feed_ok (s\<lparr>ks_state := Returned\<rparr>)"
  by (auto simp: feed_ok_def split: option.splits)

lemma feed_step_ok: "feed_ok (fst c) \<Longrightarrow> feed_ok (fst (feed_step te m c))"
  by (cases m) (simp_all add: drain_ok next_ok left_ok)

lemma feed_bounded:
  assumes "mx \<noteq> Some 0"
  shows "feed_ok (fst (feed_run te ms (open_feed mx b)))"
proof -
  have "feed_ok (fst (open_feed mx b))"
    using assms by (auto simp: open_feed_def feed_ok_def emit_chunk_def Let_def split: prod.splits option.splits)
  then have "feed_ok (fst (fold (feed_step te) ms c))" if "feed_ok (fst c)" for c
    using that by (induction ms arbitrary: c) (simp_all add: feed_step_ok)
  then show ?thesis using \<open>feed_ok (fst (open_feed mx b))\<close> by (simp add: feed_run_def)
qed

lemma chunk_limit_positive: "chunk_limit rq \<noteq> Some 0"
  by (auto simp: chunk_limit_def split: option.splits sum.splits)

text \<open>A stream that has ended stays as it is, and so does the bus.\<close>

lemma feed_over: "ks_state (fst c) \<noteq> Streaming \<Longrightarrow> feed_run te ms c = c"
proof (induction ms arbitrary: c)
  case Nil
  then show ?case by (simp add: feed_run_def)
next
  case (Cons m ms)
  then have "feed_step te m c = c" by (cases m) auto
  then show ?case using Cons by (simp add: feed_run_def)
qed

text \<open>The number of chunks is taken from any client that sends the header meant for tests, and everybody logged in gets everybody's events.\<close>

lemma header_honoured: "get_header ''x-test-max-chunks'' rq = Some ''1'' \<Longrightarrow> logged_in rq \<Longrightarrow>
    \<exists>s b1. kanban_stream rq b = (Page 200 ''text/event-stream'' s, b1) \<and> ks_state s = Returned"
proof -
  assume a: "get_header ''x-test-max-chunks'' rq = Some ''1''" "logged_in rq"
  have "int_of_str ''1'' = Inr 1" by code_simp
  then have "chunk_limit rq = Some 1" using a(1) by (simp add: chunk_limit_def)
  then show ?thesis using a(2)
    by (simp add: kanban_stream_def require_session_def open_feed_def emit_chunk_def settle_feed_def Let_def split: prod.splits)
qed

lemma stream_unscoped: "logged_in rq \<Longrightarrow> logged_in rq2 \<Longrightarrow> chunk_limit rq = chunk_limit rq2 \<Longrightarrow> kanban_stream rq b = kanban_stream rq2 b"
  by (simp add: kanban_stream_def require_session_def)

section \<open>Witnesses\<close>

definition demo_page :: page_env where
  "demo_page = \<lparr>pg_team = demo_team_env, pg_search = demo_search,
     pg_config = demo_config\<lparr>role_mapping_raw := ''dashboard-ann=submitter,dashboard-root=admin''\<rparr>, pg_size = 50, pg_executor = ''docker'', pg_str = (\<lambda>_. []), pg_cursor_text = (\<lambda>_. [])\<rparr>"

definition cookie_of :: "string \<Rightarrow> request" where
  "cookie_of u = (demo_caller u)\<lparr>rq_session := Some [(SESSION_KEY, PStr u)]\<rparr>"

definition two_owners :: team where
  "two_owners = demo_tables\<lparr>team_db := snd (create_session ''c'' [] None ''inprocess'' [] 9 (Some ''dashboard-ann'') None None demo_store)\<rparr>"

lemma dashboard_scoped_witness:
  "\<exists>its x. fst (sessions_list_view demo_page (cookie_of ''ann'') (Some ''bob'') None None None 50 (two_owners, [])) = Page 200 ''list.html'' (its, x)
     \<and> map li_id its = [''c''] \<and> li_owner ` set its \<subseteq> {Some ''dashboard-ann''}"
proof -
  let ?r = "fst (sessions_list_view demo_page (cookie_of ''ann'') (Some ''bob'') None None None 50 (two_owners, []))"
  have "(case ?r of Page st t (its, x) \<Rightarrow> st = 200 \<and> t = ''list.html'' \<and> map li_id its = [''c''] | _ \<Rightarrow> False)" by code_simp
  then obtain its x where r: "?r = Page 200 ''list.html'' (its, x)" "map li_id its = [''c'']"
    by (auto split: shown.splits prod.splits)
  have k: "logged_in (cookie_of ''ann'')" "dashboard_label (cookie_of ''ann'') = Some ''dashboard-ann''" "\<not> dash_admin demo_page (cookie_of ''ann'')"
    by code_simp+
  have "li_owner ` set its \<subseteq> {Some ''dashboard-ann''}"
    by (rule dashboard_scoped [THEN conjunct1, THEN spec, THEN spec, THEN spec, THEN spec, THEN mp, OF k r(1)])
  with r show ?thesis by (intro exI conjI)
qed


end
