(* ===== verification/Spec2Isabelle.thy ===== *)
theory Spec2Isabelle
  imports Sse_Stream Rate_Limit Runner_Core Egress_Proxy User_Credentials Executors Redis_Bus Reports Boot Telemetry Dashboard
begin

text \<open>
  A verification development for gg-proxy (the package \<open>gg_relay\<close> under \<open>src/src/gg_relay\<close>), a
  server that runs coding-agent sessions: clients submit sessions, a manager runs them in
  executors, persists their frames, publishes typed events, asks humans for tool decisions
  (HITL) and streams everything to subscribers.

  Parts and theories, in the order of their dependencies:

  \<^item> \<open>Relay_Prelude\<close>, \<open>Py_Values\<close>, \<open>Json_Values\<close>: shared vocabulary. Exceptions as values,
    insertion-ordered dictionaries as association lists, dynamically typed Python values with
    the built-ins the sources apply to them, and what JSON does to such values.
  \<^item> \<open>Session_Domain\<close> (\<open>core/domain.py\<close>, \<open>core/exceptions.py\<close>): the session state machine and
    the classification of SDK errors.
  \<^item> \<open>Relay_Events\<close> (\<open>core/events.py\<close>): the typed events and the factories that turn a wire
    frame into an event. Every well-formed frame converts.
  \<^item> \<open>Event_Bus\<close> (\<open>core/event_bus.py\<close>): subscribers with bounded buffers, publish with its
    waits, close. Buffers stay bounded, a lossy subscriber holds the newest events in order,
    close drains.
  \<^item> \<open>Retention\<close> (\<open>maintenance/retention.py\<close>) and \<open>Durable_Store\<close> (\<open>store/durable_event.py\<close>):
    the batched purge, the durable event log of the bus as a locale with its SQL and in-memory
    interpretations. A durable event is persisted before anyone sees it; replay from a cursor
    is complete.
  \<^item> \<open>Keyset_Page\<close>, \<open>Session_Store\<close> (\<open>store/repository.py\<close>, \<open>store/schema.py\<close>): the tables, the
    version-checked writes as a locale interpreted for sessions and HITL rows, cursor
    pagination, aggregates, startup sweeps.
  \<^item> \<open>Sse_Stream\<close> (\<open>api/sse.py\<close>): cursor parsing and the phases of an event stream.
  \<^item> \<open>Hitl_Coordinator\<close> (\<open>session/hitl/coordinator.py\<close>, \<open>api/routers/hitl.py\<close>): pending
    decisions and the endpoints that settle them.
  \<^item> \<open>Regex_Match\<close>, \<open>Redaction\<close> (\<open>redaction/engine.py\<close>): the regular expressions of the
    redaction rules and the engine built on them.
  \<^item> \<open>Session_Spec\<close> (\<open>session/spec.py\<close>): the session spec and its JSON form.
  \<^item> \<open>Session_Manager\<close> (\<open>session/manager.py\<close>): the manager's state and every method that changes
    it; \<open>Manager_Slots\<close>: concurrency slots and pause accounting over interleavings of its atomic
    steps; \<open>Manager_Calls\<close>: the locale of predicates that suspensions keep, the paused caps,
    pause and resume; \<open>Manager_Life\<close>: runs, endings, frames, submissions, retries, shutdown.

  \<^item> \<open>Rate_Limit\<close> (\<open>api/middleware/rate_limit.py\<close>, \<open>cluster/redis_rate_limit.py\<close>): both token
    buckets as interpretations of one locale, and the middleware. No window lets more through than
    burst plus refill, the two limiters answer alike, the announced waiting time is enough.
  \<^item> \<open>Team_Store\<close> (\<open>store/repository.py\<close>): audit log, comments, favorites and templates.
  \<^item> \<open>Api_Keys\<close>, \<open>Access_Control\<close> (\<open>auth\<close>, \<open>api/middleware\<close>, \<open>api/dependencies/require_role.py\<close>,
    \<open>api/routers/admin_keys.py\<close>, \<open>store/dashboard_keys.py\<close>): keys, the caching resolver, the two
    authentication middlewares, role checks and key administration. A route is reached exactly with a
    live key of sufficient role; a revocation takes effect within the cache lifetime whatever the
    interleaving; administration keeps an administrator.
  \<^item> \<open>Wire_Frames\<close> (\<open>session/frames.py\<close>): the frame builders; what they build converts back to the
    event meant.
  \<^item> \<open>Control_Bridge\<close> (\<open>session/control.py\<close>, \<open>session/runner\<close>): pause and resume between host and
    runner, in process and over the wire, heartbeats and tool decisions. Acknowledgements are sound
    over every interleaving, the two bridges agree, heartbeats declare a runner lost exactly when
    they should.
  \<^item> \<open>Tool_Policy\<close> (\<open>session/hitl/policy.py\<close>): shell patterns and the policy that decides which tool
    calls need a human; exactly what the default policy accepts.
  \<^item> \<open>Runner_Core\<close> (\<open>session/client.py\<close>, \<open>session/hooks.py\<close>): the loop over SDK messages, permission
    callbacks, hooks, pre-run commands. Frames never collide in the store, results are paired with
    their requests, and completion is reported only when it happened.
  \<^item> \<open>Json_Text\<close>: the JSON printer and reader of the standard library at the level of characters;
    reading back what was printed.
  \<^item> \<open>Transports\<close> (\<open>session/transport\<close>): line-oriented JSON over sockets, the token handshake and the
    in-memory pair, as interpretations of one locale. What is received is what was sent, however the
    bytes arrive; only the token opens a connection.
  \<^item> \<open>Egress_Proxy\<close> (\<open>proxy\<close>): the forward proxy of the containers and its audit log, from the text of
    a request to the hosts contacted.
  \<^item> \<open>Team_Api\<close> (\<open>api/routers/comments.py\<close>, \<open>templates.py\<close>, the favorites of \<open>sessions.py\<close>) and
    \<open>Sessions_Api\<close> (\<open>api/routers/sessions.py\<close>, \<open>api/schemas.py\<close>): request validation, role and
    ownership checks and the answer of every branch, over the store and the manager. A submission is
    all or nothing, searches stay with their owner, a batch answers for each id.
  \<^item> \<open>User_Credentials\<close> (\<open>store/user_credentials.py\<close>, \<open>api/routers/user_credentials.py\<close>): the encrypted
    table refines a map, its endpoints disclose no value, and a stored key reaches the next session.
  \<^item> \<open>Executors\<close> (\<open>session/executor\<close>): the in-process, Docker and Kubernetes backends as
    interpretations of one locale. Starts that fail and stops leave nothing behind; the runner reads
    back the spec.

  \<^item> \<open>Im_Notify\<close> (\<open>im\<close>): the Feishu cards, their delivery and the signed webhook. The button a person
    presses decides exactly the request its card was built for; unsigned callbacks change nothing.
  \<^item> \<open>Alerts\<close> (\<open>subscribers/alert_router.py\<close>, \<open>failure_subscriber.py\<close>): alert rules and the cooldown,
    equivalent to a specification over the whole history.
  \<^item> \<open>Startup_Recovery\<close> (\<open>session/recovery.py\<close>): the sweeps over rows of an earlier process and the
    watchdogs of paused sessions.
  \<^item> \<open>Redis_Bus\<close> (\<open>cluster/wire.py\<close>, \<open>cluster/redis_bus.py\<close>): events as stream entries. The wire format
    agrees with the events table; the pump delivers every entry once and in order over every interleaving
    with the writers.
  \<^item> \<open>Reports\<close> (\<open>api/routers/cost.py\<close>, \<open>audit.py\<close>, \<open>trace.py\<close>, \<open>health.py\<close>, \<open>admin_drain.py\<close>,
    \<open>api/middleware/audit.py\<close>): the cost reports with their CSV export, the audit listing, the probes and
    the fallback audit. Reports stay with their reader; the fallback writes one row per mutation.
  \<^item> \<open>Boot\<close> (\<open>config.py\<close>, \<open>cluster/boot_check.py\<close>, \<open>cluster/factory.py\<close>, \<open>api/main.py\<close>, \<open>cli.py\<close>): what
    settings mean, exactly when a process starts and on what, the keys it mints, the commands, a whole
    retention run.
  \<^item> \<open>Telemetry\<close> (\<open>tracing\<close>, \<open>subscribers/cost_metric_subscriber.py\<close>): spans, counters and the task
    trace. Every span ends once.
  \<^item> \<open>Dashboard\<close> (\<open>dashboard/router.py\<close>): login, who a cookie stands for, the data of every page and the
    event stream of the board. Below admin the filtered pages show own rows only; a stored credential is
    revealed to administrators with an audit row written first. What the pages leave open is stated too:
    the unfiltered board, the decision form, the stream.

  State is explicit: a record per component, returned updated. Concurrency is that of one
  asyncio event loop: a method is atomic between its awaits, and what other tasks do at an await
  is a function on the state taken from a script, so a theorem that quantifies over scripts holds
  under every interleaving the hypotheses allow. Errors are values of sum types. Loops are
  structural recursions or functions with a termination proof; the places with fuel are
  \<open>run_iter\<close> of the bus and \<open>follow_pages\<close> of the store, both clients of the modelled code, which
  come with theorems that a stated amount of fuel suffices, and the JSON reader, whose depth bound is
  the length of the text, enough for every printed value (\<open>loads_text\<close>); the pages of \<open>replay_pages\<close>
  are bounded by the length of the stream, each page being an entry at least. Properties that span components are
  stated where their last component is: the manager theories join manager, store, bus, coordinator
  and redaction, \<open>Control_Bridge\<close> joins bridges, frames and coordinator, \<open>Runner_Core\<close> joins runner,
  policy, frames, hooks and the frames table, \<open>Sessions_Api\<close> and \<open>User_Credentials\<close> join endpoints,
  access control, manager and tables.

  Code outside the repository appears as a parameter: the cursor codec (JSON and base64), \<open>repr\<close>
  of floats, \<open>str\<close> of values that are not text, ISO time stamps, the audit sink and the credential
  store of the manager, the cipher of the credentials table, what each call of a Docker or Kubernetes
  client did, whether a host accepts a connection, bcrypt and MD5, key hashing and the TTL cache of the resolver (with its laws as hypotheses),
  what a path resolves to, and the Claude SDK, whose messages arrive as values. Time stamps are integers (microseconds) and floats are exact rationals or
  the non-finite values; strings are ASCII.

  Not modelled: the HTML the dashboard's templates write from their data, the wiring of the application
  beyond the steps that can stop its start, migrations, the operating system's side of sockets and containers, Redis
  itself (the stream is its list of entries), HTTP and the HMAC of the webhook, the exporters of spans and
  metrics.
\<close>

end
